(* ===== verification/Prelude.thy ===== *)
theory Prelude
  imports Main "HOL-Library.Word" "HOL-Library.Multiset"
begin

unbundle bit_operations_syntax

text \<open>
  Shared vocabulary of the development: the machine integers of the C sources, the faults
  a C expression can end in (written out as values, because every HOL function is total),
  the error-propagating composition \<open>bindE\<close>, bounds-checked array access, and the
  generic lemmas on lists and words that the component theories use.

  The macro \<open>ASSERT\<close> of src/src/utility/infracture.h only prints to stderr and goes on, so it
  has no counterpart in the models. The macro \<open>assert\<close> of the same header is
  \<open>if (!c) exit(-1)\<close>; it is the fault \<open>ExitFailure\<close>, as is the \<open>exit(1)\<close> of a driver that does not know an
  argument. Memory allocation is taken to succeed.
\<close>

type_synonym u8 = "8 word"
type_synonym u32 = "32 word"
type_synonym u64 = "64 word"

datatype fault =
    NullDeref       \<comment> \<open>a null pointer is dereferenced\<close>
  | OutOfBounds     \<comment> \<open>an array is accessed outside its bounds\<close>
  | UseAfterFree    \<comment> \<open>a pointer to a freed object is dereferenced\<close>
  | BadListEntry    \<comment> \<open>\<open>list_entry\<close> applied to a list head instead of a member\<close>
  | DivByZero       \<comment> \<open>integer division by zero\<close>
  | ExitFailure     \<comment> \<open>\<open>assert\<close> failed: \<open>exit(-1)\<close>; or \<open>exit(1)\<close>\<close>
  | Diverged        \<comment> \<open>a waiting loop outlives the given schedule of the other threads\<close>

named_theorems fault_iff \<open>when a composed operation returns normally\<close>
named_theorems inv_pres \<open>an operation keeps the invariant of its component\<close>

subsection \<open>Operations that can fault\<close>

definition bindE :: "'e + 'a \<Rightarrow> ('a \<Rightarrow> 'e + 'b) \<Rightarrow> 'e + 'b" where
  "bindE m f = (case m of Inl e \<Rightarrow> Inl e | Inr x \<Rightarrow> f x)"

lemma bindE_simps [simp]:
  "bindE (Inl e) f = Inl e"
  "bindE (Inr x) f = f x"
  by (simp_all add: bindE_def)

lemma bindE_eq_Inr [fault_iff]: "bindE m f = Inr y \<longleftrightarrow> (\<exists>x. m = Inr x \<and> f x = Inr y)"
  by (cases m) auto

lemma bindE_eq_Inl: "bindE m f = Inl e \<longleftrightarrow> m = Inl e \<or> (\<exists>x. m = Inr x \<and> f x = Inl e)"
  by (cases m) auto

lemma bindE_cong [fundef_cong]:
  "m = m' \<Longrightarrow> (\<And>x. m' = Inr x \<Longrightarrow> f x = f' x) \<Longrightarrow> bindE m f = bindE m' f'"
  by (cases m') auto

definition arr_get :: "'a list \<Rightarrow> nat \<Rightarrow> fault + 'a" where
  "arr_get xs i = (if i < length xs then Inr (xs ! i) else Inl OutOfBounds)"

definition arr_set :: "'a list \<Rightarrow> nat \<Rightarrow> 'a \<Rightarrow> fault + 'a list" where
  "arr_set xs i v = (if i < length xs then Inr (xs[i := v]) else Inl OutOfBounds)"

definition load :: "(nat \<rightharpoonup> 'a) \<Rightarrow> nat \<Rightarrow> fault + 'a" where
  "load m a = (case m a of None \<Rightarrow> Inl UseAfterFree | Some x \<Rightarrow> Inr x)"

lemma load_simps [simp]:
  "m a = None \<Longrightarrow> load m a = Inl UseAfterFree"
  "m a = Some x \<Longrightarrow> load m a = Inr x"
  by (simp_all add: load_def)

lemma arr_get_in [simp]: "i < length xs \<Longrightarrow> arr_get xs i = Inr (xs ! i)"
  by (simp add: arr_get_def)

lemma arr_set_in [simp]: "i < length xs \<Longrightarrow> arr_set xs i v = Inr (xs[i := v])"
  by (simp add: arr_set_def)

lemma arr_get_out [simp]: "length xs \<le> i \<Longrightarrow> arr_get xs i = Inl OutOfBounds"
  by (simp add: arr_get_def)

lemma arr_set_out [simp]: "length xs \<le> i \<Longrightarrow> arr_set xs i v = Inl OutOfBounds"
  by (simp add: arr_set_def)

lemma arr_get_eq_Inr [fault_iff]: "arr_get xs i = Inr x \<longleftrightarrow> i < length xs \<and> x = xs ! i"
  by (auto simp: arr_get_def)

lemma arr_set_eq_Inr [fault_iff]: "arr_set xs i v = Inr ys \<longleftrightarrow> i < length xs \<and> ys = xs[i := v]"
  by (auto simp: arr_set_def)

subsection \<open>Words as counters\<close>

lemma unat_inc32: "unat (x :: u32) < 4294967295 \<Longrightarrow> unat (x + 1) = Suc (unat x)"
  by (simp add: unat_word_ariths)

lemma unat_dec32: "(x :: u32) \<noteq> 0 \<Longrightarrow> unat (x - 1) = unat x - 1"
  by (metis unat_minus_one)

lemma unat_lt2p32: "unat (x :: u32) < 4294967296"
  using unsigned_less [of x, where ?'a = nat] by simp

lemma unat_of_nat_len32: "a < 4294967296 \<Longrightarrow> unat (of_nat a :: u32) = a"
  by (simp add: unat_of_nat take_bit_nat_eq_self)

lemma of_nat_u32_inject:
  "a < 4294967296 \<Longrightarrow> b < 4294967296 \<Longrightarrow> (of_nat a :: u32) = of_nat b \<longleftrightarrow> a = b"
  by (metis unat_of_nat_len32)

subsection \<open>Bytes of little-endian words\<close>

definition bytes_of_u32 :: "u32 \<Rightarrow> u8 list" where
  "bytes_of_u32 w = map (\<lambda>i. ucast (drop_bit (8 * i) w)) [0..<4]"

definition bytes_of_u64 :: "u64 \<Rightarrow> u8 list" where
  "bytes_of_u64 w = map (\<lambda>i. ucast (drop_bit (8 * i) w)) [0..<8]"

lemma length_bytes_of_u32 [simp]: "length (bytes_of_u32 w) = 4"
  by (simp add: bytes_of_u32_def)

lemma length_bytes_of_u64 [simp]: "length (bytes_of_u64 w) = 8"
  by (simp add: bytes_of_u64_def)

lemma bit_byte_u64:
  assumes "n < 64"
  shows "bit (w :: u64) n \<longleftrightarrow> bit (bytes_of_u64 w ! (n div 8)) (n mod 8)"
proof -
  have "n div 8 < 8" using assms by (simp add: less_mult_imp_div_less)
  moreover have "8 * (n div 8) + n mod 8 = n" by simp
  ultimately show ?thesis
    by (simp add: bytes_of_u64_def bit_ucast_iff bit_drop_bit_eq del: upt_rec_numeral)
qed

lemma bit_byte_u32:
  assumes "n < 32"
  shows "bit (w :: u32) n \<longleftrightarrow> bit (bytes_of_u32 w ! (n div 8)) (n mod 8)"
proof -
  have "n div 8 < 4" using assms by (simp add: less_mult_imp_div_less)
  moreover have "8 * (n div 8) + n mod 8 = n" by simp
  ultimately show ?thesis
    by (simp add: bytes_of_u32_def bit_ucast_iff bit_drop_bit_eq del: upt_rec_numeral)
qed

lemma bytes_of_u64_inject [simp]: "bytes_of_u64 v = bytes_of_u64 w \<longleftrightarrow> v = w"
proof
  assume eq: "bytes_of_u64 v = bytes_of_u64 w"
  show "v = w"
  proof (rule bit_word_eqI)
    fix n assume "n < LENGTH(64)"
    then have n: "n < 64" by simp
    show "bit v n = bit w n" by (simp only: bit_byte_u64 [OF n] eq)
  qed
qed simp

lemma bytes_of_u32_inject [simp]: "bytes_of_u32 v = bytes_of_u32 w \<longleftrightarrow> v = w"
proof
  assume eq: "bytes_of_u32 v = bytes_of_u32 w"
  show "v = w"
  proof (rule bit_word_eqI)
    fix n assume "n < LENGTH(32)"
    then have n: "n < 32" by simp
    show "bit v n = bit w n" by (simp only: bit_byte_u32 [OF n] eq)
  qed
qed simp

subsection \<open>Lists\<close>

lemma count_list_update_filter:
  assumes "i < length xs"
  shows "length (filter P (xs[i := v])) + (if P (xs ! i) then 1 else 0)
       = length (filter P xs) + (if P v then 1 else 0)"
  using assms
proof (induction xs arbitrary: i)
  case Nil
  then show ?case by simp
next
  case (Cons x xs)
  then show ?case by (cases i) auto
qed

lemma sum_list_update_eq:
  assumes "i < length (xs :: nat list)"
  shows "sum_list (xs[i := v]) + xs ! i = sum_list xs + v"
  using assms
proof (induction xs arbitrary: i)
  case Nil
  then show ?case by simp
next
  case (Cons x xs)
  then show ?case by (cases i) (auto simp: algebra_simps)
qed

end
