(* ===== verification/Hash_Func.thy ===== *)
theory Hash_Func
  imports Prelude
begin

text \<open>
  The hash function of src/src/utility/hash.h (a MurmurHash2 variant) over the bytes of the key.
  The 4-byte blocks are read little-endian; the bytes of the tail are C \<open>char\<close>s, so they are
  sign-extended before they are shifted in (gcc on x86).
\<close>

definition hash_m :: u32 where "hash_m = 0x5bd1e995"

definition load_u32 :: "u8 \<Rightarrow> u8 \<Rightarrow> u8 \<Rightarrow> u8 \<Rightarrow> u32" where
  "load_u32 b0 b1 b2 b3 =
     ucast b0 OR push_bit 8 (ucast b1) OR push_bit 16 (ucast b2) OR push_bit 24 (ucast b3)"

definition mix_block :: "u32 \<Rightarrow> u32 \<Rightarrow> u32" where
  "mix_block h k0 =
     (let k1 = k0 * hash_m; k2 = k1 XOR drop_bit 24 k1; k3 = k2 * hash_m
      in (h * hash_m) XOR k3)"

fun hash_loop :: "u32 \<Rightarrow> u8 list \<Rightarrow> u32 \<times> u8 list" where
  "hash_loop h (b0 # b1 # b2 # b3 # r) = hash_loop (mix_block h (load_u32 b0 b1 b2 b3)) r"
| "hash_loop h r = (h, r)"

fun hash_tail :: "u32 \<Rightarrow> u8 list \<Rightarrow> u32" where
  "hash_tail h [a, b, c] =
     (h XOR push_bit 16 (scast c) XOR push_bit 8 (scast b) XOR scast a) * hash_m"
| "hash_tail h [a, b] = (h XOR push_bit 8 (scast b) XOR scast a) * hash_m"
| "hash_tail h [a] = (h XOR scast a) * hash_m"
| "hash_tail h _ = h"

definition hash_final :: "u32 \<Rightarrow> u32" where
  "hash_final h0 =
     (let h1 = h0 XOR drop_bit 13 h0; h2 = h1 * hash_m in h2 XOR drop_bit 15 h2)"

definition HashFunc :: "u8 list \<Rightarrow> u32 \<Rightarrow> u32 \<Rightarrow> u32" where
  "HashFunc key keySize seed =
     (let (h, r) = hash_loop (seed XOR 4) (take (unat keySize) key)
      in hash_final (hash_tail h r))"

text \<open>The loop leaves fewer than four bytes, so the \<open>switch\<close> covers every case.\<close>

lemma hash_loop_rest: "length (snd (hash_loop h bs)) = length bs mod 4"
  by (induction h bs rule: hash_loop.induct) auto

text \<open>Only the first \<open>keySize\<close> bytes matter.\<close>

lemma HashFunc_prefix: "HashFunc (take (unat n) key) n s = HashFunc key n s"
  by (simp add: HashFunc_def)

end
