(* ===== verification/List_Head.thy ===== *)
theory List_Head
  imports Prelude
begin

text \<open>
  The intrusive doubly linked circular lists of src/src/utility/infracture.h, on an explicit heap
  of nodes (an address is a \<open>nat\<close>; \<open>nxt\<close> and \<open>prv\<close> are the two pointer fields). Every
  operation is the sequence of pointer writes of the C function, in its order. The predicate
  \<open>dlist h p xs\<close> says that the node \<open>p\<close> is the head of a circular list whose members are
  \<open>xs\<close>, in \<open>next\<close> order. The lemmas show what each operation does to that list: the other
  theories model a queue as the HOL list that this predicate exposes.
\<close>

record node_heap =
  nxt :: "nat \<Rightarrow> nat"
  prv :: "nat \<Rightarrow> nat"

definition set_next :: "nat \<Rightarrow> nat \<Rightarrow> node_heap \<Rightarrow> node_heap" where
  "set_next p q h = h\<lparr>nxt := (nxt h)(p := q)\<rparr>"

definition set_prev :: "nat \<Rightarrow> nat \<Rightarrow> node_heap \<Rightarrow> node_heap" where
  "set_prev p q h = h\<lparr>prv := (prv h)(p := q)\<rparr>"

definition INIT_LIST_HEAD :: "nat \<Rightarrow> node_heap \<Rightarrow> node_heap" where
  "INIT_LIST_HEAD p h = set_prev p p (set_next p p h)"

definition list_empty :: "nat \<Rightarrow> node_heap \<Rightarrow> bool" where
  "list_empty p h \<longleftrightarrow> nxt h p = p"

definition list_add_between :: "nat \<Rightarrow> nat \<Rightarrow> nat \<Rightarrow> node_heap \<Rightarrow> node_heap" where
  "list_add_between new prev next h =
     set_next prev new (set_prev new prev (set_next new next (set_prev next new h)))"

definition list_add :: "nat \<Rightarrow> nat \<Rightarrow> node_heap \<Rightarrow> node_heap" where
  "list_add new p h = list_add_between new p (nxt h p) h"

definition list_del_between :: "nat \<Rightarrow> nat \<Rightarrow> node_heap \<Rightarrow> node_heap" where
  "list_del_between prev next h = set_next prev next (set_prev next prev h)"

definition list_del_init :: "nat \<Rightarrow> node_heap \<Rightarrow> node_heap" where
  "list_del_init e h = INIT_LIST_HEAD e (list_del_between (prv h e) (nxt h e) h)"

definition LIST_POISON1 :: nat where "LIST_POISON1 = 0x00100100"
definition LIST_POISON2 :: nat where "LIST_POISON2 = 0x00200200"

definition list_del :: "nat \<Rightarrow> node_heap \<Rightarrow> node_heap" where
  "list_del e h =
     (let h' = list_del_between (prv h e) (nxt h e) h
      in set_prev e LIST_POISON2 (set_next e LIST_POISON1 h'))"

text \<open>
  The loop \<open>list_for_each_safe(pos, n, head)\<close> with a body that may change the heap: \<open>n\<close> is read
  before the body runs. The first argument is fuel; the second component of the result is the
  sequence of visited nodes.
\<close>

fun for_each_safe ::
  "nat \<Rightarrow> (nat \<Rightarrow> node_heap \<Rightarrow> node_heap) \<Rightarrow> nat \<Rightarrow> nat \<Rightarrow> nat \<Rightarrow> node_heap
     \<Rightarrow> (node_heap \<times> nat list) option" where
  "for_each_safe 0 body p pos n h = None"
| "for_each_safe (Suc k) body p pos n h =
     (if pos = p then Some (h, [])
      else let h' = body pos h
           in map_option (\<lambda>(h'', vs). (h'', pos # vs)) (for_each_safe k body p n (nxt h' n) h'))"

definition list_for_each_safe ::
  "nat \<Rightarrow> (nat \<Rightarrow> node_heap \<Rightarrow> node_heap) \<Rightarrow> nat \<Rightarrow> node_heap
     \<Rightarrow> (node_heap \<times> nat list) option" where
  "list_for_each_safe k body p h = for_each_safe k body p (nxt h p) (nxt h (nxt h p)) h"

lemmas node_heap_defs = set_next_def set_prev_def INIT_LIST_HEAD_def list_empty_def
  list_add_between_def list_add_def list_del_between_def list_del_init_def list_del_def

subsection \<open>The abstraction to lists\<close>

fun links :: "node_heap \<Rightarrow> nat list \<Rightarrow> bool" where
  "links h (a # b # r) \<longleftrightarrow> nxt h a = b \<and> prv h b = a \<and> links h (b # r)"
| "links h r \<longleftrightarrow> True"

definition dlist :: "node_heap \<Rightarrow> nat \<Rightarrow> nat list \<Rightarrow> bool" where
  "dlist h p xs \<longleftrightarrow> distinct (p # xs) \<and> links h (p # xs @ [p])"

lemma links_Cons: "xs \<noteq> [] \<Longrightarrow> links h (a # xs) \<longleftrightarrow> nxt h a = hd xs \<and> prv h (hd xs) = a \<and> links h xs"
  by (cases xs) auto

lemma links_append:
  "links h (xs @ a # ys) \<longleftrightarrow> links h (xs @ [a]) \<and> links h (a # ys)"
proof (induction xs)
  case Nil
  then show ?case by simp
next
  case (Cons x xs)
  then show ?case by (cases xs) auto
qed

lemma links_set_next [simp]:
  "a \<notin> set (butlast xs) \<Longrightarrow> links (set_next a b h) xs = links h xs"
  by (induction h xs rule: links.induct) (auto simp: set_next_def)

lemma links_set_prev [simp]:
  "a \<notin> set (tl xs) \<Longrightarrow> links (set_prev a b h) xs = links h xs"
  by (induction h xs rule: links.induct) (auto simp: set_prev_def)

lemma nxt_set [simp]:
  "nxt (set_next a b h) = (nxt h)(a := b)" "nxt (set_prev a b h) = nxt h"
  "prv (set_prev a b h) = (prv h)(a := b)" "prv (set_next a b h) = prv h"
  by (simp_all add: set_next_def set_prev_def)

text \<open>
  A circular list may be entered at any of its nodes: the rotation that starts at a member
  is again a circular list, with the old head as a member.
\<close>

lemma dlist_rotate:
  assumes "dlist h p (xs @ a # ys)"
  shows "dlist h a (ys @ p # xs)"
proof -
  have l: "links h ((p # xs) @ a # (ys @ [p]))" using assms by (simp add: dlist_def)
  then have 1: "links h ((p # xs) @ [a])" and 2: "links h (a # (ys @ [p]))"
    by (blast dest: links_append [THEN iffD1])+
  from 2 have 2: "links h ((a # ys) @ [p])" by simp
  from 1 have 1: "links h (p # (xs @ [a]))" by simp
  have "links h ((a # ys) @ p # (xs @ [a]))" using 1 2 links_append by blast
  then show ?thesis using assms by (auto simp: dlist_def)
qed

lemma dlist_neighbours:
  assumes "dlist h p (xs @ a # ys)"
  shows "nxt h a = hd (ys @ [p])" and "prv h a = last (p # xs)"
proof -
  have l: "links h ((p # xs) @ a # (ys @ [p]))" using assms by (simp add: dlist_def)
  then have 1: "links h ((p # xs) @ [a])" and 2: "links h (a # (ys @ [p]))"
    by (blast dest: links_append [THEN iffD1])+
  from 2 show "nxt h a = hd (ys @ [p])" by (simp add: links_Cons)
  have "links h (butlast (p # xs) @ last (p # xs) # [a])"
    using 1 by (metis append.assoc append_Cons append_Nil append_butlast_last_id list.distinct(1))
  then have "links h (last (p # xs) # [a])" using links_append by blast
  then show "prv h a = last (p # xs)" by simp
qed

lemma dlist_head: "dlist h p xs \<Longrightarrow> nxt h p = hd (xs @ [p]) \<and> prv h p = last (p # xs)"
proof (cases xs)
  case Nil
  assume "dlist h p xs"
  with Nil show ?thesis by (simp add: dlist_def)
next
  case (Cons a ys)
  assume "dlist h p xs"
  with Cons have "dlist h a (ys @ p # [])" using dlist_rotate [of h p "[]" a ys] by simp
  from dlist_neighbours [OF this] Cons show ?thesis by auto
qed

subsection \<open>What the operations do to a list\<close>

lemma INIT_LIST_HEAD_dlist: "dlist (INIT_LIST_HEAD p h) p []"
  by (simp add: dlist_def INIT_LIST_HEAD_def)

lemma list_empty_iff: "dlist h p xs \<Longrightarrow> list_empty p h \<longleftrightarrow> xs = []"
  by (cases xs) (auto simp: list_empty_def dlist_def)

lemma list_add_dlist:
  assumes "dlist h p xs" and "new \<notin> set (p # xs)"
  shows "dlist (list_add new p h) p (new # xs)"
proof (cases xs)
  case Nil
  with assms show ?thesis
    by (auto simp: dlist_def list_add_def list_add_between_def)
next
  case (Cons a ys)
  have "butlast (a # ys @ [p]) = a # ys" by (simp add: butlast_append)
  with Cons assms show ?thesis
    by (auto simp: dlist_def list_add_def list_add_between_def butlast_append)
qed

text \<open>\<open>list_add(new, cur->prev)\<close>, the idiom of the sources, inserts before \<open>cur\<close>.\<close>

lemma list_add_before_dlist:
  assumes "dlist h p (xs @ a # ys)" and "new \<notin> set (p # xs @ a # ys)"
  shows "dlist (list_add new (prv h a) h) p (xs @ new # a # ys)"
proof (cases xs rule: rev_cases)
  case Nil
  with assms dlist_neighbours [OF assms(1)] list_add_dlist [of h p "a # ys" new]
  show ?thesis by simp
next
  case (snoc zs b)
  have "prv h a = b" using dlist_neighbours [OF assms(1)] snoc by simp
  moreover have "dlist h b ((a # ys) @ p # zs)"
    using assms(1) snoc dlist_rotate [of h p zs b "a # ys"] by simp
  then have "dlist (list_add new b h) b (new # (a # ys) @ p # zs)"
    using assms(2) snoc by (intro list_add_dlist) auto
  then have "dlist (list_add new b h) p (zs @ b # new # a # ys)"
    using dlist_rotate [of "list_add new b h" b "new # a # ys" p zs] by simp
  ultimately show ?thesis using snoc by simp
qed

lemma list_add_tail_dlist:
  assumes "dlist h p xs" and "new \<notin> set (p # xs)"
  shows "dlist (list_add new (prv h p) h) p (xs @ [new])"
proof (cases xs)
  case Nil
  with assms list_add_dlist [OF assms] dlist_head [OF assms(1)] show ?thesis by simp
next
  case (Cons a ys)
  have "dlist h a (ys @ p # [])" using assms(1) Cons dlist_rotate [of h p "[]" a ys] by simp
  then have "dlist (list_add new (prv h p) h) a (ys @ new # p # [])"
    using assms(2) Cons by (intro list_add_before_dlist) auto
  then show ?thesis using dlist_rotate [of _ a "ys @ [new]" p "[]"] Cons by simp
qed

lemma list_del_init_first:
  assumes "dlist h p (e # ys)"
  shows "dlist (list_del_init e h) p ys" and "dlist (list_del_init e h) e []"
proof -
  from assms have n: "nxt h e = hd (ys @ [p])" and q: "prv h e = p"
    using dlist_neighbours [of h p "[]" e ys] by simp_all
  show "dlist (list_del_init e h) p ys"
  proof (cases ys)
    case Nil
    with assms n q show ?thesis
      by (auto simp: dlist_def list_del_init_def INIT_LIST_HEAD_def list_del_between_def)
  next
    case (Cons b zs)
    with assms n q show ?thesis
      by (auto simp: dlist_def list_del_init_def INIT_LIST_HEAD_def list_del_between_def
          butlast_append)
  qed
  show "dlist (list_del_init e h) e []"
    by (simp add: list_del_init_def INIT_LIST_HEAD_dlist)
qed

lemma list_del_init_dlist:
  assumes "dlist h p (xs @ e # ys)"
  shows "dlist (list_del_init e h) p (xs @ ys)" and "dlist (list_del_init e h) e []"
proof -
  show "dlist (list_del_init e h) e []"
    by (simp add: list_del_init_def INIT_LIST_HEAD_dlist)
  show "dlist (list_del_init e h) p (xs @ ys)"
  proof (cases xs rule: rev_cases)
    case Nil
    with assms list_del_init_first show ?thesis by simp
  next
    case (snoc zs b)
    have "dlist h b (e # ys @ p # zs)"
      using assms snoc dlist_rotate [of h p zs b "e # ys"] by simp
    then have "dlist (list_del_init e h) b (ys @ p # zs)" by (rule list_del_init_first)
    then show ?thesis using dlist_rotate [of _ b ys p zs] snoc by simp
  qed
qed

lemma list_del_dlist:
  assumes "dlist h p (xs @ e # ys)"
  shows "dlist (list_del e h) p (xs @ ys)"
proof -
  have ne: "e \<notin> set (p # xs @ ys)" using assms by (auto simp: dlist_def)
  have e1: "links (list_del e h) zs = links (list_del_between (prv h e) (nxt h e) h) zs"
    if "e \<notin> set zs" for zs
    using that by (simp add: list_del_def Let_def in_set_butlastD list.set_sel(2))
      (metis in_set_butlastD list.set_sel(2) links_set_next links_set_prev tl_Nil)
  have e2: "links (list_del_init e h) zs = links (list_del_between (prv h e) (nxt h e) h) zs"
    if "e \<notin> set zs" for zs
    using that by (simp add: list_del_init_def INIT_LIST_HEAD_def)
      (metis in_set_butlastD list.set_sel(2) links_set_next links_set_prev tl_Nil)
  have "e \<notin> set (p # (xs @ ys) @ [p])" using ne by auto
  then show ?thesis
    using list_del_init_dlist(1) [OF assms] e1 e2 unfolding dlist_def by metis
qed

subsection \<open>Frame: a list that shares no node is untouched\<close>

lemma dlist_frame:
  assumes "dlist h q zs" and "\<And>a. a \<in> set (q # zs) \<Longrightarrow> nxt h' a = nxt h a \<and> prv h' a = prv h a"
  shows "dlist h' q zs"
proof -
  have "links h' xs = links h xs" if "set xs \<subseteq> set (q # zs)" for xs
    using that assms(2) by (induction h xs rule: links.induct) auto
  from this [of "q # zs @ [q]"] show ?thesis using assms(1) by (simp add: dlist_def)
qed

lemma list_add_frame:
  assumes "dlist h p xs" "dlist h q zs" "set (q # zs) \<inter> set (p # xs) = {}" "new \<notin> set (q # zs)"
    and "c \<in> set (p # xs)"
  shows "dlist (list_add new c h) q zs"
proof (rule dlist_frame [OF assms(2)])
  fix a assume a: "a \<in> set (q # zs)"
  have "nxt h c \<in> set (p # xs)"
  proof (cases "c = p")
    case True
    then show ?thesis using dlist_head [OF assms(1)] by (cases xs) auto
  next
    case False
    then obtain ys ws where x: "xs = ys @ c # ws" using assms(5) by (auto dest: split_list)
    then show ?thesis using dlist_neighbours(1) [of h p ys c ws] assms(1) by (cases ws) auto
  qed
  then have "a \<noteq> nxt h c" "a \<noteq> c" "a \<noteq> new" using a assms(3,4,5) by auto
  then show "nxt (list_add new c h) a = nxt h a \<and> prv (list_add new c h) a = prv h a"
    by (simp add: list_add_def list_add_between_def)
qed

lemma list_del_init_frame:
  assumes "dlist h p (xs @ e # ys)" "dlist h q zs" "set (q # zs) \<inter> set (p # xs @ e # ys) = {}"
  shows "dlist (list_del_init e h) q zs"
proof (rule dlist_frame [OF assms(2)])
  fix a assume a: "a \<in> set (q # zs)"
  have "nxt h e \<in> set (p # xs @ e # ys)"
    using dlist_neighbours(1) [OF assms(1)] by (cases ys) auto
  moreover have "prv h e \<in> set (p # xs @ e # ys)"
    using dlist_neighbours(2) [OF assms(1)] by (cases xs rule: rev_cases) auto
  ultimately have "a \<noteq> nxt h e" "a \<noteq> prv h e" "a \<noteq> e" using a assms(3) by auto
  then show "nxt (list_del_init e h) a = nxt h a \<and> prv (list_del_init e h) a = prv h a"
    by (simp add: list_del_init_def INIT_LIST_HEAD_def list_del_between_def)
qed

subsection \<open>Traversal\<close>

text \<open>A body that leaves the links alone makes the loop visit every member once, in order.\<close>

lemma for_each_safe_visits:
  assumes "dlist h p (ws @ xs)" and "length xs < k"
  shows "for_each_safe k (\<lambda>_ h. h) p (hd (xs @ [p])) (nxt h (hd (xs @ [p]))) h = Some (h, xs)"
  using assms
proof (induction xs arbitrary: ws k)
  case Nil
  then show ?case by (cases k) auto
next
  case (Cons a xs)
  then obtain k' where k: "k = Suc k'" by (cases k) auto
  have "dlist h p ((ws @ [a]) @ xs)" using Cons.prems(1) by simp
  moreover have "length xs < k'" using Cons.prems(2) k by simp
  ultimately have IH: "for_each_safe k' (\<lambda>_ h. h) p (hd (xs @ [p])) (nxt h (hd (xs @ [p]))) h = Some (h, xs)"
    using Cons.IH by blast
  have "a \<noteq> p" using Cons.prems(1) by (auto simp: dlist_def)
  moreover have "nxt h a = hd (xs @ [p])" using dlist_neighbours(1) [OF Cons.prems(1)] .
  ultimately show ?case using IH k by simp
qed

text \<open>
  The loop is safe for the removal of the visited node: a body that unlinks exactly the
  node it is called on (as \<open>DestroyHashEntry\<close> does) visits every member and empties the list.
\<close>

lemma for_each_safe_unlinks_all:
  assumes "dlist h p xs" and "length xs < k"
  shows "\<exists>h'. for_each_safe k list_del_init p (hd (xs @ [p])) (nxt h (hd (xs @ [p]))) h = Some (h', xs)
           \<and> dlist h' p []"
  using assms
proof (induction xs arbitrary: h k)
  case Nil
  then show ?case by (cases k) auto
next
  case (Cons a xs)
  then obtain k' where k: "k = Suc k'" by (cases k) auto
  let ?h = "list_del_init a h"
  have d: "dlist ?h p xs" using list_del_init_first(1) [OF Cons.prems(1)] .
  have "length xs < k'" using Cons.prems(2) k by simp
  from Cons.IH [OF d this] obtain h' where
    "for_each_safe k' list_del_init p (hd (xs @ [p])) (nxt ?h (hd (xs @ [p]))) ?h = Some (h', xs)"
    "dlist h' p []" by blast
  moreover have "a \<noteq> p" using Cons.prems(1) by (auto simp: dlist_def)
  moreover have "nxt h a = hd (xs @ [p])"
    using dlist_neighbours(1) [of h p "[]" a xs] Cons.prems(1) by simp
  ultimately show ?case using k by simp
qed

subsection \<open>Neighbours in a queue\<close>

text \<open>\<open>node->next\<close> in a queue; \<open>None\<close> is the queue head.\<close>

definition next_in :: "'a list \<Rightarrow> 'a \<Rightarrow> 'a option" where
  "next_in xs x = (case dropWhile (\<lambda>y. y \<noteq> x) xs of _ # y # _ \<Rightarrow> Some y | _ \<Rightarrow> None)"

definition first_in :: "'a list \<Rightarrow> 'a option" where
  "first_in xs = (case xs of [] \<Rightarrow> None | x # _ \<Rightarrow> Some x)"

definition prev_in :: "'a list \<Rightarrow> 'a \<Rightarrow> 'a option" where
  "prev_in xs x = next_in (rev xs) x"

lemma first_in_simps [simp]: "first_in [] = None" "first_in (x # xs) = Some x"
  by (simp_all add: first_in_def)

lemma next_in_split: "x \<notin> set xs \<Longrightarrow> next_in (xs @ x # ys) x = first_in ys"
  by (induction xs) (auto simp: next_in_def first_in_def split: list.split)

lemma prev_in_split: "x \<notin> set ys \<Longrightarrow> prev_in (xs @ x # ys) x = first_in (rev xs)"
  by (simp add: prev_in_def next_in_split)

lemma next_in_head: "distinct (x # xs) \<Longrightarrow> next_in (x # xs) x = first_in xs"
  using next_in_split [of x "[]" xs] by simp

end
