(* ===== verification/Indexer.thy ===== *)
theory Indexer
  imports Hash_Func List_Head
begin

text \<open>
  The hash index of src/src/utility/indexer.c and indexer.h: a table of bucket chains over keys of
  \<open>keySize\<close> bytes. A chain is the HOL list of its entries, in \<open>next\<close> order (theory
  \<open>List_Head\<close>): \<open>list_add\<close> after the bucket head is \<open>#\<close>. A value is whatever the client
  stores behind the \<open>void *\<close>. The second half states what the clients of an index rely on as the
  locale \<open>index_map\<close> and interprets it for 64-bit and for 32-bit keys.
\<close>

record 'v HashEntry =
  he_key :: "u8 list"
  he_val :: 'v

record 'v Indexer =
  keySize :: u32
  bucketCount :: u32
  buckets :: "'v HashEntry list list"
  indexSize :: u32

definition GetBucketIndex :: "u8 list \<Rightarrow> u32 \<Rightarrow> u32 \<Rightarrow> u32 \<Rightarrow> fault + u32" where
  "GetBucketIndex key ks seed bc =
     (if bc = 0 then Inl DivByZero else Inr (HashFunc key ks seed mod bc))"

definition CreateHashEntry :: "u8 list \<Rightarrow> 'v \<Rightarrow> 'v HashEntry" where
  "CreateHashEntry key v = \<lparr>he_key = key, he_val = v\<rparr>"

text \<open>The loop of \<open>Query\<close>: the value of the first entry with this key.\<close>

fun query_chain :: "'v HashEntry list \<Rightarrow> u8 list \<Rightarrow> 'v option" where
  "query_chain [] key = None"
| "query_chain (e # es) key = (if he_key e = key then Some (he_val e) else query_chain es key)"

text \<open>\<open>RETURN_ERROR\<close> is \<open>None\<close>, \<open>RETURN_OK\<close> with \<open>*val\<close> is \<open>Some\<close>.\<close>

definition Indexer_Query :: "'v Indexer \<Rightarrow> u8 list \<Rightarrow> fault + 'v option" where
  "Indexer_Query idx key =
     bindE (GetBucketIndex key (keySize idx) 0 (bucketCount idx)) (\<lambda>b.
     if \<not> b < bucketCount idx then Inl ExitFailure else
     bindE (arr_get (buckets idx) (unat b)) (\<lambda>chain.
     Inr (query_chain chain key)))"

definition Indexer_InsertKV :: "'v Indexer \<Rightarrow> u8 list \<Rightarrow> 'v \<Rightarrow> fault + 'v Indexer" where
  "Indexer_InsertKV idx key v =
     bindE (GetBucketIndex key (keySize idx) 0 (bucketCount idx)) (\<lambda>b.
     if \<not> b < bucketCount idx then Inl ExitFailure else
     bindE (arr_get (buckets idx) (unat b)) (\<lambda>chain.
     bindE (arr_set (buckets idx) (unat b) (CreateHashEntry key v # chain)) (\<lambda>bs.
     Inr (idx\<lparr>buckets := bs, indexSize := indexSize idx + 1\<rparr>))))"

text \<open>The loop of \<open>Delete\<close> has no \<open>break\<close>: every entry with this key goes.\<close>

fun delete_chain :: "'v HashEntry list \<Rightarrow> u8 list \<Rightarrow> u32 \<Rightarrow> 'v HashEntry list \<times> u32" where
  "delete_chain [] key n = ([], n)"
| "delete_chain (e # es) key n =
     (if he_key e = key then delete_chain es key (n - 1)
      else let (es', n') = delete_chain es key n in (e # es', n'))"

definition Indexer_Delete :: "'v Indexer \<Rightarrow> u8 list \<Rightarrow> fault + 'v Indexer" where
  "Indexer_Delete idx key =
     bindE (GetBucketIndex key (keySize idx) 0 (bucketCount idx)) (\<lambda>b.
     if \<not> b < bucketCount idx then Inl ExitFailure else
     bindE (arr_get (buckets idx) (unat b)) (\<lambda>chain.
     let (chain', n) = delete_chain chain key (indexSize idx) in
     bindE (arr_set (buckets idx) (unat b) chain') (\<lambda>bs.
     Inr (idx\<lparr>buckets := bs, indexSize := n\<rparr>))))"

definition CreateIndexer :: "u32 \<Rightarrow> u32 \<Rightarrow> 'v Indexer" where
  "CreateIndexer ks bc =
     \<lparr>keySize = ks, bucketCount = bc, buckets = replicate (unat bc) [], indexSize = 0\<rparr>"

text \<open>
  \<open>DestroyIndexer\<close> frees the entries bucket by bucket: the entries in the order they are
  freed, and the final value of \<open>indexSize\<close>.
\<close>

fun destroy_chains :: "'v HashEntry list list \<Rightarrow> u32 \<Rightarrow> 'v HashEntry list \<times> u32" where
  "destroy_chains [] n = ([], n)"
| "destroy_chains ([] # bs) n = destroy_chains bs n"
| "destroy_chains ((e # es) # bs) n =
     (let (freed, n') = destroy_chains (es # bs) (n - 1) in (e # freed, n'))"

definition DestroyIndexer :: "'v Indexer \<Rightarrow> 'v HashEntry list \<times> u32" where
  "DestroyIndexer idx = destroy_chains (buckets idx) (indexSize idx)"

text \<open>
  A client that keeps the \<open>void *\<close> a query returned writes through it: the value of the first
  entry with this key changes in place.
\<close>

fun poke_chain :: "'v HashEntry list \<Rightarrow> u8 list \<Rightarrow> ('v \<Rightarrow> 'v) \<Rightarrow> 'v HashEntry list" where
  "poke_chain [] key f = []"
| "poke_chain (e # es) key f =
     (if he_key e = key then e\<lparr>he_val := f (he_val e)\<rparr> # es else e # poke_chain es key f)"

definition Indexer_Poke :: "'v Indexer \<Rightarrow> u8 list \<Rightarrow> ('v \<Rightarrow> 'v) \<Rightarrow> 'v Indexer" where
  "Indexer_Poke idx key f =
     (let b = unat (HashFunc key (keySize idx) 0 mod bucketCount idx)
      in idx\<lparr>buckets := (buckets idx)[b := poke_chain (buckets idx ! b) key f]\<rparr>)"

subsection \<open>Well-formed tables and the map they stand for\<close>

abbreviation slot_of :: "'v Indexer \<Rightarrow> u8 list \<Rightarrow> nat" where
  "slot_of idx key \<equiv> unat (HashFunc key (keySize idx) 0 mod bucketCount idx)"

definition entries :: "'v Indexer \<Rightarrow> 'v HashEntry list" where
  "entries idx = concat (buckets idx)"

definition indexer_inv :: "'v Indexer \<Rightarrow> bool" where
  "indexer_inv idx \<longleftrightarrow>
     bucketCount idx \<noteq> 0 \<and> length (buckets idx) = unat (bucketCount idx) \<and>
     (\<forall>i < length (buckets idx). \<forall>e \<in> set (buckets idx ! i). slot_of idx (he_key e) = i) \<and>
     indexSize idx = of_nat (length (entries idx))"

definition indexer_abs :: "'v Indexer \<Rightarrow> u8 list \<Rightarrow> 'v option" where
  "indexer_abs idx key = query_chain (buckets idx ! slot_of idx key) key"

definition distinct_keys :: "'v Indexer \<Rightarrow> bool" where
  "distinct_keys idx \<longleftrightarrow> distinct (map he_key (entries idx))"

lemma slot_of_less: "indexer_inv idx \<Longrightarrow> slot_of idx key < length (buckets idx)"
  by (simp add: indexer_inv_def word_mod_less_divisor unat_mod unat_gt_0)

lemma slot_of_less_word: "bucketCount idx \<noteq> 0 \<Longrightarrow>
    HashFunc key (keySize idx) 0 mod bucketCount idx < bucketCount idx"
  by (simp add: word_mod_less_divisor word_neq_0_conv)

lemma query_chain_None: "query_chain es k = None \<longleftrightarrow> k \<notin> he_key ` set es"
  by (induction es) auto

lemma query_chain_Some: "query_chain es k = Some v \<Longrightarrow> \<exists>e \<in> set es. he_key e = k \<and> he_val e = v"
  by (induction es) (auto split: if_splits)

lemma query_chain_append:
  "query_chain (es @ fs) k = (case query_chain es k of None \<Rightarrow> query_chain fs k | Some v \<Rightarrow> Some v)"
  by (induction es) auto

lemma delete_chain_eq:
  "delete_chain es k n =
     (filter (\<lambda>e. he_key e \<noteq> k) es, n - of_nat (length (filter (\<lambda>e. he_key e = k) es)))"
  by (induction es k n rule: delete_chain.induct) (auto simp: algebra_simps)

lemma query_chain_filter:
  "query_chain (filter (\<lambda>e. he_key e \<noteq> k) es) k' = (if k' = k then None else query_chain es k')"
  by (induction es) auto

lemma query_chain_poke:
  "query_chain (poke_chain es k f) k' =
     (if k' = k then map_option f (query_chain es k) else query_chain es k')"
  by (induction es) auto

lemma keys_poke_chain: "map he_key (poke_chain es k f) = map he_key es"
  by (induction es) auto

lemma length_poke_chain [simp]: "length (poke_chain es k f) = length es"
  by (induction es) auto

lemma length_concat_update:
  assumes "i < length xss"
  shows "length (concat (xss[i := ys])) + length (xss ! i) = length (concat xss) + length ys"
  using assms
proof (induction xss arbitrary: i)
  case Nil
  then show ?case by simp
next
  case (Cons xs xss)
  then show ?case by (cases i) (auto simp: algebra_simps)
qed

text \<open>On a well-formed table the operations never fault.\<close>

lemma Indexer_Query_eq: "indexer_inv idx \<Longrightarrow> Indexer_Query idx k = Inr (indexer_abs idx k)"
  using slot_of_less [of idx k] slot_of_less_word [of idx k]
  by (simp add: Indexer_Query_def GetBucketIndex_def indexer_abs_def indexer_inv_def)

lemma Indexer_InsertKV_eq:
  "indexer_inv idx \<Longrightarrow> Indexer_InsertKV idx k v =
     Inr (idx\<lparr>buckets := (buckets idx)[slot_of idx k :=
           CreateHashEntry k v # buckets idx ! slot_of idx k], indexSize := indexSize idx + 1\<rparr>)"
  using slot_of_less [of idx k] slot_of_less_word [of idx k]
  by (simp add: Indexer_InsertKV_def GetBucketIndex_def indexer_inv_def)

lemma Indexer_Delete_eq:
  "indexer_inv idx \<Longrightarrow> Indexer_Delete idx k =
     Inr (idx\<lparr>buckets := (buckets idx)[slot_of idx k :=
             filter (\<lambda>e. he_key e \<noteq> k) (buckets idx ! slot_of idx k)],
           indexSize := indexSize idx -
             of_nat (length (filter (\<lambda>e. he_key e = k) (buckets idx ! slot_of idx k)))\<rparr>)"
  using slot_of_less [of idx k] slot_of_less_word [of idx k]
  by (simp add: Indexer_Delete_def GetBucketIndex_def indexer_inv_def delete_chain_eq)

text \<open>Replacing one chain by entries of the same slot keeps the table well-formed.\<close>

lemma indexer_inv_update:
  assumes "indexer_inv idx" and "b < length (buckets idx)"
    and "\<And>e. e \<in> set es \<Longrightarrow> slot_of idx (he_key e) = b"
    and "n = indexSize idx + of_nat (length es) - of_nat (length (buckets idx ! b))"
  shows "indexer_inv (idx\<lparr>buckets := (buckets idx)[b := es], indexSize := n\<rparr>)"
proof -
  have "of_nat (length (concat ((buckets idx)[b := es]))) + of_nat (length (buckets idx ! b))
      = (of_nat (length (concat (buckets idx))) + of_nat (length es) :: u32)"
    using length_concat_update [OF assms(2), of es] by (metis of_nat_add)
  then have "of_nat (length (concat ((buckets idx)[b := es])))
      = (of_nat (length (concat (buckets idx))) + of_nat (length es) - of_nat (length (buckets idx ! b)) :: u32)"
    by (metis add_diff_cancel_right')
  then have "of_nat (length (concat ((buckets idx)[b := es]))) = n"
    using assms(1,4) by (simp add: indexer_inv_def entries_def)
  then show ?thesis using assms(1-3)
    by (auto simp: indexer_inv_def entries_def nth_list_update)
qed

lemma CreateIndexer_inv [inv_pres]: "bc \<noteq> 0 \<Longrightarrow> indexer_inv (CreateIndexer ks bc)"
  by (simp add: indexer_inv_def CreateIndexer_def entries_def)

lemma CreateIndexer_abs: "bc \<noteq> 0 \<Longrightarrow> indexer_abs (CreateIndexer ks bc) = Map.empty"
  using slot_of_less [OF CreateIndexer_inv [of bc ks]]
  by (auto simp: indexer_abs_def CreateIndexer_def fun_eq_iff)

lemma chain_slot:
  "indexer_inv idx \<Longrightarrow> e \<in> set (buckets idx ! slot_of idx k) \<Longrightarrow> slot_of idx (he_key e) = slot_of idx k"
  using slot_of_less [of idx k] by (auto simp: indexer_inv_def)

lemma Indexer_InsertKV_spec:
  assumes "indexer_inv idx" and "Indexer_InsertKV idx k v = Inr idx'"
  shows "indexer_inv idx'" and "indexer_abs idx' = (indexer_abs idx)(k \<mapsto> v)"
proof -
  let ?b = "slot_of idx k"
  from assms have i: "idx' = idx\<lparr>buckets := (buckets idx)[?b :=
      CreateHashEntry k v # buckets idx ! ?b], indexSize := indexSize idx + 1\<rparr>"
    by (simp add: Indexer_InsertKV_eq)
  have slots: "slot_of idx (he_key e) = ?b"
    if "e \<in> set (CreateHashEntry k v # buckets idx ! ?b)" for e
  proof (cases "e = CreateHashEntry k v")
    case True
    then show ?thesis by (simp add: CreateHashEntry_def)
  next
    case False
    with that show ?thesis by (intro chain_slot [OF assms(1)]) simp
  qed
  show "indexer_inv idx'" unfolding i
    by (rule indexer_inv_update [OF assms(1) slot_of_less [OF assms(1)] slots]) simp_all
  show "indexer_abs idx' = (indexer_abs idx)(k \<mapsto> v)"
    using slot_of_less [OF assms(1)]
    by (auto simp: i indexer_abs_def fun_eq_iff nth_list_update CreateHashEntry_def)
qed

lemma Indexer_Delete_spec:
  assumes "indexer_inv idx" and "Indexer_Delete idx k = Inr idx'"
  shows "indexer_inv idx'" and "indexer_abs idx' = (indexer_abs idx)(k := None)"
proof -
  let ?b = "slot_of idx k" and ?c = "buckets idx ! slot_of idx k"
  from assms have i: "idx' = idx\<lparr>buckets := (buckets idx)[?b := filter (\<lambda>e. he_key e \<noteq> k) ?c],
      indexSize := indexSize idx - of_nat (length (filter (\<lambda>e. he_key e = k) ?c))\<rparr>"
    by (simp add: Indexer_Delete_eq)
  have "length (filter (\<lambda>e. he_key e \<noteq> k) ?c) + length (filter (\<lambda>e. he_key e = k) ?c) = length ?c"
    using sum_length_filter_compl [of "\<lambda>e. he_key e \<noteq> k" ?c] by simp
  from this [symmetric] have n: "of_nat (length ?c) =
      (of_nat (length (filter (\<lambda>e. he_key e \<noteq> k) ?c)) + of_nat (length (filter (\<lambda>e. he_key e = k) ?c)) :: u32)"
    by (simp only: of_nat_add)
  have slots: "slot_of idx (he_key e) = ?b" if "e \<in> set (filter (\<lambda>e. he_key e \<noteq> k) ?c)" for e
    using that by (intro chain_slot [OF assms(1)]) simp
  show "indexer_inv idx'" unfolding i
    by (rule indexer_inv_update [OF assms(1) slot_of_less [OF assms(1)] slots]) (simp_all add: n)
  show "indexer_abs idx' = (indexer_abs idx)(k := None)"
    using slot_of_less [OF assms(1)]
    by (auto simp: i indexer_abs_def fun_eq_iff nth_list_update query_chain_filter)
qed

lemma Indexer_Poke_spec:
  assumes "indexer_inv idx"
  shows "indexer_inv (Indexer_Poke idx k f)"
    and "indexer_abs (Indexer_Poke idx k f) =
           (indexer_abs idx)(k := map_option f (indexer_abs idx k))"
proof -
  let ?b = "slot_of idx k"
  let ?es = "poke_chain (buckets idx ! ?b) k f"
  have keys: "he_key ` set ?es = he_key ` set (buckets idx ! ?b)"
    by (metis keys_poke_chain set_map)
  have slots: "slot_of idx (he_key e) = ?b" if "e \<in> set ?es" for e
  proof -
    have "he_key e \<in> he_key ` set (buckets idx ! ?b)" using that keys by blast
    then obtain e' where e': "e' \<in> set (buckets idx ! ?b)" and "he_key e = he_key e'" by blast
    then show ?thesis using chain_slot [OF assms e'] by metis
  qed
  have "indexer_inv (idx\<lparr>buckets := (buckets idx)[?b := ?es], indexSize := indexSize idx\<rparr>)"
    by (rule indexer_inv_update [OF assms slot_of_less [OF assms] slots]) simp_all
  then show "indexer_inv (Indexer_Poke idx k f)" by (simp add: Indexer_Poke_def Let_def)
  show "indexer_abs (Indexer_Poke idx k f) = (indexer_abs idx)(k := map_option f (indexer_abs idx k))"
    using slot_of_less [OF assms]
    by (auto simp: indexer_abs_def Indexer_Poke_def Let_def fun_eq_iff nth_list_update query_chain_poke)
qed

subsection \<open>The keys of a table\<close>

lemma set_entries: "set (entries idx) = (\<Union>i < length (buckets idx). set (buckets idx ! i))"
proof -
  have "set (buckets idx) = (!) (buckets idx) ` {..<length (buckets idx)}"
    by (auto simp: in_set_conv_nth)
  then show ?thesis by (simp add: entries_def)
qed

lemma entry_in_slot:
  assumes "indexer_inv idx" and "e \<in> set (entries idx)"
  shows "e \<in> set (buckets idx ! slot_of idx (he_key e))"
proof -
  from assms(2) obtain i where "i < length (buckets idx)" "e \<in> set (buckets idx ! i)"
    by (auto simp: set_entries)
  moreover from this have "slot_of idx (he_key e) = i" using assms(1) by (simp add: indexer_inv_def)
  ultimately show ?thesis by metis
qed

lemma dom_indexer_abs:
  assumes "indexer_inv idx"
  shows "dom (indexer_abs idx) = he_key ` set (entries idx)"
proof (intro set_eqI iffI)
  fix k assume "k \<in> dom (indexer_abs idx)"
  then have "k \<in> he_key ` set (buckets idx ! slot_of idx k)"
    by (auto simp: indexer_abs_def dest!: query_chain_Some)
  then show "k \<in> he_key ` set (entries idx)"
    using slot_of_less [OF assms, of k] by (auto simp: set_entries)
next
  fix k assume "k \<in> he_key ` set (entries idx)"
  then obtain e where "e \<in> set (entries idx)" "k = he_key e" by blast
  then have "k \<in> he_key ` set (buckets idx ! slot_of idx k)"
    using entry_in_slot [OF assms] by blast
  then show "k \<in> dom (indexer_abs idx)"
    by (auto simp: indexer_abs_def dom_def query_chain_None [of _ k, symmetric] image_iff)
       (metis query_chain_None image_eqI not_Some_eq)
qed

lemma mset_concat_update:
  assumes "i < length xss"
  shows "mset (concat (xss[i := ys])) + mset (xss ! i) = mset (concat xss) + mset ys"
  using assms
proof (induction xss arbitrary: i)
  case Nil
  then show ?case by simp
next
  case (Cons xs xss)
  show ?case
  proof (cases i)
    case 0
    then show ?thesis by simp
  next
    case (Suc j)
    with Cons show ?thesis by (simp add: add.assoc)
  qed
qed

lemma entries_InsertKV:
  assumes "indexer_inv idx" and "Indexer_InsertKV idx k v = Inr idx'"
  shows "mset (entries idx') = add_mset (CreateHashEntry k v) (mset (entries idx))"
proof -
  let ?b = "slot_of idx k"
  have "mset (concat ((buckets idx)[?b := CreateHashEntry k v # buckets idx ! ?b])) + mset (buckets idx ! ?b)
      = add_mset (CreateHashEntry k v) (mset (entries idx)) + mset (buckets idx ! ?b)"
    using mset_concat_update [OF slot_of_less [OF assms(1)], of k "CreateHashEntry k v # buckets idx ! ?b"]
    by (simp add: entries_def)
  then show ?thesis using assms by (auto simp: Indexer_InsertKV_eq entries_def)
qed

lemma entries_Delete:
  assumes "indexer_inv idx" and "Indexer_Delete idx k = Inr idx'"
  shows "entries idx' = filter (\<lambda>e. he_key e \<noteq> k) (entries idx)"
proof -
  let ?P = "\<lambda>e. he_key e \<noteq> k" and ?b = "slot_of idx k"
  have "map (filter ?P) (buckets idx) = (buckets idx)[?b := filter ?P (buckets idx ! ?b)]"
  proof (rule nth_equalityI)
    fix i assume i: "i < length (map (filter ?P) (buckets idx))"
    show "map (filter ?P) (buckets idx) ! i = (buckets idx)[?b := filter ?P (buckets idx ! ?b)] ! i"
    proof (cases "i = ?b")
      case True
      with i show ?thesis by simp
    next
      case False
      with i assms(1) have "filter ?P (buckets idx ! i) = buckets idx ! i"
        by (intro filter_True) (auto simp: indexer_inv_def)
      with i False show ?thesis by simp
    qed
  qed simp
  then show ?thesis using assms by (auto simp: Indexer_Delete_eq entries_def filter_concat)
qed

lemma keys_Poke:
  assumes "indexer_inv idx"
  shows "map he_key (entries (Indexer_Poke idx k f)) = map he_key (entries idx)"
proof -
  have "map (map he_key) ((buckets idx)[slot_of idx k := poke_chain (buckets idx ! slot_of idx k) k f])
      = map (map he_key) (buckets idx)"
    using slot_of_less [OF assms, of k] by (simp add: map_update keys_poke_chain) (metis list_update_id nth_map)
  then show ?thesis by (simp add: entries_def Indexer_Poke_def Let_def map_concat)
qed

subsection \<open>Typed keys\<close>

text \<open>
  The clients pass the address of a \<open>uint64_t\<close> or \<open>uint32_t\<close>: \<open>enc\<close> gives the bytes the
  index reads there.
\<close>

definition key_query :: "('k \<Rightarrow> u8 list) \<Rightarrow> 'v Indexer \<Rightarrow> 'k \<Rightarrow> fault + 'v option" where
  "key_query enc idx k = Indexer_Query idx (enc k)"

definition key_insert :: "('k \<Rightarrow> u8 list) \<Rightarrow> 'v Indexer \<Rightarrow> 'k \<Rightarrow> 'v \<Rightarrow> fault + 'v Indexer" where
  "key_insert enc idx k v = Indexer_InsertKV idx (enc k) v"

definition key_delete :: "('k \<Rightarrow> u8 list) \<Rightarrow> 'v Indexer \<Rightarrow> 'k \<Rightarrow> fault + 'v Indexer" where
  "key_delete enc idx k = Indexer_Delete idx (enc k)"

definition key_poke :: "('k \<Rightarrow> u8 list) \<Rightarrow> 'v Indexer \<Rightarrow> 'k \<Rightarrow> ('v \<Rightarrow> 'v) \<Rightarrow> 'v Indexer" where
  "key_poke enc idx k f = Indexer_Poke idx (enc k) f"

definition key_inv :: "('k \<Rightarrow> u8 list) \<Rightarrow> 'v Indexer \<Rightarrow> bool" where
  "key_inv enc idx \<longleftrightarrow>
     indexer_inv idx \<and> distinct_keys idx \<and> he_key ` set (entries idx) \<subseteq> range enc"

definition key_abs :: "('k \<Rightarrow> u8 list) \<Rightarrow> 'v Indexer \<Rightarrow> 'k \<Rightarrow> 'v option" where
  "key_abs enc idx k = indexer_abs idx (enc k)"

lemma key_query_eq: "key_inv enc idx \<Longrightarrow> key_query enc idx k = Inr (key_abs enc idx k)"
  by (simp add: key_inv_def key_query_def key_abs_def Indexer_Query_eq)

lemma key_insert_spec:
  assumes "key_inv enc idx" and "inj enc" and "key_abs enc idx k = None"
  shows "\<exists>idx'. key_insert enc idx k v = Inr idx' \<and> key_inv enc idx'
           \<and> key_abs enc idx' = (key_abs enc idx)(k \<mapsto> v)"
proof -
  have i: "indexer_inv idx" using assms(1) by (simp add: key_inv_def)
  obtain idx' where r: "Indexer_InsertKV idx (enc k) v = Inr idx'"
    using Indexer_InsertKV_eq [OF i] by blast
  note s = Indexer_InsertKV_spec [OF i r]
  have m: "mset (map he_key (entries idx')) = mset (enc k # map he_key (entries idx))"
    using entries_InsertKV [OF i r] by (simp add: CreateHashEntry_def)
  have "enc k \<notin> he_key ` set (entries idx)"
    using assms(3) dom_indexer_abs [OF i] by (auto simp: key_abs_def)
  then have "distinct (enc k # map he_key (entries idx))"
    using assms(1) by (simp add: key_inv_def distinct_keys_def)
  then have "distinct_keys idx'"
    using mset_eq_imp_distinct_iff [OF m] by (simp add: distinct_keys_def)
  moreover have "he_key ` set (entries idx') = insert (enc k) (he_key ` set (entries idx))"
    using mset_eq_setD [OF m] by simp
  ultimately show ?thesis using s r assms
    by (auto simp: key_inv_def key_insert_def key_abs_def fun_eq_iff inj_eq)
qed

lemma key_delete_spec:
  assumes "key_inv enc idx" and "inj enc"
  shows "\<exists>idx'. key_delete enc idx k = Inr idx' \<and> key_inv enc idx'
           \<and> key_abs enc idx' = (key_abs enc idx)(k := None)"
proof -
  have i: "indexer_inv idx" using assms(1) by (simp add: key_inv_def)
  obtain idx' where r: "Indexer_Delete idx (enc k) = Inr idx'"
    using Indexer_Delete_eq [OF i] by blast
  note s = Indexer_Delete_spec [OF i r]
  have e: "entries idx' = filter (\<lambda>e. he_key e \<noteq> enc k) (entries idx)"
    by (rule entries_Delete [OF i r])
  have "distinct_keys idx'"
    using assms(1) by (auto simp: e key_inv_def distinct_keys_def distinct_map_filter)
  then show ?thesis using s r e assms
    by (auto simp: key_inv_def key_delete_def key_abs_def fun_eq_iff inj_eq)
qed

lemma key_poke_spec:
  assumes "key_inv enc idx" and "inj enc"
  shows "key_inv enc (key_poke enc idx k f)"
    and "key_abs enc (key_poke enc idx k f) =
           (key_abs enc idx)(k := map_option f (key_abs enc idx k))"
proof -
  have i: "indexer_inv idx" using assms(1) by (simp add: key_inv_def)
  have "he_key ` set (entries (key_poke enc idx k f)) = he_key ` set (entries idx)"
    using keys_Poke [OF i] by (metis key_poke_def set_map)
  then show "key_inv enc (key_poke enc idx k f)"
    using assms(1) keys_Poke [OF i] Indexer_Poke_spec(1) [OF i]
    by (simp add: key_inv_def distinct_keys_def key_poke_def)
  show "key_abs enc (key_poke enc idx k f) = (key_abs enc idx)(k := map_option f (key_abs enc idx k))"
    using Indexer_Poke_spec(2) [OF i] assms(2)
    by (auto simp: key_abs_def key_poke_def fun_eq_iff inj_eq)
qed

lemma key_size:
  assumes "key_inv enc idx" and "inj enc"
  shows "finite (dom (key_abs enc idx))"
    and "indexSize idx = of_nat (card (dom (key_abs enc idx)))"
proof -
  have i: "indexer_inv idx" using assms(1) by (simp add: key_inv_def)
  have d: "enc ` dom (key_abs enc idx) = he_key ` set (entries idx)"
    proof -
    have "dom (key_abs enc idx) = enc -` dom (indexer_abs idx)"
      by (auto simp: key_abs_def)
    moreover have "dom (indexer_abs idx) \<subseteq> range enc"
      using assms(1) dom_indexer_abs [OF i] by (simp add: key_inv_def)
    ultimately show ?thesis using dom_indexer_abs [OF i] by (simp add: image_vimage_eq Int_absorb2)
  qed
  then show "finite (dom (key_abs enc idx))"
    using assms(2) by (metis finite_imageD finite_imageI finite_set inj_on_subset subset_UNIV)
  have "card (dom (key_abs enc idx)) = card (he_key ` set (entries idx))"
    using d assms(2) by (metis card_image inj_on_subset subset_UNIV)
  also have "\<dots> = length (entries idx)"
    using assms(1) by (metis distinct_card distinct_keys_def key_inv_def length_map set_map)
  finally show "indexSize idx = of_nat (card (dom (key_abs enc idx)))"
    using i by (simp add: indexer_inv_def)
qed

subsection \<open>The contract of an index\<close>

locale index_map =
  fixes query :: "'i \<Rightarrow> 'k \<Rightarrow> fault + 'v option"
    and insertKV :: "'i \<Rightarrow> 'k \<Rightarrow> 'v \<Rightarrow> fault + 'i"
    and delete :: "'i \<Rightarrow> 'k \<Rightarrow> fault + 'i"
    and poke :: "'i \<Rightarrow> 'k \<Rightarrow> ('v \<Rightarrow> 'v) \<Rightarrow> 'i"
    and size :: "'i \<Rightarrow> u32"
    and inv :: "'i \<Rightarrow> bool"
    and abs :: "'i \<Rightarrow> 'k \<Rightarrow> 'v option"
  assumes query: "inv i \<Longrightarrow> query i k = Inr (abs i k)"
    and insertKV: "inv i \<Longrightarrow> abs i k = None \<Longrightarrow>
          \<exists>i'. insertKV i k v = Inr i' \<and> inv i' \<and> abs i' = (abs i)(k \<mapsto> v)"
    and delete: "inv i \<Longrightarrow> \<exists>i'. delete i k = Inr i' \<and> inv i' \<and> abs i' = (abs i)(k := None)"
    and poke: "inv i \<Longrightarrow> inv (poke i k f) \<and> abs (poke i k f) = (abs i)(k := map_option f (abs i k))"
    and size: "inv i \<Longrightarrow> finite (dom (abs i)) \<and> size i = of_nat (card (dom (abs i)))"
begin

lemma insertKV_D:
  assumes "insertKV i k v = Inr i'" and "inv i" and "abs i k = None"
  shows "inv i'" and "abs i' = (abs i)(k \<mapsto> v)" and "size i' = size i + 1"
proof -
  have i': "inv i' \<and> abs i' = (abs i)(k \<mapsto> v)" using insertKV [OF assms(2,3), of v] assms(1) by auto
  then show "inv i'" "abs i' = (abs i)(k \<mapsto> v)" by simp_all
  have "card (dom (abs i')) = Suc (card (dom (abs i)))"
    using i' assms(3) size [OF assms(2)] by (simp add: domIff card_insert_if)
  then show "size i' = size i + 1" using size [of i'] size [OF assms(2)] i' by simp
qed

lemma delete_D:
  assumes "delete i k = Inr i'" and "inv i"
  shows "inv i'" and "abs i' = (abs i)(k := None)"
    and "size i' = (if abs i k = None then size i else size i - 1)"
proof -
  have i': "inv i' \<and> abs i' = (abs i)(k := None)" using delete [OF assms(2), of k] assms(1) by auto
  then show "inv i'" "abs i' = (abs i)(k := None)" by simp_all
  have "card (dom (abs i)) = (if abs i k = None then card (dom (abs i')) else Suc (card (dom (abs i'))))"
  proof (cases "abs i k")
    case None
    then have "(abs i)(k := None) = abs i" by (simp add: fun_upd_idem)
    with None i' show ?thesis by simp
  next
    case (Some v)
    then have "k \<in> dom (abs i)" by blast
    moreover from this have "0 < card (dom (abs i))"
      using size [OF assms(2)] by (auto simp: card_gt_0_iff)
    ultimately show ?thesis using i' Some by simp
  qed
  then show "size i' = (if abs i k = None then size i else size i - 1)"
    using size [of i'] size [OF assms(2)] i' by simp
qed

lemma query_after_insertKV:
  "inv i \<Longrightarrow> abs i k = None \<Longrightarrow> insertKV i k v = Inr i' \<Longrightarrow>
   query i' k' = Inr (if k' = k then Some v else abs i k')"
  by (simp add: query insertKV_D)

lemma replace:
  assumes "inv i"
  shows "\<exists>i1 i2. delete i k = Inr i1 \<and> insertKV i1 k v = Inr i2 \<and> inv i2
           \<and> abs i2 = (abs i)(k \<mapsto> v)"
proof -
  from delete [OF assms, of k] obtain i1 where
    1: "delete i k = Inr i1" "inv i1" "abs i1 = (abs i)(k := None)" by blast
  with insertKV [of i1 k v] show ?thesis by auto
qed

end

lemma inj_bytes_of_u64: "inj bytes_of_u64" by (simp add: inj_def)
lemma inj_bytes_of_u32: "inj bytes_of_u32" by (simp add: inj_def)

interpretation idx64: index_map "key_query bytes_of_u64" "key_insert bytes_of_u64"
  "key_delete bytes_of_u64" "key_poke bytes_of_u64" indexSize "key_inv bytes_of_u64" "key_abs bytes_of_u64"
  by unfold_locales
    (auto simp: key_query_eq key_poke_spec key_size inj_bytes_of_u64
      intro!: key_insert_spec key_delete_spec)

interpretation idx32: index_map "key_query bytes_of_u32" "key_insert bytes_of_u32"
  "key_delete bytes_of_u32" "key_poke bytes_of_u32" indexSize "key_inv bytes_of_u32" "key_abs bytes_of_u32"
  by unfold_locales
    (auto simp: key_query_eq key_poke_spec key_size inj_bytes_of_u32
      intro!: key_insert_spec key_delete_spec)

lemma CreateIndexer_key_inv:
  assumes "bc \<noteq> 0"
  shows "key_inv enc (CreateIndexer ks bc)" and "key_abs enc (CreateIndexer ks bc) = Map.empty"
    and "indexSize (CreateIndexer ks bc) = 0"
  using CreateIndexer_inv [OF assms, of ks] CreateIndexer_abs [OF assms, of ks]
  by (auto simp: key_inv_def key_abs_def distinct_keys_def CreateIndexer_def entries_def fun_eq_iff)

subsection \<open>Destruction\<close>

lemma destroy_chains_eq: "destroy_chains bs n = (concat bs, n - of_nat (length (concat bs)))"
  by (induction bs n rule: destroy_chains.induct) (auto simp: algebra_simps)

end
