(* ===== verification/GC_Module.thy ===== *)
theory GC_Module
  imports Indexer
begin

text \<open>
  The flash translation layer of one tier: src/src/base/gc_module.c and gc_module.h. A block is a
  log of 512 pages, written in order; a logical address that is written again goes to a new page
  and its old page becomes garbage. Full blocks wait in one of 50 buckets by the amount of
  garbage in them, and garbage collection recycles the blocks of the highest buckets first.

  A \<open>Block *\<close> is the position of the block in \<open>blocks\<close> (blocks are allocated once, by
  \<open>CreateGCModule\<close>). A \<open>PageLoc *\<close> into \<open>block->pages[i].pageLoc\<close> is the pair of the block
  and \<open>i\<close>; the space index stores such pointers and they are read through on every use, as in
  the source. The queues that thread through \<open>gcNode\<close> are the HOL lists of theory
  \<open>List_Head\<close>: \<open>list_add(x, &q)\<close> puts \<open>x\<close> in front, \<open>list_add(x, q.prev)\<close> at the end,
  \<open>list_del_init\<close> removes the block from the queue it is in.
\<close>

abbreviation PAGE_NUM_PER_BLOCK :: nat where "PAGE_NUM_PER_BLOCK \<equiv> 512"
abbreviation GC_BUCKET_NUM :: nat where "GC_BUCKET_NUM \<equiv> 50"
abbreviation PAGE_8K_SHIFT :: nat where "PAGE_8K_SHIFT \<equiv> 13"

datatype PAGE_STATUS_E = WRITEABLE | VALID | INVALID
datatype BLOCK_STATUS_E = FREE | WRITING | FULL
datatype BLOCK_TYPE_E = HOST_BLOCK | GC_BLOCK

record PageLoc =
  pl_block :: u32
  pl_page :: u32

record PageInfo =
  pi_lba :: u64
  pi_status :: PAGE_STATUS_E
  pi_loc :: PageLoc

record Block =
  blk_id :: u32
  blk_status :: BLOCK_STATUS_E
  garbageWL :: u32
  pages :: "PageInfo list"
  pageCursor :: u32
  garbageCnt :: u32
  blk_type :: BLOCK_TYPE_E
  createSeqNo :: u64

record GarbageBuckets =
  gb_buckets :: "nat list list"
  gb_blockCnt :: "u32 list"

type_synonym page_ref = "nat \<times> nat"

record GCModule =
  spaceIndexer :: "page_ref Indexer"
  blockIndexer :: "nat Indexer"
  freeQ :: "nat list"
  freeQsize :: u32
  garbageBuckets :: GarbageBuckets
  hostBlock :: "nat option"
  gcBlock :: "nat option"
  hostIOSeqNo :: u64
  blocks :: "Block list"

definition zero_page :: PageInfo where
  "zero_page = \<lparr>pi_lba = 0, pi_status = WRITEABLE, pi_loc = \<lparr>pl_block = 0, pl_page = 0\<rparr>\<rparr>"

text \<open>A block after \<open>memset(block, 0, sizeof(Block))\<close> and \<open>block->blockId = i\<close>.\<close>

definition zero_block :: "u32 \<Rightarrow> Block" where
  "zero_block i = \<lparr>blk_id = i, blk_status = FREE, garbageWL = 0,
     pages = replicate PAGE_NUM_PER_BLOCK zero_page, pageCursor = 0, garbageCnt = 0,
     blk_type = HOST_BLOCK, createSeqNo = 0\<rparr>"

definition get_block :: "GCModule \<Rightarrow> nat \<Rightarrow> Block" where
  "get_block gc a = blocks gc ! a"

definition set_block :: "nat \<Rightarrow> Block \<Rightarrow> GCModule \<Rightarrow> GCModule" where
  "set_block a b gc = gc\<lparr>blocks := (blocks gc)[a := b]\<rparr>"

definition deref_loc :: "GCModule \<Rightarrow> page_ref \<Rightarrow> PageLoc" where
  "deref_loc gc r = pi_loc (pages (get_block gc (fst r)) ! snd r)"

definition page_align :: "u64 \<Rightarrow> u64" where
  "page_align lba = push_bit PAGE_8K_SHIFT (drop_bit PAGE_8K_SHIFT lba)"

subsection \<open>Open blocks\<close>

definition TryAllocBlockFromFreeQ :: "GCModule \<Rightarrow> fault + nat \<times> GCModule" where
  "TryAllocBlockFromFreeQ gc =
     (if freeQ gc = [] then Inl BadListEntry
      else let a = last (freeQ gc);
               gc1 = gc\<lparr>freeQ := butlast (freeQ gc), freeQsize := freeQsize gc - 1\<rparr>
           in Inr (a, set_block a ((get_block gc1 a)
                 \<lparr>blk_status := WRITING, createSeqNo := hostIOSeqNo gc1\<rparr>) gc1))"

definition GetHostBlock :: "GCModule \<Rightarrow> fault + nat \<times> GCModule" where
  "GetHostBlock gc =
     (case hostBlock gc of
        None \<Rightarrow> bindE (TryAllocBlockFromFreeQ gc) (\<lambda>(a, gc1).
          Inr (a, set_block a ((get_block gc1 a)\<lparr>blk_type := HOST_BLOCK\<rparr>) (gc1\<lparr>hostBlock := Some a\<rparr>)))
      | Some a \<Rightarrow> Inr (a, gc))"

definition GetGCBlock :: "GCModule \<Rightarrow> fault + nat \<times> GCModule" where
  "GetGCBlock gc =
     (case gcBlock gc of
        None \<Rightarrow> bindE (TryAllocBlockFromFreeQ gc) (\<lambda>(a, gc1).
          Inr (a, set_block a ((get_block gc1 a)\<lparr>blk_type := GC_BLOCK\<rparr>) (gc1\<lparr>gcBlock := Some a\<rparr>)))
      | Some a \<Rightarrow> Inr (a, gc))"

text \<open>The four assignments to \<open>block->pages[block->pageCursor]\<close>.\<close>

definition put_page :: "Block \<Rightarrow> u64 \<Rightarrow> fault + Block" where
  "put_page b lba =
     bindE (arr_set (pages b) (unat (pageCursor b))
       \<lparr>pi_lba = lba, pi_status = VALID, pi_loc = \<lparr>pl_block = blk_id b, pl_page = pageCursor b\<rparr>\<rparr>)
       (\<lambda>ps. Inr (b\<lparr>pages := ps\<rparr>))"

subsection \<open>The garbage buckets\<close>

definition GetCurBucketIdx :: "u32 \<Rightarrow> u32" where
  "GetCurBucketIdx gcnt =
     (let waterLevel = gcnt div of_nat (PAGE_NUM_PER_BLOCK div (GC_BUCKET_NUM - 1))
      in if waterLevel \<ge> of_nat GC_BUCKET_NUM then of_nat (GC_BUCKET_NUM - 1) else waterLevel)"

text \<open>\<open>list_add(&block->gcNode, buckets[wl].prev)\<close> and \<open>blockCnt[wl]++\<close>.\<close>

definition bucket_append :: "nat \<Rightarrow> u32 \<Rightarrow> GarbageBuckets \<Rightarrow> fault + GarbageBuckets" where
  "bucket_append a wl gb =
     bindE (arr_get (gb_buckets gb) (unat wl)) (\<lambda>q.
     bindE (arr_set (gb_buckets gb) (unat wl) (q @ [a])) (\<lambda>qs.
     bindE (arr_get (gb_blockCnt gb) (unat wl)) (\<lambda>c.
     bindE (arr_set (gb_blockCnt gb) (unat wl) (c + 1)) (\<lambda>cs.
     Inr \<lparr>gb_buckets = qs, gb_blockCnt = cs\<rparr>))))"

definition bucket_dec :: "u32 \<Rightarrow> GarbageBuckets \<Rightarrow> fault + GarbageBuckets" where
  "bucket_dec wl gb =
     bindE (arr_get (gb_blockCnt gb) (unat wl)) (\<lambda>c.
     bindE (arr_set (gb_blockCnt gb) (unat wl) (c - 1)) (\<lambda>cs.
     Inr (gb\<lparr>gb_blockCnt := cs\<rparr>)))"

text \<open>\<open>list_del_init(&block->gcNode)\<close>: whatever queue the block is in, it leaves it.\<close>

definition unlink_block :: "nat \<Rightarrow> GCModule \<Rightarrow> GCModule" where
  "unlink_block a gc = gc\<lparr>freeQ := removeAll a (freeQ gc),
     garbageBuckets := (garbageBuckets gc)
       \<lparr>gb_buckets := map (removeAll a) (gb_buckets (garbageBuckets gc))\<rparr>\<rparr>"

definition Insert2GarbageBuckets :: "GCModule \<Rightarrow> nat \<Rightarrow> fault + GCModule" where
  "Insert2GarbageBuckets gc a =
     (let wl = GetCurBucketIdx (garbageCnt (get_block gc a));
          gc1 = set_block a ((get_block gc a)\<lparr>garbageWL := wl, blk_status := FULL\<rparr>) gc
      in bindE (bucket_append a wl (garbageBuckets gc1)) (\<lambda>gb.
         Inr (gc1\<lparr>garbageBuckets := gb\<rparr>)))"

definition AdjustGarbageBuckets :: "GCModule \<Rightarrow> nat option \<Rightarrow> fault + GCModule" where
  "AdjustGarbageBuckets gc block =
     (case block of None \<Rightarrow> Inr gc | Some a \<Rightarrow>
       if blk_status (get_block gc a) \<noteq> FULL then Inr gc else
       let wl = GetCurBucketIdx (garbageCnt (get_block gc a)) in
       if wl = garbageWL (get_block gc a) then Inr gc else
       let gc1 = unlink_block a gc in
       bindE (bucket_dec (garbageWL (get_block gc1 a)) (garbageBuckets gc1)) (\<lambda>gb1.
       bindE (bucket_append a wl gb1) (\<lambda>gb2.
       Inr (set_block a ((get_block gc1 a)\<lparr>garbageWL := wl\<rparr>) (gc1\<lparr>garbageBuckets := gb2\<rparr>)))))"

subsection \<open>Host writes\<close>

record WriteContext =
  wc_lba :: u64
  wc_writeBlock :: "nat option"
  wc_writePageLoc :: "page_ref option"
  wc_oldBlock :: "nat option"

definition WriteHostBlock :: "WriteContext \<Rightarrow> GCModule \<Rightarrow> fault + WriteContext \<times> GCModule" where
  "WriteHostBlock ctx gc =
     bindE (GetHostBlock gc) (\<lambda>(a, gc1).
     bindE (put_page (get_block gc1 a) (wc_lba ctx)) (\<lambda>b.
     Inr (ctx\<lparr>wc_writeBlock := Some a, wc_writePageLoc := Some (a, unat (pageCursor b))\<rparr>,
          set_block a (b\<lparr>pageCursor := pageCursor b + 1\<rparr>) gc1)))"

text \<open>
  \<open>MarkPageInvalid\<close>: \<open>*ppBlock\<close> stays null when the block index has no such block, and is
  dereferenced all the same.
\<close>

definition MarkPageInvalid :: "GCModule \<Rightarrow> u64 \<Rightarrow> PageLoc \<Rightarrow> fault + nat \<times> GCModule" where
  "MarkPageInvalid gc lba loc =
     bindE (key_query bytes_of_u32 (blockIndexer gc) (pl_block loc)) (\<lambda>r.
     case r of None \<Rightarrow> Inl NullDeref | Some a \<Rightarrow>
     bindE (arr_get (pages (get_block gc a)) (unat (pl_page loc))) (\<lambda>pg.
     bindE (arr_set (pages (get_block gc a)) (unat (pl_page loc)) (pg\<lparr>pi_status := INVALID\<rparr>)) (\<lambda>ps.
     let gc1 = set_block a ((get_block gc a)\<lparr>pages := ps\<rparr>) gc in
     bindE (key_delete bytes_of_u64 (spaceIndexer gc1) lba) (\<lambda>si.
     let gc2 = gc1\<lparr>spaceIndexer := si\<rparr> in
     Inr (a, set_block a ((get_block gc2 a)\<lparr>garbageCnt := garbageCnt (get_block gc2 a) + 1\<rparr>) gc2)))))"

definition UpdateSpaceIndex :: "WriteContext \<Rightarrow> GCModule \<Rightarrow> fault + WriteContext \<times> GCModule" where
  "UpdateSpaceIndex ctx gc =
     bindE (key_query bytes_of_u64 (spaceIndexer gc) (wc_lba ctx)) (\<lambda>r.
     bindE (case r of None \<Rightarrow> Inr (ctx, gc)
            | Some ref \<Rightarrow> bindE (MarkPageInvalid gc (wc_lba ctx) (deref_loc gc ref)) (\<lambda>(a, gc1).
                Inr (ctx\<lparr>wc_oldBlock := Some a\<rparr>, gc1))) (\<lambda>(ctx1, gc1).
     case wc_writePageLoc ctx1 of None \<Rightarrow> Inl NullDeref | Some ref \<Rightarrow>
     bindE (key_insert bytes_of_u64 (spaceIndexer gc1) (wc_lba ctx1) ref) (\<lambda>si.
     Inr (ctx1, gc1\<lparr>spaceIndexer := si\<rparr>))))"

definition AttachGarbageBuckets :: "WriteContext \<Rightarrow> GCModule \<Rightarrow> fault + WriteContext \<times> GCModule" where
  "AttachGarbageBuckets ctx gc =
     (case wc_writeBlock ctx of None \<Rightarrow> Inl NullDeref | Some a \<Rightarrow>
     bindE (if pageCursor (get_block gc a) = of_nat PAGE_NUM_PER_BLOCK
            then bindE (Insert2GarbageBuckets gc a) (\<lambda>gc1. Inr (gc1\<lparr>hostBlock := None\<rparr>))
            else Inr gc) (\<lambda>gc1.
     bindE (AdjustGarbageBuckets gc1 (wc_oldBlock ctx)) (\<lambda>gc2.
     Inr (ctx, gc2))))"

definition g_StepEntry :: "(WriteContext \<Rightarrow> GCModule \<Rightarrow> fault + WriteContext \<times> GCModule) list" where
  "g_StepEntry = [WriteHostBlock, UpdateSpaceIndex, AttachGarbageBuckets]"

fun run_steps :: "(WriteContext \<Rightarrow> GCModule \<Rightarrow> fault + WriteContext \<times> GCModule) list
    \<Rightarrow> WriteContext \<Rightarrow> GCModule \<Rightarrow> fault + WriteContext \<times> GCModule" where
  "run_steps [] ctx gc = Inr (ctx, gc)"
| "run_steps (st # sts) ctx gc = bindE (st ctx gc) (\<lambda>(ctx1, gc1). run_steps sts ctx1 gc1)"

definition GC_WriteIO :: "GCModule \<Rightarrow> u64 \<Rightarrow> u32 \<Rightarrow> fault + PageLoc \<times> GCModule" where
  "GC_WriteIO gc lba len =
     bindE (run_steps g_StepEntry
       \<lparr>wc_lba = page_align lba, wc_writeBlock = None, wc_writePageLoc = None, wc_oldBlock = None\<rparr> gc)
       (\<lambda>(ctx, gc1).
     let gc2 = gc1\<lparr>hostIOSeqNo := hostIOSeqNo gc1 + 1\<rparr> in
     case wc_writePageLoc ctx of None \<Rightarrow> Inl NullDeref
     | Some ref \<Rightarrow> Inr (deref_loc gc2 ref, gc2))"

subsection \<open>Garbage collection\<close>

definition page_lba :: "GCModule \<Rightarrow> nat \<Rightarrow> nat \<Rightarrow> u64" where
  "page_lba gc a p = pi_lba (pages (get_block gc a) ! p)"

definition WriteGCBlock :: "GCModule \<Rightarrow> nat \<Rightarrow> nat \<Rightarrow> fault + PageLoc \<times> GCModule" where
  "WriteGCBlock gc a p =
     bindE (GetGCBlock gc) (\<lambda>(g, gc1).
     bindE (key_delete bytes_of_u64 (spaceIndexer gc1) (page_lba gc1 a p)) (\<lambda>si.
     let gc2 = gc1\<lparr>spaceIndexer := si\<rparr> in
     bindE (put_page (get_block gc2 g) (page_lba gc2 a p)) (\<lambda>b.
     let gc3 = set_block g b gc2; ref = (g, unat (pageCursor b)) in
     bindE (key_insert bytes_of_u64 (spaceIndexer gc3) (page_lba gc3 a p) ref) (\<lambda>si'.
     let gc4 = set_block g ((get_block gc3 g)\<lparr>pageCursor := pageCursor (get_block gc3 g) + 1\<rparr>)
                 (gc3\<lparr>spaceIndexer := si'\<rparr>) in
     bindE (if pageCursor (get_block gc4 g) = of_nat PAGE_NUM_PER_BLOCK
            then bindE (Insert2GarbageBuckets gc4 g) (\<lambda>gc5. Inr (gc5\<lparr>gcBlock := None\<rparr>))
            else Inr gc4) (\<lambda>gc5.
     Inr (deref_loc gc5 ref, gc5))))))"

definition ReturnBlock2FreeQ :: "GCModule \<Rightarrow> nat \<Rightarrow> fault + GCModule" where
  "ReturnBlock2FreeQ gc a =
     (let gc1 = unlink_block a gc in
      bindE (bucket_dec (garbageWL (get_block gc1 a)) (garbageBuckets gc1)) (\<lambda>gb.
      let gc2 = set_block a (zero_block (blk_id (get_block gc1 a))) (gc1\<lparr>garbageBuckets := gb\<rparr>)
      in Inr (gc2\<lparr>freeQ := a # freeQ gc2, freeQsize := freeQsize gc2 + 1\<rparr>)))"

text \<open>The output arrays of \<open>GarbageCollection\<close>, with the bounds its caller allocated.\<close>

record GCOut =
  eraseBlockId :: "u32 list"
  gcWriteCnt :: u32
  readPageLoc :: "PageLoc list"
  writePageLoc :: "PageLoc list"

definition gc_page :: "nat \<Rightarrow> nat \<Rightarrow> GCModule \<times> GCOut \<Rightarrow> fault + GCModule \<times> GCOut" where
  "gc_page a p s =
     (let (gc, out) = s in
      bindE (arr_get (pages (get_block gc a)) p) (\<lambda>pg.
      if pi_status pg = VALID then
        bindE (arr_set (readPageLoc out) (unat (gcWriteCnt out))
                 \<lparr>pl_block = blk_id (get_block gc a), pl_page = of_nat p\<rparr>) (\<lambda>rd.
        bindE (WriteGCBlock gc a p) (\<lambda>(loc, gc1).
        bindE (arr_set (writePageLoc out) (unat (gcWriteCnt out)) loc) (\<lambda>wr.
        Inr (gc1, out\<lparr>readPageLoc := rd, writePageLoc := wr, gcWriteCnt := gcWriteCnt out + 1\<rparr>))))
      else Inr s))"

fun gc_pages :: "nat \<Rightarrow> nat list \<Rightarrow> GCModule \<times> GCOut \<Rightarrow> fault + GCModule \<times> GCOut" where
  "gc_pages a [] s = Inr s"
| "gc_pages a (p # ps) s = bindE (gc_page a p s) (gc_pages a ps)"

text \<open>One victim: copy its valid pages out, return it to the free queue, log its number.\<close>

definition gc_block :: "nat \<Rightarrow> u32 \<Rightarrow> GCModule \<times> GCOut \<Rightarrow> fault + GCModule \<times> GCOut" where
  "gc_block a rc' s =
     bindE (gc_pages a [0..<unat (pageCursor (get_block (fst s) a))] s) (\<lambda>(gc1, out1).
     bindE (ReturnBlock2FreeQ gc1 a) (\<lambda>gc2.
     bindE (arr_set (eraseBlockId out1) (unat rc') (blk_id (get_block gc2 a))) (\<lambda>er.
     Inr (gc2, out1\<lparr>eraseBlockId := er\<rparr>))))"

abbreviation bucket :: "GCModule \<Rightarrow> nat \<Rightarrow> nat list" where
  "bucket gc i \<equiv> gb_buckets (garbageBuckets gc) ! i"

text \<open>
  The \<open>list_for_each_safe\<close> loop over bucket \<open>i\<close>: the successor \<open>nx\<close> was read before the body
  ran. \<open>recyleCnt\<close> is decremented in the body, and the loop ends when it reaches 0.
\<close>

function gc_bucket :: "nat \<Rightarrow> nat option \<Rightarrow> nat option \<Rightarrow> u32 \<Rightarrow> GCModule \<times> GCOut
    \<Rightarrow> fault + u32 \<times> GCModule \<times> GCOut" where
  "gc_bucket i cur nx rc s =
     (case cur of None \<Rightarrow> Inr (rc, s) | Some a \<Rightarrow>
      bindE (gc_block a (rc - 1) s) (\<lambda>s'.
      if rc - 1 = 0 then Inr (rc - 1, s')
      else gc_bucket i nx (case nx of None \<Rightarrow> None | Some n \<Rightarrow> next_in (bucket (fst s') i) n) (rc - 1) s'))"
  by pat_completeness auto
termination
proof (relation "measure (\<lambda>(i, cur, nx, rc, s). unat (rc - 1))")
  fix i cur nx rc s a s'
  assume "rc - 1 \<noteq> (0 :: u32)"
  then show "((i, nx, (case nx of None \<Rightarrow> None | Some n \<Rightarrow> next_in (bucket (fst s') i) n), rc - 1, s'),
      (i, cur, nx, rc, s)) \<in> measure (\<lambda>(i, cur, nx, rc, s). unat (rc - 1))"
    using unat_dec32 [of "rc - 1"] by (simp add: unat_gt_0 diff_less)
qed simp

declare gc_bucket.simps [simp del]

text \<open>
  The outer loop over the buckets, from the last one down. \<open>gcBucketIdx >= 0\<close> holds for every
  unsigned value: after bucket 0 the index wraps around and \<open>blockCnt[0xFFFFFFFF]\<close> is read.
\<close>

primrec gc_scan :: "nat \<Rightarrow> u32 \<Rightarrow> GCModule \<times> GCOut \<Rightarrow> fault + GCModule \<times> GCOut" where
  "gc_scan 0 rc s =
     (if rc = 0 then Inr s else
      bindE (arr_get (gb_blockCnt (garbageBuckets (fst s))) 0) (\<lambda>c.
      bindE (if c = 0 then Inr (rc, s)
             else gc_bucket 0 (first_in (bucket (fst s) 0))
                    (Option.bind (first_in (bucket (fst s) 0)) (next_in (bucket (fst s) 0))) rc s) (\<lambda>(rc', s').
      if rc' = 0 then Inr s' else Inl OutOfBounds)))"
| "gc_scan (Suc i) rc s =
     (if rc = 0 then Inr s else
      bindE (arr_get (gb_blockCnt (garbageBuckets (fst s))) (Suc i)) (\<lambda>c.
      bindE (if c = 0 then Inr (rc, s)
             else gc_bucket (Suc i) (first_in (bucket (fst s) (Suc i)))
                    (Option.bind (first_in (bucket (fst s) (Suc i))) (next_in (bucket (fst s) (Suc i)))) rc s)
        (\<lambda>(rc', s'). gc_scan i rc' s')))"

definition GarbageCollection :: "GCModule \<Rightarrow> u32 \<Rightarrow> GCOut \<Rightarrow> fault + GCModule \<times> GCOut" where
  "GarbageCollection gc recyleCnt out = gc_scan (GC_BUCKET_NUM - 1) recyleCnt (gc, out)"

subsection \<open>Reads, deletion and queries\<close>

definition GC_ReadIO :: "GCModule \<Rightarrow> u64 \<Rightarrow> u32 \<Rightarrow> fault + PageLoc" where
  "GC_ReadIO gc lba len =
     bindE (key_query bytes_of_u64 (spaceIndexer gc) (page_align lba)) (\<lambda>r.
     case r of None \<Rightarrow> Inl NullDeref | Some ref \<Rightarrow> Inr (deref_loc gc ref))"

definition GC_Delete :: "GCModule \<Rightarrow> u64 \<Rightarrow> u32 \<Rightarrow> fault + PageLoc \<times> GCModule" where
  "GC_Delete gc lba len =
     bindE (key_query bytes_of_u64 (spaceIndexer gc) (page_align lba)) (\<lambda>r.
     case r of None \<Rightarrow> Inl NullDeref | Some ref \<Rightarrow>
     let loc = deref_loc gc ref in
     bindE (MarkPageInvalid gc (page_align lba) loc) (\<lambda>(a, gc1).
     bindE (AdjustGarbageBuckets gc1 (Some a)) (\<lambda>gc2.
     Inr (loc, gc2))))"

definition GC_IsExist :: "GCModule \<Rightarrow> u64 \<Rightarrow> fault + bool" where
  "GC_IsExist gc lba =
     bindE (key_query bytes_of_u64 (spaceIndexer gc) (page_align lba)) (\<lambda>r. Inr (r \<noteq> None))"

definition GetLogicalSizeOccupied :: "GCModule \<Rightarrow> u32" where
  "GetLogicalSizeOccupied gc = indexSize (spaceIndexer gc)"

definition GetStorageCapacity :: "GCModule \<Rightarrow> u32" where
  "GetStorageCapacity gc = indexSize (blockIndexer gc) * of_nat PAGE_NUM_PER_BLOCK"

definition GetFreeBlockNum :: "GCModule \<Rightarrow> u32" where
  "GetFreeBlockNum gc = freeQsize gc"

subsection \<open>Creation and destruction\<close>

record GCModuleConfigure =
  totalBlockCnt :: u32
  indexBucketCnt :: u32

fun create_blocks :: "nat list \<Rightarrow> GCModule \<Rightarrow> fault + GCModule" where
  "create_blocks [] gc = Inr gc"
| "create_blocks (i # is) gc =
     bindE (key_insert bytes_of_u32 (blockIndexer gc) (of_nat i) (length (blocks gc))) (\<lambda>bi.
     create_blocks is (gc\<lparr>blocks := blocks gc @ [zero_block (of_nat i)],
       freeQ := length (blocks gc) # freeQ gc, freeQsize := freeQsize gc + 1, blockIndexer := bi\<rparr>))"

definition CreateGCModule :: "GCModuleConfigure \<Rightarrow> fault + GCModule" where
  "CreateGCModule conf =
     create_blocks [0..<unat (totalBlockCnt conf)]
       \<lparr>spaceIndexer = CreateIndexer 8 (indexBucketCnt conf * 100),
        blockIndexer = CreateIndexer 4 (indexBucketCnt conf),
        freeQ = [], freeQsize = 0,
        garbageBuckets = \<lparr>gb_buckets = replicate GC_BUCKET_NUM [], gb_blockCnt = replicate GC_BUCKET_NUM 0\<rparr>,
        hostBlock = None, gcBlock = None, hostIOSeqNo = 0, blocks = []\<rparr>"

text \<open>The blocks and the page pointers that \<open>DestroyGCModule\<close> frees, in order.\<close>

definition DestroyGCModule :: "GCModule \<Rightarrow> nat list \<times> page_ref list" where
  "DestroyGCModule gc =
     (map he_val (fst (DestroyIndexer (blockIndexer gc))),
      map he_val (fst (DestroyIndexer (spaceIndexer gc))))"

end
