(* ===== verification/GC_Inv.thy ===== *)
theory GC_Inv
  imports GC_Module
begin

text \<open>
  The invariant of the flash translation layer and its preservation by host writes and
  deletions. It has four parts: the structure (every block is in exactly one place: the free
  queue, one bucket, or open for host or for garbage-collection writes; counters agree with what
  they count), the bucket levels, the open blocks having room, and the space index pointing at
  exactly the valid pages. An operation in progress breaks the parts one at a time, so each has
  its own lemmas; \<open>space_rel gc X\<close> is the last part up to the set \<open>X\<close> of valid pages that the
  index does not know (yet, or any more).
\<close>

subsection \<open>The invariant\<close>

definition opt_list :: "'a option \<Rightarrow> 'a list" where
  "opt_list x = (case x of None \<Rightarrow> [] | Some a \<Rightarrow> [a])"

lemma opt_list_simps [simp]: "opt_list None = []" "opt_list (Some a) = [a]"
  by (simp_all add: opt_list_def)

lemma set_opt_list [simp]: "set (opt_list x) = set_option x"
  by (cases x) auto

abbreviation nblocks :: "GCModule \<Rightarrow> nat" where
  "nblocks gc \<equiv> length (blocks gc)"

definition invalid_count :: "PageInfo list \<Rightarrow> nat" where
  "invalid_count ps = length (filter (\<lambda>q. pi_status q = INVALID) ps)"

definition block_ok :: "nat \<Rightarrow> Block \<Rightarrow> bool" where
  "block_ok a b \<longleftrightarrow>
     blk_id b = of_nat a \<and> length (pages b) = PAGE_NUM_PER_BLOCK \<and>
     unat (pageCursor b) \<le> PAGE_NUM_PER_BLOCK \<and>
     (\<forall>p < PAGE_NUM_PER_BLOCK. pi_status (pages b ! p) \<noteq> WRITEABLE \<longleftrightarrow> p < unat (pageCursor b)) \<and>
     (\<forall>p < unat (pageCursor b). pi_loc (pages b ! p) = \<lparr>pl_block = of_nat a, pl_page = of_nat p\<rparr>) \<and>
     unat (garbageCnt b) = invalid_count (pages b)"

definition full_in :: "nat \<Rightarrow> Block \<Rightarrow> bool" where
  "full_in i b \<longleftrightarrow> blk_status b = FULL \<and> unat (pageCursor b) = PAGE_NUM_PER_BLOCK \<and> garbageWL b = of_nat i"

definition queued :: "GCModule \<Rightarrow> nat list" where
  "queued gc = freeQ gc @ concat (gb_buckets (garbageBuckets gc)) @ opt_list (hostBlock gc) @ opt_list (gcBlock gc)"

definition open_blocks :: "GCModule \<Rightarrow> nat set" where
  "open_blocks gc = set_option (hostBlock gc) \<union> set_option (gcBlock gc)"

definition blocks_ok :: "GCModule \<Rightarrow> bool" where
  "blocks_ok gc \<longleftrightarrow> nblocks gc < 4294967296 \<and> (\<forall>a < nblocks gc. block_ok a (get_block gc a))"

definition bindex_ok :: "GCModule \<Rightarrow> bool" where
  "bindex_ok gc \<longleftrightarrow> key_inv bytes_of_u32 (blockIndexer gc) \<and>
     key_abs bytes_of_u32 (blockIndexer gc) = (\<lambda>k. if unat k < nblocks gc then Some (unat k) else None)"

definition queues_ok :: "GCModule \<Rightarrow> bool" where
  "queues_ok gc \<longleftrightarrow> mset (queued gc) = mset [0..<nblocks gc] \<and>
     freeQsize gc = of_nat (length (freeQ gc)) \<and>
     (\<forall>a \<in> set (freeQ gc). get_block gc a = zero_block (of_nat a)) \<and>
     (\<forall>a \<in> open_blocks gc. blk_status (get_block gc a) = WRITING)"

definition buckets_ok :: "GCModule \<Rightarrow> bool" where
  "buckets_ok gc \<longleftrightarrow>
     length (gb_buckets (garbageBuckets gc)) = GC_BUCKET_NUM \<and>
     length (gb_blockCnt (garbageBuckets gc)) = GC_BUCKET_NUM \<and>
     (\<forall>i < GC_BUCKET_NUM. gb_blockCnt (garbageBuckets gc) ! i = of_nat (length (bucket gc i))) \<and>
     (\<forall>i < GC_BUCKET_NUM. \<forall>a \<in> set (bucket gc i). full_in i (get_block gc a))"

definition gc_struct :: "GCModule \<Rightarrow> bool" where
  "gc_struct gc \<longleftrightarrow> blocks_ok gc \<and> bindex_ok gc \<and> queues_ok gc \<and> buckets_ok gc"

definition level_ok :: "Block \<Rightarrow> bool" where
  "level_ok b \<longleftrightarrow> (blk_status b = FULL \<longrightarrow> GetCurBucketIdx (garbageCnt b) = garbageWL b)"

definition levels_ok :: "nat set \<Rightarrow> GCModule \<Rightarrow> bool" where
  "levels_ok D gc \<longleftrightarrow> (\<forall>a < nblocks gc. a \<notin> D \<longrightarrow> level_ok (get_block gc a))"

definition open_ok :: "GCModule \<Rightarrow> bool" where
  "open_ok gc \<longleftrightarrow> (\<forall>a \<in> open_blocks gc. unat (pageCursor (get_block gc a)) < PAGE_NUM_PER_BLOCK)"

definition valid_at :: "GCModule \<Rightarrow> nat \<Rightarrow> nat \<Rightarrow> u64 \<Rightarrow> bool" where
  "valid_at gc a p l \<longleftrightarrow> a < nblocks gc \<and> p < PAGE_NUM_PER_BLOCK \<and>
     pi_status (pages (get_block gc a) ! p) = VALID \<and> pi_lba (pages (get_block gc a) ! p) = l"

definition space_abs :: "GCModule \<Rightarrow> u64 \<Rightarrow> page_ref option" where
  "space_abs gc = key_abs bytes_of_u64 (spaceIndexer gc)"

definition space_rel :: "GCModule \<Rightarrow> (nat \<times> nat) set \<Rightarrow> bool" where
  "space_rel gc X \<longleftrightarrow> key_inv bytes_of_u64 (spaceIndexer gc) \<and>
     (\<forall>l a p. space_abs gc l = Some (a, p) \<longleftrightarrow> valid_at gc a p l \<and> (a, p) \<notin> X)"

definition gc_inv :: "GCModule \<Rightarrow> bool" where
  "gc_inv gc \<longleftrightarrow> gc_struct gc \<and> levels_ok {} gc \<and> open_ok gc \<and> space_rel gc {}"

lemmas gc_struct_defs = gc_struct_def blocks_ok_def bindex_ok_def queues_ok_def buckets_ok_def

subsection \<open>Blocks\<close>

lemma set_block_simps [simp]:
  "spaceIndexer (set_block a b gc) = spaceIndexer gc"
  "blockIndexer (set_block a b gc) = blockIndexer gc"
  "freeQ (set_block a b gc) = freeQ gc"
  "freeQsize (set_block a b gc) = freeQsize gc"
  "garbageBuckets (set_block a b gc) = garbageBuckets gc"
  "hostBlock (set_block a b gc) = hostBlock gc"
  "gcBlock (set_block a b gc) = gcBlock gc"
  "hostIOSeqNo (set_block a b gc) = hostIOSeqNo gc"
  "length (blocks (set_block a b gc)) = nblocks gc"
  by (simp_all add: set_block_def)

lemma get_set_block: "a < nblocks gc \<Longrightarrow> get_block (set_block a b gc) x = (if x = a then b else get_block gc x)"
  by (simp add: get_block_def set_block_def)

lemma get_block_upd [simp]:
  "get_block (gc\<lparr>spaceIndexer := si\<rparr>) = get_block gc"
  "get_block (gc\<lparr>blockIndexer := bi\<rparr>) = get_block gc"
  "get_block (gc\<lparr>freeQ := q\<rparr>) = get_block gc"
  "get_block (gc\<lparr>freeQsize := n\<rparr>) = get_block gc"
  "get_block (gc\<lparr>garbageBuckets := gb\<rparr>) = get_block gc"
  "get_block (gc\<lparr>hostBlock := h\<rparr>) = get_block gc"
  "get_block (gc\<lparr>gcBlock := h\<rparr>) = get_block gc"
  "get_block (gc\<lparr>hostIOSeqNo := s\<rparr>) = get_block gc"
  by (simp_all add: get_block_def fun_eq_iff)

lemma block_ok_zero: "a < 4294967296 \<Longrightarrow> block_ok a (zero_block (of_nat a))"
  by (simp add: block_ok_def zero_block_def zero_page_def invalid_count_def)

lemma block_ok_status_upd [simp]:
  "block_ok a (b\<lparr>blk_status := s\<rparr>) = block_ok a b"
  "block_ok a (b\<lparr>createSeqNo := n\<rparr>) = block_ok a b"
  "block_ok a (b\<lparr>blk_type := t\<rparr>) = block_ok a b"
  "block_ok a (b\<lparr>garbageWL := w\<rparr>) = block_ok a b"
  by (simp_all add: block_ok_def)

definition written_block :: "Block \<Rightarrow> u64 \<Rightarrow> Block" where
  "written_block b l = b\<lparr>pages := (pages b)[unat (pageCursor b) :=
       \<lparr>pi_lba = l, pi_status = VALID, pi_loc = \<lparr>pl_block = blk_id b, pl_page = pageCursor b\<rparr>\<rparr>],
     pageCursor := pageCursor b + 1\<rparr>"

lemma unat_cursor_inc: "unat (pageCursor b) < PAGE_NUM_PER_BLOCK \<Longrightarrow> unat (pageCursor b + 1) = Suc (unat (pageCursor b))"
  by (rule unat_inc32) simp

lemma invalid_count_update:
  assumes "i < length ps"
  shows "invalid_count (ps[i := q]) + (if pi_status (ps ! i) = INVALID then 1 else 0)
       = invalid_count ps + (if pi_status q = INVALID then 1 else 0)"
  unfolding invalid_count_def by (rule count_list_update_filter [OF assms])

lemma block_ok_written:
  assumes "block_ok a b" and "unat (pageCursor b) < PAGE_NUM_PER_BLOCK"
  shows "block_ok a (written_block b l)"
proof -
  let ?c = "unat (pageCursor b)"
  have len: "?c < length (pages b)" using assms by (simp add: block_ok_def)
  have w: "pi_status (pages b ! ?c) = WRITEABLE" using assms by (auto simp: block_ok_def)
  have c: "of_nat ?c = pageCursor b" by simp
  show ?thesis
    using assms invalid_count_update [OF len, of "\<lparr>pi_lba = l, pi_status = VALID,
        pi_loc = \<lparr>pl_block = blk_id b, pl_page = pageCursor b\<rparr>\<rparr>"] w len
    by (auto simp: block_ok_def written_block_def unat_cursor_inc nth_list_update less_Suc_eq)
qed

definition invalidated_block :: "Block \<Rightarrow> nat \<Rightarrow> Block" where
  "invalidated_block b p = b\<lparr>pages := (pages b)[p := (pages b ! p)\<lparr>pi_status := INVALID\<rparr>],
     garbageCnt := garbageCnt b + 1\<rparr>"

lemma invalid_count_le: "invalid_count ps \<le> length ps"
  by (simp add: invalid_count_def)

lemma invalid_count_less: "i < length ps \<Longrightarrow> pi_status (ps ! i) \<noteq> INVALID \<Longrightarrow> invalid_count ps < length ps"
  unfolding invalid_count_def by (rule length_filter_less [of "ps ! i"]) auto

lemma block_ok_invalidated:
  assumes "block_ok a b" and "p < PAGE_NUM_PER_BLOCK" and "pi_status (pages b ! p) = VALID"
  shows "block_ok a (invalidated_block b p)"
proof -
  have len: "p < length (pages b)" using assms by (simp add: block_ok_def)
  have cur: "p < unat (pageCursor b)" using assms by (auto simp: block_ok_def)
  have "unat (garbageCnt b) < PAGE_NUM_PER_BLOCK"
    using invalid_count_less [OF len] assms by (simp add: block_ok_def)
  then have "unat (garbageCnt b + 1) = Suc (unat (garbageCnt b))" by (intro unat_inc32) simp
  then show ?thesis
    using assms cur invalid_count_update [OF len, of "(pages b ! p)\<lparr>pi_status := INVALID\<rparr>"]
    by (auto simp: block_ok_def invalidated_block_def nth_list_update)
qed

subsection \<open>Where a block is\<close>

lemma queued_set: "gc_struct gc \<Longrightarrow> set (queued gc) = {..<nblocks gc}"
  by (metis atLeast0LessThan atLeast_upt gc_struct_def mset_eq_setD queues_ok_def set_upt)

lemma queued_distinct: "gc_struct gc \<Longrightarrow> distinct (queued gc)"
  by (metis distinct_upt gc_struct_def mset_eq_imp_distinct_iff queues_ok_def)

lemma bucket_subset:
  "i < length (gb_buckets (garbageBuckets gc)) \<Longrightarrow> set (bucket gc i) \<subseteq> set (concat (gb_buckets (garbageBuckets gc)))"
  using nth_mem by fastforce

lemma in_some_bucket:
  "a \<in> set (concat (gb_buckets (garbageBuckets gc))) \<Longrightarrow>
   \<exists>i < length (gb_buckets (garbageBuckets gc)). a \<in> set (bucket gc i)"
  by (metis UN_E in_set_conv_nth set_concat)

lemma gc_places:
  assumes "gc_struct gc"
  shows "set (freeQ gc) \<inter> set (concat (gb_buckets (garbageBuckets gc))) = {}"
    and "set (freeQ gc) \<inter> open_blocks gc = {}"
    and "set (concat (gb_buckets (garbageBuckets gc))) \<inter> open_blocks gc = {}"
    and "set (freeQ gc) \<subseteq> {..<nblocks gc}"
    and "set (concat (gb_buckets (garbageBuckets gc))) \<subseteq> {..<nblocks gc}"
    and "open_blocks gc \<subseteq> {..<nblocks gc}"
    and "distinct (freeQ gc)"
    and "distinct (concat (gb_buckets (garbageBuckets gc)))"
  using queued_set [OF assms] queued_distinct [OF assms]
  by (auto simp: queued_def open_blocks_def)

lemma host_gc_distinct: "gc_struct gc \<Longrightarrow> hostBlock gc = Some a \<Longrightarrow> gcBlock gc \<noteq> Some a"
  using queued_distinct [of gc] by (auto simp: queued_def)

lemma status_free: "gc_struct gc \<Longrightarrow> a \<in> set (freeQ gc) \<Longrightarrow> get_block gc a = zero_block (of_nat a)"
  by (simp add: gc_struct_defs)

lemma status_bucket: "gc_struct gc \<Longrightarrow> i < GC_BUCKET_NUM \<Longrightarrow> a \<in> set (bucket gc i) \<Longrightarrow> full_in i (get_block gc a)"
  by (simp add: gc_struct_defs)

lemma status_open: "gc_struct gc \<Longrightarrow> a \<in> open_blocks gc \<Longrightarrow> blk_status (get_block gc a) = WRITING"
  by (simp add: gc_struct_defs)

lemma full_bucket:
  assumes "gc_struct gc" and "a < nblocks gc" and "blk_status (get_block gc a) = FULL"
  shows "\<exists>i < GC_BUCKET_NUM. a \<in> set (bucket gc i) \<and> garbageWL (get_block gc a) = of_nat i"
proof -
  have "a \<in> set (queued gc)" using assms queued_set by auto
  moreover have "a \<notin> set (freeQ gc)" using status_free [OF assms(1)] assms(3) by (auto simp: zero_block_def)
  moreover have "a \<notin> open_blocks gc" using status_open [OF assms(1)] assms(3) by auto
  ultimately have "a \<in> set (concat (gb_buckets (garbageBuckets gc)))"
    by (auto simp: queued_def open_blocks_def)
  then obtain i where "i < length (gb_buckets (garbageBuckets gc))" "a \<in> set (bucket gc i)"
    using in_some_bucket by blast
  then show ?thesis using assms(1) status_bucket [OF assms(1), of i a]
    by (auto simp: gc_struct_defs full_in_def)
qed

lemma valid_not_free:
  assumes "gc_struct gc" and "valid_at gc a p l"
  shows "a \<notin> set (freeQ gc)"
  using status_free [OF assms(1)] assms(2) by (auto simp: valid_at_def zero_block_def zero_page_def)

subsection \<open>Changing one block\<close>

lemma struct_update_block:
  assumes "gc_struct gc" and "a < nblocks gc" and "a \<notin> set (freeQ gc)" and "block_ok a b"
    and "blk_status b = blk_status (get_block gc a)" and "garbageWL b = garbageWL (get_block gc a)"
    and "blk_status b = FULL \<Longrightarrow> pageCursor b = pageCursor (get_block gc a)"
  shows "gc_struct (set_block a b gc)"
  using assms
  by (auto simp: gc_struct_defs get_set_block queued_def open_blocks_def full_in_def)

lemma valid_at_written:
  assumes "gc_struct gc" and "a < nblocks gc" and "unat (pageCursor (get_block gc a)) < PAGE_NUM_PER_BLOCK"
  shows "valid_at (set_block a (written_block (get_block gc a) l) gc) x p m \<longleftrightarrow>
     valid_at gc x p m \<or> x = a \<and> p = unat (pageCursor (get_block gc a)) \<and> m = l"
proof -
  let ?b = "get_block gc a"
  have ok: "block_ok a ?b" using assms by (simp add: gc_struct_defs)
  then have "pi_status (pages ?b ! unat (pageCursor ?b)) = WRITEABLE" "length (pages ?b) = PAGE_NUM_PER_BLOCK"
    using assms(3) by (auto simp: block_ok_def)
  then show ?thesis using assms(2,3)
    by (auto simp: valid_at_def get_set_block written_block_def nth_list_update)
qed

lemma valid_at_invalidated:
  assumes "gc_struct gc" and "valid_at gc a p l"
  shows "valid_at (set_block a (invalidated_block (get_block gc a) p) gc) x q m \<longleftrightarrow>
     valid_at gc x q m \<and> (x, q) \<noteq> (a, p)"
proof -
  have "length (pages (get_block gc a)) = PAGE_NUM_PER_BLOCK" using assms
    by (auto simp: gc_struct_defs valid_at_def block_ok_def)
  then show ?thesis using assms(2)
    by (auto simp: valid_at_def get_set_block invalidated_block_def nth_list_update)
qed

subsection \<open>The space index\<close>

lemma space_abs_upd [simp]:
  "space_abs (set_block a b gc) = space_abs gc"
  "space_abs (gc\<lparr>freeQ := q\<rparr>) = space_abs gc"
  "space_abs (gc\<lparr>freeQsize := n\<rparr>) = space_abs gc"
  "space_abs (gc\<lparr>garbageBuckets := gb\<rparr>) = space_abs gc"
  "space_abs (gc\<lparr>hostBlock := h\<rparr>) = space_abs gc"
  "space_abs (gc\<lparr>gcBlock := h\<rparr>) = space_abs gc"
  "space_abs (gc\<lparr>hostIOSeqNo := s\<rparr>) = space_abs gc"
  by (simp_all add: space_abs_def)

lemma valid_at_upd [simp]:
  "valid_at (gc\<lparr>spaceIndexer := si\<rparr>) = valid_at gc"
  "valid_at (gc\<lparr>freeQ := q\<rparr>) = valid_at gc"
  "valid_at (gc\<lparr>freeQsize := n\<rparr>) = valid_at gc"
  "valid_at (gc\<lparr>garbageBuckets := gb\<rparr>) = valid_at gc"
  "valid_at (gc\<lparr>hostBlock := h\<rparr>) = valid_at gc"
  "valid_at (gc\<lparr>gcBlock := h\<rparr>) = valid_at gc"
  "valid_at (gc\<lparr>hostIOSeqNo := s\<rparr>) = valid_at gc"
  by (simp_all add: valid_at_def fun_eq_iff)

lemma space_rel_cong:
  "spaceIndexer gc' = spaceIndexer gc \<Longrightarrow> (\<And>a p l. valid_at gc' a p l = valid_at gc a p l) \<Longrightarrow>
   space_rel gc' X = space_rel gc X"
  by (simp add: space_rel_def space_abs_def)

lemma space_rel_valid: "space_rel gc X \<Longrightarrow> space_abs gc l = Some (a, p) \<Longrightarrow> valid_at gc a p l \<and> (a, p) \<notin> X"
  by (simp add: space_rel_def)

lemma space_rel_functional:
  "space_rel gc X \<Longrightarrow> valid_at gc a p l \<Longrightarrow> (a, p) \<notin> X \<Longrightarrow> space_abs gc l = Some (a, p)"
  by (simp add: space_rel_def)

lemma valid_at_lba_unique: "valid_at gc a p l \<Longrightarrow> valid_at gc a p m \<Longrightarrow> l = m"
  by (simp add: valid_at_def)

lemma space_rel_delete:
  assumes "space_rel gc X" and "key_delete bytes_of_u64 (spaceIndexer gc) l = Inr si"
  shows "space_rel (gc\<lparr>spaceIndexer := si\<rparr>) (X \<union> set_option (space_abs gc l))"
    and "space_abs (gc\<lparr>spaceIndexer := si\<rparr>) = (space_abs gc)(l := None)"
proof -
  have k: "key_inv bytes_of_u64 (spaceIndexer gc)" using assms(1) by (simp add: space_rel_def)
  note d = idx64.delete_D [OF assms(2) k]
  then show a: "space_abs (gc\<lparr>spaceIndexer := si\<rparr>) = (space_abs gc)(l := None)"
    by (simp add: space_abs_def)
  have "((space_abs gc)(l := None)) m = Some (a, p) \<longleftrightarrow>
      valid_at gc a p m \<and> (a, p) \<notin> X \<union> set_option (space_abs gc l)" for m a p
  proof -
    have "valid_at gc a p m \<and> (a, p) \<notin> X \<longleftrightarrow> space_abs gc m = Some (a, p)"
      using assms(1) by (simp add: space_rel_def)
    moreover have "space_abs gc l = Some (a, p) \<Longrightarrow> space_abs gc m = Some (a, p) \<Longrightarrow> m = l"
      using assms(1) valid_at_lba_unique [of gc a p] by (auto simp: space_rel_def)
    ultimately show ?thesis by auto
  qed
  then show "space_rel (gc\<lparr>spaceIndexer := si\<rparr>) (X \<union> set_option (space_abs gc l))"
    using d(1) by (simp add: space_rel_def a)
qed

lemma space_rel_insert:
  assumes "space_rel gc (insert (a, p) X)" and "valid_at gc a p l" and "(a, p) \<notin> X"
    and "space_abs gc l = None" and "key_insert bytes_of_u64 (spaceIndexer gc) l (a, p) = Inr si"
  shows "space_rel (gc\<lparr>spaceIndexer := si\<rparr>) X"
    and "space_abs (gc\<lparr>spaceIndexer := si\<rparr>) = (space_abs gc)(l \<mapsto> (a, p))"
proof -
  have k: "key_inv bytes_of_u64 (spaceIndexer gc)" using assms(1) by (simp add: space_rel_def)
  note d = idx64.insertKV_D [OF assms(5) k assms(4) [unfolded space_abs_def]]
  then show b: "space_abs (gc\<lparr>spaceIndexer := si\<rparr>) = (space_abs gc)(l \<mapsto> (a, p))"
    by (simp add: space_abs_def)
  have "((space_abs gc)(l \<mapsto> (a, p))) m = Some (x, q) \<longleftrightarrow> valid_at gc x q m \<and> (x, q) \<notin> X" for m x q
  proof (cases "(x, q) = (a, p)")
    case True
    have "space_abs gc m \<noteq> Some (a, p)" using assms(1) by (simp add: space_rel_def)
    moreover have "valid_at gc a p m \<longleftrightarrow> m = l" using assms(2) by (auto simp: valid_at_def)
    ultimately show ?thesis using True assms(3) by auto
  next
    case False
    have "space_abs gc m = Some (x, q) \<longleftrightarrow> valid_at gc x q m \<and> (x, q) \<notin> X"
      using assms(1) False by (auto simp: space_rel_def)
    then show ?thesis using False assms(4) by auto
  qed
  then show "space_rel (gc\<lparr>spaceIndexer := si\<rparr>) X"
    using d(1) by (simp add: space_rel_def b)
qed

lemma space_rel_written:
  assumes "gc_struct gc" and "a < nblocks gc" and "unat (pageCursor (get_block gc a)) < PAGE_NUM_PER_BLOCK"
    and "space_rel gc X"
  shows "space_rel (set_block a (written_block (get_block gc a) l) gc)
           (insert (a, unat (pageCursor (get_block gc a))) X)"
proof -
  have "pi_status (pages (get_block gc a) ! unat (pageCursor (get_block gc a))) = WRITEABLE"
    using assms(1-3) by (auto simp: gc_struct_defs block_ok_def)
  then have "\<not> valid_at gc a (unat (pageCursor (get_block gc a))) m" for m
    by (simp add: valid_at_def)
  then show ?thesis using assms(4) valid_at_written [OF assms(1-3)]
    by (auto simp: space_rel_def)
qed

lemma space_rel_invalidated:
  assumes "gc_struct gc" and "valid_at gc a p l" and "space_rel gc (insert (a, p) X)"
  shows "space_rel (set_block a (invalidated_block (get_block gc a) p) gc) X"
  using assms(3) valid_at_invalidated [OF assms(1,2)] by (auto simp: space_rel_def)

end
