(* ===== verification/GC_Write.thy ===== *)
theory GC_Write
  imports GC_Inv
begin

text \<open>
  The moves of a block between the queues, and host writes, deletions and reads: each keeps the
  invariant \<open>gc_inv\<close>, and its effect on the space index is the one of a map update.
\<close>

subsection \<open>Queues as multisets\<close>

lemma mset_concat_remove:
  assumes "i < length xss" and "a \<in> set (xss ! i)"
  shows "add_mset a (mset (concat (xss[i := remove1 a (xss ! i)]))) = mset (concat xss)"
proof -
  have m: "mset (xss ! i) = add_mset a (mset (remove1 a (xss ! i)))" using assms(2) by simp
  from mset_concat_update [OF assms(1), of "remove1 a (xss ! i)"]
  have "add_mset a (mset (concat (xss[i := remove1 a (xss ! i)]))) + mset (remove1 a (xss ! i))
      = mset (concat xss) + mset (remove1 a (xss ! i))"
    unfolding m by (simp only: union_mset_add_mset_left union_mset_add_mset_right)
  then show ?thesis by (rule add_right_imp_eq)
qed

lemma mset_concat_snoc:
  "i < length xss \<Longrightarrow> mset (concat (xss[i := xss ! i @ [a]])) = add_mset a (mset (concat xss))"
  using mset_concat_update [of i xss "xss ! i @ [a]"] by simp

lemma distinct_concat_nth:
  "distinct (concat xss) \<Longrightarrow> i < length xss \<Longrightarrow> distinct (xss ! i)"
  by (simp add: distinct_concat_iff)

lemma distinct_concat_less:
  assumes "distinct (concat xss)" and "i < j" and "j < length xss" and "a \<in> set (xss ! i)"
  shows "a \<notin> set (xss ! j)"
proof
  assume a: "a \<in> set (xss ! j)"
  have "xss ! i \<in> set (take j xss)" using assms(2,3) by (auto simp: in_set_conv_nth)
  then have "a \<in> set (concat (take j xss))" using assms(4) by auto
  moreover have "drop j xss = xss ! j # drop (Suc j) xss" using assms(3) by (simp add: Cons_nth_drop_Suc)
  then have "a \<in> set (concat (drop j xss))" using a by simp
  moreover have "distinct (concat (take j xss) @ concat (drop j xss))"
    using assms(1) by (metis append_take_drop_id concat_append)
  ultimately show False by auto
qed

lemma distinct_concat_disjoint:
  "distinct (concat xss) \<Longrightarrow> i < length xss \<Longrightarrow> j < length xss \<Longrightarrow> a \<in> set (xss ! i) \<Longrightarrow>
   a \<in> set (xss ! j) \<Longrightarrow> i = j"
  by (metis linorder_neqE_nat distinct_concat_less)

lemma unlink_bucket:
  assumes "gc_struct gc" and "i < GC_BUCKET_NUM" and "a \<in> set (bucket gc i)"
  shows "gb_buckets (garbageBuckets (unlink_block a gc)) =
           (gb_buckets (garbageBuckets gc))[i := remove1 a (bucket gc i)]"
    and "freeQ (unlink_block a gc) = freeQ gc"
proof -
  let ?bs = "gb_buckets (garbageBuckets gc)"
  have len: "length ?bs = GC_BUCKET_NUM" using assms(1) by (simp add: gc_struct_defs)
  have d: "distinct (concat ?bs)" using gc_places [OF assms(1)] by simp
  have "map (removeAll a) ?bs = ?bs[i := remove1 a (?bs ! i)]"
  proof (rule nth_equalityI)
    fix j assume j: "j < length (map (removeAll a) ?bs)"
    show "map (removeAll a) ?bs ! j = ?bs[i := remove1 a (?bs ! i)] ! j"
    proof (cases "j = i")
      case True
      have "distinct (?bs ! i)" using distinct_concat_nth [OF d] assms(2) len by simp
      then show ?thesis using True j by (simp add: distinct_remove1_removeAll)
    next
      case False
      then have "a \<notin> set (?bs ! j)"
        using distinct_concat_disjoint [OF d, of i j a] assms(2,3) len j by auto
      then show ?thesis using False j by simp
    qed
  qed simp
  then show "gb_buckets (garbageBuckets (unlink_block a gc)) = ?bs[i := remove1 a (bucket gc i)]"
    by (simp add: unlink_block_def)
  have "a \<in> set (concat ?bs)" using bucket_subset [of i gc] assms(2,3) len by auto
  then have "a \<notin> set (freeQ gc)" using gc_places(1) [OF assms(1)] by blast
  then show "freeQ (unlink_block a gc) = freeQ gc" by (simp add: unlink_block_def)
qed

lemma unlink_block_simps [simp]:
  "spaceIndexer (unlink_block a gc) = spaceIndexer gc"
  "blockIndexer (unlink_block a gc) = blockIndexer gc"
  "freeQsize (unlink_block a gc) = freeQsize gc"
  "gb_blockCnt (garbageBuckets (unlink_block a gc)) = gb_blockCnt (garbageBuckets gc)"
  "hostBlock (unlink_block a gc) = hostBlock gc"
  "gcBlock (unlink_block a gc) = gcBlock gc"
  "hostIOSeqNo (unlink_block a gc) = hostIOSeqNo gc"
  "blocks (unlink_block a gc) = blocks gc"
  "get_block (unlink_block a gc) = get_block gc"
  by (simp_all add: unlink_block_def)

subsection \<open>The four moves of a block\<close>

definition opens :: "GCModule \<Rightarrow> nat multiset" where
  "opens gc = mset (opt_list (hostBlock gc) @ opt_list (gcBlock gc))"

lemma set_opens: "set_mset (opens gc) = open_blocks gc"
  by (simp add: opens_def open_blocks_def)

lemma queued_mset: "mset (queued gc) = mset (freeQ gc) + mset (concat (gb_buckets (garbageBuckets gc))) + opens gc"
  by (simp add: queued_def opens_def)

lemma struct_alloc:
  assumes "gc_struct gc" and "freeQ gc \<noteq> []" and "a = last (freeQ gc)"
    and "freeQ gc' = butlast (freeQ gc)" and "freeQsize gc' = freeQsize gc - 1"
    and "garbageBuckets gc' = garbageBuckets gc" and "blockIndexer gc' = blockIndexer gc"
    and "nblocks gc' = nblocks gc"
    and "\<And>x. x \<noteq> a \<Longrightarrow> get_block gc' x = get_block gc x"
    and "get_block gc' a = (zero_block (of_nat a))\<lparr>blk_status := WRITING, createSeqNo := s, blk_type := t\<rparr>"
    and "opens gc' = add_mset a (opens gc)"
  shows "gc_struct gc'"
proof -
  have q: "freeQ gc = butlast (freeQ gc) @ [a]" using assms(2,3) by simp
  have mq: "mset (freeQ gc) = add_mset a (mset (butlast (freeQ gc)))" by (subst q) simp
  have lq: "length (freeQ gc) = Suc (length (butlast (freeQ gc)))" using assms(2) by simp
  have o: "open_blocks gc' = insert a (open_blocks gc)"
    using assms(11) by (simp add: set_opens [symmetric])
  have af: "a \<in> set (freeQ gc)" using assms(2,3) by simp
  have an: "a < nblocks gc" "a \<notin> set (concat (gb_buckets (garbageBuckets gc)))" "a \<notin> open_blocks gc"
    using gc_places [OF assms(1)] af by auto
  have "distinct (butlast (freeQ gc) @ [a])" using gc_places(7) [OF assms(1)] q by simp
  then have ab: "a \<notin> set (butlast (freeQ gc))" by simp
  have "block_ok x (get_block gc' x)" if "x < nblocks gc" for x
    using that assms(1) assms(9) [of x] assms(10) block_ok_zero [of a]
    by (cases "x = a") (simp_all add: gc_struct_def blocks_ok_def)
  then have "blocks_ok gc'" using assms(1,8) by (simp add: gc_struct_def blocks_ok_def)
  moreover have "bindex_ok gc'" using assms(1,7,8) by (simp add: gc_struct_def bindex_ok_def)
  moreover have "queues_ok gc'"
  proof -
    have "mset (queued gc') = mset (queued gc)" by (simp add: queued_mset assms(4,6,11) mq)
    moreover have "freeQsize gc = of_nat (Suc (length (butlast (freeQ gc))))"
      using assms(1) unfolding gc_struct_def queues_ok_def lq by blast
    then have "freeQsize gc' = of_nat (length (freeQ gc'))"
      unfolding assms(4,5) by (simp del: length_butlast)
    moreover have "\<forall>x \<in> set (freeQ gc'). get_block gc' x = zero_block (of_nat x)"
    proof
      fix x assume x: "x \<in> set (freeQ gc')"
      then have "x \<noteq> a" "x \<in> set (freeQ gc)" using ab assms(4) by (auto dest: in_set_butlastD)
      then show "get_block gc' x = zero_block (of_nat x)" using assms(9) status_free [OF assms(1)] by simp
    qed
    moreover have "\<forall>x \<in> open_blocks gc'. blk_status (get_block gc' x) = WRITING"
    proof
      fix x assume "x \<in> open_blocks gc'"
      then show "blk_status (get_block gc' x) = WRITING"
        using o assms(9) [of x] assms(10) status_open [OF assms(1), of x] by (cases "x = a") auto
    qed
    ultimately show ?thesis using assms(1,8) by (simp add: gc_struct_def queues_ok_def)
  qed
  moreover have "buckets_ok gc'"
  proof -
    have "get_block gc' x = get_block gc x" if "i < GC_BUCKET_NUM" "x \<in> set (bucket gc i)" for i x
    proof -
      have "x \<noteq> a" using that an(2) bucket_subset [of i gc] assms(1) by (auto simp: gc_struct_defs)
      then show ?thesis by (rule assms(9))
    qed
    then show ?thesis using assms(1,6) by (simp add: gc_struct_def buckets_ok_def)
  qed
  ultimately show ?thesis by (simp add: gc_struct_def)
qed

lemma struct_close:
  assumes "gc_struct gc" and "i < GC_BUCKET_NUM" and "unat (pageCursor (get_block gc a)) = PAGE_NUM_PER_BLOCK"
    and "freeQ gc' = freeQ gc" and "freeQsize gc' = freeQsize gc"
    and "gb_buckets (garbageBuckets gc') = (gb_buckets (garbageBuckets gc))[i := bucket gc i @ [a]]"
    and "gb_blockCnt (garbageBuckets gc') = (gb_blockCnt (garbageBuckets gc))[i := gb_blockCnt (garbageBuckets gc) ! i + 1]"
    and "blockIndexer gc' = blockIndexer gc" and "nblocks gc' = nblocks gc"
    and "\<And>x. x \<noteq> a \<Longrightarrow> get_block gc' x = get_block gc x"
    and "get_block gc' a = (get_block gc a)\<lparr>garbageWL := of_nat i, blk_status := FULL\<rparr>"
    and "opens gc = add_mset a (opens gc')"
  shows "gc_struct gc'"
proof -
  have o: "open_blocks gc = insert a (open_blocks gc')"
    using assms(12) by (simp add: set_opens [symmetric])
  have li: "i < length (gb_buckets (garbageBuckets gc))" using assms(1,2) by (simp add: gc_struct_defs)
  have an: "a < nblocks gc" "a \<notin> set (concat (gb_buckets (garbageBuckets gc)))" "a \<notin> set (freeQ gc)"
    using gc_places [OF assms(1)] o by auto
  have "distinct (opt_list (hostBlock gc) @ opt_list (gcBlock gc))"
    using queued_distinct [OF assms(1)] by (auto simp: queued_def)
  then have "count (opens gc) a \<le> 1" unfolding opens_def by (metis distinct_count_atmost_1 in_multiset_in_set linorder_not_le nat_le_linear not_in_iff zero_le)
  then have ao: "a \<notin> open_blocks gc'" using assms(12) by (simp add: set_opens [symmetric] count_eq_zero_iff)
  have "block_ok x (get_block gc' x)" if "x < nblocks gc" for x
    using that assms(1) assms(10) [of x] assms(11)
    by (cases "x = a") (simp_all add: gc_struct_def blocks_ok_def)
  then have "blocks_ok gc'" using assms(1,9) by (simp add: gc_struct_def blocks_ok_def)
  moreover have "bindex_ok gc'" using assms(1,8,9) by (simp add: gc_struct_def bindex_ok_def)
  moreover have "queues_ok gc'"
  proof -
    have "mset (queued gc') = mset (queued gc)"
      by (simp add: queued_mset assms(4,6,12) mset_concat_snoc [OF li])
    moreover have "\<forall>x \<in> set (freeQ gc'). get_block gc' x = zero_block (of_nat x)"
    proof
      fix x assume x: "x \<in> set (freeQ gc')"
      then have "x \<noteq> a" "x \<in> set (freeQ gc)" using an(3) assms(4) by auto
      then show "get_block gc' x = zero_block (of_nat x)" using assms(10) status_free [OF assms(1)] by simp
    qed
    moreover have "\<forall>x \<in> open_blocks gc'. blk_status (get_block gc' x) = WRITING"
    proof
      fix x assume "x \<in> open_blocks gc'"
      then show "blk_status (get_block gc' x) = WRITING"
        using o ao assms(10) [of x] status_open [OF assms(1), of x] by (cases "x = a") auto
    qed
    ultimately show ?thesis using assms(1,4,5,9) by (simp add: gc_struct_def queues_ok_def)
  qed
  moreover have "buckets_ok gc'"
  proof -
    have "get_block gc' x = get_block gc x" if "j < GC_BUCKET_NUM" "x \<in> set (bucket gc j)" for j x
    proof -
      have "x \<noteq> a" using that an(2) bucket_subset [of j gc] assms(1) by (auto simp: gc_struct_defs)
      then show ?thesis by (rule assms(10))
    qed
    then show ?thesis using assms(1,2,3,6,7,11) li
      by (auto simp: gc_struct_def buckets_ok_def nth_list_update full_in_def)
  qed
  ultimately show ?thesis by (simp add: gc_struct_def)
qed

lemma bucket_facts:
  assumes "gc_struct gc" and "i < GC_BUCKET_NUM" and "a \<in> set (bucket gc i)"
  shows "i < length (gb_buckets (garbageBuckets gc))" and "a \<in> set (concat (gb_buckets (garbageBuckets gc)))"
    and "a < nblocks gc" and "a \<notin> set (freeQ gc)" and "a \<notin> open_blocks gc" and "distinct (bucket gc i)"
    and "0 < length (bucket gc i)"
    and "j < GC_BUCKET_NUM \<Longrightarrow> a \<in> set (bucket gc j) \<Longrightarrow> j = i"
proof -
  show l: "i < length (gb_buckets (garbageBuckets gc))" using assms(1,2) by (simp add: gc_struct_defs)
  then show c: "a \<in> set (concat (gb_buckets (garbageBuckets gc)))"
    using bucket_subset assms(3) by blast
  show "a < nblocks gc" "a \<notin> set (freeQ gc)" "a \<notin> open_blocks gc"
    using gc_places [OF assms(1)] c by auto
  show "distinct (bucket gc i)" using distinct_concat_nth [OF gc_places(8) [OF assms(1)] l] .
  show "0 < length (bucket gc i)" using assms(3) by (cases "bucket gc i") auto
  show "j < GC_BUCKET_NUM \<Longrightarrow> a \<in> set (bucket gc j) \<Longrightarrow> j = i"
    using distinct_concat_disjoint [OF gc_places(8) [OF assms(1)], of j i a] l assms
    by (simp add: gc_struct_defs)
qed

lemma bucketCnt_dec:
  assumes "gc_struct gc" and "i < GC_BUCKET_NUM" and "a \<in> set (bucket gc i)"
  shows "gb_blockCnt (garbageBuckets gc) ! i - 1 = of_nat (length (remove1 a (bucket gc i)))"
proof -
  have "length (bucket gc i) = Suc (length (remove1 a (bucket gc i)))"
    using assms(3) length_pos_if_in_set [of a "bucket gc i"] by (simp add: length_remove1)
  moreover have "gb_blockCnt (garbageBuckets gc) ! i = of_nat (length (bucket gc i))"
    using assms by (simp add: gc_struct_defs)
  ultimately show ?thesis by (metis add_diff_cancel_left' of_nat_Suc)
qed

lemma struct_move:
  assumes "gc_struct gc" and "i < GC_BUCKET_NUM" and "j < GC_BUCKET_NUM" and "i \<noteq> j"
    and "a \<in> set (bucket gc i)"
    and "freeQ gc' = freeQ gc" and "freeQsize gc' = freeQsize gc"
    and "gb_buckets (garbageBuckets gc') =
           (gb_buckets (garbageBuckets gc))[i := remove1 a (bucket gc i), j := bucket gc j @ [a]]"
    and "gb_blockCnt (garbageBuckets gc') = (gb_blockCnt (garbageBuckets gc))
           [i := gb_blockCnt (garbageBuckets gc) ! i - 1, j := gb_blockCnt (garbageBuckets gc) ! j + 1]"
    and "blockIndexer gc' = blockIndexer gc" and "nblocks gc' = nblocks gc"
    and "\<And>x. x \<noteq> a \<Longrightarrow> get_block gc' x = get_block gc x"
    and "get_block gc' a = (get_block gc a)\<lparr>garbageWL := of_nat j\<rparr>"
    and "opens gc' = opens gc"
  shows "gc_struct gc'"
proof -
  let ?bs = "gb_buckets (garbageBuckets gc)"
  note bf = bucket_facts [OF assms(1,2,5)]
  have o: "open_blocks gc' = open_blocks gc" using assms(14) by (simp add: set_opens [symmetric])
  have lj: "j < length ?bs" using assms(1,3) by (simp add: gc_struct_defs)
  have "block_ok x (get_block gc' x)" if "x < nblocks gc" for x
    using that assms(1) assms(12) [of x] assms(13)
    by (cases "x = a") (simp_all add: gc_struct_def blocks_ok_def)
  then have "blocks_ok gc'" using assms(1,11) by (simp add: gc_struct_def blocks_ok_def)
  moreover have "bindex_ok gc'" using assms(1,10,11) by (simp add: gc_struct_def bindex_ok_def)
  moreover have "queues_ok gc'"
  proof -
    have "mset (concat (?bs[i := remove1 a (?bs ! i), j := ?bs ! j @ [a]]))
        = add_mset a (mset (concat (?bs[i := remove1 a (?bs ! i)])))"
      using mset_concat_snoc [of j "?bs[i := remove1 a (?bs ! i)]" a] lj assms(4) by simp
    also have "\<dots> = mset (concat ?bs)" by (rule mset_concat_remove [OF bf(1) assms(5)])
    finally have "mset (queued gc') = mset (queued gc)"
      by (simp only: queued_mset assms(6,8,14))
    moreover have "\<forall>x \<in> set (freeQ gc'). get_block gc' x = zero_block (of_nat x)"
    proof
      fix x assume x: "x \<in> set (freeQ gc')"
      then have "x \<noteq> a" "x \<in> set (freeQ gc)" using bf(4) assms(6) by auto
      then show "get_block gc' x = zero_block (of_nat x)" using assms(12) status_free [OF assms(1)] by simp
    qed
    moreover have "\<forall>x \<in> open_blocks gc'. blk_status (get_block gc' x) = WRITING"
      using o bf(5) assms(12) status_open [OF assms(1)] by metis
    ultimately show ?thesis using assms(1,6,7,11) by (simp add: gc_struct_def queues_ok_def)
  qed
  moreover have "buckets_ok gc'"
  proof -
    have lens: "length ?bs = GC_BUCKET_NUM" "length (gb_blockCnt (garbageBuckets gc)) = GC_BUCKET_NUM"
      using assms(1) by (simp_all add: gc_struct_defs)
    have cnt: "gb_blockCnt (garbageBuckets gc) ! k = of_nat (length (?bs ! k))" if "k < GC_BUCKET_NUM" for k
      using that assms(1) by (simp add: gc_struct_defs)
    have "gb_blockCnt (garbageBuckets gc') ! k = of_nat (length (bucket gc' k))" if "k < GC_BUCKET_NUM" for k
      using that assms(4) lens bucketCnt_dec [OF assms(1,2,5)] cnt [of k] cnt [OF assms(3)]
      unfolding assms(8,9) by (cases "k = j"; cases "k = i") auto
    moreover have "full_in k (get_block gc' x)" if k: "k < GC_BUCKET_NUM" and x: "x \<in> set (bucket gc' k)" for k x
    proof (cases "x = a")
      case True
      have "a \<notin> set (bucket gc k)" if "k \<noteq> i" using bf(8) [OF k] that by blast
      moreover have "a \<notin> set (remove1 a (bucket gc i))" using bf(6) by simp
      ultimately have "k = j" using x True k lens unfolding assms(8)
        by (cases "k = j"; cases "k = i") auto
      then show ?thesis using True assms(13) status_bucket [OF assms(1,2,5)] by (simp add: full_in_def)
    next
      case False
      then have "x \<in> set (bucket gc k)" using x k lens unfolding assms(8)
        by (cases "k = j"; cases "k = i") (auto dest: notin_set_remove1 set_mp [OF set_remove1_subset])
      then show ?thesis using False assms(12) status_bucket [OF assms(1) k] by simp
    qed
    ultimately show ?thesis using lens by (simp add: buckets_ok_def assms(8,9))
  qed
  ultimately show ?thesis by (simp add: gc_struct_def)
qed

lemma struct_return:
  assumes "gc_struct gc" and "i < GC_BUCKET_NUM" and "a \<in> set (bucket gc i)"
    and "freeQ gc' = a # freeQ gc" and "freeQsize gc' = freeQsize gc + 1"
    and "gb_buckets (garbageBuckets gc') = (gb_buckets (garbageBuckets gc))[i := remove1 a (bucket gc i)]"
    and "gb_blockCnt (garbageBuckets gc') = (gb_blockCnt (garbageBuckets gc))
           [i := gb_blockCnt (garbageBuckets gc) ! i - 1]"
    and "blockIndexer gc' = blockIndexer gc" and "nblocks gc' = nblocks gc"
    and "\<And>x. x \<noteq> a \<Longrightarrow> get_block gc' x = get_block gc x"
    and "get_block gc' a = zero_block (of_nat a)"
    and "opens gc' = opens gc"
  shows "gc_struct gc'"
proof -
  let ?bs = "gb_buckets (garbageBuckets gc)"
  note bf = bucket_facts [OF assms(1-3)]
  have o: "open_blocks gc' = open_blocks gc" using assms(12) by (simp add: set_opens [symmetric])
  have "block_ok x (get_block gc' x)" if "x < nblocks gc" for x
    using that assms(1) assms(10) [of x] assms(11) block_ok_zero [of a]
    by (cases "x = a") (simp_all add: gc_struct_def blocks_ok_def)
  then have "blocks_ok gc'" using assms(1,9) by (simp add: gc_struct_def blocks_ok_def)
  moreover have "bindex_ok gc'" using assms(1,8,9) by (simp add: gc_struct_def bindex_ok_def)
  moreover have "queues_ok gc'"
  proof -
    have "mset (queued gc') = mset (queued gc)"
      using mset_concat_remove [OF bf(1) assms(3)] by (simp add: queued_mset assms(4,6,12))
    moreover have "\<forall>x \<in> set (freeQ gc'). get_block gc' x = zero_block (of_nat x)"
    proof
      fix x assume x: "x \<in> set (freeQ gc')"
      then show "get_block gc' x = zero_block (of_nat x)"
        using assms(4) assms(10) [of x] assms(11) status_free [OF assms(1), of x] by (cases "x = a") auto
    qed
    moreover have "\<forall>x \<in> open_blocks gc'. blk_status (get_block gc' x) = WRITING"
      using o bf(5) assms(10) status_open [OF assms(1)] by metis
    ultimately show ?thesis using assms(1,4,5,9) by (simp add: gc_struct_def queues_ok_def)
  qed
  moreover have "buckets_ok gc'"
  proof -
    have lens: "length ?bs = GC_BUCKET_NUM" "length (gb_blockCnt (garbageBuckets gc)) = GC_BUCKET_NUM"
      using assms(1) by (simp_all add: gc_struct_defs)
    have cnt: "gb_blockCnt (garbageBuckets gc) ! k = of_nat (length (?bs ! k))" if "k < GC_BUCKET_NUM" for k
      using that assms(1) by (simp add: gc_struct_defs)
    have "gb_blockCnt (garbageBuckets gc') ! k = of_nat (length (bucket gc' k))" if "k < GC_BUCKET_NUM" for k
      using that lens bucketCnt_dec [OF assms(1-3)] cnt [of k] unfolding assms(6,7)
      by (cases "k = i") auto
    moreover have "full_in k (get_block gc' x)" if k: "k < GC_BUCKET_NUM" and x: "x \<in> set (bucket gc' k)" for k x
    proof -
      have "x \<in> set (bucket gc k)" using x k lens unfolding assms(6)
        by (cases "k = i") (auto dest: notin_set_remove1 set_mp [OF set_remove1_subset])
      moreover have "x \<noteq> a"
      proof
        assume "x = a"
        then have "k = i" using bf(8) [OF k] \<open>x \<in> set (bucket gc k)\<close> by simp
        then show False using x \<open>x = a\<close> lens k bf(6) unfolding assms(6) by simp
      qed
      ultimately show ?thesis using assms(10) status_bucket [OF assms(1) k] by simp
    qed
    ultimately show ?thesis using lens by (simp add: buckets_ok_def assms(6,7))
  qed
  ultimately show ?thesis by (simp add: gc_struct_def)
qed

subsection \<open>Opening a block\<close>

lemma set_block_set_block [simp]: "set_block a b (set_block a b' gc) = set_block a b gc"
  by (simp add: set_block_def)

lemma set_block_commute:
  "(set_block a b gc)\<lparr>hostBlock := h\<rparr> = set_block a b (gc\<lparr>hostBlock := h\<rparr>)"
  "(set_block a b gc)\<lparr>gcBlock := h\<rparr> = set_block a b (gc\<lparr>gcBlock := h\<rparr>)"
  "(set_block a b gc)\<lparr>spaceIndexer := si\<rparr> = set_block a b (gc\<lparr>spaceIndexer := si\<rparr>)"
  by (simp_all add: set_block_def)

text \<open>What opening (or reusing) a block leaves alone: everything a page address depends on.\<close>

definition same_pages :: "GCModule \<Rightarrow> GCModule \<Rightarrow> bool" where
  "same_pages gc gc' \<longleftrightarrow> nblocks gc' = nblocks gc \<and> spaceIndexer gc' = spaceIndexer gc \<and>
     (\<forall>x < nblocks gc. pages (get_block gc' x) = pages (get_block gc x) \<and>
        pageCursor (get_block gc' x) = pageCursor (get_block gc x) \<and>
        garbageCnt (get_block gc' x) = garbageCnt (get_block gc x))"

lemma same_pages_refl [simp]: "same_pages gc gc"
  by (simp add: same_pages_def)

lemma same_pages_valid_at: "same_pages gc gc' \<Longrightarrow> valid_at gc' = valid_at gc"
  by (auto simp: same_pages_def valid_at_def fun_eq_iff)

lemma same_pages_space_abs: "same_pages gc gc' \<Longrightarrow> space_abs gc' = space_abs gc"
  by (simp add: same_pages_def space_abs_def)

lemma same_pages_space_rel: "same_pages gc gc' \<Longrightarrow> space_rel gc' X = space_rel gc X"
  using same_pages_valid_at [of gc gc'] by (intro space_rel_cong) (simp_all add: same_pages_def)

text \<open>The state after a successful allocation; \<open>opened gc a gc'\<close> covers both kinds of open block.\<close>

definition allocated :: "GCModule \<Rightarrow> nat \<Rightarrow> GCModule \<Rightarrow> bool" where
  "allocated gc a gc' \<longleftrightarrow> freeQ gc \<noteq> [] \<and> a = last (freeQ gc) \<and> freeQ gc' = butlast (freeQ gc) \<and>
     freeQsize gc' = freeQsize gc - 1 \<and> garbageBuckets gc' = garbageBuckets gc \<and>
     blockIndexer gc' = blockIndexer gc \<and> nblocks gc' = nblocks gc \<and>
     spaceIndexer gc' = spaceIndexer gc \<and> (\<forall>x. x \<noteq> a \<longrightarrow> get_block gc' x = get_block gc x) \<and>
     (\<exists>s t. get_block gc' a = (zero_block (of_nat a))\<lparr>blk_status := WRITING, createSeqNo := s, blk_type := t\<rparr>) \<and>
     opens gc' = add_mset a (opens gc)"

lemma allocated_spec:
  assumes "allocated gc a gc'" and "gc_struct gc"
  shows "gc_struct gc'" and "same_pages gc gc'" and "levels_ok D gc \<Longrightarrow> levels_ok D gc'"
    and "open_ok gc \<Longrightarrow> open_ok gc'" and "pageCursor (get_block gc' a) = 0" and "a < nblocks gc"
proof -
  obtain s t where b: "get_block gc' a = (zero_block (of_nat a))\<lparr>blk_status := WRITING, createSeqNo := s, blk_type := t\<rparr>"
    using assms(1) by (auto simp: allocated_def)
  show "gc_struct gc'"
    using assms(1) by (intro struct_alloc [OF assms(2) _ _ _ _ _ _ _ _ b]) (auto simp: allocated_def)
  have af: "a \<in> set (freeQ gc)" using assms(1) by (auto simp: allocated_def)
  then have z: "get_block gc a = zero_block (of_nat a)" by (rule status_free [OF assms(2)])
  have other: "get_block gc' x = get_block gc x" if "x \<noteq> a" for x
    using assms(1) that by (simp add: allocated_def)
  have "pages (get_block gc' x) = pages (get_block gc x) \<and>
        pageCursor (get_block gc' x) = pageCursor (get_block gc x) \<and>
        garbageCnt (get_block gc' x) = garbageCnt (get_block gc x)" for x
    using b z other [of x] by (cases "x = a") simp_all
  then show "same_pages gc gc'" using assms(1) by (simp add: same_pages_def allocated_def)
  have n: "nblocks gc' = nblocks gc" using assms(1) by (simp add: allocated_def)
  have "level_ok (get_block gc x) \<Longrightarrow> level_ok (get_block gc' x)" for x
    using b other [of x] by (cases "x = a") (simp_all add: level_ok_def)
  then show "levels_ok D gc \<Longrightarrow> levels_ok D gc'" using n by (simp add: levels_ok_def)
  have o: "open_blocks gc' = insert a (open_blocks gc)"
    using assms(1) by (simp add: set_opens [symmetric] allocated_def)
  show "pageCursor (get_block gc' a) = 0" using b by (simp add: zero_block_def)
  then have "unat (pageCursor (get_block gc x)) < PAGE_NUM_PER_BLOCK \<or> x = a \<Longrightarrow>
      unat (pageCursor (get_block gc' x)) < PAGE_NUM_PER_BLOCK" for x
    using other [of x] by (cases "x = a") simp_all
  then show "open_ok gc \<Longrightarrow> open_ok gc'" by (simp add: open_ok_def o)
  show "a < nblocks gc" using af gc_places(4) [OF assms(2)] by auto
qed

lemma GetHostBlock_cases:
  assumes "gc_struct gc"
  shows "hostBlock gc = Some a \<Longrightarrow> GetHostBlock gc = Inr (a, gc)"
    and "hostBlock gc = None \<Longrightarrow> freeQ gc = [] \<Longrightarrow> GetHostBlock gc = Inl BadListEntry"
    and "hostBlock gc = None \<Longrightarrow> freeQ gc \<noteq> [] \<Longrightarrow>
           \<exists>a gc'. GetHostBlock gc = Inr (a, gc') \<and> allocated gc a gc' \<and> hostBlock gc' = Some a \<and>
             gcBlock gc' = gcBlock gc \<and> hostIOSeqNo gc' = hostIOSeqNo gc"
proof -
  show "hostBlock gc = Some a \<Longrightarrow> GetHostBlock gc = Inr (a, gc)" by (simp add: GetHostBlock_def)
  show "hostBlock gc = None \<Longrightarrow> freeQ gc = [] \<Longrightarrow> GetHostBlock gc = Inl BadListEntry"
    by (simp add: GetHostBlock_def TryAllocBlockFromFreeQ_def)
  assume n: "hostBlock gc = None" and f: "freeQ gc \<noteq> []"
  let ?a = "last (freeQ gc)"
  have af: "?a \<in> set (freeQ gc)" using f by simp
  then have a: "?a < nblocks gc" using gc_places(4) [OF assms] by auto
  have z: "get_block gc ?a = zero_block (of_nat ?a)" by (rule status_free [OF assms af])
  show "\<exists>a gc'. GetHostBlock gc = Inr (a, gc') \<and> allocated gc a gc' \<and> hostBlock gc' = Some a \<and>
             gcBlock gc' = gcBlock gc \<and> hostIOSeqNo gc' = hostIOSeqNo gc"
    using n f a z
    by (auto simp: GetHostBlock_def TryAllocBlockFromFreeQ_def Let_def allocated_def get_set_block opens_def)
qed

lemma GetGCBlock_cases:
  assumes "gc_struct gc"
  shows "gcBlock gc = Some a \<Longrightarrow> GetGCBlock gc = Inr (a, gc)"
    and "gcBlock gc = None \<Longrightarrow> freeQ gc = [] \<Longrightarrow> GetGCBlock gc = Inl BadListEntry"
    and "gcBlock gc = None \<Longrightarrow> freeQ gc \<noteq> [] \<Longrightarrow>
           \<exists>a gc'. GetGCBlock gc = Inr (a, gc') \<and> allocated gc a gc' \<and> gcBlock gc' = Some a \<and>
             hostBlock gc' = hostBlock gc \<and> hostIOSeqNo gc' = hostIOSeqNo gc"
proof -
  show "gcBlock gc = Some a \<Longrightarrow> GetGCBlock gc = Inr (a, gc)" by (simp add: GetGCBlock_def)
  show "gcBlock gc = None \<Longrightarrow> freeQ gc = [] \<Longrightarrow> GetGCBlock gc = Inl BadListEntry"
    by (simp add: GetGCBlock_def TryAllocBlockFromFreeQ_def)
  assume n: "gcBlock gc = None" and f: "freeQ gc \<noteq> []"
  let ?a = "last (freeQ gc)"
  have af: "?a \<in> set (freeQ gc)" using f by simp
  then have a: "?a < nblocks gc" using gc_places(4) [OF assms] by auto
  have z: "get_block gc ?a = zero_block (of_nat ?a)" by (rule status_free [OF assms af])
  show "\<exists>a gc'. GetGCBlock gc = Inr (a, gc') \<and> allocated gc a gc' \<and> gcBlock gc' = Some a \<and>
             hostBlock gc' = hostBlock gc \<and> hostIOSeqNo gc' = hostIOSeqNo gc"
    using n f a z
    by (auto simp: GetGCBlock_def TryAllocBlockFromFreeQ_def Let_def allocated_def get_set_block opens_def)
qed

subsection \<open>Closing a block, adjusting its bucket\<close>

lemma GetCurBucketIdx_less: "unat (GetCurBucketIdx c) < GC_BUCKET_NUM"
proof (cases "c div 10 \<ge> 50")
  case True
  then show ?thesis by (simp add: GetCurBucketIdx_def Let_def)
next
  case False
  then have "unat (c div 10) < unat (50 :: u32)" by (simp add: word_less_nat_alt not_le)
  then show ?thesis using False by (simp add: GetCurBucketIdx_def Let_def)
qed

lemma buckets_lengths:
  "gc_struct gc \<Longrightarrow> length (gb_buckets (garbageBuckets gc)) = GC_BUCKET_NUM"
  "gc_struct gc \<Longrightarrow> length (gb_blockCnt (garbageBuckets gc)) = GC_BUCKET_NUM"
  by (simp_all add: gc_struct_defs)

definition closed_block :: "GCModule \<Rightarrow> nat \<Rightarrow> GCModule \<Rightarrow> bool" where
  "closed_block gc a gc' \<longleftrightarrow>
     freeQ gc' = freeQ gc \<and> freeQsize gc' = freeQsize gc \<and> blockIndexer gc' = blockIndexer gc \<and>
     spaceIndexer gc' = spaceIndexer gc \<and> nblocks gc' = nblocks gc \<and>
     (\<forall>x. x \<noteq> a \<longrightarrow> get_block gc' x = get_block gc x) \<and>
     (\<exists>i < GC_BUCKET_NUM. GetCurBucketIdx (garbageCnt (get_block gc a)) = of_nat i \<and>
        gb_buckets (garbageBuckets gc') = (gb_buckets (garbageBuckets gc))[i := bucket gc i @ [a]] \<and>
        gb_blockCnt (garbageBuckets gc') =
          (gb_blockCnt (garbageBuckets gc))[i := gb_blockCnt (garbageBuckets gc) ! i + 1] \<and>
        get_block gc' a = (get_block gc a)\<lparr>garbageWL := of_nat i, blk_status := FULL\<rparr>) \<and>
     opens gc = add_mset a (opens gc')"

lemma Insert2GarbageBuckets_closes:
  assumes "gc_struct gc" and "a < nblocks gc"
  shows "\<exists>gc'. Insert2GarbageBuckets gc a = Inr gc' \<and>
           hostBlock gc' = hostBlock gc \<and> gcBlock gc' = gcBlock gc \<and> hostIOSeqNo gc' = hostIOSeqNo gc \<and>
           (opens gc = add_mset a (opens (gc'\<lparr>hostBlock := None\<rparr>)) \<longrightarrow> closed_block gc a (gc'\<lparr>hostBlock := None\<rparr>)) \<and>
           (opens gc = add_mset a (opens (gc'\<lparr>gcBlock := None\<rparr>)) \<longrightarrow> closed_block gc a (gc'\<lparr>gcBlock := None\<rparr>))"
proof -
  let ?wl = "GetCurBucketIdx (garbageCnt (get_block gc a))"
  have "?wl = of_nat (unat ?wl)" by simp
  then show ?thesis
    using assms buckets_lengths [OF assms(1)] GetCurBucketIdx_less [of "garbageCnt (get_block gc a)"]
    by (auto simp: Insert2GarbageBuckets_def Let_def bucket_append_def closed_block_def get_set_block
        intro!: exI [of _ "unat ?wl"])
qed

lemma closed_block_spec:
  assumes "closed_block gc a gc'" and "gc_struct gc"
    and "unat (pageCursor (get_block gc a)) = PAGE_NUM_PER_BLOCK"
  shows "gc_struct gc'" and "same_pages gc gc'" and "levels_ok D gc \<Longrightarrow> levels_ok (D - {a}) gc'"
    and "open_blocks gc = insert a (open_blocks gc')" and "a \<notin> open_blocks gc'"
    and "blk_status (get_block gc' a) = FULL"
proof -
  from assms(1) obtain i where i: "i < GC_BUCKET_NUM" "GetCurBucketIdx (garbageCnt (get_block gc a)) = of_nat i"
      "gb_buckets (garbageBuckets gc') = (gb_buckets (garbageBuckets gc))[i := bucket gc i @ [a]]"
      "gb_blockCnt (garbageBuckets gc') =
          (gb_blockCnt (garbageBuckets gc))[i := gb_blockCnt (garbageBuckets gc) ! i + 1]"
      "get_block gc' a = (get_block gc a)\<lparr>garbageWL := of_nat i, blk_status := FULL\<rparr>"
    by (auto simp: closed_block_def)
  show st: "gc_struct gc'"
    by (rule struct_close [OF assms(2) i(1) assms(3) _ _ i(3,4) _ _ _ i(5)])
       (use assms(1) in \<open>simp_all add: closed_block_def\<close>)
  have other: "get_block gc' x = get_block gc x" if "x \<noteq> a" for x
    using assms(1) that by (simp add: closed_block_def)
  have "pages (get_block gc' x) = pages (get_block gc x) \<and>
        pageCursor (get_block gc' x) = pageCursor (get_block gc x) \<and>
        garbageCnt (get_block gc' x) = garbageCnt (get_block gc x)" for x
    using i(5) other [of x] by (cases "x = a") simp_all
  then show "same_pages gc gc'" using assms(1) by (simp add: same_pages_def closed_block_def)
  have n: "nblocks gc' = nblocks gc" using assms(1) by (simp add: closed_block_def)
  have "level_ok (get_block gc x) \<or> x = a \<Longrightarrow> level_ok (get_block gc' x)" for x
    using i(2,5) other [of x] by (cases "x = a") (simp_all add: level_ok_def)
  then show "levels_ok D gc \<Longrightarrow> levels_ok (D - {a}) gc'" using n by (auto simp: levels_ok_def)
  show "open_blocks gc = insert a (open_blocks gc')"
    using assms(1) by (simp add: set_opens [symmetric] closed_block_def)
  show f: "blk_status (get_block gc' a) = FULL" using i(5) by simp
  show "a \<notin> open_blocks gc'" using status_open [OF st, of a] f by auto
qed

lemma AdjustGarbageBuckets_spec:
  assumes "gc_struct gc" and "a < nblocks gc"
  shows "\<exists>gc'. AdjustGarbageBuckets gc (Some a) = Inr gc' \<and> gc_struct gc' \<and> same_pages gc gc' \<and>
           hostBlock gc' = hostBlock gc \<and> gcBlock gc' = gcBlock gc \<and> freeQ gc' = freeQ gc \<and>
           freeQsize gc' = freeQsize gc \<and>
           hostIOSeqNo gc' = hostIOSeqNo gc \<and> (\<forall>D. levels_ok D gc \<longrightarrow> levels_ok (D - {a}) gc')"
proof -
  let ?b = "get_block gc a" and ?wl = "GetCurBucketIdx (garbageCnt (get_block gc a))"
  consider "blk_status ?b \<noteq> FULL" | "blk_status ?b = FULL" "?wl = garbageWL ?b"
    | "blk_status ?b = FULL" "?wl \<noteq> garbageWL ?b" by blast
  then show ?thesis
  proof cases
    case 1
    then have "levels_ok D gc \<Longrightarrow> levels_ok (D - {a}) gc" for D by (auto simp: levels_ok_def level_ok_def)
    with 1 assms show ?thesis by (simp add: AdjustGarbageBuckets_def)
  next
    case 2
    then have "levels_ok D gc \<Longrightarrow> levels_ok (D - {a}) gc" for D by (auto simp: levels_ok_def level_ok_def)
    with 2 assms show ?thesis by (simp add: AdjustGarbageBuckets_def)
  next
    case 3
    obtain i where i: "i < GC_BUCKET_NUM" "a \<in> set (bucket gc i)" "garbageWL ?b = of_nat i"
      using full_bucket [OF assms 3(1)] by blast
    define j where "j = unat ?wl"
    have j: "j < GC_BUCKET_NUM" "?wl = of_nat j" using GetCurBucketIdx_less by (simp_all add: j_def)
    have ij: "i \<noteq> j" using 3(2) i(3) j(2) by metis
    have ui: "unat (of_nat i :: u32) = i" "unat (of_nat j :: u32) = j"
      using i(1) j(1) by (simp_all add: unat_of_nat_len32)
    let ?gb = "garbageBuckets gc"
    let ?gb' = "\<lparr>gb_buckets = (gb_buckets ?gb)[i := remove1 a (bucket gc i), j := bucket gc j @ [a]],
        gb_blockCnt = (gb_blockCnt ?gb)[i := gb_blockCnt ?gb ! i - 1, j := gb_blockCnt ?gb ! j + 1]\<rparr>"
    let ?gc' = "set_block a (?b\<lparr>garbageWL := of_nat j\<rparr>) ((unlink_block a gc)\<lparr>garbageBuckets := ?gb'\<rparr>)"
    have r: "AdjustGarbageBuckets gc (Some a) = Inr ?gc'"
      using 3 i j ij ui buckets_lengths [OF assms(1)] unlink_bucket [OF assms(1) i(1,2)]
      by (simp add: AdjustGarbageBuckets_def Let_def bucket_dec_def bucket_append_def)
    have g: "get_block ?gc' x = (if x = a then ?b\<lparr>garbageWL := of_nat j\<rparr> else get_block gc x)" for x
      using assms(2) by (simp add: get_set_block)
    have st: "gc_struct ?gc'"
      by (rule struct_move [OF assms(1) i(1) j(1) ij i(2)])
         (simp_all add: g unlink_bucket [OF assms(1) i(1,2)] opens_def)
    have sp: "same_pages gc ?gc'" by (simp add: same_pages_def g)
    have "level_ok (get_block gc x) \<or> x = a \<Longrightarrow> level_ok (get_block ?gc' x)" for x
      using j(2) g [of x] by (cases "x = a") (simp_all add: level_ok_def)
    then have "levels_ok D gc \<longrightarrow> levels_ok (D - {a}) ?gc'" for D
      by (auto simp: levels_ok_def)
    then show ?thesis using r st sp unlink_bucket(2) [OF assms(1) i(1,2)] by simp
  qed
qed

subsection \<open>Invalidating a page\<close>

lemma deref_valid:
  assumes "gc_struct gc" and "valid_at gc a p l"
  shows "deref_loc gc (a, p) = \<lparr>pl_block = of_nat a, pl_page = of_nat p\<rparr>"
    and "unat (of_nat a :: u32) = a" and "unat (of_nat p :: u32) = p" and "p < unat (pageCursor (get_block gc a))"
proof -
  have ok: "block_ok a (get_block gc a)" and n: "nblocks gc < 4294967296" and a: "a < nblocks gc"
    using assms by (simp_all add: gc_struct_defs valid_at_def)
  show p: "p < unat (pageCursor (get_block gc a))"
    using ok assms(2) by (auto simp: block_ok_def valid_at_def)
  then show "deref_loc gc (a, p) = \<lparr>pl_block = of_nat a, pl_page = of_nat p\<rparr>"
    using ok by (simp add: deref_loc_def block_ok_def)
  show "unat (of_nat a :: u32) = a" "unat (of_nat p :: u32) = p"
    using a n assms(2) by (simp_all add: unat_of_nat_len32 valid_at_def)
qed

lemma gc_struct_spaceIndexer [simp]:
  "gc_struct (gc\<lparr>spaceIndexer := si\<rparr>) = gc_struct gc"
  "gc_struct (gc\<lparr>hostIOSeqNo := n\<rparr>) = gc_struct gc"
  by (simp_all add: gc_struct_defs queued_def open_blocks_def)

lemma MarkPageInvalid_eq:
  assumes "gc_struct gc" and "space_rel gc X" and "space_abs gc l = Some (a, p)"
  shows "\<exists>si. key_delete bytes_of_u64 (spaceIndexer gc) l = Inr si \<and>
     MarkPageInvalid gc l (deref_loc gc (a, p)) =
       Inr (a, set_block a (invalidated_block (get_block gc a) p) (gc\<lparr>spaceIndexer := si\<rparr>))"
proof -
  have v: "valid_at gc a p l" using space_rel_valid [OF assms(2,3)] by simp
  have a: "a < nblocks gc" and p: "p < PAGE_NUM_PER_BLOCK" using v by (simp_all add: valid_at_def)
  have len: "length (pages (get_block gc a)) = PAGE_NUM_PER_BLOCK"
    using assms(1) a by (simp add: gc_struct_defs block_ok_def)
  have k: "key_inv bytes_of_u64 (spaceIndexer gc)" using assms(2) by (simp add: space_rel_def)
  obtain si where si: "key_delete bytes_of_u64 (spaceIndexer gc) l = Inr si"
    using idx64.delete [OF k] by blast
  have q: "key_query bytes_of_u32 (blockIndexer gc) (of_nat a) = Inr (Some a)"
    using assms(1) a deref_valid(2) [OF assms(1) v] by (simp add: gc_struct_defs idx32.query)
  show ?thesis
    using si q a p len deref_valid [OF assms(1) v]
    by (simp add: MarkPageInvalid_def Let_def get_set_block invalidated_block_def set_block_commute)
qed

lemma MarkPageInvalid_spec:
  assumes "gc_struct gc" and "space_rel gc X" and "space_abs gc l = Some (a, p)"
  shows "\<exists>gc'. MarkPageInvalid gc l (deref_loc gc (a, p)) = Inr (a, gc') \<and> gc_struct gc' \<and>
     a < nblocks gc \<and> nblocks gc' = nblocks gc \<and>
     space_rel gc' X \<and> space_abs gc' = (space_abs gc)(l := None) \<and>
     (\<forall>x q m. valid_at gc' x q m \<longleftrightarrow> valid_at gc x q m \<and> (x, q) \<noteq> (a, p)) \<and>
     (\<forall>D. levels_ok D gc \<longrightarrow> levels_ok (insert a D) gc') \<and>
     freeQ gc' = freeQ gc \<and> freeQsize gc' = freeQsize gc \<and>
     garbageBuckets gc' = garbageBuckets gc \<and> hostBlock gc' = hostBlock gc \<and>
     gcBlock gc' = gcBlock gc \<and> hostIOSeqNo gc' = hostIOSeqNo gc \<and>
     (\<forall>x. pageCursor (get_block gc' x) = pageCursor (get_block gc x))"
proof -
  obtain si where si: "key_delete bytes_of_u64 (spaceIndexer gc) l = Inr si"
    and r: "MarkPageInvalid gc l (deref_loc gc (a, p)) =
       Inr (a, set_block a (invalidated_block (get_block gc a) p) (gc\<lparr>spaceIndexer := si\<rparr>))"
    using MarkPageInvalid_eq [OF assms] by blast
  let ?gs = "gc\<lparr>spaceIndexer := si\<rparr>"
  let ?gc' = "set_block a (invalidated_block (get_block gc a) p) ?gs"
  have v: "valid_at gc a p l" and x: "(a, p) \<notin> X" using space_rel_valid [OF assms(2,3)] by simp_all
  have a: "a < nblocks gc" using v by (simp add: valid_at_def)
  have vs: "valid_at ?gs a p l" using v by simp
  have sts: "gc_struct ?gs" using assms(1) by simp
  have ok: "block_ok a (invalidated_block (get_block gc a) p)"
    using v assms(1) by (intro block_ok_invalidated) (auto simp: valid_at_def gc_struct_defs)
  have st: "gc_struct ?gc'"
    by (rule struct_update_block [OF sts])
       (use a ok valid_not_free [OF assms(1) v] in \<open>simp_all add: invalidated_block_def\<close>)
  have rel: "space_rel ?gs (insert (a, p) X)"
    using space_rel_delete(1) [OF assms(2) si] assms(3) by simp
  have rel': "space_rel ?gc' X" using space_rel_invalidated [OF sts vs rel] by simp
  have abs: "space_abs ?gc' = (space_abs gc)(l := None)"
    using space_rel_delete(2) [OF assms(2) si] by simp
  have val: "valid_at ?gc' y q m \<longleftrightarrow> valid_at gc y q m \<and> (y, q) \<noteq> (a, p)" for y q m
    using valid_at_invalidated [OF sts vs, of y q m] by simp
  have g: "get_block ?gc' y = (if y = a then invalidated_block (get_block gc a) p else get_block gc y)" for y
    using a by (simp add: get_set_block)
  have "levels_ok D gc \<longrightarrow> levels_ok (insert a D) ?gc'" for D
    by (auto simp: levels_ok_def g)
  moreover have "pageCursor (get_block ?gc' y) = pageCursor (get_block gc y)" for y
    unfolding g by (simp add: invalidated_block_def)
  ultimately show ?thesis using r st a rel' abs val by simp
qed

subsection \<open>Writing a page into an open block\<close>

lemma put_page_eq:
  assumes "block_ok a b" and "unat (pageCursor b) < PAGE_NUM_PER_BLOCK"
  shows "\<exists>b1. put_page b l = Inr b1 \<and> pageCursor b1 = pageCursor b \<and>
           b1\<lparr>pageCursor := pageCursor b + 1\<rparr> = written_block b l"
  using assms by (simp add: put_page_def written_block_def block_ok_def)

lemma written_block_simps [simp]:
  "blk_status (written_block b l) = blk_status b" "garbageWL (written_block b l) = garbageWL b"
  "garbageCnt (written_block b l) = garbageCnt b" "pageCursor (written_block b l) = pageCursor b + 1"
  by (simp_all add: written_block_def)

lemma struct_written:
  assumes "gc_struct gc" and "a \<in> open_blocks gc" and "unat (pageCursor (get_block gc a)) < PAGE_NUM_PER_BLOCK"
  shows "gc_struct (set_block a (written_block (get_block gc a) l) gc)"
proof (rule struct_update_block [OF assms(1)])
  show a: "a < nblocks gc" "a \<notin> set (freeQ gc)" using gc_places [OF assms(1)] assms(2) by auto
  show "block_ok a (written_block (get_block gc a) l)"
    using assms(1,3) a by (intro block_ok_written) (simp_all add: gc_struct_defs)
qed (use status_open [OF assms(1,2)] in \<open>simp_all add: written_block_def\<close>)

text \<open>The number of host writes that find a page without any garbage collection.\<close>

definition host_room :: "GCModule \<Rightarrow> nat" where
  "host_room gc = (case hostBlock gc of None \<Rightarrow> 0
      | Some h \<Rightarrow> PAGE_NUM_PER_BLOCK - unat (pageCursor (get_block gc h)))
    + PAGE_NUM_PER_BLOCK * length (freeQ gc)"

text \<open>Nothing was written to an open block.\<close>

abbreviation same_cursor :: "nat option \<Rightarrow> GCModule \<Rightarrow> GCModule \<Rightarrow> bool" where
  "same_cursor x gc gc' \<equiv> (\<forall>a \<in> set_option x. pageCursor (get_block gc' a) = pageCursor (get_block gc a))"

lemma opening_host_block:
  assumes "gc_inv gc" and "hostBlock gc \<noteq> None \<or> freeQ gc \<noteq> []"
  shows "\<exists>a gc1. GetHostBlock gc = Inr (a, gc1) \<and> gc_inv gc1 \<and> same_pages gc gc1 \<and>
     hostBlock gc1 = Some a \<and> gcBlock gc1 = gcBlock gc \<and> hostIOSeqNo gc1 = hostIOSeqNo gc \<and>
     freeQ gc1 = (if hostBlock gc = None then butlast (freeQ gc) else freeQ gc) \<and> host_room gc1 = host_room gc"
proof -
  have st: "gc_struct gc" using assms(1) by (simp add: gc_inv_def)
  show ?thesis
  proof (cases "hostBlock gc")
    case None
    then obtain a gc1 where r: "GetHostBlock gc = Inr (a, gc1)" "allocated gc a gc1" "hostBlock gc1 = Some a"
        "gcBlock gc1 = gcBlock gc" "hostIOSeqNo gc1 = hostIOSeqNo gc"
      using GetHostBlock_cases(3) [OF st] assms(2) by auto
    note al = allocated_spec [OF r(2) st]
    have "gc_inv gc1" using assms(1) al same_pages_space_rel [OF al(2)] by (simp add: gc_inv_def)
    moreover have q: "freeQ gc1 = butlast (freeQ gc)" "freeQ gc \<noteq> []" using r(2) by (simp_all add: allocated_def)
    moreover from q have "host_room gc1 = host_room gc"
      using r(3) al(5) None by (cases "freeQ gc" rule: rev_cases) (simp_all add: host_room_def)
    ultimately show ?thesis using r al(2) None by simp
  next
    case (Some a)
    then show ?thesis using GetHostBlock_cases(1) [OF st Some] assms(1) by simp
  qed
qed

lemma WriteHostBlock_spec:
  assumes "gc_inv gc" and "hostBlock gc \<noteq> None \<or> freeQ gc \<noteq> []"
  shows "\<exists>a p gc1. WriteHostBlock ctx gc = Inr (ctx\<lparr>wc_writeBlock := Some a, wc_writePageLoc := Some (a, p)\<rparr>, gc1) \<and>
     gc_struct gc1 \<and> levels_ok {} gc1 \<and> space_rel gc1 {(a, p)} \<and> space_abs gc1 = space_abs gc \<and>
     valid_at gc1 a p (wc_lba ctx) \<and> hostBlock gc1 = Some a \<and> gcBlock gc1 = gcBlock gc \<and>
     unat (pageCursor (get_block gc1 a)) = Suc p \<and> p < PAGE_NUM_PER_BLOCK \<and> a < nblocks gc \<and>
     pi_status (pages (get_block gc a) ! p) = WRITEABLE \<and>
     (\<forall>x \<in> set_option (gcBlock gc). x \<noteq> a \<and> unat (pageCursor (get_block gc1 x)) < PAGE_NUM_PER_BLOCK) \<and>
     nblocks gc1 = nblocks gc \<and> hostIOSeqNo gc1 = hostIOSeqNo gc \<and> same_cursor (gcBlock gc) gc gc1 \<and>
     (\<forall>x q m. valid_at gc1 x q m \<longleftrightarrow> valid_at gc x q m \<or> (x, q, m) = (a, p, wc_lba ctx)) \<and>
     freeQ gc1 = (if hostBlock gc = None then butlast (freeQ gc) else freeQ gc) \<and>
     host_room gc = PAGE_NUM_PER_BLOCK - p + PAGE_NUM_PER_BLOCK * length (freeQ gc1)"
proof -
  obtain a gc1 where r: "GetHostBlock gc = Inr (a, gc1)" "gc_inv gc1" "same_pages gc gc1"
      "hostBlock gc1 = Some a" "gcBlock gc1 = gcBlock gc" "hostIOSeqNo gc1 = hostIOSeqNo gc"
      "freeQ gc1 = (if hostBlock gc = None then butlast (freeQ gc) else freeQ gc)" "host_room gc1 = host_room gc"
    using opening_host_block [OF assms] by blast
  let ?b = "get_block gc1 a" and ?l = "wc_lba ctx"
  define p where "p = unat (pageCursor ?b)"
  have st: "gc_struct gc1" and sr: "space_rel gc1 {}" and lv: "levels_ok {} gc1" and op: "open_ok gc1"
    using r(2) by (simp_all add: gc_inv_def)
  have ao: "a \<in> open_blocks gc1" using r(4) by (simp add: open_blocks_def)
  have a: "a < nblocks gc1" using gc_places(6) [OF st] ao by auto
  have p: "unat (pageCursor ?b) < PAGE_NUM_PER_BLOCK" using op ao by (simp add: open_ok_def)
  have ok: "block_ok a ?b" using st a by (simp add: gc_struct_defs)
  obtain b1 where b1: "put_page ?b ?l = Inr b1" "pageCursor b1 = pageCursor ?b"
      "b1\<lparr>pageCursor := pageCursor ?b + 1\<rparr> = written_block ?b ?l"
    using put_page_eq [OF ok p] by blast
  let ?gc2 = "set_block a (written_block ?b ?l) gc1"
  have g: "get_block ?gc2 x = (if x = a then written_block ?b ?l else get_block gc1 x)" for x
    using a by (simp add: get_set_block)
  have v: "valid_at ?gc2 x q m \<longleftrightarrow> valid_at gc x q m \<or> (x, q, m) = (a, p, ?l)" for x q m
    using valid_at_written [OF st a p] same_pages_valid_at [OF r(3)] by (simp add: p_def)
  have "WriteHostBlock ctx gc = Inr (ctx\<lparr>wc_writeBlock := Some a, wc_writePageLoc := Some (a, p)\<rparr>, ?gc2)"
    using r(1) b1 by (simp add: WriteHostBlock_def p_def)
  moreover have "gc_struct ?gc2" by (rule struct_written [OF st ao p])
  moreover have "levels_ok {} ?gc2"
    using lv status_open [OF st ao] by (auto simp: levels_ok_def g level_ok_def)
  moreover have "space_rel ?gc2 {(a, p)}" using space_rel_written [OF st a p sr] by (simp add: p_def)
  moreover have "unat (pageCursor (get_block ?gc2 a)) = Suc p"
    using unat_cursor_inc [OF p] by (simp add: g p_def)
  moreover have "pi_status (pages (get_block gc a) ! p) = WRITEABLE"
    using ok p r(3) a by (auto simp: block_ok_def p_def same_pages_def)
  moreover have "\<forall>x \<in> set_option (gcBlock gc). x \<noteq> a \<and> unat (pageCursor (get_block ?gc2 x)) < PAGE_NUM_PER_BLOCK"
    using host_gc_distinct [OF st r(4)] op r(5) by (auto simp: g open_ok_def open_blocks_def)
  moreover have "host_room gc = PAGE_NUM_PER_BLOCK - p + PAGE_NUM_PER_BLOCK * length (freeQ gc1)"
    using r(4,8) by (simp add: host_room_def p_def)
  moreover have "same_cursor (gcBlock gc) gc ?gc2"
    using host_gc_distinct [OF st r(4)] gc_places(6) [OF st] r(3,5) by (auto simp: g same_pages_def open_blocks_def)
  ultimately show ?thesis
    using r v a p same_pages_space_abs [OF r(3)] by (auto simp: p_def same_pages_def)
qed

lemma UpdateSpaceIndex_spec:
  assumes "gc_struct gc" and "space_rel gc {(a, p)}" and "valid_at gc a p (wc_lba ctx)"
    and "wc_writePageLoc ctx = Some (a, p)" and "wc_oldBlock ctx = None" and "levels_ok {} gc"
  shows "\<exists>ob gc1. UpdateSpaceIndex ctx gc = Inr (ctx\<lparr>wc_oldBlock := ob\<rparr>, gc1) \<and> gc_struct gc1 \<and>
     space_rel gc1 {} \<and> space_abs gc1 = (space_abs gc)(wc_lba ctx \<mapsto> (a, p)) \<and>
     levels_ok (set_option ob) gc1 \<and> set_option ob \<subseteq> {..<nblocks gc} \<and> nblocks gc1 = nblocks gc \<and>
     freeQ gc1 = freeQ gc \<and> hostBlock gc1 = hostBlock gc \<and> gcBlock gc1 = gcBlock gc \<and>
     hostIOSeqNo gc1 = hostIOSeqNo gc \<and>
     (\<forall>x. pageCursor (get_block gc1 x) = pageCursor (get_block gc x))"
proof -
  let ?l = "wc_lba ctx"
  have k: "key_inv bytes_of_u64 (spaceIndexer gc)" using assms(2) by (simp add: space_rel_def)
  have q: "key_query bytes_of_u64 (spaceIndexer gc) ?l = Inr (space_abs gc ?l)"
    by (simp add: space_abs_def idx64.query [OF k])
  have step: "\<exists>ob gc1. (case space_abs gc ?l of None \<Rightarrow> Inr (ctx, gc)
            | Some ref \<Rightarrow> bindE (MarkPageInvalid gc ?l (deref_loc gc ref)) (\<lambda>(a, gc1).
                Inr (ctx\<lparr>wc_oldBlock := Some a\<rparr>, gc1))) = Inr (ctx\<lparr>wc_oldBlock := ob\<rparr>, gc1) \<and>
     gc_struct gc1 \<and> space_rel gc1 {(a, p)} \<and> space_abs gc1 = (space_abs gc)(?l := None) \<and>
     valid_at gc1 a p ?l \<and> levels_ok (set_option ob) gc1 \<and> set_option ob \<subseteq> {..<nblocks gc} \<and>
     nblocks gc1 = nblocks gc \<and>
     freeQ gc1 = freeQ gc \<and> hostBlock gc1 = hostBlock gc \<and> gcBlock gc1 = gcBlock gc \<and>
     hostIOSeqNo gc1 = hostIOSeqNo gc \<and>
     (\<forall>x. pageCursor (get_block gc1 x) = pageCursor (get_block gc x))"
  proof (cases "space_abs gc ?l")
    case None
    moreover have "ctx\<lparr>wc_oldBlock := None\<rparr> = ctx" using assms(5) by (cases ctx) simp
    ultimately show ?thesis using assms
      by (intro exI [of _ None] exI [of _ gc]) (auto simp: fun_upd_idem)
  next
    case (Some ref)
    then obtain b r where ref: "space_abs gc ?l = Some (b, r)" by (cases ref) auto
    have ne: "(a, p) \<noteq> (b, r)" using space_rel_valid [OF assms(2) ref] by auto
    obtain gc1 where m: "MarkPageInvalid gc ?l (deref_loc gc (b, r)) = Inr (b, gc1)"
      "gc_struct gc1" "b < nblocks gc" "nblocks gc1 = nblocks gc" "space_rel gc1 {(a, p)}"
      "space_abs gc1 = (space_abs gc)(?l := None)"
      "\<forall>x q m. valid_at gc1 x q m \<longleftrightarrow> valid_at gc x q m \<and> (x, q) \<noteq> (b, r)"
      "\<forall>D. levels_ok D gc \<longrightarrow> levels_ok (insert b D) gc1" "freeQ gc1 = freeQ gc"
      "hostBlock gc1 = hostBlock gc" "gcBlock gc1 = gcBlock gc" "hostIOSeqNo gc1 = hostIOSeqNo gc"
      "\<forall>x. pageCursor (get_block gc1 x) = pageCursor (get_block gc x)"
      using MarkPageInvalid_spec [OF assms(1,2) ref] by blast
    have "valid_at gc1 a p ?l" using m(7) ne assms(3) by blast
    moreover have "levels_ok {b} gc1" using m(8) assms(6) by blast
    ultimately show ?thesis using m ref
      by (intro exI [of _ "Some b"] exI [of _ gc1]) simp
  qed
  then obtain ob gc1 where s: "(case space_abs gc ?l of None \<Rightarrow> Inr (ctx, gc)
            | Some ref \<Rightarrow> bindE (MarkPageInvalid gc ?l (deref_loc gc ref)) (\<lambda>(a, gc1).
                Inr (ctx\<lparr>wc_oldBlock := Some a\<rparr>, gc1))) = Inr (ctx\<lparr>wc_oldBlock := ob\<rparr>, gc1)"
     "gc_struct gc1" "space_rel gc1 {(a, p)}" "space_abs gc1 = (space_abs gc)(?l := None)"
     "valid_at gc1 a p ?l" "levels_ok (set_option ob) gc1" "set_option ob \<subseteq> {..<nblocks gc}"
     "nblocks gc1 = nblocks gc" "freeQ gc1 = freeQ gc" "hostBlock gc1 = hostBlock gc"
     "gcBlock gc1 = gcBlock gc" "hostIOSeqNo gc1 = hostIOSeqNo gc"
     "\<forall>x. pageCursor (get_block gc1 x) = pageCursor (get_block gc x)" by blast
  have k1: "key_inv bytes_of_u64 (spaceIndexer gc1)" using s(3) by (simp add: space_rel_def)
  have n1: "space_abs gc1 ?l = None" using s(4) by simp
  then obtain si where si: "key_insert bytes_of_u64 (spaceIndexer gc1) ?l (a, p) = Inr si"
    using idx64.insertKV [OF k1, of ?l "(a, p)"] by (auto simp: space_abs_def)
  note ins = space_rel_insert [OF s(3,5) _ n1 si]
  have "UpdateSpaceIndex ctx gc = Inr (ctx\<lparr>wc_oldBlock := ob\<rparr>, gc1\<lparr>spaceIndexer := si\<rparr>)"
    using q s(1) si assms(4) by (simp add: UpdateSpaceIndex_def)
  moreover have "levels_ok (set_option ob) (gc1\<lparr>spaceIndexer := si\<rparr>)"
    using s(6) by (simp add: levels_ok_def)
  ultimately show ?thesis using s ins by auto
qed

lemma Adjust_option_spec:
  assumes "gc_struct gc" and "set_option ob \<subseteq> {..<nblocks gc}"
  shows "\<exists>gc'. AdjustGarbageBuckets gc ob = Inr gc' \<and> gc_struct gc' \<and> same_pages gc gc' \<and>
           hostBlock gc' = hostBlock gc \<and> gcBlock gc' = gcBlock gc \<and> freeQ gc' = freeQ gc \<and>
           hostIOSeqNo gc' = hostIOSeqNo gc \<and> (\<forall>D. levels_ok D gc \<longrightarrow> levels_ok (D - set_option ob) gc')"
proof (cases ob)
  case None
  with assms show ?thesis by (simp add: AdjustGarbageBuckets_def)
next
  case (Some a)
  then show ?thesis using AdjustGarbageBuckets_spec [OF assms(1), of a] assms(2) by auto
qed

text \<open>Closing the block \<open>a\<close> if it is full; \<open>gc'\<close> is the state with the open slot cleared.\<close>

lemma close_host_if_full:
  assumes "gc_struct gc" and "hostBlock gc = Some a" and "unat (pageCursor (get_block gc a)) \<le> PAGE_NUM_PER_BLOCK"
    and "\<And>x. x \<in> set_option (gcBlock gc) \<Longrightarrow> unat (pageCursor (get_block gc x)) < PAGE_NUM_PER_BLOCK"
  shows "\<exists>gc'. (if pageCursor (get_block gc a) = of_nat PAGE_NUM_PER_BLOCK
            then bindE (Insert2GarbageBuckets gc a) (\<lambda>gc1. Inr (gc1\<lparr>hostBlock := None\<rparr>)) else Inr gc) = Inr gc' \<and>
     gc_struct gc' \<and> same_pages gc gc' \<and> open_ok gc' \<and> gcBlock gc' = gcBlock gc \<and> freeQ gc' = freeQ gc \<and>
     hostIOSeqNo gc' = hostIOSeqNo gc \<and> (\<forall>D. levels_ok D gc \<longrightarrow> levels_ok D gc') \<and>
     hostBlock gc' = (if unat (pageCursor (get_block gc a)) = PAGE_NUM_PER_BLOCK then None else Some a)"
proof (cases "unat (pageCursor (get_block gc a)) = PAGE_NUM_PER_BLOCK")
  case True
  then have c: "pageCursor (get_block gc a) = of_nat PAGE_NUM_PER_BLOCK" by (metis of_nat_unat ucast_id)
  have ao: "a \<in> open_blocks gc" using assms(2) by (simp add: open_blocks_def)
  then have a: "a < nblocks gc" using gc_places(6) [OF assms(1)] by auto
  obtain gc1 where g1: "Insert2GarbageBuckets gc a = Inr gc1" "gcBlock gc1 = gcBlock gc" "hostIOSeqNo gc1 = hostIOSeqNo gc"
    "opens gc = add_mset a (opens (gc1\<lparr>hostBlock := None\<rparr>)) \<longrightarrow> closed_block gc a (gc1\<lparr>hostBlock := None\<rparr>)"
    using Insert2GarbageBuckets_closes [OF assms(1) a] by blast
  have cb: "closed_block gc a (gc1\<lparr>hostBlock := None\<rparr>)" using g1 assms(2) by (simp add: opens_def)
  note cs = closed_block_spec [OF cb assms(1) True]
  have "open_ok (gc1\<lparr>hostBlock := None\<rparr>)"
  proof -
    have "get_block gc1 x = get_block gc x" if "x \<noteq> a" for x using cb that by (simp add: closed_block_def)
    moreover have "x \<noteq> a" if "x \<in> set_option (gcBlock gc)" for x
      using that host_gc_distinct [OF assms(1,2)] by auto
    ultimately show ?thesis using assms(4) by (simp add: open_ok_def open_blocks_def g1(2))
  qed
  moreover have "levels_ok D gc \<Longrightarrow> levels_ok D (gc1\<lparr>hostBlock := None\<rparr>)" for D
    using cs(3) [of D] by (auto simp: levels_ok_def)
  moreover have "freeQ gc1 = freeQ gc" using cb by (simp add: closed_block_def)
  ultimately show ?thesis using True c g1(1-3) cs(1,2) by simp
next
  case False
  then have c: "pageCursor (get_block gc a) \<noteq> of_nat PAGE_NUM_PER_BLOCK" by auto
  have "open_ok gc" using False assms(2-4) by (auto simp: open_ok_def open_blocks_def)
  then show ?thesis using c False assms by simp
qed

lemma close_gc_if_full:
  assumes "gc_struct gc" and "gcBlock gc = Some a" and "unat (pageCursor (get_block gc a)) \<le> PAGE_NUM_PER_BLOCK"
    and "\<And>x. x \<in> set_option (hostBlock gc) \<Longrightarrow> unat (pageCursor (get_block gc x)) < PAGE_NUM_PER_BLOCK"
  shows "\<exists>gc'. (if pageCursor (get_block gc a) = of_nat PAGE_NUM_PER_BLOCK
            then bindE (Insert2GarbageBuckets gc a) (\<lambda>gc1. Inr (gc1\<lparr>gcBlock := None\<rparr>)) else Inr gc) = Inr gc' \<and>
     gc_struct gc' \<and> same_pages gc gc' \<and> open_ok gc' \<and> hostBlock gc' = hostBlock gc \<and> freeQ gc' = freeQ gc \<and>
     hostIOSeqNo gc' = hostIOSeqNo gc \<and> (\<forall>D. levels_ok D gc \<longrightarrow> levels_ok D gc') \<and>
     gcBlock gc' = (if unat (pageCursor (get_block gc a)) = PAGE_NUM_PER_BLOCK then None else Some a) \<and>
     (\<forall>x. x \<noteq> a \<longrightarrow> get_block gc' x = get_block gc x) \<and>
     (gc' = gc \<or> (\<exists>i < GC_BUCKET_NUM. gb_buckets (garbageBuckets gc') =
        (gb_buckets (garbageBuckets gc))[i := bucket gc i @ [a]]))"
proof (cases "unat (pageCursor (get_block gc a)) = PAGE_NUM_PER_BLOCK")
  case True
  then have c: "pageCursor (get_block gc a) = of_nat PAGE_NUM_PER_BLOCK" by (metis of_nat_unat ucast_id)
  have ao: "a \<in> open_blocks gc" using assms(2) by (simp add: open_blocks_def)
  then have a: "a < nblocks gc" using gc_places(6) [OF assms(1)] by auto
  obtain gc1 where g1: "Insert2GarbageBuckets gc a = Inr gc1" "hostBlock gc1 = hostBlock gc" "hostIOSeqNo gc1 = hostIOSeqNo gc"
    "opens gc = add_mset a (opens (gc1\<lparr>gcBlock := None\<rparr>)) \<longrightarrow> closed_block gc a (gc1\<lparr>gcBlock := None\<rparr>)"
    using Insert2GarbageBuckets_closes [OF assms(1) a] by blast
  have cb: "closed_block gc a (gc1\<lparr>gcBlock := None\<rparr>)" using g1 assms(2) by (simp add: opens_def)
  note cs = closed_block_spec [OF cb assms(1) True]
  have other: "get_block gc1 x = get_block gc x" if "x \<noteq> a" for x using cb that by (simp add: closed_block_def)
  have "open_ok (gc1\<lparr>gcBlock := None\<rparr>)"
  proof -
    have "x \<noteq> a" if "x \<in> set_option (hostBlock gc)" for x
      using that host_gc_distinct [OF assms(1), of x] assms(2) by auto
    then show ?thesis using assms(4) other by (simp add: open_ok_def open_blocks_def g1(2))
  qed
  moreover have "levels_ok D gc \<Longrightarrow> levels_ok D (gc1\<lparr>gcBlock := None\<rparr>)" for D
    using cs(3) [of D] by (auto simp: levels_ok_def)
  moreover have "freeQ gc1 = freeQ gc" using cb by (simp add: closed_block_def)
  moreover have "\<exists>i < GC_BUCKET_NUM. gb_buckets (garbageBuckets gc1) =
        (gb_buckets (garbageBuckets gc))[i := bucket gc i @ [a]]"
    using cb by (auto simp: closed_block_def)
  ultimately show ?thesis using True c g1(1-3) cs(1,2) other by simp
next
  case False
  then have c: "pageCursor (get_block gc a) \<noteq> of_nat PAGE_NUM_PER_BLOCK" by auto
  have "open_ok gc" using False assms(2-4) by (auto simp: open_ok_def open_blocks_def)
  then show ?thesis using c False assms by simp
qed

lemma AttachGarbageBuckets_spec:
  assumes "gc_struct gc" and "space_rel gc {}" and "wc_writeBlock ctx = Some a" and "hostBlock gc = Some a"
    and "unat (pageCursor (get_block gc a)) \<le> PAGE_NUM_PER_BLOCK"
    and "\<And>x. x \<in> set_option (gcBlock gc) \<Longrightarrow> unat (pageCursor (get_block gc x)) < PAGE_NUM_PER_BLOCK"
    and "levels_ok (set_option (wc_oldBlock ctx)) gc" and "set_option (wc_oldBlock ctx) \<subseteq> {..<nblocks gc}"
  shows "\<exists>gc'. AttachGarbageBuckets ctx gc = Inr (ctx, gc') \<and> gc_inv gc' \<and> same_pages gc gc' \<and>
     gcBlock gc' = gcBlock gc \<and> freeQ gc' = freeQ gc \<and> hostIOSeqNo gc' = hostIOSeqNo gc \<and>
     hostBlock gc' = (if unat (pageCursor (get_block gc a)) = PAGE_NUM_PER_BLOCK then None else Some a)"
proof -
  obtain gc1 where 1: "(if pageCursor (get_block gc a) = of_nat PAGE_NUM_PER_BLOCK
            then bindE (Insert2GarbageBuckets gc a) (\<lambda>gc1. Inr (gc1\<lparr>hostBlock := None\<rparr>)) else Inr gc) = Inr gc1"
     "gc_struct gc1" "same_pages gc gc1" "open_ok gc1" "gcBlock gc1 = gcBlock gc" "freeQ gc1 = freeQ gc"
     "hostIOSeqNo gc1 = hostIOSeqNo gc" "\<forall>D. levels_ok D gc \<longrightarrow> levels_ok D gc1"
     "hostBlock gc1 = (if unat (pageCursor (get_block gc a)) = PAGE_NUM_PER_BLOCK then None else Some a)"
    using close_host_if_full [OF assms(1,4-6)] by blast
  have "set_option (wc_oldBlock ctx) \<subseteq> {..<nblocks gc1}" using assms(8) 1(3) by (simp add: same_pages_def)
  then obtain gc2 where 2: "AdjustGarbageBuckets gc1 (wc_oldBlock ctx) = Inr gc2" "gc_struct gc2" "same_pages gc1 gc2"
      "hostBlock gc2 = hostBlock gc1" "gcBlock gc2 = gcBlock gc1" "freeQ gc2 = freeQ gc1"
      "hostIOSeqNo gc2 = hostIOSeqNo gc1"
      "\<forall>D. levels_ok D gc1 \<longrightarrow> levels_ok (D - set_option (wc_oldBlock ctx)) gc2"
    using Adjust_option_spec [OF 1(2)] by blast
  have "same_pages gc gc2" using 1(3) 2(3) by (simp add: same_pages_def)
  moreover have "gc_inv gc2"
  proof -
    have "levels_ok {} gc2" using 1(8) 2(8) assms(7) by fastforce
    moreover have "open_ok gc2"
    proof -
      have "x < nblocks gc1" if "x \<in> open_blocks gc1" for x using that gc_places(6) [OF 1(2)] by auto
      then show ?thesis using 1(4) 2(3-5) by (simp add: open_ok_def open_blocks_def same_pages_def)
    qed
    moreover have "space_rel gc2 {}" using assms(2) same_pages_space_rel [OF \<open>same_pages gc gc2\<close>] by simp
    ultimately show ?thesis using 2(2) by (simp add: gc_inv_def)
  qed
  moreover have "AttachGarbageBuckets ctx gc = Inr (ctx, gc2)"
    using 1(1) 2(1) assms(3) by (simp add: AttachGarbageBuckets_def)
  ultimately show ?thesis using 1 2 by simp
qed

subsection \<open>Host write, read, delete\<close>

lemma gc_inv_hostIOSeqNo [simp]: "gc_inv (gc\<lparr>hostIOSeqNo := n\<rparr>) = gc_inv gc"
proof -
  have "space_rel (gc\<lparr>hostIOSeqNo := n\<rparr>) {} = space_rel gc {}" by (rule space_rel_cong) simp_all
  then show ?thesis by (simp add: gc_inv_def levels_ok_def open_ok_def open_blocks_def)
qed

theorem GC_WriteIO_spec:
  assumes "gc_inv gc" and "hostBlock gc \<noteq> None \<or> freeQ gc \<noteq> []"
  shows "\<exists>a p gc'. GC_WriteIO gc lba len = Inr (\<lparr>pl_block = of_nat a, pl_page = of_nat p\<rparr>, gc') \<and> gc_inv gc' \<and>
     space_abs gc' = (space_abs gc)(page_align lba \<mapsto> (a, p)) \<and>
     a < nblocks gc \<and> p < PAGE_NUM_PER_BLOCK \<and> pi_status (pages (get_block gc a) ! p) = WRITEABLE \<and>
     nblocks gc' = nblocks gc \<and> gcBlock gc' = gcBlock gc \<and> hostIOSeqNo gc' = hostIOSeqNo gc + 1 \<and>
     freeQ gc' = (if hostBlock gc = None then butlast (freeQ gc) else freeQ gc) \<and> host_room gc = Suc (host_room gc') \<and>
     same_cursor (gcBlock gc) gc gc'"
proof -
  let ?ctx = "\<lparr>wc_lba = page_align lba, wc_writeBlock = None, wc_writePageLoc = None, wc_oldBlock = None\<rparr>"
  obtain a p gc1 where 1: "WriteHostBlock ?ctx gc = Inr (?ctx\<lparr>wc_writeBlock := Some a, wc_writePageLoc := Some (a, p)\<rparr>, gc1)"
     "gc_struct gc1" "levels_ok {} gc1" "space_rel gc1 {(a, p)}" "space_abs gc1 = space_abs gc"
     "valid_at gc1 a p (page_align lba)" "hostBlock gc1 = Some a" "gcBlock gc1 = gcBlock gc"
     "unat (pageCursor (get_block gc1 a)) = Suc p" "p < PAGE_NUM_PER_BLOCK" "a < nblocks gc"
     "pi_status (pages (get_block gc a) ! p) = WRITEABLE"
     "\<forall>x \<in> set_option (gcBlock gc). x \<noteq> a \<and> unat (pageCursor (get_block gc1 x)) < PAGE_NUM_PER_BLOCK"
     "nblocks gc1 = nblocks gc" "hostIOSeqNo gc1 = hostIOSeqNo gc"
     "freeQ gc1 = (if hostBlock gc = None then butlast (freeQ gc) else freeQ gc)"
     "host_room gc = PAGE_NUM_PER_BLOCK - p + PAGE_NUM_PER_BLOCK * length (freeQ gc1)" "same_cursor (gcBlock gc) gc gc1"
    using WriteHostBlock_spec [OF assms, of ?ctx] by force
  let ?ctx1 = "?ctx\<lparr>wc_writeBlock := Some a, wc_writePageLoc := Some (a, p)\<rparr>"
  obtain ob gc2 where 2: "UpdateSpaceIndex ?ctx1 gc1 = Inr (?ctx1\<lparr>wc_oldBlock := ob\<rparr>, gc2)" "gc_struct gc2"
     "space_rel gc2 {}" "space_abs gc2 = (space_abs gc1)(page_align lba \<mapsto> (a, p))"
     "levels_ok (set_option ob) gc2" "set_option ob \<subseteq> {..<nblocks gc1}" "nblocks gc2 = nblocks gc1"
     "freeQ gc2 = freeQ gc1" "hostBlock gc2 = hostBlock gc1" "gcBlock gc2 = gcBlock gc1"
     "hostIOSeqNo gc2 = hostIOSeqNo gc1" "\<forall>x. pageCursor (get_block gc2 x) = pageCursor (get_block gc1 x)"
    using UpdateSpaceIndex_spec [OF 1(2,4), of ?ctx1] 1(3,6) by force
  let ?ctx2 = "?ctx1\<lparr>wc_oldBlock := ob\<rparr>"
  have h2: "hostBlock gc2 = Some a" using 1(7) 2(9) by simp
  have cur: "unat (pageCursor (get_block gc2 a)) \<le> PAGE_NUM_PER_BLOCK" using 1(9,10) 2(12) by simp
  have oth: "x \<in> set_option (gcBlock gc2) \<Longrightarrow> unat (pageCursor (get_block gc2 x)) < PAGE_NUM_PER_BLOCK" for x
    using 1(8,13) 2(10,12) by simp
  obtain gc3 where 3: "AttachGarbageBuckets ?ctx2 gc2 = Inr (?ctx2, gc3)" "gc_inv gc3" "same_pages gc2 gc3"
     "gcBlock gc3 = gcBlock gc2" "freeQ gc3 = freeQ gc2" "hostIOSeqNo gc3 = hostIOSeqNo gc2"
     "hostBlock gc3 = (if unat (pageCursor (get_block gc2 a)) = PAGE_NUM_PER_BLOCK then None else Some a)"
    using AttachGarbageBuckets_spec [OF 2(2,3) _ h2 cur oth, of ?ctx2] 2(5-7) by force
  let ?gc' = "gc3\<lparr>hostIOSeqNo := hostIOSeqNo gc3 + 1\<rparr>"
  have abs: "space_abs ?gc' = (space_abs gc)(page_align lba \<mapsto> (a, p))"
    using same_pages_space_abs [OF 3(3)] 2(4) 1(5) by simp
  have iv: "gc_inv ?gc'" using 3(2) by simp
  then have "valid_at ?gc' a p (page_align lba)"
    using space_rel_valid [of ?gc' "{}" "page_align lba" a p] abs by (simp add: gc_inv_def)
  then have loc: "deref_loc ?gc' (a, p) = \<lparr>pl_block = of_nat a, pl_page = of_nat p\<rparr>"
    using iv by (intro deref_valid(1)) (auto simp: gc_inv_def)
  have "GC_WriteIO gc lba len = Inr (\<lparr>pl_block = of_nat a, pl_page = of_nat p\<rparr>, ?gc')"
    using 1(1) 2(1) 3(1) loc by (simp add: GC_WriteIO_def g_StepEntry_def Let_def)
  moreover have "host_room gc = Suc (host_room ?gc')"
  proof -
    have "unat (pageCursor (get_block gc3 a)) = Suc p" using 1(9,11,14) 2(7,12) 3(3) by (simp add: same_pages_def)
    moreover have "unat (pageCursor (get_block gc2 a)) = Suc p" using 1(9) 2(12) by simp
    ultimately have "host_room ?gc' = (PAGE_NUM_PER_BLOCK - Suc p) + PAGE_NUM_PER_BLOCK * length (freeQ gc1)"
      using 2(8) 3(5,7) by (simp add: host_room_def)
    then show ?thesis using 1(10,17) by linarith
  qed
  moreover have "same_cursor (gcBlock gc) gc ?gc'"
  proof
    fix x assume x: "x \<in> set_option (gcBlock gc)"
    have "x < nblocks gc2" using gc_places(6) [OF 2(2)] x 1(8) 2(10) by (auto simp: open_blocks_def)
    then show "pageCursor (get_block ?gc' x) = pageCursor (get_block gc x)"
      using 1(18) 2(12) 3(3) x by (simp add: same_pages_def)
  qed
  ultimately show ?thesis
    using abs iv 1 2 3 by (intro exI [of _ a] exI [of _ p] exI [of _ ?gc']) (simp add: same_pages_def)
qed

lemma GC_WriteIO_no_space:
  assumes "gc_inv gc" and "hostBlock gc = None" and "freeQ gc = []"
  shows "GC_WriteIO gc lba len = Inl BadListEntry"
  using assms GetHostBlock_cases(2) [of gc]
  by (simp add: GC_WriteIO_def g_StepEntry_def WriteHostBlock_def gc_inv_def)

lemma GC_query_eq:
  "gc_inv gc \<Longrightarrow> key_query bytes_of_u64 (spaceIndexer gc) l = Inr (space_abs gc l)"
  by (simp add: gc_inv_def space_rel_def space_abs_def idx64.query)

lemma GC_ReadIO_spec:
  assumes "gc_inv gc"
  shows "GC_ReadIO gc lba len = (case space_abs gc (page_align lba) of
           None \<Rightarrow> Inl NullDeref | Some (a, p) \<Rightarrow> Inr \<lparr>pl_block = of_nat a, pl_page = of_nat p\<rparr>)"
proof (cases "space_abs gc (page_align lba)")
  case None
  then show ?thesis by (simp add: GC_ReadIO_def GC_query_eq [OF assms])
next
  case (Some r)
  then obtain a p where r: "space_abs gc (page_align lba) = Some (a, p)" by (cases r) auto
  then have "valid_at gc a p (page_align lba)"
    using assms space_rel_valid by (auto simp: gc_inv_def)
  then show ?thesis using r assms deref_valid(1) [of gc a p]
    by (simp add: GC_ReadIO_def GC_query_eq [OF assms] gc_inv_def)
qed

lemma GC_IsExist_spec: "gc_inv gc \<Longrightarrow> GC_IsExist gc lba = Inr (page_align lba \<in> dom (space_abs gc))"
  by (simp add: GC_IsExist_def GC_query_eq domIff)

lemma GC_Delete_missing:
  "gc_inv gc \<Longrightarrow> space_abs gc (page_align lba) = None \<Longrightarrow> GC_Delete gc lba len = Inl NullDeref"
  by (simp add: GC_Delete_def GC_query_eq)

theorem GC_Delete_spec:
  assumes "gc_inv gc" and "space_abs gc (page_align lba) = Some (a, p)"
  shows "\<exists>gc'. GC_Delete gc lba len = Inr (\<lparr>pl_block = of_nat a, pl_page = of_nat p\<rparr>, gc') \<and> gc_inv gc' \<and>
     space_abs gc' = (space_abs gc)(page_align lba := None) \<and>
     nblocks gc' = nblocks gc \<and> freeQ gc' = freeQ gc \<and> hostBlock gc' = hostBlock gc \<and>
     gcBlock gc' = gcBlock gc \<and> hostIOSeqNo gc' = hostIOSeqNo gc"
proof -
  have st: "gc_struct gc" and sr: "space_rel gc {}" and lv: "levels_ok {} gc" and op: "open_ok gc"
    using assms(1) by (simp_all add: gc_inv_def)
  have v: "valid_at gc a p (page_align lba)" using space_rel_valid [OF sr assms(2)] by simp
  have loc: "deref_loc gc (a, p) = \<lparr>pl_block = of_nat a, pl_page = of_nat p\<rparr>" by (rule deref_valid(1) [OF st v])
  obtain gc1 where 1: "MarkPageInvalid gc (page_align lba) (deref_loc gc (a, p)) = Inr (a, gc1)" "gc_struct gc1"
     "a < nblocks gc" "nblocks gc1 = nblocks gc" "space_rel gc1 {}" "space_abs gc1 = (space_abs gc)(page_align lba := None)"
     "\<forall>D. levels_ok D gc \<longrightarrow> levels_ok (insert a D) gc1" "freeQ gc1 = freeQ gc" "hostBlock gc1 = hostBlock gc"
     "gcBlock gc1 = gcBlock gc" "hostIOSeqNo gc1 = hostIOSeqNo gc"
     "\<forall>x. pageCursor (get_block gc1 x) = pageCursor (get_block gc x)"
    using MarkPageInvalid_spec [OF st sr assms(2)] by blast
  obtain gc2 where 2: "AdjustGarbageBuckets gc1 (Some a) = Inr gc2" "gc_struct gc2" "same_pages gc1 gc2"
      "hostBlock gc2 = hostBlock gc1" "gcBlock gc2 = gcBlock gc1" "freeQ gc2 = freeQ gc1"
      "hostIOSeqNo gc2 = hostIOSeqNo gc1" "\<forall>D. levels_ok D gc1 \<longrightarrow> levels_ok (D - {a}) gc2"
    using AdjustGarbageBuckets_spec [OF 1(2), of a] 1(3,4) by auto
  have "levels_ok {} gc2" using 1(7) 2(8) lv by fastforce
  moreover have "open_ok gc2"
  proof -
    have "x < nblocks gc1" if "x \<in> open_blocks gc1" for x using that gc_places(6) [OF 1(2)] by auto
    then show ?thesis using op 1(9,10,12) 2(3-5) by (simp add: open_ok_def open_blocks_def same_pages_def)
  qed
  ultimately have "gc_inv gc2" using 2(2) 1(5) same_pages_space_rel [OF 2(3)] by (simp add: gc_inv_def)
  moreover have "GC_Delete gc lba len = Inr (\<lparr>pl_block = of_nat a, pl_page = of_nat p\<rparr>, gc2)"
    using 1(1) 2(1) assms loc by (simp add: GC_Delete_def GC_query_eq Let_def)
  ultimately show ?thesis
    using 1 2 same_pages_space_abs [OF 2(3)] by (simp add: same_pages_def)
qed

end
