(* ===== verification/GC_Collect.thy ===== *)
theory GC_Collect
  imports GC_Write
begin

text \<open>
  Garbage collection. A run that recycles \<open>k\<close> blocks keeps the invariant, changes the space
  index exactly as its read and write logs say (\<open>replay\<close>), and gains the room of the garbage
  it drops: \<open>capacity\<close> counts the pages garbage collection can still write. It never fails
  when one block is free and \<open>k\<close> blocks are full.
\<close>

subsection \<open>Room for copies\<close>

definition capacity :: "GCModule \<Rightarrow> nat" where
  "capacity gc = (case gcBlock gc of None \<Rightarrow> 0
      | Some g \<Rightarrow> PAGE_NUM_PER_BLOCK - unat (pageCursor (get_block gc g)))
    + PAGE_NUM_PER_BLOCK * length (freeQ gc)"

definition mid_inv :: "GCModule \<Rightarrow> (nat \<times> nat) set \<Rightarrow> bool" where
  "mid_inv gc X \<longleftrightarrow> gc_struct gc \<and> levels_ok {} gc \<and> open_ok gc \<and> space_rel gc X"

lemma mid_inv_empty: "mid_inv gc {} = gc_inv gc"
  by (simp add: mid_inv_def gc_inv_def)

definition loc_pair :: "PageLoc \<Rightarrow> page_ref" where
  "loc_pair r = (unat (pl_block r), unat (pl_page r))"

text \<open>The space index after the moves of a log, oldest first.\<close>

fun replay :: "(PageLoc \<times> PageLoc) list \<Rightarrow> (u64 \<Rightarrow> page_ref option) \<Rightarrow> u64 \<Rightarrow> page_ref option" where
  "replay [] M = M"
| "replay ((r, w) # ms) M =
     replay ms (\<lambda>l. if M l = Some (loc_pair r) then Some (loc_pair w) else M l)"

lemma dom_replay [simp]: "dom (replay ms M) = dom M"
  by (induction ms M rule: replay.induct) (auto simp: dom_def)

lemma replay_append: "replay (ms @ ns) M = replay ns (replay ms M)"
  by (induction ms M rule: replay.induct) auto

text \<open>
  No copy of a log hits a page that the index still uses. Then executing the copies in log order
  on a disk carries the data along with the index.
\<close>

fun safe_log :: "(PageLoc \<times> PageLoc) list \<Rightarrow> (u64 \<Rightarrow> page_ref option) \<Rightarrow> bool" where
  "safe_log [] M \<longleftrightarrow> True"
| "safe_log ((r, w) # ms) M \<longleftrightarrow> loc_pair w \<notin> ran M \<and> safe_log ms (replay [(r, w)] M)"

lemma safe_log_append: "safe_log (ms @ ns) M \<longleftrightarrow> safe_log ms M \<and> safe_log ns (replay ms M)"
  by (induction ms M rule: safe_log.induct) auto

fun copy_pages :: "(PageLoc \<times> PageLoc) list \<Rightarrow> (page_ref \<Rightarrow> 'd) \<Rightarrow> page_ref \<Rightarrow> 'd" where
  "copy_pages [] disk = disk"
| "copy_pages ((r, w) # ms) disk = copy_pages ms (disk(loc_pair w := disk (loc_pair r)))"

lemma safe_log_data:
  assumes "safe_log ms M" and "M l = Some r"
  shows "\<exists>r'. replay ms M l = Some r' \<and> copy_pages ms disk r' = disk r"
  using assms
proof (induction ms M arbitrary: disk r rule: safe_log.induct)
  case (2 rd w ms M)
  let ?r1 = "if r = loc_pair rd then loc_pair w else r"
  have 1: "replay [(rd, w)] M l = Some ?r1" using 2(3) by simp
  have "r \<noteq> loc_pair w" using 2(2,3) by (auto simp: ran_def)
  then have d: "(disk(loc_pair w := disk (loc_pair rd))) ?r1 = disk r" by simp
  have "safe_log ms (replay [(rd, w)] M)" using 2(2) by simp
  from 2(1) [OF this 1, of "disk(loc_pair w := disk (loc_pair rd))"]
  show ?case by (simp only: replay.simps copy_pages.simps d)
qed simp

definition move_log :: "GCOut \<Rightarrow> (PageLoc \<times> PageLoc) list" where
  "move_log out = take (unat (gcWriteCnt out)) (zip (readPageLoc out) (writePageLoc out))"

definition extends :: "GCModule \<Rightarrow> GCModule \<Rightarrow> bool" where
  "extends gc gc' \<longleftrightarrow> (\<forall>i < GC_BUCKET_NUM. \<exists>ys. bucket gc' i = bucket gc i @ ys)"

lemma extends_refl [simp]: "extends gc gc"
  by (simp add: extends_def)

lemma extends_trans: "extends a b \<Longrightarrow> extends b c \<Longrightarrow> extends a c"
  by (auto simp: extends_def) (metis append.assoc)

lemma extends_garbageBuckets: "garbageBuckets gc' = garbageBuckets gc \<Longrightarrow> extends gc gc'"
  by (simp add: extends_def)

subsection \<open>Copying one page\<close>

lemma opening_gc_block:
  assumes "mid_inv gc X" and "0 < capacity gc"
  shows "\<exists>g gc1. GetGCBlock gc = Inr (g, gc1) \<and> mid_inv gc1 X \<and> same_pages gc gc1 \<and>
     gcBlock gc1 = Some g \<and> hostBlock gc1 = hostBlock gc \<and> hostIOSeqNo gc1 = hostIOSeqNo gc \<and>
     capacity gc1 = capacity gc \<and> extends gc gc1 \<and>
     (\<forall>x. x \<notin> set (freeQ gc) \<longrightarrow> get_block gc1 x = get_block gc x)"
proof -
  have st: "gc_struct gc" using assms(1) by (simp add: mid_inv_def)
  show ?thesis
  proof (cases "gcBlock gc")
    case None
    then have "freeQ gc \<noteq> []" using assms(2) by (auto simp: capacity_def)
    then obtain g gc1 where r: "GetGCBlock gc = Inr (g, gc1)" "allocated gc g gc1" "gcBlock gc1 = Some g"
        "hostBlock gc1 = hostBlock gc" "hostIOSeqNo gc1 = hostIOSeqNo gc"
      using GetGCBlock_cases(3) [OF st None] by auto
    note al = allocated_spec [OF r(2) st]
    have "mid_inv gc1 X" using assms(1) al same_pages_space_rel [OF al(2)] by (simp add: mid_inv_def)
    moreover have "freeQ gc1 = butlast (freeQ gc)" "freeQ gc \<noteq> []" "g = last (freeQ gc)"
      using r(2) by (simp_all add: allocated_def)
    then have "capacity gc1 = capacity gc" "g \<in> set (freeQ gc)"
      using None r(3) al(5) by (cases "length (freeQ gc)"; simp add: capacity_def)+
    moreover have "extends gc gc1" using r(2) by (intro extends_garbageBuckets) (simp add: allocated_def)
    moreover have "\<forall>x. x \<noteq> g \<longrightarrow> get_block gc1 x = get_block gc x" using r(2) by (simp add: allocated_def)
    ultimately show ?thesis using r al(2) by metis
  next
    case (Some g)
    then show ?thesis using GetGCBlock_cases(1) [OF st Some] assms(1) by simp
  qed
qed

lemma WriteGCBlock_spec:
  assumes "mid_inv gc X" and "X \<subseteq> {v} \<times> UNIV" and "valid_at gc v p l" and "(v, p) \<notin> X"
    and "i < GC_BUCKET_NUM" and "v \<in> set (bucket gc i)" and "0 < capacity gc"
  shows "\<exists>g q gc'. WriteGCBlock gc v p = Inr (\<lparr>pl_block = of_nat g, pl_page = of_nat q\<rparr>, gc') \<and>
     mid_inv gc' (insert (v, p) X) \<and> space_abs gc' = (space_abs gc)(l \<mapsto> (g, q)) \<and>
     g < nblocks gc \<and> q < PAGE_NUM_PER_BLOCK \<and> Suc (capacity gc') = capacity gc \<and>
     get_block gc' v = get_block gc v \<and> hostBlock gc' = hostBlock gc \<and> hostIOSeqNo gc' = hostIOSeqNo gc \<and>
     nblocks gc' = nblocks gc \<and> extends gc gc' \<and> (g, q) \<notin> ran (space_abs gc) \<and> same_cursor (hostBlock gc) gc gc'"
proof -
  have st: "gc_struct gc" using assms(1) by (simp add: mid_inv_def)
  obtain g gc1 where o: "GetGCBlock gc = Inr (g, gc1)" "mid_inv gc1 X" "same_pages gc gc1"
     "gcBlock gc1 = Some g" "hostBlock gc1 = hostBlock gc" "hostIOSeqNo gc1 = hostIOSeqNo gc"
     "capacity gc1 = capacity gc" "extends gc gc1"
     "\<forall>x. x \<notin> set (freeQ gc) \<longrightarrow> get_block gc1 x = get_block gc x"
    using opening_gc_block [OF assms(1,7)] by blast
  have st1: "gc_struct gc1" and op1: "open_ok gc1" and lv1: "levels_ok {} gc1" and sr1: "space_rel gc1 X"
    using o(2) by (simp_all add: mid_inv_def)
  have v1: "valid_at gc1 v p l" using assms(3) same_pages_valid_at [OF o(3)] by simp
  have vb: "get_block gc1 v = get_block gc v" using o(9) valid_not_free [OF st assms(3)] by simp
  have go: "g \<in> open_blocks gc1" using o(4) by (simp add: open_blocks_def)
  have g: "g < nblocks gc1" using gc_places(6) [OF st1] go by auto
  have "blk_status (get_block gc1 v) = FULL" using vb status_bucket [OF st assms(5,6)] by (simp add: full_in_def)
  then have gv: "g \<noteq> v" using status_open [OF st1 go] by auto
  have cur: "unat (pageCursor (get_block gc1 g)) < PAGE_NUM_PER_BLOCK" using op1 go by (simp add: open_ok_def)
  have ok: "block_ok g (get_block gc1 g)" using st1 g by (simp add: gc_struct_defs)
  define q where "q = unat (pageCursor (get_block gc1 g))"
  have abs1: "space_abs gc1 l = Some (v, p)" by (rule space_rel_functional [OF sr1 v1 assms(4)])
  have k1: "key_inv bytes_of_u64 (spaceIndexer gc1)" using sr1 by (simp add: space_rel_def)
  obtain si where si: "key_delete bytes_of_u64 (spaceIndexer gc1) l = Inr si"
    using idx64.delete [OF k1] by blast
  let ?gs = "gc1\<lparr>spaceIndexer := si\<rparr>"
  have rs: "space_rel ?gs (insert (v, p) X)" and as: "space_abs ?gs = (space_abs gc1)(l := None)"
    using space_rel_delete [OF sr1 si] abs1 by simp_all
  have sts: "gc_struct ?gs" using st1 by simp
  let ?wb = "written_block (get_block gc1 g) l"
  let ?gw = "set_block g ?wb ?gs"
  have gw: "get_block ?gw x = (if x = g then ?wb else get_block gc1 x)" for x
    using g by (simp add: get_set_block)
  have rw: "space_rel ?gw (insert (g, q) (insert (v, p) X))"
    using space_rel_written [OF sts _ _ rs, of g l] g cur by (simp add: q_def)
  have "valid_at ?gw x r m \<longleftrightarrow> valid_at gc1 x r m \<or> x = g \<and> r = q \<and> m = l" for x r m
    using valid_at_written [OF sts, of g l x r m] g cur by (simp add: q_def)
  then have vw: "valid_at ?gw g q l" by blast
  have gX: "(g, q) \<notin> insert (v, p) X" using gv assms(2) by auto
  have nw: "space_abs ?gw l = None" using as by simp
  have kw: "key_inv bytes_of_u64 (spaceIndexer ?gw)" using rw by (simp add: space_rel_def)
  obtain si' where si': "key_insert bytes_of_u64 si l (g, q) = Inr si'"
    using idx64.insertKV [OF kw, of l "(g, q)"] nw by (auto simp: space_abs_def)
  let ?g4 = "?gw\<lparr>spaceIndexer := si'\<rparr>"
  have r4: "space_rel ?g4 (insert (v, p) X)" and a4: "space_abs ?g4 = (space_abs gc)(l \<mapsto> (g, q))"
    using space_rel_insert [OF rw vw gX nw] si' as same_pages_space_abs [OF o(3)] by simp_all
  have st4: "gc_struct ?g4" using struct_written [OF sts, of g l] go cur by (simp add: open_blocks_def)
  have "level_ok (get_block gc1 x) \<Longrightarrow> level_ok (get_block ?g4 x)" for x
    using status_open [OF st1 go] by (cases "x = g") (simp_all add: gw level_ok_def)
  then have lv4: "levels_ok {} ?g4" using lv1 by (simp add: levels_ok_def)
  have c4: "unat (pageCursor (get_block ?g4 g)) = Suc q" using unat_cursor_inc [OF cur] by (simp add: gw q_def)
  have h4: "unat (pageCursor (get_block ?g4 x)) < PAGE_NUM_PER_BLOCK" if "x \<in> set_option (hostBlock ?g4)" for x
  proof -
    have x: "x \<in> set_option (hostBlock gc1)" using that by simp
    then have "x \<noteq> g" using host_gc_distinct [OF st1, of x] o(4) by auto
    then show ?thesis using op1 x by (simp add: gw open_ok_def open_blocks_def)
  qed
  have le4: "unat (pageCursor (get_block ?g4 g)) \<le> PAGE_NUM_PER_BLOCK" using c4 cur by (simp add: q_def)
  have gb4: "gcBlock ?g4 = Some g" using o(4) by simp
  obtain gc5 where 5: "(if pageCursor (get_block ?g4 g) = of_nat PAGE_NUM_PER_BLOCK
            then bindE (Insert2GarbageBuckets ?g4 g) (\<lambda>gc1. Inr (gc1\<lparr>gcBlock := None\<rparr>)) else Inr ?g4) = Inr gc5"
     "gc_struct gc5" "same_pages ?g4 gc5" "open_ok gc5" "hostBlock gc5 = hostBlock ?g4" "freeQ gc5 = freeQ ?g4"
     "hostIOSeqNo gc5 = hostIOSeqNo ?g4" "\<forall>D. levels_ok D ?g4 \<longrightarrow> levels_ok D gc5"
     "gcBlock gc5 = (if unat (pageCursor (get_block ?g4 g)) = PAGE_NUM_PER_BLOCK then None else Some g)"
     "\<forall>x. x \<noteq> g \<longrightarrow> get_block gc5 x = get_block ?g4 x"
     "gc5 = ?g4 \<or> (\<exists>i < GC_BUCKET_NUM. gb_buckets (garbageBuckets gc5) =
        (gb_buckets (garbageBuckets ?g4))[i := bucket ?g4 i @ [g]])"
    using close_gc_if_full [OF st4 gb4 le4 h4] by blast
  have m5: "mid_inv gc5 (insert (v, p) X)"
    using 5(2,4,8) lv4 r4 same_pages_space_rel [OF 5(3)] by (simp add: mid_inv_def)
  have a5: "space_abs gc5 = (space_abs gc)(l \<mapsto> (g, q))" using a4 same_pages_space_abs [OF 5(3)] by simp
  have "valid_at gc5 g q l" using space_rel_valid [of gc5 "insert (v, p) X" l g q] m5 a5 by (simp add: mid_inv_def)
  then have loc: "deref_loc gc5 (g, q) = \<lparr>pl_block = of_nat g, pl_page = of_nat q\<rparr>"
    by (rule deref_valid(1) [OF 5(2)])
  have "Suc (capacity gc5) = capacity gc1"
    using 5(3,6,9) c4 cur o(4) g by (auto simp: capacity_def same_pages_def q_def)
  moreover have "extends gc1 gc5"
  proof -
    have "extends ?g4 gc5"
    proof -
      have "length (gb_buckets (garbageBuckets ?g4)) = GC_BUCKET_NUM" using buckets_lengths [OF st4] by simp
      then show ?thesis using 5(11) by (auto simp: extends_def nth_list_update)
    qed
    then show ?thesis by (simp add: extends_def)
  qed
  moreover have "WriteGCBlock gc v p = Inr (\<lparr>pl_block = of_nat g, pl_page = of_nat q\<rparr>, gc5)"
  proof -
    obtain b1 where b1: "put_page (get_block gc1 g) l = Inr b1" "pageCursor b1 = pageCursor (get_block gc1 g)"
      "b1\<lparr>pageCursor := pageCursor (get_block gc1 g) + 1\<rparr> = ?wb"
      using put_page_eq [OF ok cur] by blast
    have lba: "page_lba gc1 v p = l" using v1 by (simp add: valid_at_def page_lba_def)
    have lba': "page_lba ?gs v p = l" using lba by (simp add: page_lba_def)
    have lba3: "page_lba (set_block g b1 ?gs) v p = l"
      using lba g gv by (simp add: page_lba_def get_set_block)
    have gb1: "get_block (set_block g b1 ?gs) g = b1" using g by (simp add: get_set_block)
    have g4: "set_block g ?wb ((set_block g b1 ?gs)\<lparr>spaceIndexer := si'\<rparr>) = ?g4"
      by (simp add: set_block_commute)
    show ?thesis
      using o(1) si b1 lba lba' lba3 gb1 si' g4 5(1) loc
      by (simp add: WriteGCBlock_def Let_def q_def split: if_split_asm)
  qed
  moreover have "get_block gc5 v = get_block gc v" using 5(10) gv vb gw by simp
  moreover have "nblocks gc5 = nblocks gc" using 5(3) o(3) by (simp add: same_pages_def)
  moreover have "g < nblocks gc" "q < PAGE_NUM_PER_BLOCK" using g cur o(3) by (simp_all add: same_pages_def q_def)
  moreover have "hostBlock gc5 = hostBlock gc" "hostIOSeqNo gc5 = hostIOSeqNo gc"
    using 5(5,7) o(5,6) by simp_all
  moreover have "(g, q) \<notin> ran (space_abs gc)"
  proof
    assume "(g, q) \<in> ran (space_abs gc)"
    then obtain m where "space_abs gc m = Some (g, q)" by (auto simp: ran_def)
    then have "space_abs gc1 m = Some (g, q)" using same_pages_space_abs [OF o(3)] by simp
    then have "pi_status (pages (get_block gc1 g) ! q) = VALID"
      using space_rel_valid [OF sr1] by (simp add: valid_at_def)
    moreover have "pi_status (pages (get_block gc1 g) ! q) = WRITEABLE"
      using ok cur by (auto simp: block_ok_def q_def)
    ultimately show False by simp
  qed
  moreover have "same_cursor (hostBlock gc) gc gc5"
  proof
    fix x assume x: "x \<in> set_option (hostBlock gc)"
    then have "x \<notin> set (freeQ gc)" using gc_places(2) [OF st] by (auto simp: open_blocks_def)
    moreover have "x \<noteq> g" using host_gc_distinct [OF st1, of x] o(4,5) x by auto
    ultimately show "pageCursor (get_block gc5 x) = pageCursor (get_block gc x)" using 5(10) o(9) gw by simp
  qed
  ultimately show ?thesis using m5 a5 o(7) extends_trans [OF o(8)] by metis
qed

subsection \<open>Recycling one block\<close>

lemma zero_block_simps [simp]:
  "blk_status (zero_block i) = FREE" "blk_id (zero_block i) = i" "pageCursor (zero_block i) = 0"
  "garbageCnt (zero_block i) = 0"
  "p < PAGE_NUM_PER_BLOCK \<Longrightarrow> pi_status (pages (zero_block i) ! p) = WRITEABLE"
  by (simp_all add: zero_block_def zero_page_def)

lemma ReturnBlock2FreeQ_spec:
  assumes "mid_inv gc X" and "i < GC_BUCKET_NUM" and "v \<in> set (bucket gc i)" and "X \<subseteq> {v} \<times> UNIV"
    and "\<And>p l. valid_at gc v p l \<Longrightarrow> (v, p) \<in> X"
  shows "\<exists>gc'. ReturnBlock2FreeQ gc v = Inr gc' \<and> gc_inv gc' \<and> space_abs gc' = space_abs gc \<and>
     capacity gc' = capacity gc + PAGE_NUM_PER_BLOCK \<and> freeQ gc' = v # freeQ gc \<and>
     gb_buckets (garbageBuckets gc') = (gb_buckets (garbageBuckets gc))[i := remove1 v (bucket gc i)] \<and>
     nblocks gc' = nblocks gc \<and> hostBlock gc' = hostBlock gc \<and> hostIOSeqNo gc' = hostIOSeqNo gc \<and>
     gcBlock gc' = gcBlock gc \<and> blk_id (get_block gc' v) = of_nat v \<and> same_cursor (hostBlock gc) gc gc'"
proof -
  have st: "gc_struct gc" and lv: "levels_ok {} gc" and op: "open_ok gc" and sr: "space_rel gc X"
    using assms(1) by (simp_all add: mid_inv_def)
  note bf = bucket_facts [OF st assms(2,3)]
  note ul = unlink_bucket [OF st assms(2,3)]
  have id: "blk_id (get_block gc v) = of_nat v" using st bf(3) by (simp add: gc_struct_defs block_ok_def)
  have wl: "unat (garbageWL (get_block gc v)) = i"
    using status_bucket [OF st assms(2,3)] assms(2) by (simp add: full_in_def unat_of_nat_len32)
  let ?gb = "(garbageBuckets (unlink_block v gc))\<lparr>gb_blockCnt :=
     (gb_blockCnt (garbageBuckets gc))[i := gb_blockCnt (garbageBuckets gc) ! i - 1]\<rparr>"
  let ?gc2 = "set_block v (zero_block (of_nat v)) ((unlink_block v gc)\<lparr>garbageBuckets := ?gb\<rparr>)"
  let ?gc' = "?gc2\<lparr>freeQ := v # freeQ ?gc2, freeQsize := freeQsize ?gc2 + 1\<rparr>"
  have r: "ReturnBlock2FreeQ gc v = Inr ?gc'"
    using wl id assms(2) buckets_lengths [OF st] by (simp add: ReturnBlock2FreeQ_def bucket_dec_def Let_def)
  have g: "get_block ?gc2 x = (if x = v then zero_block (of_nat v) else get_block gc x)" for x
    using bf(3) by (simp add: get_set_block)
  have st': "gc_struct ?gc'"
    by (rule struct_return [OF st assms(2,3)]) (use ul g in \<open>simp_all add: opens_def\<close>)
  have "level_ok (get_block gc x) \<Longrightarrow> level_ok (get_block ?gc' x)" for x
    by (simp add: g level_ok_def)
  then have lv': "levels_ok {} ?gc'" using lv by (simp add: levels_ok_def)
  have op': "open_ok ?gc'" using op bf(5) g by (auto simp: open_ok_def open_blocks_def)
  have "valid_at ?gc' x p l \<longleftrightarrow> valid_at gc x p l \<and> x \<noteq> v" for x p l
    by (auto simp: valid_at_def g)
  then have sr': "space_rel ?gc' {}" using sr assms(4,5) by (auto simp: space_rel_def space_abs_def)
  have "capacity ?gc' = capacity gc + PAGE_NUM_PER_BLOCK"
  proof -
    have "x \<noteq> v" if "gcBlock gc = Some x" for x using that bf(5) by (auto simp: open_blocks_def)
    then show ?thesis using ul(2) g by (simp add: capacity_def split: option.split)
  qed
  moreover have "same_cursor (hostBlock gc) gc ?gc'" using bf(5) g by (auto simp: open_blocks_def)
  ultimately show ?thesis
    using r st' lv' op' sr' ul g [of v] by (simp add: gc_inv_def space_abs_def)
qed

definition valid_pages :: "Block \<Rightarrow> nat list \<Rightarrow> nat list" where
  "valid_pages b ps = filter (\<lambda>p. pi_status (pages b ! p) = VALID) ps"

lemma valid_pages_simps [simp]:
  "valid_pages b [] = []"
  "valid_pages b (p # ps) = (if pi_status (pages b ! p) = VALID then p # valid_pages b ps else valid_pages b ps)"
  by (simp_all add: valid_pages_def)

lemma valid_pages_length: "length (valid_pages b ps) \<le> length ps"
  by (simp add: valid_pages_def)

text \<open>The output arrays have room for \<open>n\<close> more entries.\<close>

definition out_room :: "nat \<Rightarrow> GCOut \<Rightarrow> bool" where
  "out_room n out \<longleftrightarrow> unat (gcWriteCnt out) + n \<le> length (readPageLoc out) \<and>
     unat (gcWriteCnt out) + n \<le> length (writePageLoc out) \<and> unat (gcWriteCnt out) + n < 4294967296"

lemma out_room_mono: "out_room n out \<Longrightarrow> m \<le> n \<Longrightarrow> out_room m out"
  by (simp add: out_room_def)

text \<open>\<open>logged out ms out'\<close>: the moves \<open>ms\<close> have been appended to the two logs.\<close>

definition logged :: "GCOut \<Rightarrow> (PageLoc \<times> PageLoc) list \<Rightarrow> GCOut \<Rightarrow> bool" where
  "logged out ms out' \<longleftrightarrow> move_log out' = move_log out @ ms \<and>
     unat (gcWriteCnt out') = unat (gcWriteCnt out) + length ms \<and>
     length (readPageLoc out') = length (readPageLoc out) \<and>
     length (writePageLoc out') = length (writePageLoc out)"

lemma logged_refl [simp]: "logged out [] out"
  by (simp add: logged_def)

lemma logged_erase [simp]: "logged out ms (out'\<lparr>eraseBlockId := er\<rparr>) = logged out ms out'"
  by (simp add: logged_def move_log_def)

lemma logged_trans: "logged a ms b \<Longrightarrow> logged b ns c \<Longrightarrow> logged a (ms @ ns) c"
  by (simp add: logged_def)

lemma logged_room: "logged out ms out' \<Longrightarrow> out_room (length ms + n) out \<Longrightarrow> out_room n out'"
  by (simp add: logged_def out_room_def)

lemma logged_one:
  assumes "out_room 1 out"
  shows "logged out [(r, w)] (out\<lparr>readPageLoc := (readPageLoc out)[unat (gcWriteCnt out) := r],
     writePageLoc := (writePageLoc out)[unat (gcWriteCnt out) := w], gcWriteCnt := gcWriteCnt out + 1\<rparr>)"
proof -
  let ?n = "unat (gcWriteCnt out)"
  have n: "?n < length (readPageLoc out)" "?n < length (writePageLoc out)"
      "unat (gcWriteCnt out + 1) = Suc ?n"
    using assms by (auto simp: out_room_def intro: unat_inc32)
  have "take (Suc ?n) (zip ((readPageLoc out)[?n := r]) ((writePageLoc out)[?n := w])) =
      take ?n (zip (readPageLoc out) (writePageLoc out)) @ [(r, w)]"
    using n by (simp add: take_Suc_conv_app_nth take_zip)
  then show ?thesis by (simp add: logged_def move_log_def n(3))
qed

lemma replay_one:
  assumes "space_rel gc X" and "space_abs gc l = Some (v, p)" and "loc_pair r = (v, p)"
  shows "replay [(r, w)] (space_abs gc) = (space_abs gc)(l \<mapsto> loc_pair w)"
proof
  fix m
  show "replay [(r, w)] (space_abs gc) m = ((space_abs gc)(l \<mapsto> loc_pair w)) m"
  proof (cases "space_abs gc m = Some (v, p)")
    case True
    have "m = l"
      using space_rel_valid [OF assms(1) True] space_rel_valid [OF assms(1,2)]
      by (blast intro: valid_at_lba_unique)
    then show ?thesis by (simp add: assms(2,3))
  next
    case False
    then have "m \<noteq> l" using assms(2) by blast
    then show ?thesis using False assms(3) by simp
  qed
qed

definition here :: "nat \<Rightarrow> nat \<Rightarrow> PageLoc" where
  "here a p = \<lparr>pl_block = of_nat a, pl_page = of_nat p\<rparr>"

lemma loc_pair_here: "a < 4294967296 \<Longrightarrow> p < PAGE_NUM_PER_BLOCK \<Longrightarrow> loc_pair (here a p) = (a, p)"
  by (simp add: here_def loc_pair_def unat_of_nat_len32)

lemma gc_page_valid:
  assumes "mid_inv gc X" and "X \<subseteq> {v} \<times> UNIV" and "i < GC_BUCKET_NUM" and "v \<in> set (bucket gc i)"
    and "p < PAGE_NUM_PER_BLOCK" and "pi_status (pages (get_block gc v) ! p) = VALID" and "(v, p) \<notin> X"
    and "0 < capacity gc" and "out_room 1 out"
  shows "\<exists>w gc' out'. gc_page v p (gc, out) = Inr (gc', out') \<and> mid_inv gc' (insert (v, p) X) \<and>
     logged out [(here v p, w)] out' \<and> eraseBlockId out' = eraseBlockId out \<and>
     space_abs gc' = replay [(here v p, w)] (space_abs gc) \<and> Suc (capacity gc') = capacity gc \<and>
     get_block gc' v = get_block gc v \<and> hostBlock gc' = hostBlock gc \<and> hostIOSeqNo gc' = hostIOSeqNo gc \<and>
     nblocks gc' = nblocks gc \<and> extends gc gc' \<and> safe_log [(here v p, w)] (space_abs gc) \<and> same_cursor (hostBlock gc) gc gc'"
proof -
  have st: "gc_struct gc" and sr: "space_rel gc X" using assms(1) by (simp_all add: mid_inv_def)
  have nb: "nblocks gc < 4294967296" using st by (simp add: gc_struct_defs)
  have v: "v < nblocks gc" by (rule bucket_facts(3) [OF st assms(3,4)])
  let ?l = "pi_lba (pages (get_block gc v) ! p)"
  have va: "valid_at gc v p ?l" using v assms(5,6) by (simp add: valid_at_def)
  obtain g q gc' where w: "WriteGCBlock gc v p = Inr (here g q, gc')"
     "mid_inv gc' (insert (v, p) X)" "space_abs gc' = (space_abs gc)(?l \<mapsto> (g, q))"
     "g < nblocks gc" "q < PAGE_NUM_PER_BLOCK" "Suc (capacity gc') = capacity gc"
     "get_block gc' v = get_block gc v" "hostBlock gc' = hostBlock gc" "hostIOSeqNo gc' = hostIOSeqNo gc"
     "nblocks gc' = nblocks gc" "extends gc gc'" "(g, q) \<notin> ran (space_abs gc)" "same_cursor (hostBlock gc) gc gc'"
    using WriteGCBlock_spec [OF assms(1,2) va assms(7,3,4,8)] by (auto simp: here_def)
  have lp: "loc_pair (here v p) = (v, p)" "loc_pair (here g q) = (g, q)"
    using v w(4,5) nb assms(5) by (simp_all add: loc_pair_here)
  have ok: "block_ok v (get_block gc v)" using st v by (simp add: gc_struct_defs)
  then have b: "length (pages (get_block gc v)) = PAGE_NUM_PER_BLOCK" "blk_id (get_block gc v) = of_nat v"
    by (simp_all add: block_ok_def)
  let ?n = "unat (gcWriteCnt out)"
  have n: "?n < length (readPageLoc out)" "?n < length (writePageLoc out)"
    using assms(9) by (simp_all add: out_room_def)
  let ?out = "out\<lparr>readPageLoc := (readPageLoc out)[?n := here v p],
     writePageLoc := (writePageLoc out)[?n := here g q], gcWriteCnt := gcWriteCnt out + 1\<rparr>"
  have "gc_page v p (gc, out) = Inr (gc', ?out)"
    using w(1) b n assms(5,6) by (simp add: gc_page_def here_def)
  moreover have "space_abs gc' = replay [(here v p, here g q)] (space_abs gc)"
    using replay_one [OF sr space_rel_functional [OF sr va assms(7)] lp(1)] w(3) lp(2) by simp
  moreover have "eraseBlockId ?out = eraseBlockId out" by simp
  moreover have "safe_log [(here v p, here g q)] (space_abs gc)" using w(12) lp(2) by simp
  ultimately show ?thesis using w(2,6-11,13) logged_one [OF assms(9)] by blast
qed

lemma extends_mem: "extends gc gc' \<Longrightarrow> i < GC_BUCKET_NUM \<Longrightarrow> v \<in> set (bucket gc i) \<Longrightarrow> v \<in> set (bucket gc' i)"
  by (auto simp: extends_def dest!: spec [of _ i])

lemma gc_pages_spec:
  assumes "mid_inv gc X" and "X \<subseteq> {v} \<times> UNIV" and "i < GC_BUCKET_NUM" and "v \<in> set (bucket gc i)"
    and "distinct ps" and "\<And>p. p \<in> set ps \<Longrightarrow> p < PAGE_NUM_PER_BLOCK \<and> (v, p) \<notin> X"
    and "length (valid_pages (get_block gc v) ps) \<le> capacity gc"
    and "out_room (length (valid_pages (get_block gc v) ps)) out"
  shows "\<exists>ms gc' out'. gc_pages v ps (gc, out) = Inr (gc', out') \<and>
     mid_inv gc' (X \<union> Pair v ` set (valid_pages (get_block gc v) ps)) \<and>
     map fst ms = map (here v) (valid_pages (get_block gc v) ps) \<and>
     logged out ms out' \<and> eraseBlockId out' = eraseBlockId out \<and> space_abs gc' = replay ms (space_abs gc) \<and>
     capacity gc' + length ms = capacity gc \<and>
     get_block gc' v = get_block gc v \<and> hostBlock gc' = hostBlock gc \<and> hostIOSeqNo gc' = hostIOSeqNo gc \<and>
     nblocks gc' = nblocks gc \<and> extends gc gc' \<and> safe_log ms (space_abs gc) \<and> same_cursor (hostBlock gc) gc gc'"
  using assms
proof (induction ps arbitrary: gc X out)
  case Nil
  then show ?case by (intro exI [of _ "[]"]) simp
next
  case (Cons p ps)
  let ?b = "get_block gc v"
  have p: "p < PAGE_NUM_PER_BLOCK" "(v, p) \<notin> X" using Cons.prems(6) [of p] by simp_all
  show ?case
  proof (cases "pi_status (pages ?b ! p) = VALID")
    case False
    have st: "gc_struct gc" using Cons.prems(1) by (simp add: mid_inv_def)
    have "length (pages ?b) = PAGE_NUM_PER_BLOCK"
      using st bucket_facts(3) [OF st Cons.prems(3,4)] by (simp add: gc_struct_defs block_ok_def)
    then have "gc_page v p (gc, out) = Inr (gc, out)" using False p by (simp add: gc_page_def)
    then show ?thesis using Cons.IH [of gc X out] Cons.prems False by simp
  next
    case True
    have room: "0 < capacity gc" "out_room 1 out"
      using Cons.prems(7,8) True by (auto elim: out_room_mono)
    obtain w gc1 out1 where 1: "gc_page v p (gc, out) = Inr (gc1, out1)" "mid_inv gc1 (insert (v, p) X)"
       "logged out [(here v p, w)] out1" "eraseBlockId out1 = eraseBlockId out"
       "space_abs gc1 = replay [(here v p, w)] (space_abs gc)" "Suc (capacity gc1) = capacity gc"
       "get_block gc1 v = ?b" "hostBlock gc1 = hostBlock gc" "hostIOSeqNo gc1 = hostIOSeqNo gc"
       "nblocks gc1 = nblocks gc" "extends gc gc1" "safe_log [(here v p, w)] (space_abs gc)" "same_cursor (hostBlock gc) gc gc1"
      using gc_page_valid [OF Cons.prems(1-4) p(1) True p(2) room] by blast
    have X1: "insert (v, p) X \<subseteq> {v} \<times> UNIV" using Cons.prems(2) by auto
    have m1: "v \<in> set (bucket gc1 i)" by (rule extends_mem [OF 1(11) Cons.prems(3,4)])
    have "out_room (1 + length (valid_pages ?b ps)) out" using Cons.prems(8) True by simp
    then have c1: "out_room (length (valid_pages (get_block gc1 v) ps)) out1"
      using logged_room [OF 1(3)] by (simp add: 1(7))
    have c2: "length (valid_pages (get_block gc1 v) ps) \<le> capacity gc1"
      using Cons.prems(7) True 1(6,7) by simp
    have c3: "r < PAGE_NUM_PER_BLOCK \<and> (v, r) \<notin> insert (v, p) X" if "r \<in> set ps" for r
      using Cons.prems(5,6) that by auto
    have c4: "distinct ps" using Cons.prems(5) by simp
    obtain ms gc2 out2 where 2: "gc_pages v ps (gc1, out1) = Inr (gc2, out2)"
       "mid_inv gc2 (insert (v, p) X \<union> Pair v ` set (valid_pages ?b ps))"
       "map fst ms = map (here v) (valid_pages ?b ps)" "logged out1 ms out2"
       "eraseBlockId out2 = eraseBlockId out1" "space_abs gc2 = replay ms (space_abs gc1)"
       "capacity gc2 + length ms = capacity gc1" "get_block gc2 v = ?b" "hostBlock gc2 = hostBlock gc1"
       "hostIOSeqNo gc2 = hostIOSeqNo gc1" "nblocks gc2 = nblocks gc1" "extends gc1 gc2"
       "safe_log ms (space_abs gc1)" "same_cursor (hostBlock gc1) gc1 gc2"
      using Cons.IH [OF 1(2) X1 Cons.prems(3) m1 c4 c3 c2 c1] unfolding 1(7) by blast
    have "insert (v, p) X \<union> Pair v ` set (valid_pages ?b ps) = X \<union> Pair v ` set (valid_pages ?b (p # ps))"
      using True by auto
    moreover have "replay ms (space_abs gc1) = replay ((here v p, w) # ms) (space_abs gc)"
      using 1(5) by simp
    moreover have "logged out ((here v p, w) # ms) out2" using logged_trans [OF 1(3) 2(4)] by simp
    moreover have "extends gc gc2" using 1(11) 2(12) by (rule extends_trans)
    moreover have "safe_log ((here v p, w) # ms) (space_abs gc)" using 1(5,12) 2(13) by simp
    ultimately show ?thesis using 1 2 True
      by (intro exI [of _ "(here v p, w) # ms"] exI [of _ gc2] exI [of _ out2]) simp
  qed
qed

lemma gc_block_spec:
  assumes "gc_inv gc" and "i < GC_BUCKET_NUM" and "v \<in> set (bucket gc i)" and "PAGE_NUM_PER_BLOCK \<le> capacity gc"
    and "out_room PAGE_NUM_PER_BLOCK out" and "unat rc' < length (eraseBlockId out)"
  shows "\<exists>ms gc' out'. gc_block v rc' (gc, out) = Inr (gc', out') \<and> gc_inv gc' \<and>
     map fst ms = map (here v) (valid_pages (get_block gc v) [0..<PAGE_NUM_PER_BLOCK]) \<and>
     logged out ms out' \<and> eraseBlockId out' = (eraseBlockId out)[unat rc' := of_nat v] \<and>
     space_abs gc' = replay ms (space_abs gc) \<and> capacity gc' + length ms = capacity gc + PAGE_NUM_PER_BLOCK \<and>
     hostBlock gc' = hostBlock gc \<and> hostIOSeqNo gc' = hostIOSeqNo gc \<and> nblocks gc' = nblocks gc \<and>
     v \<in> set (freeQ gc') \<and>
     (\<forall>j < GC_BUCKET_NUM. \<exists>ys. bucket gc' j = (if j = i then remove1 v (bucket gc i) else bucket gc j) @ ys) \<and>
     safe_log ms (space_abs gc) \<and> same_cursor (hostBlock gc) gc gc'"
proof -
  have m: "mid_inv gc {}" using assms(1) by (simp add: mid_inv_empty)
  have st: "gc_struct gc" using assms(1) by (simp add: gc_inv_def)
  let ?b = "get_block gc v" and ?ps = "[0..<PAGE_NUM_PER_BLOCK]"
  let ?vp = "valid_pages ?b ?ps"
  have cur: "unat (pageCursor ?b) = PAGE_NUM_PER_BLOCK"
    using status_bucket [OF st assms(2,3)] by (simp add: full_in_def)
  have "length ?vp \<le> PAGE_NUM_PER_BLOCK" using valid_pages_length [of ?b ?ps] by simp
  then have len: "length ?vp \<le> capacity gc" "out_room (length ?vp) out"
    using assms(4,5) by (auto elim: out_room_mono)
  obtain ms gc1 out1 where 1: "gc_pages v ?ps (gc, out) = Inr (gc1, out1)"
     "mid_inv gc1 ({} \<union> Pair v ` set ?vp)" "map fst ms = map (here v) ?vp" "logged out ms out1"
     "eraseBlockId out1 = eraseBlockId out" "space_abs gc1 = replay ms (space_abs gc)"
     "capacity gc1 + length ms = capacity gc" "get_block gc1 v = ?b" "hostBlock gc1 = hostBlock gc"
     "hostIOSeqNo gc1 = hostIOSeqNo gc" "nblocks gc1 = nblocks gc" "extends gc gc1"
     "safe_log ms (space_abs gc)" "same_cursor (hostBlock gc) gc gc1"
    using gc_pages_spec [OF m _ assms(2,3), of ?ps, OF _ _ _ len] by auto
  have v1: "v \<in> set (bucket gc1 i)" by (rule extends_mem [OF 1(12) assms(2,3)])
  have "valid_at gc1 v p l \<Longrightarrow> (v, p) \<in> {} \<union> Pair v ` set ?vp" for p l
    by (simp add: valid_at_def 1(8) valid_pages_def)
  then obtain gc2 where 2: "ReturnBlock2FreeQ gc1 v = Inr gc2" "gc_inv gc2" "space_abs gc2 = space_abs gc1"
     "capacity gc2 = capacity gc1 + PAGE_NUM_PER_BLOCK" "freeQ gc2 = v # freeQ gc1"
     "gb_buckets (garbageBuckets gc2) = (gb_buckets (garbageBuckets gc1))[i := remove1 v (bucket gc1 i)]"
     "nblocks gc2 = nblocks gc1" "hostBlock gc2 = hostBlock gc1" "hostIOSeqNo gc2 = hostIOSeqNo gc1"
     "blk_id (get_block gc2 v) = of_nat v" "same_cursor (hostBlock gc1) gc1 gc2"
    using ReturnBlock2FreeQ_spec [OF 1(2) assms(2) v1] by blast
  have r: "gc_block v rc' (gc, out) = Inr (gc2, out1\<lparr>eraseBlockId := (eraseBlockId out)[unat rc' := of_nat v]\<rparr>)"
    using 1(1,5) 2(1,10) assms(6) cur by (simp add: gc_block_def)
  have lg: "logged out ms (out1\<lparr>eraseBlockId := (eraseBlockId out)[unat rc' := of_nat v]\<rparr>)"
    using 1(4) by simp
  have "\<exists>ys. bucket gc2 j = (if j = i then remove1 v (bucket gc i) else bucket gc j) @ ys" if j: "j < GC_BUCKET_NUM" for j
  proof -
    obtain ys where ys: "bucket gc1 j = bucket gc j @ ys" using 1(12) j by (auto simp: extends_def)
    have "length (gb_buckets (garbageBuckets gc1)) = GC_BUCKET_NUM"
      using 1(2) buckets_lengths by (simp add: mid_inv_def)
    then show ?thesis using 2(6) ys assms(3) j by (cases "j = i") (simp_all add: remove1_append)
  qed
  then show ?thesis using r lg 1 2
    by (intro exI [of _ ms] exI [of _ gc2]
          exI [of _ "out1\<lparr>eraseBlockId := (eraseBlockId out)[unat rc' := of_nat v]\<rparr>"]) simp
qed

subsection \<open>Whole runs\<close>

definition ready :: "u32 \<Rightarrow> GCModule \<times> GCOut \<Rightarrow> bool" where
  "ready rc s \<longleftrightarrow> gc_inv (fst s) \<and> PAGE_NUM_PER_BLOCK \<le> capacity (fst s) \<and>
     out_room (PAGE_NUM_PER_BLOCK * unat rc) (snd s) \<and> unat rc \<le> length (eraseBlockId (snd s))"

text \<open>The garbage in the first block of a collection.\<close>

definition dropped :: "GCModule \<Rightarrow> nat list \<Rightarrow> nat" where
  "dropped gc vs = (case vs of [] \<Rightarrow> 0 | v # _ \<Rightarrow> unat (garbageCnt (get_block gc v)))"

lemma dropped_simps [simp]: "dropped gc [] = 0" "dropped gc (v # vs) = unat (garbageCnt (get_block gc v))"
  by (simp_all add: dropped_def)

text \<open>
  \<open>gc_prog n vs s s'\<close>: from \<open>s\<close> to \<open>s'\<close> the blocks \<open>vs\<close> were recycled, the first of them when \<open>n\<close>
  were still to do.
\<close>

definition gc_prog :: "nat \<Rightarrow> nat list \<Rightarrow> GCModule \<times> GCOut \<Rightarrow> GCModule \<times> GCOut \<Rightarrow> bool" where
  "gc_prog n vs s s' \<longleftrightarrow> gc_inv (fst s') \<and> nblocks (fst s') = nblocks (fst s) \<and>
     hostBlock (fst s') = hostBlock (fst s) \<and> same_cursor (hostBlock (fst s)) (fst s) (fst s') \<and>
     hostIOSeqNo (fst s') = hostIOSeqNo (fst s) \<and>
     eraseBlockId (snd s') = take (n - length vs) (eraseBlockId (snd s)) @ rev (map of_nat vs) @
        drop n (eraseBlockId (snd s)) \<and>
     (\<exists>ms. logged (snd s) ms (snd s') \<and> length ms \<le> PAGE_NUM_PER_BLOCK * length vs \<and>
        space_abs (fst s') = replay ms (space_abs (fst s)) \<and>
        capacity (fst s') + length ms = capacity (fst s) + PAGE_NUM_PER_BLOCK * length vs \<and>
        safe_log ms (space_abs (fst s)) \<and> length ms + dropped (fst s) vs \<le> PAGE_NUM_PER_BLOCK * length vs)"

lemma gc_prog_refl: "gc_inv (fst s) \<Longrightarrow> gc_prog n [] s s"
  by (auto simp: gc_prog_def intro!: exI [of _ "[]"])

lemma gc_prog_trans:
  assumes "gc_prog n vs s s1" and "gc_prog (n - length vs) ws s1 s2" and "length vs \<le> n"
    and "n \<le> length (eraseBlockId (snd s))" and "vs = [] \<Longrightarrow> s1 = s"
  shows "gc_prog n (vs @ ws) s s2"
proof -
  obtain ms ns where m: "logged (snd s) ms (snd s1)" "length ms \<le> PAGE_NUM_PER_BLOCK * length vs"
     "space_abs (fst s1) = replay ms (space_abs (fst s))"
     "capacity (fst s1) + length ms = capacity (fst s) + PAGE_NUM_PER_BLOCK * length vs"
     "logged (snd s1) ns (snd s2)" "length ns \<le> PAGE_NUM_PER_BLOCK * length ws"
     "space_abs (fst s2) = replay ns (space_abs (fst s1))"
     "capacity (fst s2) + length ns = capacity (fst s1) + PAGE_NUM_PER_BLOCK * length ws"
     "safe_log ms (space_abs (fst s))" "safe_log ns (space_abs (fst s1))"
     "length ms + dropped (fst s) vs \<le> PAGE_NUM_PER_BLOCK * length vs"
     "length ns + dropped (fst s1) ws \<le> PAGE_NUM_PER_BLOCK * length ws"
    using assms(1,2) by (auto simp: gc_prog_def)
  have "length (ms @ ns) + dropped (fst s) (vs @ ws) \<le> PAGE_NUM_PER_BLOCK * length (vs @ ws)"
    using m(2,6,11,12) assms(5) by (cases vs) simp_all
  note dr = this
  have "\<exists>ks. logged (snd s) ks (snd s2) \<and> length ks \<le> PAGE_NUM_PER_BLOCK * length (vs @ ws) \<and>
        space_abs (fst s2) = replay ks (space_abs (fst s)) \<and>
        capacity (fst s2) + length ks = capacity (fst s) + PAGE_NUM_PER_BLOCK * length (vs @ ws) \<and>
        safe_log ks (space_abs (fst s)) \<and> length ks + dropped (fst s) (vs @ ws) \<le> PAGE_NUM_PER_BLOCK * length (vs @ ws)"
    using m logged_trans [OF m(1,5)] dr by (intro exI [of _ "ms @ ns"]) (simp add: replay_append safe_log_append)
  moreover have "eraseBlockId (snd s2) = take (n - length (vs @ ws)) (eraseBlockId (snd s)) @
      rev (map of_nat (vs @ ws)) @ drop n (eraseBlockId (snd s))"
    using assms by (simp add: gc_prog_def)
  ultimately show ?thesis using assms(1,2) unfolding gc_prog_def by simp
qed

lemma gc_prog_ready:
  assumes "gc_prog (unat rc) vs s s'" and "ready rc s" and "length vs \<le> unat rc"
  shows "ready (rc - of_nat (length vs)) s'" and "unat (rc - of_nat (length vs)) = unat rc - length vs"
proof -
  have l: "length vs < 4294967296" using assms(3) unsigned_less [of rc, where ?'a = nat] by simp
  then have "(of_nat (length vs) :: u32) \<le> rc" using assms(3) by (simp add: word_le_nat_alt unat_of_nat_len32)
  then show u: "unat (rc - of_nat (length vs)) = unat rc - length vs"
    using l by (simp add: unat_sub unat_of_nat_len32)
  obtain ms where ms: "logged (snd s) ms (snd s')" "length ms \<le> PAGE_NUM_PER_BLOCK * length vs"
     "capacity (fst s') + length ms = capacity (fst s) + PAGE_NUM_PER_BLOCK * length vs"
    using assms(1) by (auto simp: gc_prog_def)
  have "PAGE_NUM_PER_BLOCK * length vs + PAGE_NUM_PER_BLOCK * (unat rc - length vs) = PAGE_NUM_PER_BLOCK * unat rc"
    using assms(3) by (simp add: algebra_simps)
  then have "out_room (length ms + PAGE_NUM_PER_BLOCK * (unat rc - length vs)) (snd s)"
    using assms(2) ms(2) by (auto simp: ready_def elim: out_room_mono)
  then have "out_room (PAGE_NUM_PER_BLOCK * (unat rc - length vs)) (snd s')" by (rule logged_room [OF ms(1)])
  then show "ready (rc - of_nat (length vs)) s'"
    using assms ms by (auto simp: ready_def u gc_prog_def)
qed

lemma filter_mono_length: "(\<And>x. P x \<Longrightarrow> Q x) \<Longrightarrow> length (filter P xs) \<le> length (filter Q xs)"
  by (induction xs) (simp_all add: le_SucI)

lemma valid_garbage:
  assumes "gc_inv gc" and "i < GC_BUCKET_NUM" and "v \<in> set (bucket gc i)"
  shows "length (valid_pages (get_block gc v) [0..<PAGE_NUM_PER_BLOCK]) + unat (garbageCnt (get_block gc v)) \<le> PAGE_NUM_PER_BLOCK"
proof -
  have st: "gc_struct gc" using assms(1) by (simp add: gc_inv_def)
  have "block_ok v (get_block gc v)" using st bucket_facts(3) [OF st assms(2,3)] by (simp add: gc_struct_defs)
  then have b: "length (pages (get_block gc v)) = PAGE_NUM_PER_BLOCK"
      "unat (garbageCnt (get_block gc v)) = invalid_count (pages (get_block gc v))" by (simp_all add: block_ok_def)
  let ?ps = "pages (get_block gc v)"
  have m: "map (\<lambda>p. ?ps ! p) [0..<PAGE_NUM_PER_BLOCK] = ?ps" using b(1) map_nth [of ?ps] by simp
  have "length (valid_pages (get_block gc v) [0..<PAGE_NUM_PER_BLOCK]) =
      length (filter (\<lambda>q. pi_status q = VALID) (map (\<lambda>p. ?ps ! p) [0..<PAGE_NUM_PER_BLOCK]))"
    by (simp only: valid_pages_def length_map filter_map o_def)
  moreover have "length (filter (\<lambda>q. pi_status q = VALID) ?ps) + length (filter (\<lambda>q. pi_status q = INVALID) ?ps) \<le> length ?ps"
  proof -
    have "length (filter (\<lambda>q. pi_status q = INVALID) ?ps) \<le> length (filter (\<lambda>q. pi_status q \<noteq> VALID) ?ps)"
      by (rule filter_mono_length) simp
    then show ?thesis using sum_length_filter_compl [of "\<lambda>q. pi_status q = VALID" ?ps] by linarith
  qed
  ultimately show ?thesis using b m by (simp add: invalid_count_def)
qed

lemma gc_block_prog:
  assumes "ready rc (gc, out)" and "rc \<noteq> 0" and "i < GC_BUCKET_NUM" and "v \<in> set (bucket gc i)"
  shows "\<exists>s'. gc_block v (rc - 1) (gc, out) = Inr s' \<and> gc_prog (unat rc) [v] (gc, out) s' \<and> ready (rc - 1) s' \<and>
     (\<forall>j < GC_BUCKET_NUM. \<exists>ys. bucket (fst s') j = (if j = i then remove1 v (bucket gc i) else bucket gc j) @ ys)"
proof -
  have u: "unat (rc - 1) = unat rc - 1" "0 < unat rc" using assms(2) by (simp_all add: unat_dec32 unat_gt_0)
  have a: "gc_inv gc" "PAGE_NUM_PER_BLOCK \<le> capacity gc" "unat (rc - 1) < length (eraseBlockId out)"
    using assms(1) u by (auto simp: ready_def)
  have "out_room PAGE_NUM_PER_BLOCK out"
    using assms(1) u(2) by (auto simp: ready_def elim!: out_room_mono)
  from gc_block_spec [OF a(1) assms(3,4) a(2) this a(3)]
  obtain ms gc' out' where 1: "gc_block v (rc - 1) (gc, out) = Inr (gc', out')" "gc_inv gc'"
     "map fst ms = map (here v) (valid_pages (get_block gc v) [0..<PAGE_NUM_PER_BLOCK])"
     "logged out ms out'" "eraseBlockId out' = (eraseBlockId out)[unat (rc - 1) := of_nat v]"
     "space_abs gc' = replay ms (space_abs gc)" "capacity gc' + length ms = capacity gc + PAGE_NUM_PER_BLOCK"
     "hostBlock gc' = hostBlock gc" "hostIOSeqNo gc' = hostIOSeqNo gc" "nblocks gc' = nblocks gc"
     "\<forall>j < GC_BUCKET_NUM. \<exists>ys. bucket gc' j = (if j = i then remove1 v (bucket gc i) else bucket gc j) @ ys"
     "safe_log ms (space_abs gc)" "same_cursor (hostBlock gc) gc gc'"
    by blast
  have "length ms = length (valid_pages (get_block gc v) [0..<PAGE_NUM_PER_BLOCK])"
    using 1(3) by (metis length_map)
  then have lm: "length ms \<le> PAGE_NUM_PER_BLOCK"
    using valid_pages_length [of "get_block gc v" "[0..<PAGE_NUM_PER_BLOCK]"] by simp
  have "eraseBlockId out' = take (unat rc - 1) (eraseBlockId out) @ [of_nat v] @ drop (unat rc) (eraseBlockId out)"
    using 1(5) a(3) u by (simp add: upd_conv_take_nth_drop Suc_pred)
  moreover have "length ms + unat (garbageCnt (get_block gc v)) \<le> PAGE_NUM_PER_BLOCK"
    using 1(3) valid_garbage [OF a(1) assms(3,4)] by (metis length_map)
  ultimately have p: "gc_prog (unat rc) [v] (gc, out) (gc', out')"
    using 1 lm by (auto simp: gc_prog_def intro!: exI [of _ ms])
  have "ready (rc - 1) (gc', out')" using gc_prog_ready(1) [OF p assms(1)] u by simp
  then show ?thesis using 1(1,11) p by auto
qed

lemma first_in_append: "first_in (xs @ ys) = (if xs = [] then first_in ys else first_in xs)"
  by (cases xs) simp_all

lemma gc_bucket_spec:
  assumes "ready rc s" and "rc \<noteq> 0" and "i < GC_BUCKET_NUM"
  shows "\<exists>vs s'. gc_bucket i (first_in (bucket (fst s) i)) (first_in (tl (bucket (fst s) i))) rc s
       = Inr (rc - of_nat (length vs), s') \<and> gc_prog (unat rc) vs s s' \<and> length vs \<le> unat rc \<and>
     (length vs = unat rc \<or> length (bucket (fst s) i) \<le> length vs) \<and>
     (\<forall>j < GC_BUCKET_NUM. j \<noteq> i \<longrightarrow> length (bucket (fst s) j) \<le> length (bucket (fst s') j)) \<and>
     take 1 vs = take 1 (bucket (fst s) i) \<and> (vs = [] \<longrightarrow> s' = s)"
  using assms
proof (induction "unat rc" arbitrary: rc s rule: less_induct)
  case less
  obtain gc out where s: "s = (gc, out)" by (cases s)
  have inv: "gc_inv gc" using less.prems(1) s by (simp add: ready_def)
  have pos: "0 < unat rc" using less.prems(2) by (simp add: unat_gt_0)
  show ?case
  proof (cases "bucket gc i")
    case Nil
    then show ?thesis using s gc_prog_refl [of s] inv
      by (intro exI [of _ "[]"] exI [of _ s]) (simp add: gc_bucket.simps)
  next
    case (Cons a t)
    then have a: "a \<in> set (bucket gc i)" by simp
    obtain s1 where 1: "gc_block a (rc - 1) (gc, out) = Inr s1" "gc_prog (unat rc) [a] (gc, out) s1" "ready (rc - 1) s1"
       "\<forall>j < GC_BUCKET_NUM. \<exists>ys. bucket (fst s1) j = (if j = i then remove1 a (bucket gc i) else bucket gc j) @ ys"
      using gc_block_prog [OF _ less.prems(2,3) a, of out] less.prems(1) s by blast
    obtain ys where ys: "bucket (fst s1) i = t @ ys" using 1(4) less.prems(3) Cons by auto
    have other: "length (bucket gc j) \<le> length (bucket (fst s1) j)" if "j < GC_BUCKET_NUM" "j \<noteq> i" for j
      using 1(4) that by fastforce
    show ?thesis
    proof (cases "rc - 1 = 0 \<or> t = []")
      case True
      have e: "gc_bucket i (Some a) (first_in t) rc (gc, out) = Inr (rc - 1, s1)"
      proof (cases "rc - 1 = 0")
        case True
        then show ?thesis using 1(1) by (simp add: gc_bucket.simps)
      next
        case False
        then have "t = []" using True by simp
        then show ?thesis using False by (simp add: gc_bucket.simps 1(1))
      qed
      have l: "unat rc = Suc 0 \<or> t = []" using True unat_dec32 [OF less.prems(2)] pos by auto
      show ?thesis using e 1(2) other l pos s Cons
        by (intro exI [of _ "[a]"] exI [of _ s1]) auto
    next
      case False
      then obtain n t' where t: "t = n # t'" by (cases t) auto
      have "gc_inv (fst s1)" using 1(3) by (simp add: ready_def)
      then have "distinct (bucket (fst s1) i)"
        using bucket_facts(6) [of "fst s1" i n] less.prems(3) ys t by (simp add: gc_inv_def)
      then have nx: "next_in (bucket (fst s1) i) n = first_in (t' @ ys)" using ys t by (simp add: next_in_head)
      have f1: "first_in (bucket (fst s1) i) = Some n" "tl (bucket (fst s1) i) = t' @ ys" using ys t by simp_all
      have e: "gc_bucket i (Some a) (Some n) rc (gc, out)
          = gc_bucket i (Some n) (first_in (t' @ ys)) (rc - 1) s1"
        by (subst gc_bucket.simps) (use False 1(1) nx in simp)
      have "unat (rc - 1) < unat rc" using pos less.prems(2) by (simp add: unat_dec32)
      from less.hyps [OF this 1(3) _ less.prems(3)] False
      obtain vs s2 where 2: "gc_bucket i (Some n) (first_in (t' @ ys)) (rc - 1) s1 = Inr (rc - 1 - of_nat (length vs), s2)"
         "gc_prog (unat (rc - 1)) vs s1 s2" "length vs \<le> unat (rc - 1)"
         "length vs = unat (rc - 1) \<or> length (bucket (fst s1) i) \<le> length vs"
         "\<forall>j < GC_BUCKET_NUM. j \<noteq> i \<longrightarrow> length (bucket (fst s1) j) \<le> length (bucket (fst s2) j)"
        unfolding f1 by blast
      have u: "unat (rc - 1) = unat rc - 1" using less.prems(2) by (simp add: unat_dec32)
      have "unat rc \<le> length (eraseBlockId out)" using less.prems(1) s by (simp add: ready_def)
      then have p: "gc_prog (unat rc) ([a] @ vs) (gc, out) s2"
        using 1(2) 2(2) pos u by (intro gc_prog_trans) auto
      have r: "gc_bucket i (Some a) (Some n) rc (gc, out) = Inr (rc - of_nat (length ([a] @ vs)), s2)"
        using e 2(1) by (simp add: algebra_simps)
      have l1: "length ([a] @ vs) \<le> unat rc" using 2(3) u pos by simp
      have l2: "length ([a] @ vs) = unat rc \<or> length (bucket gc i) \<le> length ([a] @ vs)"
        using 2(4) u pos Cons ys by auto
      have l3: "\<forall>j < GC_BUCKET_NUM. j \<noteq> i \<longrightarrow> length (bucket gc j) \<le> length (bucket (fst s2) j)"
        using other 2(5) order_trans by blast
      have h: "first_in (bucket (fst s) i) = Some a" "first_in (tl (bucket (fst s) i)) = Some n"
        using s Cons t by simp_all
      have h': "first_in (bucket gc i) = Some a" "first_in (tl (bucket gc i)) = Some n" using h s by simp_all
      have l4: "take 1 ([a] @ vs) = take 1 (bucket gc i)" "[a] @ vs \<noteq> []" using Cons by simp_all
      show ?thesis unfolding s fst_conv h' using r p l1 l2 l3 l4 by blast
    qed
  qed
qed

definition lower_full :: "GCModule \<Rightarrow> nat \<Rightarrow> nat" where
  "lower_full gc i = (\<Sum>j \<le> i. length (bucket gc j))"

lemma bucketCnt_zero:
  assumes "gc_inv gc" and "i < GC_BUCKET_NUM"
  shows "arr_get (gb_blockCnt (garbageBuckets gc)) i = Inr (of_nat (length (bucket gc i)))"
    and "(of_nat (length (bucket gc i)) :: u32) = 0 \<longleftrightarrow> bucket gc i = []"
proof -
  have st: "gc_struct gc" using assms(1) by (simp add: gc_inv_def)
  then show "arr_get (gb_blockCnt (garbageBuckets gc)) i = Inr (of_nat (length (bucket gc i)))"
    using assms(2) by (simp add: gc_struct_defs)
  have "length (bucket gc i) \<le> nblocks gc"
  proof (cases "bucket gc i")
    case (Cons a t)
    then have d: "distinct (bucket gc i)" using bucket_facts(6) [OF st assms(2), of a] by simp
    have "set (bucket gc i) \<subseteq> {..<nblocks gc}" using bucket_facts(3) [OF st assms(2)] by auto
    then have "card (set (bucket gc i)) \<le> nblocks gc" using card_mono [of "{..<nblocks gc}"] by simp
    then show ?thesis using d by (simp add: distinct_card)
  qed simp
  then have "length (bucket gc i) < 4294967296" using st by (simp add: gc_struct_defs)
  then show "(of_nat (length (bucket gc i)) :: u32) = 0 \<longleftrightarrow> bucket gc i = []"
    using of_nat_u32_inject [of "length (bucket gc i)" 0] by simp
qed

lemma next_of_first:
  assumes "gc_inv gc" and "i < GC_BUCKET_NUM"
  shows "Option.bind (first_in (bucket gc i)) (next_in (bucket gc i)) = first_in (tl (bucket gc i))"
proof (cases "bucket gc i")
  case (Cons a t)
  then have "distinct (bucket gc i)" using bucket_facts(6) [of gc i a] assms by (simp add: gc_inv_def)
  then show ?thesis using Cons by (simp add: next_in_head)
qed simp

text \<open>One turn of the outer loop, for the two equations of \<open>gc_scan\<close>.\<close>

lemma scan_step:
  assumes "ready rc s" and "rc \<noteq> 0" and "i < GC_BUCKET_NUM"
  shows "\<exists>vs s'. bindE (arr_get (gb_blockCnt (garbageBuckets (fst s))) i) (\<lambda>c.
        bindE (if c = 0 then Inr (rc, s)
             else gc_bucket i (first_in (bucket (fst s) i))
                    (Option.bind (first_in (bucket (fst s) i)) (next_in (bucket (fst s) i))) rc s) f)
      = f (rc - of_nat (length vs), s') \<and> gc_prog (unat rc) vs s s' \<and> length vs \<le> unat rc \<and>
     (length vs = unat rc \<or> length (bucket (fst s) i) \<le> length vs) \<and>
     (\<forall>j < GC_BUCKET_NUM. j \<noteq> i \<longrightarrow> length (bucket (fst s) j) \<le> length (bucket (fst s') j)) \<and>
     take 1 vs = take 1 (bucket (fst s) i) \<and> (vs = [] \<longrightarrow> s' = s)"
proof -
  have inv: "gc_inv (fst s)" using assms(1) by (simp add: ready_def)
  note z = bucketCnt_zero [OF inv assms(3)]
  show ?thesis
  proof (cases "bucket (fst s) i = []")
    case True
    then show ?thesis using z gc_prog_refl [OF inv] by (intro exI [of _ "[]"] exI [of _ s]) simp
  next
    case False
    obtain vs s' where r: "gc_bucket i (first_in (bucket (fst s) i)) (first_in (tl (bucket (fst s) i))) rc s
       = Inr (rc - of_nat (length vs), s')" "gc_prog (unat rc) vs s s' \<and> length vs \<le> unat rc \<and>
     (length vs = unat rc \<or> length (bucket (fst s) i) \<le> length vs) \<and>
     (\<forall>j < GC_BUCKET_NUM. j \<noteq> i \<longrightarrow> length (bucket (fst s) j) \<le> length (bucket (fst s') j)) \<and>
     take 1 vs = take 1 (bucket (fst s) i) \<and> (vs = [] \<longrightarrow> s' = s)"
      using gc_bucket_spec [OF assms] by blast
    show ?thesis unfolding next_of_first [OF inv assms(3)]
      by (intro exI [of _ vs] exI [of _ s'] conjI) (use r False z in \<open>simp_all\<close>)
  qed
qed

text \<open>The first block is at the head of the highest bucket in use, of those up to \<open>i\<close>.\<close>

definition top_first :: "nat \<Rightarrow> nat list \<Rightarrow> GCModule \<Rightarrow> bool" where
  "top_first i vs gc \<longleftrightarrow> (\<exists>j v t u. j \<le> i \<and> vs = v # t \<and> bucket gc j = v # u \<and> (\<forall>k. j < k \<and> k \<le> i \<longrightarrow> bucket gc k = []))"

lemma top_first_Suc: "top_first i vs gc \<Longrightarrow> bucket gc (Suc i) = [] \<Longrightarrow> top_first (Suc i) vs gc"
  unfolding top_first_def by (metis le_Suc_eq)

lemma gc_scan_spec:
  assumes "ready rc s" and "i < GC_BUCKET_NUM" and "unat rc \<le> lower_full (fst s) i"
  shows "\<exists>vs s'. gc_scan i rc s = Inr s' \<and> gc_prog (unat rc) vs s s' \<and> length vs = unat rc \<and>
     (rc \<noteq> 0 \<longrightarrow> top_first i vs (fst s))"
  using assms
proof (induction i arbitrary: rc s)
  case 0
  show ?case
  proof (cases "rc = 0")
    case True
    then show ?thesis using 0(1) gc_prog_refl [of s] by (auto simp: ready_def)
  next
    case False
    from scan_step [OF 0(1) this 0(2), of "\<lambda>(rc', s'). if rc' = 0 then Inr s' else Inl OutOfBounds"]
    obtain vs s' where 1: "gc_scan 0 rc s = (if rc - of_nat (length vs) = 0 then Inr s' else Inl OutOfBounds)"
       "gc_prog (unat rc) vs s s'" "length vs \<le> unat rc" "length vs = unat rc \<or> length (bucket (fst s) 0) \<le> length vs"
       "take 1 vs = take 1 (bucket (fst s) 0)"
      using False by auto
    have l: "length vs = unat rc" using 1(3,4) 0(3) by (auto simp: lower_full_def)
    moreover from this have "rc - of_nat (length vs) = 0" by simp
    moreover have "top_first 0 vs (fst s)"
      using l False 1(5) by (cases vs; cases "bucket (fst s) 0") (auto simp: unat_eq_0 top_first_def)
    ultimately show ?thesis using 1(1,2) by auto
  qed
next
  case (Suc i)
  show ?case
  proof (cases "rc = 0")
    case True
    then show ?thesis using Suc.prems(1) gc_prog_refl [of s] by (auto simp: ready_def)
  next
    case False
    from scan_step [OF Suc.prems(1) this Suc.prems(2), of "\<lambda>(rc', s'). gc_scan i rc' s'"]
    obtain vs s' where "bindE (arr_get (gb_blockCnt (garbageBuckets (fst s))) (Suc i)) (\<lambda>c.
        bindE (if c = 0 then Inr (rc, s)
             else gc_bucket (Suc i) (first_in (bucket (fst s) (Suc i)))
                    (Option.bind (first_in (bucket (fst s) (Suc i))) (next_in (bucket (fst s) (Suc i)))) rc s)
          (\<lambda>(rc', s'). gc_scan i rc' s')) = gc_scan i (rc - of_nat (length vs)) s'"
       and 1: "True"
       "gc_prog (unat rc) vs s s'" "length vs \<le> unat rc"
       "length vs = unat rc \<or> length (bucket (fst s) (Suc i)) \<le> length vs"
       "\<forall>j < GC_BUCKET_NUM. j \<noteq> Suc i \<longrightarrow> length (bucket (fst s) j) \<le> length (bucket (fst s') j)"
       and 3: "take 1 vs = take 1 (bucket (fst s) (Suc i))" "vs = [] \<Longrightarrow> s' = s"
      by (simp only: prod.case) blast
    then have sc: "gc_scan (Suc i) rc s = gc_scan i (rc - of_nat (length vs)) s'"
      using False by simp
    note rd = gc_prog_ready [OF 1(2) Suc.prems(1) 1(3)]
    have "lower_full (fst s) i \<le> lower_full (fst s') i"
      unfolding lower_full_def using 1(5) Suc.prems(2) by (intro sum_mono) auto
    moreover have "lower_full (fst s) (Suc i) = lower_full (fst s) i + length (bucket (fst s) (Suc i))"
      by (simp add: lower_full_def)
    ultimately have "unat (rc - of_nat (length vs)) \<le> lower_full (fst s') i"
      using 1(3,4) Suc.prems(3) rd(2) by auto
    then obtain ws s2 where 2: "gc_scan i (rc - of_nat (length vs)) s' = Inr s2"
       "gc_prog (unat rc - length vs) ws s' s2" "length ws = unat rc - length vs"
       "rc - of_nat (length vs) \<noteq> 0 \<longrightarrow> top_first i ws (fst s')"
      using Suc.IH [OF rd(1)] Suc.prems(2) rd(2) by auto
    have "unat rc \<le> length (eraseBlockId (snd s))" using Suc.prems(1) by (simp add: ready_def)
    then have "gc_prog (unat rc) (vs @ ws) s s2" by (rule gc_prog_trans [OF 1(2) 2(2) 1(3) _ 3(2)])
    moreover have "top_first (Suc i) (vs @ ws) (fst s)"
    proof (cases vs)
      case Nil
      then have "bucket (fst s) (Suc i) = []" using 3(1) by (cases "bucket (fst s) (Suc i)") simp_all
      then show ?thesis using 2(4) 3(2) Nil False by (simp add: top_first_Suc)
    next
      case (Cons v vs')
      then show ?thesis using 3(1) by (cases "bucket (fst s) (Suc i)") (auto simp: top_first_def)
    qed
    ultimately show ?thesis using sc 1(3) 2(1,3) by (intro exI [of _ "vs @ ws"] exI [of _ s2]) simp
  qed
qed

lemma gc_scan_nothing:
  assumes "gc_inv (fst s)" and "i < GC_BUCKET_NUM" and "lower_full (fst s) i = 0" and "rc \<noteq> 0"
  shows "gc_scan i rc s = Inl OutOfBounds"
  using assms(2,3)
proof (induction i)
  case 0
  then show ?case using assms(4) bucketCnt_zero [OF assms(1), of 0] by (simp add: lower_full_def)
next
  case (Suc i)
  then show ?case using assms(4) bucketCnt_zero [OF assms(1), of "Suc i"] by (simp add: lower_full_def)
qed

subsection \<open>\<open>GarbageCollection\<close>\<close>

definition full_blocks :: "GCModule \<Rightarrow> nat set" where
  "full_blocks gc = {a. a < nblocks gc \<and> blk_status (get_block gc a) = FULL}"

lemma full_blocks_buckets:
  assumes "gc_inv gc"
  shows "full_blocks gc = set (concat (gb_buckets (garbageBuckets gc)))"
proof -
  have st: "gc_struct gc" using assms by (simp add: gc_inv_def)
  have l: "length (gb_buckets (garbageBuckets gc)) = GC_BUCKET_NUM" using buckets_lengths [OF st] by simp
  show ?thesis
  proof (rule equalityI; rule subsetI)
    fix a assume "a \<in> full_blocks gc"
    then obtain i where "i < GC_BUCKET_NUM" "a \<in> set (bucket gc i)"
      using full_bucket [OF st, of a] by (auto simp: full_blocks_def)
    then show "a \<in> set (concat (gb_buckets (garbageBuckets gc)))" using bucket_subset [of i gc] l by auto
  next
    fix a assume "a \<in> set (concat (gb_buckets (garbageBuckets gc)))"
    then obtain i where "i < GC_BUCKET_NUM" "a \<in> set (bucket gc i)" using in_some_bucket l by metis
    then show "a \<in> full_blocks gc"
      using status_bucket [OF st, of i a] bucket_facts(3) [OF st, of i a] by (simp add: full_blocks_def full_in_def)
  qed
qed

lemma card_full_blocks:
  assumes "gc_inv gc"
  shows "card (full_blocks gc) = lower_full gc (GC_BUCKET_NUM - 1)"
proof -
  have st: "gc_struct gc" using assms by (simp add: gc_inv_def)
  let ?bs = "gb_buckets (garbageBuckets gc)"
  have l: "length ?bs = GC_BUCKET_NUM" using buckets_lengths [OF st] by simp
  have "card (full_blocks gc) = length (concat ?bs)"
    using full_blocks_buckets [OF assms] distinct_card [OF gc_places(8) [OF st]] by simp
  also have "\<dots> = (\<Sum>j < GC_BUCKET_NUM. length (?bs ! j))"
    by (simp add: length_concat sum_list_sum_nth l atLeast0LessThan)
  also have "{..<GC_BUCKET_NUM} = {..GC_BUCKET_NUM - 1}" by auto
  finally show ?thesis by (simp add: lower_full_def)
qed

lemma capacity_freeQ: "freeQ gc \<noteq> [] \<Longrightarrow> PAGE_NUM_PER_BLOCK \<le> capacity gc"
  by (cases "freeQ gc") (simp_all add: capacity_def)

theorem GarbageCollection_spec:
  assumes "ready n (gc, out)" and "unat n \<le> card (full_blocks gc)"
  shows "\<exists>vs gc' out'. GarbageCollection gc n out = Inr (gc', out') \<and> gc_prog (unat n) vs (gc, out) (gc', out') \<and>
     length vs = unat n \<and> (n \<noteq> 0 \<longrightarrow> top_first (GC_BUCKET_NUM - 1) vs gc)"
proof -
  have "gc_inv gc" using assms(1) by (simp add: ready_def)
  then have "unat n \<le> lower_full (fst (gc, out)) (GC_BUCKET_NUM - 1)"
    using assms(2) card_full_blocks by simp
  from gc_scan_spec [OF assms(1) _ this]
  show ?thesis by (auto simp: GarbageCollection_def)
qed

lemma GarbageCollection_nothing:
  assumes "gc_inv gc" and "full_blocks gc = {}" and "n \<noteq> 0"
  shows "GarbageCollection gc n out = Inl OutOfBounds"
  using gc_scan_nothing [of "(gc, out)" "GC_BUCKET_NUM - 1" n] assms card_full_blocks [OF assms(1)]
  by (simp add: GarbageCollection_def)

text \<open>A run of one block takes the block at the head of the highest bucket in use.\<close>

lemma gc_scan_empty_above:
  assumes "gc_inv (fst s)" and "i < GC_BUCKET_NUM" and "bucket (fst s) i = []" and "rc \<noteq> 0" and "i = Suc k"
  shows "gc_scan i rc s = gc_scan k rc s"
  using assms bucketCnt_zero [OF assms(1,2)] by simp

lemma gc_scan_one:
  assumes "ready 1 s" and "i < GC_BUCKET_NUM" and "bucket (fst s) i = v # vs"
  shows "gc_scan i 1 s = gc_block v 0 s"
proof -
  have inv: "gc_inv (fst s)" using assms(1) by (simp add: ready_def)
  note z = bucketCnt_zero [OF inv assms(2)]
  have nz: "(of_nat (length (bucket (fst s) i)) :: u32) \<noteq> 0" using z(2) assms(3) by simp
  have v: "v \<in> set (bucket (fst s) i)" using assms(3) by simp
  obtain s' where r: "gc_block v 0 s = Inr s'"
    using gc_block_prog [of 1 "fst s" "snd s" i v] assms(1,2) v by auto
  have "gc_bucket i (Some v) nx 1 s = Inr (0, s')" for nx
    using r by (simp add: gc_bucket.simps)
  moreover have "gc_scan k 0 s' = Inr s'" for k by (cases k) simp_all
  ultimately show ?thesis using z(1) nz assms(3) r by (cases i) simp_all
qed

theorem GarbageCollection_greedy:
  assumes "ready 1 (gc, out)" and "i < GC_BUCKET_NUM" and "bucket gc i = v # vs"
    and "\<And>j. i < j \<Longrightarrow> j < GC_BUCKET_NUM \<Longrightarrow> bucket gc j = []"
  shows "GarbageCollection gc 1 out = gc_block v 0 (gc, out)"
proof -
  have inv: "gc_inv gc" using assms(1) by (simp add: ready_def)
  have "i \<le> k \<Longrightarrow> k < GC_BUCKET_NUM \<Longrightarrow> gc_scan k 1 (gc, out) = gc_scan i 1 (gc, out)" for k
  proof (induction k)
    case (Suc k)
    show ?case
    proof (cases "i = Suc k")
      case False
      then have "bucket gc (Suc k) = []" using Suc.prems assms(4) by simp
      then have "gc_scan (Suc k) 1 (gc, out) = gc_scan k 1 (gc, out)"
        using gc_scan_empty_above [of "(gc, out)" "Suc k" 1 k] inv Suc.prems by simp
      then show ?thesis using Suc False by simp
    qed simp
  qed simp
  from this [of "GC_BUCKET_NUM - 1"]
  have "GarbageCollection gc 1 out = gc_scan i 1 (gc, out)" using assms(2) by (simp add: GarbageCollection_def)
  then show ?thesis using gc_scan_one [OF assms(1,2)] assms(3) by simp
qed

end
