(* ===== verification/GC_Create.thy ===== *)
theory GC_Create
  imports GC_Collect
begin

text \<open>
  Creation of the translation layer establishes its invariant, and the sizes it reports are
  those of the abstract index and of the number of blocks.
\<close>

definition created :: "nat \<Rightarrow> GCModule \<Rightarrow> bool" where
  "created k gc \<longleftrightarrow> blocks gc = map (\<lambda>i. zero_block (of_nat i)) [0..<k] \<and> freeQ gc = rev [0..<k] \<and>
     freeQsize gc = of_nat k \<and> key_inv bytes_of_u32 (blockIndexer gc) \<and>
     key_abs bytes_of_u32 (blockIndexer gc) = (\<lambda>x. if unat x < k then Some (unat x) else None) \<and>
     hostBlock gc = None \<and> gcBlock gc = None \<and>
     garbageBuckets gc = \<lparr>gb_buckets = replicate GC_BUCKET_NUM [], gb_blockCnt = replicate GC_BUCKET_NUM 0\<rparr>"

lemma create_blocks_created:
  assumes "created k gc" and "k + n < 4294967296"
  shows "\<exists>gc'. create_blocks [k..<k + n] gc = Inr gc' \<and> created (k + n) gc' \<and>
     spaceIndexer gc' = spaceIndexer gc \<and> hostIOSeqNo gc' = hostIOSeqNo gc"
  using assms
proof (induction n arbitrary: k gc)
  case 0
  then show ?case by simp
next
  case (Suc n)
  have k: "unat (of_nat k :: u32) = k" using Suc.prems(2) by (simp add: unat_of_nat_len32)
  have nb: "nblocks gc = k" using Suc.prems(1) by (simp add: created_def)
  have "key_abs bytes_of_u32 (blockIndexer gc) (of_nat k) = None" using Suc.prems(1) k by (simp add: created_def)
  then obtain bi where bi: "key_insert bytes_of_u32 (blockIndexer gc) (of_nat k) k = Inr bi"
      "key_inv bytes_of_u32 bi" "key_abs bytes_of_u32 bi = (key_abs bytes_of_u32 (blockIndexer gc))(of_nat k \<mapsto> k)"
    using idx32.insertKV [of "blockIndexer gc" "of_nat k" k] Suc.prems(1) by (auto simp: created_def)
  let ?gc1 = "gc\<lparr>blocks := blocks gc @ [zero_block (of_nat k)],
       freeQ := nblocks gc # freeQ gc, freeQsize := freeQsize gc + 1, blockIndexer := bi\<rparr>"
  have "key_abs bytes_of_u32 bi x = (if unat x < Suc k then Some (unat x) else None)" for x
  proof (cases "x = of_nat k")
    case True
    then show ?thesis using bi(3) k by simp
  next
    case False
    then have "unat x \<noteq> k" using k by (metis of_nat_unat ucast_id)
    then show ?thesis using bi(3) False Suc.prems(1) by (auto simp: created_def less_Suc_eq)
  qed
  then have "created (Suc k) ?gc1"
    using Suc.prems(1) bi(2) nb by (auto simp: created_def fun_eq_iff add.commute)
  from Suc.IH [OF this] Suc.prems(2)
  obtain gc' where "create_blocks [Suc k..<Suc k + n] ?gc1 = Inr gc'" "created (Suc k + n) gc'"
      "spaceIndexer gc' = spaceIndexer gc" "hostIOSeqNo gc' = hostIOSeqNo gc" by auto
  moreover have "[k..<k + Suc n] = k # [Suc k..<Suc k + n]" by (simp add: upt_conv_Cons)
  ultimately show ?case using bi(1) nb by simp
qed

lemma created_struct:
  assumes "created k gc" and "k < 4294967296"
  shows "gc_struct gc"
proof -
  have nb: "nblocks gc = k" using assms(1) by (simp add: created_def)
  have z: "get_block gc a = zero_block (of_nat a)" if "a < k" for a
    using assms(1) that by (simp add: created_def get_block_def)
  have "blocks_ok gc" using assms(2) nb z block_ok_zero by (simp add: blocks_ok_def)
  moreover have "bindex_ok gc" using assms(1) nb by (simp add: bindex_ok_def created_def)
  moreover have "concat (replicate m []) = ([] :: nat list)" for m by (induction m) auto
  then have "queues_ok gc"
    using assms(1) nb z by (auto simp: queues_ok_def created_def queued_def open_blocks_def)
  moreover have "buckets_ok gc" using assms(1) by (auto simp: buckets_ok_def created_def)
  ultimately show ?thesis by (simp add: gc_struct_def)
qed

theorem CreateGCModule_spec:
  assumes "indexBucketCnt conf * 100 \<noteq> 0"
  shows "\<exists>gc. CreateGCModule conf = Inr gc \<and> gc_inv gc \<and> space_abs gc = Map.empty \<and>
     nblocks gc = unat (totalBlockCnt conf) \<and> freeQ gc = rev [0..<unat (totalBlockCnt conf)] \<and>
     hostBlock gc = None \<and> gcBlock gc = None \<and> hostIOSeqNo gc = 0"
proof -
  have nz: "indexBucketCnt conf \<noteq> 0" using assms by auto
  have lt: "unat (totalBlockCnt conf) < 4294967296"
    using unsigned_less [of "totalBlockCnt conf", where ?'a = nat] by simp
  let ?gc0 = "\<lparr>spaceIndexer = CreateIndexer 8 (indexBucketCnt conf * 100),
        blockIndexer = CreateIndexer 4 (indexBucketCnt conf),
        freeQ = [], freeQsize = 0,
        garbageBuckets = \<lparr>gb_buckets = replicate GC_BUCKET_NUM [], gb_blockCnt = replicate GC_BUCKET_NUM 0\<rparr>,
        hostBlock = None, gcBlock = None, hostIOSeqNo = 0, blocks = []\<rparr>"
  have "created 0 ?gc0" by (simp add: created_def CreateIndexer_key_inv [OF nz])
  from create_blocks_created [OF this, of "unat (totalBlockCnt conf)"] lt
  obtain gc where gc: "CreateGCModule conf = Inr gc" "created (unat (totalBlockCnt conf)) gc"
      "spaceIndexer gc = CreateIndexer 8 (indexBucketCnt conf * 100)" "hostIOSeqNo gc = 0"
    by (auto simp: CreateGCModule_def)
  have st: "gc_struct gc" by (rule created_struct [OF gc(2) lt])
  have nb: "nblocks gc = unat (totalBlockCnt conf)" using gc(2) by (simp add: created_def)
  have z: "get_block gc a = zero_block (of_nat a)" if "a < nblocks gc" for a
    using gc(2) that by (simp add: created_def get_block_def)
  have sp: "space_abs gc = Map.empty" "key_inv bytes_of_u64 (spaceIndexer gc)"
    using gc(3) by (simp_all add: space_abs_def CreateIndexer_key_inv [OF assms])
  have "\<not> valid_at gc a p l" for a p l using z by (auto simp: valid_at_def)
  then have "space_rel gc {}" using sp by (simp add: space_rel_def)
  moreover have "levels_ok {} gc" using z by (simp add: levels_ok_def level_ok_def)
  moreover have "open_ok gc" using gc(2) by (simp add: open_ok_def open_blocks_def created_def)
  ultimately have "gc_inv gc" using st by (simp add: gc_inv_def)
  then show ?thesis using gc sp nb by (simp add: created_def)
qed

subsection \<open>Reported sizes\<close>

lemma GetLogicalSizeOccupied_eq:
  assumes "gc_inv gc"
  shows "GetLogicalSizeOccupied gc = of_nat (card (dom (space_abs gc)))" and "finite (dom (space_abs gc))"
  using assms idx64.size [of "spaceIndexer gc"]
  by (simp_all add: gc_inv_def space_rel_def GetLogicalSizeOccupied_def space_abs_def)

lemma bindex_dom:
  assumes "gc_struct gc"
  shows "card (dom (key_abs bytes_of_u32 (blockIndexer gc))) = nblocks gc"
proof -
  have n: "nblocks gc < 4294967296" using assms by (simp add: gc_struct_defs)
  have "dom (key_abs bytes_of_u32 (blockIndexer gc)) = of_nat ` {..<nblocks gc}"
  proof -
    have "x \<in> of_nat ` {..<nblocks gc} \<longleftrightarrow> unat x < nblocks gc" for x :: u32
    proof
      assume "unat x < nblocks gc"
      then show "x \<in> of_nat ` {..<nblocks gc}" by (intro image_eqI [of _ _ "unat x"]) simp_all
    qed (use n in \<open>auto simp: unat_of_nat_len32\<close>)
    then show ?thesis using assms by (auto simp: gc_struct_defs dom_def)
  qed
  moreover have "inj_on (of_nat :: nat \<Rightarrow> u32) {..<nblocks gc}"
    using n by (auto simp: inj_on_def of_nat_u32_inject)
  ultimately show ?thesis by (simp add: card_image)
qed

lemma GetStorageCapacity_eq:
  "gc_inv gc \<Longrightarrow> GetStorageCapacity gc = of_nat (nblocks gc * PAGE_NUM_PER_BLOCK)"
  using idx32.size [of "blockIndexer gc"] bindex_dom [of gc]
  by (simp add: GetStorageCapacity_def gc_inv_def gc_struct_defs mult.commute)

lemma GetFreeBlockNum_eq: "gc_inv gc \<Longrightarrow> GetFreeBlockNum gc = of_nat (length (freeQ gc))"
  by (simp add: GetFreeBlockNum_def gc_inv_def gc_struct_defs)

end
