(* ===== verification/GC_Refine.thy ===== *)
theory GC_Refine
  imports GC_Create
begin

text \<open>
  The translation layer refines a plain map from page addresses to data. The flash array is a
  function from physical pages to data; a host write stores at the page that \<open>GC_WriteIO\<close> returns,
  and a collection copies the pages of its two logs in order, as the callers of gc_module.c do
  with the disk. Whatever the sequence of writes, deletions and collections, the data found
  through the index are those of the last write.
\<close>

datatype 'd flash_op = OWrite u64 'd | ODelete u64 | OCollect u32

type_synonym 'd flash = "page_ref \<Rightarrow> 'd"

definition fresh_out :: "nat \<Rightarrow> GCOut" where
  "fresh_out n = \<lparr>eraseBlockId = replicate n 0, gcWriteCnt = 0,
     readPageLoc = replicate (n * PAGE_NUM_PER_BLOCK) \<lparr>pl_block = 0, pl_page = 0\<rparr>,
     writePageLoc = replicate (n * PAGE_NUM_PER_BLOCK) \<lparr>pl_block = 0, pl_page = 0\<rparr>\<rparr>"

fun flash_step :: "'d flash_op \<Rightarrow> GCModule \<times> 'd flash \<Rightarrow> fault + GCModule \<times> 'd flash" where
  "flash_step (OWrite lba d) (gc, fl) =
     bindE (GC_WriteIO gc lba 8192) (\<lambda>(loc, gc'). Inr (gc', fl(loc_pair loc := d)))"
| "flash_step (ODelete lba) (gc, fl) =
     bindE (GC_IsExist gc lba) (\<lambda>e.
     if e then bindE (GC_Delete gc lba 8192) (\<lambda>(loc, gc'). Inr (gc', fl)) else Inr (gc, fl))"
| "flash_step (OCollect n) (gc, fl) =
     bindE (GarbageCollection gc n (fresh_out (unat n))) (\<lambda>(gc', out). Inr (gc', copy_pages (move_log out) fl))"

text \<open>The specification: a map from page addresses to data.\<close>

fun store_step :: "'d flash_op \<Rightarrow> (u64 \<rightharpoonup> 'd) \<Rightarrow> u64 \<rightharpoonup> 'd" where
  "store_step (OWrite lba d) m = m(page_align lba \<mapsto> d)"
| "store_step (ODelete lba) m = m(page_align lba := None)"
| "store_step (OCollect n) m = m"

definition contents :: "GCModule \<times> 'd flash \<Rightarrow> u64 \<rightharpoonup> 'd" where
  "contents s = (\<lambda>l. map_option (snd s) (space_abs (fst s) l))"

text \<open>What an operation needs: a page to write to, or a block to copy to and enough full blocks.\<close>

fun has_room :: "'d flash_op \<Rightarrow> GCModule \<Rightarrow> bool" where
  "has_room (OWrite lba d) gc \<longleftrightarrow> hostBlock gc \<noteq> None \<or> freeQ gc \<noteq> []"
| "has_room (ODelete lba) gc \<longleftrightarrow> True"
| "has_room (OCollect n) gc \<longleftrightarrow> PAGE_NUM_PER_BLOCK \<le> capacity gc \<and> unat n \<le> card (full_blocks gc) \<and>
     unat n * PAGE_NUM_PER_BLOCK < 4294967296"

lemma fresh_out_ready:
  assumes "gc_inv gc" and "PAGE_NUM_PER_BLOCK \<le> capacity gc" and "unat n \<le> k"
    and "unat n * PAGE_NUM_PER_BLOCK < 4294967296"
  shows "ready n (gc, fresh_out k)"
  using assms by (simp add: ready_def out_room_def fresh_out_def)

lemma move_log_fresh [simp]: "move_log (fresh_out k) = []"
  by (simp add: move_log_def fresh_out_def)

lemma space_abs_injective:
  assumes "gc_inv gc" and "space_abs gc l = Some r" and "space_abs gc l' = Some r"
  shows "l = l'"
proof -
  obtain a p where r: "r = (a, p)" by (cases r)
  have "valid_at gc a p l" "valid_at gc a p l'"
    using assms space_rel_valid [of gc "{}"] by (auto simp: gc_inv_def r)
  then show ?thesis by (rule valid_at_lba_unique)
qed

lemma fresh_page_unused:
  assumes "gc_inv gc" and "pi_status (pages (get_block gc a) ! p) = WRITEABLE"
  shows "(a, p) \<notin> ran (space_abs gc)"
proof
  assume "(a, p) \<in> ran (space_abs gc)"
  then obtain l where "space_abs gc l = Some (a, p)" by (auto simp: ran_def)
  then have "valid_at gc a p l" using assms(1) space_rel_valid [of gc "{}"] by (simp add: gc_inv_def)
  then show False using assms(2) by (simp add: valid_at_def)
qed

lemma flash_collect:
  assumes "gc_inv gc" and "has_room (OCollect n :: 'd flash_op) gc"
  shows "\<exists>gc' (fl' :: 'd flash). flash_step (OCollect n) (gc, fl) = Inr (gc', fl') \<and> gc_inv gc' \<and>
     contents (gc', fl') = contents (gc, fl) \<and> nblocks gc' = nblocks gc"
proof -
  have "ready n (gc, fresh_out (unat n))" using assms by (intro fresh_out_ready) simp_all
  then obtain vs gc' out' where g: "GarbageCollection gc n (fresh_out (unat n)) = Inr (gc', out')"
      "gc_prog (unat n) vs (gc, fresh_out (unat n)) (gc', out')"
    using GarbageCollection_spec [of n gc "fresh_out (unat n)"] assms(2) by auto
  then obtain ms where ms: "logged (fresh_out (unat n)) ms out'" "space_abs gc' = replay ms (space_abs gc)"
      "safe_log ms (space_abs gc)" and iv: "gc_inv gc'" "nblocks gc' = nblocks gc"
    by (auto simp: gc_prog_def)
  have "move_log out' = ms" using ms(1) by (simp add: logged_def)
  moreover have "contents (gc', copy_pages ms fl) = contents (gc, fl)"
  proof
    fix l
    show "contents (gc', copy_pages ms fl) l = contents (gc, fl) l"
    proof (cases "space_abs gc l")
      case None
      then have "replay ms (space_abs gc) l = None" by (metis dom_replay domIff)
      then show ?thesis using None ms(2) by (simp add: contents_def)
    next
      case (Some r)
      from safe_log_data [OF ms(3) this, of fl] show ?thesis using Some ms(2) by (auto simp: contents_def)
    qed
  qed
  ultimately show ?thesis using g(1) iv by simp
qed

lemma flash_step_refines:
  assumes "gc_inv (fst s)" and "has_room op (fst s)"
  shows "\<exists>s'. flash_step op s = Inr s' \<and> gc_inv (fst s') \<and> contents s' = store_step op (contents s) \<and>
     nblocks (fst s') = nblocks (fst s)"
proof -
  obtain gc fl where s: "s = (gc, fl)" by (cases s)
  show ?thesis
  proof (cases op)
    case (OWrite lba d)
    have "hostBlock gc \<noteq> None \<or> freeQ gc \<noteq> []" using assms(2) by (simp add: s OWrite)
    then obtain a p gc' where w: "GC_WriteIO gc lba 8192 = Inr (\<lparr>pl_block = of_nat a, pl_page = of_nat p\<rparr>, gc')"
        "gc_inv gc'" "space_abs gc' = (space_abs gc)(page_align lba \<mapsto> (a, p))" "a < nblocks gc" "p < PAGE_NUM_PER_BLOCK"
        "pi_status (pages (get_block gc a) ! p) = WRITEABLE" "nblocks gc' = nblocks gc"
      using GC_WriteIO_spec [of gc lba 8192] assms(1) by (auto simp: s)
    have "a < 4294967296" using assms(1) w(4) by (simp add: s gc_inv_def gc_struct_defs)
    then have l: "loc_pair \<lparr>pl_block = of_nat a, pl_page = of_nat p\<rparr> = (a, p)"
      using loc_pair_here [of a p] w(5) by (simp add: here_def)
    have u: "(a, p) \<notin> ran (space_abs gc)" using fresh_page_unused [of gc] assms(1) w(6) by (simp add: s)
    have "contents (gc', fl((a, p) := d)) = (contents (gc, fl))(page_align lba \<mapsto> d)"
    proof
      fix l show "contents (gc', fl((a, p) := d)) l = ((contents (gc, fl))(page_align lba \<mapsto> d)) l"
        using u w(3) by (cases "space_abs gc l") (auto simp: contents_def ran_def)
    qed
    then show ?thesis using w l by (simp add: s OWrite)
  next
    case (ODelete lba)
    show ?thesis
    proof (cases "space_abs gc (page_align lba)")
      case None
      then have "contents (gc, fl) = (contents (gc, fl))(page_align lba := None)" by (auto simp: contents_def fun_eq_iff)
      then show ?thesis using None assms(1) GC_IsExist_spec [of gc lba] by (simp add: s ODelete domIff)
    next
      case (Some r)
      then obtain a p where r: "space_abs gc (page_align lba) = Some (a, p)" by (cases r) auto
      obtain gc' where "GC_Delete gc lba 8192 = Inr (\<lparr>pl_block = of_nat a, pl_page = of_nat p\<rparr>, gc')" "gc_inv gc'"
          "space_abs gc' = (space_abs gc)(page_align lba := None)" "nblocks gc' = nblocks gc"
        using GC_Delete_spec [OF _ r] assms(1) by (auto simp: s)
      moreover from this have "contents (gc', fl) = (contents (gc, fl))(page_align lba := None)"
        by (auto simp: contents_def fun_eq_iff)
      ultimately show ?thesis using r assms(1) GC_IsExist_spec [of gc lba] by (simp add: s ODelete domIff)
    qed
  next
    case (OCollect n)
    then show ?thesis using flash_collect [of gc n fl] assms by (auto simp: s simp del: has_room.simps)
  qed
qed

text \<open>Sequences of operations, each with the room it needs.\<close>

fun flash_run :: "'d flash_op list \<Rightarrow> GCModule \<times> 'd flash \<Rightarrow> fault + GCModule \<times> 'd flash" where
  "flash_run [] s = Inr s"
| "flash_run (op # ops) s = bindE (flash_step op s) (flash_run ops)"

fun roomy :: "'d flash_op list \<Rightarrow> GCModule \<times> 'd flash \<Rightarrow> bool" where
  "roomy [] s \<longleftrightarrow> True"
| "roomy (op # ops) s \<longleftrightarrow> has_room op (fst s) \<and> (case flash_step op s of Inl _ \<Rightarrow> False | Inr s' \<Rightarrow> roomy ops s')"

lemma flash_run_refines:
  assumes "gc_inv (fst s)" and "roomy ops s"
  shows "\<exists>s'. flash_run ops s = Inr s' \<and> gc_inv (fst s') \<and> contents s' = fold store_step ops (contents s) \<and>
     nblocks (fst s') = nblocks (fst s)"
  using assms
proof (induction ops arbitrary: s)
  case (Cons op ops)
  from Cons.prems(2) have hr: "has_room op (fst s)" by simp
  obtain s1 where 1: "flash_step op s = Inr s1" "gc_inv (fst s1)" "contents s1 = store_step op (contents s)"
      "nblocks (fst s1) = nblocks (fst s)"
    using flash_step_refines [OF Cons.prems(1) hr] by blast
  then have "roomy ops s1" using Cons.prems(2) by simp
  from Cons.IH [OF 1(2) this] show ?case using 1 by auto
qed simp

lemma read_contents:
  assumes "gc_inv gc" and "contents (gc, fl) (page_align lba) = Some d"
  shows "\<exists>loc. GC_ReadIO gc lba len = Inr loc \<and> fl (loc_pair loc) = d"
proof -
  obtain a p where r: "space_abs gc (page_align lba) = Some (a, p)" "fl (a, p) = d"
    using assms(2) by (auto simp: contents_def)
  have v: "valid_at gc a p (page_align lba)" using assms(1) space_rel_valid [of gc "{}"] r(1) by (simp add: gc_inv_def)
  have "a < 4294967296" using assms(1) v by (auto simp: valid_at_def gc_inv_def gc_struct_defs)
  then have "loc_pair \<lparr>pl_block = of_nat a, pl_page = of_nat p\<rparr> = (a, p)"
    using loc_pair_here [of a p] v by (simp add: here_def valid_at_def)
  then show ?thesis using r by (simp add: GC_ReadIO_spec [OF assms(1)])
qed

subsection \<open>Counting blocks and pages\<close>

lemma card_opens_le: "card (open_blocks gc) \<le> 2"
  by (cases "hostBlock gc"; cases "gcBlock gc") (auto simp: open_blocks_def card_insert_if)

lemma block_count:
  assumes "gc_inv gc"
  shows "length (freeQ gc) + card (full_blocks gc) + card (open_blocks gc) = nblocks gc"
proof -
  have st: "gc_struct gc" using assms by (simp add: gc_inv_def)
  note pl = gc_places [OF st]
  have u: "set (freeQ gc) \<union> full_blocks gc \<union> open_blocks gc = {..<nblocks gc}"
    using queued_set [OF st] full_blocks_buckets [OF assms] by (auto simp: queued_def open_blocks_def)
  have fin: "finite (full_blocks gc)" "finite (open_blocks gc)" by (simp_all add: full_blocks_def open_blocks_def)
  have "card (set (freeQ gc) \<union> full_blocks gc \<union> open_blocks gc) =
      card (set (freeQ gc)) + card (full_blocks gc) + card (open_blocks gc)"
    using pl(1-3) fin full_blocks_buckets [OF assms] by (subst card_Un_disjoint; auto simp: card_Un_disjoint)
  then show ?thesis unfolding u using distinct_card [OF pl(7)] by simp
qed

text \<open>Live data beyond one open block force a full block.\<close>

lemma live_pages_bound:
  assumes "gc_inv gc"
  shows "card (dom (space_abs gc)) \<le> PAGE_NUM_PER_BLOCK * card (full_blocks gc \<union> open_blocks gc)"
proof -
  have st: "gc_struct gc" using assms by (simp add: gc_inv_def)
  let ?f = "\<lambda>l. the (space_abs gc l)" and ?B = "full_blocks gc \<union> open_blocks gc"
  have inj: "inj_on ?f (dom (space_abs gc))"
    by (rule inj_onI) (auto dest: space_abs_injective [OF assms])
  have "?f ` dom (space_abs gc) \<subseteq> ?B \<times> {..<PAGE_NUM_PER_BLOCK}"
  proof
    fix r assume "r \<in> ?f ` dom (space_abs gc)"
    then obtain l a p where l: "space_abs gc l = Some (a, p)" "r = (a, p)" by force
    then have v: "valid_at gc a p l" using assms space_rel_valid [of gc "{}"] by (simp add: gc_inv_def)
    then have a: "a < nblocks gc" "p < PAGE_NUM_PER_BLOCK" by (simp_all add: valid_at_def)
    have "a \<notin> set (freeQ gc)"
    proof
      assume "a \<in> set (freeQ gc)"
      then have "get_block gc a = zero_block (of_nat a)" by (rule status_free [OF st])
      then show False using v by (auto simp: valid_at_def zero_block_def zero_page_def)
    qed
    then have "a \<in> ?B" using a(1) queued_set [OF st] full_blocks_buckets [OF assms]
      by (auto simp: queued_def open_blocks_def)
    then show "r \<in> ?B \<times> {..<PAGE_NUM_PER_BLOCK}" using a(2) l(2) by simp
  qed
  moreover have "finite (?B \<times> {..<PAGE_NUM_PER_BLOCK})" by (simp add: full_blocks_def open_blocks_def)
  ultimately have "card (dom (space_abs gc)) \<le> card (?B \<times> {..<PAGE_NUM_PER_BLOCK})"
    using card_mono card_image [OF inj] by metis
  then show ?thesis by (simp add: card_cartesian_product mult.commute)
qed

lemma host_room_pos: "gc_inv gc \<Longrightarrow> 0 < host_room gc \<longleftrightarrow> hostBlock gc \<noteq> None \<or> freeQ gc \<noteq> []"
  by (cases "hostBlock gc") (auto simp: host_room_def gc_inv_def open_ok_def open_blocks_def)

lemma host_room_bound: "host_room gc \<le> PAGE_NUM_PER_BLOCK + PAGE_NUM_PER_BLOCK * length (freeQ gc)"
  by (cases "hostBlock gc") (simp_all add: host_room_def)

text \<open>As many writes as there is room for succeed without a collection.\<close>

lemma writes_roomy:
  assumes "gc_inv gc" and "length ws \<le> host_room gc"
  shows "roomy (map (\<lambda>(l, d). OWrite l d) ws) (gc, fl) \<and>
     (\<exists>gc' fl'. flash_run (map (\<lambda>(l, d). OWrite l d) ws) (gc, fl) = Inr (gc', fl') \<and> gc_inv gc' \<and>
        host_room gc' = host_room gc - length ws \<and> gcBlock gc' = gcBlock gc \<and> nblocks gc' = nblocks gc \<and>
        dom (space_abs gc') = page_align ` fst ` set ws \<union> dom (space_abs gc))"
  using assms
proof (induction ws arbitrary: gc fl)
  case (Cons w ws)
  obtain l d where w: "w = (l, d)" by (cases w)
  have r: "hostBlock gc \<noteq> None \<or> freeQ gc \<noteq> []" using host_room_pos [OF Cons.prems(1)] Cons.prems(2) by simp
  obtain loc gc1 a p where 1: "GC_WriteIO gc l 8192 = Inr (loc, gc1)" "gc_inv gc1" "host_room gc = Suc (host_room gc1)"
      "gcBlock gc1 = gcBlock gc" "nblocks gc1 = nblocks gc" "space_abs gc1 = (space_abs gc)(page_align l \<mapsto> (a, p))"
    using GC_WriteIO_spec [OF Cons.prems(1) r, of l 8192] by blast
  have "length ws \<le> host_room gc1" using Cons.prems(2) 1(3) by simp
  from Cons.IH [OF 1(2) this, of "fl(loc_pair loc := d)"]
  obtain gc' fl' where ih: "roomy (map (\<lambda>(l, d). OWrite l d) ws) (gc1, fl(loc_pair loc := d))"
      "flash_run (map (\<lambda>(l, d). OWrite l d) ws) (gc1, fl(loc_pair loc := d)) = Inr (gc', fl')" "gc_inv gc'"
      "host_room gc' = host_room gc1 - length ws" "gcBlock gc' = gcBlock gc" "nblocks gc' = nblocks gc"
      "dom (space_abs gc') = page_align ` fst ` set ws \<union> dom (space_abs gc1)"
    using 1(4,5) by metis
  have "roomy (map (\<lambda>(l, d). OWrite l d) (w # ws)) (gc, fl)" using ih(1) 1(1) r by (simp add: w)
  moreover have "flash_run (map (\<lambda>(l, d). OWrite l d) (w # ws)) (gc, fl) = Inr (gc', fl')"
    using ih(2) 1(1) by (simp add: w)
  moreover have "dom (space_abs gc') = page_align ` fst ` set (w # ws) \<union> dom (space_abs gc)"
    using ih(7) 1(6) by (auto simp: w)
  ultimately show ?case using ih(3-6) 1(3) by auto
qed simp

text \<open>
  Three blocks and 600 pages written once: one block is full, another free. It is the state on
  which the properties of garbage collection are exercised.
\<close>

definition sample_conf :: GCModuleConfigure where
  "sample_conf = \<lparr>totalBlockCnt = 3, indexBucketCnt = 1\<rparr>"

definition sample_writes :: "(u64 \<times> nat) list" where
  "sample_writes = map (\<lambda>i. (of_nat (i * 8192), i)) [0..<600]"

definition sample_ops :: "nat flash_op list" where
  "sample_ops = map (\<lambda>(l, d). OWrite l d) sample_writes"

lemma page_align_page: "k < 600 \<Longrightarrow> page_align (of_nat (k * 8192)) = of_nat (k * 8192)"
proof -
  assume "k < 600"
  have "(of_nat (k * 8192) :: u64) = push_bit 13 (of_nat k)" by (simp add: push_bit_eq_mult)
  moreover have "drop_bit 13 (push_bit 13 (of_nat k)) = (of_nat k :: u64)"
  proof (rule word_unat_eq_iff [THEN iffD2])
    have "unat (of_nat k :: u64) = k" using \<open>k < 600\<close> by (simp add: unat_of_nat take_bit_nat_eq_self)
    then show "unat (drop_bit 13 (push_bit 13 (of_nat k)) :: u64) = unat (of_nat k :: u64)"
      using \<open>k < 600\<close> by (simp add: unat_drop_bit_eq drop_bit_eq_div push_bit_eq_mult unat_word_ariths)
  qed
  ultimately show ?thesis by (simp add: page_align_def)
qed

lemma sample_pages: "page_align ` fst ` set sample_writes = (\<lambda>i. of_nat (i * 8192)) ` {..<600}"
  and card_sample_pages: "card ((\<lambda>i. of_nat (i * 8192) :: u64) ` {..<600 :: nat}) = 600"
proof -
  show "page_align ` fst ` set sample_writes = (\<lambda>i. of_nat (i * 8192)) ` {..<600}"
    unfolding sample_writes_def set_map image_image atLeast_upt [symmetric] fst_conv
    by (intro image_cong) (auto simp: page_align_page simp del: of_nat_mult)
  have "inj_on (\<lambda>i. of_nat (i * 8192) :: u64) {..<600 :: nat}"
  proof (rule inj_onI)
    fix i j :: nat assume ij: "i \<in> {..<600}" "j \<in> {..<600}" "(of_nat (i * 8192) :: u64) = of_nat (j * 8192)"
    have u: "unat (of_nat (k * 8192) :: u64) = k * 8192" if "k < 600" for k :: nat
      using that by (simp add: unat_of_nat take_bit_nat_eq_self del: of_nat_mult)
    have "i * 8192 = j * 8192" using u [of i] u [of j] ij by (metis lessThan_iff)
    then show "i = j" by simp
  qed
  then show "card ((\<lambda>i. of_nat (i * 8192) :: u64) ` {..<600 :: nat}) = 600" by (simp add: card_image)
qed

lemma sample_state:
  "\<exists>gc gc' fl'. CreateGCModule sample_conf = Inr gc \<and> roomy sample_ops (gc, \<lambda>_. 0) \<and>
     flash_run sample_ops (gc, \<lambda>_. 0) = Inr (gc', fl') \<and> gc_inv gc' \<and> PAGE_NUM_PER_BLOCK \<le> capacity gc' \<and>
     1 \<le> card (full_blocks gc') \<and> freeQ gc' \<noteq> [] \<and> dom (space_abs gc') = (\<lambda>i. of_nat (i * 8192)) ` {..<600 :: nat}"
proof -
  obtain gc where gc: "CreateGCModule sample_conf = Inr gc" "gc_inv gc" "space_abs gc = Map.empty"
      "freeQ gc = rev [0..<3]" "hostBlock gc = None" "gcBlock gc = None"
    using CreateGCModule_spec [of sample_conf] by (auto simp: sample_conf_def)
  have "host_room gc = 1536" using gc(4,5) by (simp add: host_room_def)
  moreover have "length sample_writes = 600" by (simp add: sample_writes_def)
  ultimately obtain gc' fl' where r: "roomy sample_ops (gc, \<lambda>_. 0)" "flash_run sample_ops (gc, \<lambda>_. 0) = Inr (gc', fl')"
      "gc_inv gc'" "host_room gc' = 936" "gcBlock gc' = None" "dom (space_abs gc') = (\<lambda>i. of_nat (i * 8192)) ` {..<600}"
    using writes_roomy [OF gc(2), of sample_writes "\<lambda>_. 0"] gc(3,6) sample_pages
    by (auto simp: sample_ops_def simp del: of_nat_mult)
  have fq: "freeQ gc' \<noteq> []" using r(4) host_room_bound [of gc'] by auto
  have "card (full_blocks gc' \<union> open_blocks gc') \<le> card (full_blocks gc') + card (open_blocks gc')"
    by (rule card_Un_le)
  moreover have "card (open_blocks gc') \<le> 1" using r(5) by (cases "hostBlock gc'") (simp_all add: open_blocks_def)
  moreover have "600 \<le> PAGE_NUM_PER_BLOCK * card (full_blocks gc' \<union> open_blocks gc')"
    using live_pages_bound [OF r(3)] r(6) card_sample_pages by simp
  ultimately have "1 \<le> card (full_blocks gc')" by linarith
  then show ?thesis using gc(1) r fq capacity_freeQ [OF fq] by blast
qed

end
