(* ===== verification/GC_Properties.thy ===== *)
theory GC_Properties
  imports GC_Refine
begin

text \<open>
  The properties of the translation layer (src/src/base/gc_module.c), each with a concrete state
  in which its hypotheses hold: a device of three blocks after creation, or after 600 host writes
  (\<open>sample_state\<close> of theory \<open>GC_Refine\<close>).
\<close>

lemma created_state: "\<exists>gc. CreateGCModule sample_conf = Inr gc \<and> gc_inv gc \<and> host_room gc = 1536 \<and>
   full_blocks gc = {} \<and> space_abs gc = Map.empty"
proof -
  obtain gc where gc: "CreateGCModule sample_conf = Inr gc" "gc_inv gc" "space_abs gc = Map.empty"
      "nblocks gc = 3" "freeQ gc = rev [0..<3]" "hostBlock gc = None"
    using CreateGCModule_spec [of sample_conf] by (auto simp: sample_conf_def)
  have "card (full_blocks gc) = 0" using block_count [OF gc(2)] gc(4,5) by simp
  then have "full_blocks gc = {}" by (simp add: full_blocks_def)
  moreover have "host_room gc = 1536" using gc(5,6) by (simp add: host_room_def)
  ultimately show ?thesis using gc(1-3) by blast
qed

text \<open>C1: After any sequence of host writes, deletions and garbage collections on a fresh device,
  each operation having the room it needs, every logical page is found on the physical page
  that holds the data last written to it, and a page that was deleted or never written is not
  found.\<close>

theorem flash_keeps_last_write:
  assumes "CreateGCModule conf = Inr gc" and "indexBucketCnt conf * 100 \<noteq> 0" and "roomy ops (gc, fl)"
  shows "\<exists>gc' fl'. flash_run ops (gc, fl) = Inr (gc', fl') \<and> gc_inv gc' \<and>
    (\<forall>lba d. fold store_step ops Map.empty (page_align lba) = Some d \<longleftrightarrow>
       (\<exists>loc. GC_ReadIO gc' lba 8192 = Inr loc \<and> fl' (loc_pair loc) = d))"
proof -
  have gc: "gc_inv gc" "space_abs gc = Map.empty" using CreateGCModule_spec [OF assms(2)] assms(1) by auto
  have e: "contents (gc, fl) = Map.empty" using gc(2) by (simp add: contents_def fun_eq_iff)
  obtain gc' fl' where r: "flash_run ops (gc, fl) = Inr (gc', fl')" "gc_inv gc'"
      "contents (gc', fl') = fold store_step ops Map.empty"
    using flash_run_refines [OF _ assms(3)] gc(1) e by auto
  have "contents (gc', fl') (page_align lba) = Some d \<longleftrightarrow>
     (\<exists>loc. GC_ReadIO gc' lba 8192 = Inr loc \<and> fl' (loc_pair loc) = d)" for lba d
  proof (cases "contents (gc', fl') (page_align lba)")
    case None
    then have "space_abs gc' (page_align lba) = None" by (simp add: contents_def)
    then show ?thesis using None by (simp add: GC_ReadIO_spec [OF r(2)])
  next
    case (Some d')
    from read_contents [OF r(2) this, of 8192] show ?thesis using Some by auto
  qed
  then show ?thesis using r by metis
qed

theorem flash_keeps_last_write_witness:
  "\<exists>gc gc' fl'. CreateGCModule sample_conf = Inr gc \<and> flash_run sample_ops (gc, \<lambda>_. 0) = Inr (gc', fl') \<and>
    (\<forall>lba d. fold store_step sample_ops Map.empty (page_align lba) = Some d \<longleftrightarrow>
       (\<exists>loc. GC_ReadIO gc' lba 8192 = Inr loc \<and> fl' (loc_pair loc) = d))"
proof -
  obtain gc where "CreateGCModule sample_conf = Inr gc" "roomy sample_ops (gc, \<lambda>_. 0)"
    using sample_state by blast
  then show ?thesis using flash_keeps_last_write [of sample_conf gc sample_ops "\<lambda>_. 0"]
    by (auto simp: sample_conf_def)
qed

text \<open>C23: A host write succeeds exactly when there is room, that is, an unwritten page in the open
  host block or a free block; with none left \<open>TryAllocBlockFromFreeQ\<close> takes the entry of an
  empty list (its \<open>ASSERT\<close> only prints).\<close>

theorem host_write_needs_room:
  assumes "gc_inv gc"
  shows "if host_room gc = 0 then GC_WriteIO gc lba len = Inl BadListEntry
    else \<exists>loc gc'. GC_WriteIO gc lba len = Inr (loc, gc')"
  using GC_WriteIO_spec [OF assms, of lba len] GC_WriteIO_no_space [OF assms] host_room_pos [OF assms] by auto

theorem host_write_needs_room_witness:
  "\<exists>gc. CreateGCModule sample_conf = Inr gc \<and> host_room gc = 1536 \<and> (\<exists>loc gc'. GC_WriteIO gc 0 8192 = Inr (loc, gc'))"
proof -
  obtain gc where gc: "CreateGCModule sample_conf = Inr gc" "gc_inv gc" "host_room gc = 1536"
    using created_state by blast
  then show ?thesis using host_write_needs_room [OF gc(2), of 0 8192] by auto
qed

text \<open>C14: A host write returns a page that was unwritten, points the logical page at it and leaves
  every other mapping alone; no live page moves to or is overwritten by it, and the write uses
  up exactly one page of the room.\<close>

theorem host_write_effect:
  assumes "gc_inv gc" and "0 < host_room gc"
  shows "\<exists>a p gc'. GC_WriteIO gc lba len = Inr (here a p, gc') \<and> gc_inv gc' \<and>
     a < nblocks gc \<and> p < PAGE_NUM_PER_BLOCK \<and> pi_status (pages (get_block gc a) ! p) = WRITEABLE \<and>
     (a, p) \<notin> ran (space_abs gc) \<and> space_abs gc' = (space_abs gc)(page_align lba \<mapsto> (a, p)) \<and>
     host_room gc = Suc (host_room gc') \<and> hostIOSeqNo gc' = hostIOSeqNo gc + 1"
proof -
  have "hostBlock gc \<noteq> None \<or> freeQ gc \<noteq> []" using assms(2) host_room_pos [OF assms(1)] by simp
  from GC_WriteIO_spec [OF assms(1) this, of lba len] fresh_page_unused [OF assms(1)]
  show ?thesis by (auto simp: here_def) metis
qed

theorem host_write_effect_witness:
  "\<exists>gc a p gc'. CreateGCModule sample_conf = Inr gc \<and> GC_WriteIO gc 12345 8192 = Inr (here a p, gc') \<and>
     space_abs gc' = [8192 \<mapsto> (a, p)] \<and> host_room gc' = 1535"
proof -
  obtain gc where gc: "CreateGCModule sample_conf = Inr gc" "gc_inv gc" "host_room gc = 1536" "space_abs gc = Map.empty"
    using created_state by blast
  have "page_align 12345 = 8192" by (simp add: page_align_def)
  then show ?thesis using host_write_effect [OF gc(2), of 12345 8192] gc by auto
qed

text \<open>Deletion of a mapped page returns where it was, removes exactly its mapping and keeps
  the invariant: the page becomes garbage and its block moves to the bucket of its new
  garbage count. An unmapped page is dereferenced all the same.\<close>

theorem delete_effect:
  assumes "gc_inv gc"
  shows "case space_abs gc (page_align lba) of
      None \<Rightarrow> GC_Delete gc lba len = Inl NullDeref
    | Some (a, p) \<Rightarrow> (\<exists>gc'. GC_Delete gc lba len = Inr (here a p, gc') \<and> gc_inv gc' \<and>
        space_abs gc' = (space_abs gc)(page_align lba := None) \<and> freeQ gc' = freeQ gc \<and> nblocks gc' = nblocks gc)"
proof (cases "space_abs gc (page_align lba)")
  case None
  then show ?thesis using GC_Delete_missing [OF assms] by simp
next
  case (Some r)
  then obtain a p where "space_abs gc (page_align lba) = Some (a, p)" by (cases r) auto
  then show ?thesis using GC_Delete_spec [OF assms, of lba a p len] by (auto simp: here_def)
qed

theorem delete_effect_witness:
  "\<exists>gc. gc_inv gc \<and> space_abs gc 0 \<noteq> None \<and> (\<exists>loc gc'. GC_Delete gc 7 8192 = Inr (loc, gc') \<and> space_abs gc' 0 = None)"
proof -
  obtain gc where gc: "gc_inv gc" "dom (space_abs gc) = (\<lambda>i. of_nat (i * 8192)) ` {..<600 :: nat}"
    using sample_state by blast
  have "(0 :: u64) \<in> (\<lambda>i. of_nat (i * 8192)) ` {..<600 :: nat}" by (rule image_eqI [of _ _ 0]) simp_all
  then have 0: "0 \<in> dom (space_abs gc)" using gc(2) by simp
  then obtain r where r: "space_abs gc 0 = Some r" by blast
  have "page_align 7 = 0" by (simp add: page_align_def)
  then have "\<exists>loc gc'. GC_Delete gc 7 8192 = Inr (loc, gc') \<and> space_abs gc' 0 = None"
    using delete_effect [OF gc(1), of 7 8192] r by (cases r) auto
  then show ?thesis using gc(1) r by blast
qed

text \<open>C10: Garbage collection of \<open>n\<close> blocks, with one free block to copy to and \<open>n\<close> full blocks,
  recycles exactly \<open>n\<close> blocks and reports them; no logical page is lost, the new mapping is the
  old one moved as the read and write logs say, copying in log order carries the data along, and
  the room grows by the garbage dropped.\<close>

theorem collection_correct:
  assumes "gc_inv gc" and "PAGE_NUM_PER_BLOCK \<le> capacity gc" and "unat n \<le> card (full_blocks gc)"
    and "unat n * PAGE_NUM_PER_BLOCK < 4294967296"
  shows "\<exists>vs gc' out. GarbageCollection gc n (fresh_out (unat n)) = Inr (gc', out) \<and> gc_inv gc' \<and>
     length vs = unat n \<and> eraseBlockId out = rev (map of_nat vs) \<and>
     dom (space_abs gc') = dom (space_abs gc) \<and> space_abs gc' = replay (move_log out) (space_abs gc) \<and>
     (\<forall>l r (disk :: page_ref \<Rightarrow> 'd). space_abs gc l = Some r \<longrightarrow>
        (\<exists>r'. space_abs gc' l = Some r' \<and> copy_pages (move_log out) disk r' = disk r)) \<and>
     capacity gc' + unat (gcWriteCnt out) = capacity gc + PAGE_NUM_PER_BLOCK * unat n"
proof -
  have "ready n (gc, fresh_out (unat n))" using assms by (intro fresh_out_ready) simp_all
  then obtain vs gc' out where g: "GarbageCollection gc n (fresh_out (unat n)) = Inr (gc', out)"
      "gc_prog (unat n) vs (gc, fresh_out (unat n)) (gc', out)" "length vs = unat n"
    using GarbageCollection_spec [of n gc "fresh_out (unat n)"] assms(3) by auto
  then obtain ms where ms: "logged (fresh_out (unat n)) ms out" "space_abs gc' = replay ms (space_abs gc)"
      "capacity gc' + length ms = capacity gc + PAGE_NUM_PER_BLOCK * length vs" "safe_log ms (space_abs gc)"
      "gc_inv gc'" "eraseBlockId out = take (unat n - length vs) (eraseBlockId (fresh_out (unat n))) @
        rev (map of_nat vs) @ drop (unat n) (eraseBlockId (fresh_out (unat n)))"
    by (auto simp: gc_prog_def)
  have l: "move_log out = ms" "unat (gcWriteCnt out) = length ms"
    using ms(1) by (simp_all add: logged_def) (simp add: fresh_out_def)
  have "eraseBlockId out = rev (map of_nat vs)" using ms(6) g(3) by (simp add: fresh_out_def)
  moreover have "\<exists>r'. space_abs gc' l = Some r' \<and> copy_pages (move_log out) disk r' = disk r"
    if "space_abs gc l = Some r" for l r and disk :: "page_ref \<Rightarrow> 'd"
    using safe_log_data [OF ms(4) that, of disk] ms(2) l(1) by simp
  ultimately show ?thesis using g(1,3) ms l by (intro exI [of _ vs] exI [of _ gc'] exI [of _ out]) auto
qed

theorem collection_correct_witness:
  "\<exists>gc v gc' out. gc_inv gc \<and> card (dom (space_abs gc)) = 600 \<and>
     GarbageCollection gc 1 (fresh_out 1) = Inr (gc', out) \<and> gc_inv gc' \<and>
     eraseBlockId out = [of_nat v] \<and> dom (space_abs gc') = dom (space_abs gc)"
proof -
  obtain gc where gc: "gc_inv gc" "PAGE_NUM_PER_BLOCK \<le> capacity gc" "1 \<le> card (full_blocks gc)"
      "dom (space_abs gc) = (\<lambda>i. of_nat (i * 8192)) ` {..<600 :: nat}"
    using sample_state by blast
  obtain vs gc' out where "GarbageCollection gc 1 (fresh_out 1) = Inr (gc', out)" "gc_inv gc'" "length vs = 1"
      "eraseBlockId out = rev (map of_nat vs)" "dom (space_abs gc') = dom (space_abs gc)"
    using collection_correct [of gc 1] gc by auto
  moreover from \<open>length vs = 1\<close> obtain v where "vs = [v]" by (cases vs) auto
  moreover have "card (dom (space_abs gc)) = 600" using gc(4) card_sample_pages by simp
  ultimately show ?thesis using gc(1) by (intro exI [of _ gc] exI [of _ v] exI [of _ gc'] exI [of _ out]) simp
qed

text \<open>With no full block there is nothing to collect, and the search does not stop: the loop
  condition \<open>gcBucketIdx >= 0\<close> is true for every unsigned number, so after bucket 0 the array of
  block counts is read at index 2^32 - 1.\<close>

theorem collection_runs_off:
  assumes "gc_inv gc" and "full_blocks gc = {}" and "n \<noteq> 0"
  shows "GarbageCollection gc n out = Inl OutOfBounds"
  by (rule GarbageCollection_nothing [OF assms])

theorem collection_runs_off_witness:
  "\<exists>gc. CreateGCModule sample_conf = Inr gc \<and> GarbageCollection gc 1 (fresh_out 1) = Inl OutOfBounds"
proof -
  obtain gc where gc: "CreateGCModule sample_conf = Inr gc" "gc_inv gc" "full_blocks gc = {}"
    using created_state by blast
  show ?thesis using collection_runs_off [OF gc(2,3), of 1 "fresh_out 1"] gc(1) by auto
qed

text \<open>C21: Collection is greedy: the block taken is the first of the highest bucket in use, and no
  full block has a higher garbage level.\<close>

theorem collection_greedy:
  assumes "gc_inv gc" and "PAGE_NUM_PER_BLOCK \<le> capacity gc" and "full_blocks gc \<noteq> {}"
  shows "\<exists>v \<in> full_blocks gc. GarbageCollection gc 1 (fresh_out 1) = gc_block v 0 (gc, fresh_out 1) \<and>
     (\<forall>a \<in> full_blocks gc. garbageWL (get_block gc a) \<le> garbageWL (get_block gc v))"
proof -
  have st: "gc_struct gc" using assms(1) by (simp add: gc_inv_def)
  let ?I = "{i. i < GC_BUCKET_NUM \<and> bucket gc i \<noteq> []}"
  have lvl: "\<exists>i \<in> ?I. garbageWL (get_block gc a) = of_nat i" if "a \<in> full_blocks gc" for a
    using full_bucket [OF st, of a] that by (auto simp: full_blocks_def)
  then have ne: "?I \<noteq> {}" using assms(3) by blast
  define i where "i = Max ?I"
  have i: "i \<in> ?I" unfolding i_def using ne by (intro Max_in) auto
  obtain v vs where v: "bucket gc i = v # vs" using i by (cases "bucket gc i") auto
  have top: "bucket gc j = []" if "i < j" "j < GC_BUCKET_NUM" for j
  proof (rule ccontr)
    assume "bucket gc j \<noteq> []"
    then have "j \<le> i" unfolding i_def using that(2) by (intro Max_ge) auto
    then show False using that(1) by simp
  qed
  have vi: "full_in i (get_block gc v)" using status_bucket [OF st, of i v] i v by simp
  have "v \<in> set (concat (gb_buckets (garbageBuckets gc)))"
    using bucket_subset [of i gc] buckets_lengths [OF st] i v by auto
  then have "v \<in> full_blocks gc" using full_blocks_buckets [OF assms(1)] by simp
  moreover have "ready 1 (gc, fresh_out 1)" using assms(1,2) by (intro fresh_out_ready) simp_all
  then have "GarbageCollection gc 1 (fresh_out 1) = gc_block v 0 (gc, fresh_out 1)"
    using GarbageCollection_greedy [OF _ _ v] i top by auto
  moreover have "garbageWL (get_block gc a) \<le> garbageWL (get_block gc v)" if a: "a \<in> full_blocks gc" for a
  proof -
    obtain j where j: "j \<in> ?I" "garbageWL (get_block gc a) = of_nat j" using lvl [OF a] by blast
    then have "j \<le> i" unfolding i_def by (intro Max_ge) auto
    then show ?thesis using j i vi by (simp add: full_in_def word_le_nat_alt unat_of_nat_len32)
  qed
  ultimately show ?thesis by blast
qed

theorem collection_greedy_witness:
  "\<exists>gc v. gc_inv gc \<and> v \<in> full_blocks gc \<and> GarbageCollection gc 1 (fresh_out 1) = gc_block v 0 (gc, fresh_out 1)"
proof -
  obtain gc where gc: "gc_inv gc" "PAGE_NUM_PER_BLOCK \<le> capacity gc" "1 \<le> card (full_blocks gc)"
    using sample_state by blast
  have "full_blocks gc \<noteq> {}" using gc(3) by auto
  from collection_greedy [OF gc(1,2) this] show ?thesis using gc(1) by blast
qed

lemma device_counts:
  assumes "gc_inv gc"
  shows "length (freeQ gc) + card (full_blocks gc) + card (open_blocks gc) = nblocks gc \<and> card (open_blocks gc) \<le> 2 \<and>
     GetFreeBlockNum gc = of_nat (length (freeQ gc)) \<and>
     GetLogicalSizeOccupied gc = of_nat (card (dom (space_abs gc))) \<and>
     GetStorageCapacity gc = of_nat (nblocks gc * PAGE_NUM_PER_BLOCK) \<and>
     card (dom (space_abs gc)) \<le> PAGE_NUM_PER_BLOCK * card (full_blocks gc \<union> open_blocks gc)"
  using block_count [OF assms] card_opens_le GetFreeBlockNum_eq [OF assms] GetLogicalSizeOccupied_eq(1) [OF assms]
    GetStorageCapacity_eq [OF assms] live_pages_bound [OF assms] by blast

text \<open>C20: After any sequence of host writes, deletions and garbage collections on a fresh device, each operation having
  the room it needs, the sizes that the device reports are exact: the number of its free blocks, the number of
  pages written and not deleted since, and the capacity of the blocks it was made with. Every block is free, full
  or open, at most two are open, and the live pages fit in the blocks in use.\<close>

theorem device_accounting:
  assumes "CreateGCModule conf = Inr gc" and "indexBucketCnt conf * 100 \<noteq> 0" and "roomy ops (gc, fl)"
  shows "\<exists>gc' fl'. flash_run ops (gc, fl) = Inr (gc', fl') \<and>
     GetFreeBlockNum gc' = of_nat (length (freeQ gc')) \<and>
     GetLogicalSizeOccupied gc' = of_nat (card (dom (fold store_step ops Map.empty))) \<and>
     GetStorageCapacity gc' = of_nat (unat (totalBlockCnt conf) * 512) \<and>
     length (freeQ gc') + card (full_blocks gc') + card (open_blocks gc') = unat (totalBlockCnt conf) \<and> card (open_blocks gc') \<le> 2 \<and>
     card (dom (fold store_step ops Map.empty)) \<le> 512 * card (full_blocks gc' \<union> open_blocks gc')"
proof -
  have gc: "gc_inv gc" "space_abs gc = Map.empty" "nblocks gc = unat (totalBlockCnt conf)" using CreateGCModule_spec [OF assms(2)] assms(1) by auto
  have e: "contents (gc, fl) = Map.empty" using gc(2) by (simp add: contents_def fun_eq_iff)
  obtain gc' fl' where r: "flash_run ops (gc, fl) = Inr (gc', fl')" "gc_inv gc'"
      "contents (gc', fl') = fold store_step ops Map.empty" "nblocks gc' = nblocks gc"
    using flash_run_refines [OF _ assms(3)] gc(1) e by auto
  have "dom (space_abs gc') = dom (fold store_step ops Map.empty)" unfolding r(3) [symmetric] by (auto simp: contents_def)
  then show ?thesis using r(1) device_counts [OF r(2)] r(4) gc(3) by (intro exI [of _ gc'] exI [of _ fl']) simp
qed

theorem device_accounting_witness:
  "\<exists>gc gc' fl'. CreateGCModule sample_conf = Inr gc \<and> flash_run sample_ops (gc, \<lambda>_. 0) = Inr (gc', fl') \<and>
     GetFreeBlockNum gc' = of_nat (length (freeQ gc')) \<and> GetStorageCapacity gc' = 1536"
proof -
  obtain gc where gc: "CreateGCModule sample_conf = Inr gc" "roomy sample_ops (gc, \<lambda>_. 0)"
    using sample_state by blast
  from device_accounting [OF gc(1) _ gc(2)] show ?thesis using gc(1) by (auto simp: sample_conf_def)
qed

end
