(* ===== verification/LFU.thy ===== *)
theory LFU
  imports Indexer
begin

text \<open>
  The frequency queue of src/src/utility/lfu.c and lfu.h: least-frequently-used eviction with
  ageing. Items of equal priority hang on one \<open>FreqNode\<close>; the nodes are linked in \<open>freqQ\<close>; an
  index finds the \<open>ItemNode\<close> of a key, and its back pointer \<open>pFreqHead\<close> the node it hangs on.

  Nodes are allocated and freed, so they live in stores \<open>fnodes\<close> and \<open>inodes\<close> from addresses to
  records: \<open>malloc\<close> takes the next fresh address, \<open>free\<close> removes the record, and reading a freed
  node is the fault \<open>UseAfterFree\<close>. Queues are HOL lists of addresses (theory \<open>List_Head\<close>); a
  \<open>struct list_head *\<close> into \<open>freqQ\<close> is an option, \<open>None\<close> for the queue head itself. Keys are the
  64-bit addresses that the only client uses (\<open>keySize\<close> is 8).
\<close>

record FreqNode =
  fn_freq :: u32
  pItemHead :: "nat list"

record ItemNode =
  it_key :: u64
  pFreqHead :: nat

record LFU =
  freqQ :: "nat list"
  lfuIndexer :: "nat Indexer"
  lfu_age :: u32
  lfu_keySize :: u32
  fnodes :: "nat \<rightharpoonup> FreqNode"
  inodes :: "nat \<rightharpoonup> ItemNode"
  lfu_fresh :: nat

subsection \<open>Pieces of the operations\<close>

text \<open>\<open>list_del_init(&item->itemNode)\<close>: the item leaves whichever queue it hangs on.\<close>

definition unlink_item :: "nat \<Rightarrow> LFU \<Rightarrow> LFU" where
  "unlink_item i l = l\<lparr>fnodes := \<lambda>a. map_option (\<lambda>n. n\<lparr>pItemHead := removeAll i (pItemHead n)\<rparr>) (fnodes l a)\<rparr>"

text \<open>\<open>CreateFreqNode(priority, &freqNode); list_add(&freqNode->freqNode, cur->prev)\<close>.\<close>

definition CreateFreqNode :: "u32 \<Rightarrow> nat option \<Rightarrow> LFU \<Rightarrow> nat \<times> LFU" where
  "CreateFreqNode priority cur l =
     (let a = lfu_fresh l;
          q = (case cur of None \<Rightarrow> freqQ l @ [a]
               | Some c \<Rightarrow> takeWhile (\<lambda>x. x \<noteq> c) (freqQ l) @ a # dropWhile (\<lambda>x. x \<noteq> c) (freqQ l))
      in (a, l\<lparr>fnodes := (fnodes l)(a \<mapsto> \<lparr>fn_freq = priority, pItemHead = []\<rparr>),
               lfu_fresh := Suc a, freqQ := q\<rparr>))"

definition DeleteFreqNode :: "nat \<Rightarrow> LFU \<Rightarrow> LFU" where
  "DeleteFreqNode a l = l\<lparr>freqQ := removeAll a (freqQ l), fnodes := (fnodes l)(a := None)\<rparr>"

text \<open>
  The loop that looks for the first node of priority at least \<open>p\<close>, over the nodes that follow
  the start: where it stopped (\<open>cur\<close>) and the last node it looked at (\<open>freqNode\<close>).
\<close>

fun scan_freq :: "(nat \<rightharpoonup> FreqNode) \<Rightarrow> u32 \<Rightarrow> nat list \<Rightarrow> nat option \<Rightarrow> fault + nat option \<times> nat option" where
  "scan_freq fns p [] seen = Inr (None, seen)"
| "scan_freq fns p (a # as) seen =
     bindE (load fns a) (\<lambda>n. if fn_freq n \<ge> p then Inr (Some a, Some a) else scan_freq fns p as (Some a))"

definition nodes_after :: "nat option \<Rightarrow> nat list \<Rightarrow> nat list" where
  "nodes_after start q = (case start of None \<Rightarrow> q | Some a \<Rightarrow> tl (dropWhile (\<lambda>x. x \<noteq> a) q))"

text \<open>Step 3 of \<open>Update\<close>: hang the item on the node of priority \<open>p\<close>, making one if needed.\<close>

definition attach_item :: "nat \<Rightarrow> u32 \<Rightarrow> nat option \<Rightarrow> LFU \<Rightarrow> fault + LFU" where
  "attach_item i p start l =
     bindE (scan_freq (fnodes l) p (nodes_after start (freqQ l)) None) (\<lambda>(cur, freqNode).
     bindE (case freqNode of None \<Rightarrow> Inr True
            | Some a \<Rightarrow> bindE (load (fnodes l) a) (\<lambda>n. Inr (fn_freq n \<noteq> p))) (\<lambda>flag.
     let (target, l1) = (if flag then map_prod Some id (CreateFreqNode p cur l) else (freqNode, l)) in
     case target of None \<Rightarrow> Inl NullDeref | Some a \<Rightarrow>
     bindE (load (fnodes l1) a) (\<lambda>n.
     bindE (load (inodes l1) i) (\<lambda>it.
     Inr (l1\<lparr>fnodes := (fnodes l1)(a \<mapsto> n\<lparr>pItemHead := i # pItemHead n\<rparr>),
             inodes := (inodes l1)(i \<mapsto> it\<lparr>pFreqHead := a\<rparr>)\<rparr>)))))"

text \<open>\<open>if (list_empty(pItemHead)) DeleteFreqNode(node)\<close>.\<close>

definition drop_if_empty :: "nat \<Rightarrow> LFU \<Rightarrow> fault + LFU" where
  "drop_if_empty a l = bindE (load (fnodes l) a) (\<lambda>n.
     Inr (if pItemHead n = [] then DeleteFreqNode a l else l))"

subsection \<open>The operations\<close>

definition LFU_Update :: "LFU \<Rightarrow> u64 \<Rightarrow> u32 \<Rightarrow> fault + LFU" where
  "LFU_Update l key freq =
     (let p = freq + lfu_age l in
      bindE (key_query bytes_of_u64 (lfuIndexer l) key) (\<lambda>r.
      case r of
        Some i \<Rightarrow>
          bindE (load (inodes l) i) (\<lambda>it.
          bindE (load (fnodes l) (pFreqHead it)) (\<lambda>old.
          if fn_freq old = p then Inr l else
          let l1 = unlink_item i l; start = prev_in (freqQ l1) (pFreqHead it) in
          bindE (drop_if_empty (pFreqHead it) l1) (\<lambda>l2.
          attach_item i p start l2)))
      | None \<Rightarrow>
          let i = lfu_fresh l;
              l1 = l\<lparr>inodes := (inodes l)(i \<mapsto> \<lparr>it_key = key, pFreqHead = 0\<rparr>), lfu_fresh := Suc i\<rparr> in
          bindE (key_insert bytes_of_u64 (lfuIndexer l1) key i) (\<lambda>idx.
          attach_item i p None (l1\<lparr>lfuIndexer := idx\<rparr>))))"

definition LFU_Evict :: "LFU \<Rightarrow> fault + u64 \<times> LFU" where
  "LFU_Evict l =
     (case freqQ l of [] \<Rightarrow> Inl ExitFailure | a # _ \<Rightarrow>
      bindE (load (fnodes l) a) (\<lambda>n.
      if pItemHead n = [] then Inl ExitFailure else
      let i = last (pItemHead n); l1 = l\<lparr>lfu_age := fn_freq n\<rparr> in
      bindE (load (inodes l1) i) (\<lambda>it.
      bindE (key_delete bytes_of_u64 (lfuIndexer l1) (it_key it)) (\<lambda>idx.
      bindE (drop_if_empty a (unlink_item i (l1\<lparr>lfuIndexer := idx\<rparr>))) (\<lambda>l2.
      Inr (it_key it, l2\<lparr>inodes := (inodes l2)(i := None)\<rparr>))))))"

definition LFU_Delete :: "LFU \<Rightarrow> u64 \<Rightarrow> fault + LFU" where
  "LFU_Delete l key =
     (if freqQ l = [] then Inl ExitFailure else
      bindE (key_query bytes_of_u64 (lfuIndexer l) key) (\<lambda>r.
      case r of None \<Rightarrow> Inl ExitFailure | Some i \<Rightarrow>
      bindE (key_delete bytes_of_u64 (lfuIndexer l) key) (\<lambda>idx.
      bindE (load (inodes l) i) (\<lambda>it.
      bindE (drop_if_empty (pFreqHead it) (unlink_item i (l\<lparr>lfuIndexer := idx\<rparr>))) (\<lambda>l2.
      Inr (l2\<lparr>inodes := (inodes l2)(i := None)\<rparr>))))))"

record LFUConfigure =
  lc_keySize :: u32
  lc_bucketCount :: u32

definition CreateLFU :: "LFUConfigure \<Rightarrow> LFU" where
  "CreateLFU conf = \<lparr>freqQ = [], lfuIndexer = CreateIndexer (lc_keySize conf) (lc_bucketCount conf),
     lfu_age = 0, lfu_keySize = lc_keySize conf, fnodes = Map.empty, inodes = Map.empty, lfu_fresh = 0\<rparr>"

text \<open>
  \<open>DestroyLFU\<close>: the cells of the index, then per frequency node its items and the node itself, in
  the order they are freed. The \<open>pItemHead\<close> heads and the key copies are not among them.
\<close>

definition DestroyLFU :: "LFU \<Rightarrow> nat list \<times> nat list" where
  "DestroyLFU l = (map he_val (fst (DestroyIndexer (lfuIndexer l))),
     concat (map (\<lambda>a. (case fnodes l a of None \<Rightarrow> [] | Some n \<Rightarrow> pItemHead n) @ [a]) (freqQ l)))"

end
