(* ===== verification/LFU_Inv.thy ===== *)
theory LFU_Inv
  imports LFU
begin

text \<open>
  What the frequency queue keeps (\<open>lfu_inv\<close>: no dangling pointer, no leaked node, the index and
  the nodes agree) and what it computes: \<open>view\<close> reads the queue as a list of priorities with their
  keys, and every operation is a function on that list. On sorted lists the operations are those
  of a priority queue, stated as the locale \<open>freq_queue\<close>.
\<close>

subsection \<open>The view\<close>

type_synonym freq_view = "(u32 \<times> u64 list) list"

definition itms :: "LFU \<Rightarrow> nat \<Rightarrow> nat list" where
  "itms l a = pItemHead (the (fnodes l a))"

definition keyof :: "LFU \<Rightarrow> nat \<Rightarrow> u64" where
  "keyof l i = it_key (the (inodes l i))"

definition node_view :: "LFU \<Rightarrow> nat \<Rightarrow> u32 \<times> u64 list" where
  "node_view l a = (fn_freq (the (fnodes l a)), map (keyof l) (itms l a))"

definition view :: "LFU \<Rightarrow> freq_view" where
  "view l = map (node_view l) (freqQ l)"

abbreviation all_items :: "LFU \<Rightarrow> nat list" where
  "all_items l \<equiv> concat (map (itms l) (freqQ l))"

text \<open>\<open>queue_ok l I\<close>: the items of \<open>I\<close> are allocated and hang on no node.\<close>

definition queue_ok :: "LFU \<Rightarrow> nat set \<Rightarrow> bool" where
  "queue_ok l I \<longleftrightarrow> distinct (freqQ l) \<and> dom (fnodes l) = set (freqQ l) \<and>
     (\<forall>a \<in> set (freqQ l). itms l a \<noteq> []) \<and> distinct (all_items l) \<and>
     (\<forall>a \<in> set (freqQ l). \<forall>i \<in> set (itms l a). pFreqHead (the (inodes l i)) = a) \<and>
     set (all_items l) \<union> I = dom (inodes l) \<and> set (all_items l) \<inter> I = {} \<and>
     (\<forall>a \<in> dom (fnodes l) \<union> dom (inodes l). a < lfu_fresh l)"

text \<open>\<open>index_ok l J\<close>: the index knows exactly the allocated items outside \<open>J\<close>.\<close>

definition index_ok :: "LFU \<Rightarrow> nat set \<Rightarrow> bool" where
  "index_ok l J \<longleftrightarrow> key_inv bytes_of_u64 (lfuIndexer l) \<and>
     (\<forall>k i. key_abs bytes_of_u64 (lfuIndexer l) k = Some i \<longleftrightarrow> i \<in> dom (inodes l) - J \<and> keyof l i = k)"

definition lfu_inv :: "LFU \<Rightarrow> bool" where
  "lfu_inv l \<longleftrightarrow> queue_ok l {} \<and> index_ok l {}"

fun place :: "u32 \<Rightarrow> u64 \<Rightarrow> freq_view \<Rightarrow> freq_view" where
  "place p k [] = [(p, [k])]"
| "place p k ((f, ks) # r) =
     (if f = p then (f, k # ks) # r else if f > p then (p, [k]) # (f, ks) # r else (f, ks) # place p k r)"

fun drop_key :: "u64 \<Rightarrow> freq_view \<Rightarrow> freq_view" where
  "drop_key k [] = []"
| "drop_key k ((f, ks) # r) =
     (if k \<in> set ks then (if removeAll k ks = [] then r else (f, removeAll k ks) # r) else (f, ks) # drop_key k r)"

fun move_key :: "u32 \<Rightarrow> u64 \<Rightarrow> freq_view \<Rightarrow> freq_view" where
  "move_key p k [] = []"
| "move_key p k ((f, ks) # r) =
     (if k \<in> set ks then (if f = p then (f, ks) # r else place p k (drop_key k ((f, ks) # r)))
      else (f, ks) # move_key p k r)"

definition view_keys :: "freq_view \<Rightarrow> u64 list" where
  "view_keys v = concat (map snd v)"

definition view_update :: "u32 \<Rightarrow> u64 \<Rightarrow> freq_view \<Rightarrow> freq_view" where
  "view_update p k v = (if k \<in> set (view_keys v) then move_key p k v else place p k v)"

lemma view_keys_simps [simp]:
  "view_keys [] = []" "view_keys (x # v) = snd x @ view_keys v" "view_keys (v @ w) = view_keys v @ view_keys w"
  by (simp_all add: view_keys_def)

lemma view_keys_view: "view_keys (view l) = map (keyof l) (all_items l)"
proof -
  have "concat (map (snd \<circ> node_view l) xs) = map (keyof l) (concat (map (itms l) xs))" for xs
    by (induction xs) (simp_all add: node_view_def)
  then show ?thesis by (simp add: view_def view_keys_def)
qed

lemma drop_key_append: "k \<notin> set (view_keys v) \<Longrightarrow> drop_key k (v @ w) = v @ drop_key k w"
  by (induction k v rule: drop_key.induct) auto

lemma move_key_append: "k \<notin> set (view_keys v) \<Longrightarrow> move_key p k (v @ w) = v @ move_key p k w"
  by (induction p k v rule: move_key.induct) auto

lemma drop_key_skip: "k \<notin> set (view_keys v) \<Longrightarrow> drop_key k v = v"
  using drop_key_append [of k v "[]"] by simp

lemma place_append: "(\<And>x. x \<in> set v \<Longrightarrow> fst x < p) \<Longrightarrow> place p k (v @ w) = v @ place p k w"
proof (induction v)
  case (Cons x v)
  obtain f ks where x: "x = (f, ks)" by (cases x)
  have "f < p" using Cons.prems [of x] x by simp
  then have "f \<noteq> p" "\<not> f > p" by auto
  then show ?case using Cons x by simp
qed simp

subsection \<open>Detaching an item\<close>

lemma all_items_split:
  "freqQ l = pre @ a # post \<Longrightarrow>
   all_items l = concat (map (itms l) pre) @ itms l a @ concat (map (itms l) post)"
  by simp

definition kept :: "LFU \<Rightarrow> LFU \<Rightarrow> bool" where
  "kept l l' \<longleftrightarrow> lfuIndexer l' = lfuIndexer l \<and> lfu_age l' = lfu_age l \<and> lfu_keySize l' = lfu_keySize l"

lemma detach_item:
  assumes "queue_ok l {}" and "freqQ l = pre @ a # post" and "i \<in> set (itms l a)"
  shows "\<exists>l'. drop_if_empty a (unlink_item i l) = Inr l' \<and> queue_ok l' {i} \<and> inodes l' = inodes l \<and> kept l l' \<and>
     freqQ l' = pre @ (if removeAll i (itms l a) = [] then [] else [a]) @ post \<and> lfu_fresh l' = lfu_fresh l \<and>
     map (node_view l') (pre @ post) = map (node_view l) (pre @ post) \<and>
     (removeAll i (itms l a) \<noteq> [] \<longrightarrow>
       node_view l' a = (fn_freq (the (fnodes l a)), map (keyof l) (removeAll i (itms l a))))"
proof -
  have q: "distinct (pre @ a # post)" "dom (fnodes l) = set (freqQ l)" "distinct (all_items l)"
    "\<forall>x \<in> set (freqQ l). itms l x \<noteq> []" using assms(1,2) by (simp_all add: queue_ok_def)
  have an: "a \<in> dom (fnodes l)" using q(2) assms(2) by simp
  then obtain n where n: "fnodes l a = Some n" by blast
  have it: "itms l a = pItemHead n" using n by (simp add: itms_def)
  have notin: "i \<notin> set (itms l x)" if "x \<in> set (pre @ post)" for x
    using q(3) assms(2,3) that by auto
  have other: "map_option (\<lambda>n. n\<lparr>pItemHead := removeAll i (pItemHead n)\<rparr>) (fnodes l x) = fnodes l x"
    if "x \<in> set (pre @ post)" for x
    using notin [OF that] by (cases "fnodes l x") (simp_all add: itms_def)
  let ?u = "unlink_item i l"
  have u: "fnodes ?u a = Some (n\<lparr>pItemHead := removeAll i (pItemHead n)\<rparr>)" using n by (simp add: unlink_item_def)
  have dom_u: "dom (fnodes ?u) = dom (fnodes l)" by (auto simp: unlink_item_def dom_def)
  define l' where "l' = (if removeAll i (itms l a) = [] then DeleteFreqNode a ?u else ?u)"
  have r: "drop_if_empty a ?u = Inr l'" using u it by (simp add: drop_if_empty_def l'_def)
  have q': "freqQ l' = pre @ (if removeAll i (itms l a) = [] then [] else [a]) @ post"
    using q(1) assms(2) by (simp add: l'_def DeleteFreqNode_def unlink_item_def)
  have k: "inodes l' = inodes l" "kept l l'" "lfu_fresh l' = lfu_fresh l"
    by (simp_all add: l'_def DeleteFreqNode_def unlink_item_def kept_def)
  have f: "fnodes l' x = fnodes l x" if "x \<in> set (pre @ post)" for x
    using other [OF that] that q(1) by (auto simp: l'_def DeleteFreqNode_def unlink_item_def)
  have fa: "fnodes l' a = (if removeAll i (itms l a) = [] then None else Some (n\<lparr>pItemHead := removeAll i (pItemHead n)\<rparr>))"
    using u by (simp add: l'_def DeleteFreqNode_def)
  have itx: "itms l' x = itms l x" if "x \<in> set (pre @ post)" for x using f [OF that] by (simp add: itms_def)
  have ita: "itms l' a = removeAll i (itms l a)" if "removeAll i (itms l a) \<noteq> []"
    using fa that it by (simp add: itms_def)
  have nv: "node_view l' x = node_view l x" if "x \<in> set (pre @ post)" for x
    using f [OF that] k(1) by (simp add: node_view_def itms_def keyof_def fun_eq_iff)
  have dom': "dom (fnodes l') = set (freqQ l')"
    using dom_u q(1,2) assms(2) by (auto simp: q' l'_def DeleteFreqNode_def unlink_item_def)
  have mp: "map (itms l') pre = map (itms l) pre" "map (itms l') post = map (itms l) post" using itx by simp_all
  have ai: "all_items l' = concat (map (itms l) pre) @ removeAll i (itms l a) @ concat (map (itms l) post)"
  proof (cases "removeAll i (itms l a) = []")
    case True
    show ?thesis unfolding q' by (simp add: mp True del: map_eq_conv)
  next
    case False
    then show ?thesis unfolding q' by (simp add: mp ita del: map_eq_conv)
  qed
  have "queue_ok l' {i}"
    unfolding queue_ok_def
  proof (intro conjI)
    show "distinct (freqQ l')" using q(1) q' by auto
    show "dom (fnodes l') = set (freqQ l')" by (rule dom')
    show "\<forall>x \<in> set (freqQ l'). itms l' x \<noteq> []"
      using q(4) assms(2) itx ita q' by (auto split: if_split_asm)
    show "distinct (all_items l')"
      unfolding ai using q(3) unfolding all_items_split [OF assms(2)] by (auto simp: distinct_removeAll)
    show "\<forall>x \<in> set (freqQ l'). \<forall>j \<in> set (itms l' x). pFreqHead (the (inodes l' j)) = x"
      using assms(1,2) itx ita q' k(1) by (auto simp: queue_ok_def split: if_split_asm)
    have s: "set (all_items l') = set (all_items l) - {i}"
      unfolding ai all_items_split [OF assms(2)] using notin by auto
    then show "set (all_items l') \<union> {i} = dom (inodes l')" "set (all_items l') \<inter> {i} = {}"
      using assms k(1) by (auto simp: queue_ok_def all_items_split [OF assms(2)])
    show "\<forall>x \<in> dom (fnodes l') \<union> dom (inodes l'). x < lfu_fresh l'"
      using assms(1,2) k dom' q' by (auto simp: queue_ok_def split: if_split_asm)
  qed
  then show ?thesis using r k q' nv n it ita fa
    by (intro exI [of _ l']) (simp add: node_view_def keyof_def fun_eq_iff)
qed

subsection \<open>Attaching an item\<close>

lemma scan_freq_split:
  assumes "set q \<subseteq> dom fns"
  shows "\<exists>lo hi. q = lo @ hi \<and> (\<forall>a \<in> set lo. fn_freq (the (fns a)) < p) \<and>
     (hi = [] \<and> scan_freq fns p q seen = Inr (None, if lo = [] then seen else Some (last lo)) \<or>
      (\<exists>c hs. hi = c # hs \<and> p \<le> fn_freq (the (fns c)) \<and> scan_freq fns p q seen = Inr (Some c, Some c)))"
  using assms
proof (induction q arbitrary: seen)
  case Nil
  then show ?case by simp
next
  case (Cons a q)
  obtain n where n: "fns a = Some n" using Cons.prems by auto
  show ?case
  proof (cases "p \<le> fn_freq n")
    case True
    then show ?thesis using n by (intro exI [of _ "[]"] exI [of _ "a # q"]) simp
  next
    case False
    obtain lo hi where h: "q = lo @ hi" "\<forall>a \<in> set lo. fn_freq (the (fns a)) < p"
      "hi = [] \<and> scan_freq fns p q (Some a) = Inr (None, if lo = [] then Some a else Some (last lo)) \<or>
      (\<exists>c hs. hi = c # hs \<and> p \<le> fn_freq (the (fns c)) \<and> scan_freq fns p q (Some a) = Inr (Some c, Some c))"
      using Cons.IH [of "Some a"] Cons.prems by auto
    show ?thesis
      using h False n by (intro exI [of _ "a # lo"] exI [of _ hi]) auto
  qed
qed

text \<open>The state after the item \<open>i\<close> went on a node \<open>a\<close> between \<open>pre\<close> and \<open>post\<close>.\<close>

definition attached :: "nat \<Rightarrow> nat \<Rightarrow> FreqNode \<Rightarrow> ItemNode \<Rightarrow> nat list \<Rightarrow> LFU \<Rightarrow> LFU \<Rightarrow> bool" where
  "attached i a n it q l l' \<longleftrightarrow> freqQ l' = q \<and>
     fnodes l' = (fnodes l)(a \<mapsto> n\<lparr>pItemHead := i # pItemHead n\<rparr>) \<and>
     inodes l' = (inodes l)(i \<mapsto> it\<lparr>pFreqHead := a\<rparr>) \<and> kept l l' \<and> lfu_fresh l \<le> lfu_fresh l'"

lemma attached_ok:
  assumes "attached i a n it (pre @ a # post) l l'" and "queue_ok l {i}" and "inodes l i = Some it"
    and "distinct (pre @ a # post)" and "set (freqQ l) \<union> {a} = set (pre @ a # post)"
    and "all_items l = concat (map (itms l) pre) @ pItemHead n @ concat (map (itms l) post)"
    and "a < lfu_fresh l'"
  shows "queue_ok l' {}" and "dom (inodes l') = dom (inodes l)" and "keyof l' = keyof l"
    and "view l' = map (node_view l) pre @ (fn_freq n, keyof l i # map (keyof l) (pItemHead n)) # map (node_view l) post"
proof -
  have at: "freqQ l' = pre @ a # post" "fnodes l' = (fnodes l)(a \<mapsto> n\<lparr>pItemHead := i # pItemHead n\<rparr>)"
     "inodes l' = (inodes l)(i \<mapsto> it\<lparr>pFreqHead := a\<rparr>)" "lfu_fresh l \<le> lfu_fresh l'"
    using assms(1) by (simp_all add: attached_def)
  have ne: "a \<noteq> x" if "x \<in> set (pre @ post)" for x using assms(4) that by auto
  have itx: "itms l' x = itms l x" if "x \<in> set (pre @ post)" for x
    using ne [OF that] at(2) by (simp add: itms_def)
  have ita: "itms l' a = i # pItemHead n" using at(2) by (simp add: itms_def)
  show k: "keyof l' = keyof l" using at(3) assms(3) by (simp add: keyof_def fun_eq_iff)
  show d: "dom (inodes l') = dom (inodes l)" using at(3) assms(3) by auto
  have nv: "node_view l' x = node_view l x" if "x \<in> set (pre @ post)" for x
    using ne [OF that] at(2) itx [OF that] k by (simp add: node_view_def)
  show "view l' = map (node_view l) pre @ (fn_freq n, keyof l i # map (keyof l) (pItemHead n)) # map (node_view l) post"
    using nv at(1,2) ita k by (simp add: view_def node_view_def)
  have mp: "map (itms l') pre = map (itms l) pre" "map (itms l') post = map (itms l) post" using itx by simp_all
  have ai: "all_items l' = concat (map (itms l) pre) @ (i # pItemHead n) @ concat (map (itms l) post)"
    unfolding at(1) by (simp add: mp ita del: map_eq_conv)
  have old: "distinct (all_items l)" "i \<notin> set (all_items l)" "dom (fnodes l) = set (freqQ l)"
     "set (all_items l) \<union> {i} = dom (inodes l)"
    using assms(2) by (simp_all add: queue_ok_def)
  have frq: "x \<in> set (freqQ l)" if "x \<in> set (pre @ post)" for x using assms(5) ne [OF that] that by auto
  show "queue_ok l' {}"
    unfolding queue_ok_def
  proof (intro conjI)
    show "distinct (freqQ l')" using assms(4) at(1) by simp
    show "dom (fnodes l') = set (freqQ l')" using at(1,2) old(3) assms(5) by auto
    show "\<forall>x \<in> set (freqQ l'). itms l' x \<noteq> []"
      using at(1) ita itx frq assms(2) by (auto simp: queue_ok_def)
    show "distinct (all_items l')" unfolding ai using old(1,2) unfolding assms(6) by auto
    have items_l: "pFreqHead (the (inodes l' j)) = x" if "x \<in> set (pre @ post)" "j \<in> set (itms l x)" for x j
    proof -
      have "x \<in> set (freqQ l)" by (rule frq [OF that(1)])
      then have "pFreqHead (the (inodes l j)) = x" "j \<noteq> i"
        using assms(2) that(2) old(2) by (auto simp: queue_ok_def)
      then show ?thesis using at(3) by simp
    qed
    have items_a: "pFreqHead (the (inodes l' j)) = a" if "j \<in> set (pItemHead n)" for j
    proof -
      have "j \<in> set (all_items l)" using that unfolding assms(6) by simp
      then obtain x where x: "x \<in> set (freqQ l)" "j \<in> set (itms l x)" by auto
      have "x = a"
      proof (rule ccontr)
        assume "x \<noteq> a"
        then have "x \<in> set (pre @ post)" using x(1) assms(5) by auto
        then show False using x(2) that old(1) unfolding assms(6) by auto
      qed
      moreover have "j \<noteq> i" using \<open>j \<in> set (all_items l)\<close> old(2) by blast
      ultimately show ?thesis using x assms(2) at(3) by (auto simp: queue_ok_def)
    qed
    show "\<forall>x \<in> set (freqQ l'). \<forall>j \<in> set (itms l' x). pFreqHead (the (inodes l' j)) = x"
    proof (intro ballI)
      fix x j assume x: "x \<in> set (freqQ l')" and j: "j \<in> set (itms l' x)"
      show "pFreqHead (the (inodes l' j)) = x"
      proof (cases "x = a")
        case True
        show ?thesis
        proof (cases "j = i")
          case True
          then show ?thesis using at(3) \<open>x = a\<close> by simp
        next
          case False
          then show ?thesis using j ita items_a [of j] \<open>x = a\<close> by simp
        qed
      next
        case False
        then have "x \<in> set (pre @ post)" using x at(1) by auto
        then show ?thesis using items_l j itx by simp
      qed
    qed
    show "set (all_items l') \<union> {} = dom (inodes l')"
      unfolding ai d old(4) [symmetric] assms(6) by auto
    show "set (all_items l') \<inter> {} = {}" by simp
    show "\<forall>x \<in> dom (fnodes l') \<union> dom (inodes l'). x < lfu_fresh l'"
    proof
      fix x assume "x \<in> dom (fnodes l') \<union> dom (inodes l')"
      then have "x = a \<or> x \<in> dom (fnodes l) \<union> dom (inodes l)" using at(2) d by auto
      then show "x < lfu_fresh l'"
      proof
        assume "x \<in> dom (fnodes l) \<union> dom (inodes l)"
        then have "x < lfu_fresh l" using assms(2) unfolding queue_ok_def by blast
        then show ?thesis using at(4) by simp
      qed (use assms(7) in simp)
    qed
  qed
qed

lemma place_split:
  assumes "\<And>x. x \<in> set lo \<Longrightarrow> fst x < p"
  shows "place p k lo = lo @ [(p, [k])]"
    and "place p k (lo @ (p, ks) # r) = lo @ (p, k # ks) # r"
    and "f > p \<Longrightarrow> place p k (lo @ (f, ks) # r) = lo @ (p, [k]) # (f, ks) # r"
  using place_append [OF assms, of lo k "[]"] place_append [OF assms, of lo k "(p, ks) # r"]
    place_append [OF assms, of lo k "(f, ks) # r"] by auto

lemma attach_item:
  assumes "queue_ok l {i}" and "freqQ l = pre @ cand" and "nodes_after start (freqQ l) = cand"
  shows "\<exists>l'. attach_item i p start l = Inr l' \<and> queue_ok l' {} \<and> dom (inodes l') = dom (inodes l) \<and>
     keyof l' = keyof l \<and> kept l l' \<and>
     view l' = map (node_view l) pre @ place p (keyof l i) (map (node_view l) cand)"
proof -
  have q: "distinct (pre @ cand)" "dom (fnodes l) = set (pre @ cand)" "i \<in> dom (inodes l)"
    "\<forall>a \<in> dom (fnodes l) \<union> dom (inodes l). a < lfu_fresh l"
    using assms(1,2) by (auto simp: queue_ok_def)
  obtain it where it: "inodes l i = Some it" using q(3) by blast
  have "set cand \<subseteq> dom (fnodes l)" using q(2) by simp
  from scan_freq_split [OF this, of p None]
  obtain lo hi where h: "cand = lo @ hi" "\<forall>a \<in> set lo. fn_freq (the (fnodes l a)) < p"
    "hi = [] \<and> scan_freq (fnodes l) p cand None = Inr (None, if lo = [] then None else Some (last lo)) \<or>
      (\<exists>c hs. hi = c # hs \<and> p \<le> fn_freq (the (fnodes l c)) \<and> scan_freq (fnodes l) p cand None = Inr (Some c, Some c))"
    by (elim exE conjE) (rule that)
  have lo: "fst x < p" if "x \<in> set (map (node_view l) lo)" for x using that h(2) by (auto simp: node_view_def)
  let ?a = "lfu_fresh l"
  have fresh: "?a \<notin> set (pre @ cand)" "?a \<notin> dom (inodes l)" using q(2,4) by (metis Un_iff less_irrefl)+
  consider (reuse) c hs where "hi = c # hs" "fn_freq (the (fnodes l c)) = p"
      "scan_freq (fnodes l) p cand None = Inr (Some c, Some c)"
    | (create) cur fnode where "scan_freq (fnodes l) p cand None = Inr (cur, fnode)"
      "cur = None \<and> hi = [] \<or> (\<exists>c hs. cur = Some c \<and> hi = c # hs \<and> p < fn_freq (the (fnodes l c)))"
      "fnode = None \<or> (\<exists>d \<in> set cand. fnode = Some d \<and> fn_freq (the (fnodes l d)) \<noteq> p)"
  proof -
    show ?thesis using h(3)
    proof (elim disjE exE conjE)
      assume "hi = []" and s: "scan_freq (fnodes l) p cand None = Inr (None, if lo = [] then None else Some (last lo))"
      have "\<exists>d \<in> set cand. (if lo = [] then None else Some (last lo)) = Some d \<and> fn_freq (the (fnodes l d)) \<noteq> p" if "lo \<noteq> []"
        using that h(1,2) by (intro bexI [of _ "last lo"]) auto
      then show thesis using s \<open>hi = []\<close> by (intro create [OF s]) auto
    next
      fix c hs assume c: "hi = c # hs" "p \<le> fn_freq (the (fnodes l c))" "scan_freq (fnodes l) p cand None = Inr (Some c, Some c)"
      show thesis
      proof (cases "fn_freq (the (fnodes l c)) = p")
        case True
        then show thesis using c reuse by blast
      next
        case False
        then show thesis using c h(1) by (intro create [OF c(3)]) auto
      qed
    qed
  qed
  then show ?thesis
  proof cases
    case reuse
    obtain n where n: "fnodes l c = Some n" using q(2) h(1) reuse(1) by fastforce
    define l' where "l' = l\<lparr>fnodes := (fnodes l)(c \<mapsto> n\<lparr>pItemHead := i # pItemHead n\<rparr>),
             inodes := (inodes l)(i \<mapsto> it\<lparr>pFreqHead := c\<rparr>)\<rparr>"
    have r: "attach_item i p start l = Inr l'"
      using reuse(2,3) n it assms(3) by (simp add: attach_item_def l'_def)
    have at: "attached i c n it ((pre @ lo) @ c # hs) l l'"
      using assms(2) h(1) reuse(1) by (simp add: attached_def l'_def kept_def)
    have al: "all_items l = concat (map (itms l) (pre @ lo)) @ pItemHead n @ concat (map (itms l) hs)"
      using assms(2) h(1) reuse(1) n by (simp add: itms_def)
    have ql: "distinct ((pre @ lo) @ c # hs)" "set (freqQ l) \<union> {c} = set ((pre @ lo) @ c # hs)"
      using q(1) assms(2) h(1) reuse(1) by auto
    have cl: "c < lfu_fresh l'" using q(2,4) h(1) reuse(1) by (auto simp: l'_def)
    note ok = attached_ok [OF at assms(1) it ql al cl]
    have "node_view l c = (p, map (keyof l) (pItemHead n))" using n reuse(2) by (simp add: node_view_def itms_def)
    then have "view l' = map (node_view l) pre @ place p (keyof l i) (map (node_view l) cand)"
      using ok(4) h(1) reuse(1,2) n place_split(2) [of "map (node_view l) lo", OF lo] by simp
    then show ?thesis using r ok(1-3) by (auto simp: l'_def kept_def)
  next
    case create
    let ?n = "\<lparr>fn_freq = p, pItemHead = []\<rparr>"
    define l' where "l' = l\<lparr>fnodes := (fnodes l)(?a \<mapsto> ?n\<lparr>pItemHead := i # pItemHead ?n\<rparr>),
             inodes := (inodes l)(i \<mapsto> it\<lparr>pFreqHead := ?a\<rparr>),
             lfu_fresh := Suc ?a, freqQ := (pre @ lo) @ ?a # hi\<rparr>"
    have cf: "CreateFreqNode p cur l = (?a, l\<lparr>fnodes := (fnodes l)(?a \<mapsto> ?n),
               lfu_fresh := Suc ?a, freqQ := (pre @ lo) @ ?a # hi\<rparr>)"
    proof -
      have "takeWhile (\<lambda>x. x \<noteq> c) (pre @ lo @ c # hs) = pre @ lo \<and> dropWhile (\<lambda>x. x \<noteq> c) (pre @ lo @ c # hs) = c # hs"
        if "hi = c # hs" for c hs
      proof -
        have "c \<notin> set (pre @ lo)" using q(1) h(1) that by auto
        then show ?thesis by (simp add: takeWhile_append2 takeWhile_append dropWhile_append2 dropWhile_append)
      qed
      then show ?thesis using create(2) assms(2) h(1) by (auto simp: CreateFreqNode_def Let_def)
    qed
    have flag: "(case fnode of None \<Rightarrow> Inr True
            | Some a \<Rightarrow> bindE (load (fnodes l) a) (\<lambda>n. Inr (fn_freq n \<noteq> p))) = Inr True"
    proof (cases fnode)
      case (Some d)
      then have "d \<in> dom (fnodes l)" using create(3) q(2) by auto
      then show ?thesis using Some create(3) by auto
    qed simp
    have r: "attach_item i p start l = Inr l'"
      using create(1) it assms(3) by (simp add: attach_item_def flag cf Let_def l'_def)
    have at: "attached i ?a ?n it ((pre @ lo) @ ?a # hi) l l'" by (simp add: attached_def l'_def kept_def)
    have al: "all_items l = concat (map (itms l) (pre @ lo)) @ pItemHead ?n @ concat (map (itms l) hi)"
      using assms(2) h(1) by simp
    have ql: "distinct ((pre @ lo) @ ?a # hi)" "set (freqQ l) \<union> {?a} = set ((pre @ lo) @ ?a # hi)"
      using q(1) assms(2) h(1) fresh by auto
    have cl: "?a < lfu_fresh l'" by (simp add: l'_def)
    note ok = attached_ok [OF at assms(1) it ql al cl]
    have "place p (keyof l i) (map (node_view l) lo @ map (node_view l) hi) =
        map (node_view l) lo @ (p, [keyof l i]) # map (node_view l) hi"
      using create(2) place_split(1) [of "map (node_view l) lo", OF lo]
        place_split(3) [of "map (node_view l) lo", OF lo] by (auto simp: node_view_def)
    then have "view l' = map (node_view l) pre @ place p (keyof l i) (map (node_view l) cand)"
      using ok(4) h(1) by simp
    then show ?thesis using r ok(1-3) by (auto simp: l'_def kept_def)
  qed
qed

subsection \<open>The operations on the view\<close>

lemma items_allocated: "lfu_inv l \<Longrightarrow> set (all_items l) = dom (inodes l)"
  by (simp add: lfu_inv_def queue_ok_def)

lemma key_lookup:
  "lfu_inv l \<Longrightarrow> key_abs bytes_of_u64 (lfuIndexer l) k = Some i \<longleftrightarrow> i \<in> set (all_items l) \<and> keyof l i = k"
  using items_allocated [of l] by (simp add: lfu_inv_def index_ok_def)

lemma key_unique:
  "lfu_inv l \<Longrightarrow> i \<in> set (all_items l) \<Longrightarrow> j \<in> set (all_items l) \<Longrightarrow> keyof l i = keyof l j \<Longrightarrow> i = j"
  using key_lookup [of l "keyof l i" i] key_lookup [of l "keyof l i" j] by simp

lemma key_present:
  assumes "lfu_inv l"
  shows "key_abs bytes_of_u64 (lfuIndexer l) k = None \<longleftrightarrow> k \<notin> set (view_keys (view l))"
proof -
  have "k \<in> set (view_keys (view l)) \<longleftrightarrow> (\<exists>i. i \<in> set (all_items l) \<and> keyof l i = k)"
    unfolding view_keys_view by auto
  then show ?thesis unfolding key_lookup [OF assms, symmetric] by simp
qed

lemma LFU_query: "lfu_inv l \<Longrightarrow> key_query bytes_of_u64 (lfuIndexer l) k = Inr (key_abs bytes_of_u64 (lfuIndexer l) k)"
  by (simp add: lfu_inv_def index_ok_def idx64.query)

lemma distinct_view_keys:
  assumes "lfu_inv l"
  shows "distinct (view_keys (view l))"
proof -
  have "inj_on (keyof l) (set (all_items l))" by (rule inj_onI) (rule key_unique [OF assms])
  moreover have "distinct (all_items l)" using assms by (simp add: lfu_inv_def queue_ok_def)
  ultimately show ?thesis unfolding view_keys_view distinct_map by blast
qed

lemma item_node:
  assumes "lfu_inv l" and "i \<in> set (all_items l)"
  shows "\<exists>it pre post. inodes l i = Some it \<and> it_key it = keyof l i \<and> freqQ l = pre @ pFreqHead it # post \<and>
     i \<in> set (itms l (pFreqHead it)) \<and> keyof l i \<notin> set (view_keys (map (node_view l) pre)) \<and>
     map (keyof l) (removeAll i (itms l (pFreqHead it))) = removeAll (keyof l i) (map (keyof l) (itms l (pFreqHead it)))"
proof -
  obtain it where it: "inodes l i = Some it" using assms items_allocated by blast
  obtain a where a: "a \<in> set (freqQ l)" "i \<in> set (itms l a)" using assms(2) by auto
  then have h: "pFreqHead it = a"
    using assms(1) it unfolding lfu_inv_def queue_ok_def by (metis option.sel)
  obtain pre post where s: "freqQ l = pre @ a # post" using a(1) by (auto simp: in_set_conv_decomp)
  have d: "distinct (view_keys (view l))" by (rule distinct_view_keys [OF assms(1)])
  have ks: "keyof l i \<in> set (snd (node_view l a))" using a(2) by (simp add: node_view_def)
  have "keyof l i \<notin> set (view_keys (map (node_view l) pre))"
    using d ks by (auto simp: view_def s)
  moreover have "inj_on (keyof l) (insert i (set (itms l a)))"
  proof (rule inj_on_subset)
    show "inj_on (keyof l) (set (all_items l))" by (rule inj_onI) (rule key_unique [OF assms(1)])
    show "insert i (set (itms l a)) \<subseteq> set (all_items l)" using assms(2) a(1) by auto
  qed
  then have "map (keyof l) (removeAll i (itms l a)) = removeAll (keyof l i) (map (keyof l) (itms l a))"
    by (rule map_removeAll_inj_on)
  ultimately show ?thesis using it h s a(2) by (auto simp: keyof_def)
qed

lemma nodes_after_prev:
  assumes "distinct (pre @ a # post)" and "distinct (pre @ cand)"
  shows "nodes_after (prev_in (pre @ a # post) a) (pre @ cand) = cand"
proof -
  have p: "prev_in (pre @ a # post) a = first_in (rev pre)" using assms(1) by (simp add: prev_in_split)
  show ?thesis
  proof (cases pre rule: rev_cases)
    case Nil
    then show ?thesis using p by (simp add: nodes_after_def)
  next
    case (snoc ys b)
    then have "b \<notin> set ys" using assms(1) by auto
    then have "dropWhile (\<lambda>x. x \<noteq> b) (ys @ b # cand) = b # cand" by (subst dropWhile_append2) auto
    then show ?thesis using snoc p by (simp add: nodes_after_def)
  qed
qed

theorem LFU_Update_spec:
  assumes "lfu_inv l"
  shows "\<exists>l'. LFU_Update l k freq = Inr l' \<and> lfu_inv l' \<and> lfu_age l' = lfu_age l \<and>
     view l' = view_update (freq + lfu_age l) k (view l)"
proof (cases "key_abs bytes_of_u64 (lfuIndexer l) k")
  case None
  let ?p = "freq + lfu_age l" and ?i = "lfu_fresh l"
  have kn: "k \<notin> set (view_keys (view l))" using None key_present [OF assms] by simp
  have qo: "queue_ok l {}" and io: "index_ok l {}" using assms by (simp_all add: lfu_inv_def)
  have fr: "?i \<notin> dom (inodes l)" using qo by (auto simp: queue_ok_def)
  obtain idx where idx: "key_insert bytes_of_u64 (lfuIndexer l) k ?i = Inr idx" "key_inv bytes_of_u64 idx"
      "key_abs bytes_of_u64 idx = (key_abs bytes_of_u64 (lfuIndexer l))(k \<mapsto> ?i)"
    using idx64.insertKV [of "lfuIndexer l" k ?i] None io by (auto simp: index_ok_def)
  let ?l1 = "l\<lparr>inodes := (inodes l)(?i \<mapsto> \<lparr>it_key = k, pFreqHead = 0\<rparr>), lfu_fresh := Suc ?i, lfuIndexer := idx\<rparr>"
  have ko: "keyof ?l1 j = (if j = ?i then k else keyof l j)" for j by (simp add: keyof_def)
  have items1: "itms ?l1 = itms l" by (simp add: itms_def fun_eq_iff)
  have notin: "?i \<notin> set (all_items l)" using fr items_allocated [OF assms] by simp
  have "queue_ok ?l1 {?i}"
    using qo notin by (auto simp: queue_ok_def items1 less_Suc_eq)
  from attach_item [OF this, of "[]" "freqQ l" None ?p]
  obtain l' where l': "attach_item ?i ?p None ?l1 = Inr l'" "queue_ok l' {}" "dom (inodes l') = dom (inodes ?l1)"
     "keyof l' = keyof ?l1" "kept ?l1 l'" "view l' = place ?p (keyof ?l1 ?i) (map (node_view ?l1) (freqQ l))"
    by (auto simp: nodes_after_def)
  have "node_view ?l1 a = node_view l a" if "a \<in> set (freqQ l)" for a
    using notin that by (auto simp: node_view_def items1 ko intro!: map_cong)
  then have "view l' = view_update ?p k (view l)"
    using l'(6) kn ko [of ?i] by (simp add: view_update_def view_def cong: map_cong)
  moreover have "index_ok l' {}"
  proof -
    have ix: "lfuIndexer l' = idx" using l'(5) by (simp add: kept_def)
    have new: "(j \<in> dom (inodes l') - {} \<and> keyof l' j = m) \<longleftrightarrow>
        (if j = ?i then m = k else j \<in> dom (inodes l) \<and> keyof l j = m)" for m j
      using l'(3,4) ko by auto
    have old: "j \<in> dom (inodes l) \<and> keyof l j = m \<longleftrightarrow> key_abs bytes_of_u64 (lfuIndexer l) m = Some j" for m j
      using io by (simp add: index_ok_def)
    have "key_abs bytes_of_u64 idx m = Some j \<longleftrightarrow> j \<in> dom (inodes l') - {} \<and> keyof l' j = m" for m j
    proof (cases "m = k")
      case True
      then show ?thesis unfolding new idx(3) using None by (auto simp: old)
    next
      case False
      then show ?thesis unfolding new idx(3) using fr old [where j = ?i and m = m] by (auto simp: old)
    qed
    then show ?thesis using idx(2) ix by (simp add: index_ok_def)
  qed
  moreover have "LFU_Update l k freq = Inr l'"
    using None LFU_query [OF assms, of k] idx(1) l'(1) by (simp add: LFU_Update_def Let_def)
  ultimately show ?thesis using l'(2,5) by (auto simp: lfu_inv_def kept_def)
next
  case (Some i)
  let ?p = "freq + lfu_age l"
  have qo: "queue_ok l {}" and io: "index_ok l {}" using assms by (simp_all add: lfu_inv_def)
  have i: "i \<in> set (all_items l)" "keyof l i = k" using Some key_lookup [OF assms] by simp_all
  obtain it pre post where it: "inodes l i = Some it" "it_key it = k" "freqQ l = pre @ pFreqHead it # post"
     "i \<in> set (itms l (pFreqHead it))" "k \<notin> set (view_keys (map (node_view l) pre))"
     "map (keyof l) (removeAll i (itms l (pFreqHead it))) = removeAll k (map (keyof l) (itms l (pFreqHead it)))"
    using item_node [OF assms i(1)] i(2) by auto
  let ?a = "pFreqHead it"
  have "?a \<in> dom (fnodes l)" using qo it(3) by (simp add: queue_ok_def)
  then obtain n where n: "fnodes l ?a = Some n" by blast
  have dq: "distinct (pre @ ?a # post)" using qo it(3) by (simp add: queue_ok_def)
  have vw: "view l = map (node_view l) pre @ (fn_freq n, map (keyof l) (itms l ?a)) # map (node_view l) post"
    using n it(3) by (simp add: view_def node_view_def)
  have kin: "k \<in> keyof l ` set (itms l ?a)" using it(4) i(2) by blast
  have present: "k \<in> set (view_keys (view l))" using kin by (simp add: vw)
  have upd: "view_update ?p k (view l) = map (node_view l) pre @ (if fn_freq n = ?p
      then (fn_freq n, map (keyof l) (itms l ?a)) # map (node_view l) post
      else place ?p k ((if removeAll i (itms l ?a) = [] then [] else [(fn_freq n, map (keyof l) (removeAll i (itms l ?a)))])
          @ map (node_view l) post))"
  proof -
    have e: "removeAll i (itms l ?a) = [] \<longleftrightarrow> removeAll k (map (keyof l) (itms l ?a)) = []"
      by (simp only: it(6) [symmetric] map_is_Nil_conv)
    show ?thesis
      unfolding view_update_def if_P [OF present]
      unfolding vw move_key_append [OF it(5)] it(6) e
      using kin by simp
  qed
  show ?thesis
  proof (cases "fn_freq n = ?p")
    case True
    then have "LFU_Update l k freq = Inr l"
      using Some LFU_query [OF assms, of k] it(1) n by (simp add: LFU_Update_def Let_def)
    then show ?thesis using assms True upd vw by simp
  next
    case False
    obtain l2 where l2: "drop_if_empty ?a (unlink_item i l) = Inr l2" "queue_ok l2 {i}" "inodes l2 = inodes l" "kept l l2"
      "freqQ l2 = pre @ (if removeAll i (itms l ?a) = [] then [] else [?a]) @ post"
      "map (node_view l2) (pre @ post) = map (node_view l) (pre @ post)"
      "removeAll i (itms l ?a) \<noteq> [] \<longrightarrow>
       node_view l2 ?a = (fn_freq (the (fnodes l ?a)), map (keyof l) (removeAll i (itms l ?a)))"
      using detach_item [OF qo it(3,4)] by blast
    let ?cand = "(if removeAll i (itms l ?a) = [] then [] else [?a]) @ post"
    have k2: "keyof l2 = keyof l" using l2(3) by (simp add: keyof_def fun_eq_iff)
    have "distinct (pre @ ?cand)" using dq by auto
    then have na: "nodes_after (prev_in (freqQ (unlink_item i l)) ?a) (freqQ l2) = ?cand"
      using nodes_after_prev [OF dq] l2(5) it(3) by (simp add: unlink_item_def)
    obtain l' where l': "attach_item i ?p (prev_in (freqQ (unlink_item i l)) ?a) l2 = Inr l'" "queue_ok l' {}"
      "dom (inodes l') = dom (inodes l2)" "keyof l' = keyof l2" "kept l2 l'"
      "view l' = map (node_view l2) pre @ place ?p (keyof l2 i) (map (node_view l2) ?cand)"
      using attach_item [OF l2(2,5) na] by blast
    have nv: "map (node_view l2) pre = map (node_view l) pre" "map (node_view l2) post = map (node_view l) post"
      using l2(6) by (simp_all del: map_eq_conv)
    have "map (node_view l2) ?cand = (if removeAll i (itms l ?a) = [] then []
         else [(fn_freq n, map (keyof l) (removeAll i (itms l ?a)))]) @ map (node_view l) post"
      using nv(2) l2(7) n by (simp del: map_eq_conv)
    then have "view l' = view_update ?p k (view l)"
      using l'(6) upd False nv(1) k2 i(2) by (simp del: map_eq_conv)
    moreover have "index_ok l' {}"
      using io l'(3-5) l2(3,4) k2 by (simp add: index_ok_def kept_def)
    moreover have "LFU_Update l k freq = Inr l'"
      using Some LFU_query [OF assms, of k] it(1) n l2(1) l'(1) False by (simp add: LFU_Update_def Let_def)
    ultimately show ?thesis using l'(2,5) l2(4) by (auto simp: lfu_inv_def kept_def)
  qed
qed

text \<open>Removing an item that the index has already forgotten, for \<open>Evict\<close> and \<open>Delete\<close>.\<close>

lemma remove_item:
  assumes "lfu_inv l" and "i \<in> set (all_items l)" and "inodes l i = Some it"
    and "key_delete bytes_of_u64 (lfuIndexer l) (keyof l i) = Inr idx"
  shows "\<exists>l2. drop_if_empty (pFreqHead it) (unlink_item i (l\<lparr>lfu_age := age', lfuIndexer := idx\<rparr>)) = Inr l2 \<and>
     lfu_inv (l2\<lparr>inodes := (inodes l2)(i := None)\<rparr>) \<and> lfu_age l2 = age' \<and>
     view (l2\<lparr>inodes := (inodes l2)(i := None)\<rparr>) = drop_key (keyof l i) (view l)"
proof -
  have qo: "queue_ok l {}" and io: "index_ok l {}" using assms(1) by (simp_all add: lfu_inv_def)
  let ?k = "keyof l i" and ?a = "pFreqHead it"
  obtain pre post where it: "freqQ l = pre @ ?a # post" "i \<in> set (itms l ?a)"
     "?k \<notin> set (view_keys (map (node_view l) pre))"
     "map (keyof l) (removeAll i (itms l ?a)) = removeAll ?k (map (keyof l) (itms l ?a))"
    using item_node [OF assms(1,2)] assms(3) by auto
  let ?l1 = "l\<lparr>lfu_age := age', lfuIndexer := idx\<rparr>"
  have s1: "itms ?l1 = itms l" "keyof ?l1 = keyof l" "node_view ?l1 = node_view l"
    by (simp_all add: itms_def keyof_def node_view_def fun_eq_iff)
  have q1: "queue_ok ?l1 {}" using qo by (simp add: queue_ok_def s1)
  have f1: "freqQ ?l1 = pre @ ?a # post" "i \<in> set (itms ?l1 ?a)" using it(1,2) s1 by simp_all
  obtain l2 where l2: "drop_if_empty ?a (unlink_item i ?l1) = Inr l2" "queue_ok l2 {i}" "inodes l2 = inodes l" "kept ?l1 l2"
      "freqQ l2 = pre @ (if removeAll i (itms l ?a) = [] then [] else [?a]) @ post"
      "map (node_view l2) (pre @ post) = map (node_view l) (pre @ post)"
      "removeAll i (itms l ?a) \<noteq> [] \<longrightarrow>
       node_view l2 ?a = (fn_freq (the (fnodes l ?a)), map (keyof l) (removeAll i (itms l ?a)))"
    using detach_item [OF q1 f1] by (auto simp: s1)
  let ?l3 = "l2\<lparr>inodes := (inodes l2)(i := None)\<rparr>"
  have k3: "keyof ?l3 j = keyof l j" if "j \<noteq> i" for j using l2(3) that by (simp add: keyof_def)
  have it3: "itms ?l3 = itms l2" by (simp add: itms_def fun_eq_iff)
  have ni: "i \<notin> set (all_items l2)" using l2(2) by (simp add: queue_ok_def)
  have kl2: "keyof l2 = keyof l" using l2(3) by (simp add: keyof_def fun_eq_iff)
  have nv3: "node_view ?l3 a = node_view l2 a" if "a \<in> set (freqQ l2)" for a
    using ni that k3 kl2 by (auto simp: node_view_def it3 intro!: map_cong k3)
  have "queue_ok ?l3 {}"
    using l2(2) ni by (auto simp: queue_ok_def it3)
  moreover have "index_ok ?l3 {}"
  proof -
    have ki: "key_inv bytes_of_u64 (lfuIndexer l)" using io by (simp add: index_ok_def)
    note d = idx64.delete_D [OF assms(4) ki]
    have "lfuIndexer ?l3 = idx" using l2(4) by (simp add: kept_def)
    moreover have "key_abs bytes_of_u64 idx m = Some j \<longleftrightarrow> j \<in> dom (inodes ?l3) \<and> keyof ?l3 j = m" for m j
    proof -
      have old: "key_abs bytes_of_u64 (lfuIndexer l) m = Some j \<longleftrightarrow> j \<in> set (all_items l) \<and> keyof l j = m"
        by (rule key_lookup [OF assms(1)])
      show ?thesis
      proof (cases "j = i")
        case True
        then show ?thesis using d(2) old by auto
      next
        case False
        then have "keyof l j = ?k \<Longrightarrow> j \<notin> set (all_items l)" using key_unique [OF assms(1) _ assms(2)] by blast
        then show ?thesis using d(2) old False k3 [OF False] l2(3) items_allocated [OF assms(1)] by auto
      qed
    qed
    ultimately show ?thesis using d(1) by (simp add: index_ok_def)
  qed
  moreover have "view ?l3 = drop_key ?k (view l)"
  proof -
    have v: "view ?l3 = map (node_view l2) (freqQ l2)" using nv3 by (simp add: view_def)
    have nv: "map (node_view l2) pre = map (node_view l) pre" "map (node_view l2) post = map (node_view l) post"
      using l2(6) by (simp_all del: map_eq_conv)
    have e: "removeAll i (itms l ?a) = [] \<longleftrightarrow> removeAll ?k (map (keyof l) (itms l ?a)) = []"
      by (simp only: it(4) [symmetric] map_is_Nil_conv)
    have na: "node_view l ?a = (fn_freq (the (fnodes l ?a)), map (keyof l) (itms l ?a))"
      by (simp add: node_view_def)
    have kin: "?k \<in> set (map (keyof l) (itms l ?a))" using it(2) by simp
    have "drop_key ?k (view l) = map (node_view l) pre @ (if removeAll i (itms l ?a) = [] then []
        else [(fn_freq (the (fnodes l ?a)), map (keyof l) (removeAll i (itms l ?a)))]) @ map (node_view l) post"
      unfolding view_def it(1) map_append list.map(2) drop_key_append [OF it(3)] na it(4) e
      using kin by simp
    then show ?thesis unfolding v l2(5) using nv l2(7) by (simp del: map_eq_conv)
  qed
  ultimately show ?thesis using l2(1,4) by (auto simp: lfu_inv_def kept_def)
qed

lemma view_empty: "view l = [] \<longleftrightarrow> freqQ l = []"
  by (simp add: view_def)

theorem LFU_Evict_spec:
  assumes "lfu_inv l"
  shows "LFU_Evict l = Inl ExitFailure \<and> view l = [] \<or>
     (\<exists>f ks r l'. view l = (f, ks) # r \<and> ks \<noteq> [] \<and> LFU_Evict l = Inr (last ks, l') \<and> lfu_inv l' \<and>
        lfu_age l' = f \<and> view l' = drop_key (last ks) (view l))"
proof (cases "freqQ l")
  case Nil
  then show ?thesis by (simp add: LFU_Evict_def view_empty)
next
  case (Cons a q)
  have qo: "queue_ok l {}" and io: "index_ok l {}" using assms by (simp_all add: lfu_inv_def)
  then have "a \<in> dom (fnodes l)" using Cons by (simp add: queue_ok_def)
  then obtain n where n: "fnodes l a = Some n" by blast
  have ne: "pItemHead n \<noteq> []" using qo Cons n by (auto simp: queue_ok_def itms_def)
  let ?i = "last (pItemHead n)"
  have ia: "?i \<in> set (itms l a)" using ne n by (simp add: itms_def)
  then have i: "?i \<in> set (all_items l)" using Cons by simp
  then obtain it where it: "inodes l ?i = Some it" using items_allocated [OF assms] by blast
  have h: "pFreqHead it = a" using qo Cons ia it by (auto simp: queue_ok_def)
  have ko: "keyof l ?i = it_key it" using it by (simp add: keyof_def)
  obtain idx where idx: "key_delete bytes_of_u64 (lfuIndexer l) (it_key it) = Inr idx"
    using idx64.delete [of "lfuIndexer l" "it_key it"] io by (auto simp: index_ok_def)
  obtain l2 where l2: "drop_if_empty a (unlink_item ?i (l\<lparr>lfu_age := fn_freq n, lfuIndexer := idx\<rparr>)) = Inr l2"
     "lfu_inv (l2\<lparr>inodes := (inodes l2)(?i := None)\<rparr>)" "lfu_age l2 = fn_freq n"
     "view (l2\<lparr>inodes := (inodes l2)(?i := None)\<rparr>) = drop_key (it_key it) (view l)"
    using remove_item [OF assms i it, of idx "fn_freq n"] idx ko h by auto
  have v: "view l = (fn_freq n, map (keyof l) (pItemHead n)) # map (node_view l) q"
    using Cons n by (simp add: view_def node_view_def itms_def)
  have lk: "last (map (keyof l) (pItemHead n)) = it_key it" using ne ko by (simp add: last_map)
  have "LFU_Evict l = Inr (it_key it, l2\<lparr>inodes := (inodes l2)(?i := None)\<rparr>)"
    using Cons n ne it idx l2(1) by (simp add: LFU_Evict_def Let_def)
  then show ?thesis using v lk l2(2-4) ne by auto
qed

theorem LFU_Delete_spec:
  assumes "lfu_inv l"
  shows "k \<notin> set (view_keys (view l)) \<Longrightarrow> LFU_Delete l k = Inl ExitFailure"
    and "k \<in> set (view_keys (view l)) \<Longrightarrow> \<exists>l'. LFU_Delete l k = Inr l' \<and> lfu_inv l' \<and>
           lfu_age l' = lfu_age l \<and> view l' = drop_key k (view l)"
proof -
  have io: "index_ok l {}" using assms by (simp add: lfu_inv_def)
  assume "k \<notin> set (view_keys (view l))"
  then have "key_abs bytes_of_u64 (lfuIndexer l) k = None" using key_present [OF assms] by simp
  then show "LFU_Delete l k = Inl ExitFailure" using LFU_query [OF assms, of k] by (simp add: LFU_Delete_def)
next
  have io: "index_ok l {}" using assms by (simp add: lfu_inv_def)
  assume "k \<in> set (view_keys (view l))"
  then obtain i where s: "key_abs bytes_of_u64 (lfuIndexer l) k = Some i" using key_present [OF assms, of k] by auto
  then have i: "i \<in> set (all_items l)" "keyof l i = k" using key_lookup [OF assms] by simp_all
  then obtain it where it: "inodes l i = Some it" using items_allocated [OF assms] by blast
  obtain idx where idx: "key_delete bytes_of_u64 (lfuIndexer l) k = Inr idx"
    using idx64.delete [of "lfuIndexer l" k] io by (auto simp: index_ok_def)
  have same: "l\<lparr>lfu_age := lfu_age l, lfuIndexer := idx\<rparr> = l\<lparr>lfuIndexer := idx\<rparr>" by simp
  obtain l2 where l2: "drop_if_empty (pFreqHead it) (unlink_item i (l\<lparr>lfuIndexer := idx\<rparr>)) = Inr l2"
     "lfu_inv (l2\<lparr>inodes := (inodes l2)(i := None)\<rparr>)" "lfu_age l2 = lfu_age l"
     "view (l2\<lparr>inodes := (inodes l2)(i := None)\<rparr>) = drop_key k (view l)"
    using remove_item [OF assms i(1) it, of idx "lfu_age l"] idx i(2) unfolding same by auto
  have "freqQ l \<noteq> []" using i(1) by auto
  then have "LFU_Delete l k = Inr (l2\<lparr>inodes := (inodes l2)(i := None)\<rparr>)"
    using s LFU_query [OF assms, of k] idx it l2(1) by (simp add: LFU_Delete_def)
  then show "\<exists>l'. LFU_Delete l k = Inr l' \<and> lfu_inv l' \<and> lfu_age l' = lfu_age l \<and> view l' = drop_key k (view l)"
    using l2(2-4) by simp
qed

lemma CreateLFU_spec:
  "lc_bucketCount conf \<noteq> 0 \<Longrightarrow> lfu_inv (CreateLFU conf) \<and> view (CreateLFU conf) = [] \<and> lfu_age (CreateLFU conf) = 0"
  by (simp add: lfu_inv_def queue_ok_def index_ok_def CreateLFU_def view_def CreateIndexer_key_inv)

text \<open>\<open>DestroyLFU\<close> frees every node once: no leak and no double free among the nodes.\<close>

lemma mset_items_nodes:
  "mset (concat (map (\<lambda>a. f a @ [a]) q)) = mset (concat (map f q)) + mset q"
  by (induction q) simp_all

end
