(* ===== verification/LFU_Queue.thy ===== *)
theory LFU_Queue
  imports LFU_Inv
begin

text \<open>
  The contract of the frequency queue, as the locale \<open>freq_queue\<close>: a finite map from keys to
  priorities whose eviction takes a key of least priority and makes that priority the age. The
  queue meets it as long as a key is never updated to a lower priority than it has (and it
  orders its nodes wrongly when one is, see \<open>update_down_breaks_order\<close>).
\<close>

fun prio :: "freq_view \<Rightarrow> u64 \<Rightarrow> u32 option" where
  "prio [] k = None"
| "prio ((f, ks) # r) k = (if k \<in> set ks then Some f else prio r k)"

definition ordered :: "freq_view \<Rightarrow> bool" where
  "ordered v \<longleftrightarrow> sorted_wrt (<) (map fst v) \<and> (\<forall>x \<in> set v. snd x \<noteq> [])"

lemma ordered_simps [simp]:
  "ordered []"
  "ordered (x # v) \<longleftrightarrow> (\<forall>y \<in> set v. fst x < fst y) \<and> snd x \<noteq> [] \<and> ordered v"
  by (auto simp: ordered_def)

lemma ordered_append:
  "ordered (v @ w) \<longleftrightarrow> ordered v \<and> ordered w \<and> (\<forall>x \<in> set v. \<forall>y \<in> set w. fst x < fst y)"
  by (induction v) auto

lemma prio_None: "prio v k = None \<longleftrightarrow> k \<notin> set (view_keys v)"
  by (induction v k rule: prio.induct) auto

lemma dom_prio: "dom (prio v) = set (view_keys v)"
  by (rule set_eqI) (simp add: domIff prio_None)

lemma prio_append: "prio (v @ w) k = (case prio v k of None \<Rightarrow> prio w k | Some f \<Rightarrow> Some f)"
  by (induction v k rule: prio.induct) auto

lemma prio_mem: "prio v k = Some f \<Longrightarrow> \<exists>ks. (f, ks) \<in> set v \<and> k \<in> set ks"
  by (induction v k rule: prio.induct) (auto split: if_split_asm)

lemma place_mem: "x \<in> set (place p k v) \<Longrightarrow> fst x = p \<or> (\<exists>y \<in> set v. fst x = fst y)"
  by (induction p k v rule: place.induct) (auto split: if_split_asm)

lemma ordered_place: "ordered v \<Longrightarrow> ordered (place p k v)"
proof (induction p k v rule: place.induct)
  case (2 p k f ks r)
  have "p < fst y" if "y \<in> set r" "p < f" for y using 2(2) that by fastforce
  moreover have "f < fst x" if "x \<in> set (place p k r)" "f \<noteq> p" "\<not> p < f" for x
    using place_mem [OF that(1)] 2(2) that by force
  ultimately show ?case using 2 by auto
qed simp

lemma keys_place: "set (view_keys (place p k v)) = insert k (set (view_keys v))"
  by (induction p k v rule: place.induct) auto

lemma prio_place: "k \<notin> set (view_keys v) \<Longrightarrow> prio (place p k v) = (prio v)(k \<mapsto> p)"
  by (induction p k v rule: place.induct) (auto simp: fun_eq_iff)

lemma removeAll_Nil: "removeAll k ks = [] \<Longrightarrow> set ks - {k} = {}"
  by (metis empty_set set_removeAll)

lemma keys_drop: "distinct (view_keys v) \<Longrightarrow> set (view_keys (drop_key k v)) = set (view_keys v) - {k}"
proof (induction k v rule: drop_key.induct)
  case (2 k f ks r)
  show ?case
  proof (cases "k \<in> set ks")
    case True
    then have "k \<notin> set (view_keys r)" using 2(2) by auto
    then show ?thesis using True removeAll_Nil [of k ks] by auto
  next
    case False
    then show ?thesis using 2 by auto
  qed
qed simp

lemma drop_mem: "x \<in> set (drop_key k v) \<Longrightarrow> \<exists>y \<in> set v. fst x = fst y"
  by (induction k v rule: drop_key.induct) (auto split: if_split_asm)

lemma ordered_drop: "ordered v \<Longrightarrow> ordered (drop_key k v)"
proof (induction k v rule: drop_key.induct)
  case (2 k f ks r)
  have "f < fst x" if "x \<in> set (drop_key k r)" for x using drop_mem [OF that] 2(2) by auto
  then show ?case using 2 by auto
qed simp

lemma prio_drop: "distinct (view_keys v) \<Longrightarrow> prio (drop_key k v) = (prio v)(k := None)"
proof (induction k v rule: drop_key.induct)
  case (2 k f ks r)
  show ?case
  proof (cases "k \<in> set ks")
    case True
    then have "k \<notin> set (view_keys r)" using 2(2) by auto
    then have "prio r k = None" by (simp add: prio_None)
    moreover have "removeAll k ks = [] \<Longrightarrow> j \<in> set ks \<Longrightarrow> j = k" for j
      using removeAll_Nil [of k ks] by blast
    ultimately show ?thesis using True by (auto simp: fun_eq_iff)
  next
    case False
    then show ?thesis using 2 by (auto simp: fun_eq_iff)
  qed
qed (simp add: fun_eq_iff)

lemma move_key_spec:
  assumes "ordered v" and "distinct (view_keys v)" and "prio v k = Some f0" and "f0 \<le> p"
  shows "ordered (move_key p k v)" and "prio (move_key p k v) = (prio v)(k \<mapsto> p)"
    and "x \<in> set (move_key p k v) \<Longrightarrow> fst x = p \<or> (\<exists>y \<in> set v. fst x = fst y)"
proof -
  have "ordered (move_key p k v) \<and> prio (move_key p k v) = (prio v)(k \<mapsto> p) \<and>
      (\<forall>x \<in> set (move_key p k v). fst x = p \<or> (\<exists>y \<in> set v. fst x = fst y))"
    using assms
  proof (induction p k v rule: move_key.induct)
    case (2 p k f ks r)
    show ?case
    proof (cases "k \<in> set ks")
      case True
      show ?thesis
      proof (cases "f = p")
        case True
        with \<open>k \<in> set ks\<close> 2(2) show ?thesis by (auto simp: fun_eq_iff)
      next
        case False
        let ?d = "drop_key k ((f, ks) # r)"
        have m: "move_key p k ((f, ks) # r) = place p k ?d" using True False by simp
        have d: "ordered ?d" using 2(2) by (rule ordered_drop)
        have nk: "k \<notin> set (view_keys ?d)" using keys_drop [OF 2(3)] by blast
        have "prio (place p k ?d) = (prio ((f, ks) # r))(k \<mapsto> p)"
          using prio_place [OF nk] prio_drop [OF 2(3)] by (simp del: drop_key.simps prio.simps)
        moreover have "fst x = p \<or> (\<exists>y \<in> set ((f, ks) # r). fst x = fst y)" if "x \<in> set (place p k ?d)" for x
          using place_mem [OF that] drop_mem by metis
        ultimately show ?thesis unfolding m using ordered_place [OF d] by blast
      qed
    next
      case False
      have ih: "ordered (move_key p k r)" "prio (move_key p k r) = (prio r)(k \<mapsto> p)"
        "\<forall>x \<in> set (move_key p k r). fst x = p \<or> (\<exists>y \<in> set r. fst x = fst y)"
        using 2(1) [OF False] 2(2-5) False by auto
      have "prio r k = Some f0" using 2(4) False by simp
      then have "f < f0" using prio_mem [of r k f0] 2(2) by force
      then have "f < p" using 2(5) by simp
      then have "f < fst x" if "x \<in> set (move_key p k r)" for x
        using ih(3) that 2(2) by fastforce
      then show ?thesis using ih False 2(2) by (auto simp: fun_eq_iff)
    qed
  qed simp
  then show "ordered (move_key p k v)" "prio (move_key p k v) = (prio v)(k \<mapsto> p)"
    "x \<in> set (move_key p k v) \<Longrightarrow> fst x = p \<or> (\<exists>y \<in> set v. fst x = fst y)" by blast+
qed

lemma view_update_spec:
  assumes "ordered v" and "distinct (view_keys v)" and "\<And>f. prio v k = Some f \<Longrightarrow> f \<le> p"
  shows "ordered (view_update p k v)" and "prio (view_update p k v) = (prio v)(k \<mapsto> p)"
proof -
  have "ordered (view_update p k v) \<and> prio (view_update p k v) = (prio v)(k \<mapsto> p)"
  proof (cases "prio v k")
    case None
    then have "k \<notin> set (view_keys v)" by (simp add: prio_None)
    then show ?thesis using ordered_place [OF assms(1)] prio_place [of k v p] by (simp add: view_update_def)
  next
    case (Some f)
    then have "k \<in> set (view_keys v)" using prio_None [of v k] by auto
    then show ?thesis using move_key_spec(1,2) [OF assms(1,2) Some assms(3) [OF Some]] by (simp add: view_update_def)
  qed
  then show "ordered (view_update p k v)" "prio (view_update p k v) = (prio v)(k \<mapsto> p)" by blast+
qed

lemma prio_least:
  assumes "ordered ((f, ks) # r)" and "prio ((f, ks) # r) k = Some g"
  shows "f \<le> g"
  using prio_mem [OF assms(2)] assms(1) by force

subsection \<open>The contract\<close>

locale freq_queue =
  fixes update :: "'q \<Rightarrow> 'k \<Rightarrow> u32 \<Rightarrow> fault + 'q"
    and evict :: "'q \<Rightarrow> fault + 'k \<times> 'q"
    and delete :: "'q \<Rightarrow> 'k \<Rightarrow> fault + 'q"
    and inv :: "'q \<Rightarrow> bool"
    and prios :: "'q \<Rightarrow> 'k \<Rightarrow> u32 option"
    and age :: "'q \<Rightarrow> u32"
  assumes finite_prios: "inv q \<Longrightarrow> finite (dom (prios q))"
    and update: "inv q \<Longrightarrow> (\<And>f. prios q k = Some f \<Longrightarrow> f \<le> w + age q) \<Longrightarrow>
      \<exists>q'. update q k w = Inr q' \<and> inv q' \<and> prios q' = (prios q)(k \<mapsto> w + age q) \<and> age q' = age q"
    and evict_empty: "inv q \<Longrightarrow> prios q = Map.empty \<Longrightarrow> evict q = Inl ExitFailure"
    and evict: "inv q \<Longrightarrow> prios q \<noteq> Map.empty \<Longrightarrow>
      \<exists>k f q'. evict q = Inr (k, q') \<and> inv q' \<and> prios q k = Some f \<and>
        (\<forall>k' f'. prios q k' = Some f' \<longrightarrow> f \<le> f') \<and> prios q' = (prios q)(k := None) \<and> age q' = f"
    and delete_missing: "inv q \<Longrightarrow> prios q k = None \<Longrightarrow> delete q k = Inl ExitFailure"
    and delete: "inv q \<Longrightarrow> prios q k \<noteq> None \<Longrightarrow>
      \<exists>q'. delete q k = Inr q' \<and> inv q' \<and> prios q' = (prios q)(k := None) \<and> age q' = age q"
begin

lemma evict_D:
  assumes "evict q = Inr (k, q')" and "inv q"
  shows "inv q'" and "prios q' = (prios q)(k := None)" and "prios q k = Some (age q')"
    and "prios q k' = Some f' \<Longrightarrow> age q' \<le> f'"
proof -
  have "prios q \<noteq> Map.empty" using evict_empty [OF assms(2)] assms(1) by auto
  from evict [OF assms(2) this] assms(1)
  show "inv q'" "prios q' = (prios q)(k := None)" "prios q k = Some (age q')"
    "prios q k' = Some f' \<Longrightarrow> age q' \<le> f'" by auto
qed

text \<open>What is left after an eviction is no cheaper than the new age, and the size drops by one.\<close>

lemma evict_left: "evict q = Inr (k, q') \<Longrightarrow> inv q \<Longrightarrow> prios q' k' = Some f' \<Longrightarrow> age q' \<le> f'"
  using evict_D [of q k q'] by (auto split: if_split_asm)

lemma evict_card:
  assumes "evict q = Inr (k, q')" and "inv q"
  shows "card (dom (prios q)) = Suc (card (dom (prios q')))"
proof -
  have "dom (prios q') = dom (prios q) - {k}" "k \<in> dom (prios q)"
    using evict_D(2,3) [OF assms] by auto
  then show ?thesis using card_Suc_Diff1 [OF finite_prios [OF assms(2)], of k] by simp
qed

lemma evict_total: "inv q \<Longrightarrow> 0 < card (dom (prios q)) \<Longrightarrow> \<exists>k q'. evict q = Inr (k, q')"
  using evict [of q] by (metis card.empty dom_empty less_irrefl)

end

definition lfu_ok :: "LFU \<Rightarrow> bool" where
  "lfu_ok l \<longleftrightarrow> lfu_inv l \<and> ordered (view l)"

definition lfu_prio :: "LFU \<Rightarrow> u64 \<Rightarrow> u32 option" where
  "lfu_prio l = prio (view l)"

interpretation lfuq: freq_queue LFU_Update LFU_Evict LFU_Delete lfu_ok lfu_prio lfu_age
proof unfold_locales
  fix q k w assume q: "lfu_ok q"
  have i: "lfu_inv q" "ordered (view q)" using q by (simp_all add: lfu_ok_def)
  note d = distinct_view_keys [OF i(1)]
  show "finite (dom (lfu_prio q))" by (simp add: lfu_prio_def dom_prio)
  show "lfu_prio q = Map.empty \<Longrightarrow> LFU_Evict q = Inl ExitFailure"
  proof -
    assume e: "lfu_prio q = Map.empty"
    have "view q = []"
    proof (cases "view q")
      case (Cons x v)
      then have "lfu_prio q (hd (snd x)) \<noteq> None" using i(2) by (cases x) (auto simp: lfu_prio_def)
      then show ?thesis using e by simp
    qed
    then show ?thesis using LFU_Evict_spec [OF i(1)] by auto
  qed
  show "\<exists>k f q'. LFU_Evict q = Inr (k, q') \<and> lfu_ok q' \<and> lfu_prio q k = Some f \<and>
        (\<forall>k' f'. lfu_prio q k' = Some f' \<longrightarrow> f \<le> f') \<and> lfu_prio q' = (lfu_prio q)(k := None) \<and> lfu_age q' = f"
    if "lfu_prio q \<noteq> Map.empty"
  proof -
    have "view q \<noteq> []" using that by (auto simp: lfu_prio_def fun_eq_iff)
    then obtain f ks r l' where e: "view q = (f, ks) # r" "ks \<noteq> []" "LFU_Evict q = Inr (last ks, l')" "lfu_inv l'"
        "lfu_age l' = f" "view l' = drop_key (last ks) (view q)"
      using LFU_Evict_spec [OF i(1)] by auto
    have "ordered (view l')" using ordered_drop [OF i(2)] e(6) by simp
    moreover have "lfu_prio l' = (lfu_prio q)(last ks := None)" using prio_drop [OF d] e(6) by (simp add: lfu_prio_def)
    moreover have "lfu_prio q (last ks) = Some f" using e(1,2) by (simp add: lfu_prio_def)
    moreover have "lfu_prio q k' = Some f' \<Longrightarrow> f \<le> f'" for k' f'
      using prio_least [of f ks r k' f'] i(2) e(1) by (simp add: lfu_prio_def)
    ultimately show ?thesis using e(3-5) by (auto simp: lfu_ok_def)
  qed
  show "lfu_prio q k = None \<Longrightarrow> LFU_Delete q k = Inl ExitFailure"
    using LFU_Delete_spec(1) [OF i(1)] by (simp add: lfu_prio_def prio_None)
  show "\<exists>q'. LFU_Delete q k = Inr q' \<and> lfu_ok q' \<and> lfu_prio q' = (lfu_prio q)(k := None) \<and> lfu_age q' = lfu_age q"
    if "lfu_prio q k \<noteq> None"
    using LFU_Delete_spec(2) [OF i(1), of k] that ordered_drop [OF i(2)] prio_drop [OF d, of k]
    by (auto simp: lfu_prio_def prio_None lfu_ok_def)
  show "\<exists>q'. LFU_Update q k w = Inr q' \<and> lfu_ok q' \<and> lfu_prio q' = (lfu_prio q)(k \<mapsto> w + lfu_age q) \<and> lfu_age q' = lfu_age q"
    if "\<And>f. lfu_prio q k = Some f \<Longrightarrow> f \<le> w + lfu_age q"
  proof -
    have "\<And>f. prio (view q) k = Some f \<Longrightarrow> f \<le> w + lfu_age q" using that by (simp add: lfu_prio_def)
    note u = view_update_spec [OF i(2) d this]
    show ?thesis using LFU_Update_spec [OF i(1), of k w] u by (auto simp: lfu_ok_def lfu_prio_def)
  qed
qed

lemma CreateLFU_ok:
  "lc_bucketCount conf \<noteq> 0 \<Longrightarrow>
   lfu_ok (CreateLFU conf) \<and> lfu_prio (CreateLFU conf) = Map.empty \<and> lfu_age (CreateLFU conf) = 0"
  using CreateLFU_spec [of conf] by (auto simp: lfu_ok_def lfu_prio_def fun_eq_iff)

text \<open>A key updated downwards stays behind dearer keys: node 5 now precedes node 2.\<close>

lemma update_down_breaks_order:
  "view_update 2 7 [(5, [9]), (6, [7])] = [(5, [9]), (2, [7])]"
  by (simp add: view_update_def)

end
