(* ===== verification/Double_Freq.thy ===== *)
theory Double_Freq
  imports Prelude
begin

text \<open>
  The expression \<open>(uint32_t)(0.7 * readFreq + 0.3 * writeFreq)\<close> of src/src/base/tier_module.c, in IEEE
  binary64 with rounding to nearest, ties to even, and without fused multiply-add. All values
  are multiples of 2^-54 and are kept as natural numbers of that unit: 0.7 is the double
  6305039478318694 * 2^-53, 0.3 is 5404319552844595 * 2^-54. A result below 2^53 units is exact;
  a larger one is rounded to 53 significant bits. The value never reaches 2^32, so the final
  conversion is defined and truncates.
\<close>

fun bit_len :: "nat \<Rightarrow> nat" where
  "bit_len n = (if n = 0 then 0 else Suc (bit_len (n div 2)))"

declare bit_len.simps [simp del]

definition round_at :: "nat \<Rightarrow> nat \<Rightarrow> nat" where
  "round_at e n =
     (let q = n div 2 ^ e; r = n mod 2 ^ e
      in (if 2 * r > 2 ^ e \<or> 2 * r = 2 ^ e \<and> odd q then q + 1 else q) * 2 ^ e)"

definition round53 :: "nat \<Rightarrow> nat" where
  "round53 n = (if n < 2 ^ 53 then n else round_at (bit_len n - 53) n)"

definition weighted_freq :: "u32 \<Rightarrow> u32 \<Rightarrow> u32" where
  "weighted_freq readFreq writeFreq = of_nat (round53
     (round53 (2 * 6305039478318694 * unat readFreq) + round53 (5404319552844595 * unat writeFreq)) div 2 ^ 54)"

subsection \<open>Rounding\<close>

lemma bit_len_le: "bit_len n \<le> k \<longleftrightarrow> n < 2 ^ k"
proof (induction n arbitrary: k rule: bit_len.induct)
  case (1 n)
  show ?case
  proof (cases "n = 0")
    case True
    then show ?thesis by (simp add: bit_len.simps)
  next
    case False
    then have b: "bit_len n = Suc (bit_len (n div 2))" by (simp add: bit_len.simps)
    show ?thesis
    proof (cases k)
      case 0
      then show ?thesis using False b by simp
    next
      case (Suc j)
      then have "bit_len n \<le> k \<longleftrightarrow> n div 2 < 2 ^ j" using b 1 [OF False] by simp
      then show ?thesis using Suc by (simp add: less_mult_imp_div_less div_less_iff_less_mult mult.commute)
    qed
  qed
qed

lemma bit_len_bounds: "0 < n \<Longrightarrow> 2 ^ (bit_len n - 1) \<le> n \<and> n < 2 ^ bit_len n"
  using bit_len_le [of n "bit_len n"] bit_len_le [of n "bit_len n - 1"]
  by (cases "bit_len n") (auto simp: bit_len.simps not_le not_less split: if_split_asm)

lemma round_at_bounds: "2 * n \<le> 2 * round_at e n + 2 ^ e" "2 * round_at e n \<le> 2 * n + 2 ^ e"
proof -
  define q where "q = n div 2 ^ e"
  define r where "r = n mod 2 ^ e"
  have n: "n = q * 2 ^ e + r" by (simp only: q_def r_def div_mult_mod_eq)
  have "r < 2 ^ e" by (simp add: r_def)
  then show "2 * n \<le> 2 * round_at e n + 2 ^ e" "2 * round_at e n \<le> 2 * n + 2 ^ e"
    unfolding round_at_def Let_def q_def [symmetric] r_def [symmetric]
    by (auto simp: n algebra_simps)
qed

lemma round_at_mono:
  assumes "m \<le> n"
  shows "round_at e m \<le> round_at e n"
proof (cases "m div 2 ^ e = n div 2 ^ e")
  case True
  have "m mod 2 ^ e \<le> n mod 2 ^ e"
    using assms True by (metis add_le_cancel_left div_mult_mod_eq)
  then show ?thesis using True by (auto simp: round_at_def Let_def)
next
  case False
  then have "m div 2 ^ e < n div 2 ^ e" using assms div_le_mono [of m n "2 ^ e"] by simp
  then have "(if c then m div 2 ^ e + 1 else m div 2 ^ e) \<le> (if d then n div 2 ^ e + 1 else n div 2 ^ e)" for c d
    by auto
  then show ?thesis unfolding round_at_def Let_def by (rule mult_right_mono) simp
qed

lemma round_at_high:
  assumes "n < 2 ^ (53 + e)"
  shows "round_at e n \<le> 2 ^ (53 + e)"
proof -
  have "n div 2 ^ e < 2 ^ 53" using assms by (simp add: div_less_iff_less_mult power_add)
  then have "(if c then n div 2 ^ e + 1 else n div 2 ^ e) * 2 ^ e \<le> 2 ^ 53 * 2 ^ e" for c
    by (intro mult_right_mono) auto
  then show ?thesis by (simp only: round_at_def Let_def power_add)
qed

lemma round_at_low:
  assumes "2 ^ (52 + e) \<le> n"
  shows "2 ^ (52 + e) \<le> round_at e n"
proof -
  have "2 ^ 52 \<le> n div 2 ^ e" using assms by (simp add: less_eq_div_iff_mult_less_eq power_add)
  then have "2 ^ 52 * 2 ^ e \<le> (if c then n div 2 ^ e + 1 else n div 2 ^ e) * 2 ^ e" for c
    by (intro mult_right_mono) auto
  then show ?thesis by (simp only: round_at_def Let_def power_add)
qed

lemma round53_mono:
  assumes "m \<le> n"
  shows "round53 m \<le> round53 n"
proof -
  consider "n < 2 ^ 53" | "m < 2 ^ 53" "2 ^ 53 \<le> n" | "2 ^ 53 \<le> m" "2 ^ 53 \<le> n" using assms by linarith
  then show ?thesis
  proof cases
    case 1
    then show ?thesis using assms by (simp add: round53_def)
  next
    case 2
    define e where "e = bit_len n - 53"
    have l: "\<not> bit_len n \<le> 53" using 2(2) by (simp add: bit_len_le)
    have "2 ^ (52 + e) \<le> n" using bit_len_bounds [of n] 2(2) l by (simp add: e_def)
    then have "2 ^ (52 + e) \<le> round_at e n" by (rule round_at_low)
    moreover have "(2 :: nat) ^ 53 \<le> 2 ^ (52 + e)" using l by (intro power_increasing) (simp_all add: e_def)
    ultimately show ?thesis using 2 by (simp add: round53_def e_def)
  next
    case 3
    define d where "d = bit_len m - 53"
    define e where "e = bit_len n - 53"
    have l: "\<not> bit_len m \<le> 53" "\<not> bit_len n \<le> 53" using 3 by (simp_all add: bit_len_le)
    have de: "d \<le> e"
    proof -
      have "n < 2 ^ bit_len n" using bit_len_bounds [of n] 3 by simp
      then have "bit_len m \<le> bit_len n" using assms by (simp add: bit_len_le)
      then show ?thesis by (simp add: d_def e_def)
    qed
    have r: "round53 m = round_at d m" "round53 n = round_at e n" using 3 by (simp_all add: round53_def d_def e_def)
    show ?thesis
    proof (cases "d = e")
      case True
      then show ?thesis using r round_at_mono [OF assms] by simp
    next
      case False
      have "m < 2 ^ (53 + d)" using bit_len_bounds [of m] 3 l by (simp add: d_def)
      then have "round_at d m \<le> 2 ^ (53 + d)" by (rule round_at_high)
      also have "\<dots> \<le> 2 ^ (52 + e)" using False de by (intro power_increasing) simp_all
      also have "\<dots> \<le> round_at e n"
        using bit_len_bounds [of n] 3 l by (intro round_at_low) (simp add: e_def)
      finally show ?thesis using r by simp
    qed
  qed
qed

lemma round53_error:
  assumes "n < 2 ^ 88"
  shows "round53 n \<le> n + 2 ^ 34" and "n \<le> round53 n + 2 ^ 34"
proof -
  have "bit_len n - 53 \<le> 35" using assms bit_len_le [of n 88] by simp
  then have "(2 :: nat) ^ (bit_len n - 53) \<le> 2 ^ 35" by (intro power_increasing) simp_all
  then show "round53 n \<le> n + 2 ^ 34" "n \<le> round53 n + 2 ^ 34"
    using round_at_bounds [where n = n and e = "bit_len n - 53"] by (auto simp: round53_def)
qed

subsection \<open>The weighted frequency\<close>

definition weighted_units :: "nat \<Rightarrow> nat \<Rightarrow> nat" where
  "weighted_units r w = round53 (round53 (2 * 6305039478318694 * r) + round53 (5404319552844595 * w))"

lemma weighted_units_mono: "r \<le> r' \<Longrightarrow> w \<le> w' \<Longrightarrow> weighted_units r w \<le> weighted_units r' w'"
  unfolding weighted_units_def by (intro round53_mono add_mono mult_le_mono2)

lemma weighted_units_bounds:
  assumes "r < 2 ^ 32" and "w < 2 ^ 32"
  shows "10 * weighted_units r w \<le> 2 ^ 54 * (7 * r + 3 * w) + 2 ^ 40"
    and "2 ^ 54 * (7 * r + 3 * w) \<le> 10 * weighted_units r w + 2 ^ 40"
proof -
  define X where "X = round53 (2 * 6305039478318694 * r)"
  define Y where "Y = round53 (5404319552844595 * w)"
  have 1: "2 * 6305039478318694 * r < 2 ^ 88" "5404319552844595 * w < 2 ^ 88"
    using assms by simp_all
  note x = round53_error [OF 1(1), folded X_def] and y = round53_error [OF 1(2), folded Y_def]
  have "X + Y < 2 ^ 88" using x(1) y(1) assms by simp
  note s = round53_error [OF this]
  have u: "weighted_units r w = round53 (X + Y)" by (simp add: weighted_units_def X_def Y_def)
  show "10 * weighted_units r w \<le> 2 ^ 54 * (7 * r + 3 * w) + 2 ^ 40"
    using x(1) y(1) s(1) assms unfolding u by simp
  show "2 ^ 54 * (7 * r + 3 * w) \<le> 10 * weighted_units r w + 2 ^ 40"
    using x(2) y(2) s(2) assms unfolding u by simp
qed

lemma weighted_freq_unat:
  "unat (weighted_freq r w) = weighted_units (unat r) (unat w) div 2 ^ 54"
proof -
  have "unat r \<le> 4294967295" "unat w \<le> 4294967295" using unat_lt2p32 [of r] unat_lt2p32 [of w] by simp_all
  then have "10 * weighted_units (unat r) (unat w) \<le> 2 ^ 54 * (7 * 4294967295 + 3 * 4294967295) + 2 ^ 40"
    using weighted_units_bounds(1) [of "unat r" "unat w"] by simp
  then have "weighted_units (unat r) (unat w) div 2 ^ 54 < 4294967296"
    by (simp add: div_less_iff_less_mult)
  then show ?thesis by (simp add: weighted_freq_def weighted_units_def unat_of_nat_len32)
qed

lemma weighted_freq_mono: "r \<le> r' \<Longrightarrow> w \<le> w' \<Longrightarrow> weighted_freq r w \<le> weighted_freq r' w'"
  by (simp add: word_le_nat_alt weighted_freq_unat div_le_mono weighted_units_mono)

lemma weighted_freq_bounds:
  "unat (weighted_freq r w) \<le> (7 * unat r + 3 * unat w) div 10"
  "(7 * unat r + 3 * unat w) div 10 \<le> unat (weighted_freq r w) + 1"
proof -
  define u where "u = weighted_units (unat r) (unat w)"
  define t where "t = 7 * unat r + 3 * unat w"
  have "unat r < 2 ^ 32" "unat w < 2 ^ 32" using unat_lt2p32 [of r] unat_lt2p32 [of w] by simp_all
  from weighted_units_bounds [OF this]
  have b: "10 * u \<le> 2 ^ 54 * t + 2 ^ 40" "2 ^ 54 * t \<le> 10 * u + 2 ^ 40" by (simp_all add: u_def t_def)
  have "u div 2 ^ 54 \<le> t div 10"
  proof (rule ccontr)
    assume "\<not> u div 2 ^ 54 \<le> t div 10"
    then have "t div 10 + 1 \<le> u div 2 ^ 54" by simp
    then have "(t div 10 + 1) * 2 ^ 54 \<le> u" by (simp add: less_eq_div_iff_mult_less_eq)
    moreover have "t \<le> 10 * (t div 10) + 9" by presburger
    ultimately show False using b(1) by simp
  qed
  moreover have "t div 10 \<le> u div 2 ^ 54 + 1"
  proof -
    have "u < 2 ^ 54 * (u div 2 ^ 54 + 1)" by (metis div_less_iff_less_mult less_add_one mult.commute zero_less_numeral zero_less_power)
    moreover have "10 * (t div 10) \<le> t" by presburger
    ultimately have "2 ^ 54 * (10 * (t div 10)) < 2 ^ 54 * (10 * (u div 2 ^ 54 + 1) + 1)" using b(2) by simp
    then show ?thesis by simp
  qed
  ultimately show "unat (weighted_freq r w) \<le> (7 * unat r + 3 * unat w) div 10"
    "(7 * unat r + 3 * unat w) div 10 \<le> unat (weighted_freq r w) + 1"
    by (simp_all add: weighted_freq_unat u_def t_def)
qed

end
