(* ===== verification/Tier_Module.thy ===== *)
theory Tier_Module
  imports LFU_Queue Double_Freq
begin

text \<open>
  The access statistics of one tier: src/src/base/tier_module.c and tier_module.h. Every page has a
  read and a write counter; their weighted sum drives the frequency queue, and tiering down
  takes the pages that the queue evicts. A \<open>PageFreq *\<close> from the index is written through
  (\<open>key_poke\<close>). An \<open>int32_t\<close> result is a boolean, true for \<open>RETURN_OK\<close>, where it can be either.
\<close>

record PageFreq =
  readFreq :: u32
  writeFreq :: u32

record TierPage =
  tp_lba :: u64
  tp_freq :: PageFreq

record TierModule =
  pageFreqIndexer :: "PageFreq Indexer"
  lfu :: LFU

definition align_page :: "u64 \<Rightarrow> u64" where
  "align_page lba = push_bit 13 (drop_bit 13 lba)"

definition UpdateLFU :: "TierModule \<Rightarrow> PageFreq \<Rightarrow> u64 \<Rightarrow> fault + TierModule" where
  "UpdateLFU t pf lba =
     bindE (LFU_Update (lfu t) lba (weighted_freq (readFreq pf) (writeFreq pf))) (\<lambda>l. Inr (t\<lparr>lfu := l\<rparr>))"

definition Tier_WriteIO :: "TierModule \<Rightarrow> u64 \<Rightarrow> u32 \<Rightarrow> PageFreq \<Rightarrow> bool \<Rightarrow> fault + TierModule" where
  "Tier_WriteIO t lba0 len oldPageFreq isHost =
     (let lba = align_page lba0 in
      bindE (key_query bytes_of_u64 (pageFreqIndexer t) lba) (\<lambda>r.
      bindE (case r of
          Some pf \<Rightarrow> Inr (pf, t)
        | None \<Rightarrow>
            let pf = \<lparr>readFreq = readFreq oldPageFreq, writeFreq = writeFreq oldPageFreq\<rparr> in
            bindE (key_insert bytes_of_u64 (pageFreqIndexer t) lba pf) (\<lambda>idx.
            Inr (pf, t\<lparr>pageFreqIndexer := idx\<rparr>))) (\<lambda>(pf, t1).
      let (pf2, t2) =
        (if isHost
         then (pf\<lparr>writeFreq := writeFreq pf + 1\<rparr>,
               t1\<lparr>pageFreqIndexer := key_poke bytes_of_u64 (pageFreqIndexer t1) lba
                    (\<lambda>p. p\<lparr>writeFreq := writeFreq p + 1\<rparr>)\<rparr>)
         else (pf, t1))
      in UpdateLFU t2 pf2 lba)))"

definition Tier_ReadHostIO :: "TierModule \<Rightarrow> u64 \<Rightarrow> u32 \<Rightarrow> fault + bool \<times> TierModule" where
  "Tier_ReadHostIO t lba0 len =
     (let lba = align_page lba0 in
      bindE (key_query bytes_of_u64 (pageFreqIndexer t) lba) (\<lambda>r.
      case r of None \<Rightarrow> Inr (False, t)
      | Some pf \<Rightarrow>
          let t1 = t\<lparr>pageFreqIndexer := key_poke bytes_of_u64 (pageFreqIndexer t) lba
                    (\<lambda>p. p\<lparr>readFreq := readFreq p + 1\<rparr>)\<rparr>
          in bindE (UpdateLFU t1 (pf\<lparr>readFreq := readFreq pf + 1\<rparr>) lba) (\<lambda>t2. Inr (True, t2))))"

definition Tier_DeleteData :: "TierModule \<Rightarrow> u64 \<Rightarrow> u32 \<Rightarrow> fault + TierModule" where
  "Tier_DeleteData t lba0 len =
     (let lba = align_page lba0 in
      bindE (LFU_Delete (lfu t) lba) (\<lambda>l.
      bindE (key_delete bytes_of_u64 (pageFreqIndexer t) lba) (\<lambda>idx.
      Inr (t\<lparr>lfu := l, pageFreqIndexer := idx\<rparr>))))"

text \<open>The loop of \<open>TierDown\<close> with \<open>n\<close> rounds to go; the result lists the entries it fills.\<close>

primrec tier_down :: "nat \<Rightarrow> TierModule \<Rightarrow> fault + TierPage list \<times> TierModule" where
  "tier_down 0 t = Inr ([], t)"
| "tier_down (Suc n) t =
     bindE (LFU_Evict (lfu t)) (\<lambda>(lba, l).
     bindE (key_query bytes_of_u64 (pageFreqIndexer t) lba) (\<lambda>r.
     case r of None \<Rightarrow> Inl NullDeref | Some pf \<Rightarrow>
     bindE (key_delete bytes_of_u64 (pageFreqIndexer t) lba) (\<lambda>idx.
     bindE (tier_down n (t\<lparr>lfu := l, pageFreqIndexer := idx\<rparr>)) (\<lambda>(ps, t').
     Inr (\<lparr>tp_lba = lba, tp_freq = pf\<rparr> # ps, t')))))"

definition Tier_TierDown :: "TierModule \<Rightarrow> u32 \<Rightarrow> fault + bool \<times> TierPage list \<times> TierModule" where
  "Tier_TierDown t pageCnt = bindE (tier_down (unat pageCnt) t) (\<lambda>(ps, t'). Inr (pageCnt \<noteq> 0, ps, t'))"

text \<open>
  \<open>QueryPageHistoryFreq\<close> overwrites its own copy of the pointer \<open>pageFreq\<close>: the caller learns
  whether the page is known, and its \<open>PageFreq\<close> is not filled in.
\<close>

definition Tier_QueryPageHistoryFreq :: "TierModule \<Rightarrow> u64 \<Rightarrow> PageFreq \<Rightarrow> fault + bool \<times> PageFreq" where
  "Tier_QueryPageHistoryFreq t lba0 pageFreq =
     bindE (key_query bytes_of_u64 (pageFreqIndexer t) (align_page lba0)) (\<lambda>r. Inr (r \<noteq> None, pageFreq))"

record TierModuleConfigure =
  indexBucketNum :: u32

definition CreateTierModule :: "TierModuleConfigure \<Rightarrow> TierModule" where
  "CreateTierModule conf =
     \<lparr>pageFreqIndexer = CreateIndexer 8 (indexBucketNum conf * 100),
      lfu = CreateLFU \<lparr>lc_keySize = 8, lc_bucketCount = indexBucketNum conf * 100\<rparr>\<rparr>"

definition DestroyTierModule :: "TierModule \<Rightarrow> (nat list \<times> nat list) \<times> PageFreq list" where
  "DestroyTierModule t = (DestroyLFU (lfu t), map he_val (fst (DestroyIndexer (pageFreqIndexer t))))"

subsection \<open>What always holds\<close>

definition freq_abs :: "TierModule \<Rightarrow> u64 \<Rightarrow> PageFreq option" where
  "freq_abs t = key_abs bytes_of_u64 (pageFreqIndexer t)"

definition tier_inv :: "TierModule \<Rightarrow> bool" where
  "tier_inv t \<longleftrightarrow> key_inv bytes_of_u64 (pageFreqIndexer t) \<and> lfu_inv (lfu t) \<and>
     dom (freq_abs t) = set (view_keys (view (lfu t)))"

lemma keys_move: "k \<in> set (view_keys v) \<Longrightarrow> distinct (view_keys v) \<Longrightarrow>
  set (view_keys (move_key p k v)) = set (view_keys v)"
proof (induction p k v rule: move_key.induct)
  case (2 p k f ks r)
  show ?case
  proof (cases "k \<in> set ks \<and> f \<noteq> p")
    case True
    then show ?thesis using keys_drop [OF 2(3), of k] 2(2) keys_place [of p k "drop_key k ((f, ks) # r)"]
      by (auto simp del: drop_key.simps)
  next
    case False
    then show ?thesis using 2 by auto
  qed
qed simp

lemma keys_update: "distinct (view_keys v) \<Longrightarrow> set (view_keys (view_update p k v)) = insert k (set (view_keys v))"
  using keys_move [of k v p] keys_place [of p k v] by (auto simp: view_update_def)

lemma UpdateLFU_spec:
  assumes "lfu_inv (lfu t)"
  shows "\<exists>t'. UpdateLFU t pf k = Inr t' \<and> lfu_inv (lfu t') \<and> pageFreqIndexer t' = pageFreqIndexer t \<and>
     set (view_keys (view (lfu t'))) = insert k (set (view_keys (view (lfu t)))) \<and> lfu_age (lfu t') = lfu_age (lfu t) \<and>
     view (lfu t') = view_update (weighted_freq (readFreq pf) (writeFreq pf) + lfu_age (lfu t)) k (view (lfu t))"
proof -
  obtain l' where "LFU_Update (lfu t) k (weighted_freq (readFreq pf) (writeFreq pf)) = Inr l'" "lfu_inv l'"
     "lfu_age l' = lfu_age (lfu t)"
     "view l' = view_update (weighted_freq (readFreq pf) (writeFreq pf) + lfu_age (lfu t)) k (view (lfu t))"
    using LFU_Update_spec [OF assms] by blast
  then show ?thesis using keys_update [OF distinct_view_keys [OF assms]] by (simp add: UpdateLFU_def)
qed

lemma freq_query: "tier_inv t \<Longrightarrow> key_query bytes_of_u64 (pageFreqIndexer t) k = Inr (freq_abs t k)"
  by (simp add: tier_inv_def freq_abs_def idx64.query)

text \<open>The counters of a page after an access.\<close>

definition count_write :: "bool \<Rightarrow> PageFreq \<Rightarrow> PageFreq" where
  "count_write isHost pf = (if isHost then pf\<lparr>writeFreq := writeFreq pf + 1\<rparr> else pf)"

definition count_read :: "PageFreq \<Rightarrow> PageFreq" where
  "count_read pf = pf\<lparr>readFreq := readFreq pf + 1\<rparr>"

abbreviation page_weight :: "PageFreq \<Rightarrow> u32" where
  "page_weight pf \<equiv> weighted_freq (readFreq pf) (writeFreq pf)"

definition touched :: "TierModule \<Rightarrow> u64 \<Rightarrow> PageFreq \<Rightarrow> TierModule \<Rightarrow> bool" where
  "touched t k pf t' \<longleftrightarrow> freq_abs t' = (freq_abs t)(k \<mapsto> pf) \<and> lfu_age (lfu t') = lfu_age (lfu t) \<and>
     view (lfu t') = view_update (page_weight pf + lfu_age (lfu t)) k (view (lfu t))"

lemma Tier_WriteIO_spec:
  assumes "tier_inv t"
  shows "\<exists>t'. Tier_WriteIO t lba len old isHost = Inr t' \<and> tier_inv t' \<and>
     touched t (align_page lba) (count_write isHost (case freq_abs t (align_page lba) of None \<Rightarrow> old | Some pf \<Rightarrow> pf)) t'"
proof -
  let ?k = "align_page lba"
  let ?pf = "case freq_abs t ?k of None \<Rightarrow> old | Some pf \<Rightarrow> pf"
  have ki: "key_inv bytes_of_u64 (pageFreqIndexer t)" and li: "lfu_inv (lfu t)"
    and dm: "dom (freq_abs t) = set (view_keys (view (lfu t)))" using assms by (simp_all add: tier_inv_def)
  obtain t1 where t1: "(case freq_abs t ?k of Some pf \<Rightarrow> Inr (pf, t)
        | None \<Rightarrow> let pf = \<lparr>readFreq = readFreq old, writeFreq = writeFreq old\<rparr> in
            bindE (key_insert bytes_of_u64 (pageFreqIndexer t) ?k pf) (\<lambda>idx.
            Inr (pf, t\<lparr>pageFreqIndexer := idx\<rparr>))) = Inr (?pf, t1)"
     "key_inv bytes_of_u64 (pageFreqIndexer t1)" "lfu t1 = lfu t" "freq_abs t1 = (freq_abs t)(?k \<mapsto> ?pf)"
  proof (cases "freq_abs t ?k")
    case None
    then obtain idx where "key_insert bytes_of_u64 (pageFreqIndexer t) ?k old = Inr idx" "key_inv bytes_of_u64 idx"
       "key_abs bytes_of_u64 idx = (freq_abs t)(?k \<mapsto> old)"
      using idx64.insertKV [OF ki, of ?k old] by (auto simp: freq_abs_def)
    then show thesis using None
      by (cases old, intro that [of "t\<lparr>pageFreqIndexer := idx\<rparr>"]) (simp_all add: Let_def freq_abs_def)
  next
    case (Some pf)
    then have "(freq_abs t)(?k \<mapsto> pf) = freq_abs t" by (simp add: fun_upd_idem)
    then show thesis using Some ki by (intro that [of t]) simp_all
  qed
  let ?t2 = "if isHost then t1\<lparr>pageFreqIndexer := key_poke bytes_of_u64 (pageFreqIndexer t1) ?k
                    (\<lambda>p. p\<lparr>writeFreq := writeFreq p + 1\<rparr>)\<rparr> else t1"
  have t2: "key_inv bytes_of_u64 (pageFreqIndexer ?t2)" "lfu ?t2 = lfu t"
     "freq_abs ?t2 = (freq_abs t)(?k \<mapsto> count_write isHost ?pf)"
    using t1(2-4) idx64.poke [OF t1(2), of ?k "\<lambda>p. p\<lparr>writeFreq := writeFreq p + 1\<rparr>"]
    by (auto simp: freq_abs_def count_write_def)
  obtain t' where t': "UpdateLFU ?t2 (count_write isHost ?pf) ?k = Inr t'" "lfu_inv (lfu t')"
     "pageFreqIndexer t' = pageFreqIndexer ?t2"
     "set (view_keys (view (lfu t'))) = insert ?k (set (view_keys (view (lfu t))))" "lfu_age (lfu t') = lfu_age (lfu t)"
     "view (lfu t') = view_update (page_weight (count_write isHost ?pf) + lfu_age (lfu t)) ?k (view (lfu t))"
    using UpdateLFU_spec [of ?t2 "count_write isHost ?pf" ?k] li t2(2) by auto
  have fa: "freq_abs t' = (freq_abs t)(?k \<mapsto> count_write isHost ?pf)" using t'(3) t2(3) by (simp add: freq_abs_def)
  have "Tier_WriteIO t lba len old isHost = Inr t'"
    using t1(1) t'(1) by (simp add: Tier_WriteIO_def Let_def freq_query [OF assms] count_write_def split: if_split_asm)
  moreover have "tier_inv t'" using t' t2(1) fa dm by (simp add: tier_inv_def)
  ultimately show ?thesis using fa t' by (auto simp: touched_def)
qed

lemma Tier_ReadHostIO_spec:
  assumes "tier_inv t"
  shows "freq_abs t (align_page lba) = None \<Longrightarrow> Tier_ReadHostIO t lba len = Inr (False, t)"
    and "freq_abs t (align_page lba) = Some pf \<Longrightarrow> \<exists>t'. Tier_ReadHostIO t lba len = Inr (True, t') \<and> tier_inv t' \<and>
           touched t (align_page lba) (count_read pf) t'"
proof -
  let ?k = "align_page lba"
  show "freq_abs t ?k = None \<Longrightarrow> Tier_ReadHostIO t lba len = Inr (False, t)"
    by (simp add: Tier_ReadHostIO_def Let_def freq_query [OF assms])
  assume s: "freq_abs t ?k = Some pf"
  have ki: "key_inv bytes_of_u64 (pageFreqIndexer t)" and li: "lfu_inv (lfu t)"
    and dm: "dom (freq_abs t) = set (view_keys (view (lfu t)))" using assms by (simp_all add: tier_inv_def)
  let ?t1 = "t\<lparr>pageFreqIndexer := key_poke bytes_of_u64 (pageFreqIndexer t) ?k (\<lambda>p. p\<lparr>readFreq := readFreq p + 1\<rparr>)\<rparr>"
  have t1: "key_inv bytes_of_u64 (pageFreqIndexer ?t1)" "freq_abs ?t1 = (freq_abs t)(?k \<mapsto> count_read pf)"
    using idx64.poke [OF ki, of ?k "\<lambda>p. p\<lparr>readFreq := readFreq p + 1\<rparr>"] s by (simp_all add: freq_abs_def count_read_def)
  obtain t' where t': "UpdateLFU ?t1 (count_read pf) ?k = Inr t'" "lfu_inv (lfu t')"
     "pageFreqIndexer t' = pageFreqIndexer ?t1"
     "set (view_keys (view (lfu t'))) = insert ?k (set (view_keys (view (lfu t))))" "lfu_age (lfu t') = lfu_age (lfu t)"
     "view (lfu t') = view_update (page_weight (count_read pf) + lfu_age (lfu t)) ?k (view (lfu t))"
    using UpdateLFU_spec [of ?t1 "count_read pf" ?k] li by auto
  have fa: "freq_abs t' = (freq_abs t)(?k \<mapsto> count_read pf)" using t'(3) t1(2) by (simp add: freq_abs_def)
  have "Tier_ReadHostIO t lba len = Inr (True, t')"
    using s t'(1) by (simp add: Tier_ReadHostIO_def Let_def freq_query [OF assms] count_read_def)
  moreover have "tier_inv t'" using t' t1(1) fa dm by (simp add: tier_inv_def)
  ultimately show "\<exists>t'. Tier_ReadHostIO t lba len = Inr (True, t') \<and> tier_inv t' \<and> touched t ?k (count_read pf) t'"
    using fa t' by (auto simp: touched_def)
qed

lemma Tier_DeleteData_spec:
  assumes "tier_inv t"
  shows "align_page lba \<notin> dom (freq_abs t) \<Longrightarrow> Tier_DeleteData t lba len = Inl ExitFailure"
    and "align_page lba \<in> dom (freq_abs t) \<Longrightarrow> \<exists>t'. Tier_DeleteData t lba len = Inr t' \<and> tier_inv t' \<and>
           freq_abs t' = (freq_abs t)(align_page lba := None) \<and> lfu_age (lfu t') = lfu_age (lfu t) \<and>
           view (lfu t') = drop_key (align_page lba) (view (lfu t))"
proof -
  let ?k = "align_page lba"
  have ki: "key_inv bytes_of_u64 (pageFreqIndexer t)" and li: "lfu_inv (lfu t)"
    and dm: "dom (freq_abs t) = set (view_keys (view (lfu t)))" using assms by (simp_all add: tier_inv_def)
  show "?k \<notin> dom (freq_abs t) \<Longrightarrow> Tier_DeleteData t lba len = Inl ExitFailure"
    using LFU_Delete_spec(1) [OF li, of ?k] by (simp add: Tier_DeleteData_def Let_def dm)
  assume "?k \<in> dom (freq_abs t)"
  then obtain l' where l': "LFU_Delete (lfu t) ?k = Inr l'" "lfu_inv l'" "lfu_age l' = lfu_age (lfu t)"
      "view l' = drop_key ?k (view (lfu t))"
    using LFU_Delete_spec(2) [OF li, of ?k] dm by auto
  obtain idx where idx: "key_delete bytes_of_u64 (pageFreqIndexer t) ?k = Inr idx" "key_inv bytes_of_u64 idx"
      "key_abs bytes_of_u64 idx = (freq_abs t)(?k := None)"
    using idx64.delete [OF ki, of ?k] by (auto simp: freq_abs_def)
  let ?t' = "t\<lparr>lfu := l', pageFreqIndexer := idx\<rparr>"
  have "tier_inv ?t'"
    using l'(2,4) idx(2,3) dm keys_drop [OF distinct_view_keys [OF li], of ?k] by (simp add: tier_inv_def freq_abs_def)
  then show "\<exists>t'. Tier_DeleteData t lba len = Inr t' \<and> tier_inv t' \<and>
           freq_abs t' = (freq_abs t)(?k := None) \<and> lfu_age (lfu t') = lfu_age (lfu t) \<and>
           view (lfu t') = drop_key ?k (view (lfu t))"
    using l' idx by (simp add: Tier_DeleteData_def Let_def freq_abs_def)
qed

lemma finite_freq_abs: "tier_inv t \<Longrightarrow> finite (dom (freq_abs t))"
  by (simp add: tier_inv_def)

lemma tier_down_step:
  assumes "tier_inv t" and "dom (freq_abs t) \<noteq> {}"
  shows "\<exists>k pf l idx. LFU_Evict (lfu t) = Inr (k, l) \<and> freq_abs t k = Some pf \<and>
     key_delete bytes_of_u64 (pageFreqIndexer t) k = Inr idx \<and>
     tier_inv (t\<lparr>lfu := l, pageFreqIndexer := idx\<rparr>) \<and>
     freq_abs (t\<lparr>lfu := l, pageFreqIndexer := idx\<rparr>) = (freq_abs t)(k := None)"
proof -
  have ki: "key_inv bytes_of_u64 (pageFreqIndexer t)" and li: "lfu_inv (lfu t)"
    and dm: "dom (freq_abs t) = set (view_keys (view (lfu t)))" using assms(1) by (simp_all add: tier_inv_def)
  have "view (lfu t) \<noteq> []" using assms(2) dm by auto
  then obtain f ks r l' where e: "view (lfu t) = (f, ks) # r" "ks \<noteq> []" "LFU_Evict (lfu t) = Inr (last ks, l')" "lfu_inv l'"
      "view l' = drop_key (last ks) (view (lfu t))"
    using LFU_Evict_spec [OF li] by auto
  have "last ks \<in> dom (freq_abs t)" using e(1,2) dm by simp
  then obtain pf where pf: "freq_abs t (last ks) = Some pf" by blast
  obtain idx where idx: "key_delete bytes_of_u64 (pageFreqIndexer t) (last ks) = Inr idx" "key_inv bytes_of_u64 idx"
      "key_abs bytes_of_u64 idx = (freq_abs t)(last ks := None)"
    using idx64.delete [OF ki, of "last ks"] by (auto simp: freq_abs_def)
  have "tier_inv (t\<lparr>lfu := l', pageFreqIndexer := idx\<rparr>)"
    using e(4,5) idx(2,3) dm keys_drop [OF distinct_view_keys [OF li], of "last ks"]
    by (simp add: tier_inv_def freq_abs_def)
  then show ?thesis using e(3) pf idx by (auto simp: freq_abs_def)
qed

lemma tier_down_spec:
  assumes "tier_inv t" and "n \<le> card (dom (freq_abs t))"
  shows "\<exists>ps t'. tier_down n t = Inr (ps, t') \<and> tier_inv t' \<and> length ps = n \<and> distinct (map tp_lba ps) \<and>
     (\<forall>p \<in> set ps. freq_abs t (tp_lba p) = Some (tp_freq p)) \<and>
     freq_abs t' = freq_abs t |` (- tp_lba ` set ps)"
  using assms
proof (induction n arbitrary: t)
  case 0
  then show ?case by (simp add: restrict_map_def)
next
  case (Suc n)
  have "dom (freq_abs t) \<noteq> {}" using Suc.prems(2) by auto
  then obtain k pf l idx where s: "LFU_Evict (lfu t) = Inr (k, l)" "freq_abs t k = Some pf"
     "key_delete bytes_of_u64 (pageFreqIndexer t) k = Inr idx" "tier_inv (t\<lparr>lfu := l, pageFreqIndexer := idx\<rparr>)"
     "freq_abs (t\<lparr>lfu := l, pageFreqIndexer := idx\<rparr>) = (freq_abs t)(k := None)"
    using tier_down_step [OF Suc.prems(1)] by blast
  let ?t1 = "t\<lparr>lfu := l, pageFreqIndexer := idx\<rparr>"
  have "k \<in> dom (freq_abs t)" using s(2) by blast
  then have "card (dom (freq_abs t)) = Suc (card (dom (freq_abs ?t1)))"
    using card_Suc_Diff1 [OF finite_freq_abs [OF Suc.prems(1)]] s(5) by simp
  then have "n \<le> card (dom (freq_abs ?t1))" using Suc.prems(2) by simp
  from Suc.IH [OF s(4) this]
  obtain ps t' where ih: "tier_down n ?t1 = Inr (ps, t')" "tier_inv t'" "length ps = n" "distinct (map tp_lba ps)"
     "\<forall>p \<in> set ps. freq_abs ?t1 (tp_lba p) = Some (tp_freq p)" "freq_abs t' = freq_abs ?t1 |` (- tp_lba ` set ps)" by blast
  have kn: "k \<notin> tp_lba ` set ps" using ih(5) s(5) by auto
  have "tier_down (Suc n) t = Inr (\<lparr>tp_lba = k, tp_freq = pf\<rparr> # ps, t')"
    using s(1-3) ih(1) by (simp add: freq_query [OF Suc.prems(1)])
  moreover have "\<forall>p \<in> set ps. freq_abs t (tp_lba p) = Some (tp_freq p)"
    using ih(5) s(5) by (auto split: if_split_asm)
  moreover have "freq_abs t' = freq_abs t |` (- insert k (tp_lba ` set ps))"
    unfolding ih(6) s(5) by (auto simp: restrict_map_def fun_eq_iff)
  ultimately show ?case using s(2) ih kn by auto
qed

lemma tier_down_too_many:
  assumes "tier_inv t" and "card (dom (freq_abs t)) < n"
  shows "tier_down n t = Inl ExitFailure"
  using assms
proof (induction n arbitrary: t)
  case (Suc n)
  show ?case
  proof (cases "dom (freq_abs t) = {}")
    case True
    then have "view_keys (view (lfu t)) = []" using Suc.prems(1) by (simp add: tier_inv_def)
    moreover have "lfu_inv (lfu t)" using Suc.prems(1) by (simp add: tier_inv_def)
    ultimately show ?thesis using LFU_Evict_spec [of "lfu t"] by auto
  next
    case False
    then obtain k pf l idx where s: "LFU_Evict (lfu t) = Inr (k, l)" "freq_abs t k = Some pf"
     "key_delete bytes_of_u64 (pageFreqIndexer t) k = Inr idx" "tier_inv (t\<lparr>lfu := l, pageFreqIndexer := idx\<rparr>)"
     "freq_abs (t\<lparr>lfu := l, pageFreqIndexer := idx\<rparr>) = (freq_abs t)(k := None)"
      using tier_down_step [OF Suc.prems(1)] by blast
    have "k \<in> dom (freq_abs t)" using s(2) by blast
    then have "card (dom (freq_abs t)) = Suc (card (dom (freq_abs (t\<lparr>lfu := l, pageFreqIndexer := idx\<rparr>))))"
      using card_Suc_Diff1 [OF finite_freq_abs [OF Suc.prems(1)]] s(5) by simp
    then show ?thesis using Suc.IH [OF s(4)] Suc.prems(2) s(1-3) by (simp add: freq_query [OF Suc.prems(1)])
  qed
qed simp

lemma CreateTierModule_spec:
  "indexBucketNum conf * 100 \<noteq> 0 \<Longrightarrow> tier_inv (CreateTierModule conf) \<and> freq_abs (CreateTierModule conf) = Map.empty \<and>
     view (lfu (CreateTierModule conf)) = [] \<and> lfu_age (lfu (CreateTierModule conf)) = 0"
  using CreateLFU_spec [of "\<lparr>lc_keySize = 8, lc_bucketCount = indexBucketNum conf * 100\<rparr>"]
  by (simp add: tier_inv_def freq_abs_def CreateTierModule_def CreateIndexer_key_inv)

end
