(* ===== verification/Tier_Policy.thy ===== *)
theory Tier_Policy
  imports Tier_Module
begin

text \<open>
  When no 32-bit counter wraps around, tiering down takes the least valued pages first: the queue
  is ordered, every priority lies between the age and the page's weight plus the age, and the
  evicted pages come in ascending order of priority, all at most those of the pages that stay.
\<close>

definition tier_fair :: "TierModule \<Rightarrow> bool" where
  "tier_fair t \<longleftrightarrow> tier_inv t \<and> ordered (view (lfu t)) \<and>
     (\<forall>k f. lfu_prio (lfu t) k = Some f \<longrightarrow> lfu_age (lfu t) \<le> f \<and>
        (\<exists>pf. freq_abs t k = Some pf \<and> unat f \<le> unat (page_weight pf) + unat (lfu_age (lfu t))))"

lemma tier_fair_ok: "tier_fair t \<Longrightarrow> lfu_ok (lfu t)"
  by (simp add: tier_fair_def lfu_ok_def tier_inv_def)

lemma tier_fair_dom: "tier_inv t \<Longrightarrow> dom (freq_abs t) = dom (lfu_prio (lfu t))"
  by (simp add: tier_inv_def lfu_prio_def dom_prio)

definition no_wrap :: "TierModule \<Rightarrow> PageFreq \<Rightarrow> bool" where
  "no_wrap t pf \<longleftrightarrow> unat (page_weight pf) + unat (lfu_age (lfu t)) < 4294967296"

lemma no_wrap_add: "no_wrap t pf \<Longrightarrow>
  unat (page_weight pf + lfu_age (lfu t)) = unat (page_weight pf) + unat (lfu_age (lfu t))"
  by (simp add: no_wrap_def unat_word_ariths)

lemma touched_fair:
  assumes "tier_fair t" and "touched t k new t'" and "tier_inv t'" and "no_wrap t new"
    and "\<And>pf. freq_abs t k = Some pf \<Longrightarrow> page_weight pf \<le> page_weight new"
  shows "tier_fair t'" and "lfu_prio (lfu t') = (lfu_prio (lfu t))(k \<mapsto> page_weight new + lfu_age (lfu t))"
proof -
  have inv: "tier_inv t" and ord: "ordered (view (lfu t))" using assms(1) by (simp_all add: tier_fair_def)
  have b: "lfu_age (lfu t) \<le> f \<and>
        (\<exists>pf. freq_abs t k' = Some pf \<and> unat f \<le> unat (page_weight pf) + unat (lfu_age (lfu t)))"
    if "lfu_prio (lfu t) k' = Some f" for k' f using assms(1) that unfolding tier_fair_def by blast
  have tt: "freq_abs t' = (freq_abs t)(k \<mapsto> new)" "lfu_age (lfu t') = lfu_age (lfu t)"
    "view (lfu t') = view_update (page_weight new + lfu_age (lfu t)) k (view (lfu t))"
    using assms(2) by (simp_all add: touched_def)
  have sum: "unat (page_weight new + lfu_age (lfu t)) = unat (page_weight new) + unat (lfu_age (lfu t))"
    by (rule no_wrap_add [OF assms(4)])
  have up: "f \<le> page_weight new + lfu_age (lfu t)" if pk: "prio (view (lfu t)) k = Some f" for f
  proof -
    obtain pf where pf: "freq_abs t k = Some pf" "unat f \<le> unat (page_weight pf) + unat (lfu_age (lfu t))"
      using b [of k f] pk by (auto simp: lfu_prio_def)
    then have "unat (page_weight pf) \<le> unat (page_weight new)" using assms(5) by (simp add: word_le_nat_alt)
    then show ?thesis using pf(2) sum by (simp add: word_le_nat_alt)
  qed
  have d: "distinct (view_keys (view (lfu t)))" using inv by (simp add: tier_inv_def distinct_view_keys)
  note u = view_update_spec [OF ord d up]
  show p: "lfu_prio (lfu t') = (lfu_prio (lfu t))(k \<mapsto> page_weight new + lfu_age (lfu t))"
    using u(2) tt(3) by (simp add: lfu_prio_def)
  have "lfu_age (lfu t') \<le> f \<and>
        (\<exists>pf. freq_abs t' k' = Some pf \<and> unat f \<le> unat (page_weight pf) + unat (lfu_age (lfu t')))"
    if pk': "lfu_prio (lfu t') k' = Some f" for k' f
  proof (cases "k' = k")
    case True
    then have "f = page_weight new + lfu_age (lfu t)" using pk' p by simp
    then show ?thesis using True tt(1,2) sum by (simp add: word_le_nat_alt)
  next
    case False
    then show ?thesis using b [of k' f] pk' p tt(1,2) by simp
  qed
  then show "tier_fair t'" using assms(3) u(1) tt(3) by (auto simp: tier_fair_def)
qed

lemma inc_le_word: "x \<noteq> - 1 \<Longrightarrow> (x :: u32) \<le> x + 1"
proof -
  assume "x \<noteq> - 1"
  have "unat x \<noteq> 4294967295"
  proof
    assume "unat x = 4294967295"
    then have "x = of_nat 4294967295" by (metis of_nat_unat ucast_id)
    then show False using \<open>x \<noteq> - 1\<close> by simp
  qed
  then have "unat x < 4294967295" using unat_lt2p32 [of x] by simp
  then show ?thesis by (simp add: word_le_nat_alt unat_inc32)
qed

lemma count_write_weight: "writeFreq pf \<noteq> - 1 \<or> \<not> host \<Longrightarrow> page_weight pf \<le> page_weight (count_write host pf)"
proof -
  assume "writeFreq pf \<noteq> - 1 \<or> \<not> host"
  then have "writeFreq pf \<le> writeFreq (count_write host pf)"
    by (auto simp: count_write_def intro: inc_le_word)
  then show ?thesis by (intro weighted_freq_mono) (simp_all add: count_write_def)
qed

lemma count_read_weight: "readFreq pf \<noteq> - 1 \<Longrightarrow> page_weight pf \<le> page_weight (count_read pf)"
  by (intro weighted_freq_mono) (simp_all add: count_read_def inc_le_word)

definition cost :: "TierModule \<Rightarrow> TierPage \<Rightarrow> u32" where
  "cost t p = the (lfu_prio (lfu t) (tp_lba p))"

lemma evicted_fair:
  assumes "tier_fair t" and "LFU_Evict (lfu t) = Inr (k, l)" and "freq_abs t' = (freq_abs t)(k := None)"
    and "tier_inv t'" and "lfu t' = l"
  shows "tier_fair t'"
proof -
  note d = lfuq.evict_D [OF assms(2) tier_fair_ok [OF assms(1)]]
  have b: "lfu_age (lfu t) \<le> f \<and>
        (\<exists>pf. freq_abs t k' = Some pf \<and> unat f \<le> unat (page_weight pf) + unat (lfu_age (lfu t)))"
    if "lfu_prio (lfu t) k' = Some f" for k' f using assms(1) that unfolding tier_fair_def by blast
  have older: "unat (lfu_age (lfu t)) \<le> unat (lfu_age l)" using b [OF d(3)] by (simp add: word_le_nat_alt)
  have "lfu_age l \<le> f \<and> (\<exists>pf. freq_abs t' k' = Some pf \<and> unat f \<le> unat (page_weight pf) + unat (lfu_age l))"
    if pk: "lfu_prio l k' = Some f" for k' f
  proof -
    have k': "k' \<noteq> k" "lfu_prio (lfu t) k' = Some f" using pk d(2) by (auto split: if_split_asm)
    then show ?thesis using b [OF k'(2)] d(4) [OF k'(2)] older assms(3) by auto
  qed
  then show ?thesis using assms(4,5) d(1) by (auto simp: tier_fair_def lfu_ok_def)
qed

lemma tier_down_fair:
  assumes "tier_fair t" and "n \<le> card (dom (freq_abs t))"
  shows "\<exists>ps t'. tier_down n t = Inr (ps, t') \<and> tier_fair t' \<and> length ps = n \<and> sorted (map (cost t) ps) \<and>
     lfu_prio (lfu t') = lfu_prio (lfu t) |` (- tp_lba ` set ps) \<and>
     (\<forall>p \<in> set ps. tp_lba p \<in> dom (lfu_prio (lfu t))) \<and>
     (\<forall>k f. lfu_prio (lfu t') k = Some f \<longrightarrow> (\<forall>p \<in> set ps. cost t p \<le> f))"
  using assms
proof (induction n arbitrary: t)
  case 0
  then show ?case by (simp add: restrict_map_def)
next
  case (Suc n)
  have inv: "tier_inv t" using Suc.prems(1) by (simp add: tier_fair_def)
  have "dom (freq_abs t) \<noteq> {}" using Suc.prems(2) by auto
  then obtain k pf l idx where s: "LFU_Evict (lfu t) = Inr (k, l)" "freq_abs t k = Some pf"
     "key_delete bytes_of_u64 (pageFreqIndexer t) k = Inr idx" "tier_inv (t\<lparr>lfu := l, pageFreqIndexer := idx\<rparr>)"
     "freq_abs (t\<lparr>lfu := l, pageFreqIndexer := idx\<rparr>) = (freq_abs t)(k := None)"
    using tier_down_step [OF inv] by blast
  let ?t1 = "t\<lparr>lfu := l, pageFreqIndexer := idx\<rparr>"
  have l1: "lfu ?t1 = l" by simp
  have f1: "tier_fair ?t1" by (rule evicted_fair [OF Suc.prems(1) s(1,5,4) l1])
  note d = lfuq.evict_D [OF s(1) tier_fair_ok [OF Suc.prems(1)]]
  have "k \<in> dom (freq_abs t)" using s(2) by blast
  then have "card (dom (freq_abs t)) = Suc (card (dom (freq_abs ?t1)))"
    using card_Suc_Diff1 [OF finite_freq_abs [OF inv]] s(5) by simp
  then have "n \<le> card (dom (freq_abs ?t1))" using Suc.prems(2) by simp
  from Suc.IH [OF f1 this]
  obtain ps t' where ih: "tier_down n ?t1 = Inr (ps, t')" "tier_fair t'" "length ps = n" "sorted (map (cost ?t1) ps)"
     "lfu_prio (lfu t') = lfu_prio l |` (- tp_lba ` set ps)" "\<forall>p \<in> set ps. tp_lba p \<in> dom (lfu_prio l)"
     "\<forall>k f. lfu_prio (lfu t') k = Some f \<longrightarrow> (\<forall>p \<in> set ps. cost ?t1 p \<le> f)" by auto
  let ?p = "\<lparr>tp_lba = k, tp_freq = pf\<rparr>"
  have other: "tp_lba p \<noteq> k" "cost ?t1 p = cost t p" "tp_lba p \<in> dom (lfu_prio (lfu t))" if "p \<in> set ps" for p
  proof -
    show 1: "tp_lba p \<noteq> k" using ih(6) that d(2) by auto
    then show "cost ?t1 p = cost t p" using d(2) by (simp add: cost_def)
    show "tp_lba p \<in> dom (lfu_prio (lfu t))" using ih(6) that d(2) by (auto split: if_split_asm)
  qed
  have least: "cost t ?p \<le> f" if "lfu_prio (lfu t) k' = Some f" for k' f
    using d(3) d(4) [OF that] by (simp add: cost_def)
  have costs: "map (cost ?t1) ps = map (cost t) ps" using other(2) by simp
  have "cost t ?p \<le> cost t p" if p: "p \<in> set ps" for p
  proof -
    obtain f where "lfu_prio (lfu t) (tp_lba p) = Some f" using other(3) [OF p] by blast
    then show ?thesis using least [of "tp_lba p" f] by (simp add: cost_def)
  qed
  then have "sorted (map (cost t) (?p # ps))" using ih(4) costs by simp
  moreover have pr: "lfu_prio (lfu t') = lfu_prio (lfu t) |` (- tp_lba ` set (?p # ps))"
    using ih(5) d(2) by (auto simp: restrict_map_def fun_eq_iff)
  moreover have "tier_down (Suc n) t = Inr (?p # ps, t')"
    using s(1-3) ih(1) by (simp add: freq_query [OF inv])
  moreover have "\<forall>p \<in> set (?p # ps). cost t p \<le> f" if "lfu_prio (lfu t') k' = Some f" for k' f
  proof -
    have "lfu_prio (lfu t) k' = Some f" using that pr by (auto simp: restrict_map_def split: if_split_asm)
    then have "cost t ?p \<le> f" by (rule least)
    moreover have "\<forall>p \<in> set ps. cost t p \<le> f" using ih(7) that other(2) by fastforce
    ultimately show ?thesis by simp
  qed
  moreover have "\<forall>p \<in> set (?p # ps). tp_lba p \<in> dom (lfu_prio (lfu t))" using other(3) d(3) by auto
  ultimately show ?case using ih(2,3) by (intro exI [of _ "?p # ps"] exI [of _ t']) simp
qed

lemma CreateTierModule_fair:
  "indexBucketNum conf * 100 \<noteq> 0 \<Longrightarrow> tier_fair (CreateTierModule conf)"
  using CreateTierModule_spec [of conf] by (simp add: tier_fair_def lfu_prio_def)

end
