(* ===== verification/Tier_Properties.thy ===== *)
theory Tier_Properties
  imports Tier_Policy
begin

text \<open>
  What the index, the LFU queue and the access statistics of a tier promise. Sequences of
  operations are run on the code's structures and on the maps and priority views they stand for.
\<close>

subsection \<open>The index\<close>

datatype 'v index_op = Put u64 'v | Del u64

fun index_run :: "'v index_op list \<Rightarrow> 'v Indexer \<Rightarrow> fault + 'v Indexer" where
  "index_run [] idx = Inr idx"
| "index_run (Put k v # ops) idx = bindE (key_insert bytes_of_u64 idx k v) (index_run ops)"
| "index_run (Del k # ops) idx = bindE (key_delete bytes_of_u64 idx k) (index_run ops)"

fun map_run :: "'v index_op list \<Rightarrow> (u64 \<rightharpoonup> 'v) \<Rightarrow> (u64 \<rightharpoonup> 'v)" where
  "map_run [] m = m"
| "map_run (Put k v # ops) m = map_run ops (m(k \<mapsto> v))"
| "map_run (Del k # ops) m = map_run ops (m(k := None))"

text \<open>Keys are inserted only when absent, as all callers do.\<close>

fun fresh_puts :: "'v index_op list \<Rightarrow> (u64 \<rightharpoonup> 'v) \<Rightarrow> bool" where
  "fresh_puts [] m = True"
| "fresh_puts (Put k v # ops) m = (m k = None \<and> fresh_puts ops (m(k \<mapsto> v)))"
| "fresh_puts (Del k # ops) m = fresh_puts ops (m(k := None))"

lemma index_run_spec:
  assumes "key_inv bytes_of_u64 idx" and "fresh_puts ops (key_abs bytes_of_u64 idx)"
  shows "\<exists>idx'. index_run ops idx = Inr idx' \<and> key_inv bytes_of_u64 idx' \<and>
    key_abs bytes_of_u64 idx' = map_run ops (key_abs bytes_of_u64 idx)"
  using assms
proof (induction ops idx rule: index_run.induct)
  case (2 k v ops idx)
  obtain i' where i': "key_insert bytes_of_u64 idx k v = Inr i'" "key_inv bytes_of_u64 i'"
      "key_abs bytes_of_u64 i' = (key_abs bytes_of_u64 idx)(k \<mapsto> v)"
    using idx64.insertKV [OF 2(2), of k v] 2(3) by auto
  have "fresh_puts ops (key_abs bytes_of_u64 i')" using 2(3) i'(3) by simp
  from 2(1) [OF i'(1,2) this] show ?case using i' by (simp add: fun_upd_def)
next
  case (3 k ops idx)
  obtain i' where i': "key_delete bytes_of_u64 idx k = Inr i'" "key_inv bytes_of_u64 i'"
      "key_abs bytes_of_u64 i' = (key_abs bytes_of_u64 idx)(k := None)"
    using idx64.delete [OF 3(2), of k] by auto
  have "fresh_puts ops (key_abs bytes_of_u64 i')" using 3(3) i'(3) by simp
  from 3(1) [OF i'(1,2) this] show ?case using i' by (simp add: fun_upd_def)
qed simp

text \<open>C13: The hash index is a finite map: after any sequence of insertions of new keys and deletions on a
  new index, every query answers as the map would, and the size is the number of keys.\<close>

theorem index_is_map:
  fixes ops :: "'v index_op list"
  assumes "bc \<noteq> 0" and "fresh_puts ops Map.empty"
  shows "\<exists>idx. index_run ops (CreateIndexer 8 bc) = Inr idx \<and>
    (\<forall>k. key_query bytes_of_u64 idx k = Inr (map_run ops Map.empty k)) \<and>
    indexSize idx = of_nat (card (dom (map_run ops Map.empty)))"
proof -
  have c: "key_inv bytes_of_u64 (CreateIndexer 8 bc :: 'v Indexer)" "key_abs bytes_of_u64 (CreateIndexer 8 bc :: 'v Indexer) = Map.empty"
    by (rule CreateIndexer_key_inv [OF assms(1)])+
  obtain idx where i: "index_run ops (CreateIndexer 8 bc) = Inr idx" "key_inv bytes_of_u64 idx"
      "key_abs bytes_of_u64 idx = map_run ops Map.empty"
    using index_run_spec [OF c(1), of ops] assms(2) c(2) by auto
  then show ?thesis using idx64.query [OF i(2)] idx64.size [OF i(2)] by (intro exI [of _ idx]) simp
qed

theorem index_is_map_witness:
  "\<exists>idx. index_run [Put 1 (10 :: nat), Put 8192 20, Del 1] (CreateIndexer 8 3) = Inr idx \<and>
     key_query bytes_of_u64 idx 8192 = Inr (Some 20) \<and> key_query bytes_of_u64 idx 1 = Inr None"
  using index_is_map [of 3 "[Put 1 (10 :: nat), Put 8192 20, Del 1]"] by auto

subsection \<open>The LFU queue\<close>

datatype lfu_op = Touch u64 u32 | Evict | Forget u64

fun lfu_run :: "lfu_op list \<Rightarrow> LFU \<Rightarrow> fault + LFU" where
  "lfu_run [] l = Inr l"
| "lfu_run (Touch k f # ops) l = bindE (LFU_Update l k f) (lfu_run ops)"
| "lfu_run (Evict # ops) l = bindE (LFU_Evict l) (\<lambda>(_, l'). lfu_run ops l')"
| "lfu_run (Forget k # ops) l = bindE (LFU_Delete l k) (lfu_run ops)"

text \<open>
  The same on priorities: a list of priorities with their keys, the last key of each the oldest,
  and the age. Evicting from nothing, or forgetting an unknown key, is impossible.
\<close>

fun view_run :: "lfu_op list \<Rightarrow> freq_view \<Rightarrow> u32 \<Rightarrow> (freq_view \<times> u32) option" where
  "view_run [] v age = Some (v, age)"
| "view_run (Touch k f # ops) v age = view_run ops (view_update (f + age) k v) age"
| "view_run (Evict # ops) v age = (case v of [] \<Rightarrow> None | (f, ks) # r \<Rightarrow> view_run ops (drop_key (last ks) v) f)"
| "view_run (Forget k # ops) v age = (if k \<in> set (view_keys v) then view_run ops (drop_key k v) age else None)"

text \<open>C11: The LFU queue with its doubly linked lists and its index refines the list of priorities: any
  sequence of operations gives the structure that stands for the result on priorities, and
  \<open>exit(-1)\<close> exactly where that is undefined.\<close>

theorem lfu_refines_priorities:
  assumes "lfu_inv l"
  shows "case lfu_run ops l of
      Inl e \<Rightarrow> e = ExitFailure \<and> view_run ops (view l) (lfu_age l) = None
    | Inr l' \<Rightarrow> lfu_inv l' \<and> view_run ops (view l) (lfu_age l) = Some (view l', lfu_age l')"
  using assms
proof (induction ops l rule: lfu_run.induct)
  case (2 k f ops l)
  obtain l' where "LFU_Update l k f = Inr l'" "lfu_inv l'" "lfu_age l' = lfu_age l"
      "view l' = view_update (f + lfu_age l) k (view l)"
    using LFU_Update_spec [OF 2(2)] by blast
  then show ?case using 2(1) [of l'] by (simp split: sum.splits)
next
  case (3 ops l)
  show ?case
  proof (cases "LFU_Evict l")
    case (Inl e)
    then show ?thesis using LFU_Evict_spec [OF 3(2)] by auto
  next
    case (Inr x)
    then obtain f ks r l' where v: "view l = (f, ks) # r" "LFU_Evict l = Inr (last ks, l')" "lfu_inv l'"
        "lfu_age l' = f" "view l' = drop_key (last ks) (view l)"
      using LFU_Evict_spec [OF 3(2)] by auto
    have "view_run (Evict # ops) (view l) (lfu_age l) = view_run ops (view l') (lfu_age l')"
      unfolding v(4,5) by (simp only: view_run.simps(3) v(1) list.case prod.case)
    then show ?thesis using 3(1) [of "(last ks, l')" "last ks" l'] v(2,3) by (simp del: view_run.simps split: sum.splits)
  qed
next
  case (4 k ops l)
  show ?case
  proof (cases "k \<in> set (view_keys (view l))")
    case True
    then obtain l' where "LFU_Delete l k = Inr l'" "lfu_inv l'" "lfu_age l' = lfu_age l" "view l' = drop_key k (view l)"
      using LFU_Delete_spec(2) [OF 4(2)] by blast
    then show ?thesis using 4(1) [of l'] True by (simp split: sum.splits)
  next
    case False
    then show ?thesis using LFU_Delete_spec(1) [OF 4(2)] by simp
  qed
qed simp

definition small_lfu :: LFU where
  "small_lfu = CreateLFU \<lparr>lc_keySize = 8, lc_bucketCount = 3\<rparr>"

theorem lfu_refines_priorities_witness:
  "\<exists>l. lfu_run [Touch 7 2, Touch 8 1, Touch 9 2, Evict, Evict] small_lfu = Inr l \<and> view l = [(2, [9])] \<and> lfu_age l = 2"
proof -
  have c: "lfu_inv small_lfu" "view small_lfu = []" "lfu_age small_lfu = 0"
    using CreateLFU_spec [of "\<lparr>lc_keySize = 8, lc_bucketCount = 3\<rparr>"] by (simp_all add: small_lfu_def)
  show ?thesis
    using lfu_refines_priorities [OF c(1), of "[Touch 7 2, Touch 8 1, Touch 9 2, Evict, Evict]"]
    by (auto simp: c(2,3) view_update_def split: sum.split_asm)
qed

text \<open>C17: While priorities only rise, \<open>Evict\<close> removes a key of least priority, which becomes the age.\<close>

theorem evict_takes_least:
  assumes "lfu_ok l" and "lfu_prio l \<noteq> Map.empty"
  shows "\<exists>k l'. LFU_Evict l = Inr (k, l') \<and> lfu_prio l k = Some (lfu_age l') \<and>
    (\<forall>k' f. lfu_prio l k' = Some f \<longrightarrow> lfu_age l' \<le> f) \<and> lfu_ok l' \<and> lfu_prio l' = (lfu_prio l)(k := None)"
proof -
  have "0 < card (dom (lfu_prio l))" using assms lfuq.finite_prios [OF assms(1)] by (auto simp: card_gt_0_iff)
  then obtain k l' where e: "LFU_Evict l = Inr (k, l')" using lfuq.evict_total [OF assms(1)] by blast
  then show ?thesis using lfuq.evict_D [OF e assms(1)] by blast
qed

theorem evict_takes_least_witness:
  "\<exists>l k l'. LFU_Update small_lfu 5 7 = Inr l \<and> LFU_Evict l = Inr (k, l') \<and> lfu_prio l k = Some (lfu_age l')"
proof -
  have c: "lfu_ok small_lfu" "lfu_prio small_lfu = Map.empty"
    using CreateLFU_ok [of "\<lparr>lc_keySize = 8, lc_bucketCount = 3\<rparr>"] by (simp_all add: small_lfu_def)
  obtain l where l: "LFU_Update small_lfu 5 7 = Inr l" "lfu_ok l" "lfu_prio l = (lfu_prio small_lfu)(5 \<mapsto> 7 + lfu_age small_lfu)"
    using lfuq.update [OF c(1), of 5 7] c(2) by auto
  have "lfu_prio l \<noteq> Map.empty" using l(3) by (auto simp: fun_eq_iff)
  then show ?thesis using evict_takes_least [OF l(2)] l(1) by blast
qed

subsection \<open>Tiering down\<close>

text \<open>C16: As long as no counter wraps around (\<open>tier_fair\<close>), \<open>TierDown\<close> gives up the pages of least priority in the LFU queue,
  that is the weight of a page plus the age of the queue when the page was last written or read, in ascending order:
  none of the pages that stay has a lower priority than one that goes, and the priorities of those that stay are as before.\<close>

theorem tier_down_cheapest:
  assumes "tier_fair t" and "unat n \<le> card (dom (freq_abs t))"
  shows "\<exists>ps t'. Tier_TierDown t n = Inr (n \<noteq> 0, ps, t') \<and> length ps = unat n \<and> sorted (map (cost t) ps) \<and>
    (\<forall>k f. lfu_prio (lfu t') k = Some f \<longrightarrow> (\<forall>p \<in> set ps. cost t p \<le> f)) \<and>
    lfu_prio (lfu t') = lfu_prio (lfu t) |` (- tp_lba ` set ps) \<and> tier_fair t'"
proof -
  obtain ps t' where p: "tier_down (unat n) t = Inr (ps, t')" "tier_fair t'" "length ps = unat n" "sorted (map (cost t) ps)"
      "lfu_prio (lfu t') = lfu_prio (lfu t) |` (- tp_lba ` set ps)"
      "\<forall>k f. lfu_prio (lfu t') k = Some f \<longrightarrow> (\<forall>p \<in> set ps. cost t p \<le> f)"
    using tier_down_fair [OF assms] by blast
  have "Tier_TierDown t n = Inr (n \<noteq> 0, ps, t')" using p(1) by (simp add: Tier_TierDown_def)
  then show ?thesis using p(2-6) by blast
qed

definition small_tier :: TierModule where
  "small_tier = CreateTierModule \<lparr>indexBucketNum = 1\<rparr>"

lemma small_tier_written:
  "tier_inv small_tier \<and> freq_abs small_tier = Map.empty \<and> (\<exists>t. Tier_WriteIO small_tier 0 8192 \<lparr>readFreq = 0, writeFreq = 0\<rparr> True = Inr t \<and>
     tier_fair t \<and> card (dom (freq_abs t)) = 1)"
proof -
  have c: "tier_inv small_tier" "freq_abs small_tier = Map.empty" "lfu_age (lfu small_tier) = 0" "tier_fair small_tier"
    using CreateTierModule_spec [of "\<lparr>indexBucketNum = 1\<rparr>"] CreateTierModule_fair [of "\<lparr>indexBucketNum = 1\<rparr>"]
    by (simp_all add: small_tier_def)
  let ?pf = "\<lparr>readFreq = 0, writeFreq = 0\<rparr>"
  obtain t where t: "Tier_WriteIO small_tier 0 8192 ?pf True = Inr t" "tier_inv t"
      "touched small_tier (align_page 0) (count_write True ?pf) t"
    using Tier_WriteIO_spec [OF c(1), of 0 8192 ?pf True] c(2) by auto
  have "no_wrap small_tier (count_write True ?pf)"
    using unat_lt2p32 by (simp add: no_wrap_def c(3))
  then have "tier_fair t" using touched_fair(1) [OF c(4) t(3,2)] c(2) by simp
  moreover have "dom (freq_abs t) = {align_page 0}" using t(3) c(2) by (simp add: touched_def)
  ultimately show ?thesis using c(1,2) t(1) by simp
qed

theorem tier_down_cheapest_witness:
  "\<exists>t ps t'. Tier_WriteIO small_tier 0 8192 \<lparr>readFreq = 0, writeFreq = 0\<rparr> True = Inr t \<and>
     Tier_TierDown t 1 = Inr (True, ps, t') \<and> length ps = 1"
proof -
  obtain t where t: "Tier_WriteIO small_tier 0 8192 \<lparr>readFreq = 0, writeFreq = 0\<rparr> True = Inr t" "tier_fair t"
      "card (dom (freq_abs t)) = 1"
    using small_tier_written by blast
  then show ?thesis using tier_down_cheapest [of t 1] by auto
qed

text \<open>To ask \<open>TierDown\<close> for more pages than the tier holds ends the program.\<close>

theorem tier_down_too_much:
  assumes "tier_inv t" and "card (dom (freq_abs t)) < unat n"
  shows "Tier_TierDown t n = Inl ExitFailure"
  using tier_down_too_many [OF assms] by (simp add: Tier_TierDown_def)

theorem tier_down_too_much_witness: "Tier_TierDown small_tier 1 = Inl ExitFailure"
proof -
  have "tier_inv small_tier" "freq_abs small_tier = Map.empty" using small_tier_written by blast+
  then show ?thesis using tier_down_too_much [of small_tier 1] by simp
qed

text \<open>The weight of a page, computed in floating point, is \<open>(7 r + 3 w) / 10\<close> rounded down for \<open>r\<close> reads
  and \<open>w\<close> writes, or one less, and more accesses never make it smaller.\<close>

theorem weight_of_page:
  "unat (weighted_freq r w) \<le> (7 * unat r + 3 * unat w) div 10 \<and>
   (7 * unat r + 3 * unat w) div 10 \<le> unat (weighted_freq r w) + 1 \<and>
   weighted_freq r w \<le> weighted_freq (max r r') (max w w')"
  using weighted_freq_bounds [of r w] weighted_freq_mono [of r "max r r'" w "max w w'"] by simp

end
