(* ===== verification/Queues.thy ===== *)
theory Queues
  imports Prelude
begin

text \<open>
  The two request queues of src/src/utility: blocking_queue.c (a ring buffer of fixed size) and
  unblocking_queue.c (an unbounded linked list). First the critical sections as functions, with
  the FIFO contract they meet (locale \<open>fifo\<close>); theory \<open>Queue_Threads\<close> adds the threads.
  Cursors and sizes are natural numbers: they stay below the 32-bit capacity (\<open>ring_inv\<close>).
\<close>

subsection \<open>The contract\<close>

locale fifo =
  fixes push :: "'q \<Rightarrow> 'a \<Rightarrow> fault + 'q"
    and pop :: "'q \<Rightarrow> fault + 'a option \<times> 'q"
    and size :: "'q \<Rightarrow> u32"
    and inv :: "'q \<Rightarrow> bool"
    and room :: "'q \<Rightarrow> bool"
    and items :: "'q \<Rightarrow> 'a list"
  assumes push: "inv q \<Longrightarrow> room q \<Longrightarrow> \<exists>q'. push q x = Inr q' \<and> inv q' \<and> items q' = items q @ [x]"
    and pop_empty: "inv q \<Longrightarrow> items q = [] \<Longrightarrow> pop q = Inr (None, q)"
    and pop: "inv q \<Longrightarrow> items q = x # xs \<Longrightarrow> \<exists>q'. pop q = Inr (Some x, q') \<and> inv q' \<and> items q' = xs"
    and size: "inv q \<Longrightarrow> size q = of_nat (length (items q))"
begin

lemma push_D: "push q x = Inr q' \<Longrightarrow> inv q \<Longrightarrow> room q \<Longrightarrow> inv q' \<and> items q' = items q @ [x]"
  using push [of q x] by auto

lemma pop_total: "inv q \<Longrightarrow> \<exists>r q'. pop q = Inr (r, q') \<and> inv q' \<and> items q = (case r of None \<Rightarrow> [] | Some x \<Rightarrow> [x]) @ items q'"
proof -
  assume q: "inv q"
  show ?thesis
  proof (cases "items q")
    case Nil
    then show ?thesis using pop_empty [OF q] q by (intro exI [of _ None] exI [of _ q]) simp
  next
    case (Cons x xs)
    then obtain q' where "pop q = Inr (Some x, q')" "inv q'" "items q' = xs" using pop [OF q] by blast
    then show ?thesis using Cons by (intro exI [of _ "Some x"] exI [of _ q']) simp
  qed
qed

lemma pop_D:
  assumes "pop q = Inr (r, q')" and "inv q"
  shows "inv q'" and "items q = (case r of None \<Rightarrow> [] | Some x \<Rightarrow> [x]) @ items q'"
    and "r = None \<longleftrightarrow> items q = []"
proof -
  obtain r' q1 where p: "pop q = Inr (r', q1)" "inv q1" "items q = (case r' of None \<Rightarrow> [] | Some x \<Rightarrow> [x]) @ items q1"
    using pop_total [OF assms(2)] by blast
  then have e: "r' = r" "q1 = q'" using assms(1) by simp_all
  show "inv q'" "items q = (case r of None \<Rightarrow> [] | Some x \<Rightarrow> [x]) @ items q'" using p(2,3) unfolding e by blast+
  show "r = None \<longleftrightarrow> items q = []"
  proof (cases "items q")
    case Nil
    then show ?thesis using pop_empty [OF assms(2)] assms(1) by simp
  next
    case (Cons x xs)
    then show ?thesis using pop [OF assms(2) Cons] assms(1) by auto
  qed
qed

text \<open>What is pushed on an empty queue comes out first.\<close>

lemma push_then_pop:
  assumes "inv q" and "items q = []" and "room q"
  shows "\<exists>q1 q2. push q x = Inr q1 \<and> pop q1 = Inr (Some x, q2) \<and> items q2 = []"
  using push [OF assms(1,3), of x] pop [of _ x "[]"] assms(2) by fastforce

end

subsection \<open>The unbounded queue\<close>

record 'a UnblockingQueue =
  uq_shutdown :: bool
  uq_queue :: "'a list"
  uq_cursor :: u32

definition uq_IsEmpty :: "'a UnblockingQueue \<Rightarrow> bool" where
  "uq_IsEmpty q \<longleftrightarrow> uq_cursor q = 0"

text \<open>The body of \<open>Push\<close> up to the signal: a new node at the end, \<open>cursor++\<close>.\<close>

definition uq_Push :: "'a UnblockingQueue \<Rightarrow> 'a \<Rightarrow> fault + 'a UnblockingQueue" where
  "uq_Push q x = Inr (q\<lparr>uq_queue := uq_queue q @ [x], uq_cursor := uq_cursor q + 1\<rparr>)"

text \<open>The body of \<open>Pop\<close> after the wait; \<open>None\<close> when \<open>*data\<close> is left alone.\<close>

definition uq_Take :: "'a UnblockingQueue \<Rightarrow> fault + 'a option \<times> 'a UnblockingQueue" where
  "uq_Take q =
     (if uq_IsEmpty q then Inr (None, q)
      else case uq_queue q of [] \<Rightarrow> Inl BadListEntry
        | x # xs \<Rightarrow> Inr (Some x, q\<lparr>uq_queue := xs, uq_cursor := uq_cursor q - 1\<rparr>))"

definition uq_must_wait :: "'a UnblockingQueue \<Rightarrow> bool" where
  "uq_must_wait q \<longleftrightarrow> uq_IsEmpty q \<and> \<not> uq_shutdown q"

definition uq_Shutdown :: "'a UnblockingQueue \<Rightarrow> 'a UnblockingQueue" where
  "uq_Shutdown q = q\<lparr>uq_shutdown := True\<rparr>"

definition uq_QuerySize :: "'a UnblockingQueue \<Rightarrow> u32" where
  "uq_QuerySize q = uq_cursor q"

definition CreateUnblockingQueue :: "'a UnblockingQueue" where
  "CreateUnblockingQueue = \<lparr>uq_shutdown = False, uq_queue = [], uq_cursor = 0\<rparr>"

definition uq_inv :: "'a UnblockingQueue \<Rightarrow> bool" where
  "uq_inv q \<longleftrightarrow> uq_cursor q = of_nat (length (uq_queue q)) \<and> length (uq_queue q) < 4294967296"

definition uq_room :: "'a UnblockingQueue \<Rightarrow> bool" where
  "uq_room q \<longleftrightarrow> length (uq_queue q) < 4294967295"

lemma uq_empty: "uq_inv q \<Longrightarrow> uq_IsEmpty q \<longleftrightarrow> uq_queue q = []"
  using of_nat_u32_inject [of "length (uq_queue q)" 0] by (simp add: uq_inv_def uq_IsEmpty_def)

interpretation uqi: fifo uq_Push uq_Take uq_QuerySize uq_inv uq_room uq_queue
proof unfold_locales
  fix q :: "'a UnblockingQueue" and x xs assume q: "uq_inv q"
  show "uq_room q \<Longrightarrow> \<exists>q'. uq_Push q x = Inr q' \<and> uq_inv q' \<and> uq_queue q' = uq_queue q @ [x]"
    using q by (simp add: uq_Push_def uq_inv_def uq_room_def add.commute)
  show "uq_queue q = [] \<Longrightarrow> uq_Take q = Inr (None, q)" using uq_empty [OF q] by (simp add: uq_Take_def)
  show "uq_queue q = x # xs \<Longrightarrow> \<exists>q'. uq_Take q = Inr (Some x, q') \<and> uq_inv q' \<and> uq_queue q' = xs"
    using uq_empty [OF q] q by (simp add: uq_Take_def uq_inv_def)
  show "uq_QuerySize q = of_nat (length (uq_queue q))" using q by (simp add: uq_QuerySize_def uq_inv_def)
qed

lemma CreateUnblockingQueue_inv: "uq_inv CreateUnblockingQueue" "uq_queue CreateUnblockingQueue = []"
  by (simp_all add: CreateUnblockingQueue_def uq_inv_def)

subsection \<open>The ring buffer\<close>

record 'a BlockingQueue =
  bq_shutdown :: bool
  bq_queueSize :: nat
  bq_currentSize :: nat
  bq_queue :: "'a list"
  pushCursor :: nat
  popCursor :: nat

definition bq_IsFull :: "'a BlockingQueue \<Rightarrow> bool" where
  "bq_IsFull q \<longleftrightarrow> bq_currentSize q = bq_queueSize q"

definition bq_IsEmpty :: "'a BlockingQueue \<Rightarrow> bool" where
  "bq_IsEmpty q \<longleftrightarrow> bq_currentSize q = 0"

definition next_slot :: "nat \<Rightarrow> nat \<Rightarrow> fault + nat" where
  "next_slot n c = (if n = 0 then Inl DivByZero else Inr ((c + 1) mod n))"

text \<open>The body of \<open>Push\<close> after the wait. It does not look at the size again.\<close>

definition bq_Put :: "'a BlockingQueue \<Rightarrow> 'a \<Rightarrow> fault + 'a BlockingQueue" where
  "bq_Put q x =
     bindE (arr_set (bq_queue q) (pushCursor q) x) (\<lambda>slots.
     bindE (next_slot (bq_queueSize q) (pushCursor q)) (\<lambda>c.
     Inr (q\<lparr>bq_queue := slots, pushCursor := c, bq_currentSize := bq_currentSize q + 1\<rparr>)))"

text \<open>The body of \<open>Pop\<close> after the wait.\<close>

definition bq_Take :: "'a BlockingQueue \<Rightarrow> fault + 'a option \<times> 'a BlockingQueue" where
  "bq_Take q =
     (if bq_IsEmpty q then Inr (None, q) else
      bindE (arr_get (bq_queue q) (popCursor q)) (\<lambda>x.
      bindE (next_slot (bq_queueSize q) (popCursor q)) (\<lambda>c.
      Inr (Some x, q\<lparr>popCursor := c, bq_currentSize := bq_currentSize q - 1\<rparr>))))"

definition bq_must_wait :: "'a BlockingQueue \<Rightarrow> bool" where
  "bq_must_wait q \<longleftrightarrow> bq_IsEmpty q \<and> \<not> bq_shutdown q"

definition bq_Shutdown :: "'a BlockingQueue \<Rightarrow> 'a BlockingQueue" where
  "bq_Shutdown q = q\<lparr>bq_shutdown := True\<rparr>"

definition bq_QuerySize :: "'a BlockingQueue \<Rightarrow> u32" where
  "bq_QuerySize q = of_nat (bq_currentSize q)"

text \<open>A fresh queue: \<open>memset\<close> fills the slots with \<open>z\<close>, the item of all zero bytes.\<close>

definition CreateBlockingQueue :: "'a \<Rightarrow> u32 \<Rightarrow> 'a BlockingQueue" where
  "CreateBlockingQueue z n = \<lparr>bq_shutdown = False, bq_queueSize = unat n, bq_currentSize = 0,
     bq_queue = replicate (unat n) z, pushCursor = 0, popCursor = 0\<rparr>"

definition ring_items :: "'a BlockingQueue \<Rightarrow> 'a list" where
  "ring_items q = map (\<lambda>i. bq_queue q ! ((popCursor q + i) mod bq_queueSize q)) [0..<bq_currentSize q]"

definition ring_inv :: "'a BlockingQueue \<Rightarrow> bool" where
  "ring_inv q \<longleftrightarrow> 0 < bq_queueSize q \<and> length (bq_queue q) = bq_queueSize q \<and> popCursor q < bq_queueSize q \<and>
     pushCursor q = (popCursor q + bq_currentSize q) mod bq_queueSize q \<and> bq_currentSize q \<le> bq_queueSize q"

definition ring_room :: "'a BlockingQueue \<Rightarrow> bool" where
  "ring_room q \<longleftrightarrow> bq_currentSize q < bq_queueSize q"

lemma length_ring_items [simp]: "length (ring_items q) = bq_currentSize q"
  by (simp add: ring_items_def)

lemma ring_slots_distinct:
  assumes "(p + i) mod n = (p + j) mod n" and "i < n" and "j < (n :: nat)"
  shows "i = j"
proof -
  have no: False if "(p + a) mod n = (p + b) mod n" "a < b" "b < n" for a b
  proof -
    have "n dvd (p + b) - (p + a)"
      using that(1,2) mod_eq_dvd_iff_nat [of "p + a" "p + b" n] by simp
    then show False using that(2,3) by (auto dest: dvd_imp_le)
  qed
  show ?thesis using no [of i j] no [of j i] assms by (cases i j rule: linorder_cases) auto
qed

lemma bq_Put_spec:
  assumes "ring_inv q" and "ring_room q"
  shows "\<exists>q'. bq_Put q x = Inr q' \<and> ring_inv q' \<and> ring_items q' = ring_items q @ [x]"
proof -
  let ?n = "bq_queueSize q" and ?p = "popCursor q" and ?c = "bq_currentSize q"
  have q: "0 < ?n" "length (bq_queue q) = ?n" "?p < ?n" "pushCursor q = (?p + ?c) mod ?n" "?c < ?n"
    using assms by (simp_all add: ring_inv_def ring_room_def)
  let ?q' = "q\<lparr>bq_queue := (bq_queue q)[pushCursor q := x], pushCursor := (pushCursor q + 1) mod ?n,
     bq_currentSize := ?c + 1\<rparr>"
  have lt: "pushCursor q < ?n" using q by simp
  have r: "bq_Put q x = Inr ?q'" using lt q by (simp add: bq_Put_def next_slot_def)
  have "(pushCursor q + 1) mod ?n = (?p + (?c + 1)) mod ?n" using q(4) by (simp add: mod_Suc_eq)
  then have "ring_inv ?q'" using q by (simp add: ring_inv_def)
  moreover have "ring_items ?q' = ring_items q @ [x]"
  proof (rule nth_equalityI)
    fix i assume i: "i < length (ring_items ?q')"
    show "ring_items ?q' ! i = (ring_items q @ [x]) ! i"
    proof (cases "i = ?c")
      case True
      then show ?thesis using q lt by (simp add: ring_items_def nth_append del: upt_Suc)
    next
      case False
      then have "i < ?c" using i by simp
      moreover from this have "(?p + i) mod ?n \<noteq> pushCursor q"
        using ring_slots_distinct [of ?p i ?n ?c] q by auto
      ultimately show ?thesis by (simp add: ring_items_def nth_append del: upt_Suc)
    qed
  qed simp
  ultimately show ?thesis using r by blast
qed

lemma bq_Take_spec:
  assumes "ring_inv q" and "ring_items q = x # xs"
  shows "\<exists>q'. bq_Take q = Inr (Some x, q') \<and> ring_inv q' \<and> ring_items q' = xs"
proof -
  let ?n = "bq_queueSize q" and ?p = "popCursor q" and ?c = "bq_currentSize q"
  have q: "0 < ?n" "length (bq_queue q) = ?n" "?p < ?n" "pushCursor q = (?p + ?c) mod ?n" "?c \<le> ?n"
    using assms by (simp_all add: ring_inv_def)
  have c: "?c = Suc (length xs)" using assms(2) length_ring_items [of q] by simp
  have it: "ring_items q ! i = bq_queue q ! ((?p + i) mod ?n)" if "i < ?c" for i
    using that by (simp add: ring_items_def)
  have x: "bq_queue q ! ?p = x" using it [of 0] c q assms(2) by simp
  let ?q' = "q\<lparr>popCursor := (?p + 1) mod ?n, bq_currentSize := ?c - 1\<rparr>"
  have r: "bq_Take q = Inr (Some x, ?q')" using q c x by (simp add: bq_Take_def bq_IsEmpty_def next_slot_def)
  have "((?p + 1) mod ?n + (?c - 1)) mod ?n = (?p + ?c) mod ?n" using c by (simp add: mod_add_left_eq)
  then have "ring_inv ?q'" using q by (simp add: ring_inv_def)
  moreover have "ring_items ?q' = xs"
  proof (rule nth_equalityI)
    fix i assume "i < length (ring_items ?q')"
    then have i: "i < length xs" using c by simp
    have "ring_items ?q' ! i = bq_queue q ! (((?p + 1) mod ?n + i) mod ?n)" using i c by (simp add: ring_items_def)
    also have "\<dots> = ring_items q ! Suc i" using it [of "Suc i"] i c by (simp add: mod_add_left_eq)
    finally show "ring_items ?q' ! i = xs ! i" using assms(2) by simp
  qed (use c in simp)
  ultimately show ?thesis using r by blast
qed

interpretation bqi: fifo bq_Put bq_Take bq_QuerySize ring_inv ring_room ring_items
proof unfold_locales
  fix q :: "'a BlockingQueue" assume q: "ring_inv q"
  show "ring_items q = [] \<Longrightarrow> bq_Take q = Inr (None, q)"
    using length_ring_items [of q] by (simp add: bq_Take_def bq_IsEmpty_def)
  show "bq_QuerySize q = of_nat (length (ring_items q))" by (simp add: bq_QuerySize_def)
qed (blast intro: bq_Put_spec bq_Take_spec)+

lemma CreateBlockingQueue_inv:
  "n \<noteq> 0 \<Longrightarrow> ring_inv (CreateBlockingQueue z n) \<and> ring_items (CreateBlockingQueue z n) = []"
  by (simp add: CreateBlockingQueue_def ring_inv_def ring_items_def unat_gt_0)

text \<open>
  A \<open>Push\<close> that goes on although the ring is full destroys the oldest item: the queue then claims
  one item more than it has slots, and yields the new item before the old ones.
\<close>

lemma bq_Put_full:
  assumes "ring_inv q" and "bq_IsFull q" and "ring_items q = y # ys"
  shows "\<exists>q'. bq_Put q x = Inr q' \<and> bq_currentSize q' = bq_queueSize q' + 1 \<and>
     (\<exists>q''. bq_Take q' = Inr (Some x, q''))"
proof -
  let ?n = "bq_queueSize q"
  have q: "0 < ?n" "length (bq_queue q) = ?n" "popCursor q < ?n" "bq_currentSize q = ?n"
    using assms(1,2) by (simp_all add: ring_inv_def bq_IsFull_def)
  have "pushCursor q = popCursor q" using assms(1) q by (simp add: ring_inv_def)
  then show ?thesis using q by (simp add: bq_Put_def bq_Take_def next_slot_def bq_IsEmpty_def)
qed

end
