(* ===== verification/Queue_Threads.thy ===== *)
theory Queue_Threads
  imports Queues
begin

text \<open>
  The queues used by threads. A step is what one thread does between acquiring the mutex and
  giving it up, \<open>pthread_cond_wait\<close> splitting it in two; \<open>Shutdown\<close> takes no mutex, so it may come
  between the test of a \<open>Pop\<close> and its wait. A signal wakes at least one of the waiting threads;
  a woken thread goes on when it gets the mutex, and nothing keeps the others from getting it
  first. A wait may also return without a signal, as POSIX allows (\<open>EWake\<close>).
\<close>

datatype 'a q_event =
    EPush nat 'a            \<comment> \<open>a thread has put an item\<close>
  | EPop nat "'a option"    \<comment> \<open>a \<open>Pop\<close> of a thread returns, with or without an item\<close>
  | EBlock nat              \<comment> \<open>a thread tests the size and must wait, or starts to wait\<close>
  | EWake nat               \<comment> \<open>a wait of a thread returns although there was no signal\<close>
  | EShut                   \<comment> \<open>\<open>Shutdown\<close>\<close>

fun pushed :: "'a q_event list \<Rightarrow> 'a list" where
  "pushed [] = []"
| "pushed (EPush t x # es) = x # pushed es"
| "pushed (_ # es) = pushed es"

fun popped :: "'a q_event list \<Rightarrow> 'a list" where
  "popped [] = []"
| "popped (EPop t (Some x) # es) = x # popped es"
| "popped (_ # es) = popped es"

lemma pushed_append [simp]: "pushed (es @ fs) = pushed es @ pushed fs"
  by (induction es rule: pushed.induct) auto

lemma popped_append [simp]: "popped (es @ fs) = popped es @ popped fs"
  by (induction es rule: popped.induct) auto

text \<open>\<open>pthread_cond_signal\<close>: from state \<open>w\<close> to state \<open>r\<close>, at least one thread if there is one.\<close>

definition signalled :: "('p \<Rightarrow> bool) \<Rightarrow> ('p \<Rightarrow> 'p) \<Rightarrow> (nat \<Rightarrow> 'p) \<Rightarrow> (nat \<Rightarrow> 'p) \<Rightarrow> bool" where
  "signalled waiting wake pc pc' \<longleftrightarrow>
     (\<exists>W. W \<subseteq> {t. waiting (pc t)} \<and> (W = {} \<longrightarrow> {t. waiting (pc t)} = {}) \<and>
        pc' = (\<lambda>t. if t \<in> W then wake (pc t) else pc t))"

definition broadcast :: "('p \<Rightarrow> bool) \<Rightarrow> ('p \<Rightarrow> 'p) \<Rightarrow> (nat \<Rightarrow> 'p) \<Rightarrow> nat \<Rightarrow> 'p" where
  "broadcast waiting wake pc = (\<lambda>t. if waiting (pc t) then wake (pc t) else pc t)"

lemma signalled_none: "(\<And>t. \<not> waiting (pc t)) \<Longrightarrow> signalled waiting wake pc pc' \<longleftrightarrow> pc' = pc"
  by (auto simp: signalled_def fun_eq_iff)

lemma signalled_one: "waiting (pc t) \<Longrightarrow> signalled waiting wake pc (pc(t := wake (pc t)))"
  by (auto simp: signalled_def fun_eq_iff intro!: exI [of _ "{t}"])

subsection \<open>The unbounded queue\<close>

datatype upc = UOut | UChecked | UWaiting | UWoken

record 'a uq_sys =
  uq_q :: "'a UnblockingQueue"
  uq_pc :: "nat \<Rightarrow> upc"

abbreviation uq_free :: "(nat \<Rightarrow> upc) \<Rightarrow> bool" where
  "uq_free pc \<equiv> \<forall>t. pc t \<noteq> UChecked"

inductive uq_step :: "'a uq_sys \<Rightarrow> 'a q_event \<Rightarrow> 'a uq_sys \<Rightarrow> bool" where
  uq_push: "uq_free (uq_pc s) \<Longrightarrow> uq_pc s t = UOut \<Longrightarrow> uq_Push (uq_q s) x = Inr q' \<Longrightarrow>
    signalled (\<lambda>p. p = UWaiting) (\<lambda>_. UWoken) (uq_pc s) pc' \<Longrightarrow>
    uq_step s (EPush t x) \<lparr>uq_q = q', uq_pc = pc'\<rparr>"
| uq_pop: "uq_free (uq_pc s) \<Longrightarrow> uq_pc s t = UOut \<Longrightarrow> \<not> uq_must_wait (uq_q s) \<Longrightarrow>
    uq_Take (uq_q s) = Inr (r, q') \<Longrightarrow> uq_step s (EPop t r) (s\<lparr>uq_q := q'\<rparr>)"
| uq_check: "uq_free (uq_pc s) \<Longrightarrow> uq_pc s t = UOut \<Longrightarrow> uq_must_wait (uq_q s) \<Longrightarrow>
    uq_step s (EBlock t) (s\<lparr>uq_pc := (uq_pc s)(t := UChecked)\<rparr>)"
| uq_wait: "uq_pc s t = UChecked \<Longrightarrow> uq_step s (EBlock t) (s\<lparr>uq_pc := (uq_pc s)(t := UWaiting)\<rparr>)"
| uq_resume: "uq_free (uq_pc s) \<Longrightarrow> uq_pc s t = UWoken \<Longrightarrow> uq_Take (uq_q s) = Inr (r, q') \<Longrightarrow>
    uq_step s (EPop t r) (s\<lparr>uq_q := q', uq_pc := (uq_pc s)(t := UOut)\<rparr>)"
| uq_wake: "uq_pc s t = UWaiting \<Longrightarrow> uq_step s (EWake t) (s\<lparr>uq_pc := (uq_pc s)(t := UWoken)\<rparr>)"
| uq_shut: "uq_step s EShut (s\<lparr>uq_q := uq_Shutdown (uq_q s),
    uq_pc := broadcast (\<lambda>p. p = UWaiting) (\<lambda>_. UWoken) (uq_pc s)\<rparr>)"

inductive_cases uq_stepE: "uq_step s e s'"

inductive uq_run :: "'a uq_sys \<Rightarrow> 'a q_event list \<Rightarrow> 'a uq_sys \<Rightarrow> bool" for s where
  uq_nil: "uq_run s [] s"
| uq_snoc: "uq_run s es s1 \<Longrightarrow> uq_step s1 e s2 \<Longrightarrow> uq_run s (es @ [e]) s2"

definition uq_start :: "'a uq_sys" where
  "uq_start = \<lparr>uq_q = CreateUnblockingQueue, uq_pc = (\<lambda>_. UOut)\<rparr>"

lemma uq_step_items:
  assumes "uq_step s e s'" and "uq_inv (uq_q s)" and "length (uq_queue (uq_q s)) < 4294967295"
  shows "uq_inv (uq_q s')" and "popped [e] @ uq_queue (uq_q s') = uq_queue (uq_q s) @ pushed [e]"
proof -
  have room: "uq_room (uq_q s)" using assms(3) by (simp add: uq_room_def)
  have "uq_inv (uq_q s') \<and> popped [e] @ uq_queue (uq_q s') = uq_queue (uq_q s) @ pushed [e]"
    using assms(1)
  proof (cases rule: uq_step.cases)
    case (uq_push t x q' pc')
    then show ?thesis using uqi.push_D [of "uq_q s" x q'] assms(2) room by simp
  next
    case (uq_pop t r q')
    then show ?thesis using uqi.pop_D(1,2) [OF uq_pop(6) assms(2)] by (cases r) simp_all
  next
    case (uq_resume t r q')
    then show ?thesis using uqi.pop_D(1,2) [OF uq_resume(5) assms(2)] by (cases r) simp_all
  next
    case uq_shut
    then show ?thesis using assms(2) by (simp add: uq_inv_def uq_Shutdown_def)
  qed (use assms(2) in simp_all)
  then show "uq_inv (uq_q s')" "popped [e] @ uq_queue (uq_q s') = uq_queue (uq_q s) @ pushed [e]" by blast+
qed

lemma uq_run_fifo:
  assumes "uq_run uq_start es s" and "length (pushed es) < 4294967295"
  shows "uq_inv (uq_q s) \<and> pushed es = popped es @ uq_queue (uq_q s)"
  using assms
proof (induction rule: uq_run.induct)
  case uq_nil
  then show ?case by (simp add: uq_start_def CreateUnblockingQueue_inv)
next
  case (uq_snoc es s1 e s2)
  have ih: "uq_inv (uq_q s1)" "pushed es = popped es @ uq_queue (uq_q s1)"
    using uq_snoc.IH uq_snoc.prems by simp_all
  then have "length (uq_queue (uq_q s1)) < 4294967295"
    using uq_snoc.prems by (metis append_assoc length_append less_le_trans not_le pushed_append trans_le_add1 trans_le_add2)
  from uq_step_items [OF uq_snoc.hyps(2) ih(1) this]
  show ?case using ih(2) by simp
qed

text \<open>Without further pushes or shutdowns, a thread that waits is never signalled.\<close>

lemma uq_asleep_step:
  assumes "uq_step s e s'" and "uq_pc s t = UWaiting" and "\<And>u x. e \<noteq> EPush u x" and "e \<noteq> EShut" and "e \<noteq> EWake t"
  shows "uq_pc s' t = UWaiting"
  using assms by (cases rule: uq_step.cases) auto

lemma uq_asleep:
  assumes "uq_run s es s'" and "uq_pc s t = UWaiting" and "pushed es = []" and "EShut \<notin> set es" and "EWake t \<notin> set es"
  shows "uq_pc s' t = UWaiting"
  using assms
proof (induction rule: uq_run.induct)
  case (uq_snoc es s1 e s2)
  have ne: "e \<noteq> EPush u x" for u x using uq_snoc.prems(2) by auto
  show ?case by (rule uq_asleep_step [OF uq_snoc.hyps(2) _ ne]) (use uq_snoc in auto)
qed

lemma uq_lost_shutdown:
  "\<exists>s. uq_run (uq_start :: 'a uq_sys) [EBlock t, EShut, EBlock t] s \<and> uq_shutdown (uq_q s) \<and> uq_pc s t = UWaiting"
proof -
  let ?s0 = "uq_start :: 'a uq_sys"
  let ?s1 = "?s0\<lparr>uq_pc := (uq_pc ?s0)(t := UChecked)\<rparr>"
  let ?s2 = "?s1\<lparr>uq_q := uq_Shutdown (uq_q ?s1), uq_pc := broadcast (\<lambda>p. p = UWaiting) (\<lambda>_. UWoken) (uq_pc ?s1)\<rparr>"
  let ?s3 = "?s2\<lparr>uq_pc := (uq_pc ?s2)(t := UWaiting)\<rparr>"
  have 1: "uq_step ?s0 (EBlock t) ?s1"
    by (rule uq_check) (simp_all add: uq_start_def uq_must_wait_def uq_IsEmpty_def CreateUnblockingQueue_def)
  have 2: "uq_step ?s1 EShut ?s2" by (rule uq_shut)
  have 3: "uq_step ?s2 (EBlock t) ?s3" by (rule uq_wait) (simp add: broadcast_def)
  have "uq_run ?s0 ((([] @ [EBlock t]) @ [EShut]) @ [EBlock t]) ?s3"
    by (rule uq_snoc [OF uq_snoc [OF uq_snoc [OF uq_nil 1] 2] 3])
  then show ?thesis by (auto simp: uq_Shutdown_def)
qed

subsection \<open>The ring buffer\<close>

datatype 'a bpc = BOut | PushWait 'a | PushWoken 'a | PopChecked | PopWaiting | PopWoken

record 'a bq_sys =
  bq_q :: "'a BlockingQueue"
  bq_pc :: "nat \<Rightarrow> 'a bpc"

fun push_waits :: "'a bpc \<Rightarrow> bool" where
  "push_waits (PushWait x) = True" | "push_waits _ = False"

fun wake_push :: "'a bpc \<Rightarrow> 'a bpc" where
  "wake_push (PushWait x) = PushWoken x" | "wake_push p = p"

abbreviation bq_free :: "(nat \<Rightarrow> 'a bpc) \<Rightarrow> bool" where
  "bq_free pc \<equiv> \<forall>t. pc t \<noteq> PopChecked"

abbreviation signal_pop :: "(nat \<Rightarrow> 'a bpc) \<Rightarrow> (nat \<Rightarrow> 'a bpc) \<Rightarrow> bool" where
  "signal_pop \<equiv> signalled (\<lambda>p. p = PopWaiting) (\<lambda>_. PopWoken)"

abbreviation signal_push :: "(nat \<Rightarrow> 'a bpc) \<Rightarrow> (nat \<Rightarrow> 'a bpc) \<Rightarrow> bool" where
  "signal_push \<equiv> signalled push_waits wake_push"

inductive bq_step :: "'a bq_sys \<Rightarrow> 'a q_event \<Rightarrow> 'a bq_sys \<Rightarrow> bool" where
  bq_push: "bq_free (bq_pc s) \<Longrightarrow> bq_pc s t = BOut \<Longrightarrow> \<not> bq_IsFull (bq_q s) \<Longrightarrow> bq_Put (bq_q s) x = Inr q' \<Longrightarrow>
    signal_pop (bq_pc s) pc' \<Longrightarrow> bq_step s (EPush t x) \<lparr>bq_q = q', bq_pc = pc'\<rparr>"
| bq_block: "bq_free (bq_pc s) \<Longrightarrow> bq_pc s t = BOut \<Longrightarrow> bq_IsFull (bq_q s) \<Longrightarrow>
    bq_step s (EBlock t) (s\<lparr>bq_pc := (bq_pc s)(t := PushWait x)\<rparr>)"
| bq_push_resume: "bq_free (bq_pc s) \<Longrightarrow> bq_pc s t = PushWoken x \<Longrightarrow> bq_Put (bq_q s) x = Inr q' \<Longrightarrow>
    signal_pop ((bq_pc s)(t := BOut)) pc' \<Longrightarrow> bq_step s (EPush t x) \<lparr>bq_q = q', bq_pc = pc'\<rparr>"
| bq_pop: "bq_free (bq_pc s) \<Longrightarrow> bq_pc s t = BOut \<Longrightarrow> \<not> bq_must_wait (bq_q s) \<Longrightarrow>
    bq_Take (bq_q s) = Inr (r, q') \<Longrightarrow> signal_push (bq_pc s) pc' \<Longrightarrow>
    bq_step s (EPop t r) \<lparr>bq_q = q', bq_pc = pc'\<rparr>"
| bq_check: "bq_free (bq_pc s) \<Longrightarrow> bq_pc s t = BOut \<Longrightarrow> bq_must_wait (bq_q s) \<Longrightarrow>
    bq_step s (EBlock t) (s\<lparr>bq_pc := (bq_pc s)(t := PopChecked)\<rparr>)"
| bq_wait: "bq_pc s t = PopChecked \<Longrightarrow> bq_step s (EBlock t) (s\<lparr>bq_pc := (bq_pc s)(t := PopWaiting)\<rparr>)"
| bq_pop_resume: "bq_free (bq_pc s) \<Longrightarrow> bq_pc s t = PopWoken \<Longrightarrow> bq_Take (bq_q s) = Inr (r, q') \<Longrightarrow>
    signal_push ((bq_pc s)(t := BOut)) pc' \<Longrightarrow> bq_step s (EPop t r) \<lparr>bq_q = q', bq_pc = pc'\<rparr>"
| bq_wake_push: "bq_pc s t = PushWait x \<Longrightarrow> bq_step s (EWake t) (s\<lparr>bq_pc := (bq_pc s)(t := PushWoken x)\<rparr>)"
| bq_wake_pop: "bq_pc s t = PopWaiting \<Longrightarrow> bq_step s (EWake t) (s\<lparr>bq_pc := (bq_pc s)(t := PopWoken)\<rparr>)"
| bq_shut: "bq_step s EShut (s\<lparr>bq_q := bq_Shutdown (bq_q s),
    bq_pc := broadcast (\<lambda>p. p = PopWaiting) (\<lambda>_. PopWoken) (bq_pc s)\<rparr>)"

inductive bq_run :: "'a bq_sys \<Rightarrow> 'a q_event list \<Rightarrow> 'a bq_sys \<Rightarrow> bool" for s where
  bq_nil: "bq_run s [] s"
| bq_snoc: "bq_run s es s1 \<Longrightarrow> bq_step s1 e s2 \<Longrightarrow> bq_run s (es @ [e]) s2"

definition bq_start :: "'a \<Rightarrow> u32 \<Rightarrow> 'a bq_sys" where
  "bq_start z n = \<lparr>bq_q = CreateBlockingQueue z n, bq_pc = (\<lambda>_. BOut)\<rparr>"

text \<open>Only the thread \<open>p\<close> ever pushes.\<close>

definition pushes_only :: "nat \<Rightarrow> 'a bq_sys \<Rightarrow> bool" where
  "pushes_only p s \<longleftrightarrow> (\<forall>t x. bq_pc s t = PushWait x \<or> bq_pc s t = PushWoken x \<longrightarrow> t = p)"

definition one_pusher :: "nat \<Rightarrow> 'a bq_sys \<Rightarrow> bool" where
  "one_pusher p s \<longleftrightarrow> ring_inv (bq_q s) \<and> pushes_only p s \<and>
     (\<forall>x. bq_pc s p = PushWait x \<longrightarrow> bq_IsFull (bq_q s)) \<and>
     (\<forall>x. bq_pc s p = PushWoken x \<longrightarrow> \<not> bq_IsFull (bq_q s))"

fun event_thread :: "'a q_event \<Rightarrow> nat option" where
  "event_thread (EPush t x) = Some t"
| "event_thread (EPop t r) = Some t"
| "event_thread (EBlock t) = Some t"
| "event_thread EShut = None"

fun is_push :: "'a q_event \<Rightarrow> bool" where
  "is_push (EPush t x) = True" | "is_push _ = False"

text \<open>
  A step in which a thread other than \<open>p\<close> neither pushes nor starts to, and no wait of \<open>p\<close> for room returns
  without a signal.
\<close>

definition fair_step :: "nat \<Rightarrow> 'a bq_sys \<Rightarrow> 'a q_event \<Rightarrow> 'a bq_sys \<Rightarrow> bool" where
  "fair_step p s e s' \<longleftrightarrow> bq_step s e s' \<and> (\<forall>t x. e = EPush t x \<longrightarrow> t = p) \<and> pushes_only p s' \<and>
     (push_waits (bq_pc s p) \<longrightarrow> e \<noteq> EWake p)"

inductive sp_run :: "nat \<Rightarrow> 'a bq_sys \<Rightarrow> 'a q_event list \<Rightarrow> 'a bq_sys \<Rightarrow> bool" for p s where
  sp_nil: "sp_run p s [] s"
| sp_snoc: "sp_run p s es s1 \<Longrightarrow> fair_step p s1 e s2 \<Longrightarrow> sp_run p s (es @ [e]) s2"

lemma signal_pop_push: 
  assumes "signal_pop pc pc'"
  shows "pc' t = PushWait x \<longleftrightarrow> pc t = PushWait x" and "pc' t = PushWoken x \<longleftrightarrow> pc t = PushWoken x"
proof -
  obtain W where W: "W \<subseteq> {t. pc t = PopWaiting}" "pc' = (\<lambda>t. if t \<in> W then PopWoken else pc t)"
    using assms by (auto simp: signalled_def)
  show "pc' t = PushWait x \<longleftrightarrow> pc t = PushWait x" and "pc' t = PushWoken x \<longleftrightarrow> pc t = PushWoken x"
    using W by (cases "t \<in> W"; auto)+
qed

lemma ring_full_iff: "bq_IsFull q \<longleftrightarrow> bq_currentSize q = bq_queueSize q"
  by (simp add: bq_IsFull_def)

lemma bq_Put_sizes:
  "bq_Put q x = Inr q' \<Longrightarrow> bq_queueSize q' = bq_queueSize q \<and> bq_currentSize q' = Suc (bq_currentSize q)"
  by (auto simp: bq_Put_def fault_iff)

lemma bq_Take_sizes:
  "bq_Take q = Inr (r, q') \<Longrightarrow> bq_queueSize q' = bq_queueSize q \<and> bq_currentSize q' = bq_currentSize q - 1 \<and>
     (r = None \<longleftrightarrow> bq_currentSize q = 0)"
  by (auto simp: bq_Take_def fault_iff bq_IsEmpty_def split: if_split_asm)

lemma take_wakes:
  assumes "ring_inv q" and "bq_Take q = Inr (r, q')" and "signal_push pc pc'"
    and "\<And>t x. pc t = PushWait x \<or> pc t = PushWoken x \<Longrightarrow> t = p"
    and "\<And>x. pc p = PushWait x \<Longrightarrow> bq_IsFull q" and "\<And>x. pc p = PushWoken x \<Longrightarrow> \<not> bq_IsFull q"
  shows "pc' p \<noteq> PushWait x" and "pc' p = PushWoken x \<Longrightarrow> \<not> bq_IsFull q'"
proof -
  note sz = bq_Take_sizes [OF assms(2)]
  have r: "0 < bq_queueSize q" "bq_currentSize q \<le> bq_queueSize q" using assms(1) by (simp_all add: ring_inv_def)
  have nf: "\<not> bq_IsFull q'" using sz r by (auto simp: bq_IsFull_def)
  show "pc' p = PushWoken x \<Longrightarrow> \<not> bq_IsFull q'" by (rule nf)
  show "pc' p \<noteq> PushWait x"
  proof
    assume w: "pc' p = PushWait x"
    obtain W where W: "W \<subseteq> {t. push_waits (pc t)}" "W = {} \<longrightarrow> {t. push_waits (pc t)} = {}"
      "pc' = (\<lambda>t. if t \<in> W then wake_push (pc t) else pc t)"
      using assms(3) by (auto simp: signalled_def)
    have "pc p = PushWait x \<and> p \<notin> W" using w W(1,3) by (cases "pc p") (auto split: if_split_asm)
    moreover have "W \<subseteq> {p}"
    proof
      fix t assume "t \<in> W"
      then have "push_waits (pc t)" using W(1) by auto
      then obtain y where "pc t = PushWait y" by (cases "pc t") auto
      then show "t \<in> {p}" using assms(4) by blast
    qed
    ultimately have "W = {}" by auto
    then have "\<not> push_waits (pc p)" using W(2) by auto
    then show False using \<open>pc p = PushWait x \<and> p \<notin> W\<close> by simp
  qed
qed

lemma one_pusher_step:
  assumes "fair_step p s e s'" and "one_pusher p s"
  shows "one_pusher p s'" and "popped [e] @ ring_items (bq_q s') = ring_items (bq_q s) @ pushed [e]"
proof -
  have st: "bq_step s e s'" and po': "pushes_only p s'" and ep: "\<And>t x. e = EPush t x \<Longrightarrow> t = p"
    and ew: "push_waits (bq_pc s p) \<Longrightarrow> e \<noteq> EWake p"
    using assms(1) by (auto simp: fair_step_def)
  have ri: "ring_inv (bq_q s)" and po: "pushes_only p s"
    and wf: "\<And>x. bq_pc s p = PushWait x \<Longrightarrow> bq_IsFull (bq_q s)"
    and nf: "\<And>x. bq_pc s p = PushWoken x \<Longrightarrow> \<not> bq_IsFull (bq_q s)"
    using assms(2) by (auto simp: one_pusher_def)
  have pp: "bq_pc s t = PushWait x \<or> bq_pc s t = PushWoken x \<Longrightarrow> t = p" for t x
    using po by (auto simp: pushes_only_def)
  have room: "ring_room (bq_q s)" if "\<not> bq_IsFull (bq_q s)"
    using that ri by (auto simp: ring_room_def bq_IsFull_def ring_inv_def)
  have "one_pusher p s' \<and> popped [e] @ ring_items (bq_q s') = ring_items (bq_q s) @ pushed [e]"
    using st
  proof (cases rule: bq_step.cases)
    case (bq_push t x q' pc')
    have q: "ring_inv q' \<and> ring_items q' = ring_items (bq_q s) @ [x]"
      using bqi.push_D [OF bq_push(6) ri room [OF bq_push(5)]] .
    have "t = p" using ep bq_push(1) by blast
    then have "pc' p \<noteq> PushWait y" "pc' p \<noteq> PushWoken y" for y
      using signal_pop_push [OF bq_push(7), of p] bq_push(4) by auto
    then show ?thesis using q bq_push(1,2) po' by (simp add: one_pusher_def)
  next
    case (bq_block t x)
    then show ?thesis using ri po' wf nf by (auto simp: one_pusher_def)
  next
    case (bq_push_resume t x q' pc')
    have tp: "t = p" using pp bq_push_resume(4) by blast
    have q: "ring_inv q' \<and> ring_items q' = ring_items (bq_q s) @ [x]"
      using bqi.push_D [OF bq_push_resume(5) ri room [OF nf]] bq_push_resume(4) tp by blast
    have "pc' p \<noteq> PushWait y" "pc' p \<noteq> PushWoken y" for y
      using signal_pop_push [OF bq_push_resume(6), of p] tp by auto
    then show ?thesis using q bq_push_resume(1,2) po' by (simp add: one_pusher_def)
  next
    case (bq_pop t r q' pc')
    note q = bqi.pop_D(1,2) [OF bq_pop(6) ri]
    note tw = take_wakes [OF ri bq_pop(6,7) pp wf nf]
    show ?thesis using q tw bq_pop(1,2) po' by (cases r) (simp_all add: one_pusher_def)
  next
    case (bq_check t)
    then show ?thesis using ri po' wf nf by (auto simp: one_pusher_def)
  next
    case (bq_wait t)
    then show ?thesis using ri po' wf nf by (auto simp: one_pusher_def)
  next
    case (bq_pop_resume t r q' pc')
    note q = bqi.pop_D(1,2) [OF bq_pop_resume(5) ri]
    have pp2: "((bq_pc s)(t := BOut)) u = PushWait x \<or> ((bq_pc s)(t := BOut)) u = PushWoken x \<Longrightarrow> u = p" for u x
      using pp by (auto split: if_split_asm)
    have wf2: "((bq_pc s)(t := BOut)) p = PushWait x \<Longrightarrow> bq_IsFull (bq_q s)" for x
      using wf by (auto split: if_split_asm)
    have nf2: "((bq_pc s)(t := BOut)) p = PushWoken x \<Longrightarrow> \<not> bq_IsFull (bq_q s)" for x
      using nf by (auto split: if_split_asm)
    note tw = take_wakes [OF ri bq_pop_resume(5,6) pp2 wf2 nf2]
    show ?thesis using q tw bq_pop_resume(1,2) po' by (cases r) (simp_all add: one_pusher_def)
  next
    case (bq_wake_push t x)
    have "t = p" using pp bq_wake_push(3) by blast
    then show ?thesis using ew bq_wake_push(1,3) by simp
  next
    case (bq_wake_pop t)
    then show ?thesis using ri po' wf nf by (auto simp: one_pusher_def)
  next
    case bq_shut
    have "ring_inv (bq_Shutdown (bq_q s))" "ring_items (bq_Shutdown (bq_q s)) = ring_items (bq_q s)"
      using ri by (simp_all add: ring_inv_def bq_Shutdown_def ring_items_def)
    moreover have "bq_IsFull (bq_Shutdown (bq_q s)) = bq_IsFull (bq_q s)" by (simp add: bq_Shutdown_def bq_IsFull_def)
    ultimately show ?thesis using bq_shut po' wf nf by (auto simp: one_pusher_def broadcast_def split: if_split_asm)
  qed
  then show "one_pusher p s'" "popped [e] @ ring_items (bq_q s') = ring_items (bq_q s) @ pushed [e]" by blast+
qed

lemma sp_run_fifo:
  assumes "sp_run p (bq_start z n) es s" and "n \<noteq> 0"
  shows "one_pusher p s \<and> pushed es = popped es @ ring_items (bq_q s)"
  using assms
proof (induction rule: sp_run.induct)
  case sp_nil
  then show ?case using CreateBlockingQueue_inv [of n z]
    by (simp add: one_pusher_def bq_start_def pushes_only_def)
next
  case (sp_snoc es s1 e s2)
  then show ?case using one_pusher_step [OF sp_snoc.hyps(2)] by simp
qed

text \<open>
  With two pushing threads the \<open>if\<close> around the wait loses an item, on a ring of one slot: thread
  1 fills it, thread 2 waits, thread 3 pops and wakes thread 2, thread 1 fills the slot again,
  and thread 2 goes on and overwrites it.
\<close>

lemma bq_overfill:
  "\<exists>s. bq_run (bq_start z 1) [EPush 1 a, EBlock 2, EPop 3 (Some a), EPush 1 c, EPush 2 b,
         EPop 3 (Some b), EPop 3 (Some b)] s"
proof -
  let ?q = "\<lambda>cur x. \<lparr>bq_shutdown = False, bq_queueSize = 1, bq_currentSize = cur, bq_queue = [x],
     pushCursor = 0, popCursor = 0\<rparr>"
  let ?o = "\<lambda>_. BOut"
  let ?s0 = "bq_start z 1"
  let ?s1 = "\<lparr>bq_q = ?q 1 a, bq_pc = ?o\<rparr>"
  let ?s2 = "?s1\<lparr>bq_pc := (bq_pc ?s1)(2 := PushWait b)\<rparr>"
  let ?s3 = "\<lparr>bq_q = ?q 0 a, bq_pc = (bq_pc ?s2)(2 := wake_push (bq_pc ?s2 2))\<rparr>"
  let ?s4 = "\<lparr>bq_q = ?q 1 c, bq_pc = bq_pc ?s3\<rparr>"
  let ?s5 = "\<lparr>bq_q = ?q 2 b, bq_pc = (bq_pc ?s4)(2 := BOut)\<rparr>"
  let ?s6 = "\<lparr>bq_q = ?q 1 b, bq_pc = bq_pc ?s5\<rparr>"
  let ?s7 = "\<lparr>bq_q = ?q 0 b, bq_pc = bq_pc ?s6\<rparr>"
  note d = bq_start_def CreateBlockingQueue_def bq_IsFull_def bq_IsEmpty_def bq_Put_def bq_Take_def next_slot_def
    bq_must_wait_def
  have 1: "bq_step ?s0 (EPush 1 a) ?s1"
    by (rule bq_push) (simp_all add: d signalled_none)
  have 2: "bq_step ?s1 (EBlock 2) ?s2"
    by (rule bq_block) (simp_all add: d)
  have 3: "bq_step ?s2 (EPop 3 (Some a)) ?s3"
  proof -
    have w: "signal_push (bq_pc ?s2) ((bq_pc ?s2)(2 := wake_push (bq_pc ?s2 2)))" by (rule signalled_one) simp
    show ?thesis by (rule bq_pop [OF _ _ _ _ w]) (simp_all add: d)
  qed
  have 4: "bq_step ?s3 (EPush 1 c) ?s4"
    by (rule bq_push) (simp_all add: d signalled_none)
  have 5: "bq_step ?s4 (EPush 2 b) ?s5"
    by (rule bq_push_resume) (simp_all add: d signalled_none)
  have 6: "bq_step ?s5 (EPop 3 (Some b)) ?s6"
    by (rule bq_pop) (simp_all add: d signalled_none)
  have 7: "bq_step ?s6 (EPop 3 (Some b)) ?s7"
    by (rule bq_pop) (simp_all add: d signalled_none)
  have "bq_run ?s0 ((((((([] @ [EPush 1 a]) @ [EBlock 2]) @ [EPop 3 (Some a)]) @ [EPush 1 c]) @ [EPush 2 b]) @
      [EPop 3 (Some b)]) @ [EPop 3 (Some b)]) ?s7"
    by (rule bq_snoc [OF bq_snoc [OF bq_snoc [OF bq_snoc [OF bq_snoc [OF bq_snoc [OF bq_snoc
          [OF bq_nil 1] 2] 3] 4] 5] 6] 7])
  then show ?thesis by auto
qed

text \<open>
  So does a single one whose wait returns without a signal: the item pushed overwrites the oldest, and the
  ring holds more than its size.
\<close>

lemma bq_early_push:
  "\<exists>s. bq_run (bq_start z 1) [EPush 1 a, EBlock 1, EWake 1, EPush 1 b] s \<and> bq_currentSize (bq_q s) = 2 \<and> bq_queue (bq_q s) = [b]"
proof -
  let ?q = "\<lambda>cur x. \<lparr>bq_shutdown = False, bq_queueSize = 1, bq_currentSize = cur, bq_queue = [x],
     pushCursor = 0, popCursor = 0\<rparr>"
  let ?s0 = "bq_start z 1"
  let ?s1 = "\<lparr>bq_q = ?q 1 a, bq_pc = \<lambda>_. BOut\<rparr>"
  let ?s2 = "?s1\<lparr>bq_pc := (bq_pc ?s1)(1 := PushWait b)\<rparr>"
  let ?s3 = "?s2\<lparr>bq_pc := (bq_pc ?s2)(1 := PushWoken b)\<rparr>"
  let ?s4 = "\<lparr>bq_q = ?q 2 b, bq_pc = (bq_pc ?s3)(1 := BOut)\<rparr>"
  note d = bq_start_def CreateBlockingQueue_def bq_IsFull_def bq_IsEmpty_def bq_Put_def next_slot_def
  have 1: "bq_step ?s0 (EPush 1 a) ?s1" by (rule bq_push) (simp_all add: d signalled_none)
  have 2: "bq_step ?s1 (EBlock 1) ?s2" by (rule bq_block) (simp_all add: d)
  have 3: "bq_step ?s2 (EWake 1) ?s3" by (rule bq_wake_push) simp
  have 4: "bq_step ?s3 (EPush 1 b) ?s4" by (rule bq_push_resume) (simp_all add: d signalled_none)
  have "bq_run ?s0 (((([] @ [EPush 1 a]) @ [EBlock 1]) @ [EWake 1]) @ [EPush 1 b]) ?s4"
    by (rule bq_snoc [OF bq_snoc [OF bq_snoc [OF bq_snoc [OF bq_nil 1] 2] 3] 4])
  then show ?thesis by (intro exI [of _ ?s4]) simp
qed

end
