(* ===== verification/Histogram.thy ===== *)
theory Histogram
  imports Prelude
begin

text \<open>
  The latency histogram of src/src/utility/histogram.c. The values added are latencies in
  microseconds, whole numbers; counts, sums and limits are kept as natural numbers, which the
  doubles of the source represent exactly below 2^53. The limit 1e200 stands above every 64-bit
  value. What the printed report derives from
  them is in theory \<open>Histogram_Report\<close>.

  \<open>kBucketLimit\<close> is declared with \<open>kNumBuckets\<close> = 162 entries, and 154 are written down: the last
  eight are zero.
\<close>

abbreviation kNumBuckets :: nat where "kNumBuckets \<equiv> 162"

definition decade :: "nat list" where
  "decade = [10, 12, 14, 16, 18, 20, 25, 30, 35, 40, 45, 50, 60, 70, 80, 90]"

definition kBucketLimit :: "nat list" where
  "kBucketLimit = [1, 2, 3, 4, 5, 6, 7, 8, 9] @
     concat (map (\<lambda>e. map (\<lambda>d. d * 10 ^ e) decade) [0..<9]) @ [10 ^ 200] @ replicate 8 0"

record Histogram =
  h_min :: nat
  h_max :: nat
  h_num :: nat
  h_sum :: nat
  h_sum_squares :: nat
  h_buckets :: "nat list"

text \<open>The \<open>while\<close> loop of \<open>Add\<close>: the first \<open>b\<close> whose limit exceeds the value, at most 161.\<close>

fun find_bucket :: "nat list \<Rightarrow> nat \<Rightarrow> nat \<Rightarrow> nat" where
  "find_bucket [] v b = b"
| "find_bucket [x] v b = b"
| "find_bucket (x # y # xs) v b = (if x \<le> v then find_bucket (y # xs) v (Suc b) else b)"

definition Hist_Add :: "Histogram \<Rightarrow> nat \<Rightarrow> Histogram" where
  "Hist_Add h v =
     (let b = find_bucket kBucketLimit v 0
      in h\<lparr>h_buckets := (h_buckets h)[b := h_buckets h ! b + 1],
           h_min := (if h_min h > v then v else h_min h),
           h_max := (if h_max h < v then v else h_max h),
           h_num := h_num h + 1, h_sum := h_sum h + v, h_sum_squares := h_sum_squares h + v * v\<rparr>)"

definition Hist_Clear :: "Histogram \<Rightarrow> Histogram" where
  "Hist_Clear h = \<lparr>h_min = kBucketLimit ! (kNumBuckets - 1), h_max = 0, h_num = 0, h_sum = 0,
     h_sum_squares = 0, h_buckets = replicate kNumBuckets 0\<rparr>"

definition Hist_Merge :: "Histogram \<Rightarrow> Histogram \<Rightarrow> Histogram" where
  "Hist_Merge h other =
     \<lparr>h_min = (if h_min other < h_min h then h_min other else h_min h),
      h_max = (if h_max other > h_max h then h_max other else h_max h),
      h_num = h_num h + h_num other, h_sum = h_sum h + h_sum other,
      h_sum_squares = h_sum_squares h + h_sum_squares other,
      h_buckets = map2 (+) (h_buckets h) (h_buckets other)\<rparr>"

definition CreateHistogram :: Histogram where
  "CreateHistogram = \<lparr>h_min = 0, h_max = 0, h_num = 0, h_sum = 0, h_sum_squares = 0,
     h_buckets = replicate kNumBuckets 0\<rparr>"

text \<open>What is printed as \<open>Min\<close>.\<close>

definition reported_min :: "Histogram \<Rightarrow> nat" where
  "reported_min h = (if h_num h = 0 then 0 else h_min h)"

subsection \<open>Facts\<close>

lemma upt9: "[0..<9] = [0, 1, 2, 3, 4, 5, 6, 7, 8 :: nat]"
  by (simp add: upt_rec)

lemma length_limits: "length kBucketLimit = kNumBuckets"
  by (simp add: kBucketLimit_def upt9 decade_def)

lemma kBucketLimit_last: "kBucketLimit ! (kNumBuckets - 1) = 0"
proof -
  have "last kBucketLimit = 0" by (simp add: kBucketLimit_def)
  moreover have "kBucketLimit \<noteq> []" by (simp add: kBucketLimit_def)
  ultimately show ?thesis using length_limits by (simp add: last_conv_nth)
qed

lemma find_bucket_spec:
  "xs \<noteq> [] \<Longrightarrow> b \<le> find_bucket xs v b \<and> find_bucket xs v b < b + length xs \<and>
     (\<forall>i < find_bucket xs v b - b. xs ! i \<le> v) \<and>
     (find_bucket xs v b < b + length xs - 1 \<longrightarrow> v < xs ! (find_bucket xs v b - b))"
proof (induction xs v b rule: find_bucket.induct)
  case (3 x y xs v b)
  show ?case
  proof (cases "x \<le> v")
    case True
    have ih: "Suc b \<le> find_bucket (y # xs) v (Suc b)" "find_bucket (y # xs) v (Suc b) < Suc b + length (y # xs)"
      "\<forall>i < find_bucket (y # xs) v (Suc b) - Suc b. (y # xs) ! i \<le> v"
      "find_bucket (y # xs) v (Suc b) < Suc b + length (y # xs) - 1 \<longrightarrow>
         v < (y # xs) ! (find_bucket (y # xs) v (Suc b) - Suc b)"
      using 3(1) [OF True] by auto
    let ?f = "find_bucket (y # xs) v (Suc b)"
    obtain k where k: "?f = Suc b + k" using ih(1) by (auto simp: le_iff_add)
    have "(x # y # xs) ! i \<le> v" if "i < ?f - b" for i
      using that ih(3) True k by (cases i) auto
    then show ?thesis using True ih k by auto
  qed auto
qed auto

definition hist_inv :: "Histogram \<Rightarrow> bool" where
  "hist_inv h \<longleftrightarrow> length (h_buckets h) = kNumBuckets \<and> sum_list (h_buckets h) = h_num h"

lemma Hist_Add_inv: "hist_inv h \<Longrightarrow> hist_inv (Hist_Add h v)"
proof -
  assume h: "hist_inv h"
  have "kBucketLimit \<noteq> []" using length_limits by auto
  then have "find_bucket kBucketLimit v 0 < length (h_buckets h)"
    using find_bucket_spec [of kBucketLimit 0 v] h length_limits by (simp add: hist_inv_def)
  then show ?thesis
    using h sum_list_update_eq [of "find_bucket kBucketLimit v 0" "h_buckets h" "h_buckets h ! find_bucket kBucketLimit v 0 + 1"]
    by (simp add: hist_inv_def Hist_Add_def Let_def)
qed

lemma sum_map2_add: "length xs = length ys \<Longrightarrow> sum_list (map2 (+) xs ys) = sum_list xs + (sum_list ys :: nat)"
  by (induction xs ys rule: list_induct2) auto

lemma Hist_Merge_inv: "hist_inv h \<Longrightarrow> hist_inv g \<Longrightarrow> hist_inv (Hist_Merge h g)"
  by (simp add: hist_inv_def Hist_Merge_def sum_map2_add)

lemma Hist_Clear_inv: "hist_inv (Hist_Clear h)"
  by (simp add: hist_inv_def Hist_Clear_def sum_list_replicate)

lemma CreateHistogram_inv: "hist_inv CreateHistogram"
  by (simp add: hist_inv_def CreateHistogram_def sum_list_replicate)

text \<open>The minimum starts at 0, after creation and after \<open>Clear\<close>, and no latency is below it.\<close>

lemma min_stays_zero: "h_min h = 0 \<Longrightarrow> h_min (Hist_Add h v) = 0"
  by (simp add: Hist_Add_def Let_def)

lemma min_after_clear: "h_min (fold (\<lambda>v h. Hist_Add h v) vs (Hist_Clear h)) = 0"
proof -
  have "h_min g = 0 \<Longrightarrow> h_min (fold (\<lambda>v h. Hist_Add h v) vs g) = 0" for g
    by (induction vs arbitrary: g) (simp_all add: min_stays_zero)
  then show ?thesis using kBucketLimit_last by (simp add: Hist_Clear_def)
qed

end
