(* ===== verification/Disk_Operator.thy ===== *)
theory Disk_Operator
  imports Queue_Threads Histogram
begin

text \<open>
  The disk of one tier: src/src/base/disk_operator.c and disk_operator.h, with the two calls of
  src/src/utility/io_request.c. Requests wait in three queues, one for the host and two for the
  background work; each thread takes one request at a time, turns it into a read or write of
  the device file and, for host writes, records the latency. The device is the log of the
  \<open>pread64\<close> and \<open>pwrite64\<close> calls issued, with their file offset and length; \<open>open\<close>, the buffers and
  the data are left out.
\<close>

abbreviation PAGE_SIZE :: u64 where "PAGE_SIZE \<equiv> 8192"
abbreviation BLOCK_SIZE :: u64 where "BLOCK_SIZE \<equiv> 4194304"

datatype DiskIOType = HOST | BACK_GC | BACK_TIER
datatype DiskOpType = DISK_READ | DISK_WRITE | DISK_ERASE

record DiskIOInfo =
  dio_segmentId :: u32
  dio_offset :: u32
  dio_size :: u32
  dio_ioType :: DiskIOType
  dio_opType :: DiskOpType
  dio_timestamp :: u64

text \<open>A call on the device file: offset and length in bytes.\<close>

datatype disk_call = PRead u64 u64 | PWrite u64 u64

record DiskOperator =
  freeSegmentSize :: u32
  hostQ :: "DiskIOInfo BlockingQueue"
  backGCQ :: "DiskIOInfo UnblockingQueue"
  backTierQ :: "DiskIOInfo UnblockingQueue"
  hostShutdown :: "bool list"
  backShutdown :: bool
  hostConcurrency :: u32
  backConcurrency :: u32
  writeHists :: "Histogram list"
  slowCount :: u32
  stallCount :: u32
  disk_log :: "disk_call list"

subsection \<open>Device accesses\<close>

definition round_to_page :: "u64 \<Rightarrow> u64" where
  "round_to_page n = (n + PAGE_SIZE - 1) div PAGE_SIZE * PAGE_SIZE"

text \<open>The offset is a 32-bit parameter of both calls.\<close>

definition SendWriteRequest :: "u32 \<Rightarrow> u64 \<Rightarrow> disk_call" where
  "SendWriteRequest offset n = PWrite (ucast offset) (round_to_page n)"

definition SendReadRequest :: "u32 \<Rightarrow> u64 \<Rightarrow> disk_call" where
  "SendReadRequest offset n = PRead (ucast offset) (round_to_page n)"

definition segOffset :: "u32 \<Rightarrow> u32 \<Rightarrow> u64" where
  "segOffset segmentId offset = ucast segmentId * BLOCK_SIZE + ucast offset * PAGE_SIZE"

definition Disk_Write :: "DiskOperator \<Rightarrow> u32 \<Rightarrow> u32 \<Rightarrow> u32 \<Rightarrow> DiskOperator" where
  "Disk_Write d seg off n =
     d\<lparr>disk_log := disk_log d @ [SendWriteRequest (ucast (segOffset seg off)) (ucast n * PAGE_SIZE)]\<rparr>"

definition Disk_Read :: "DiskOperator \<Rightarrow> u32 \<Rightarrow> u32 \<Rightarrow> u32 \<Rightarrow> DiskOperator" where
  "Disk_Read d seg off n =
     d\<lparr>disk_log := disk_log d @ [SendReadRequest (ucast (segOffset seg off)) (ucast n * PAGE_SIZE)]\<rparr>"

definition Disk_Erase :: "DiskOperator \<Rightarrow> u32 \<Rightarrow> DiskOperator" where
  "Disk_Erase d seg = d"

subsection \<open>One round of each thread\<close>

text \<open>
  A round that finds its queue empty works on the \<open>DiskIOInfo\<close> of all zero bytes, whose \<open>opType\<close>
  matches no case.
\<close>

definition BackGCThread :: "DiskOperator \<Rightarrow> fault + DiskOperator" where
  "BackGCThread d =
     (if backShutdown d then Inr d else
      bindE (uq_Take (backGCQ d)) (\<lambda>(r, q).
      let d1 = d\<lparr>backGCQ := q\<rparr> in
      Inr (case r of None \<Rightarrow> d1
        | Some io \<Rightarrow> (case dio_opType io of
            DISK_READ \<Rightarrow> Disk_Read d1 (dio_segmentId io) (dio_offset io) (dio_size io)
          | DISK_WRITE \<Rightarrow> Disk_Write d1 (dio_segmentId io) (dio_offset io) (dio_size io)
          | DISK_ERASE \<Rightarrow> Disk_Erase d1 (dio_segmentId io)))))"

definition BackTierThread :: "DiskOperator \<Rightarrow> fault + DiskOperator" where
  "BackTierThread d =
     (if backShutdown d then Inr d else
      bindE (uq_Take (backTierQ d)) (\<lambda>(r, q).
      let d1 = d\<lparr>backTierQ := q\<rparr> in
      Inr (case r of None \<Rightarrow> d1
        | Some io \<Rightarrow> (case dio_opType io of
            DISK_WRITE \<Rightarrow> Disk_Write d1 (dio_segmentId io) (dio_offset io) (dio_size io)
          | DISK_READ \<Rightarrow> Disk_Read d1 (dio_segmentId io) (dio_offset io) (dio_size io)
          | _ \<Rightarrow> d1))))"

text \<open>\<open>now\<close> is what \<open>GetCurrentTimeStamp\<close> returns after the access.\<close>

definition HostIOThread :: "nat \<Rightarrow> u64 \<Rightarrow> DiskOperator \<Rightarrow> fault + DiskOperator" where
  "HostIOThread idx now d =
     bindE (arr_get (hostShutdown d) idx) (\<lambda>stop.
     if stop then Inr d else
     bindE (bq_Take (hostQ d)) (\<lambda>(r, q).
     let d1 = d\<lparr>hostQ := q\<rparr> in
     case r of None \<Rightarrow> Inr d1
     | Some io \<Rightarrow> (case dio_opType io of
         DISK_WRITE \<Rightarrow>
           let d2 = Disk_Write d1 (dio_segmentId io) (dio_offset io) (dio_size io);
               latency = now - dio_timestamp io in
           bindE (arr_get (writeHists d2) idx) (\<lambda>h.
           bindE (arr_set (writeHists d2) idx (Hist_Add h (unat latency))) (\<lambda>hs.
           Inr (d2\<lparr>writeHists := hs\<rparr>)))
       | DISK_READ \<Rightarrow> Inr (Disk_Read d1 (dio_segmentId io) (dio_offset io) (dio_size io))
       | _ \<Rightarrow> Inr d1)))"

subsection \<open>The interface\<close>

text \<open>
  \<open>HandleDiskIO\<close> once the host queue has room; the wait for that is in theory \<open>Layer_Module\<close>. The
  increment of \<open>g_IOPS\<close> is there too, because the counter is shared by the tiers.
\<close>

definition HandleDiskIO :: "DiskOperator \<Rightarrow> DiskIOInfo \<Rightarrow> fault + DiskOperator" where
  "HandleDiskIO d io =
     (case dio_ioType io of
        HOST \<Rightarrow> bindE (bq_Put (hostQ d) io) (\<lambda>q. Inr (d\<lparr>hostQ := q\<rparr>))
      | BACK_GC \<Rightarrow> bindE (uq_Push (backGCQ d) io) (\<lambda>q. Inr (d\<lparr>backGCQ := q\<rparr>))
      | BACK_TIER \<Rightarrow> bindE (uq_Push (backTierQ d) io) (\<lambda>q. Inr (d\<lparr>backTierQ := q\<rparr>)))"

definition NeedStall :: "DiskOperator \<Rightarrow> u32 \<Rightarrow> bool" where
  "NeedStall d segmentId = False"

definition QueryDiskFreeBlock :: "DiskOperator \<Rightarrow> u32" where
  "QueryDiskFreeBlock d = freeSegmentSize d"

definition QueryTierQueueSize :: "DiskOperator \<Rightarrow> u32" where
  "QueryTierQueueSize d = uq_QuerySize (backTierQ d)"

definition QueryGCQueueSize :: "DiskOperator \<Rightarrow> u32" where
  "QueryGCQueueSize d = uq_QuerySize (backGCQ d)"

definition QueryHostQueueSize :: "DiskOperator \<Rightarrow> u32" where
  "QueryHostQueueSize d = bq_QuerySize (hostQ d)"

record DiskConfigure =
  segmentCnt :: u32
  requestQueueSize :: u32
  dc_hostConcurrency :: u32
  dc_backConcurrency :: u32

definition zero_io :: DiskIOInfo where
  "zero_io = \<lparr>dio_segmentId = 0, dio_offset = 0, dio_size = 0, dio_ioType = HOST, dio_opType = DISK_READ,
     dio_timestamp = 0\<rparr>"

definition CreateDiskOperator :: "DiskConfigure \<Rightarrow> DiskOperator" where
  "CreateDiskOperator conf =
     \<lparr>freeSegmentSize = segmentCnt conf, hostQ = CreateBlockingQueue zero_io (requestQueueSize conf),
      backGCQ = CreateUnblockingQueue, backTierQ = CreateUnblockingQueue,
      hostShutdown = replicate (unat (dc_hostConcurrency conf)) False, backShutdown = False,
      hostConcurrency = dc_hostConcurrency conf, backConcurrency = dc_backConcurrency conf,
      writeHists = replicate (unat (dc_hostConcurrency conf)) CreateHistogram,
      slowCount = 0, stallCount = 0, disk_log = []\<rparr>"

subsection \<open>Shutting down\<close>

text \<open>A host thread is told to stop; the broadcast and the join follow.\<close>

definition DestroyHostDiskIOThread :: "DiskOperator \<Rightarrow> nat \<Rightarrow> fault + DiskOperator" where
  "DestroyHostDiskIOThread d idx =
     bindE (arr_set (hostShutdown d) idx True) (\<lambda>stops. Inr (d\<lparr>hostShutdown := stops\<rparr>))"

fun stop_hosts :: "nat list \<Rightarrow> bool list \<Rightarrow> fault + bool list" where
  "stop_hosts [] stops = Inr stops"
| "stop_hosts (i # rest) stops = bindE (arr_set stops i True) (stop_hosts rest)"

text \<open>
  \<open>DestroyDiskOperator\<close> up to the point where \<open>DestroyBlockingQueue\<close> and \<open>DestroyUnblockingQueue\<close>
  free the queues; the threads are joined only after that.
\<close>

definition DestroyDiskOperator :: "DiskOperator \<Rightarrow> fault + DiskOperator" where
  "DestroyDiskOperator d =
     bindE (stop_hosts [0..<unat (hostConcurrency d)] (hostShutdown d)) (\<lambda>stops.
     Inr (d\<lparr>backShutdown := True, hostShutdown := stops, hostQ := bq_Shutdown (hostQ d),
            backGCQ := uq_Shutdown (backGCQ d), backTierQ := uq_Shutdown (backTierQ d)\<rparr>))"

lemma stop_hosts_spec:
  assumes "\<forall>i\<in>set xs. i < length stops"
  shows "\<exists>stops'. stop_hosts xs stops = Inr stops' \<and> length stops' = length stops \<and>
    (\<forall>i < length stops. stops' ! i \<longleftrightarrow> i \<in> set xs \<or> stops ! i)"
  using assms
proof (induction xs arbitrary: stops)
  case (Cons i xs)
  then obtain stops' where "stop_hosts xs (stops[i := True]) = Inr stops'" "length stops' = length stops"
      "\<forall>j < length stops. stops' ! j \<longleftrightarrow> j \<in> set xs \<or> stops[i := True] ! j"
    using Cons.IH [of "stops[i := True]"] by auto
  then show ?case using Cons.prems by (auto simp: nth_list_update)
qed simp

text \<open>No thread takes a request once the disk is destroyed: what is still queued is dropped.\<close>

lemma DestroyDiskOperator_stops:
  assumes "length (hostShutdown d) = unat (hostConcurrency d)"
  shows "\<exists>d'. DestroyDiskOperator d = Inr d' \<and> BackGCThread d' = Inr d' \<and> BackTierThread d' = Inr d' \<and>
    (\<forall>i < length (hostShutdown d). \<forall>t. HostIOThread i t d' = Inr d') \<and> disk_log d' = disk_log d"
proof -
  obtain stops where "stop_hosts [0..<unat (hostConcurrency d)] (hostShutdown d) = Inr stops"
      "length stops = length (hostShutdown d)" "\<forall>i < length (hostShutdown d). stops ! i"
    using stop_hosts_spec [of "[0..<unat (hostConcurrency d)]" "hostShutdown d"] assms by auto
  then show ?thesis
    by (simp add: DestroyDiskOperator_def BackGCThread_def BackTierThread_def HostIOThread_def)
qed

subsection \<open>Where a request lands\<close>

lemma unat_ucast_u32_u64: "unat (ucast (x :: u32) :: u64) = unat x"
  using unat_lt2p32 [of x] by (simp add: unsigned_ucast_eq take_bit_nat_eq_self)

lemma unat_segOffset:
  assumes "unat off < 512"
  shows "unat (segOffset seg off) = unat seg * 4194304 + unat off * 8192"
proof -
  have s: "unat seg < 4294967296" by (rule unat_lt2p32)
  note us = unat_ucast_u32_u64
  have 1: "unat ((ucast seg :: u64) * BLOCK_SIZE) = unat seg * 4194304"
    using s by (simp add: unat_word_ariths us)
  have 2: "unat ((ucast off :: u64) * PAGE_SIZE) = unat off * 8192"
    using assms by (simp add: unat_word_ariths us)
  show ?thesis using s assms by (simp add: segOffset_def unat_word_ariths us)
qed

text \<open>Below 4 GiB every page has a place of its own; from there on the offset wraps around.\<close>

lemma request_offset:
  assumes "unat seg < 1024" and "unat off < 512"
  shows "(ucast (ucast (segOffset seg off) :: u32) :: u64) = segOffset seg off"
proof -
  have "unat (segOffset seg off) < 4294967296" using assms by (simp add: unat_segOffset)
  then show ?thesis
    by (simp only: word_unat_eq_iff unat_ucast_u32_u64) (simp add: unsigned_ucast_eq take_bit_nat_eq_self)
qed

lemma segOffset_inject:
  assumes "unat off < 512" and "unat off' < 512"
  shows "segOffset seg off = segOffset seg' off' \<longleftrightarrow> seg = seg' \<and> off = off'"
proof
  assume "segOffset seg off = segOffset seg' off'"
  then have e: "unat seg * 4194304 + unat off * 8192 = unat seg' * 4194304 + unat off' * 8192"
    using unat_segOffset [OF assms(1)] unat_segOffset [OF assms(2)] by metis
  have "unat seg = unat seg'"
  proof (rule ccontr)
    assume "unat seg \<noteq> unat seg'"
    then have "unat seg < unat seg' \<or> unat seg' < unat seg" by linarith
    then show False using e assms by linarith
  qed
  moreover from this have "unat off = unat off'" using e by simp
  ultimately show "seg = seg' \<and> off = off'" by (simp add: word_unat_eq_iff)
qed simp

lemma segOffset_of_nat: "segOffset seg off = of_nat (unat seg * 4194304 + unat off * 8192)"
proof -
  have "(ucast seg :: u64) = of_nat (unat seg)" "(ucast off :: u64) = of_nat (unat off)"
    by (simp_all flip: unat_ucast_u32_u64)
  then show ?thesis by (simp add: segOffset_def)
qed

lemma ucast32_of_nat: "(ucast (of_nat n :: u64) :: u32) = of_nat n"
  by (simp add: unsigned_of_nat word_of_nat_eq_iff)

lemma offset_wraps: "(ucast (segOffset (seg + 1024) off) :: u32) = ucast (segOffset seg off)"
proof -
  have "(of_nat (unat (seg + 1024)) :: u32) = of_nat (unat seg) + 1024" by simp
  then have "(of_nat (unat (seg + 1024) * 4194304 + unat off * 8192) :: u32) =
      (of_nat (unat seg) + 1024) * 4194304 + of_nat (unat off * 8192)"
    by (simp only: of_nat_add of_nat_mult of_nat_numeral)
  also have "\<dots> = of_nat (unat seg * 4194304 + unat off * 8192)"
    by (simp add: distrib_right)
  finally show ?thesis by (simp only: segOffset_of_nat ucast32_of_nat)
qed

lemma Disk_Write_collides:
  "disk_log (Disk_Write d (seg + 1024) off n) = disk_log (Disk_Write d seg off n)"
  by (simp add: Disk_Write_def offset_wraps)

subsection \<open>The invariant of the disk\<close>

definition disk_inv :: "DiskOperator \<Rightarrow> bool" where
  "disk_inv d \<longleftrightarrow> ring_inv (hostQ d) \<and> uq_inv (backGCQ d) \<and> uq_inv (backTierQ d) \<and>
     length (writeHists d) = length (hostShutdown d) \<and> (\<forall>h \<in> set (writeHists d). hist_inv h)"

lemma Disk_access_inv [simp]:
  "disk_inv (Disk_Write d seg off n) = disk_inv d" "disk_inv (Disk_Read d seg off n) = disk_inv d"
  "disk_inv (Disk_Erase d seg) = disk_inv d"
  by (simp_all add: disk_inv_def Disk_Write_def Disk_Read_def Disk_Erase_def)

lemma BackGCThread_inv:
  assumes "disk_inv d"
  shows "\<exists>d'. BackGCThread d = Inr d' \<and> disk_inv d'"
proof -
  have q: "uq_inv (backGCQ d)" using assms by (simp add: disk_inv_def)
  obtain r q' where t: "uq_Take (backGCQ d) = Inr (r, q')" "uq_inv q'" using uqi.pop_total [OF q] by blast
  have "disk_inv (d\<lparr>backGCQ := q'\<rparr>)" using assms t(2) by (simp add: disk_inv_def)
  then show ?thesis using assms t(1)
    by (auto simp: BackGCThread_def Let_def split: option.split DiskOpType.split)
qed

lemma BackTierThread_inv:
  assumes "disk_inv d"
  shows "\<exists>d'. BackTierThread d = Inr d' \<and> disk_inv d'"
proof -
  have q: "uq_inv (backTierQ d)" using assms by (simp add: disk_inv_def)
  obtain r q' where t: "uq_Take (backTierQ d) = Inr (r, q')" "uq_inv q'" using uqi.pop_total [OF q] by blast
  have "disk_inv (d\<lparr>backTierQ := q'\<rparr>)" using assms t(2) by (simp add: disk_inv_def)
  then show ?thesis using assms t(1)
    by (auto simp: BackTierThread_def Let_def split: option.split DiskOpType.split)
qed

lemma HostIOThread_inv:
  assumes "disk_inv d" and "idx < length (hostShutdown d)"
  shows "\<exists>d'. HostIOThread idx now d = Inr d' \<and> disk_inv d' \<and> length (hostShutdown d') = length (hostShutdown d)"
proof (cases "hostShutdown d ! idx")
  case True
  then show ?thesis using assms by (simp add: HostIOThread_def)
next
  case False
  have q: "ring_inv (hostQ d)" using assms(1) by (simp add: disk_inv_def)
  obtain r q' where t: "bq_Take (hostQ d) = Inr (r, q')" "ring_inv q'" using bqi.pop_total [OF q] by blast
  let ?d1 = "d\<lparr>hostQ := q'\<rparr>"
  have d1: "disk_inv ?d1" using assms(1) t(2) by (simp add: disk_inv_def)
  have idx: "idx < length (writeHists d)" using assms by (simp add: disk_inv_def)
  have hist: "disk_inv (Disk_Write ?d1 a b c\<lparr>writeHists := (writeHists d)[idx := Hist_Add (writeHists d ! idx) v]\<rparr>)" for a b c v
  proof -
    have "hist_inv h" if "h \<in> set ((writeHists d)[idx := Hist_Add (writeHists d ! idx) v])" for h
      using that assms(1) idx Hist_Add_inv [of "writeHists d ! idx" v] set_update_subset_insert
      by (fastforce simp: disk_inv_def)
    then show ?thesis using d1 by (simp add: disk_inv_def Disk_Write_def)
  qed
  have wh: "writeHists (Disk_Write ?d1 a b c) = writeHists d" "hostShutdown (Disk_Write ?d1 a b c) = hostShutdown d"
     "hostShutdown (Disk_Read ?d1 a b c) = hostShutdown d" for a b c
    by (simp_all add: Disk_Write_def Disk_Read_def)
  show ?thesis
  proof (cases r)
    case None
    then show ?thesis using False assms(2) t(1) d1 by (simp add: HostIOThread_def Let_def)
  next
    case (Some io)
    then show ?thesis using False assms(2) t(1) d1 hist idx wh
      by (cases "dio_opType io") (simp_all add: HostIOThread_def Let_def)
  qed
qed

lemma HandleDiskIO_inv:
  assumes "disk_inv d" and "dio_ioType io = HOST \<Longrightarrow> ring_room (hostQ d)"
    and "uq_room (backGCQ d)" and "uq_room (backTierQ d)"
  shows "\<exists>d'. HandleDiskIO d io = Inr d' \<and> disk_inv d'"
proof (cases "dio_ioType io")
  case HOST
  obtain q' where "bq_Put (hostQ d) io = Inr q'" "ring_inv q'"
    using bqi.push [of "hostQ d" io] assms(1,2) HOST by (auto simp: disk_inv_def)
  then show ?thesis using HOST assms(1) by (simp add: HandleDiskIO_def disk_inv_def)
next
  case BACK_GC
  obtain q' where "uq_Push (backGCQ d) io = Inr q'" "uq_inv q'"
    using uqi.push [of "backGCQ d" io] assms(1,3) by (auto simp: disk_inv_def)
  then show ?thesis using BACK_GC assms(1) by (simp add: HandleDiskIO_def disk_inv_def)
next
  case BACK_TIER
  obtain q' where "uq_Push (backTierQ d) io = Inr q'" "uq_inv q'"
    using uqi.push [of "backTierQ d" io] assms(1,4) by (auto simp: disk_inv_def)
  then show ?thesis using BACK_TIER assms(1) by (simp add: HandleDiskIO_def disk_inv_def)
qed

lemma queue_sizes:
  "disk_inv d \<Longrightarrow> QueryGCQueueSize d = of_nat (length (uq_queue (backGCQ d)))"
  "disk_inv d \<Longrightarrow> QueryTierQueueSize d = of_nat (length (uq_queue (backTierQ d)))"
  "disk_inv d \<Longrightarrow> QueryHostQueueSize d = of_nat (length (ring_items (hostQ d)))"
  by (simp_all add: QueryGCQueueSize_def QueryTierQueueSize_def QueryHostQueueSize_def disk_inv_def
      uqi.size bqi.size del: length_ring_items)

lemma CreateDiskOperator_inv: "requestQueueSize conf \<noteq> 0 \<Longrightarrow> disk_inv (CreateDiskOperator conf)"
  by (simp add: disk_inv_def CreateDiskOperator_def CreateBlockingQueue_inv CreateUnblockingQueue_inv
      CreateHistogram_inv)

end
