(* ===== verification/Double.thy ===== *)
theory Double
  imports Complex_Main Double_Freq
begin

text \<open>
  IEEE binary64 arithmetic on the finite values: a \<open>double\<close> is the rational number it stands for, and an
  operation rounds the exact result to 53 significant bits, ties to even (\<open>fl\<close>). The exponent is
  not bounded: no value the program computes is as large as 2^1024 or, unless it is 0, as small
  as 2^(-1022). The square root is rounded correctly too (\<open>fl_sqrt\<close>).
\<close>

subsection \<open>Rounding to an integer\<close>

definition rnd :: "rat \<Rightarrow> int" where
  "rnd x = (let q = \<lfloor>x\<rfloor>; r = x - of_int q in if r > 1/2 \<or> r = 1/2 \<and> odd q then q + 1 else q)"

lemma rnd_of_int [simp]: "rnd (of_int n) = n"
  by (simp add: rnd_def)

lemma rnd_numeral [simp]: "rnd (numeral n) = numeral n" "rnd 0 = 0" "rnd 1 = 1"
  using rnd_of_int [of "numeral n"] rnd_of_int [of 0] rnd_of_int [of 1] by simp_all

lemma rnd_bounds: "\<lfloor>x\<rfloor> \<le> rnd x" "rnd x \<le> \<lfloor>x\<rfloor> + 1"
  by (simp_all add: rnd_def Let_def)

lemma rnd_mono:
  assumes "x \<le> y"
  shows "rnd x \<le> rnd y"
proof (cases "\<lfloor>x\<rfloor> = \<lfloor>y\<rfloor>")
  case True
  then show ?thesis using assms by (auto simp: rnd_def Let_def)
next
  case False
  then have "\<lfloor>x\<rfloor> + 1 \<le> \<lfloor>y\<rfloor>" using floor_mono [OF assms] by linarith
  then show ?thesis using rnd_bounds [of x] rnd_bounds [of y] by linarith
qed

subsection \<open>The exponent of a number\<close>

definition lg :: "rat \<Rightarrow> int" where
  "lg x = (let (n, d) = quotient_of x; k = int (bit_len (nat n)) - int (bit_len (nat d))
     in if 2 powi k \<le> x then k else k - 1)"

lemma bit_len_frac:
  assumes "0 < n" and "0 < d"
  shows "2 powi (int (bit_len n) - int (bit_len d) - 1) \<le> (of_nat n / of_nat d :: rat)"
    and "of_nat n / of_nat d < (2 powi (int (bit_len n) - int (bit_len d) + 1) :: rat)"
proof -
  let ?a = "bit_len n" and ?b = "bit_len d"
  have n: "2 ^ (?a - 1) \<le> n" "n < 2 ^ ?a" and d: "2 ^ (?b - 1) \<le> d" "d < 2 ^ ?b"
    using bit_len_bounds assms by blast+
  have ab: "0 < ?a" "0 < ?b" using assms by (simp_all add: bit_len.simps)
  have a1: "(2 powi (int ?a - 1) :: rat) = of_nat (2 ^ (?a - 1))" and b1: "(2 powi (int ?b - 1) :: rat) = of_nat (2 ^ (?b - 1))"
    using ab by (simp_all add: power_int_def nat_diff_distrib)
  have a0: "(2 powi int ?a :: rat) = of_nat (2 ^ ?a)" and b0: "(2 powi int ?b :: rat) = of_nat (2 ^ ?b)"
    by simp_all
  have "2 powi (int ?a - int ?b - 1) = (2 powi ((int ?a - 1) - int ?b) :: rat)" by (rule arg_cong) simp
  also have "\<dots> = 2 powi (int ?a - 1) / 2 powi int ?b" by (rule power_int_diff) simp
  also have "\<dots> \<le> of_nat n / of_nat d"
    unfolding a1 b0 by (rule frac_le) (use n(1) d(2) assms(2) in \<open>simp_all only: of_nat_le_iff of_nat_0_less_iff of_nat_0_le_iff less_imp_le\<close>)
  finally show "2 powi (int ?a - int ?b - 1) \<le> (of_nat n / of_nat d :: rat)" .
  have "of_nat n / of_nat d < (2 powi int ?a :: rat) / 2 powi (int ?b - 1)"
    unfolding a0 b1 by (rule frac_less)
      (use n(2) d(1) in \<open>simp_all only: of_nat_le_iff of_nat_less_iff of_nat_0_less_iff of_nat_0_le_iff\<close>, simp)
  also have "\<dots> = 2 powi (int ?a - (int ?b - 1))" by (rule power_int_diff [symmetric]) simp
  also have "\<dots> = 2 powi (int ?a - int ?b + 1)" by (rule arg_cong) simp
  finally show "of_nat n / of_nat d < (2 powi (int ?a - int ?b + 1) :: rat)" .
qed

lemma lg_bounds:
  assumes "0 < x"
  shows "2 powi lg x \<le> x" and "x < 2 powi (lg x + 1)"
proof -
  obtain n d where q: "quotient_of x = (n, d)" by (cases "quotient_of x")
  have x: "x = of_int n / of_int d" "0 < d" using quotient_of_div [OF q] quotient_of_denom_pos [OF q] by simp_all
  then have "0 < n" using assms by (simp add: zero_less_divide_iff)
  then have nd: "x = of_nat (nat n) / of_nat (nat d)" "0 < nat n" "0 < nat d" using x by simp_all
  note b = bit_len_frac [OF nd(2,3), folded nd(1)]
  show "2 powi lg x \<le> x" "x < 2 powi (lg x + 1)"
    using b by (auto simp: lg_def q Let_def)
qed

lemma powi2_le: "m \<le> n \<Longrightarrow> (2 :: rat) powi m \<le> 2 powi n"
  by (rule power_int_increasing) simp_all

lemma powi2_less_iff: "(2 :: rat) powi m < 2 powi n \<longleftrightarrow> m < n"
  by (metis linorder_not_le powi2_le power_int_strict_increasing one_less_numeral_iff semiring_norm(76))

lemma lg_mono: "0 < x \<Longrightarrow> x \<le> y \<Longrightarrow> lg x \<le> lg y"
proof -
  assume a: "0 < x" "x \<le> y"
  have "2 powi lg x \<le> x" using lg_bounds(1) a by blast
  also have "x \<le> y" by (rule a)
  also have "y < 2 powi (lg y + 1)" using lg_bounds(2) a by fastforce
  finally show ?thesis by (simp add: powi2_less_iff)
qed

subsection \<open>Rounding to 53 bits\<close>

definition fl_pos :: "rat \<Rightarrow> rat" where
  "fl_pos x = (let u = 2 powi (lg x - 52) in of_int (rnd (x / u)) * u)"

definition fl :: "rat \<Rightarrow> rat" where
  "fl x = (if x = 0 then 0 else if x < 0 then - fl_pos (- x) else fl_pos x)"

lemma fl_pos_range:
  assumes "0 < x"
  shows "2 powi lg x \<le> fl_pos x" and "fl_pos x \<le> 2 powi (lg x + 1)"
proof -
  let ?u = "2 powi (lg x - 52) :: rat"
  have u: "0 < ?u" by simp
  have l: "2 powi lg x = of_int (2 ^ 52) * ?u" "2 powi (lg x + 1) = of_int (2 ^ 53) * ?u"
    by (simp_all add: power_int_diff power_int_add)
  have "of_int (2 ^ 52) \<le> x / ?u" "x / ?u \<le> of_int (2 ^ 53)"
    using lg_bounds [OF assms] u unfolding l by (simp_all add: pos_le_divide_eq pos_divide_le_eq)
  then have "2 ^ 52 \<le> rnd (x / ?u)" "rnd (x / ?u) \<le> 2 ^ 53"
    using rnd_mono [of "of_int (2 ^ 52)" "x / ?u"] rnd_mono [of "x / ?u" "of_int (2 ^ 53)"] by (simp_all only: rnd_of_int)
  then have "of_int (2 ^ 52) * ?u \<le> of_int (rnd (x / ?u)) * ?u" "of_int (rnd (x / ?u)) * ?u \<le> of_int (2 ^ 53) * ?u"
    using u by (intro mult_right_mono; simp only: of_int_le_iff; simp)+
  then show "2 powi lg x \<le> fl_pos x" "fl_pos x \<le> 2 powi (lg x + 1)" by (simp_all only: l fl_pos_def Let_def)
qed

lemma fl_pos_pos: "0 < x \<Longrightarrow> 0 < fl_pos x"
  using fl_pos_range(1) [of x] zero_less_power_int [of "2 :: rat" "lg x"] by linarith

lemma fl_pos_mono:
  assumes "0 < x" and "x \<le> y"
  shows "fl_pos x \<le> fl_pos y"
proof (cases "lg x = lg y")
  case True
  have "rnd (x / 2 powi (lg y - 52)) \<le> rnd (y / 2 powi (lg y - 52))"
    using assms by (intro rnd_mono divide_right_mono) simp_all
  then show ?thesis using True by (simp add: fl_pos_def Let_def mult_right_mono)
next
  case False
  have "fl_pos x \<le> 2 powi (lg x + 1)" using fl_pos_range(2) assms by blast
  also have "\<dots> \<le> 2 powi lg y" using False lg_mono [OF assms] by (intro powi2_le) linarith
  also have "\<dots> \<le> fl_pos y" using assms by (intro fl_pos_range(1)) linarith
  finally show ?thesis .
qed

lemma fl_0 [simp]: "fl 0 = 0"
  by (simp add: fl_def)

lemma fl_sign: "0 < x \<Longrightarrow> 0 < fl x" "x < 0 \<Longrightarrow> fl x < 0"
  using fl_pos_pos [of x] fl_pos_pos [of "- x"] by (simp_all add: fl_def)

lemma fl_mono:
  assumes "x \<le> y"
  shows "fl x \<le> fl y"
proof -
  consider "0 < x" | "x \<le> 0" "0 \<le> y" | "y < 0" by linarith
  then show ?thesis
  proof cases
    case 1
    then show ?thesis using assms fl_pos_mono [of x y] by (simp add: fl_def)
  next
    case 2
    then show ?thesis using fl_sign [of x] fl_sign [of y] by (cases "x = 0"; cases "y = 0") (auto intro: less_imp_le order_trans)
  next
    case 3
    then show ?thesis using assms fl_pos_mono [of "- y" "- x"] by (simp add: fl_def)
  qed
qed

lemma fl_nonneg [simp]: "0 \<le> x \<Longrightarrow> 0 \<le> fl x"
  using fl_mono [of 0 x] by simp

text \<open>Whole numbers up to 2^53 are exact.\<close>

lemma fl_nat:
  assumes "n \<le> 2 ^ 53"
  shows "fl (of_nat n) = of_nat n"
proof (cases "n = 0 \<or> n = 2 ^ 53")
  case True
  then show ?thesis
  proof
    assume n: "n = 2 ^ 53"
    have "2 powi lg (of_nat n) \<le> (2 :: rat) powi 53" "(2 :: rat) powi 53 < 2 powi (lg (of_nat n) + 1)"
      using lg_bounds [of "of_nat n"] n by simp_all
    then have "\<not> (2 :: rat) powi 53 < 2 powi lg (of_nat n)" "(2 :: rat) powi 53 < 2 powi (lg (of_nat n) + 1)"
      by (simp_all only: not_less)
    then have "lg (of_nat n) = 53" unfolding powi2_less_iff by linarith
    moreover have "(of_nat n :: rat) / 2 powi 1 = of_int (2 ^ 52)" using n by simp
    ultimately show ?thesis using n by (simp add: fl_def fl_pos_def Let_def)
  qed simp
next
  case False
  define k where "k = lg (of_nat n)"
  have n: "0 < n" "n < 2 ^ 53" using assms False by auto
  have "2 powi k \<le> (of_nat n :: rat)" using lg_bounds(1) [of "of_nat n"] n by (simp add: k_def)
  also have "\<dots> < 2 powi 53" using n(2) by (metis of_nat_less_iff of_nat_numeral of_nat_power power_int_numeral)
  finally have k: "k < 53" unfolding powi2_less_iff .
  define j where "j = nat (52 - k)"
  have "(of_nat n :: rat) / 2 powi (k - 52) = of_int (int n * 2 ^ j)"
    using k by (simp add: j_def power_int_def divide_simps power_inverse split: if_split)
  then have "fl_pos (of_nat n) = of_nat n"
    by (simp only: fl_pos_def Let_def k_def [symmetric] rnd_of_int) (metis nonzero_divide_eq_eq power_int_not_zero zero_neq_numeral)
  then show ?thesis using n by (simp add: fl_def)
qed

lemma fl_1 [simp]: "fl 1 = 1"
  using fl_nat [of 1] by simp

lemma fl_numeral: "numeral n \<le> (2 :: nat) ^ 53 \<Longrightarrow> fl (numeral n) = numeral n"
  using fl_nat [of "numeral n"] by simp

lemma fl_minus: "fl (- x) = - fl x"
  by (auto simp: fl_def)

lemma fl_int: "\<bar>n\<bar> \<le> 2 ^ 53 \<Longrightarrow> fl (of_int n) = of_int n"
  using fl_nat [of "nat \<bar>n\<bar>"] fl_minus [of "of_int n"] by (cases "0 \<le> n") simp_all

text \<open>Powers of 2 only shift the exponent.\<close>

lemma lg_unique:
  assumes "2 powi k \<le> x" and "x < 2 powi (k + 1)"
  shows "lg x = k"
proof -
  have x: "0 < x" using assms(1) zero_less_power_int [of "2 :: rat" k] by linarith
  have "2 powi k < (2 :: rat) powi (lg x + 1)" "2 powi lg x < (2 :: rat) powi (k + 1)"
    using lg_bounds [OF x] assms by linarith+
  then show ?thesis unfolding powi2_less_iff by linarith
qed

lemma fl_scale: "fl (x * 2 powi k) = fl x * 2 powi k"
proof -
  have s: "fl_pos (x * 2 powi k) = fl_pos x * 2 powi k" if "0 < x" for x
  proof -
    have "lg (x * 2 powi k) = lg x + k"
      using lg_bounds [OF that] by (intro lg_unique) (simp_all add: power_int_add)
    moreover have "2 powi (lg x + k - 52) = 2 powi (lg x - 52) * (2 :: rat) powi k"
      by (simp flip: power_int_add) (simp add: algebra_simps)
    ultimately show ?thesis by (simp add: fl_pos_def Let_def)
  qed
  have k: "\<not> (2 :: rat) powi k < 0" "(0 :: rat) < 2 powi k" by (simp_all add: not_less)
  show ?thesis using s [of x] s [of "- x"] by (cases x "0 :: rat" rule: linorder_cases) (simp_all add: fl_def mult_less_0_iff k)
qed

text \<open>A rounded number is not changed by rounding it again.\<close>

lemma fl_idem [simp]: "fl (fl x) = fl x"
proof -
  have p: "fl (fl_pos x) = fl_pos x" if x: "0 < x" for x
  proof -
    define u where "u = (2 :: rat) powi (lg x - 52)"
    define m where "m = rnd (x / u)"
    have fx: "fl_pos x = of_int m * 2 powi (lg x - 52)" by (simp add: fl_pos_def Let_def m_def u_def)
    have "of_int m * u \<le> 2 powi (lg x + 1)" using fl_pos_range(2) [OF x] fx by (simp add: u_def)
    moreover have "2 powi (lg x + 1) = of_int (2 ^ 53) * u" by (simp add: u_def power_int_diff power_int_add)
    ultimately have m: "m \<le> 2 ^ 53" by (simp add: u_def del: of_int_power of_int_numeral)
    have "0 < of_int m * u" using fl_pos_pos [OF x] fx by (simp add: u_def)
    moreover have "0 < u" by (simp add: u_def)
    ultimately have "0 < m" by (simp add: zero_less_mult_iff)
    then have "fl (of_int m) = of_int m" using m by (intro fl_int) simp
    then show ?thesis unfolding fx fl_scale by simp
  qed
  show ?thesis using p [of x] p [of "- x"] fl_minus [of "fl_pos (- x)"] by (cases x "0 :: rat" rule: linorder_cases) (simp_all add: fl_def)
qed

lemma fl_half: "n \<le> 2 ^ 53 \<Longrightarrow> fl (of_nat n / 2) = of_nat n / 2"
proof -
  assume n: "n \<le> 2 ^ 53"
  have "fl (of_nat n * 2 powi (- 1)) = of_nat n * 2 powi (- 1)" unfolding fl_scale fl_nat [OF n] ..
  moreover have "(2 :: rat) powi (- 1) = 1 / 2" by (simp add: power_int_minus)
  ultimately show ?thesis by simp
qed

subsection \<open>The square root\<close>

fun isqrt :: "nat \<Rightarrow> nat" where
  "isqrt n = (if n = 0 then 0 else let r = 2 * isqrt (n div 4) in if (r + 1) * (r + 1) \<le> n then r + 1 else r)"

declare isqrt.simps [simp del]

lemma isqrt_bounds: "isqrt n * isqrt n \<le> n \<and> n < (isqrt n + 1) * (isqrt n + 1)"
proof (induction n rule: isqrt.induct)
  case (1 n)
  show ?case
  proof (cases "n = 0")
    case True
    then show ?thesis by (simp add: isqrt.simps)
  next
    case False
    define q where "q = isqrt (n div 4)"
    have q: "q * q \<le> n div 4" "n div 4 < (q + 1) * (q + 1)" using 1 [OF False] by (simp_all add: q_def)
    have "4 * (n div 4) \<le> n" "n < 4 * (n div 4) + 4" by presburger+
    moreover have "n div 4 + 1 \<le> (q + 1) * (q + 1)" using q(2) by simp
    ultimately have "4 * (q * q) \<le> n" "n < 4 * ((q + 1) * (q + 1))" using q(1) by linarith+
    moreover have "isqrt n = (if (2 * q + 1) * (2 * q + 1) \<le> n then 2 * q + 1 else 2 * q)"
      using False isqrt.simps [of n] by (simp add: q_def Let_def)
    ultimately show ?thesis by (auto simp: algebra_simps)
  qed
qed

text \<open>
  Scaled by an even power of 2 that gives its integer part at least 60 bits, the root is compared
  with a whole number; if it is not that number it lies strictly between it and the next, and is
  rounded as the number half way.
\<close>

definition fl_sqrt :: "rat \<Rightarrow> rat" where
  "fl_sqrt x = (if x = 0 then 0 else
     let k = 60 - lg x div 2; y = x * (2 powi k * 2 powi k); m = isqrt (nat \<lfloor>y\<rfloor>)
     in fl ((if of_nat m * of_nat m = y then of_nat m else of_nat m + 1/2) / 2 powi k))"

lemma fl_sqrt_nonneg: "0 \<le> fl_sqrt x"
  by (simp add: fl_sqrt_def Let_def)

end
