(* ===== verification/Stat_Module.thy ===== *)
theory Stat_Module
  imports Prelude
begin

text \<open>
  The counters of one tier: src/src/base/stat_module.c and stat_module.h, with the line of text they
  are reported as.
\<close>

record StatModule =
  hostWriteCount :: u64
  hostReadCount :: u64
  gcWriteCount :: u64
  gcCount :: u64
  tierDownWriteCount :: u64
  tierDownCount :: u64
  gcStallCount :: u32
  tierStallCount :: u32
  gcSlowCount :: u32
  tierSlowCount :: u32

definition CreateStatModule :: StatModule where
  "CreateStatModule = \<lparr>hostWriteCount = 0, hostReadCount = 0, gcWriteCount = 0, gcCount = 0,
     tierDownWriteCount = 0, tierDownCount = 0, gcStallCount = 0, tierStallCount = 0, gcSlowCount = 0,
     tierSlowCount = 0\<rparr>"

definition Stat_Reset :: "StatModule \<Rightarrow> StatModule" where
  "Stat_Reset st = CreateStatModule"

abbreviation kStatTextBuffSize :: nat where "kStatTextBuffSize \<equiv> 80"

definition digit :: "nat \<Rightarrow> char" where
  "digit d = char_of (48 + d)"

fun decimal :: "nat \<Rightarrow> string" where
  "decimal n = (if n < 10 then [digit n] else decimal (n div 10) @ [digit (n mod 10)])"

declare decimal.simps [simp del]

text \<open>
  The numbers in the order of the format string. \<open>tierDownWriteCount\<close> has 64 bits and is printed
  with \<open>%u\<close>: its low 32 bits come out.
\<close>

definition report_fields :: "StatModule \<Rightarrow> nat list" where
  "report_fields st =
     [unat (hostReadCount st), unat (hostWriteCount st), unat (gcCount st), unat (gcWriteCount st),
      unat (tierDownCount st), unat (tierDownWriteCount st) mod 2 ^ 32, unat (gcSlowCount st),
      unat (tierSlowCount st), unat (gcStallCount st), unat (tierStallCount st)]"

fun join_commas :: "string list \<Rightarrow> string" where
  "join_commas [] = []"
| "join_commas [x] = x"
| "join_commas (x # y # xs) = x @ CHR '','' # join_commas (y # xs)"

text \<open>\<open>snprintf\<close> keeps at most 79 characters.\<close>

definition Stat_Report :: "StatModule \<Rightarrow> string" where
  "Stat_Report st = take (kStatTextBuffSize - 1) (join_commas (map decimal (report_fields st)))"

subsection \<open>Reading the line back\<close>

definition undigit :: "char \<Rightarrow> nat" where
  "undigit c = of_char c - 48"

definition undecimal :: "string \<Rightarrow> nat" where
  "undecimal s = foldl (\<lambda>n c. 10 * n + undigit c) 0 s"

fun split_commas :: "string \<Rightarrow> string list" where
  "split_commas [] = [[]]"
| "split_commas (c # cs) =
     (if c = CHR '','' then [] # split_commas cs
      else case split_commas cs of [] \<Rightarrow> [[c]] | w # ws \<Rightarrow> (c # w) # ws)"

lemma digit_facts:
  assumes "d < 10"
  shows "undigit (digit d) = d" and "digit d \<noteq> CHR '',''"
proof -
  have "of_char (digit d) = 48 + d" using assms by (simp add: digit_def take_bit_nat_eq_self)
  then show "undigit (digit d) = d" by (simp add: undigit_def)
  show "digit d \<noteq> CHR '',''"
  proof
    assume "digit d = CHR '',''"
    then have "(of_char (digit d) :: nat) = of_char (CHR '','')" by simp
    then show False using \<open>of_char (digit d) = 48 + d\<close> by simp
  qed
qed

lemma undecimal_snoc: "undecimal (s @ [c]) = 10 * undecimal s + undigit c"
  by (simp add: undecimal_def)

lemma decimal_facts: "undecimal (decimal n) = n" "CHR '','' \<notin> set (decimal n)" "decimal n \<noteq> []"
proof -
  have "undecimal (decimal n) = n \<and> CHR '','' \<notin> set (decimal n) \<and> decimal n \<noteq> []"
  proof (induction n rule: decimal.induct)
    case (1 n)
    show ?case
    proof (cases "n < 10")
      case True
      then show ?thesis using digit_facts [OF True] by (simp add: decimal.simps [of n] undecimal_def)
    next
      case False
      then have "undecimal (decimal (n div 10)) = n div 10 \<and> CHR '','' \<notin> set (decimal (n div 10))"
        using 1 by simp
      moreover have "n mod 10 < 10" by simp
      note digit_facts [OF this]
      ultimately show ?thesis using False by (simp add: decimal.simps [of n] undecimal_snoc)
    qed
  qed
  then show "undecimal (decimal n) = n" "CHR '','' \<notin> set (decimal n)" "decimal n \<noteq> []" by simp_all
qed

lemma split_no_comma: "CHR '','' \<notin> set w \<Longrightarrow> split_commas w = [w]"
  by (induction w) auto

lemma split_prefix: "CHR '','' \<notin> set w \<Longrightarrow> split_commas (w @ CHR '','' # cs) = w # split_commas cs"
  by (induction w) auto

lemma split_join:
  "ws \<noteq> [] \<Longrightarrow> (\<And>w. w \<in> set ws \<Longrightarrow> CHR '','' \<notin> set w) \<Longrightarrow> split_commas (join_commas ws) = ws"
  by (induction ws rule: join_commas.induct) (auto simp: split_no_comma split_prefix)

lemma length_decimal: "n < 10 ^ k \<Longrightarrow> 0 < k \<Longrightarrow> length (decimal n) \<le> k"
proof (induction k arbitrary: n)
  case (Suc k)
  show ?case
  proof (cases "n < 10")
    case True
    then show ?thesis by (simp add: decimal.simps [of n])
  next
    case False
    then have "0 < k" using Suc.prems(1) by (cases k) auto
    moreover have "n div 10 < 10 ^ k" using Suc.prems(1) by (simp add: div_less_iff_less_mult mult.commute)
    ultimately show ?thesis using False Suc.IH [of "n div 10"] by (simp add: decimal.simps [of n])
  qed
qed simp

lemma length_join: "length (join_commas ws) + 1 \<le> sum_list (map (\<lambda>w. length w + 1) ws) + 1"
  by (induction ws rule: join_commas.induct) auto

lemma length_join_exact: "ws \<noteq> [] \<Longrightarrow> Suc (length (join_commas ws)) = sum_list (map (\<lambda>w. length w + 1) ws)"
  by (induction ws rule: join_commas.induct) auto

lemma Stat_Report_read_back:
  assumes "\<And>n. n \<in> set (report_fields st) \<Longrightarrow> n < 10 ^ 7"
  shows "map undecimal (split_commas (Stat_Report st)) = report_fields st"
proof -
  let ?ws = "map decimal (report_fields st)"
  have ne: "?ws \<noteq> []" by (simp add: report_fields_def)
  have l: "length (report_fields st) = 10" by (simp add: report_fields_def)
  have "Suc (length (join_commas ?ws)) = sum_list (map (\<lambda>w. length w + 1) ?ws)" by (rule length_join_exact [OF ne])
  also have "\<dots> \<le> sum_list (map (\<lambda>w. 8) ?ws)"
  proof (rule sum_list_mono)
    fix w assume "w \<in> set ?ws"
    then obtain n where "w = decimal n" "n \<in> set (report_fields st)" by auto
    then show "length w + 1 \<le> 8" using length_decimal [of n 7] assms by simp
  qed
  also have "\<dots> = 80" by (simp add: map_replicate_const l sum_list_replicate)
  finally have "length (join_commas ?ws) \<le> 79" by simp
  then have "Stat_Report st = join_commas ?ws" by (simp add: Stat_Report_def)
  moreover have "split_commas (join_commas ?ws) = ?ws"
    by (rule split_join [OF ne]) (use decimal_facts(2) in auto)
  ultimately show ?thesis by (simp add: decimal_facts(1) o_def)
qed

end
