(* ===== verification/Histogram_Report.thy ===== *)
theory Histogram_Report
  imports Double Histogram Stat_Module
begin

text \<open>
  The numbers and the text that src/src/utility/histogram.c reports: \<open>Percentile\<close>, \<open>Median\<close>, \<open>Average\<close>,
  \<open>StandardDeviation\<close> and \<open>GetHistogram\<close>, in the double arithmetic of theory \<open>Double\<close>. A result that is
  not a number is \<open>None\<close>. Counts, sums, minimum and maximum are whole numbers (theory \<open>Histogram\<close>),
  which the doubles of the source hold exactly as long as the sum of squares is at most 2^53; the
  results on the whole report assume that.
\<close>

subsection \<open>The numbers\<close>

definition limit :: "nat \<Rightarrow> rat" where
  "limit b = fl (of_nat (kBucketLimit ! b))"

text \<open>The search of \<open>Percentile\<close>: the first bucket from \<open>b\<close> on where the sum reaches the threshold, with that sum.\<close>

fun reach :: "rat \<Rightarrow> nat \<Rightarrow> nat \<Rightarrow> nat list \<Rightarrow> (nat \<times> nat) option" where
  "reach threshold b acc [] = None"
| "reach threshold b acc (n # ns) =
     (if threshold \<le> of_nat (acc + n) then Some (b, acc + n) else reach threshold (Suc b) (acc + n) ns)"

text \<open>With an empty bucket the position in it is 0/0, and so is the result.\<close>

definition Percentile :: "Histogram \<Rightarrow> rat \<Rightarrow> rat option" where
  "Percentile h p =
     (let threshold = fl (of_nat (h_num h) * fl (p / 100)) in
      case reach threshold 0 0 (h_buckets h) of
        None \<Rightarrow> Some (of_nat (h_max h))
      | Some (b, right_sum) \<Rightarrow>
          let n = h_buckets h ! b;
              left_point = (if b = 0 then 0 else limit (b - 1)); right_point = limit b;
              left_sum = of_nat (right_sum - n)
          in if n = 0 then None else
          let pos = fl (fl (threshold - left_sum) / of_nat n);
              r = fl (left_point + fl (fl (right_point - left_point) * pos));
              r1 = (if r < of_nat (h_min h) then of_nat (h_min h) else r)
          in Some (if r1 > of_nat (h_max h) then of_nat (h_max h) else r1))"

definition Median :: "Histogram \<Rightarrow> rat option" where
  "Median h = Percentile h 50"

definition Average :: "Histogram \<Rightarrow> rat" where
  "Average h = (if h_num h = 0 then 0 else fl (of_nat (h_sum h) / of_nat (h_num h)))"

definition StandardDeviation :: "Histogram \<Rightarrow> rat option" where
  "StandardDeviation h =
     (if h_num h = 0 then Some 0 else
      let n = of_nat (h_num h); s = of_nat (h_sum h); q = of_nat (h_sum_squares h);
          variance = fl (fl (fl (q * n) - fl (s * s)) / fl (n * n))
      in if variance < 0 then None else Some (fl_sqrt variance))"

subsection \<open>The text\<close>

text \<open>\<open>%w.kf\<close>; on x86 the 0/0 of the report prints as \<open>-nan\<close>.\<close>

definition pad :: "nat \<Rightarrow> char \<Rightarrow> string \<Rightarrow> string" where
  "pad w c s = replicate (w - length s) c @ s"

definition fixed :: "nat \<Rightarrow> nat \<Rightarrow> rat \<Rightarrow> string" where
  "fixed w k x =
     (let n = nat (rnd (\<bar>x\<bar> * 10 ^ k));
          digits = decimal (n div 10 ^ k) @ (if k = 0 then [] else ''.'' @ pad k CHR ''0'' (decimal (n mod 10 ^ k)))
      in pad w CHR '' '' (if x < 0 then ''-'' @ digits else digits))"

definition shown :: "nat \<Rightarrow> rat option \<Rightarrow> string" where
  "shown k x = (case x of None \<Rightarrow> ''-nan'' | Some r \<Rightarrow> fixed 0 k r)"

abbreviation kTextBuffSize :: nat where "kTextBuffSize \<equiv> 10240"

text \<open>\<open>snprintf(textBuff + len, sizeof(textBuff) - len, ...)\<close> with \<open>len = strlen(textBuff)\<close>.\<close>

definition print_at_end :: "string \<Rightarrow> string \<Rightarrow> string" where
  "print_at_end buf txt = buf @ take (kTextBuffSize - length buf - 1) txt"

text \<open>One round of the loop over the buckets: \<open>sum\<close> and the buffer. \<open>mult\<close> (here \<open>scale\<close>) is only used when \<open>num\<close> is positive.\<close>

definition bucket_line :: "rat \<Rightarrow> Histogram \<Rightarrow> nat \<Rightarrow> nat \<times> string \<Rightarrow> nat \<times> string" where
  "bucket_line scale h b acc =
     (let (done_n, buf) = acc; n = h_buckets h ! b in
      if n = 0 then (done_n, buf) else
      (done_n + n, print_at_end buf (
         ''[ '' @ fixed 7 0 (if b = 0 then 0 else limit (b - 1)) @ '', '' @ fixed 7 0 (limit b) @ '' ) '' @
         fixed 7 0 (of_nat n) @ '' '' @ fixed 7 3 (fl (scale * of_nat n)) @ ''% '' @
         fixed 7 3 (fl (scale * of_nat (done_n + n))) @ ''% '' @ [CHR 0x0A])))"

definition GetHistogram :: "Histogram \<Rightarrow> string" where
  "GetHistogram h =
     (let buf1 = print_at_end [] (''Count: '' @ fixed 0 0 (of_nat (h_num h)) @ '' Average: '' @ fixed 0 4 (Average h) @
            '' StdDev: '' @ shown 2 (StandardDeviation h) @ [CHR 0x0A]);
          buf2 = print_at_end buf1 (''Min: '' @ fixed 0 4 (of_nat (reported_min h)) @ '' Median: '' @ shown 4 (Median h) @
            '' Max: '' @ fixed 0 4 (of_nat (h_max h)) @ [CHR 0x0A]);
          scale = fl (100 / of_nat (h_num h))
      in snd (fold (bucket_line scale h) [0..<kNumBuckets] (0, buf2)))"

text \<open>What \<open>DestroyHistogram\<close> prints before it frees the histogram.\<close>

definition DestroyHistogram :: "Histogram \<Rightarrow> string" where
  "DestroyHistogram h = GetHistogram h"

subsection \<open>What the numbers satisfy\<close>

text \<open>The histograms that come about: by creating, clearing, adding and merging.\<close>

inductive built :: "Histogram \<Rightarrow> bool" where
  created: "built CreateHistogram"
| cleared: "built (Hist_Clear h)"
| added: "built h \<Longrightarrow> built (Hist_Add h v)"
| merged: "built h \<Longrightarrow> built g \<Longrightarrow> built (Hist_Merge h g)"

lemma four_times_le: "4 * (a * b) \<le> (a + b)\<^sup>2" for a b :: nat
proof -
  have *: "4 * (a * (a + d)) \<le> (a + (a + d))\<^sup>2" for a d :: nat by (simp add: power2_eq_square algebra_simps)
  show ?thesis using * [of a "b - a"] * [of b "a - b"] by (cases "a \<le> b") (simp_all add: ac_simps)
qed

lemma cauchy_nat:
  assumes "s * s \<le> n * (q :: nat)" and "t * t \<le> m * r"
  shows "(s + t) * (s + t) \<le> (n + m) * (q + r)"
proof -
  have "(2 * (s * t))\<^sup>2 \<le> (n * r + m * q)\<^sup>2"
  proof -
    have "(s * s) * (t * t) \<le> (n * q) * (m * r)" by (rule mult_le_mono [OF assms])
    then have "4 * ((s * s) * (t * t)) \<le> 4 * ((n * r) * (m * q))" by (simp add: algebra_simps)
    also have "\<dots> \<le> (n * r + m * q)\<^sup>2" by (rule four_times_le)
    finally show ?thesis by (simp add: power2_eq_square algebra_simps)
  qed
  then have "2 * (s * t) \<le> n * r + m * q" by (rule power2_le_imp_le) simp
  then show ?thesis using assms by (simp add: algebra_simps)
qed

lemma built_facts:
  assumes "built h"
  shows "hist_inv h" and "h_min h = 0" and "h_sum h * h_sum h \<le> h_num h * h_sum_squares h" and "h_sum h \<le> h_num h * h_max h"
proof -
  have "hist_inv h \<and> h_min h = 0 \<and> h_sum h * h_sum h \<le> h_num h * h_sum_squares h \<and> h_sum h \<le> h_num h * h_max h"
    using assms
  proof (induction rule: built.induct)
    case created
    then show ?case using CreateHistogram_inv by (simp add: CreateHistogram_def)
  next
    case (cleared h)
    then show ?case using Hist_Clear_inv kBucketLimit_last by (simp add: Hist_Clear_def)
  next
    case (added h v)
    have "h_sum h \<le> h_num h * max (h_max h) v"
      using added.IH by (meson order_trans max.cobounded1 mult_le_mono2)
    then have "h_sum h + v \<le> (h_num h + 1) * max (h_max h) v"
      unfolding add_mult_distrib by (intro add_mono) simp_all
    then show ?case
      using added.IH Hist_Add_inv [of h v] min_stays_zero [of h v] cauchy_nat [of "h_sum h" "h_num h" "h_sum_squares h" v 1 "v * v"]
      by (auto simp: Hist_Add_def Let_def max_def split: if_splits)
  next
    case (merged h g)
    let ?m = "max (h_max h) (h_max g)"
    have "h_sum h \<le> h_num h * ?m" "h_sum g \<le> h_num g * ?m"
      using merged.IH by (meson order_trans max.cobounded1 max.cobounded2 mult_le_mono2)+
    then have "h_sum h + h_sum g \<le> (h_num h + h_num g) * ?m"
      unfolding add_mult_distrib by (intro add_mono)
    then show ?case
      using merged.IH Hist_Merge_inv [of h g] cauchy_nat [of "h_sum h" "h_num h" "h_sum_squares h" "h_sum g" "h_num g" "h_sum_squares g"]
      by (auto simp: Hist_Merge_def max_def split: if_splits)
  qed
  then show "hist_inv h" "h_min h = 0" "h_sum h * h_sum h \<le> h_num h * h_sum_squares h" "h_sum h \<le> h_num h * h_max h" by blast+
qed

text \<open>The search stops at the first bucket where the sum of the buckets so far reaches the threshold.\<close>

lemma reach_spec:
  assumes "reach thr b acc ns = Some (c, tot)"
  shows "\<exists>i < length ns. c = b + i \<and> tot = acc + sum_list (take (Suc i) ns) \<and> thr \<le> of_nat tot \<and>
    (\<forall>j < i. of_nat (acc + sum_list (take (Suc j) ns)) < thr)"
  using assms
proof (induction thr b acc ns rule: reach.induct)
  case (2 thr b acc n ns)
  show ?case
  proof (cases "thr \<le> of_nat (acc + n)")
    case True
    then show ?thesis using 2(2) by (intro exI [of _ 0]) simp
  next
    case False
    then obtain i where i: "i < length ns" "c = Suc b + i" "tot = acc + n + sum_list (take (Suc i) ns)" "thr \<le> of_nat tot"
        "\<forall>j < i. of_nat (acc + n + sum_list (take (Suc j) ns)) < thr"
      using 2 by auto
    have "of_nat (acc + sum_list (take (Suc j) (n # ns))) < thr" if "j < Suc i" for j
      using that i(5) False by (cases j) (simp_all add: add.assoc not_le)
    then show ?thesis using i by (intro exI [of _ "Suc i"]) simp
  qed
qed simp

lemma reach_None: "reach thr b acc ns = None \<Longrightarrow> ns \<noteq> [] \<Longrightarrow> of_nat (acc + sum_list ns) < thr"
proof (induction thr b acc ns rule: reach.induct)
  case (2 thr b acc n ns)
  then show ?case by (cases "ns = []") (auto simp: add.assoc split: if_split_asm)
qed simp

lemma Average_bounds:
  assumes "built h" and "h_max h \<le> 2 ^ 53"
  shows "0 \<le> Average h" and "Average h \<le> of_nat (h_max h)"
proof -
  have "Average h \<le> of_nat (h_max h)" if "h_num h \<noteq> 0"
  proof -
    have "(of_nat (h_sum h) :: rat) \<le> of_nat (h_num h * h_max h)" using built_facts(4) [OF assms(1)] by (simp only: of_nat_le_iff)
    then have "of_nat (h_sum h) / of_nat (h_num h) \<le> (of_nat (h_max h) :: rat)"
      using that by (simp add: pos_divide_le_eq mult.commute)
    then have "fl (of_nat (h_sum h) / of_nat (h_num h)) \<le> fl (of_nat (h_max h))" by (rule fl_mono)
    then show ?thesis using that assms(2) by (simp add: Average_def fl_nat)
  qed
  then show "Average h \<le> of_nat (h_max h)" by (cases "h_num h = 0") (simp_all add: Average_def)
  show "0 \<le> Average h" by (simp add: Average_def)
qed

text \<open>The variance is never negative, rounding included: the products are rounded monotonically.\<close>

lemma StandardDeviation_defined:
  assumes "built h"
  shows "\<exists>d. StandardDeviation h = Some d \<and> 0 \<le> d"
proof -
  have "(of_nat (h_sum h * h_sum h) :: rat) \<le> of_nat (h_num h * h_sum_squares h)"
    using built_facts(3) [OF assms] by (simp only: of_nat_le_iff)
  then have "fl (of_nat (h_sum h) * of_nat (h_sum h)) \<le> fl (of_nat (h_sum_squares h) * of_nat (h_num h))"
    by (intro fl_mono) (simp add: mult.commute)
  then have "\<not> fl (fl (fl (of_nat (h_sum_squares h) * of_nat (h_num h)) - fl (of_nat (h_sum h) * of_nat (h_sum h))) /
      fl (of_nat (h_num h) * of_nat (h_num h))) < 0"
    by (simp add: not_less)
  then show ?thesis by (simp add: StandardDeviation_def Let_def fl_sqrt_nonneg)
qed

text \<open>The threshold of the median is half the count.\<close>

lemma median_threshold: "n \<le> 2 ^ 53 \<Longrightarrow> fl (of_nat n / 2) = of_nat n / 2" "fl (1 / 2) = 1 / 2"
  using fl_half [of n] fl_half [of 1] by simp_all

definition between :: "Histogram \<Rightarrow> nat \<Rightarrow> rat \<Rightarrow> rat" where
  "between h b pos = (let l = (if b = 0 then 0 else limit (b - 1)) in fl (l + fl (fl (limit b - l) * pos)))"

lemma Median_cases:
  assumes "built h" and "0 < h_num h" and "h_num h \<le> 2 ^ 53"
  shows "\<exists>b < kNumBuckets. \<exists>pos. 0 \<le> pos \<and> pos \<le> 1 \<and>
    of_nat (h_num h) / 2 \<le> (of_nat (sum_list (take (Suc b) (h_buckets h))) :: rat) \<and>
    (\<forall>j < b. of_nat (sum_list (take (Suc j) (h_buckets h))) < (of_nat (h_num h) / 2 :: rat)) \<and>
    Median h = Some (min (of_nat (h_max h)) (max 0 (between h b pos)))"
proof -
  let ?thr = "of_nat (h_num h) / 2 :: rat" and ?ns = "h_buckets h"
  note inv = built_facts(1) [OF assms(1), unfolded hist_inv_def]
  have thr: "0 < ?thr" "?thr \<le> of_nat (h_num h)" using assms(2) by simp_all
  have "reach ?thr 0 0 ?ns \<noteq> None"
  proof
    assume "reach ?thr 0 0 ?ns = None"
    moreover have "?ns \<noteq> []" using inv by auto
    ultimately show False using reach_None [of ?thr 0 0 ?ns] inv thr(2) by simp
  qed
  then obtain b tot where r: "reach ?thr 0 0 ?ns = Some (b, tot)" by auto
  from reach_spec [OF r] have b: "b < kNumBuckets" "tot = sum_list (take (Suc b) ?ns)" "?thr \<le> of_nat tot"
      "\<forall>j < b. of_nat (sum_list (take (Suc j) ?ns)) < ?thr"
    using inv by auto
  define n where "n = ?ns ! b"
  have tot: "tot = sum_list (take b ?ns) + n" using b(1,2) inv by (simp add: take_Suc_conv_app_nth n_def)
  have left: "of_nat (tot - n) < ?thr"
  proof (cases b)
    case 0
    then show ?thesis using tot thr(1) by simp
  next
    case (Suc j)
    then show ?thesis using b(4) tot by auto
  qed
  have n: "n \<noteq> 0" using left b(3) by (cases "n = 0") (simp_all add: not_less [symmetric])
  have "n \<le> h_num h" using inv b(1) member_le_sum_list [of n ?ns] by (simp add: n_def)
  then have "fl (of_nat n) = of_nat n" using assms(3) by (intro fl_nat) simp
  define pos where "pos = fl (fl (?thr - of_nat (tot - n)) / of_nat n)"
  have "fl (?thr - of_nat (tot - n)) \<le> fl (of_nat n)"
    using b(3) tot by (intro fl_mono) simp
  then have "fl (?thr - of_nat (tot - n)) / of_nat n \<le> 1"
    using n \<open>fl (of_nat n) = of_nat n\<close> by simp
  then have "pos \<le> 1" unfolding pos_def using fl_mono [of _ 1] by simp
  moreover have "0 \<le> pos" using left by (simp add: pos_def)
  moreover have "Median h = Some (min (of_nat (h_max h)) (max 0 (between h b pos)))"
    using r n built_facts(2) [OF assms(1)]
    by (auto simp: Median_def Percentile_def median_threshold(1) [OF assms(3)] median_threshold(2) between_def pos_def n_def Let_def min_def max_def)
  ultimately show ?thesis using b by blast
qed

lemma Median_bounds:
  assumes "built h" and "0 < h_num h" and "h_num h \<le> 2 ^ 53"
  shows "\<exists>m. Median h = Some m \<and> 0 \<le> m \<and> m \<le> of_nat (h_max h)"
  using Median_cases [OF assms] by auto

lemma Median_empty: "h_num h = 0 \<Longrightarrow> hist_inv h \<Longrightarrow> Median h = None"
  by (cases "h_buckets h") (simp_all add: hist_inv_def Median_def Percentile_def)

subsection \<open>The median of recorded values\<close>

abbreviation bucket_of :: "nat \<Rightarrow> nat" where
  "bucket_of v \<equiv> find_bucket kBucketLimit v 0"

definition recorded :: "nat list \<Rightarrow> Histogram" where
  "recorded vs = fold (\<lambda>v h. Hist_Add h v) vs CreateHistogram"

lemma recorded_snoc: "recorded (vs @ [v]) = Hist_Add (recorded vs) v"
  by (simp add: recorded_def)

lemma recorded_facts: "built (recorded vs)" "h_num (recorded vs) = length vs" "\<forall>v\<in>set vs. v \<le> h_max (recorded vs)"
proof -
  have "built (recorded vs) \<and> h_num (recorded vs) = length vs \<and> (\<forall>v\<in>set vs. v \<le> h_max (recorded vs))"
  proof (induction vs rule: rev_induct)
    case Nil
    then show ?case by (simp add: recorded_def built.created) (simp add: CreateHistogram_def)
  next
    case (snoc v vs)
    then show ?case using built.added [of "recorded vs" v]
      by (auto simp: recorded_snoc) (auto simp: Hist_Add_def Let_def)
  qed
  then show "built (recorded vs)" "h_num (recorded vs) = length vs" "\<forall>v\<in>set vs. v \<le> h_max (recorded vs)" by blast+
qed

lemma bucket_of_less: "bucket_of v < kNumBuckets"
  using find_bucket_spec [of kBucketLimit 0 v] length_limits by fastforce

lemma find_bucket_mono: "v \<le> w \<Longrightarrow> find_bucket xs v b \<le> find_bucket xs w b"
proof (induction xs v b rule: find_bucket.induct)
  case (3 x y xs v b)
  have "b \<le> find_bucket (y # xs) w (Suc b)" using find_bucket_spec [of "y # xs" "Suc b" w] by simp
  then show ?case using 3 by auto
qed simp_all

lemma recorded_buckets:
  "h_buckets (recorded vs) = map (\<lambda>b. length (filter (\<lambda>v. bucket_of v = b) vs)) [0..<kNumBuckets]"
proof (induction vs rule: rev_induct)
  case Nil
  show ?case by (simp add: recorded_def CreateHistogram_def map_replicate_trivial)
next
  case (snoc v vs)
  show ?case using bucket_of_less [of v] snoc
    by (intro nth_equalityI) (auto simp: recorded_snoc Hist_Add_def Let_def nth_list_update)
qed

lemma count_upto:
  "sum_list (map (\<lambda>b. length (filter (\<lambda>v. f v = b) vs)) [0..<Suc k]) = length (filter (\<lambda>v. f v \<le> k) vs)"
proof (induction vs)
  case (Cons v vs)
  have "sum_list (map (\<lambda>b. (if f v = b then Suc (g b) else g b)) [0..<j]) = (if f v < j then 1 else 0) + sum_list (map g [0..<j])" for g j
    by (induction j) auto
  then show ?case using Cons by (simp add: less_Suc_eq_le if_distrib [of length] del: upt_Suc cong: if_cong)
qed simp

lemma recorded_sums:
  assumes "k < kNumBuckets"
  shows "sum_list (take (Suc k) (h_buckets (recorded vs))) = length (filter (\<lambda>v. bucket_of v \<le> k) vs)"
  using assms count_upto [of bucket_of vs k] by (simp add: recorded_buckets take_map del: upt_Suc)

text \<open>At least half of the values are in the bucket of the middle one or below, fewer than half strictly below.\<close>

definition middle :: "nat list \<Rightarrow> nat" where
  "middle vs = sort vs ! ((length vs - 1) div 2)"

lemma filter_length_sort: "length (filter P (sort vs)) = length (filter P vs)"
  by (metis mset_filter mset_sort size_mset)

lemma filter_split: "length (filter P xs) = length (filter P (take k xs)) + length (filter P (drop k xs))"
  by (metis append_take_drop_id filter_append length_append)

lemma middle_rank:
  assumes "vs \<noteq> []" and mono: "\<And>v w. v \<le> w \<Longrightarrow> f v \<le> (f w :: nat)"
  shows "length vs \<le> 2 * length (filter (\<lambda>v. f v \<le> f (middle vs)) vs)"
    and "j < f (middle vs) \<Longrightarrow> 2 * length (filter (\<lambda>v. f v \<le> j) vs) < length vs"
proof -
  define xs where "xs = sort vs"
  define k where "k = (length vs - 1) div 2"
  have k: "k < length xs" "length vs \<le> 2 * Suc k" "2 * k < length vs" "middle vs = xs ! k"
    using assms(1) by (cases vs; simp add: xs_def k_def middle_def; linarith)+
  have s: "xs ! i \<le> xs ! j" if "i \<le> j" "j < length xs" for i j
    using that by (simp add: xs_def sorted_nth_mono)
  have "filter (\<lambda>v. f v \<le> f (xs ! k)) (take (Suc k) xs) = take (Suc k) xs"
    using s k(1) mono by (intro filter_True) (auto simp: in_set_conv_nth)
  then have "Suc k \<le> length (filter (\<lambda>v. f v \<le> f (xs ! k)) xs)"
    using k(1) filter_split [of _ xs "Suc k"] by simp
  then show "length vs \<le> 2 * length (filter (\<lambda>v. f v \<le> f (middle vs)) vs)"
    using k(2,4) filter_length_sort [of _ vs] by (simp add: xs_def)
  show "2 * length (filter (\<lambda>v. f v \<le> j) vs) < length vs" if "j < f (middle vs)"
  proof -
    have "j < f v" if "v \<in> set (drop k xs)" for v
    proof -
      from that obtain i where "i < length xs - k" "v = xs ! (k + i)" by (auto simp: in_set_conv_nth)
      then have "f (xs ! k) \<le> f v" using mono [OF s [of k "k + i"]] by simp
      then show ?thesis using k(4) \<open>j < f (middle vs)\<close> by simp
    qed
    then have "filter (\<lambda>v. f v \<le> j) (drop k xs) = []" by (auto simp: filter_empty_conv not_le)
    then have "length (filter (\<lambda>v. f v \<le> j) xs) \<le> k"
      using filter_split [of "\<lambda>v. f v \<le> j" xs k] length_filter_le [of "\<lambda>v. f v \<le> j" "take k xs"] by simp
    then show ?thesis using k(3) filter_length_sort [of _ vs] by (simp add: xs_def)
  qed
qed

text \<open>The limits below the one at 9 * 10^9 are exact.\<close>

definition given_limits :: "nat list" where
  "given_limits = [1, 2, 3, 4, 5, 6, 7, 8, 9] @ concat (map (\<lambda>e. map (\<lambda>d. d * 10 ^ e) decade) [0..<9])"

lemma given_limits_length: "length given_limits = 153"
  unfolding given_limits_def upt9 decade_def by simp

lemma given_limits_le: "\<forall>x\<in>set given_limits. x \<le> 9000000000"
  unfolding given_limits_def upt9 decade_def by simp

lemma given_limits_last: "last given_limits = 9000000000"
  unfolding given_limits_def upt9 decade_def by simp

lemma small_limits: "\<forall>i < 153. kBucketLimit ! i \<le> 9000000000" "kBucketLimit ! 152 = 9000000000"
proof -
  have l: "kBucketLimit = given_limits @ [10 ^ 200] @ replicate 8 0" by (simp add: kBucketLimit_def given_limits_def)
  show "\<forall>i < 153. kBucketLimit ! i \<le> 9000000000"
    using given_limits_length given_limits_le unfolding l by (auto simp: nth_append)
  have "given_limits ! 152 = last given_limits" using last_conv_nth [of given_limits] given_limits_length by fastforce
  then show "kBucketLimit ! 152 = 9000000000" using given_limits_length given_limits_last unfolding l by (simp add: nth_append)
qed

lemma limit_exact: "b < 153 \<Longrightarrow> limit b = of_nat (kBucketLimit ! b)"
  using small_limits(1) by (auto simp: limit_def intro!: fl_nat elim: order_trans)

lemma between_range:
  assumes "b < 153" and "b = 0 \<or> kBucketLimit ! (b - 1) \<le> kBucketLimit ! b" and "0 \<le> pos" and "pos \<le> 1"
  shows "(if b = 0 then 0 else of_nat (kBucketLimit ! (b - 1))) \<le> between h b pos"
    and "between h b pos \<le> of_nat (kBucketLimit ! b)"
proof -
  define l where "l = (if b = 0 then 0 else kBucketLimit ! (b - 1))"
  define u where "u = kBucketLimit ! b"
  have lu: "l \<le> u" "u \<le> 2 ^ 53" using assms(1,2) small_limits(1) by (auto simp: l_def u_def intro: order_trans)
  have "limit b = of_nat u" "(if b = 0 then 0 else limit (b - 1)) = of_nat l"
    using assms(1) limit_exact by (simp_all add: l_def u_def)
  then have bt: "between h b pos = fl (of_nat l + fl (fl (of_nat u - of_nat l) * pos))"
    by (simp add: between_def Let_def)
  have d: "fl (of_nat u - of_nat l) = of_nat (u - l)" using lu fl_nat [of "u - l"] by (simp add: of_nat_diff)
  have "of_nat (u - l) * pos \<le> (of_nat (u - l) :: rat)" using assms(3,4) by (simp add: mult_left_le)
  then have "fl (of_nat (u - l) * pos) \<le> of_nat (u - l)" using fl_mono fl_nat [of "u - l"] lu by fastforce
  moreover have "0 \<le> fl (of_nat (u - l) * pos)" using assms(3) by simp
  ultimately have "of_nat l \<le> of_nat l + fl (of_nat (u - l) * pos)" "of_nat l + fl (of_nat (u - l) * pos) \<le> of_nat u"
    using lu by (simp_all add: of_nat_diff)
  then have "fl (of_nat l) \<le> between h b pos" "between h b pos \<le> fl (of_nat u)"
    unfolding bt d by (blast intro: fl_mono)+
  then show "(if b = 0 then 0 else of_nat (kBucketLimit ! (b - 1))) \<le> between h b pos"
    "between h b pos \<le> of_nat (kBucketLimit ! b)"
    using lu fl_nat [of l] fl_nat [of u] by (auto simp: l_def u_def)
qed

lemma half_le: "of_nat n / 2 \<le> (of_nat k :: rat) \<longleftrightarrow> n \<le> 2 * k"
proof -
  have "of_nat n / 2 \<le> (of_nat k :: rat) \<longleftrightarrow> of_nat n \<le> (of_nat (2 * k) :: rat)" by (simp add: divide_le_eq mult.commute)
  then show ?thesis by (simp only: of_nat_le_iff)
qed

lemma Median_bucket:
  assumes "vs \<noteq> []" and "length vs \<le> 2 ^ 53" and "\<forall>v\<in>set vs. v < 9000000000"
  shows "\<exists>r. Median (recorded vs) = Some r \<and>
    (let b = bucket_of (middle vs) in
      (if b = 0 then 0 else of_nat (kBucketLimit ! (b - 1))) \<le> r \<and> r \<le> of_nat (kBucketLimit ! b) \<and>
      (if b = 0 then 0 else kBucketLimit ! (b - 1)) \<le> middle vs \<and> middle vs < kBucketLimit ! b)"
proof -
  let ?h = "recorded vs" and ?m = "middle vs"
  let ?b = "bucket_of ?m"
  have "0 < length vs" using assms(1) by simp
  then have "(length vs - 1) div 2 < length (sort vs)" unfolding length_sort by linarith
  then have m: "?m \<in> set vs" unfolding middle_def by (metis nth_mem set_sort)
  have fb: "?b < kNumBuckets" "\<forall>i < ?b. kBucketLimit ! i \<le> ?m" "?b < 161 \<longrightarrow> ?m < kBucketLimit ! ?b"
    using find_bucket_spec [of kBucketLimit 0 ?m] length_limits by fastforce+
  have b: "?b < 153"
  proof (rule ccontr)
    assume "\<not> ?b < 153"
    then have "kBucketLimit ! 152 \<le> ?m" using fb(2) by simp
    then show False using m assms(3) small_limits(2) by fastforce
  qed
  have lim: "(if ?b = 0 then 0 else kBucketLimit ! (?b - 1)) \<le> ?m" "?m < kBucketLimit ! ?b" using fb b by simp_all
  have order: "?b = 0 \<or> kBucketLimit ! (?b - 1) \<le> kBucketLimit ! ?b"
    using lim by (cases "?b = 0") auto
  obtain c pos where c: "c < kNumBuckets" "0 \<le> pos" "pos \<le> 1"
      "of_nat (length vs) / 2 \<le> (of_nat (sum_list (take (Suc c) (h_buckets ?h))) :: rat)"
      "\<forall>j < c. of_nat (sum_list (take (Suc j) (h_buckets ?h))) < (of_nat (length vs) / 2 :: rat)"
      "Median ?h = Some (min (of_nat (h_max ?h)) (max 0 (between ?h c pos)))"
    using Median_cases [of ?h] recorded_facts(1,2) assms(1,2) by auto
  have mono: "v \<le> w \<Longrightarrow> bucket_of v \<le> bucket_of w" for v w by (rule find_bucket_mono)
  have "c = ?b"
  proof (rule linorder_cases [of c ?b])
    assume "c < ?b"
    then have "2 * length (filter (\<lambda>v. bucket_of v \<le> c) vs) < length vs"
      using middle_rank(2) [OF assms(1), of bucket_of c] mono by blast
    then show ?thesis using c(1,4) by (simp add: recorded_sums half_le)
  next
    assume "?b < c"
    then have "of_nat (length (filter (\<lambda>v. bucket_of v \<le> ?b) vs)) < (of_nat (length vs) / 2 :: rat)"
      using c(1,5) recorded_sums [of ?b vs] by force
    then have "\<not> length vs \<le> 2 * length (filter (\<lambda>v. bucket_of v \<le> ?b) vs)" by (simp add: half_le [symmetric] not_le)
    then show ?thesis using middle_rank(1) [OF assms(1), of bucket_of] mono by blast
  qed
  moreover have "(if ?b = 0 then 0 else of_nat (kBucketLimit ! (?b - 1))) \<le> between ?h ?b pos"
      "between ?h ?b pos \<le> of_nat (kBucketLimit ! ?b)"
    using between_range [OF b order c(2,3), of ?h] by blast+
  moreover have "(if ?b = 0 then 0 else of_nat (kBucketLimit ! (?b - 1))) \<le> (of_nat (h_max ?h) :: rat)"
    using lim(1) m recorded_facts(3) [of vs] by (auto intro: order_trans)
  moreover have "max 0 (between ?h ?b pos) = between ?h ?b pos"
    using calculation(2) by (auto simp: max_def split: if_splits intro: order_trans)
  ultimately show ?thesis using c(6) lim by (auto simp: Let_def min_def)
qed

lemma built_max: "built h \<Longrightarrow> h_max h * h_max h \<le> h_sum_squares h"
proof (induction rule: built.induct)
  case (added h v)
  then show ?case by (auto simp: Hist_Add_def Let_def)
qed (auto simp: CreateHistogram_def Hist_Clear_def Hist_Merge_def)

lemma recorded_sum: "h_sum (recorded vs) = sum_list vs"
  by (induction vs rule: rev_induct) (simp_all add: recorded_snoc Hist_Add_def Let_def, simp add: recorded_def CreateHistogram_def)

text \<open>The text never leaves its buffer, the final 0 included.\<close>

lemma print_at_end_fits: "length buf < kTextBuffSize \<Longrightarrow> length (print_at_end buf txt) < kTextBuffSize"
  by (simp add: print_at_end_def)

lemma bucket_line_fits:
  assumes "length (snd acc) < kTextBuffSize"
  shows "length (snd (bucket_line scale h b acc)) < kTextBuffSize"
proof -
  obtain n buf where acc: "acc = (n, buf)" by (cases acc)
  show ?thesis unfolding bucket_line_def Let_def acc prod.case using assms print_at_end_fits
    by (cases "h_buckets h ! b = 0") (simp_all only: acc refl if_True if_False snd_conv simp_thms)
qed

lemma GetHistogram_fits: "length (GetHistogram h) < kTextBuffSize"
proof -
  have "length (snd acc) < kTextBuffSize \<Longrightarrow> length (snd (fold (bucket_line scale h) bs acc)) < kTextBuffSize" for scale bs acc
    by (induction bs arbitrary: acc) (simp_all add: bucket_line_fits)
  then show ?thesis by (simp add: GetHistogram_def Let_def print_at_end_fits)
qed

subsection \<open>Properties\<close>

text \<open>C35: The numbers of a report are sane. For every histogram made by creating, clearing, adding and
  merging that has a value and whose counts a double holds exactly, the printed median and average
  lie between 0 and the largest value, and the deviation is a number and not negative: the
  difference of the two rounded products never falls below 0.\<close>

theorem report_numbers_sane:
  assumes "built h" and "0 < h_num h" and "h_num h \<le> 2 ^ 53" and "h_sum_squares h \<le> 2 ^ 53"
  shows "\<exists>m d. Median h = Some m \<and> 0 \<le> m \<and> m \<le> of_nat (h_max h) \<and>
    0 \<le> Average h \<and> Average h \<le> of_nat (h_max h) \<and> StandardDeviation h = Some d \<and> 0 \<le> d"
proof -
  have "h_max h \<le> h_max h * h_max h" by simp
  also have "\<dots> \<le> 2 ^ 53" using built_max [OF assms(1)] assms(4) by (rule order_trans)
  finally show ?thesis
    using Median_bounds [OF assms(1-3)] Average_bounds [OF assms(1)] StandardDeviation_defined [OF assms(1)] by auto
qed

theorem report_numbers_sane_witness:
  "\<exists>m d. Median (recorded [3, 1200, 7]) = Some m \<and> 0 \<le> m \<and> m \<le> of_nat (h_max (recorded [3, 1200, 7])) \<and>
    0 \<le> Average (recorded [3, 1200, 7]) \<and> Average (recorded [3, 1200, 7]) \<le> of_nat (h_max (recorded [3, 1200, 7])) \<and>
    StandardDeviation (recorded [3, 1200, 7]) = Some d \<and> 0 \<le> d"
  by (rule report_numbers_sane) (simp_all add: recorded_facts(1,2),
      simp add: recorded_def Hist_Add_def CreateHistogram_def Let_def)

text \<open>C34: The median of a report is right up to the width of a bucket. For up to 2^53 recorded latencies
  below 9 * 10^9 microseconds the printed median lies in the bucket of the middle value of
  the sorted latencies, between its lower and its upper limit.\<close>

theorem median_in_bucket:
  assumes "vs \<noteq> []" and "length vs \<le> 2 ^ 53" and "\<forall>v\<in>set vs. v < 9000000000"
  shows "\<exists>r. Median (recorded vs) = Some r \<and>
    (let b = bucket_of (middle vs) in
      (if b = 0 then 0 else of_nat (kBucketLimit ! (b - 1))) \<le> r \<and> r \<le> of_nat (kBucketLimit ! b) \<and>
      (if b = 0 then 0 else kBucketLimit ! (b - 1)) \<le> middle vs \<and> middle vs < kBucketLimit ! b)"
  using assms by (rule Median_bucket)

theorem median_in_bucket_witness:
  "\<exists>r. Median (recorded [3, 1200, 7]) = Some r \<and>
    (let b = bucket_of (middle [3, 1200, 7]) in
      (if b = 0 then 0 else of_nat (kBucketLimit ! (b - 1))) \<le> r \<and> r \<le> of_nat (kBucketLimit ! b) \<and>
      (if b = 0 then 0 else kBucketLimit ! (b - 1)) \<le> middle [3, 1200, 7] \<and> middle [3, 1200, 7] < kBucketLimit ! b)"
  by (rule median_in_bucket) simp_all

end
