(* ===== verification/Disk_Properties.thy ===== *)
theory Disk_Properties
  imports Disk_Operator Histogram_Report
begin

text \<open>What the queues between the threads, the disk behind them and the statistics promise.\<close>

subsection \<open>Queues\<close>

text \<open>C19: Whatever the order in which threads push to and pop from an unblocking queue, wait, and wake up,
  the requests come out in the order in which they went in, none lost and none twice.\<close>

theorem background_queue_fifo:
  assumes "uq_run uq_start es s" and "length (pushed es) < 4294967295"
  shows "pushed es = popped es @ uq_queue (uq_q s) \<and> uq_QuerySize (uq_q s) = of_nat (length (pushed es) - length (popped es))"
proof -
  have r: "uq_inv (uq_q s)" "pushed es = popped es @ uq_queue (uq_q s)" using uq_run_fifo [OF assms] by blast+
  then have "length (uq_queue (uq_q s)) = length (pushed es) - length (popped es)" by simp
  then show ?thesis using r uqi.size [OF r(1)] by simp
qed

theorem background_queue_fifo_witness:
  "\<exists>s. uq_run uq_start [EPush 1 (7 :: nat)] s \<and> uq_queue (uq_q s) = [7]"
proof -
  obtain q where q: "uq_Push CreateUnblockingQueue (7 :: nat) = Inr q" by (auto simp: uq_Push_def)
  have "uq_step uq_start (EPush 1 7) \<lparr>uq_q = q, uq_pc = (\<lambda>_. UOut)\<rparr>"
    by (rule uq_step.intros(1)) (simp_all add: uq_start_def q signalled_none)
  then have r: "uq_run uq_start ([] @ [EPush 1 7]) \<lparr>uq_q = q, uq_pc = (\<lambda>_. UOut)\<rparr>" by (rule uq_run.uq_snoc [OF uq_run.uq_nil])
  then show ?thesis using background_queue_fifo [OF r] by (intro exI [of _ "\<lparr>uq_q = q, uq_pc = (\<lambda>_. UOut)\<rparr>"]) simp
qed

lemma bq_step_size: "bq_step s e s' \<Longrightarrow> bq_queueSize (bq_q s') = bq_queueSize (bq_q s)"
  by (erule bq_step.cases) (auto simp: bq_Shutdown_def dest: bq_Put_sizes bq_Take_sizes)

lemma sp_run_size: "sp_run p s0 es s \<Longrightarrow> bq_queueSize (bq_q s) = bq_queueSize (bq_q s0)"
  by (induction rule: sp_run.induct) (auto simp: fair_step_def dest: bq_step_size)

text \<open>C18: With a single pushing thread, as for host requests, whose waits for room never return without a signal, a blocking
  queue never holds more than its size, and the requests come out in the order in which they went in. Waits in \<open>pop\<close>
  may return as they like.\<close>

theorem host_queue_fifo:
  assumes "sp_run p (bq_start z n) es s" and "n \<noteq> 0"
  shows "pushed es = popped es @ ring_items (bq_q s) \<and> length (ring_items (bq_q s)) \<le> unat n"
proof -
  have r: "one_pusher p s" "pushed es = popped es @ ring_items (bq_q s)" using sp_run_fifo [OF assms] by blast+
  then have "ring_inv (bq_q s)" by (simp add: one_pusher_def)
  then have "length (ring_items (bq_q s)) \<le> bq_queueSize (bq_q s)" by (simp add: ring_inv_def)
  also have "\<dots> = unat n" using sp_run_size [OF assms(1)] by (simp add: bq_start_def CreateBlockingQueue_def)
  finally show ?thesis using r(2) by blast
qed

theorem host_queue_fifo_witness:
  "\<exists>s. sp_run 1 (bq_start 0 2) [EPush 1 (7 :: nat)] s \<and> ring_items (bq_q s) = [7]"
proof -
  obtain q where q: "bq_Put (CreateBlockingQueue (0 :: nat) 2) 7 = Inr q"
    using bqi.push [of "CreateBlockingQueue (0 :: nat) 2" 7] CreateBlockingQueue_inv [of 2 "0 :: nat"]
    by (auto simp: ring_room_def CreateBlockingQueue_def)
  let ?s = "\<lparr>bq_q = q, bq_pc = (\<lambda>_. BOut)\<rparr>"
  have "bq_step (bq_start 0 2) (EPush 1 7) ?s"
  proof (rule bq_step.intros(1))
    show "\<not> bq_IsFull (bq_q (bq_start 0 2))" by (simp add: bq_start_def bq_IsFull_def CreateBlockingQueue_def)
  qed (simp_all add: bq_start_def q signalled_none)
  then have "fair_step 1 (bq_start 0 2) (EPush 1 7) ?s" by (simp add: fair_step_def pushes_only_def)
  then have r: "sp_run 1 (bq_start 0 2) ([] @ [EPush 1 7]) ?s" by (rule sp_run.sp_snoc [OF sp_run.sp_nil])
  then show ?thesis using host_queue_fifo [OF r] by (intro exI [of _ ?s]) simp
qed

text \<open>With two pushing threads a blocking queue of one slot can overfill: \<open>Push\<close> waits in an \<open>if\<close>, so a
  thread woken up pushes although another was faster, one request is lost and another taken twice.\<close>

theorem two_pushers_overfill:
  assumes "a \<noteq> c" and "b \<noteq> c"
  shows "\<exists>es s. bq_run (bq_start z 1) es s \<and> pushed es = [a, c, b] \<and> popped es = [a, b, b] \<and> c \<notin> set (popped es)"
proof -
  obtain s where "bq_run (bq_start z 1) [EPush 1 a, EBlock 2, EPop 3 (Some a), EPush 1 c, EPush 2 b,
         EPop 3 (Some b), EPop 3 (Some b)] s" (is "bq_run _ ?es _")
    using bq_overfill [of z a c b] by blast
  moreover have "pushed ?es = [a, c, b]" "popped ?es = [a, b, b]" by simp_all
  ultimately show ?thesis using assms by (intro exI [of _ ?es] exI [of _ s]) auto
qed

theorem two_pushers_overfill_witness:
  "\<exists>es s. bq_run (bq_start (0 :: nat) 1) es s \<and> pushed es = [1, 3, 2] \<and> popped es = [1, 2, 2]"
  using two_pushers_overfill [of "1 :: nat" 3 2 0] by auto

text \<open>A shutdown can be lost: a thread that found the queue empty, but does not wait yet, misses the
  broadcast, and then sleeps as long as nobody pushes or shuts the queue down again and its wait returns for no other reason.\<close>

theorem shutdown_can_be_lost:
  "\<exists>s. uq_run (uq_start :: 'a uq_sys) [EBlock t, EShut, EBlock t] s \<and> uq_shutdown (uq_q s) \<and>
     (\<forall>es s'. uq_run s es s' \<and> pushed es = [] \<and> EShut \<notin> set es \<and> EWake t \<notin> set es \<longrightarrow> uq_pc s' t = UWaiting)"
  using uq_lost_shutdown [of t] uq_asleep by blast

theorem shutdown_can_be_lost_witness:
  "\<exists>s. uq_run (uq_start :: nat uq_sys) [EBlock 0, EShut, EBlock 0] s \<and> uq_shutdown (uq_q s)"
  using shutdown_can_be_lost [of 0] by blast

definition small_disk :: DiskOperator where
  "small_disk = CreateDiskOperator \<lparr>segmentCnt = 2048, requestQueueSize = 1, dc_hostConcurrency = 1, dc_backConcurrency = 1\<rparr>"

text \<open>Destroying a disk drops what its queues still hold: from the moment the queues are freed on, no
  thread of the disk carries out a request.\<close>

theorem destroyed_disk_stops:
  assumes "length (hostShutdown d) = unat (hostConcurrency d)"
  shows "\<exists>d'. DestroyDiskOperator d = Inr d' \<and> BackGCThread d' = Inr d' \<and> BackTierThread d' = Inr d' \<and>
    (\<forall>i < length (hostShutdown d). \<forall>t. HostIOThread i t d' = Inr d') \<and> disk_log d' = disk_log d"
  using DestroyDiskOperator_stops [OF assms] .

theorem destroyed_disk_stops_witness:
  "\<exists>d d'. HandleDiskIO small_disk \<lparr>dio_segmentId = 1, dio_offset = 0, dio_size = 1, dio_ioType = BACK_GC,
       dio_opType = DISK_WRITE, dio_timestamp = 0\<rparr> = Inr d \<and> DestroyDiskOperator d = Inr d' \<and>
     BackGCThread d' = Inr d' \<and> disk_log d' = []"
proof -
  let ?io = "\<lparr>dio_segmentId = 1, dio_offset = 0, dio_size = 1, dio_ioType = BACK_GC, dio_opType = DISK_WRITE, dio_timestamp = 0\<rparr>"
  obtain d where d: "HandleDiskIO small_disk ?io = Inr d" "hostShutdown d = [False]" "hostConcurrency d = 1" "disk_log d = []"
    by (simp add: HandleDiskIO_def uq_Push_def small_disk_def CreateDiskOperator_def)
  then show ?thesis using destroyed_disk_stops [of d] by auto
qed

subsection \<open>Places on the device\<close>

text \<open>The bytes of the device that the last request to it writes, and those that it reads.\<close>

fun bytes_written :: "disk_call \<Rightarrow> nat set" where
  "bytes_written (PWrite start n) = {unat start..<unat start + unat n}"
| "bytes_written (PRead start n) = {}"

fun bytes_read :: "disk_call \<Rightarrow> nat set" where
  "bytes_read (PRead start n) = {unat start..<unat start + unat n}"
| "bytes_read (PWrite start n) = {}"

abbreviation page_bytes :: "u32 \<Rightarrow> u32 \<Rightarrow> u32 \<Rightarrow> nat set" where
  "page_bytes seg off n \<equiv> {(unat seg * 512 + unat off) * 8192..<(unat seg * 512 + unat off + unat n) * 8192}"

lemma request_bytes:
  assumes "unat seg < 1024" and "unat off + unat n \<le> 512" and "n \<noteq> 0"
  shows "bytes_written (last (disk_log (Disk_Write d seg off n))) = page_bytes seg off n"
    and "bytes_read (last (disk_log (Disk_Read d seg off n))) = page_bytes seg off n"
proof -
  have "0 < unat n" using assms(3) by (simp add: unat_gt_0)
  then have n: "0 < unat n" "unat n \<le> 512" "unat off < 512" using assms(2) by linarith+
  have o: "unat ((ucast (ucast (segOffset seg off) :: u32)) :: u64) = unat seg * 4194304 + unat off * 8192"
    using request_offset [OF assms(1) n(3)] unat_segOffset [OF n(3), of seg] by metis
  have m: "unat ((ucast n :: u64) * PAGE_SIZE) = unat n * 8192" using n(2) by (simp add: unat_word_ariths unat_ucast_u32_u64)
  have "unat ((ucast n :: u64) * PAGE_SIZE + PAGE_SIZE - 1) = unat n * 8192 + 8191"
  proof -
    have "(ucast n :: u64) * PAGE_SIZE + PAGE_SIZE - 1 = of_nat (unat n * 8192 + 8191)" by (simp flip: unat_ucast_u32_u64)
    then show ?thesis using n(2) by (simp only: unat_of_nat) (simp add: take_bit_nat_eq_self)
  qed
  then have r: "unat (round_to_page ((ucast n :: u64) * PAGE_SIZE)) = unat n * 8192"
    using n(2) by (simp add: round_to_page_def unat_word_ariths unat_div)
  show "bytes_written (last (disk_log (Disk_Write d seg off n))) = page_bytes seg off n"
      "bytes_read (last (disk_log (Disk_Read d seg off n))) = page_bytes seg off n"
    by (simp_all add: Disk_Write_def Disk_Read_def SendWriteRequest_def SendReadRequest_def o r algebra_simps)
qed

lemma blocks_apart:
  fixes a b x y m :: nat
  assumes "x + m \<le> 512" and "a < b"
  shows "a * 512 + x + m \<le> b * 512 + y"
proof -
  have "(a + 1) * 512 \<le> b * 512" using assms(2) by (intro mult_le_mono1) simp
  then have "a * 512 + 512 \<le> b * 512" by (simp only: distrib_right mult_1)
  then show ?thesis using assms(1) by linarith
qed

lemma blocks_meet:
  fixes a b x y k m :: nat
  assumes "x + m \<le> 512" and "y + k \<le> 512"
  shows "a * 512 + x < b * 512 + y + k \<and> b * 512 + y < a * 512 + x + m \<longleftrightarrow> a = b \<and> x < y + k \<and> y < x + m"
proof
  assume l: "a * 512 + x < b * 512 + y + k \<and> b * 512 + y < a * 512 + x + m"
  have "\<not> a < b" using l blocks_apart [OF assms(1), of a b y] by linarith
  moreover have "\<not> b < a" using l blocks_apart [OF assms(2), of b a x] by linarith
  ultimately have "a = b" by simp
  then show "a = b \<and> x < y + k \<and> y < x + m" using l by simp
qed simp

text \<open>C32: On a device below 4 GiB every page has its own 8192 bytes: a write of \<open>n\<close> pages of a block fills the bytes of
  these pages and no other, so two writes touch the same byte just if they have a page in common, and a read gets the bytes
  that a write of the same pages fills. From 4 GiB on the 32-bit offset wraps around, and pages 1024 blocks apart overwrite
  each other.\<close>

theorem write_places:
  assumes "unat off + unat n \<le> 512" and "unat off' + unat n' \<le> 512" and "n \<noteq> 0" and "n' \<noteq> 0"
  shows "(unat seg < 1024 \<and> unat seg' < 1024 \<longrightarrow>
      card (bytes_written (last (disk_log (Disk_Write d seg off n)))) = unat n * 8192 \<and>
      bytes_written (last (disk_log (Disk_Write d seg off n))) \<subseteq> {..<2 ^ 32} \<and>
      (bytes_written (last (disk_log (Disk_Write d seg off n))) \<inter> bytes_written (last (disk_log (Disk_Write d seg' off' n'))) \<noteq> {} \<longleftrightarrow>
        seg = seg' \<and> {unat off..<unat off + unat n} \<inter> {unat off'..<unat off' + unat n'} \<noteq> {}) \<and>
      bytes_read (last (disk_log (Disk_Read d seg off n))) = bytes_written (last (disk_log (Disk_Write d seg off n)))) \<and>
    disk_log (Disk_Write d (seg + 1024) off n) = disk_log (Disk_Write d seg off n)"
proof -
  have meet: "{a..<b} \<inter> {c..<d :: nat} \<noteq> {} \<longleftrightarrow> a < d \<and> c < b" if "a < b" "c < d" for a b c d
    using that by (auto simp: set_eq_iff Bex_def intro: exI [of _ "max a c"])
  have pos: "0 < unat n" "0 < unat n'" using assms(3,4) by (auto simp: unat_gt_0)
  have "page_bytes seg off n \<inter> page_bytes seg' off' n' \<noteq> {} \<longleftrightarrow>
      seg = seg' \<and> {unat off..<unat off + unat n} \<inter> {unat off'..<unat off' + unat n'} \<noteq> {}"
  proof -
    have "page_bytes seg off n \<inter> page_bytes seg' off' n' \<noteq> {} \<longleftrightarrow>
        unat seg * 512 + unat off < unat seg' * 512 + unat off' + unat n' \<and> unat seg' * 512 + unat off' < unat seg * 512 + unat off + unat n"
      by (subst meet) (use pos in \<open>simp_all only: mult_less_cancel2, simp_all\<close>)
    also have "\<dots> \<longleftrightarrow> unat seg = unat seg' \<and> unat off < unat off' + unat n' \<and> unat off' < unat off + unat n"
      by (rule blocks_meet [OF assms(1,2)])
    also have "\<dots> \<longleftrightarrow> seg = seg' \<and> {unat off..<unat off + unat n} \<inter> {unat off'..<unat off' + unat n'} \<noteq> {}"
      by (subst meet) (use pos in \<open>auto simp: word_unat_eq_iff\<close>)
    finally show ?thesis .
  qed
  moreover have "page_bytes seg off n \<subseteq> {..<2 ^ 32}" if "unat seg < 1024" using that assms(1) by auto
  moreover have "card (page_bytes seg off n) = unat n * 8192" by (simp add: algebra_simps)
  ultimately show ?thesis using request_bytes [OF _ assms(1,3)] request_bytes [OF _ assms(2,4)] Disk_Write_collides by auto
qed

theorem write_places_witness:
  "disk_log (Disk_Write small_disk 1025 3 1) = disk_log (Disk_Write small_disk 1 3 1) \<and>
   bytes_written (last (disk_log (Disk_Write small_disk 1 3 1))) \<inter> bytes_written (last (disk_log (Disk_Write small_disk 1 4 2))) = {}"
  using write_places [of 3 1 4 2 1 1 small_disk] by simp

subsection \<open>Statistics\<close>

text \<open>A latency is counted in the first bucket whose limit exceeds it (the last bucket takes the rest),
  and in no other; the buckets always add up to the number of values.\<close>

theorem latency_bucket:
  assumes "hist_inv h"
  shows "\<exists>b < 162. h_buckets (Hist_Add h v) = (h_buckets h)[b := h_buckets h ! b + 1] \<and>
    (\<forall>i < b. kBucketLimit ! i \<le> v) \<and> (b < 161 \<longrightarrow> v < kBucketLimit ! b) \<and>
    sum_list (h_buckets (Hist_Add h v)) = h_num h + 1"
proof -
  let ?b = "find_bucket kBucketLimit v 0"
  have "kBucketLimit \<noteq> []" using length_limits by auto
  then have b: "?b < 162" "\<forall>i < ?b. kBucketLimit ! i \<le> v" "?b < 161 \<longrightarrow> v < kBucketLimit ! ?b"
    using find_bucket_spec [of kBucketLimit 0 v] length_limits by simp_all
  have "sum_list (h_buckets (Hist_Add h v)) = h_num h + 1"
    using Hist_Add_inv [OF assms, of v] by (simp add: hist_inv_def Hist_Add_def Let_def)
  then show ?thesis using b by (intro exI [of _ ?b]) (simp add: Hist_Add_def Let_def)
qed

theorem latency_bucket_witness:
  "\<exists>b < 162. h_buckets (Hist_Add CreateHistogram 13) = (h_buckets CreateHistogram)[b := h_buckets CreateHistogram ! b + 1]"
  using latency_bucket [OF CreateHistogram_inv, of 13] by blast

text \<open>The smallest latency is always reported as 0: the last of the 162 bucket limits, which is to be
  the initial minimum, is one of those the initialiser leaves out.\<close>

theorem minimum_is_zero:
  "reported_min (fold (\<lambda>v h. Hist_Add h v) vs (Hist_Clear h)) = 0"
  using min_after_clear [of vs h] by (simp add: reported_min_def)

text \<open>C33: While no counter needs more than seven digits, the line of \<open>Report\<close> is complete, and its ten fields,
  read back, are the counters in this order; of \<open>tierDownWriteCount\<close>, which is 64 bits wide and
  printed with \<open>%u\<close>, the low 32 bits.\<close>

theorem report_round_trip:
  assumes "\<forall>n \<in> {unat (hostReadCount st), unat (hostWriteCount st), unat (gcCount st), unat (gcWriteCount st), unat (tierDownCount st),
      unat (tierDownWriteCount st) mod 2 ^ 32, unat (gcSlowCount st), unat (tierSlowCount st), unat (gcStallCount st), unat (tierStallCount st)}. n < 10 ^ 7"
  shows "map undecimal (split_commas (Stat_Report st)) =
    [unat (hostReadCount st), unat (hostWriteCount st), unat (gcCount st), unat (gcWriteCount st), unat (tierDownCount st),
     unat (tierDownWriteCount st) mod 2 ^ 32, unat (gcSlowCount st), unat (tierSlowCount st), unat (gcStallCount st), unat (tierStallCount st)]"
proof -
  have f: "report_fields st = [unat (hostReadCount st), unat (hostWriteCount st), unat (gcCount st), unat (gcWriteCount st), unat (tierDownCount st),
     unat (tierDownWriteCount st) mod 2 ^ 32, unat (gcSlowCount st), unat (tierSlowCount st), unat (gcStallCount st), unat (tierStallCount st)]"
    by (simp only: report_fields_def)
  have small: "n < 10 ^ 7" if "n \<in> set (report_fields st)" for n using assms that unfolding f by auto
  have "map undecimal (split_commas (Stat_Report st)) = report_fields st" by (rule Stat_Report_read_back) (rule small)
  then show ?thesis unfolding f .
qed

theorem report_round_trip_witness:
  "map undecimal (split_commas (Stat_Report (CreateStatModule\<lparr>gcCount := 42, gcSlowCount := 7\<rparr>))) = [0, 0, 42, 0, 0, 0, 7, 0, 0, 0]"
  using report_round_trip [of "CreateStatModule\<lparr>gcCount := 42, gcSlowCount := 7\<rparr>"] by (simp add: CreateStatModule_def)

end
