(* ===== verification/GC_Room.thy ===== *)
theory GC_Room
  imports GC_Refine
begin

text \<open>
  How many pages can still be written, and why a collection gains some. A host write takes one
  page, a deletion none; a collection never loses any (\<open>all_room\<close>). As long as the live pages leave
  garbage enough, some full block has ten invalid pages, so that it is above the lowest level: the
  first block collected is then one of these, and the collection gains at least ten pages.
\<close>

subsection \<open>Pages left\<close>

definition open_room :: "GCModule \<Rightarrow> nat option \<Rightarrow> nat" where
  "open_room gc x = (case x of None \<Rightarrow> 0 | Some a \<Rightarrow> PAGE_NUM_PER_BLOCK - unat (pageCursor (get_block gc a)))"

definition all_room :: "GCModule \<Rightarrow> nat" where
  "all_room gc = open_room gc (hostBlock gc) + open_room gc (gcBlock gc) + PAGE_NUM_PER_BLOCK * length (freeQ gc)"

lemma room_parts:
  "host_room gc = open_room gc (hostBlock gc) + PAGE_NUM_PER_BLOCK * length (freeQ gc)"
  "capacity gc = open_room gc (gcBlock gc) + PAGE_NUM_PER_BLOCK * length (freeQ gc)"
  by (simp_all add: host_room_def capacity_def open_room_def)

lemma all_room_parts:
  "all_room gc = host_room gc + open_room gc (gcBlock gc)" "all_room gc = open_room gc (hostBlock gc) + capacity gc"
  by (simp_all add: all_room_def room_parts)

lemma open_room_le: "open_room gc x \<le> PAGE_NUM_PER_BLOCK"
  by (simp add: open_room_def split: option.split)

lemma same_cursor_room: "same_cursor x gc gc' \<Longrightarrow> open_room gc' x = open_room gc x"
  by (cases x) (simp_all add: open_room_def)

lemma all_room_bound: "all_room gc \<le> PAGE_NUM_PER_BLOCK * (length (freeQ gc) + 2)"
  using open_room_le [of gc "hostBlock gc"] open_room_le [of gc "gcBlock gc"] by (simp add: all_room_def)

lemma all_room_le: "PAGE_NUM_PER_BLOCK * length (freeQ gc) \<le> all_room gc"
  by (simp add: all_room_def)

subsection \<open>Deletion leaves the room alone\<close>

lemma set_block_cursor:
  "pageCursor b = pageCursor (get_block gc a) \<Longrightarrow> pageCursor (get_block (set_block a b gc) x) = pageCursor (get_block gc x)"
  by (cases "a < length (blocks gc)"; cases "x = a") (simp_all add: get_block_def set_block_def list_update_beyond)

lemma cursor_fields [simp]:
  "get_block (gc\<lparr>spaceIndexer := si\<rparr>) x = get_block gc x" "get_block (gc\<lparr>garbageBuckets := gb\<rparr>) x = get_block gc x"
  "get_block (unlink_block a gc) x = get_block gc x"
  by (simp_all add: get_block_def unlink_block_def)

lemma MarkPageInvalid_cursor:
  assumes "MarkPageInvalid gc lba loc = Inr (a, gc')"
  shows "pageCursor (get_block gc' x) = pageCursor (get_block gc x)"
proof -
  obtain ps si where "gc' = set_block a
      ((get_block ((set_block a ((get_block gc a)\<lparr>pages := ps\<rparr>) gc)\<lparr>spaceIndexer := si\<rparr>) a)
        \<lparr>garbageCnt := garbageCnt (get_block ((set_block a ((get_block gc a)\<lparr>pages := ps\<rparr>) gc)\<lparr>spaceIndexer := si\<rparr>) a) + 1\<rparr>)
      ((set_block a ((get_block gc a)\<lparr>pages := ps\<rparr>) gc)\<lparr>spaceIndexer := si\<rparr>)"
    using assms unfolding MarkPageInvalid_def Let_def by (force simp: fault_iff split: option.split_asm)
  then show ?thesis by (simp add: set_block_cursor)
qed

lemma AdjustGarbageBuckets_cursor:
  "AdjustGarbageBuckets gc b = Inr gc' \<Longrightarrow> pageCursor (get_block gc' x) = pageCursor (get_block gc x)"
  by (auto simp: AdjustGarbageBuckets_def fault_iff Let_def set_block_cursor split: option.split_asm if_split_asm)

lemma GC_Delete_cursor:
  "GC_Delete gc lba len = Inr (loc, gc') \<Longrightarrow> pageCursor (get_block gc' x) = pageCursor (get_block gc x)"
  using MarkPageInvalid_cursor AdjustGarbageBuckets_cursor
  by (auto simp: GC_Delete_def fault_iff Let_def split: option.split_asm)

lemma GC_Delete_room:
  assumes "gc_inv gc" and "GC_Delete gc lba len = Inr (loc, gc')"
  shows "all_room gc' = all_room gc" and "host_room gc' = host_room gc"
proof -
  obtain a p where r: "space_abs gc (page_align lba) = Some (a, p)"
    using assms(2) GC_Delete_missing [OF assms(1), of lba len] by (cases "space_abs gc (page_align lba)") auto
  have "freeQ gc' = freeQ gc" "hostBlock gc' = hostBlock gc" "gcBlock gc' = gcBlock gc"
    using GC_Delete_spec [OF assms(1) r, of len] assms(2) by auto
  then show "all_room gc' = all_room gc" "host_room gc' = host_room gc"
    using GC_Delete_cursor [OF assms(2)] by (simp_all add: all_room_def room_parts open_room_def split: option.split)
qed

subsection \<open>A host write takes one page\<close>

lemma GC_WriteIO_room:
  assumes "gc_inv gc" and "GC_WriteIO gc lba len = Inr (loc, gc')"
  shows "all_room gc = Suc (all_room gc')"
proof -
  have "hostBlock gc \<noteq> None \<or> freeQ gc \<noteq> []" using assms GC_WriteIO_no_space [OF assms(1)] by auto
  then obtain gc1 where "GC_WriteIO gc lba len = Inr (loc, gc1)" "gcBlock gc1 = gcBlock gc"
      "host_room gc = Suc (host_room gc1)" "same_cursor (gcBlock gc) gc gc1"
    using GC_WriteIO_spec [OF assms(1), of lba len] assms(2) by auto
  then show ?thesis using assms(2) same_cursor_room [of "gcBlock gc" gc gc'] by (simp add: all_room_parts(1))
qed

subsection \<open>A collection gains pages\<close>

lemma gc_prog_room:
  assumes "gc_prog n vs (gc, out) (gc', out')"
  shows "all_room gc + dropped gc vs \<le> all_room gc'"
proof -
  obtain ms :: "(PageLoc \<times> PageLoc) list" where "capacity gc' + length ms = capacity gc + PAGE_NUM_PER_BLOCK * length vs"
      "length ms + dropped gc vs \<le> PAGE_NUM_PER_BLOCK * length vs"
    using assms unfolding gc_prog_def fst_conv by blast
  then have "capacity gc + dropped gc vs \<le> capacity gc'" by linarith
  moreover have "open_room gc' (hostBlock gc') = open_room gc (hostBlock gc)"
    using assms same_cursor_room [of "hostBlock gc" gc gc'] by (simp add: gc_prog_def)
  ultimately show ?thesis by (simp add: all_room_parts(2))
qed

text \<open>The live pages of the full blocks are mapped, each from an address of its own.\<close>

lemma live_in_full:
  assumes "gc_inv gc"
  shows "(\<Sum>a \<in> full_blocks gc. PAGE_NUM_PER_BLOCK - unat (garbageCnt (get_block gc a))) \<le> card (dom (space_abs gc))"
proof -
  have st: "gc_struct gc" and sr: "space_rel gc {}" using assms by (simp_all add: gc_inv_def)
  let ?V = "\<lambda>a. {p. p < PAGE_NUM_PER_BLOCK \<and> pi_status (pages (get_block gc a) ! p) = VALID}"
  have c: "PAGE_NUM_PER_BLOCK - unat (garbageCnt (get_block gc a)) \<le> card (?V a)" if "a \<in> full_blocks gc" for a
  proof -
    have a: "a < nblocks gc" "blk_status (get_block gc a) = FULL" using that by (simp_all add: full_blocks_def)
    have b: "block_ok a (get_block gc a)" using st a(1) by (simp add: gc_struct_defs)
    obtain i where "i < GC_BUCKET_NUM" "a \<in> set (bucket gc i)" using full_bucket [OF st a] by blast
    then have cur: "unat (pageCursor (get_block gc a)) = PAGE_NUM_PER_BLOCK"
      using status_bucket [OF st] by (simp add: full_in_def)
    let ?ps = "pages (get_block gc a)"
    have l: "length ?ps = PAGE_NUM_PER_BLOCK" and g: "unat (garbageCnt (get_block gc a)) = invalid_count ?ps"
      using b by (simp_all add: block_ok_def)
    have w: "pi_status (?ps ! p) \<noteq> WRITEABLE" if "p < PAGE_NUM_PER_BLOCK" for p
      using b cur that by (simp add: block_ok_def)
    have "?V a \<union> {p. p < length ?ps \<and> pi_status (?ps ! p) = INVALID} = {..<PAGE_NUM_PER_BLOCK}"
      using w l by (auto, metis PAGE_STATUS_E.exhaust)
    moreover have "card (?V a \<union> {p. p < length ?ps \<and> pi_status (?ps ! p) = INVALID}) \<le> card (?V a) + invalid_count ?ps"
      unfolding invalid_count_def length_filter_conv_card by (rule card_Un_le)
    ultimately show ?thesis using g by simp
  qed
  have fin: "finite (full_blocks gc)" by (simp add: full_blocks_def)
  let ?S = "SIGMA a : full_blocks gc. ?V a"
  have "(\<Sum>a \<in> full_blocks gc. PAGE_NUM_PER_BLOCK - unat (garbageCnt (get_block gc a))) \<le> (\<Sum>a \<in> full_blocks gc. card (?V a))"
    using c by (rule sum_mono)
  also have "\<dots> = card ?S" using fin by (subst card_SigmaI) simp_all
  also have "\<dots> \<le> card (dom (space_abs gc))"
  proof (rule card_inj_on_le [where f = "\<lambda>(a, p). pi_lba (pages (get_block gc a) ! p)"])
    have m: "space_abs gc (pi_lba (pages (get_block gc a) ! p)) = Some (a, p)" if "(a, p) \<in> ?S" for a p
      using that by (intro space_rel_functional [OF sr]) (auto simp: valid_at_def full_blocks_def)
    show "inj_on (\<lambda>(a, p). pi_lba (pages (get_block gc a) ! p)) ?S"
    proof (rule inj_onI)
      fix x y assume xy: "x \<in> ?S" "y \<in> ?S"
        and e: "(\<lambda>(a, p). pi_lba (pages (get_block gc a) ! p)) x = (\<lambda>(a, p). pi_lba (pages (get_block gc a) ! p)) y"
      obtain a p b q where ab: "x = (a, p)" "y = (b, q)" by (cases x; cases y)
      have "Some (a, p) = Some (b, q)"
        using m [of a p] m [of b q] xy e unfolding ab prod.case by (simp only:)
      then show "x = y" by (simp add: ab)
    qed
    show "(\<lambda>(a, p). pi_lba (pages (get_block gc a) ! p)) ` ?S \<subseteq> dom (space_abs gc)" using m by auto
    show "finite (dom (space_abs gc))" by (rule GetLogicalSizeOccupied_eq(2) [OF assms])
  qed
  finally show ?thesis .
qed

lemma some_garbage:
  assumes "gc_inv gc" and "card (dom (space_abs gc)) < 503 * card (full_blocks gc)"
  shows "\<exists>a \<in> full_blocks gc. 10 \<le> unat (garbageCnt (get_block gc a))"
proof (rule ccontr)
  assume "\<not> ?thesis"
  then have "503 \<le> PAGE_NUM_PER_BLOCK - unat (garbageCnt (get_block gc a))" if "a \<in> full_blocks gc" for a
    using that by fastforce
  then have "(\<Sum>a \<in> full_blocks gc. 503) \<le> (\<Sum>a \<in> full_blocks gc. PAGE_NUM_PER_BLOCK - unat (garbageCnt (get_block gc a)))"
    by (rule sum_mono)
  then show False using live_in_full [OF assms(1)] assms(2) by (simp add: mult.commute)
qed

lemma level_garbage: "GetCurBucketIdx c \<noteq> 0 \<longleftrightarrow> 10 \<le> unat c"
proof -
  have "unat (c div 10) = unat c div 10" by (simp add: unat_div)
  then have "c div 10 \<noteq> 0 \<longleftrightarrow> 10 \<le> unat c" by (simp add: word_unat_eq_iff div_eq_0_iff not_less)
  then show ?thesis by (auto simp: GetCurBucketIdx_def Let_def)
qed

text \<open>The first block collected has ten invalid pages when any full block has.\<close>

lemma first_garbage:
  assumes "gc_inv gc" and "top_first (GC_BUCKET_NUM - 1) vs gc" and "a \<in> full_blocks gc" and "10 \<le> unat (garbageCnt (get_block gc a))"
  shows "10 \<le> dropped gc vs"
proof -
  have st: "gc_struct gc" and lv: "levels_ok {} gc" using assms(1) by (simp_all add: gc_inv_def)
  have lev: "\<exists>i < GC_BUCKET_NUM. x \<in> set (bucket gc i) \<and> GetCurBucketIdx (garbageCnt (get_block gc x)) = of_nat i"
    if "x \<in> full_blocks gc" for x
  proof -
    have x: "x < nblocks gc" "blk_status (get_block gc x) = FULL" using that by (simp_all add: full_blocks_def)
    then have "GetCurBucketIdx (garbageCnt (get_block gc x)) = garbageWL (get_block gc x)"
      using lv by (auto simp: levels_ok_def level_ok_def)
    then show ?thesis using full_bucket [OF st x] by auto
  qed
  obtain i where i: "i < GC_BUCKET_NUM" "a \<in> set (bucket gc i)" "GetCurBucketIdx (garbageCnt (get_block gc a)) = of_nat i"
    using lev [OF assms(3)] by blast
  have "i \<noteq> 0"
  proof
    assume "i = 0"
    then show False using i(3) level_garbage [of "garbageCnt (get_block gc a)"] assms(4) by simp
  qed
  obtain j v t u where j: "j \<le> GC_BUCKET_NUM - 1" "vs = v # t" "bucket gc j = v # u"
      "\<forall>k. j < k \<and> k \<le> GC_BUCKET_NUM - 1 \<longrightarrow> bucket gc k = []"
    using assms(2) unfolding top_first_def by blast
  have "i \<le> j"
  proof (rule ccontr)
    assume "\<not> i \<le> j"
    then have "bucket gc i = []" using j(4) i(1) by auto
    then show False using i(2) by simp
  qed
  then have j0: "j \<noteq> 0" using \<open>i \<noteq> 0\<close> by simp
  have jl: "j < GC_BUCKET_NUM" using j(1) by simp
  have vm: "v \<in> set (bucket gc j)" using j(3) by simp
  have "v \<in> full_blocks gc"
    using status_bucket [OF st jl vm] bucket_facts(3) [OF st jl vm] by (simp add: full_blocks_def full_in_def)
  then obtain k where k: "k < GC_BUCKET_NUM" "v \<in> set (bucket gc k)" "GetCurBucketIdx (garbageCnt (get_block gc v)) = of_nat k"
    using lev by blast
  have "k = j" using bucket_facts(8) [OF st jl vm k(1,2)] .
  then have "GetCurBucketIdx (garbageCnt (get_block gc v)) \<noteq> 0"
    using k(3) j0 jl of_nat_u32_inject [of j 0] by auto
  then show ?thesis using level_garbage j(2) by simp
qed

lemma collection_gains:
  assumes "ready n (gc, out)" and "unat n \<le> card (full_blocks gc)" and "n \<noteq> 0"
    and "card (dom (space_abs gc)) < 503 * card (full_blocks gc)"
    and "GarbageCollection gc n out = Inr (gc', out')"
  shows "all_room gc + 10 \<le> all_room gc'"
proof -
  have g: "gc_inv gc" using assms(1) by (simp add: ready_def)
  obtain vs where vs: "gc_prog (unat n) vs (gc, out) (gc', out')" "top_first (GC_BUCKET_NUM - 1) vs gc"
    using GarbageCollection_spec [OF assms(1,2)] assms(3,5) by auto
  obtain a where "a \<in> full_blocks gc" "10 \<le> unat (garbageCnt (get_block gc a))" using some_garbage [OF g assms(4)] by blast
  then show ?thesis using first_garbage [OF g vs(2)] gc_prog_room [OF vs(1)] by fastforce
qed

end
