(* ===== verification/Layer_Module.thy ===== *)
theory Layer_Module
  imports GC_Room Tier_Policy Disk_Operator Stat_Module
begin

text \<open>
  One tier put together: src/src/base/layer_module.c and layer_module.h. A tier joins its
  translation layer, access statistics, counters and (optionally) disk. Its operations look at
  tier 0 through \<open>storSys\<close>, so they work on the state of all tiers.

  The threads of the disks run between the steps of the thread that calls a tier. What they do is
  the \<open>future\<close> of the state: a list of batches, each with the time \<open>GetCurrentTimeStamp\<close> shows
  from then on and the rounds that run. One batch runs before every look at a queue and during
  every \<open>MicroSleep\<close>; when none is left the threads of the disks do nothing, and a loop that
  waits for them is the fault \<open>Diverged\<close>. Logging is left out, and so are the results that are
  only compared with \<open>RETURN_OK\<close> in an \<open>ASSERT\<close>.
\<close>

record LayerModule =
  layerIdx :: u32
  gcModule :: GCModule
  gcWL :: u32
  gcBlockCnt :: u32
  gcStallWL :: u32
  tierModule :: TierModule
  tierDownWL :: u32
  tierDownBlockCnt :: u32
  tierDownStallWL :: u32
  statModule :: StatModule
  diskOp :: "DiskOperator option"

text \<open>A round of a thread: of the host thread \<open>i\<close> of tier \<open>l\<close>, or of a background thread of tier \<open>l\<close>.\<close>

datatype round = RunHost nat nat | RunGC nat | RunTier nat

record System =
  tiers :: "LayerModule list"
  g_IOPS :: u32
  now :: u64
  future :: "(u64 \<times> round list) list"

definition tier_at :: "System \<Rightarrow> nat \<Rightarrow> LayerModule" where
  "tier_at s l = tiers s ! l"

definition set_tier :: "nat \<Rightarrow> LayerModule \<Rightarrow> System \<Rightarrow> System" where
  "set_tier l t s = s\<lparr>tiers := (tiers s)[l := t]\<rparr>"

definition set_disk :: "nat \<Rightarrow> DiskOperator \<Rightarrow> System \<Rightarrow> System" where
  "set_disk l d s = set_tier l ((tier_at s l)\<lparr>diskOp := Some d\<rparr>) s"

definition set_stat :: "nat \<Rightarrow> (StatModule \<Rightarrow> StatModule) \<Rightarrow> System \<Rightarrow> System" where
  "set_stat l f s = set_tier l ((tier_at s l)\<lparr>statModule := f (statModule (tier_at s l))\<rparr>) s"

subsection \<open>The threads of the disks\<close>

text \<open>A round changes something only if the tier has a disk and the disk has the thread.\<close>

definition disk_round :: "nat \<Rightarrow> (DiskOperator \<Rightarrow> bool) \<Rightarrow> (DiskOperator \<Rightarrow> fault + DiskOperator) \<Rightarrow> System \<Rightarrow> fault + System" where
  "disk_round l exists run s =
     (if l < length (tiers s)
      then case diskOp (tier_at s l) of None \<Rightarrow> Inr s
        | Some d \<Rightarrow> if exists d then bindE (run d) (\<lambda>d'. Inr (set_disk l d' s)) else Inr s
      else Inr s)"

fun run_round :: "round \<Rightarrow> System \<Rightarrow> fault + System" where
  "run_round (RunHost l i) s = disk_round l (\<lambda>d. i < length (hostShutdown d)) (HostIOThread i (now s)) s"
| "run_round (RunGC l) s = disk_round l (\<lambda>d. backConcurrency d \<noteq> 0) BackGCThread s"
| "run_round (RunTier l) s = disk_round l (\<lambda>d. backConcurrency d \<noteq> 0) BackTierThread s"

fun run_rounds :: "round list \<Rightarrow> System \<Rightarrow> fault + System" where
  "run_rounds [] s = Inr s"
| "run_rounds (r # rs) s = bindE (run_round r s) (run_rounds rs)"

text \<open>\<open>MicroSleep(100)\<close>, and the time that passes before a look at a queue.\<close>

definition breathe :: "System \<Rightarrow> fault + System" where
  "breathe s = (case future s of [] \<Rightarrow> Inr s
     | (t, rs) # fut \<Rightarrow> run_rounds rs (s\<lparr>now := t, future := fut\<rparr>))"

definition look :: "(System \<Rightarrow> fault + bool) \<Rightarrow> System \<Rightarrow> fault + bool \<times> System" where
  "look c s = bindE (breathe s) (\<lambda>s1. bindE (c s1) (\<lambda>b. Inr (b, s1)))"

text \<open>
  \<open>while (c) MicroSleep(100)\<close> over the batches to come; the result tells whether the loop was
  entered.
\<close>

fun wait_on :: "(System \<Rightarrow> fault + bool) \<Rightarrow> (u64 \<times> round list) list \<Rightarrow> System \<Rightarrow> fault + bool \<times> System" where
  "wait_on c [] s = bindE (c s) (\<lambda>b. if b then Inl Diverged else Inr (False, s))"
| "wait_on c ((t, rs) # fut) s =
     bindE (run_rounds rs (s\<lparr>now := t, future := fut\<rparr>)) (\<lambda>s1.
     bindE (c s1) (\<lambda>b.
     if b then bindE (wait_on c fut s1) (\<lambda>(_, s2). Inr (True, s2)) else Inr (False, s1)))"

definition wait_while :: "(System \<Rightarrow> fault + bool) \<Rightarrow> System \<Rightarrow> fault + bool \<times> System" where
  "wait_while c s = wait_on c (future s) s"

subsection \<open>Requests to the disk\<close>

text \<open>
  \<open>HandleDiskIO\<close> on the disk of tier \<open>l\<close>, if it has one: \<open>g_IOPS++\<close>; a host request waits until
  the host queue has room (its caller is the only thread that pushes host requests to this disk).
\<close>

definition host_full :: "nat \<Rightarrow> System \<Rightarrow> fault + bool" where
  "host_full l s = (case diskOp (tier_at s l) of None \<Rightarrow> Inl NullDeref | Some d \<Rightarrow> Inr (bq_IsFull (hostQ d)))"

definition submit :: "nat \<Rightarrow> DiskIOInfo \<Rightarrow> System \<Rightarrow> fault + System" where
  "submit l io s =
     (case diskOp (tier_at s l) of None \<Rightarrow> Inr s | Some _ \<Rightarrow>
      let s1 = s\<lparr>g_IOPS := g_IOPS s + 1\<rparr> in
      bindE (if dio_ioType io = HOST then wait_while (host_full l) s1 else Inr (False, s1)) (\<lambda>(_, s2).
      case diskOp (tier_at s2 l) of None \<Rightarrow> Inl NullDeref
      | Some d \<Rightarrow> bindE (HandleDiskIO d io) (\<lambda>d'. Inr (set_disk l d' s2))))"

fun submit_all :: "nat \<Rightarrow> DiskIOInfo list \<Rightarrow> System \<Rightarrow> fault + System" where
  "submit_all l [] s = Inr s"
| "submit_all l (io # ios) s = bindE (submit l io s) (submit_all l ios)"

definition read_io :: "PageLoc \<Rightarrow> u32 \<Rightarrow> DiskIOType \<Rightarrow> u64 \<Rightarrow> DiskIOInfo" where
  "read_io p n ty ts = \<lparr>dio_segmentId = pl_block p, dio_offset = pl_page p, dio_size = n, dio_ioType = ty,
     dio_opType = DISK_READ, dio_timestamp = ts\<rparr>"

definition write_io :: "PageLoc \<Rightarrow> u32 \<Rightarrow> DiskIOType \<Rightarrow> u64 \<Rightarrow> DiskIOInfo" where
  "write_io p n ty ts = \<lparr>dio_segmentId = pl_block p, dio_offset = pl_page p, dio_size = n, dio_ioType = ty,
     dio_opType = DISK_WRITE, dio_timestamp = ts\<rparr>"

definition DiskRead :: "nat \<Rightarrow> PageLoc \<Rightarrow> u32 \<Rightarrow> DiskIOType \<Rightarrow> u64 \<Rightarrow> System \<Rightarrow> fault + System" where
  "DiskRead l p n ty ts = submit l (read_io p n ty ts)"

definition DiskWrite :: "nat \<Rightarrow> PageLoc \<Rightarrow> u32 \<Rightarrow> DiskIOType \<Rightarrow> u64 \<Rightarrow> System \<Rightarrow> fault + System" where
  "DiskWrite l p n ty ts = submit l (write_io p n ty ts)"

definition DiskErase :: "nat \<Rightarrow> u32 \<Rightarrow> System \<Rightarrow> fault + System" where
  "DiskErase l blockId = submit l \<lparr>dio_segmentId = blockId, dio_offset = 0, dio_size = 0, dio_ioType = BACK_GC,
     dio_opType = DISK_ERASE, dio_timestamp = 0\<rparr>"

text \<open>
  The requests of a collection, in order: every page is read; writes that follow each other in one
  block make one request from the first of them (\<open>loc\<close>, \<open>n\<close>: the run so far).
\<close>

fun gc_requests :: "PageLoc \<Rightarrow> u32 \<Rightarrow> (PageLoc \<times> PageLoc) list \<Rightarrow> DiskIOInfo list" where
  "gc_requests loc n [] = [write_io loc n BACK_GC 0]"
| "gc_requests loc n ((r, w) # ms) = read_io r 1 BACK_GC 0 #
     (if pl_block loc \<noteq> pl_block w then write_io loc n BACK_GC 0 # gc_requests w 1 ms
      else gc_requests loc (n + 1) ms)"

fun tier_requests :: "PageLoc \<Rightarrow> u32 \<Rightarrow> PageLoc list \<Rightarrow> DiskIOInfo list" where
  "tier_requests loc n [] = [write_io loc n BACK_TIER 0]"
| "tier_requests loc n (w # ws) =
     (if pl_block loc \<noteq> pl_block w then write_io loc n BACK_TIER 0 # tier_requests w 1 ws
      else tier_requests loc (n + 1) ws)"

subsection \<open>The conditions\<close>

definition GCCondition :: "LayerModule \<Rightarrow> bool" where
  "GCCondition t =
     (case diskOp t of Some d \<Rightarrow> GetFreeBlockNum (gcModule t) < gcWL t \<and> QueryGCQueueSize d = 0
      | None \<Rightarrow> GetFreeBlockNum (gcModule t) < gcWL t)"

definition GCStallCondition :: "LayerModule \<Rightarrow> bool" where
  "GCStallCondition t =
     (case diskOp t of None \<Rightarrow> False
      | Some d \<Rightarrow> GetFreeBlockNum (gcModule t) \<le> gcStallWL t \<and> QueryGCQueueSize d \<noteq> 0)"

definition GCSlowCondition :: "LayerModule \<Rightarrow> bool" where
  "GCSlowCondition t =
     (case diskOp t of None \<Rightarrow> False
      | Some d \<Rightarrow> GetFreeBlockNum (gcModule t) < gcWL t \<or> QueryGCQueueSize d \<noteq> 0)"

text \<open>Both \<open>t0\<close> and \<open>t1\<close> of the source are \<open>storSys->data.tiers[0]\<close>.\<close>

definition TierDownCondition :: "nat \<Rightarrow> System \<Rightarrow> bool" where
  "TierDownCondition l s =
     (let t0 = tier_at s 0; t1 = tier_at s 0 in
      case diskOp t0 of
        Some d0 \<Rightarrow> GetLogicalSizeOccupied (gcModule t0) \<ge> tierDownWL (tier_at s l) \<and> QueryTierQueueSize d0 = 0 \<and>
          (case diskOp t1 of Some d1 \<Rightarrow> QueryTierQueueSize d1 = 0 | None \<Rightarrow> True)
      | None \<Rightarrow> GetLogicalSizeOccupied (gcModule t0) \<ge> tierDownWL (tier_at s l))"

definition TierDownSlowStallCondition :: "nat \<Rightarrow> (LayerModule \<Rightarrow> u32) \<Rightarrow> System \<Rightarrow> fault + bool" where
  "TierDownSlowStallCondition l waterLevel s =
     (case diskOp (tier_at s l) of None \<Rightarrow> Inr False | Some _ \<Rightarrow>
      let t0 = tier_at s 0; t1 = tier_at s 0 in
      if \<not> GetLogicalSizeOccupied (gcModule t0) \<ge> waterLevel (tier_at s l) then Inr False else
      case diskOp t0 of None \<Rightarrow> Inl NullDeref | Some d0 \<Rightarrow>
      if QueryTierQueueSize d0 \<noteq> 0 then Inr True else
      case diskOp t1 of None \<Rightarrow> Inl NullDeref | Some d1 \<Rightarrow> Inr (QueryTierQueueSize d1 \<noteq> 0))"

definition TierDownStallCondition :: "nat \<Rightarrow> System \<Rightarrow> fault + bool" where
  "TierDownStallCondition l = TierDownSlowStallCondition l tierDownStallWL"

definition TierDownSlowCondition :: "nat \<Rightarrow> System \<Rightarrow> fault + bool" where
  "TierDownSlowCondition l = TierDownSlowStallCondition l tierDownWL"

subsection \<open>Garbage collection and tiering down\<close>

definition host_busy :: "nat \<Rightarrow> System \<Rightarrow> fault + bool" where
  "host_busy l s = (case diskOp (tier_at s l) of None \<Rightarrow> Inl NullDeref | Some d \<Rightarrow> Inr (QueryHostQueueSize d \<noteq> 0))"

definition gc_arrays :: "nat \<Rightarrow> GCOut" where
  "gc_arrays n = \<lparr>eraseBlockId = replicate n 0, gcWriteCnt = 0,
     readPageLoc = replicate (n * PAGE_NUM_PER_BLOCK) \<lparr>pl_block = 0, pl_page = 0\<rparr>,
     writePageLoc = replicate (n * PAGE_NUM_PER_BLOCK) \<lparr>pl_block = 0, pl_page = 0\<rparr>\<rparr>"

text \<open>
  The arrays have \<open>gcBlockCnt\<close> entries per block where \<open>gcBlockCnt\<close> is the local variable, \<open>cnt\<close>
  here; \<open>memset(eraseBlockId, 0, ...)\<close> clears as many as the field says.
\<close>

definition HandleGC :: "nat \<Rightarrow> System \<Rightarrow> fault + System" where
  "HandleGC l s =
     bindE (wait_while (host_busy l) s) (\<lambda>(_, s1).
     let t = tier_at s1 l; cnt = gcWL t - GetFreeBlockNum (gcModule t) + gcBlockCnt t in
     if unat cnt < unat (gcBlockCnt t) then Inl OutOfBounds else
     bindE (GarbageCollection (gcModule t) (gcBlockCnt t) (gc_arrays (unat cnt))) (\<lambda>(gc, out).
     let s2 = set_tier l (t\<lparr>gcModule := gc, statModule := (statModule t)
               \<lparr>gcWriteCount := gcWriteCount (statModule t) + ucast (gcWriteCnt out),
                gcCount := gcCount (statModule t) + 1\<rparr>\<rparr>) s1 in
     if gcWriteCnt out > 0
     then bindE (arr_get (writePageLoc out) 0) (\<lambda>w. submit_all l (gc_requests w 0 (move_log out)) s2)
     else Inr s2))"

text \<open>The loop that marks the pages tiered down as invalid; \<open>pageLoc\<close> is what it fills in.\<close>

fun delete_pages :: "GCModule \<Rightarrow> TierPage list \<Rightarrow> fault + PageLoc list \<times> GCModule" where
  "delete_pages gc [] = Inr ([], gc)"
| "delete_pages gc (p # ps) =
     bindE (GC_Delete gc (tp_lba p) 8192) (\<lambda>(loc, gc1).
     bindE (delete_pages gc1 ps) (\<lambda>(locs, gc2). Inr (loc # locs, gc2)))"

text \<open>The result, the pages and their number. The result is that of the last call made.\<close>

definition HandleTierDown :: "nat \<Rightarrow> System \<Rightarrow> fault + bool \<times> TierPage list \<times> u32 \<times> System" where
  "HandleTierDown l s =
     (let t = tier_at s l;
          pageCnt = GetLogicalSizeOccupied (gcModule t) - tierDownWL t + tierDownBlockCnt t * 512 in
      bindE (Tier_TierDown (tierModule t) pageCnt) (\<lambda>(ok, pages, tm).
      bindE (delete_pages (gcModule t) pages) (\<lambda>(locs, gc).
      let s1 = set_tier l (t\<lparr>gcModule := gc, tierModule := tm, statModule := (statModule t)
                 \<lparr>tierDownWriteCount := tierDownWriteCount (statModule t) + of_nat (length pages),
                  tierDownCount := tierDownCount (statModule t) + 1\<rparr>\<rparr>) s in
      bindE (submit_all l (map (\<lambda>loc. read_io loc 1 BACK_TIER 0) locs) s1) (\<lambda>s2.
      Inr (ok, pages, pageCnt, s2)))))"

subsection \<open>Tiering down under interference\<close>

text \<open>
  \<open>pages\<close> and \<open>pageCnt\<close> point to the globals that the tier-down thread of the store sets to null and 0
  under a mutex that the writing thread does not take. This is \<open>HandleTierDown\<close> when that happens while it runs:
  \<open>hit k\<close> says what is cleared right before the \<open>k\<close>-th access to them (accesses without an effect left out); the
  thread never sets them to anything else. The globals are \<open>g\<close>: the array, and the count.
\<close>

type_synonym interference = "nat \<Rightarrow> bool \<times> bool"

definition cleared :: "bool \<times> bool \<Rightarrow> TierPage list option \<times> u32 \<Rightarrow> TierPage list option \<times> u32" where
  "cleared h g = (if fst h then None else fst g, if snd h then 0 else snd g)"

fun delete_shared :: "interference \<Rightarrow> nat \<Rightarrow> GCModule \<Rightarrow> TierPage list \<Rightarrow> TierPage list option \<times> u32 \<Rightarrow>
    fault + PageLoc list \<times> GCModule \<times> TierPage list option \<times> u32" where
  "delete_shared hit k gc [] g = Inr ([], gc, cleared (hit k) g)"
| "delete_shared hit k gc (p # ps) g =
     (let g1 = cleared (hit k) g in
      if snd g1 = 0 then Inr ([], gc, g1) else
      let g2 = cleared (hit (k + 1)) g1 in
      if fst g2 = None then Inl NullDeref else
      bindE (GC_Delete gc (tp_lba p) 8192) (\<lambda>(loc, gc1).
      bindE (delete_shared hit (k + 2) gc1 ps g2) (\<lambda>(locs, gc2, g3). Inr (loc # locs, gc2, g3))))"

fun read_shared :: "interference \<Rightarrow> nat \<Rightarrow> nat \<Rightarrow> PageLoc list \<Rightarrow> TierPage list option \<times> u32 \<Rightarrow> System \<Rightarrow>
    fault + (TierPage list option \<times> u32) \<times> System" where
  "read_shared hit k l [] g s = Inr (cleared (hit k) g, s)"
| "read_shared hit k l (loc # locs) g s =
     (let g1 = cleared (hit k) g in
      if snd g1 = 0 then Inr (g1, s) else
      bindE (submit l (read_io loc 1 BACK_TIER 0) s) (read_shared hit (k + 1) l locs g1))"

definition HandleTierDown_raced :: "interference \<Rightarrow> nat \<Rightarrow> System \<Rightarrow>
    fault + bool \<times> TierPage list option \<times> u32 \<times> System" where
  "HandleTierDown_raced hit l s =
     (let t = tier_at s l;
          pageCnt = GetLogicalSizeOccupied (gcModule t) - tierDownWL t + tierDownBlockCnt t * 512;
          n = snd (cleared (hit 0) (None, pageCnt));
          zeros = replicate (unat n) \<lparr>tp_lba = 0, tp_freq = \<lparr>readFreq = 0, writeFreq = 0\<rparr>\<rparr>;
          g1 = cleared (hit 1) (Some zeros, n) in
      if fst g1 = None \<and> snd g1 \<noteq> 0 then Inl NullDeref else
      let g2 = cleared (hit 2) g1 in
      if fst g2 = None \<and> snd g2 \<noteq> 0 then Inl NullDeref else
      bindE (Tier_TierDown (tierModule t) (snd g2)) (\<lambda>(ok, pages, tm).
      bindE (delete_shared hit 3 (gcModule t) pages (map_option (\<lambda>_. pages) (fst g2), snd g2)) (\<lambda>(locs, gc, g3).
      let s1 = set_tier l (t\<lparr>gcModule := gc, tierModule := tm, statModule := (statModule t)
                 \<lparr>tierDownWriteCount := tierDownWriteCount (statModule t) + of_nat (length locs),
                  tierDownCount := tierDownCount (statModule t) + 1\<rparr>\<rparr>) s in
      bindE (read_shared hit (4 + 2 * length locs) l locs g3 s1) (\<lambda>(g4, s2).
      Inr (ok, fst g4, snd g4, s2)))))"

subsection \<open>Host writes\<close>

text \<open>An \<open>IO\<close> of all zero bytes has an operation that is neither constant of the enum: \<open>None\<close>.\<close>

datatype OpType = READ | WRITE

record IO =
  io_lba :: u64
  io_length :: u32
  io_op :: "OpType option"
  io_timestamp :: u64

text \<open>\<open>if (cond) { MicroSleep(100); stat++ }\<close>\<close>

definition slow_down :: "nat \<Rightarrow> (System \<Rightarrow> fault + bool) \<Rightarrow> (StatModule \<Rightarrow> StatModule) \<Rightarrow> System \<Rightarrow> fault + System" where
  "slow_down l c bump s =
     bindE (look c s) (\<lambda>(slow, s1).
     if slow then bindE (breathe s1) (\<lambda>s2. Inr (set_stat l bump s2)) else Inr s1)"

definition stall :: "nat \<Rightarrow> (System \<Rightarrow> fault + bool) \<Rightarrow> (StatModule \<Rightarrow> StatModule) \<Rightarrow> System \<Rightarrow> fault + System" where
  "stall l c bump s =
     bindE (wait_while c s) (\<lambda>(waited, s1). Inr (if waited then set_stat l bump s1 else s1))"

text \<open>Both modules of a tier told of a write.\<close>

definition write_modules :: "nat \<Rightarrow> u64 \<Rightarrow> u32 \<Rightarrow> PageFreq \<Rightarrow> bool \<Rightarrow> System \<Rightarrow> fault + PageLoc \<times> System" where
  "write_modules l lba len old isHost s =
     bindE (GC_WriteIO (gcModule (tier_at s l)) lba len) (\<lambda>(loc, gc).
     bindE (Tier_WriteIO (tierModule (tier_at s l)) lba len old isHost) (\<lambda>tm.
     Inr (loc, set_tier l ((tier_at s l)\<lparr>gcModule := gc, tierModule := tm\<rparr>) s)))"

text \<open>
  \<open>WriteHostIO\<close> with its last call, \<open>td\<close>, as an argument; the second component of the result is \<open>*pages\<close> and
  \<open>*pageCnt\<close> when they are assigned.
\<close>

definition WriteHostIO_by :: "(nat \<Rightarrow> System \<Rightarrow> fault + bool \<times> 'p \<times> u32 \<times> System) \<Rightarrow> nat \<Rightarrow> IO \<Rightarrow> PageFreq \<Rightarrow> System \<Rightarrow>
    fault + bool \<times> ('p \<times> u32) option \<times> System" where
  "WriteHostIO_by td l io oldPageFreq s =
     (let ts = now s in
      bindE (write_modules l (io_lba io) (io_length io) oldPageFreq True s) (\<lambda>(loc, s1).
      bindE (slow_down l (\<lambda>x. Inr (GCSlowCondition (tier_at x l)))
               (\<lambda>st. st\<lparr>gcSlowCount := gcSlowCount st + 1\<rparr>) s1) (\<lambda>s2.
      bindE (slow_down l (TierDownSlowCondition l) (\<lambda>st. st\<lparr>tierSlowCount := tierSlowCount st + 1\<rparr>) s2) (\<lambda>s3.
      bindE (stall l (\<lambda>x. Inr (GCStallCondition (tier_at x l)))
               (\<lambda>st. st\<lparr>gcStallCount := gcStallCount st + 1\<rparr>) s3) (\<lambda>s4.
      bindE (stall l (TierDownStallCondition l) (\<lambda>st. st\<lparr>tierStallCount := tierStallCount st + 1\<rparr>) s4) (\<lambda>s5.
      bindE (DiskWrite l loc 1 HOST ts s5) (\<lambda>s6.
      let s7 = set_stat l (\<lambda>st. st\<lparr>hostWriteCount := hostWriteCount st + 1\<rparr>) s6 in
      bindE (look (\<lambda>x. Inr (GCCondition (tier_at x l))) s7) (\<lambda>(gc, s8).
      bindE (if gc then HandleGC l s8 else Inr s8) (\<lambda>s9.
      bindE (look (\<lambda>x. Inr (TierDownCondition l x)) s9) (\<lambda>(tierdown, s10).
      if tierdown
      then bindE (td l s10) (\<lambda>(ok, pages, pageCnt, s11). Inr (ok, Some (pages, pageCnt), s11))
      else Inr (True, None, s10)))))))))))"

definition WriteHostIO :: "nat \<Rightarrow> IO \<Rightarrow> PageFreq \<Rightarrow> System \<Rightarrow> fault + bool \<times> (TierPage list \<times> u32) option \<times> System" where
  "WriteHostIO = WriteHostIO_by HandleTierDown"

definition WriteHostIO_raced :: "interference \<Rightarrow> nat \<Rightarrow> IO \<Rightarrow> PageFreq \<Rightarrow> System \<Rightarrow>
    fault + bool \<times> (TierPage list option \<times> u32) option \<times> System" where
  "WriteHostIO_raced hit = WriteHostIO_by (HandleTierDown_raced hit)"

subsection \<open>Reads, tiered-down writes, deletion, queries\<close>

definition ReadHostIO :: "nat \<Rightarrow> IO \<Rightarrow> System \<Rightarrow> fault + bool \<times> System" where
  "ReadHostIO l io s =
     (let ts = now s in
      bindE (GC_ReadIO (gcModule (tier_at s l)) (io_lba io) (io_length io)) (\<lambda>loc.
      bindE (Tier_ReadHostIO (tierModule (tier_at s l)) (io_lba io) (io_length io)) (\<lambda>(ok, tm).
      let s1 = set_stat l (\<lambda>st. st\<lparr>hostReadCount := hostReadCount st + 1\<rparr>)
                 (set_tier l ((tier_at s l)\<lparr>tierModule := tm\<rparr>) s) in
      bindE (DiskRead l loc 1 HOST ts s1) (\<lambda>s2. Inr (ok, s2)))))"

fun write_pages :: "nat \<Rightarrow> TierPage list \<Rightarrow> System \<Rightarrow> fault + PageLoc list \<times> System" where
  "write_pages l [] s = Inr ([], s)"
| "write_pages l (p # ps) s =
     bindE (write_modules l (tp_lba p) 8192 (tp_freq p) False s) (\<lambda>(loc, s1).
     bindE (write_pages l ps s1) (\<lambda>(locs, s2). Inr (loc # locs, s2)))"

text \<open>\<open>tierPages\<close> holds \<open>pageCnt\<close> entries; with none, \<open>pageLoc[0]\<close> is read all the same.\<close>

definition WriteTierDownIO :: "nat \<Rightarrow> TierPage list \<Rightarrow> System \<Rightarrow> fault + System" where
  "WriteTierDownIO l tierPages s =
     bindE (write_pages l tierPages s) (\<lambda>(locs, s1).
     bindE (slow_down l (\<lambda>x. Inr (GCSlowCondition (tier_at x l)))
              (\<lambda>st. st\<lparr>gcSlowCount := gcSlowCount st + 1\<rparr>) s1) (\<lambda>s2.
     bindE (arr_get locs 0) (\<lambda>loc0.
     bindE (stall l (\<lambda>x. Inr (GCStallCondition (tier_at x l)))
              (\<lambda>st. st\<lparr>gcStallCount := gcStallCount st + 1\<rparr>) s2) (\<lambda>s3.
     bindE (submit_all l (tier_requests loc0 0 locs) s3) (\<lambda>s4.
     bindE (look (\<lambda>x. Inr (GCCondition (tier_at x l))) s4) (\<lambda>(gc, s5).
     if gc then HandleGC l s5 else Inr s5))))))"

definition DeleteData :: "nat \<Rightarrow> u64 \<Rightarrow> u32 \<Rightarrow> System \<Rightarrow> fault + System" where
  "DeleteData l lba len s =
     bindE (GC_IsExist (gcModule (tier_at s l)) lba) (\<lambda>e.
     if e then
       bindE (GC_Delete (gcModule (tier_at s l)) lba len) (\<lambda>(loc, gc).
       bindE (Tier_DeleteData (tierModule (tier_at s l)) lba len) (\<lambda>tm.
       Inr (set_tier l ((tier_at s l)\<lparr>gcModule := gc, tierModule := tm\<rparr>) s)))
     else Inr s)"

definition IsFull :: "nat \<Rightarrow> System \<Rightarrow> bool" where
  "IsFull l s \<longleftrightarrow> GetLogicalSizeOccupied (gcModule (tier_at s l)) \<ge> tierDownWL (tier_at s l)"

definition QueryPageHistoryFreq :: "nat \<Rightarrow> u64 \<Rightarrow> PageFreq \<Rightarrow> System \<Rightarrow> fault + bool \<times> PageFreq" where
  "QueryPageHistoryFreq l lba pf s = Tier_QueryPageHistoryFreq (tierModule (tier_at s l)) lba pf"

definition IsExist :: "nat \<Rightarrow> u64 \<Rightarrow> System \<Rightarrow> fault + bool" where
  "IsExist l lba s = GC_IsExist (gcModule (tier_at s l)) lba"

subsection \<open>Creation\<close>

record LayerModuleConfigure =
  lm_layerIdx :: u32
  lm_gcConf :: GCModuleConfigure
  lm_gcWL :: u32
  lm_gcBlockCnt :: u32
  lm_gcStallWL :: u32
  lm_tierConf :: TierModuleConfigure
  lm_tierDownWL :: u32
  lm_tierDownBlockCnt :: u32
  lm_tierDownStallWL :: u32
  lm_needDiskOperation :: bool
  lm_requestQueueSize :: u32
  lm_hostConcurrency :: u32
  lm_backConcurrency :: u32

definition CreateLayerModule :: "LayerModuleConfigure \<Rightarrow> fault + LayerModule" where
  "CreateLayerModule conf =
     bindE (CreateGCModule (lm_gcConf conf)) (\<lambda>gc.
     Inr \<lparr>layerIdx = lm_layerIdx conf, gcModule = gc, gcWL = lm_gcWL conf, gcBlockCnt = lm_gcBlockCnt conf,
       gcStallWL = lm_gcStallWL conf, tierModule = CreateTierModule (lm_tierConf conf),
       tierDownWL = lm_tierDownWL conf, tierDownBlockCnt = lm_tierDownBlockCnt conf,
       tierDownStallWL = lm_tierDownStallWL conf, statModule = CreateStatModule,
       diskOp = (if lm_needDiskOperation conf
         then Some (CreateDiskOperator \<lparr>segmentCnt = totalBlockCnt (lm_gcConf conf),
           requestQueueSize = lm_requestQueueSize conf, dc_hostConcurrency = lm_hostConcurrency conf,
           dc_backConcurrency = lm_backConcurrency conf\<rparr>)
         else None)\<rparr>)"

end
