(* ===== verification/Layer_Inv.thy ===== *)
theory Layer_Inv
  imports Layer_Module
begin

text \<open>
  Reasoning about a tier while the threads of its disk run. \<open>ensures m P\<close> says that \<open>m\<close> ends in a
  result with \<open>P\<close> unless it outlives the given rounds of the disk threads; no other fault is
  possible. Rounds, requests and waits change disks, clocks and the slow and stall counters only
  (\<open>changes {}\<close>), and keep every disk working (\<open>disks_ok\<close>).
\<close>

subsection \<open>Results up to waiting\<close>

definition ensures :: "fault + 'a \<Rightarrow> ('a \<Rightarrow> bool) \<Rightarrow> bool" where
  "ensures m P \<longleftrightarrow> (case m of Inl e \<Rightarrow> e = Diverged | Inr x \<Rightarrow> P x)"

lemma ensures_simps [simp]:
  "ensures (Inr x) P = P x" "ensures (Inl e) P \<longleftrightarrow> e = Diverged"
  by (simp_all add: ensures_def)

lemma ensures_bind:
  assumes "ensures m P" and "\<And>x. P x \<Longrightarrow> ensures (f x) Q"
  shows "ensures (bindE m f) Q"
  using assms by (cases m) auto

lemma ensures_mono: "ensures m P \<Longrightarrow> (\<And>x. P x \<Longrightarrow> Q x) \<Longrightarrow> ensures m Q"
  by (cases m) auto

lemma ensures_Ex: "(\<exists>x. m = Inr x \<and> P x) \<Longrightarrow> ensures m P"
  by auto

subsection \<open>The state of the tiers\<close>

lemma tier_at_set_tier [simp]: "l < length (tiers s) \<Longrightarrow> tier_at (set_tier l t s) k = (if k = l then t else tier_at s k)"
  by (simp add: tier_at_def set_tier_def nth_list_update)

lemma length_set_tier [simp]: "length (tiers (set_tier l t s)) = length (tiers s)"
  by (simp add: set_tier_def)

lemma set_tier_other [simp]:
  "now (set_tier l t s) = now s" "future (set_tier l t s) = future s" "g_IOPS (set_tier l t s) = g_IOPS s"
  by (simp_all add: set_tier_def)

lemma tier_at_update [simp]:
  "tier_at (s\<lparr>g_IOPS := n\<rparr>) k = tier_at s k" "tier_at (s\<lparr>now := t\<rparr>) k = tier_at s k"
  "tier_at (s\<lparr>future := f\<rparr>) k = tier_at s k"
  by (simp_all add: tier_at_def)

definition settings :: "LayerModule \<Rightarrow> u32 \<times> u32 \<times> u32 \<times> u32 \<times> u32 \<times> u32 \<times> u32 \<times> bool" where
  "settings t = (layerIdx t, gcWL t, gcBlockCnt t, gcStallWL t, tierDownWL t, tierDownBlockCnt t, tierDownStallWL t,
     diskOp t = None)"

definition traffic :: "StatModule \<Rightarrow> u64 \<times> u64 \<times> u64 \<times> u64 \<times> u64 \<times> u64" where
  "traffic st = (hostWriteCount st, hostReadCount st, gcWriteCount st, gcCount st, tierDownWriteCount st, tierDownCount st)"

definition same_core :: "LayerModule \<Rightarrow> LayerModule \<Rightarrow> bool" where
  "same_core t t' \<longleftrightarrow> settings t' = settings t \<and> gcModule t' = gcModule t \<and> tierModule t' = tierModule t \<and>
     traffic (statModule t') = traffic (statModule t)"

text \<open>Only the tiers in \<open>X\<close> change in more than their disks and their slow and stall counters.\<close>

definition changes :: "nat set \<Rightarrow> System \<Rightarrow> System \<Rightarrow> bool" where
  "changes X s s' \<longleftrightarrow> length (tiers s') = length (tiers s) \<and>
     (\<forall>k < length (tiers s). k \<notin> X \<longrightarrow> same_core (tier_at s k) (tier_at s' k))"

lemma same_core_refl [simp]: "same_core t t"
  by (simp add: same_core_def)

lemma changes_refl [simp]: "changes X s s"
  by (simp add: changes_def)

lemma changes_trans: "changes X s s1 \<Longrightarrow> changes Y s1 s2 \<Longrightarrow> changes (X \<union> Y) s s2"
  by (simp add: changes_def same_core_def)

lemma quiet_trans: "changes {} s s1 \<Longrightarrow> changes X s1 s2 \<Longrightarrow> changes X s s2"
  using changes_trans [of "{}"] by simp

lemma quiet_core:
  assumes "changes {} s s'" and "l < length (tiers s)"
  shows "gcModule (tier_at s' l) = gcModule (tier_at s l)" and "tierModule (tier_at s' l) = tierModule (tier_at s l)"
    and "settings (tier_at s' l) = settings (tier_at s l)"
    and "traffic (statModule (tier_at s' l)) = traffic (statModule (tier_at s l))"
    and "length (tiers s') = length (tiers s)"
  using assms by (simp_all add: changes_def same_core_def)

lemma settings_fields:
  assumes "settings t' = settings t"
  shows "layerIdx t' = layerIdx t" "gcWL t' = gcWL t" "gcBlockCnt t' = gcBlockCnt t" "gcStallWL t' = gcStallWL t"
    "tierDownWL t' = tierDownWL t" "tierDownBlockCnt t' = tierDownBlockCnt t" "tierDownStallWL t' = tierDownStallWL t"
    "diskOp t' = None \<longleftrightarrow> diskOp t = None"
  using assms by (auto simp: settings_def)

lemma changes_fields [simp]:
  "changes X s (s'\<lparr>g_IOPS := n\<rparr>) = changes X s s'" "changes X (s\<lparr>g_IOPS := n\<rparr>) s' = changes X s s'"
  "changes X (s\<lparr>now := t, future := f\<rparr>) s' = changes X s s'"
  by (simp_all add: changes_def)

subsection \<open>Working disks\<close>

definition disk_ok :: "DiskOperator \<Rightarrow> bool" where
  "disk_ok d \<longleftrightarrow> ring_inv (hostQ d) \<and> uq_cursor (backGCQ d) = of_nat (length (uq_queue (backGCQ d))) \<and>
     uq_cursor (backTierQ d) = of_nat (length (uq_queue (backTierQ d))) \<and>
     length (writeHists d) = length (hostShutdown d)"

definition disks_ok :: "System \<Rightarrow> bool" where
  "disks_ok s \<longleftrightarrow> (\<forall>l < length (tiers s). \<forall>d. diskOp (tier_at s l) = Some d \<longrightarrow> disk_ok d)"

lemma disk_inv_ok: "disk_inv d \<Longrightarrow> disk_ok d"
  by (simp add: disk_inv_def disk_ok_def uq_inv_def)

lemma disk_ok_access [simp]:
  "disk_ok (Disk_Write d a b c) = disk_ok d" "disk_ok (Disk_Read d a b c) = disk_ok d" "disk_ok (Disk_Erase d a) = disk_ok d"
  by (simp_all add: disk_ok_def Disk_Write_def Disk_Read_def Disk_Erase_def)

lemma take_counted:
  assumes "uq_cursor q = of_nat (length (uq_queue q))"
  shows "\<exists>r q'. uq_Take q = Inr (r, q') \<and> uq_cursor q' = of_nat (length (uq_queue q'))"
  using assms by (cases "uq_queue q") (auto simp: uq_Take_def uq_IsEmpty_def)

lemma BackGCThread_ok: "disk_ok d \<Longrightarrow> \<exists>d'. BackGCThread d = Inr d' \<and> disk_ok d'"
proof -
  assume d: "disk_ok d"
  then obtain r q' where t: "uq_Take (backGCQ d) = Inr (r, q')" "uq_cursor q' = of_nat (length (uq_queue q'))"
    using take_counted [of "backGCQ d"] by (auto simp: disk_ok_def)
  have "disk_ok (d\<lparr>backGCQ := q'\<rparr>)" using d t(2) by (simp add: disk_ok_def)
  then show ?thesis using d t(1) by (auto simp: BackGCThread_def Let_def split: option.split DiskOpType.split)
qed

lemma BackTierThread_ok: "disk_ok d \<Longrightarrow> \<exists>d'. BackTierThread d = Inr d' \<and> disk_ok d'"
proof -
  assume d: "disk_ok d"
  then obtain r q' where t: "uq_Take (backTierQ d) = Inr (r, q')" "uq_cursor q' = of_nat (length (uq_queue q'))"
    using take_counted [of "backTierQ d"] by (auto simp: disk_ok_def)
  have "disk_ok (d\<lparr>backTierQ := q'\<rparr>)" using d t(2) by (simp add: disk_ok_def)
  then show ?thesis using d t(1) by (auto simp: BackTierThread_def Let_def split: option.split DiskOpType.split)
qed

lemma HostIOThread_ok:
  assumes "disk_ok d" and "idx < length (hostShutdown d)"
  shows "\<exists>d'. HostIOThread idx t d = Inr d' \<and> disk_ok d'"
proof (cases "hostShutdown d ! idx")
  case True
  then show ?thesis using assms by (simp add: HostIOThread_def)
next
  case False
  have q: "ring_inv (hostQ d)" using assms(1) by (simp add: disk_ok_def)
  obtain r q' where q': "bq_Take (hostQ d) = Inr (r, q')" "ring_inv q'" using bqi.pop_total [OF q] by blast
  let ?d1 = "d\<lparr>hostQ := q'\<rparr>"
  have d1: "disk_ok ?d1" using assms(1) q'(2) by (simp add: disk_ok_def)
  have w: "writeHists (Disk_Write ?d1 a b c) = writeHists d" for a b c by (simp add: Disk_Write_def)
  have h: "disk_ok (Disk_Write ?d1 a b c\<lparr>writeHists := (writeHists d)[idx := v]\<rparr>)" for a b c v
    using d1 by (simp add: disk_ok_def Disk_Write_def)
  have idx: "idx < length (writeHists d)" using assms by (simp add: disk_ok_def)
  show ?thesis
  proof (cases r)
    case None
    then show ?thesis using False assms(2) q'(1) d1 by (simp add: HostIOThread_def Let_def)
  next
    case (Some io)
    then show ?thesis using False assms(2) q'(1) d1 idx h w
      by (cases "dio_opType io") (simp_all add: HostIOThread_def Let_def)
  qed
qed

lemma HandleDiskIO_ok:
  assumes "disk_ok d" and "dio_ioType io = HOST \<Longrightarrow> \<not> bq_IsFull (hostQ d)"
  shows "\<exists>d'. HandleDiskIO d io = Inr d' \<and> disk_ok d'"
proof (cases "dio_ioType io")
  case HOST
  have "ring_room (hostQ d)" using assms HOST by (simp add: disk_ok_def ring_inv_def ring_room_def bq_IsFull_def)
  then obtain q' where "bq_Put (hostQ d) io = Inr q'" "ring_inv q'"
    using bqi.push [of "hostQ d" io] assms(1) by (auto simp: disk_ok_def)
  then show ?thesis using HOST assms(1) by (simp add: HandleDiskIO_def disk_ok_def)
qed (use assms(1) in \<open>simp_all add: HandleDiskIO_def disk_ok_def uq_Push_def add.commute\<close>)

lemma disks_ok_set_disk: "disks_ok s \<Longrightarrow> disk_ok d \<Longrightarrow> disks_ok (set_disk l d s)"
  by (cases "l < length (tiers s)") (auto simp: disks_ok_def set_disk_def set_tier_def tier_at_def nth_list_update split: if_split_asm)

lemma changes_set_disk: "diskOp (tier_at s l) \<noteq> None \<Longrightarrow> changes X s (set_disk l d s)"
  by (cases "l < length (tiers s)")
    (auto simp: changes_def set_disk_def same_core_def settings_def set_tier_def tier_at_def nth_list_update)

lemma changes_set_stat:
  "(\<And>st. traffic (f st) = traffic st) \<Longrightarrow> changes X s (set_stat l f s)"
  by (cases "l < length (tiers s)")
    (auto simp: changes_def set_stat_def same_core_def settings_def set_tier_def tier_at_def nth_list_update)

lemma disks_ok_set_tier: "disks_ok s \<Longrightarrow> diskOp t = diskOp (tier_at s l) \<Longrightarrow> disks_ok (set_tier l t s)"
  by (cases "l < length (tiers s)") (auto simp: disks_ok_def set_tier_def tier_at_def nth_list_update split: if_split_asm)

lemma disks_ok_set_stat [simp]: "disks_ok s \<Longrightarrow> disks_ok (set_stat l f s)"
  by (simp add: set_stat_def disks_ok_set_tier)

lemma disks_ok_fields [simp]:
  "disks_ok (s\<lparr>g_IOPS := n\<rparr>) = disks_ok s" "disks_ok (s\<lparr>now := t, future := f\<rparr>) = disks_ok s"
  by (simp_all add: disks_ok_def)

subsection \<open>Rounds and waits\<close>

definition quiet :: "System \<Rightarrow> System \<Rightarrow> bool" where
  "quiet s s' \<longleftrightarrow> disks_ok s' \<and> changes {} s s'"

lemma quiet_step: "quiet s s1 \<Longrightarrow> quiet s1 s2 \<Longrightarrow> quiet s s2"
  using quiet_trans by (auto simp: quiet_def)

lemma disk_round_quiet:
  assumes "disks_ok s" and "\<And>d. disk_ok d \<Longrightarrow> ex d \<Longrightarrow> \<exists>d'. run d = Inr d' \<and> disk_ok d'"
  shows "\<exists>s'. disk_round l ex run s = Inr s' \<and> quiet s s' \<and> future s' = future s"
proof (cases "l < length (tiers s) \<and> (\<exists>d. diskOp (tier_at s l) = Some d \<and> ex d)")
  case True
  then obtain d where d: "l < length (tiers s)" "diskOp (tier_at s l) = Some d" "ex d" by blast
  then have "disk_ok d" using assms(1) by (simp add: disks_ok_def)
  then obtain d' where "run d = Inr d'" "disk_ok d'" using assms(2) d(3) by blast
  moreover have "changes {} s (set_disk l d' s)" using d(2) by (simp add: changes_set_disk)
  ultimately show ?thesis using d assms(1) disks_ok_set_disk [of s d' l]
    by (simp add: disk_round_def quiet_def) (simp add: set_disk_def)
next
  case False
  then show ?thesis using assms(1) by (auto simp: disk_round_def quiet_def split: option.split)
qed

lemma run_round_quiet: "disks_ok s \<Longrightarrow> \<exists>s'. run_round r s = Inr s' \<and> quiet s s' \<and> future s' = future s"
  by (cases r) (auto intro!: disk_round_quiet HostIOThread_ok BackGCThread_ok BackTierThread_ok)

lemma run_rounds_quiet: "disks_ok s \<Longrightarrow> \<exists>s'. run_rounds rs s = Inr s' \<and> quiet s s' \<and> future s' = future s"
proof (induction rs arbitrary: s)
  case (Cons r rs)
  obtain s1 where 1: "run_round r s = Inr s1" "quiet s s1" "future s1 = future s" using run_round_quiet [OF Cons.prems] by blast
  obtain s2 where "run_rounds rs s1 = Inr s2" "quiet s1 s2" "future s2 = future s1"
    using Cons.IH [of s1] 1(2) by (auto simp: quiet_def)
  then show ?case using 1 quiet_step by auto
qed (simp add: quiet_def)

lemma batch_quiet:
  assumes "disks_ok s"
  shows "\<exists>s'. run_rounds rs (s\<lparr>now := t, future := fut\<rparr>) = Inr s' \<and> quiet s s' \<and> future s' = fut"
  using run_rounds_quiet [of "s\<lparr>now := t, future := fut\<rparr>" rs] assms by (auto simp: quiet_def)

lemma breathe_quiet: "disks_ok s \<Longrightarrow> \<exists>s'. breathe s = Inr s' \<and> quiet s s'"
  using batch_quiet by (fastforce simp: breathe_def quiet_def split: list.split)

text \<open>A condition that does not fault in any state the disk threads can lead to.\<close>

definition observable :: "System \<Rightarrow> (System \<Rightarrow> fault + bool) \<Rightarrow> bool" where
  "observable s c \<longleftrightarrow> (\<forall>s'. quiet s s' \<longrightarrow> (\<exists>b. c s' = Inr b))"

lemma observable_step: "observable s c \<Longrightarrow> quiet s s' \<Longrightarrow> observable s' c"
  using quiet_step by (auto simp: observable_def)

lemma observable_pure [simp]: "observable s (\<lambda>x. Inr (b x))"
  by (simp add: observable_def)

lemma look_quiet:
  assumes "disks_ok s" and "observable s c"
  shows "\<exists>b s'. look c s = Inr (b, s') \<and> quiet s s' \<and> c s' = Inr b"
proof -
  obtain s' where s': "breathe s = Inr s'" "quiet s s'" using breathe_quiet [OF assms(1)] by blast
  moreover obtain b where "c s' = Inr b" using assms(2) s'(2) by (auto simp: observable_def)
  ultimately show ?thesis by (simp add: look_def)
qed

lemma wait_on_quiet:
  "disks_ok s \<Longrightarrow> observable s c \<Longrightarrow> ensures (wait_on c fut s) (\<lambda>(w, s'). quiet s s' \<and> c s' = Inr False)"
proof (induction fut arbitrary: s)
  case Nil
  then obtain b where "c s = Inr b" by (auto simp: observable_def quiet_def)
  then show ?case using Nil by (simp add: quiet_def)
next
  case (Cons x fut)
  obtain t rs where x: "x = (t, rs)" by (cases x)
  obtain s1 where 1: "run_rounds rs (s\<lparr>now := t, future := fut\<rparr>) = Inr s1" "quiet s s1"
    using batch_quiet [OF Cons.prems(1)] by blast
  obtain b where b: "c s1 = Inr b" using Cons.prems(2) 1(2) by (auto simp: observable_def)
  show ?case
  proof (cases b)
    case True
    have "ensures (wait_on c fut s1) (\<lambda>(w, s'). quiet s1 s' \<and> c s' = Inr False)"
      using Cons.IH [OF _ observable_step [OF Cons.prems(2) 1(2)]] 1(2) by (simp add: quiet_def)
    then have "ensures (bindE (wait_on c fut s1) (\<lambda>(_, s2). Inr (True, s2))) (\<lambda>(w, s'). quiet s s' \<and> c s' = Inr False)"
      by (rule ensures_bind) (auto intro: quiet_step [OF 1(2)])
    then show ?thesis using 1(1) b True by (simp add: x)
  next
    case False
    then show ?thesis using 1 b by (simp add: x)
  qed
qed

lemma wait_while_quiet:
  "disks_ok s \<Longrightarrow> observable s c \<Longrightarrow> ensures (wait_while c s) (\<lambda>(w, s'). quiet s s' \<and> c s' = Inr False)"
  by (simp add: wait_while_def wait_on_quiet)

lemma quiet_disk: "quiet s s' \<Longrightarrow> l < length (tiers s) \<Longrightarrow> diskOp (tier_at s' l) = None \<longleftrightarrow> diskOp (tier_at s l) = None"
  using quiet_core(3) [of s s' l] settings_fields(8) by (metis quiet_def)

lemma submit_quiet:
  assumes "disks_ok s" and "l < length (tiers s)"
  shows "ensures (submit l io s) (quiet s)"
proof (cases "diskOp (tier_at s l)")
  case None
  then show ?thesis using assms(1) by (simp add: submit_def quiet_def)
next
  case (Some d)
  let ?s1 = "s\<lparr>g_IOPS := g_IOPS s + 1\<rparr>"
  have dk: "\<exists>d'. diskOp (tier_at s' l) = Some d'" if "quiet ?s1 s'" for s'
    using quiet_disk [OF that, of l] Some assms(2) by auto
  have ob: "observable ?s1 (host_full l)" using dk by (fastforce simp: observable_def host_full_def)
  have "ensures (if dio_ioType io = HOST then wait_while (host_full l) ?s1 else Inr (False, ?s1))
      (\<lambda>(w, s'). quiet ?s1 s' \<and> (dio_ioType io = HOST \<longrightarrow> host_full l s' = Inr False))"
    using wait_while_quiet [OF _ ob] assms(1) by (auto simp: quiet_def elim!: ensures_mono)
  then have "ensures (bindE (if dio_ioType io = HOST then wait_while (host_full l) ?s1 else Inr (False, ?s1)) (\<lambda>(_, s2).
      case diskOp (tier_at s2 l) of None \<Rightarrow> Inl NullDeref
      | Some d \<Rightarrow> bindE (HandleDiskIO d io) (\<lambda>d'. Inr (set_disk l d' s2)))) (quiet s)"
  proof (rule ensures_bind, clarify)
    fix w s2 assume q: "quiet ?s1 s2" and f: "dio_ioType io = HOST \<longrightarrow> host_full l s2 = Inr False"
    obtain d2 where d2: "diskOp (tier_at s2 l) = Some d2" using dk [OF q] by blast
    have l2: "l < length (tiers s2)" using q assms(2) by (simp add: quiet_def changes_def)
    then have ok: "disk_ok d2" using q d2 by (simp add: quiet_def disks_ok_def)
    have "dio_ioType io = HOST \<Longrightarrow> \<not> bq_IsFull (hostQ d2)" using f d2 by (simp add: host_full_def)
    then obtain d3 where d3: "HandleDiskIO d2 io = Inr d3" "disk_ok d3" using HandleDiskIO_ok [OF ok, of io] by blast
    have "quiet s2 (set_disk l d3 s2)"
      using q d2 d3(2) by (simp add: quiet_def disks_ok_set_disk changes_set_disk)
    moreover have "quiet s s2" using q by (simp add: quiet_def)
    ultimately show "ensures (case diskOp (tier_at s2 l) of None \<Rightarrow> Inl NullDeref
      | Some d \<Rightarrow> bindE (HandleDiskIO d io) (\<lambda>d'. Inr (set_disk l d' s2))) (quiet s)"
      using d2 d3(1) quiet_step by auto
  qed
  then show ?thesis using Some by (simp add: submit_def Let_def)
qed

lemma submit_all_quiet:
  "disks_ok s \<Longrightarrow> l < length (tiers s) \<Longrightarrow> ensures (submit_all l ios s) (quiet s)"
proof (induction ios arbitrary: s)
  case (Cons io ios)
  have "ensures (submit l io s) (quiet s)" by (rule submit_quiet [OF Cons.prems])
  then have "ensures (bindE (submit l io s) (submit_all l ios)) (quiet s)"
  proof (rule ensures_bind)
    fix s1 assume q: "quiet s s1"
    then have "disks_ok s1" "l < length (tiers s1)" using Cons.prems(2) by (simp_all add: quiet_def changes_def)
    then have "ensures (submit_all l ios s1) (quiet s1)" by (rule Cons.IH)
    then show "ensures (submit_all l ios s1) (quiet s)" by (rule ensures_mono) (rule quiet_step [OF q])
  qed
  then show ?case by simp
qed (simp add: quiet_def)

lemma slow_down_quiet:
  assumes "disks_ok s" and "observable s c" and "\<And>st. traffic (bump st) = traffic st"
  shows "\<exists>s'. slow_down l c bump s = Inr s' \<and> quiet s s'"
proof -
  obtain b s1 where 1: "look c s = Inr (b, s1)" "quiet s s1" using look_quiet [OF assms(1,2)] by blast
  obtain s2 where 2: "breathe s1 = Inr s2" "quiet s1 s2" using breathe_quiet [of s1] 1(2) by (auto simp: quiet_def)
  have "quiet s2 (set_stat l bump s2)" using 2(2) assms(3) by (simp add: quiet_def changes_set_stat)
  then have "quiet s (set_stat l bump s2)" using 1(2) 2(2) quiet_step by blast
  then show ?thesis using 1 2 by (simp add: slow_down_def)
qed

lemma stall_quiet:
  assumes "disks_ok s" and "observable s c" and "\<And>st. traffic (bump st) = traffic st"
  shows "ensures (stall l c bump s) (quiet s)"
  unfolding stall_def
proof (rule ensures_bind [OF wait_while_quiet [OF assms(1,2)]], clarify)
  fix w s' assume q: "quiet s s'"
  have "quiet s' (set_stat l bump s')" using q assms(3) by (simp add: quiet_def changes_set_stat)
  then show "ensures (Inr (if w then set_stat l bump s' else s')) (quiet s)" using q quiet_step by auto
qed

end
