(* ===== verification/Layer_Ops.thy ===== *)
theory Layer_Ops
  imports Layer_Inv
begin

text \<open>
  The operations of a tier. \<open>layer_ok\<close> joins the invariants of the modules: the translation layer
  and the access statistics know the same pages. \<open>sized\<close> is what the water levels must satisfy
  for a collection and a tier-down never to ask for more than there is. The abstraction of a tier
  is the set of pages it stores.
\<close>

subsection \<open>Invariant\<close>

definition stored :: "LayerModule \<Rightarrow> u64 set" where
  "stored t = dom (space_abs (gcModule t))"

definition layer_ok :: "LayerModule \<Rightarrow> bool" where
  "layer_ok t \<longleftrightarrow> gc_inv (gcModule t) \<and> tier_inv (tierModule t) \<and> dom (freq_abs (tierModule t)) = stored t \<and>
     (\<forall>k \<in> stored t. page_align k = k)"

definition sized :: "LayerModule \<Rightarrow> bool" where
  "sized t \<longleftrightarrow> unat (gcWL t) + unat (gcBlockCnt t) + 1 \<le> nblocks (gcModule t) \<and>
     nblocks (gcModule t) * PAGE_NUM_PER_BLOCK < 4294967296 \<and>
     unat (tierDownBlockCnt t) * PAGE_NUM_PER_BLOCK \<le> unat (tierDownWL t)"

definition free_blocks :: "LayerModule \<Rightarrow> nat" where
  "free_blocks t = length (freeQ (gcModule t))"

text \<open>The water level of the collection is still kept after one more host write.\<close>

definition spacious :: "LayerModule \<Rightarrow> bool" where
  "spacious t \<longleftrightarrow> unat (gcWL t) + (if hostBlock (gcModule t) = None then 1 else 0) \<le> free_blocks t"

lemma spacious_above: "unat (gcWL t) < free_blocks t \<Longrightarrow> spacious t"
  by (simp add: spacious_def)

lemma align_page_eq: "align_page = page_align"
  by (simp add: fun_eq_iff align_page_def page_align_def)

lemma page_align_idem [simp]: "page_align (page_align x) = page_align x"
  unfolding page_align_def by (rule bit_eqI) (auto simp: bit_push_bit_iff bit_drop_bit_eq)

lemma stored_set_disk [simp]:
  "stored (t\<lparr>diskOp := d\<rparr>) = stored t" "stored (t\<lparr>statModule := st\<rparr>) = stored t" "stored (t\<lparr>tierModule := tm\<rparr>) = stored t"
  by (simp_all add: stored_def)

lemma same_core_ok:
  assumes "same_core t t'"
  shows "layer_ok t' = layer_ok t" "stored t' = stored t" "sized t' = sized t" "free_blocks t' = free_blocks t"
  using assms settings_fields [of t' t]
  by (simp_all add: same_core_def layer_ok_def stored_def sized_def free_blocks_def)

lemma finite_stored: "layer_ok t \<Longrightarrow> finite (stored t)"
  using GetLogicalSizeOccupied_eq(2) by (simp add: layer_ok_def stored_def)

lemma card_stored:
  assumes "layer_ok t" and "sized t"
  shows "card (stored t) < 4294967296" and "unat (GetLogicalSizeOccupied (gcModule t)) = card (stored t)"
proof -
  have g: "gc_inv (gcModule t)" using assms(1) by (simp add: layer_ok_def)
  have "card (full_blocks (gcModule t) \<union> open_blocks (gcModule t)) \<le> nblocks (gcModule t)"
    using block_count [OF g] card_Un_le [of "full_blocks (gcModule t)" "open_blocks (gcModule t)"] by linarith
  then have "card (stored t) \<le> nblocks (gcModule t) * PAGE_NUM_PER_BLOCK"
    using live_pages_bound [OF g] by (simp add: stored_def)
  then show c: "card (stored t) < 4294967296" using assms(2) by (simp add: sized_def)
  then show "unat (GetLogicalSizeOccupied (gcModule t)) = card (stored t)"
    using GetLogicalSizeOccupied_eq(1) [OF g] by (simp add: stored_def unat_of_nat_len32)
qed

lemma unat_free_blocks:
  assumes "layer_ok t"
  shows "unat (GetFreeBlockNum (gcModule t)) = free_blocks t"
proof -
  have g: "gc_inv (gcModule t)" using assms by (simp add: layer_ok_def)
  have "free_blocks t \<le> nblocks (gcModule t)" using block_count [OF g] by (simp add: free_blocks_def)
  moreover have "nblocks (gcModule t) < 4294967296" using g by (simp add: gc_inv_def gc_struct_defs)
  ultimately show ?thesis using GetFreeBlockNum_eq [OF g] by (simp add: free_blocks_def unat_of_nat_len32)
qed

subsection \<open>Telling both modules of a write\<close>

lemma write_modules_spec:
  assumes "l < length (tiers s)" and "tier_at s l = t" and "layer_ok t" and "0 < host_room (gcModule t)"
  shows "\<exists>a p gc tm. write_modules l lba len old isHost s = Inr (here a p, set_tier l (t\<lparr>gcModule := gc, tierModule := tm\<rparr>) s) \<and>
     layer_ok (t\<lparr>gcModule := gc, tierModule := tm\<rparr>) \<and>
     stored (t\<lparr>gcModule := gc, tierModule := tm\<rparr>) = insert (page_align lba) (stored t) \<and>
     space_abs gc = (space_abs (gcModule t))(page_align lba \<mapsto> (a, p)) \<and>
     freq_abs tm = (freq_abs (tierModule t))(page_align lba \<mapsto>
       count_write isHost (case freq_abs (tierModule t) (page_align lba) of None \<Rightarrow> old | Some pf \<Rightarrow> pf)) \<and>
     nblocks gc = nblocks (gcModule t) \<and> host_room (gcModule t) = Suc (host_room gc) \<and>
     length (freeQ gc) + (if hostBlock (gcModule t) = None then 1 else 0) = length (freeQ (gcModule t))"
proof -
  let ?k = "page_align lba"
  have g: "gc_inv (gcModule t)" and ti: "tier_inv (tierModule t)" and d: "dom (freq_abs (tierModule t)) = stored t"
    and al: "\<forall>k \<in> stored t. page_align k = k" using assms(3) by (simp_all add: layer_ok_def)
  have "hostBlock (gcModule t) \<noteq> None \<or> freeQ (gcModule t) \<noteq> []" using assms(4) host_room_pos [OF g] by simp
  then obtain a p gc where w: "GC_WriteIO (gcModule t) lba len = Inr (here a p, gc)" "gc_inv gc"
     "space_abs gc = (space_abs (gcModule t))(?k \<mapsto> (a, p))" "nblocks gc = nblocks (gcModule t)"
     "freeQ gc = (if hostBlock (gcModule t) = None then butlast (freeQ (gcModule t)) else freeQ (gcModule t))"
     "host_room (gcModule t) = Suc (host_room gc)"
    using GC_WriteIO_spec [OF g, of lba len] by (fastforce simp: here_def)
  obtain tm where tm: "Tier_WriteIO (tierModule t) lba len old isHost = Inr tm" "tier_inv tm"
     "freq_abs tm = (freq_abs (tierModule t))(?k \<mapsto>
        count_write isHost (case freq_abs (tierModule t) ?k of None \<Rightarrow> old | Some pf \<Rightarrow> pf))"
    using Tier_WriteIO_spec [OF ti, of lba len old isHost] by (auto simp: align_page_eq touched_def)
  let ?t = "t\<lparr>gcModule := gc, tierModule := tm\<rparr>"
  have st: "stored ?t = insert ?k (stored t)" using w(3) by (simp add: stored_def)
  have "layer_ok ?t" using w(2) tm(2,3) d al st by (simp add: layer_ok_def)
  moreover have "length (freeQ gc) + (if hostBlock (gcModule t) = None then 1 else 0) = length (freeQ (gcModule t))"
    using w(5) assms(4) host_room_pos [OF g] by (cases "freeQ (gcModule t)") auto
  moreover have "write_modules l lba len old isHost s = Inr (here a p, set_tier l ?t s)"
    using w(1) tm(1) assms(2) by (simp add: write_modules_def)
  ultimately show ?thesis
    using w(3,4,6) tm(3) st by (intro exI [of _ a] exI [of _ p] exI [of _ gc] exI [of _ tm] conjI)
qed

subsection \<open>Garbage collection\<close>

text \<open>What a collection leaves alone.\<close>

definition collected :: "LayerModule \<Rightarrow> LayerModule \<Rightarrow> bool" where
  "collected t t' \<longleftrightarrow> layer_ok t' \<and> settings t' = settings t \<and> tierModule t' = tierModule t \<and> stored t' = stored t \<and>
     nblocks (gcModule t') = nblocks (gcModule t) \<and> hostBlock (gcModule t') = hostBlock (gcModule t) \<and>
     capacity (gcModule t) \<le> capacity (gcModule t') \<and>
     hostWriteCount (statModule t') = hostWriteCount (statModule t)"

lemma same_core_collected:
  assumes "same_core t t'" and "collected t0 t"
  shows "collected t0 t'"
proof -
  have "gcModule t' = gcModule t" "tierModule t' = tierModule t" "settings t' = settings t"
    "hostWriteCount (statModule t') = hostWriteCount (statModule t)"
    using assms(1) by (simp_all add: same_core_def traffic_def)
  then show ?thesis using assms(2) same_core_ok(1,2) [OF assms(1)] by (simp add: collected_def)
qed

lemma GarbageCollection_layer:
  assumes "layer_ok t" and "sized t" and "0 < free_blocks t" and "free_blocks t < unat (gcWL t)"
  defines "cnt \<equiv> gcWL t - GetFreeBlockNum (gcModule t) + gcBlockCnt t"
  shows "unat (gcBlockCnt t) \<le> unat cnt"
    and "\<exists>gc out vs. GarbageCollection (gcModule t) (gcBlockCnt t) (gc_arrays (unat cnt)) = Inr (gc, out) \<and>
      gc_prog (unat (gcBlockCnt t)) vs (gcModule t, gc_arrays (unat cnt)) (gc, out) \<and> length vs = unat (gcBlockCnt t) \<and>
      length (writePageLoc out) = unat cnt * PAGE_NUM_PER_BLOCK"
    and "ready (gcBlockCnt t) (gcModule t, gc_arrays (unat cnt))" and "unat (gcBlockCnt t) \<le> card (full_blocks (gcModule t))"
proof -
  have g: "gc_inv (gcModule t)" using assms(1) by (simp add: layer_ok_def)
  have u: "unat (GetFreeBlockNum (gcModule t)) = free_blocks t" by (rule unat_free_blocks [OF assms(1)])
  have nb: "nblocks (gcModule t) < 4294967296" using g by (simp add: gc_inv_def gc_struct_defs)
  have le: "GetFreeBlockNum (gcModule t) \<le> gcWL t" using u assms(4) by (simp add: word_le_nat_alt)
  have "unat (gcWL t - GetFreeBlockNum (gcModule t)) = unat (gcWL t) - free_blocks t" using le u by (simp add: unat_sub)
  then have c: "unat cnt = unat (gcWL t) - free_blocks t + unat (gcBlockCnt t)"
    using assms(2) nb unfolding cnt_def by (subst unat_add_lem [THEN iffD1]) (auto simp: sized_def)
  then show le2: "unat (gcBlockCnt t) \<le> unat cnt" by simp
  have cb: "unat (gcBlockCnt t) \<le> nblocks (gcModule t)" using assms(2) by (simp add: sized_def)
  then have small: "unat (gcBlockCnt t) * PAGE_NUM_PER_BLOCK < 4294967296" using assms(2) by (simp add: sized_def)
  have "freeQ (gcModule t) \<noteq> []" using assms(3) by (auto simp: free_blocks_def)
  then have cap: "PAGE_NUM_PER_BLOCK \<le> capacity (gcModule t)" by (rule capacity_freeQ)
  have fo: "gc_arrays k = fresh_out k" for k by (simp add: gc_arrays_def fresh_out_def)
  show r: "ready (gcBlockCnt t) (gcModule t, gc_arrays (unat cnt))"
    unfolding fo by (rule fresh_out_ready [OF g cap le2 small])
  show f: "unat (gcBlockCnt t) \<le> card (full_blocks (gcModule t))"
    using block_count [OF g] card_opens_le [of "gcModule t"] assms(2,4) by (simp add: sized_def free_blocks_def)
  from GarbageCollection_spec [OF r f] obtain vs gc out where
    p: "GarbageCollection (gcModule t) (gcBlockCnt t) (gc_arrays (unat cnt)) = Inr (gc, out)"
      "gc_prog (unat (gcBlockCnt t)) vs (gcModule t, gc_arrays (unat cnt)) (gc, out)" "length vs = unat (gcBlockCnt t)"
    by blast
  then have "length (writePageLoc out) = unat cnt * PAGE_NUM_PER_BLOCK"
    by (auto simp: gc_prog_def logged_def gc_arrays_def)
  then show "\<exists>gc out vs. GarbageCollection (gcModule t) (gcBlockCnt t) (gc_arrays (unat cnt)) = Inr (gc, out) \<and>
      gc_prog (unat (gcBlockCnt t)) vs (gcModule t, gc_arrays (unat cnt)) (gc, out) \<and> length vs = unat (gcBlockCnt t) \<and>
      length (writePageLoc out) = unat cnt * PAGE_NUM_PER_BLOCK" using p by blast
qed

lemma prog_collected:
  assumes "layer_ok t" and "gc_prog n vs (gcModule t, o1) (gc, out)" and "length vs = n"
  shows "collected t (t\<lparr>gcModule := gc, statModule := (statModule t)\<lparr>gcWriteCount := w, gcCount := c\<rparr>\<rparr>)"
proof -
  let ?t = "t\<lparr>gcModule := gc, statModule := (statModule t)\<lparr>gcWriteCount := w, gcCount := c\<rparr>\<rparr>"
  obtain ms where ms: "length ms \<le> PAGE_NUM_PER_BLOCK * length vs" "space_abs gc = replay ms (space_abs (gcModule t))"
     "capacity gc + length ms = capacity (gcModule t) + PAGE_NUM_PER_BLOCK * length vs"
    using assms(2) by (auto simp: gc_prog_def)
  have "stored ?t = stored t" using ms(2) by (simp add: stored_def)
  moreover from this have "layer_ok ?t" using assms(1,2) by (simp add: layer_ok_def gc_prog_def)
  ultimately show ?thesis using assms(2) ms by (auto simp: collected_def settings_def gc_prog_def)
qed

lemma HandleGC_spec:
  assumes "disks_ok s" and "l < length (tiers s)" and "tier_at s l = t" and "layer_ok t" and "sized t"
    and "diskOp t \<noteq> None" and "0 < free_blocks t" and "free_blocks t < unat (gcWL t)"
  shows "ensures (HandleGC l s) (\<lambda>s'. disks_ok s' \<and> changes {l} s s' \<and> collected t (tier_at s' l))"
proof -
  have "observable s (host_busy l)"
    using quiet_disk [of s _ l] assms(2,3,6) by (fastforce simp: observable_def host_busy_def)
  note w = wait_while_quiet [OF assms(1) this]
  show ?thesis
    unfolding HandleGC_def
  proof (rule ensures_bind [OF w], clarify)
    fix b s1 assume q: "quiet s s1"
    let ?t = "tier_at s1 l"
    let ?cnt = "gcWL ?t - GetFreeBlockNum (gcModule ?t) + gcBlockCnt ?t"
    have l1: "l < length (tiers s1)" using q assms(2) by (simp add: quiet_def changes_def)
    have sc: "same_core t ?t" using q assms(2,3) by (auto simp: quiet_def changes_def)
    then have t1: "layer_ok ?t" "sized ?t" "0 < free_blocks ?t" "free_blocks ?t < unat (gcWL ?t)"
      using assms(4,5,7,8) same_core_ok [OF sc] settings_fields [of ?t t] by (simp_all add: same_core_def)
    note gl = GarbageCollection_layer [OF t1]
    obtain gc out vs where p: "GarbageCollection (gcModule ?t) (gcBlockCnt ?t) (gc_arrays (unat ?cnt)) = Inr (gc, out)"
      "gc_prog (unat (gcBlockCnt ?t)) vs (gcModule ?t, gc_arrays (unat ?cnt)) (gc, out)" "length vs = unat (gcBlockCnt ?t)"
      "length (writePageLoc out) = unat ?cnt * PAGE_NUM_PER_BLOCK"
      using gl(2) by blast
    define t2 where "t2 = ?t\<lparr>gcModule := gc, statModule := (statModule ?t)
               \<lparr>gcWriteCount := gcWriteCount (statModule ?t) + ucast (gcWriteCnt out), gcCount := gcCount (statModule ?t) + 1\<rparr>\<rparr>"
    let ?s2 = "set_tier l t2 s1"
    have c1: "collected ?t t2" unfolding t2_def by (rule prog_collected [OF t1(1) p(2,3)])
    have c: "collected t t2" using c1 sc by (simp add: collected_def same_core_def same_core_ok(2) [OF sc] traffic_def)
    have d2: "disks_ok ?s2" using q by (auto simp: quiet_def t2_def intro: disks_ok_set_tier)
    have ch: "changes {l} s ?s2" using q l1 by (auto simp: quiet_def changes_def)
    have fin: "disks_ok s' \<and> changes {l} s s' \<and> collected t (tier_at s' l)" if q': "quiet ?s2 s'" for s'
    proof -
      have "same_core t2 (tier_at s' l)" using q' l1 by (auto simp: quiet_def changes_def)
      then show ?thesis using same_core_collected [OF _ c] q' changes_trans [OF ch, of "{}" s'] by (simp add: quiet_def)
    qed
    have pos: "0 < gcWriteCnt out \<Longrightarrow> 0 < length (writePageLoc out)"
      using p(2,4) by (cases "unat ?cnt") (auto simp: gc_prog_def logged_def move_log_def gc_arrays_def word_less_nat_alt)
    have ng: "(unat ?cnt < unat (gcBlockCnt ?t)) = False" using gl(1) by simp
    have "ensures (if gcWriteCnt out > 0
       then bindE (arr_get (writePageLoc out) 0) (\<lambda>w. submit_all l (gc_requests w 0 (move_log out)) ?s2)
       else Inr ?s2) (quiet ?s2)"
      using submit_all_quiet [OF d2, of l] pos l1 d2 by (auto simp: quiet_def)
    then have "ensures (if gcWriteCnt out > 0
       then bindE (arr_get (writePageLoc out) 0) (\<lambda>w. submit_all l (gc_requests w 0 (move_log out)) ?s2)
       else Inr ?s2) (\<lambda>s'. disks_ok s' \<and> changes {l} s s' \<and> collected t (tier_at s' l))"
      by (rule ensures_mono) (rule fin)
    then show "ensures
            (let t = tier_at s1 l; cnt = gcWL t - GetFreeBlockNum (gcModule t) + gcBlockCnt t in
             if unat cnt < unat (gcBlockCnt t) then Inl OutOfBounds else
             bindE (GarbageCollection (gcModule t) (gcBlockCnt t) (gc_arrays (unat cnt))) (\<lambda>(gc, out).
             let s2 = set_tier l (t\<lparr>gcModule := gc, statModule := (statModule t)
                       \<lparr>gcWriteCount := gcWriteCount (statModule t) + ucast (gcWriteCnt out),
                        gcCount := gcCount (statModule t) + 1\<rparr>\<rparr>) s1 in
             if gcWriteCnt out > 0
             then bindE (arr_get (writePageLoc out) 0) (\<lambda>w. submit_all l (gc_requests w 0 (move_log out)) s2)
             else Inr s2))
            (\<lambda>s'. disks_ok s' \<and> changes {l} s s' \<and> collected t (tier_at s' l))"
      by (simp only: Let_def ng if_False p(1) bindE_simps prod.case t2_def)
  qed
qed

lemma collected_refl: "layer_ok t \<Longrightarrow> collected t t"
  by (simp add: collected_def)

text \<open>The check for a collection and the collection, as every write ends.\<close>

lemma gc_phase:
  assumes "disks_ok s" and "l < length (tiers s)" and "tier_at s l = t" and "layer_ok t" and "sized t"
    and "0 < free_blocks t" and "diskOp t = None \<longrightarrow> unat (gcWL t) \<le> free_blocks t"
  shows "ensures (bindE (look (\<lambda>x. Inr (GCCondition (tier_at x l))) s) (\<lambda>(gc, s8).
      if gc then HandleGC l s8 else Inr s8))
    (\<lambda>s'. disks_ok s' \<and> changes {l} s s' \<and> collected t (tier_at s' l))"
proof -
  obtain b s1 where lk: "look (\<lambda>x. Inr (GCCondition (tier_at x l))) s = Inr (b, s1)" "quiet s s1"
      "Inr (GCCondition (tier_at s1 l)) = (Inr b :: fault + bool)"
    using look_quiet [OF assms(1), of "\<lambda>x. Inr (GCCondition (tier_at x l))"] by auto
  let ?t = "tier_at s1 l"
  have sc: "same_core t ?t" using lk(2) assms(2,3) by (auto simp: quiet_def changes_def)
  have c1: "collected t ?t" by (rule same_core_collected [OF sc collected_refl [OF assms(4)]])
  have ch: "changes {l} s s1" using lk(2) by (simp add: quiet_def changes_def)
  have s1: "disks_ok s1" "l < length (tiers s1)" using lk(2) assms(2) by (simp_all add: quiet_def changes_def)
  have fb: "free_blocks ?t = free_blocks t" by (rule same_core_ok(4) [OF sc])
  have lo: "layer_ok ?t" "sized ?t" using assms(4,5) same_core_ok [OF sc] by simp_all
  show ?thesis
  proof (cases b)
    case False
    then show ?thesis using lk c1 ch s1 by simp
  next
    case True
    have gw: "gcWL ?t = gcWL t" using sc settings_fields(2) [of ?t t] by (simp add: same_core_def)
    have "GetFreeBlockNum (gcModule ?t) < gcWL ?t"
      using True lk(3) by (auto simp: GCCondition_def split: option.split_asm)
    then have lt: "free_blocks ?t < unat (gcWL ?t)" using unat_free_blocks [OF lo(1)] by (simp add: word_less_nat_alt)
    then have dk: "diskOp ?t \<noteq> None"
      using assms(3,7) gw fb quiet_disk [OF lk(2) assms(2)] by auto
    have "ensures (HandleGC l s1) (\<lambda>s'. disks_ok s' \<and> changes {l} s1 s' \<and> collected ?t (tier_at s' l))"
      using HandleGC_spec [OF s1 refl lo dk _ lt] assms(6) fb by simp
    then have "ensures (HandleGC l s1) (\<lambda>s'. disks_ok s' \<and> changes {l} s s' \<and> collected t (tier_at s' l))"
    proof (rule ensures_mono, elim conjE)
      fix s' assume a: "disks_ok s'" "changes {l} s1 s'" "collected ?t (tier_at s' l)"
      have "collected t (tier_at s' l)" using c1 a(3) by (simp add: collected_def)
      then show "disks_ok s' \<and> changes {l} s s' \<and> collected t (tier_at s' l)"
        using changes_trans [OF ch a(2)] a(1) by simp
    qed
    then show ?thesis using lk(1) True by simp
  qed
qed

end
