(* ===== verification/Layer_Write.thy ===== *)
theory Layer_Write
  imports Layer_Ops
begin

text \<open>
  Tiering down, and the operations a storage system calls on a tier, as transformers of the set of
  stored pages: a host write adds its page and, when the logical space is used up, takes away the
  pages it hands over for the next tier; deletion removes a page; writes of tiered-down pages add
  them with the counters they come with.
\<close>

lemma bindE_assoc: "bindE (bindE m f) g = bindE m (\<lambda>x. bindE (f x) g)"
  by (cases m) simp_all

subsection \<open>Tiering down\<close>

lemma delete_pages_spec:
  assumes "gc_inv gc" and "distinct (map tp_lba ps)"
    and "\<And>p. p \<in> set ps \<Longrightarrow> tp_lba p \<in> dom (space_abs gc) \<and> page_align (tp_lba p) = tp_lba p"
  shows "\<exists>gc'. delete_pages gc ps = Inr (map (\<lambda>p. case the (space_abs gc (tp_lba p)) of (a, q) \<Rightarrow> here a q) ps, gc') \<and>
     gc_inv gc' \<and> space_abs gc' = space_abs gc |` (- tp_lba ` set ps) \<and> nblocks gc' = nblocks gc \<and>
     freeQ gc' = freeQ gc \<and> hostBlock gc' = hostBlock gc"
  using assms
proof (induction ps arbitrary: gc)
  case Nil
  then show ?case by (simp add: restrict_map_def)
next
  case (Cons p ps)
  obtain a q where r: "space_abs gc (tp_lba p) = Some (a, q)" using Cons.prems(3) [of p] by auto
  have al: "page_align (tp_lba p) = tp_lba p" using Cons.prems(3) [of p] by simp
  then obtain gc1 where 1: "GC_Delete gc (tp_lba p) 8192 = Inr (here a q, gc1)" "gc_inv gc1"
      "space_abs gc1 = (space_abs gc)(tp_lba p := None)" "nblocks gc1 = nblocks gc" "freeQ gc1 = freeQ gc"
      "hostBlock gc1 = hostBlock gc"
    using GC_Delete_spec [OF Cons.prems(1), of "tp_lba p" a q 8192] r by (auto simp: here_def)
  have ne: "tp_lba x \<noteq> tp_lba p" if "x \<in> set ps" for x
    using Cons.prems(2) that by (metis distinct.simps(2) imageI list.set_map list.simps(9))
  have "tp_lba x \<in> dom (space_abs gc1) \<and> page_align (tp_lba x) = tp_lba x" if "x \<in> set ps" for x
    using Cons.prems(3) [of x] ne [OF that] that 1(3) by auto
  then obtain gc2 where 2: "delete_pages gc1 ps = Inr (map (\<lambda>p. case the (space_abs gc1 (tp_lba p)) of (a, q) \<Rightarrow> here a q) ps, gc2)"
     "gc_inv gc2" "space_abs gc2 = space_abs gc1 |` (- tp_lba ` set ps)" "nblocks gc2 = nblocks gc1"
     "freeQ gc2 = freeQ gc1" "hostBlock gc2 = hostBlock gc1"
    using Cons.IH [OF 1(2)] Cons.prems(2) by auto
  have "map (\<lambda>p. case the (space_abs gc1 (tp_lba p)) of (a, q) \<Rightarrow> here a q) ps =
      map (\<lambda>p. case the (space_abs gc (tp_lba p)) of (a, q) \<Rightarrow> here a q) ps"
    using ne 1(3) by (intro map_cong) auto
  moreover have "space_abs gc2 = space_abs gc |` (- tp_lba ` set (p # ps))"
    unfolding 2(3) 1(3) by (auto simp: restrict_map_def fun_eq_iff)
  ultimately show ?case using 1 2 r by simp
qed

text \<open>\<open>ps\<close> left tier \<open>t\<close>, which became \<open>t'\<close>.\<close>

definition tiered_down :: "LayerModule \<Rightarrow> TierPage list \<Rightarrow> LayerModule \<Rightarrow> bool" where
  "tiered_down t ps t' \<longleftrightarrow> layer_ok t' \<and> settings t' = settings t \<and> nblocks (gcModule t') = nblocks (gcModule t) \<and>
     length ps = card (stored t) - unat (tierDownWL t) + unat (tierDownBlockCnt t) * PAGE_NUM_PER_BLOCK \<and>
     distinct (map tp_lba ps) \<and> (\<forall>p \<in> set ps. freq_abs (tierModule t) (tp_lba p) = Some (tp_freq p)) \<and>
     stored t' = stored t - tp_lba ` set ps \<and>
     tier_down (length ps) (tierModule t) = Inr (ps, tierModule t') \<and>
     hostWriteCount (statModule t') = hostWriteCount (statModule t) \<and>
     freeQ (gcModule t') = freeQ (gcModule t) \<and> hostBlock (gcModule t') = hostBlock (gcModule t)"

lemma same_core_tiered_down:
  assumes "same_core t t'" and "tiered_down t0 ps t"
  shows "tiered_down t0 ps t'"
proof -
  have "gcModule t' = gcModule t" "tierModule t' = tierModule t" "settings t' = settings t"
    "hostWriteCount (statModule t') = hostWriteCount (statModule t)"
    using assms(1) by (simp_all add: same_core_def traffic_def)
  then show ?thesis using assms(2) same_core_ok(1,2) [OF assms(1)] unfolding tiered_down_def by metis
qed

lemma tier_down_count:
  assumes "layer_ok t" and "sized t" and "unat (tierDownWL t) \<le> card (stored t)"
  shows "unat (GetLogicalSizeOccupied (gcModule t) - tierDownWL t + tierDownBlockCnt t * 512) =
     card (stored t) - unat (tierDownWL t) + unat (tierDownBlockCnt t) * PAGE_NUM_PER_BLOCK"
proof -
  note c = card_stored [OF assms(1,2)]
  have "tierDownWL t \<le> GetLogicalSizeOccupied (gcModule t)" using c(2) assms(3) by (simp add: word_le_nat_alt)
  then have 1: "unat (GetLogicalSizeOccupied (gcModule t) - tierDownWL t) = card (stored t) - unat (tierDownWL t)"
    using c(2) by (simp add: unat_sub)
  have s: "unat (tierDownBlockCnt t) * PAGE_NUM_PER_BLOCK \<le> unat (tierDownWL t)" using assms(2) by (simp add: sized_def)
  then have 2: "unat (tierDownBlockCnt t * 512) = unat (tierDownBlockCnt t) * PAGE_NUM_PER_BLOCK"
    using unat_lt2p32 [of "tierDownWL t"] by (simp add: unat_word_ariths)
  show ?thesis using 1 2 s assms(3) c(1) by (simp add: unat_word_ariths)
qed

text \<open>The pages that are tiered down, and their deletion from the flash layer.\<close>

lemma tier_down_pages:
  assumes "layer_ok t" and "sized t" and "unat (tierDownWL t) \<le> card (stored t)"
  defines "n \<equiv> GetLogicalSizeOccupied (gcModule t) - tierDownWL t + tierDownBlockCnt t * 512"
  obtains ps tm where "tier_down (unat n) (tierModule t) = Inr (ps, tm)" and "tier_inv tm" and "length ps = unat n"
    and "distinct (map tp_lba ps)" and "\<forall>p \<in> set ps. freq_abs (tierModule t) (tp_lba p) = Some (tp_freq p)"
    and "freq_abs tm = freq_abs (tierModule t) |` (- tp_lba ` set ps)"
    and "\<forall>p \<in> set ps. tp_lba p \<in> dom (space_abs (gcModule t)) \<and> page_align (tp_lba p) = tp_lba p"
proof -
  have ti: "tier_inv (tierModule t)" and d: "dom (freq_abs (tierModule t)) = stored t"
    and al: "\<forall>k \<in> stored t. page_align k = k" using assms(1) by (simp_all add: layer_ok_def)
  have "unat (tierDownBlockCnt t) * PAGE_NUM_PER_BLOCK \<le> unat (tierDownWL t)" using assms(2) by (simp add: sized_def)
  then have "unat n \<le> card (dom (freq_abs (tierModule t)))" unfolding n_def tier_down_count [OF assms(1-3)] d using assms(3) by linarith
  from tier_down_spec [OF ti this] obtain ps tm where td: "tier_down (unat n) (tierModule t) = Inr (ps, tm)" "tier_inv tm"
     "length ps = unat n" "distinct (map tp_lba ps)" "\<forall>p \<in> set ps. freq_abs (tierModule t) (tp_lba p) = Some (tp_freq p)"
     "freq_abs tm = freq_abs (tierModule t) |` (- tp_lba ` set ps)" by blast
  have "tp_lba p \<in> stored t" if "p \<in> set ps" for p using td(5) that d by blast
  then show ?thesis using al td by (intro that [of ps tm]) (simp_all add: stored_def)
qed

lemma HandleTierDown_spec:
  assumes "disks_ok s" and "l < length (tiers s)" and "tier_at s l = t" and "layer_ok t" and "sized t"
    and "unat (tierDownWL t) \<le> card (stored t)"
  shows "ensures (HandleTierDown l s) (\<lambda>(ok, ps, n, s'). disks_ok s' \<and> changes {l} s s' \<and>
     tiered_down t ps (tier_at s' l) \<and> unat n = length ps \<and> ok = (ps \<noteq> []))"
proof -
  let ?n = "GetLogicalSizeOccupied (gcModule t) - tierDownWL t + tierDownBlockCnt t * 512"
  have g: "gc_inv (gcModule t)" and d: "dom (freq_abs (tierModule t)) = stored t"
    and al: "\<forall>k \<in> stored t. page_align k = k" using assms(4) by (simp_all add: layer_ok_def)
  note n = tier_down_count [OF assms(4-6)]
  obtain ps tm where td: "tier_down (unat ?n) (tierModule t) = Inr (ps, tm)" "tier_inv tm"
     "length ps = unat ?n" "distinct (map tp_lba ps)" "\<forall>p \<in> set ps. freq_abs (tierModule t) (tp_lba p) = Some (tp_freq p)"
     "freq_abs tm = freq_abs (tierModule t) |` (- tp_lba ` set ps)"
     "\<forall>p \<in> set ps. tp_lba p \<in> dom (space_abs (gcModule t)) \<and> page_align (tp_lba p) = tp_lba p"
    by (rule tier_down_pages [OF assms(4-6)])
  from delete_pages_spec [OF g td(4) td(7) [rule_format]] obtain locs gc where dp: "delete_pages (gcModule t) ps = Inr (locs, gc)" "gc_inv gc"
     "space_abs gc = space_abs (gcModule t) |` (- tp_lba ` set ps)" "nblocks gc = nblocks (gcModule t)"
     "freeQ gc = freeQ (gcModule t)" "hostBlock gc = hostBlock (gcModule t)" by blast
  define t1 where "t1 = t\<lparr>gcModule := gc, tierModule := tm, statModule := (statModule t)
                 \<lparr>tierDownWriteCount := tierDownWriteCount (statModule t) + of_nat (length ps),
                  tierDownCount := tierDownCount (statModule t) + 1\<rparr>\<rparr>"
  let ?s1 = "set_tier l t1 s"
  have st: "stored t1 = stored t - tp_lba ` set ps" using dp(3) by (auto simp: stored_def t1_def)
  have "dom (freq_abs tm) = stored t1" using td(6) d st by auto
  then have "layer_ok t1" using dp(2) td(2) al st by (simp add: layer_ok_def t1_def)
  then have td1: "tiered_down t ps t1"
    using st td dp n by (simp add: tiered_down_def t1_def settings_def)
  have d1: "disks_ok ?s1" using assms(1,3) by (auto simp: t1_def intro: disks_ok_set_tier)
  have ch: "changes {l} s ?s1" using assms(2) by (simp add: changes_def)
  have fin: "disks_ok s' \<and> changes {l} s s' \<and> tiered_down t ps (tier_at s' l)" if q: "quiet ?s1 s'" for s'
  proof -
    have "same_core t1 (tier_at s' l)" using q assms(2) by (auto simp: quiet_def changes_def)
    then show ?thesis using same_core_tiered_down [OF _ td1] q changes_trans [OF ch, of "{}" s'] by (simp add: quiet_def)
  qed
  have "ensures (submit_all l (map (\<lambda>loc. read_io loc 1 BACK_TIER 0) locs) ?s1) (quiet ?s1)"
    using submit_all_quiet [OF d1] assms(2) by simp
  then have "ensures (bindE (submit_all l (map (\<lambda>loc. read_io loc 1 BACK_TIER 0) locs) ?s1) (\<lambda>s2. Inr (?n \<noteq> 0, ps, ?n, s2)))
     (\<lambda>(ok, ps, n, s'). disks_ok s' \<and> changes {l} s s' \<and> tiered_down t ps (tier_at s' l) \<and> unat n = length ps \<and> ok = (ps \<noteq> []))"
  proof (rule ensures_bind)
    fix s2 assume "quiet ?s1 s2"
    moreover have "?n \<noteq> 0 \<longleftrightarrow> ps \<noteq> []" using td(3) by (metis length_0_conv unat_eq_zero)
    ultimately show "ensures (Inr (?n \<noteq> 0, ps, ?n, s2)) (\<lambda>(ok, ps, n, s'). disks_ok s' \<and> changes {l} s s' \<and>
        tiered_down t ps (tier_at s' l) \<and> unat n = length ps \<and> ok = (ps \<noteq> []))"
      using fin td(3) by simp
  qed
  then show ?thesis
    using td(1) dp(1) assms(3) by (simp add: HandleTierDown_def Let_def Tier_TierDown_def t1_def)
qed

subsection \<open>Host writes\<close>

text \<open>What a host write of page \<open>p\<close> makes of tier \<open>t\<close>; \<open>out\<close> are the pages handed over.\<close>

definition host_written :: "u64 \<Rightarrow> LayerModule \<Rightarrow> (TierPage list \<times> u32) option \<Rightarrow> LayerModule \<Rightarrow> bool" where
  "host_written p t out t' \<longleftrightarrow> layer_ok t' \<and> settings t' = settings t \<and> nblocks (gcModule t') = nblocks (gcModule t) \<and>
     hostWriteCount (statModule t') = hostWriteCount (statModule t) + 1 \<and>
     (case out of None \<Rightarrow> stored t' = insert p (stored t)
      | Some (ps, n) \<Rightarrow> unat n = length ps \<and> distinct (map tp_lba ps) \<and> tp_lba ` set ps \<subseteq> insert p (stored t) \<and>
          stored t' = insert p (stored t) - tp_lba ` set ps \<and>
          card (stored t') + unat (tierDownBlockCnt t) * PAGE_NUM_PER_BLOCK = unat (tierDownWL t))"

text \<open>When there is no tier-down: always above tier 0; in a tier 0 without a disk, below the water level.\<close>

definition tier_down_due :: "nat \<Rightarrow> LayerModule \<Rightarrow> LayerModule \<Rightarrow> (TierPage list \<times> u32) option \<Rightarrow> bool" where
  "tier_down_due l t t' out \<longleftrightarrow> (l \<noteq> 0 \<longrightarrow> out = None) \<and>
     (l = 0 \<and> diskOp t = None \<and> out = None \<longrightarrow> card (stored t') < unat (tierDownWL t))"

definition wrote :: "u64 \<Rightarrow> LayerModule \<Rightarrow> LayerModule \<Rightarrow> bool" where
  "wrote p t t' \<longleftrightarrow> layer_ok t' \<and> settings t' = settings t \<and> nblocks (gcModule t') = nblocks (gcModule t) \<and>
     hostWriteCount (statModule t') = hostWriteCount (statModule t) + 1 \<and> stored t' = insert p (stored t)"

lemma wrote_sized: "wrote p t t' \<Longrightarrow> sized t \<Longrightarrow> sized t'"
  using settings_fields [of t' t] by (simp add: wrote_def sized_def)

lemma same_core_wrote:
  assumes "same_core t t'" and "wrote p t0 t"
  shows "wrote p t0 t'"
  using assms same_core_ok(1,2) [OF assms(1)] by (simp add: wrote_def same_core_def traffic_def)

lemma collected_wrote: "wrote p t0 t \<Longrightarrow> collected t t' \<Longrightarrow> wrote p t0 t'"
  by (simp add: wrote_def collected_def)

lemma tiered_down_written:
  assumes "wrote p t0 t" and "tiered_down t ps t'" and "unat n = length ps" and "sized t0"
    and "unat (tierDownWL t) \<le> card (stored t)"
  shows "host_written p t0 (Some (ps, n)) t'"
proof -
  have w: "stored t = insert p (stored t0)" "settings t = settings t0" "layer_ok t" using assms(1) by (simp_all add: wrote_def)
  have d: "dom (freq_abs (tierModule t)) = stored t" using w(3) by (simp add: layer_ok_def)
  have sub: "tp_lba ` set ps \<subseteq> stored t" using assms(2) d by (auto simp: tiered_down_def)
  have fin: "finite (stored t)" by (rule finite_stored [OF w(3)])
  have "card (tp_lba ` set ps) = length ps"
    using assms(2) distinct_card [of "map tp_lba ps"] by (simp add: tiered_down_def)
  then have "card (stored t') = card (stored t) - length ps"
    using assms(2) card_Diff_subset [OF finite_subset [OF sub fin] sub] by (simp add: tiered_down_def)
  moreover have "length ps = card (stored t) - unat (tierDownWL t) + unat (tierDownBlockCnt t) * PAGE_NUM_PER_BLOCK"
    using assms(2) by (simp add: tiered_down_def)
  moreover have "unat (tierDownBlockCnt t) * PAGE_NUM_PER_BLOCK \<le> unat (tierDownWL t)"
    using assms(4) settings_fields(5,6) [OF w(2)] by (simp add: sized_def)
  ultimately have "card (stored t') + unat (tierDownBlockCnt t) * PAGE_NUM_PER_BLOCK = unat (tierDownWL t)"
    using assms(5) by linarith
  then show ?thesis
    using assms(1-3) sub w settings_fields(5,6) [OF w(2)] by (simp add: host_written_def wrote_def tiered_down_def)
qed

text \<open>
  The tier-down conditions of every tier look at tier 0 (\<open>t1\<close> of the source is tier 0 too). For
  another tier \<open>l\<close> they are of no consequence as long as tier 0 holds fewer pages than the water
  levels of \<open>l\<close>.
\<close>

definition calm :: "nat \<Rightarrow> System \<Rightarrow> bool" where
  "calm l s \<longleftrightarrow> l = 0 \<or> (GetLogicalSizeOccupied (gcModule (tier_at s 0)) < tierDownWL (tier_at s l) \<and>
     GetLogicalSizeOccupied (gcModule (tier_at s 0)) < tierDownStallWL (tier_at s l))"

lemma calm_0 [simp]: "calm 0 s"
  by (simp add: calm_def)

lemma calm_changes:
  assumes "calm l s" and "changes {l} s s'" and "l < length (tiers s)" and "settings (tier_at s' l) = settings (tier_at s l)"
  shows "calm l s'"
proof (cases "l = 0")
  case False
  moreover have "0 < length (tiers s)" using assms(3) by linarith
  ultimately have "same_core (tier_at s 0) (tier_at s' 0)" using assms(2) unfolding changes_def by blast
  then have "gcModule (tier_at s' 0) = gcModule (tier_at s 0)" by (simp add: same_core_def)
  then show ?thesis using assms(1) settings_fields(5,7) [OF assms(4)] by (simp add: calm_def)
qed simp

lemma calm_quiet: "calm l s \<Longrightarrow> quiet s s' \<Longrightarrow> l < length (tiers s) \<Longrightarrow> calm l s'"
  using calm_changes [of l s s'] by (simp add: quiet_def changes_def same_core_def)

lemma calm_tier_down: "calm l s \<Longrightarrow> l \<noteq> 0 \<Longrightarrow> \<not> TierDownCondition l s"
  by (auto simp: calm_def TierDownCondition_def Let_def split: option.split)

lemma observable_tier_down:
  assumes "l < length (tiers s)" and "calm l s" and "wl = tierDownWL \<or> wl = tierDownStallWL"
  shows "observable s (TierDownSlowStallCondition l wl)"
proof (cases "l = 0")
  case True
  then show ?thesis using quiet_disk [of s _ 0] assms(1)
    by (fastforce simp: observable_def TierDownSlowStallCondition_def Let_def split: option.split)
next
  case False
  have "\<exists>b. TierDownSlowStallCondition l wl s' = Inr b" if "quiet s s'" for s'
  proof -
    have "calm l s'" using calm_quiet [OF assms(2) that assms(1)] .
    then have "\<not> wl (tier_at s' l) \<le> GetLogicalSizeOccupied (gcModule (tier_at s' 0))"
      using assms(3) False by (auto simp: calm_def)
    then have "TierDownSlowStallCondition l wl s' = Inr False"
      by (simp add: TierDownSlowStallCondition_def Let_def split: option.split)
    then show ?thesis by blast
  qed
  then show ?thesis by (simp add: observable_def)
qed

text \<open>The end of \<open>WriteHostIO\<close>: the check for a tier-down, and the tier-down.\<close>

lemma tier_down_phase:
  assumes "disks_ok s" and "l < length (tiers s)" and "wrote p t0 (tier_at s l)" and "sized t0" and "changes {l} s0 s"
    and "calm l s"
  shows "ensures (bindE (look (\<lambda>x. Inr (TierDownCondition l x)) s) (\<lambda>(tierdown, s10).
      if tierdown then bindE (HandleTierDown l s10) (\<lambda>(ok, ps, n, s11). Inr (ok, Some (ps, n), s11))
      else Inr (True, None, s10)))
    (\<lambda>(ok, out, s'). disks_ok s' \<and> changes {l} s0 s' \<and> host_written p t0 out (tier_at s' l) \<and> tier_down_due l t0 (tier_at s' l) out)"
proof -
  obtain b s1 where lk: "look (\<lambda>x. Inr (TierDownCondition l x)) s = Inr (b, s1)" "quiet s s1"
      "Inr (TierDownCondition l s1) = (Inr b :: fault + bool)"
    using look_quiet [OF assms(1), of "\<lambda>x. Inr (TierDownCondition l x)"] by auto
  let ?t = "tier_at s1 l"
  have w: "wrote p t0 ?t" using same_core_wrote [OF _ assms(3)] lk(2) assms(2) by (simp add: quiet_def changes_def)
  have ch: "changes {l} s0 s1" using changes_trans [OF assms(5), of "{}" s1] lk(2) by (simp add: quiet_def)
  have s1: "disks_ok s1" "l < length (tiers s1)" using lk(2) assms(2) by (simp_all add: quiet_def changes_def)
  show ?thesis
  proof (cases b)
    case False
    have "card (stored ?t) < unat (tierDownWL t0)" if "l = 0" "diskOp t0 = None"
    proof -
      have f: "diskOp ?t = None" "tierDownWL ?t = tierDownWL t0"
        using w settings_fields(5,8) [of ?t t0] that(2) by (simp_all add: wrote_def)
      have "layer_ok ?t" "sized ?t" using w wrote_sized [OF w assms(4)] by (simp_all add: wrote_def)
      note c = card_stored(2) [OF this]
      have "\<not> tierDownWL ?t \<le> GetLogicalSizeOccupied (gcModule ?t)"
        using False lk(3) f(1) that(1) by (simp add: TierDownCondition_def Let_def)
      then show ?thesis using c f(2) by (simp add: word_le_nat_alt)
    qed
    then have "tier_down_due l t0 ?t None" by (simp add: tier_down_due_def)
    then show ?thesis using lk w ch s1 False by (simp add: host_written_def wrote_def)
  next
    case True
    have l0: "l = 0"
      using calm_tier_down [OF calm_quiet [OF assms(6) lk(2) assms(2)]] lk(3) True by auto
    have lo: "layer_ok ?t" "sized ?t" using w wrote_sized [OF w assms(4)] by (simp_all add: wrote_def)
    have "tierDownWL ?t \<le> GetLogicalSizeOccupied (gcModule ?t)"
      using True lk(3) by (auto simp: l0 TierDownCondition_def Let_def split: option.split_asm)
    then have wl: "unat (tierDownWL ?t) \<le> card (stored ?t)"
      using card_stored [OF lo] by (simp add: word_le_nat_alt)
    have "ensures (bindE (HandleTierDown l s1) (\<lambda>(ok, ps, n, s11). Inr (ok, Some (ps, n), s11)))
       (\<lambda>(ok, out, s'). disks_ok s' \<and> changes {l} s0 s' \<and> host_written p t0 out (tier_at s' l) \<and> tier_down_due l t0 (tier_at s' l) out)"
    proof (rule ensures_bind [OF HandleTierDown_spec [OF s1 refl lo wl]], clarify)
      fix ok ps s' and n :: u32 assume a: "disks_ok s'" "changes {l} s1 s'" "tiered_down ?t ps (tier_at s' l)" "unat n = length ps"
      show "ensures (Inr (ps \<noteq> [], Some (ps, n), s'))
          (\<lambda>(ok, out, s'). disks_ok s' \<and> changes {l} s0 s' \<and> host_written p t0 out (tier_at s' l) \<and> tier_down_due l t0 (tier_at s' l) out)"
        using a changes_trans [OF ch a(2)] tiered_down_written [OF w a(3,4) assms(4) wl] l0 by (simp add: tier_down_due_def)
    qed
    then show ?thesis using lk(1) True by simp
  qed
qed

text \<open>The slow-down and stall checks and the request to the disk.\<close>

lemma wait_phase:
  assumes "disks_ok s" and "l < length (tiers s)" and "calm l s"
  shows "ensures (bindE (slow_down l (\<lambda>x. Inr (GCSlowCondition (tier_at x l)))
               (\<lambda>st. st\<lparr>gcSlowCount := gcSlowCount st + 1\<rparr>) s) (\<lambda>s2.
      bindE (slow_down l (TierDownSlowCondition l) (\<lambda>st. st\<lparr>tierSlowCount := tierSlowCount st + 1\<rparr>) s2) (\<lambda>s3.
      bindE (stall l (\<lambda>x. Inr (GCStallCondition (tier_at x l)))
               (\<lambda>st. st\<lparr>gcStallCount := gcStallCount st + 1\<rparr>) s3) (\<lambda>s4.
      bindE (stall l (TierDownStallCondition l) (\<lambda>st. st\<lparr>tierStallCount := tierStallCount st + 1\<rparr>) s4)
        (DiskWrite l loc 1 HOST ts))))) (quiet s)"
proof -
  have q0: "quiet s s" using assms(1) by (simp add: quiet_def)
  have ok: "disks_ok s'" "l < length (tiers s')" if "quiet s s'" for s'
    using that assms(2) by (simp_all add: quiet_def changes_def)
  have ca: "calm l s'" if "quiet s s'" for s' by (rule calm_quiet [OF assms(3) that assms(2)])
  have sl: "ensures (slow_down l c bump s') (quiet s)"
    if "quiet s s'" "observable s' c" "\<And>st. traffic (bump st) = traffic st" for s' c bump
    using slow_down_quiet [OF ok(1) [OF that(1)] that(2), of bump l] that(1,3) quiet_step by fastforce
  have sta: "ensures (stall l c bump s') (quiet s)"
    if "quiet s s'" "observable s' c" "\<And>st. traffic (bump st) = traffic st" for s' c bump
    using stall_quiet [OF ok(1) [OF that(1)] that(2), of bump l] that(1,3) quiet_step by (fastforce elim: ensures_mono)
  have dw: "ensures (DiskWrite l loc 1 HOST ts s') (quiet s)" if "quiet s s'" for s'
    unfolding DiskWrite_def using submit_quiet [OF ok [OF that]] quiet_step [OF that] by (rule ensures_mono)
  show ?thesis
    unfolding TierDownSlowCondition_def TierDownStallCondition_def
    by (intro ensures_bind [where P = "quiet s"] sl sta dw q0 observable_pure observable_tier_down ok(2) ca)
      (simp_all add: traffic_def)
qed

theorem WriteHostIO_spec:
  assumes "disks_ok s" and "l < length (tiers s)" and "tier_at s l = t" and "layer_ok t" and "sized t"
    and "2 \<le> free_blocks t" and "diskOp t = None \<longrightarrow> spacious t"
    and "calm l s"
  shows "ensures (WriteHostIO l io old s) (\<lambda>(ok, out, s'). disks_ok s' \<and> changes {l} s s' \<and>
     host_written (page_align (io_lba io)) t out (tier_at s' l) \<and> tier_down_due l t (tier_at s' l) out)"
proof -
  let ?p = "page_align (io_lba io)"
  have g: "gc_inv (gcModule t)" using assms(4) by (simp add: layer_ok_def)
  have "freeQ (gcModule t) \<noteq> []" using assms(6) by (auto simp: free_blocks_def)
  then have "0 < host_room (gcModule t)" using host_room_pos [OF g] by simp
  from write_modules_spec [OF assms(2,3,4) this, of "io_lba io" "io_length io" old True]
  obtain a q gc tm where w: "write_modules l (io_lba io) (io_length io) old True s =
        Inr (here a q, set_tier l (t\<lparr>gcModule := gc, tierModule := tm\<rparr>) s)"
     "layer_ok (t\<lparr>gcModule := gc, tierModule := tm\<rparr>)"
     "stored (t\<lparr>gcModule := gc, tierModule := tm\<rparr>) = insert ?p (stored t)" "nblocks gc = nblocks (gcModule t)"
     "length (freeQ gc) + (if hostBlock (gcModule t) = None then 1 else 0) = length (freeQ (gcModule t))"
    by blast
  define t1 where "t1 = t\<lparr>gcModule := gc, tierModule := tm\<rparr>"
  let ?s1 = "set_tier l t1 s"
  have f1: "free_blocks t \<le> free_blocks t1 + 1" using w(5) by (simp add: free_blocks_def t1_def split: if_split_asm)
  have d1: "disks_ok ?s1" "l < length (tiers ?s1)" using assms(1-3) by (auto simp: t1_def intro: disks_ok_set_tier)
  have ch1: "changes {l} s ?s1" using assms(2) by (simp add: changes_def)
  have ca1: "calm l ?s1"
    using calm_changes [OF assms(8) ch1 assms(2)] assms(2,3) by (simp add: t1_def settings_def)
  have rest: "ensures (bindE (look (\<lambda>x. Inr (GCCondition (tier_at x l))) s7) (\<lambda>(gc, s8).
      bindE (if gc then HandleGC l s8 else Inr s8) (\<lambda>s9.
      bindE (look (\<lambda>x. Inr (TierDownCondition l x)) s9) (\<lambda>(tierdown, s10).
      if tierdown then bindE (HandleTierDown l s10) (\<lambda>(ok, ps, n, s11). Inr (ok, Some (ps, n), s11))
      else Inr (True, None, s10)))))
      (\<lambda>(ok, out, s'). disks_ok s' \<and> changes {l} s s' \<and> host_written ?p t out (tier_at s' l) \<and> tier_down_due l t (tier_at s' l) out)"
    if q: "quiet ?s1 s6" and s7: "s7 = set_stat l (\<lambda>st. st\<lparr>hostWriteCount := hostWriteCount st + 1\<rparr>) s6" for s6 s7
  proof -
    have sc: "same_core t1 (tier_at s6 l)" "length (tiers s6) = length (tiers s)" "disks_ok s6" "changes {l} s s6"
      using q assms(2) changes_trans [OF ch1, of "{}" s6] by (auto simp: quiet_def changes_def)
    have t7: "tier_at s7 l = (tier_at s6 l)\<lparr>statModule := (statModule (tier_at s6 l))
        \<lparr>hostWriteCount := hostWriteCount (statModule (tier_at s6 l)) + 1\<rparr>\<rparr>"
      using sc(2) assms(2) by (simp add: s7 set_stat_def)
    have w7: "wrote ?p t (tier_at s7 l)"
      using sc(1) w(2-4) unfolding t7 wrote_def
      by (simp add: same_core_def t1_def layer_ok_def stored_def settings_def traffic_def)
    have fb: "free_blocks (tier_at s7 l) = free_blocks t1" and dk: "diskOp (tier_at s7 l) = None \<longleftrightarrow> diskOp t = None"
      using sc(1) settings_fields(8) [of "tier_at s6 l" t1] unfolding t7
      by (simp_all add: free_blocks_def same_core_def t1_def)
    have s7ok: "disks_ok s7" "l < length (tiers s7)" "changes {l} s s7"
      using sc assms(2) by (simp_all add: s7 set_stat_def disks_ok_set_tier changes_def)
    have "ensures (bindE (look (\<lambda>x. Inr (GCCondition (tier_at x l))) s7) (\<lambda>(gc, s8). if gc then HandleGC l s8 else Inr s8))
        (\<lambda>s'. disks_ok s' \<and> changes {l} s s' \<and> wrote ?p t (tier_at s' l))"
    proof (rule ensures_mono [OF gc_phase [OF s7ok(1,2) refl]])
      show "layer_ok (tier_at s7 l)" "sized (tier_at s7 l)"
        using w7 wrote_sized [OF w7 assms(5)] by (simp_all add: wrote_def)
      show "0 < free_blocks (tier_at s7 l)" using fb f1 assms(6) by linarith
      have "gcWL (tier_at s7 l) = gcWL t" using w7 settings_fields(2) [of "tier_at s7 l" t] by (simp add: wrote_def)
      then show "diskOp (tier_at s7 l) = None \<longrightarrow> unat (gcWL (tier_at s7 l)) \<le> free_blocks (tier_at s7 l)"
        using fb dk w(5) assms(7) by (auto simp: spacious_def free_blocks_def t1_def split: if_splits)
      fix s' assume "disks_ok s' \<and> changes {l} s7 s' \<and> collected (tier_at s7 l) (tier_at s' l)"
      then show "disks_ok s' \<and> changes {l} s s' \<and> wrote ?p t (tier_at s' l)"
        using changes_trans [OF s7ok(3)] collected_wrote [OF w7] by fastforce
    qed
    then have "ensures (bindE (bindE (look (\<lambda>x. Inr (GCCondition (tier_at x l))) s7) (\<lambda>(gc, s8). if gc then HandleGC l s8 else Inr s8))
      (\<lambda>s9. bindE (look (\<lambda>x. Inr (TierDownCondition l x)) s9) (\<lambda>(tierdown, s10).
      if tierdown then bindE (HandleTierDown l s10) (\<lambda>(ok, ps, n, s11). Inr (ok, Some (ps, n), s11))
      else Inr (True, None, s10)))) (\<lambda>(ok, out, s'). disks_ok s' \<and> changes {l} s s' \<and> host_written ?p t out (tier_at s' l) \<and> tier_down_due l t (tier_at s' l) out)"
    proof (rule ensures_bind)
      fix s9 assume a: "disks_ok s9 \<and> changes {l} s s9 \<and> wrote ?p t (tier_at s9 l)"
      then have "l < length (tiers s9)" "calm l s9"
        using assms(2,3) calm_changes [OF assms(8) _ assms(2)] by (auto simp: changes_def wrote_def)
      then show "ensures (bindE (look (\<lambda>x. Inr (TierDownCondition l x)) s9) (\<lambda>(tierdown, s10).
        if tierdown then bindE (HandleTierDown l s10) (\<lambda>(ok, ps, n, s11). Inr (ok, Some (ps, n), s11))
        else Inr (True, None, s10))) (\<lambda>(ok, out, s'). disks_ok s' \<and> changes {l} s s' \<and> host_written ?p t out (tier_at s' l) \<and> tier_down_due l t (tier_at s' l) out)"
        using tier_down_phase [where s = s9 and p = ?p and ?t0.0 = t and ?s0.0 = s] a assms(5) by simp
    qed
    then show ?thesis by (simp only: bindE_assoc case_prod_unfold)
  qed
  note ph = ensures_bind [OF wait_phase [OF d1 ca1, where loc = "here a q" and ts = "now s"]]
  show ?thesis
    unfolding WriteHostIO_def WriteHostIO_by_def Let_def w(1) [folded t1_def] bindE_simps prod.case
    using ph [OF rest [OF _ refl]] by (simp only: bindE_assoc)
qed

subsection \<open>Between two steps of an operation\<close>

text \<open>The modules and settings of tier \<open>l\<close> are those of \<open>t\<close>.\<close>

definition tier_kept :: "nat \<Rightarrow> LayerModule \<Rightarrow> System \<Rightarrow> bool" where
  "tier_kept l t s \<longleftrightarrow> disks_ok s \<and> l < length (tiers s) \<and> gcModule (tier_at s l) = gcModule t \<and>
     tierModule (tier_at s l) = tierModule t \<and> settings (tier_at s l) = settings t"

lemma tier_kept_quiet: "tier_kept l t s \<Longrightarrow> quiet s s' \<Longrightarrow> tier_kept l t s'"
  using quiet_core [of s s' l] by (simp add: tier_kept_def quiet_def)

lemma tier_kept_stat: "tier_kept l t s \<Longrightarrow> tier_kept l t (set_stat l f s)"
  by (simp add: tier_kept_def) (simp add: set_stat_def settings_def)

lemma tier_kept_layer: "tier_kept l t s \<Longrightarrow> layer_ok t \<Longrightarrow> sized t \<Longrightarrow> layer_ok (tier_at s l) \<and> sized (tier_at s l) \<and>
    stored (tier_at s l) = stored t \<and> free_blocks (tier_at s l) = free_blocks t"
  using settings_fields [of "tier_at s l" t] by (simp add: tier_kept_def layer_ok_def sized_def stored_def free_blocks_def)

end
