(* ===== verification/Layer_Access.thy ===== *)
theory Layer_Access
  imports Layer_Write
begin

text \<open>
  The other operations of a tier: host reads, deletion, writes of tiered-down pages, creation; and
  the ways in which they crash.
\<close>

subsection \<open>Reads\<close>

definition host_read :: "u64 \<Rightarrow> LayerModule \<Rightarrow> LayerModule \<Rightarrow> bool" where
  "host_read p t t' \<longleftrightarrow> layer_ok t' \<and> settings t' = settings t \<and> gcModule t' = gcModule t \<and>
     freq_abs (tierModule t') = (freq_abs (tierModule t))(p \<mapsto> count_read (the (freq_abs (tierModule t) p))) \<and>
     hostReadCount (statModule t') = hostReadCount (statModule t) + 1"

lemma same_core_read: "same_core t t' \<Longrightarrow> host_read p t0 t \<Longrightarrow> host_read p t0 t'"
  using same_core_ok(1) [of t t'] by (simp add: host_read_def same_core_def traffic_def)

theorem ReadHostIO_spec:
  assumes "disks_ok s" and "l < length (tiers s)" and "tier_at s l = t" and "layer_ok t"
    and "page_align (io_lba io) \<in> stored t"
  shows "ensures (ReadHostIO l io s) (\<lambda>(ok, s'). ok \<and> disks_ok s' \<and> changes {l} s s' \<and>
     host_read (page_align (io_lba io)) t (tier_at s' l))"
proof -
  let ?p = "page_align (io_lba io)"
  have g: "gc_inv (gcModule t)" and ti: "tier_inv (tierModule t)" and d: "dom (freq_abs (tierModule t)) = stored t"
    and al: "\<forall>k \<in> stored t. page_align k = k" using assms(4) by (simp_all add: layer_ok_def)
  obtain a q where "space_abs (gcModule t) ?p = Some (a, q)" using assms(5) by (auto simp: stored_def)
  then have r: "GC_ReadIO (gcModule t) (io_lba io) (io_length io) = Inr (here a q)"
    by (simp add: GC_ReadIO_spec [OF g] here_def)
  obtain pf where pf: "freq_abs (tierModule t) ?p = Some pf" using assms(5) d by blast
  obtain tm where tm: "Tier_ReadHostIO (tierModule t) (io_lba io) (io_length io) = Inr (True, tm)" "tier_inv tm"
     "freq_abs tm = (freq_abs (tierModule t))(?p \<mapsto> count_read pf)"
    using Tier_ReadHostIO_spec(2) [OF ti, of "io_lba io" pf "io_length io"] pf by (auto simp: align_page_eq touched_def)
  define s1 where "s1 = set_stat l (\<lambda>st. st\<lparr>hostReadCount := hostReadCount st + 1\<rparr>) (set_tier l (t\<lparr>tierModule := tm\<rparr>) s)"
  have "dom (freq_abs tm) = stored t" using tm(3) d assms(5) by auto
  then have h1: "host_read ?p t (tier_at s1 l)"
    using tm(2,3) g al pf assms(2) by (simp add: s1_def set_stat_def host_read_def layer_ok_def stored_def settings_def)
  have s1: "disks_ok s1" "changes {l} s s1" "length (tiers s1) = length (tiers s)"
    using assms(1-3) by (simp_all add: s1_def set_stat_def disks_ok_set_tier changes_def)
  have "ensures (DiskRead l (here a q) 1 HOST (now s) s1) (quiet s1)"
    unfolding DiskRead_def using submit_quiet [OF s1(1)] assms(2) s1(3) by simp
  then have "ensures (bindE (DiskRead l (here a q) 1 HOST (now s) s1) (\<lambda>s2. Inr (True, s2)))
    (\<lambda>(ok, s'). ok \<and> disks_ok s' \<and> changes {l} s s' \<and> host_read ?p t (tier_at s' l))"
  proof (rule ensures_bind)
    fix s2 assume q: "quiet s1 s2"
    have "same_core (tier_at s1 l) (tier_at s2 l)" using q assms(2) s1(3) by (simp add: quiet_def changes_def)
    then show "ensures (Inr (True, s2)) (\<lambda>(ok, s'). ok \<and> disks_ok s' \<and> changes {l} s s' \<and> host_read ?p t (tier_at s' l))"
      using same_core_read [OF _ h1] q changes_trans [OF s1(2), of "{}" s2] by (simp add: quiet_def)
  qed
  then show ?thesis using r tm(1) assms(3) by (simp add: ReadHostIO_def Let_def s1_def)
qed

lemma ReadHostIO_missing:
  assumes "tier_at s l = t" and "layer_ok t" and "page_align (io_lba io) \<notin> stored t"
  shows "ReadHostIO l io s = Inl NullDeref"
proof -
  have "space_abs (gcModule t) (page_align (io_lba io)) = None" using assms(3) by (auto simp: stored_def)
  then show ?thesis using assms(1,2) by (simp add: ReadHostIO_def Let_def GC_ReadIO_spec layer_ok_def)
qed

subsection \<open>Deletion\<close>

definition deleted :: "u64 \<Rightarrow> LayerModule \<Rightarrow> LayerModule \<Rightarrow> bool" where
  "deleted p t t' \<longleftrightarrow> layer_ok t' \<and> stored t' = stored t - {p} \<and>
     space_abs (gcModule t') = (space_abs (gcModule t))(p := None) \<and>
     freq_abs (tierModule t') = (freq_abs (tierModule t))(p := None) \<and>
     settings t' = settings t \<and> statModule t' = statModule t \<and> nblocks (gcModule t') = nblocks (gcModule t) \<and>
     freeQ (gcModule t') = freeQ (gcModule t) \<and> hostBlock (gcModule t') = hostBlock (gcModule t)"

theorem DeleteData_spec:
  assumes "disks_ok s" and "l < length (tiers s)" and "tier_at s l = t" and "layer_ok t"
  shows "\<exists>s'. DeleteData l lba len s = Inr s' \<and> disks_ok s' \<and> changes {l} s s' \<and> future s' = future s \<and>
    deleted (page_align lba) t (tier_at s' l)"
proof -
  let ?p = "page_align lba"
  have g: "gc_inv (gcModule t)" and ti: "tier_inv (tierModule t)" and d: "dom (freq_abs (tierModule t)) = stored t"
    and al: "\<forall>k \<in> stored t. page_align k = k" using assms(4) by (simp_all add: layer_ok_def)
  show ?thesis
  proof (cases "?p \<in> stored t")
    case False
    then have n: "space_abs (gcModule t) ?p = None" "freq_abs (tierModule t) ?p = None"
      using d by (auto simp: stored_def)
    have "GC_IsExist (gcModule t) lba = Inr False" using n(1) GC_IsExist_spec [OF g] by (simp add: domIff)
    moreover have "deleted ?p t t" using False n assms(4) by (simp add: deleted_def fun_upd_idem)
    ultimately show ?thesis using assms by (simp add: DeleteData_def)
  next
    case True
    then obtain a q where aq: "space_abs (gcModule t) ?p = Some (a, q)" by (auto simp: stored_def)
    have e: "GC_IsExist (gcModule t) lba = Inr True" using aq GC_IsExist_spec [OF g] by (simp add: domIff)
    obtain gc where gc: "GC_Delete (gcModule t) lba len = Inr (here a q, gc)" "gc_inv gc"
        "space_abs gc = (space_abs (gcModule t))(?p := None)" "nblocks gc = nblocks (gcModule t)"
        "freeQ gc = freeQ (gcModule t)" "hostBlock gc = hostBlock (gcModule t)"
      using GC_Delete_spec [OF g aq, of len] by (auto simp: here_def)
    have "align_page lba \<in> dom (freq_abs (tierModule t))" using True d by (simp add: align_page_eq)
    then obtain tm where tm: "Tier_DeleteData (tierModule t) lba len = Inr tm" "tier_inv tm"
        "freq_abs tm = (freq_abs (tierModule t))(?p := None)"
      using Tier_DeleteData_spec(2) [OF ti, of lba len] by (auto simp: align_page_eq)
    let ?t = "t\<lparr>gcModule := gc, tierModule := tm\<rparr>"
    have st: "stored ?t = stored t - {?p}" using gc(3) by (simp add: stored_def)
    have "layer_ok ?t" using gc(2) tm(2,3) d al st by (auto simp: layer_ok_def)
    then have "deleted ?p t ?t" using st gc tm by (simp add: deleted_def settings_def)
    moreover have "DeleteData l lba len s = Inr (set_tier l ?t s)" using e gc(1) tm(1) assms(3) by (simp add: DeleteData_def)
    ultimately show ?thesis using assms(1-3) by (simp add: disks_ok_set_tier changes_def)
  qed
qed

subsection \<open>Writes of tiered-down pages\<close>

text \<open>
  The counters of a page that arrives: those it comes with, unless the tier knows the page; of two
  arrivals of one page the first counts.
\<close>

definition arrived :: "TierPage list \<Rightarrow> LayerModule \<Rightarrow> LayerModule \<Rightarrow> bool" where
  "arrived ps t t' \<longleftrightarrow> layer_ok t' \<and> settings t' = settings t \<and> nblocks (gcModule t') = nblocks (gcModule t) \<and>
     stored t' = stored t \<union> page_align ` tp_lba ` set ps \<and>
     freq_abs (tierModule t') = map_of (map (\<lambda>p. (page_align (tp_lba p), tp_freq p)) ps)
        ++ freq_abs (tierModule t)"

lemma write_pages_spec:
  assumes "disks_ok s" and "l < length (tiers s)" and "layer_ok (tier_at s l)"
    and "length ps \<le> host_room (gcModule (tier_at s l))"
  shows "\<exists>locs s'. write_pages l ps s = Inr (locs, s') \<and> length locs = length ps \<and> disks_ok s' \<and> changes {l} s s' \<and>
     arrived ps (tier_at s l) (tier_at s' l) \<and> diskOp (tier_at s' l) = diskOp (tier_at s l) \<and>
     statModule (tier_at s' l) = statModule (tier_at s l) \<and>
     host_room (gcModule (tier_at s l)) = host_room (gcModule (tier_at s' l)) + length ps"
  using assms
proof (induction ps arbitrary: s)
  case Nil
  then show ?case by (auto simp: arrived_def)
next
  case (Cons p ps)
  let ?t = "tier_at s l" and ?k = "page_align (tp_lba p)"
  have "0 < host_room (gcModule ?t)" using Cons.prems(4) by simp
  from write_modules_spec [OF Cons.prems(2) refl Cons.prems(3) this, of "tp_lba p" 8192 "tp_freq p" False]
  obtain a q gc tm where w: "write_modules l (tp_lba p) 8192 (tp_freq p) False s =
        Inr (here a q, set_tier l (?t\<lparr>gcModule := gc, tierModule := tm\<rparr>) s)"
     "layer_ok (?t\<lparr>gcModule := gc, tierModule := tm\<rparr>)"
     "stored (?t\<lparr>gcModule := gc, tierModule := tm\<rparr>) = insert ?k (stored ?t)" "nblocks gc = nblocks (gcModule ?t)"
     "host_room (gcModule ?t) = Suc (host_room gc)"
     "freq_abs tm = (freq_abs (tierModule ?t))(?k \<mapsto>
       count_write False (case freq_abs (tierModule ?t) ?k of None \<Rightarrow> tp_freq p | Some pf \<Rightarrow> pf))" by blast
  let ?s1 = "set_tier l (?t\<lparr>gcModule := gc, tierModule := tm\<rparr>) s"
  have s1: "disks_ok ?s1" "l < length (tiers ?s1)" "changes {l} s ?s1"
    using Cons.prems(1,2) by (simp_all add: disks_ok_set_tier changes_def)
  obtain locs s' where 1: "write_pages l ps ?s1 = Inr (locs, s')" "length locs = length ps" "disks_ok s'" "changes {l} ?s1 s'"
     "arrived ps (tier_at ?s1 l) (tier_at s' l)" "diskOp (tier_at s' l) = diskOp (tier_at ?s1 l)"
     "statModule (tier_at s' l) = statModule (tier_at ?s1 l)"
     "host_room (gcModule (tier_at ?s1 l)) = host_room (gcModule (tier_at s' l)) + length ps"
    using Cons.IH [OF s1(1,2)] w(2,5) Cons.prems(2,4) by auto
  have f: "freq_abs tm = [?k \<mapsto> tp_freq p] ++ freq_abs (tierModule ?t)"
    using w(6) by (auto simp: count_write_def fun_eq_iff map_add_def split: option.split)
  have "arrived (p # ps) ?t (tier_at s' l)"
    using 1(5) w(3,4) f Cons.prems(2) by (auto simp: arrived_def settings_def)
  then show ?case using w(1,5) 1 changes_trans [OF s1(3) 1(4)] Cons.prems(2) by auto
qed

lemma same_core_arrived: "same_core t t' \<Longrightarrow> arrived ps t0 t \<Longrightarrow> arrived ps t0 t'"
  using same_core_ok(1,2) [of t t'] by (simp add: arrived_def same_core_def)

lemma collected_arrived: "arrived ps t0 t \<Longrightarrow> collected t t' \<Longrightarrow> arrived ps t0 t'"
  by (simp add: arrived_def collected_def)

text \<open>The room keeps a free block for the collection that may follow.\<close>

theorem WriteTierDownIO_spec:
  assumes "disks_ok s" and "l < length (tiers s)" and "tier_at s l = t" and "layer_ok t" and "sized t" and "ps \<noteq> []"
    and "length ps + PAGE_NUM_PER_BLOCK < host_room (gcModule t)"
    and "diskOp t = None \<longrightarrow> length ps + PAGE_NUM_PER_BLOCK * (unat (gcWL t) + 1) \<le> host_room (gcModule t)"
  shows "ensures (WriteTierDownIO l ps s) (\<lambda>s'. disks_ok s' \<and> changes {l} s s' \<and> arrived ps t (tier_at s' l))"
proof -
  obtain locs s1 where w: "write_pages l ps s = Inr (locs, s1)" "length locs = length ps" "disks_ok s1" "changes {l} s s1"
     "arrived ps t (tier_at s1 l)" "diskOp (tier_at s1 l) = diskOp t"
     "host_room (gcModule t) = host_room (gcModule (tier_at s1 l)) + length ps"
    using write_pages_spec [OF assms(1,2), of ps] assms(3,4,7) by auto
  have l1: "l < length (tiers s1)" using w(4) assms(2) by (simp add: changes_def)
  obtain s2 where s2: "slow_down l (\<lambda>x. Inr (GCSlowCondition (tier_at x l))) (\<lambda>st. st\<lparr>gcSlowCount := gcSlowCount st + 1\<rparr>) s1 = Inr s2"
     "quiet s1 s2"
    using slow_down_quiet [OF w(3) observable_pure [where b = "\<lambda>x. GCSlowCondition (tier_at x l)"], of "\<lambda>st. st\<lparr>gcSlowCount := gcSlowCount st + 1\<rparr>" l]
    by (auto simp: traffic_def)
  obtain loc0 where loc0: "arr_get locs 0 = Inr loc0" using w(2) assms(6) by (cases locs) (auto simp: arr_get_def)
  have step: "ensures (stall l (\<lambda>x. Inr (GCStallCondition (tier_at x l))) (\<lambda>st. st\<lparr>gcStallCount := gcStallCount st + 1\<rparr>) s2) (quiet s1)"
    by (rule ensures_mono [OF stall_quiet]) (use s2(2) quiet_step in \<open>auto simp: quiet_def traffic_def\<close>)
  have sub: "ensures (submit_all l ios s3) (quiet s1)" if "quiet s1 s3" for s3 ios
    by (rule ensures_mono [OF submit_all_quiet]) (use that l1 quiet_step in \<open>auto simp: quiet_def changes_def\<close>)
  have fin: "ensures (bindE (look (\<lambda>x. Inr (GCCondition (tier_at x l))) s4) (\<lambda>(gc, s5). if gc then HandleGC l s5 else Inr s5))
      (\<lambda>s'. disks_ok s' \<and> changes {l} s s' \<and> arrived ps t (tier_at s' l))" if q: "quiet s1 s4" for s4
  proof -
    have sc: "same_core (tier_at s1 l) (tier_at s4 l)" "disks_ok s4" "l < length (tiers s4)" "changes {l} s s4"
      using q l1 changes_trans [OF w(4), of "{}" s4] by (auto simp: quiet_def changes_def)
    have ar: "arrived ps t (tier_at s4 l)" by (rule same_core_arrived [OF sc(1) w(5)])
    have set: "settings (tier_at s4 l) = settings t" using ar by (simp add: arrived_def)
    have lo: "layer_ok (tier_at s4 l)" "sized (tier_at s4 l)"
      using ar assms(5) settings_fields [OF set] by (simp_all add: arrived_def sized_def)
    have hr: "host_room (gcModule t) = host_room (gcModule (tier_at s4 l)) + length ps" using w(7) sc(1) by (simp add: same_core_def)
    have b: "host_room (gcModule (tier_at s4 l)) \<le> PAGE_NUM_PER_BLOCK + PAGE_NUM_PER_BLOCK * free_blocks (tier_at s4 l)"
      using host_room_bound by (simp add: free_blocks_def)
    have fb: "0 < free_blocks (tier_at s4 l)" using hr b assms(7) by (cases "free_blocks (tier_at s4 l)") auto
    have dk: "diskOp (tier_at s4 l) = None \<longrightarrow> unat (gcWL (tier_at s4 l)) \<le> free_blocks (tier_at s4 l)"
    proof
      assume "diskOp (tier_at s4 l) = None"
      then have "length ps + PAGE_NUM_PER_BLOCK * (unat (gcWL t) + 1) \<le> host_room (gcModule t)"
        using assms(8) settings_fields(8) [OF set] by simp
      then have "PAGE_NUM_PER_BLOCK * unat (gcWL t) \<le> PAGE_NUM_PER_BLOCK * free_blocks (tier_at s4 l)"
        using hr b by simp
      then show "unat (gcWL (tier_at s4 l)) \<le> free_blocks (tier_at s4 l)" using settings_fields(2) [OF set] by simp
    qed
    show ?thesis
    proof (rule ensures_mono [OF gc_phase [OF sc(2,3) refl lo fb dk]], elim conjE)
      fix s' assume "disks_ok s'" "changes {l} s4 s'" "collected (tier_at s4 l) (tier_at s' l)"
      then show "disks_ok s' \<and> changes {l} s s' \<and> arrived ps t (tier_at s' l)"
        using changes_trans [OF sc(4)] collected_arrived [OF ar] by fastforce
    qed
  qed
  show ?thesis
    unfolding WriteTierDownIO_def w(1) bindE_simps prod.case s2(1) loc0
    by (rule ensures_bind [OF step], rule ensures_bind [OF sub], assumption, rule fin)
qed

subsection \<open>Creation\<close>

theorem CreateLayerModule_spec:
  assumes "indexBucketCnt (lm_gcConf conf) * 100 \<noteq> 0" and "indexBucketNum (lm_tierConf conf) * 100 \<noteq> 0"
    and "lm_needDiskOperation conf \<Longrightarrow> lm_requestQueueSize conf \<noteq> 0"
  shows "\<exists>t. CreateLayerModule conf = Inr t \<and> layer_ok t \<and> stored t = {} \<and>
    free_blocks t = unat (totalBlockCnt (lm_gcConf conf)) \<and> nblocks (gcModule t) = unat (totalBlockCnt (lm_gcConf conf)) \<and>
    hostBlock (gcModule t) = None \<and> (\<forall>d. diskOp t = Some d \<longrightarrow> disk_ok d) \<and>
    (diskOp t = None \<longleftrightarrow> \<not> lm_needDiskOperation conf) \<and> tierModule t = CreateTierModule (lm_tierConf conf) \<and>
    gcWL t = lm_gcWL conf \<and> gcBlockCnt t = lm_gcBlockCnt conf \<and> gcStallWL t = lm_gcStallWL conf \<and>
    tierDownWL t = lm_tierDownWL conf \<and> tierDownBlockCnt t = lm_tierDownBlockCnt conf \<and>
    tierDownStallWL t = lm_tierDownStallWL conf \<and> statModule t = CreateStatModule"
proof -
  obtain gc where gc: "CreateGCModule (lm_gcConf conf) = Inr gc" "gc_inv gc" "space_abs gc = Map.empty"
      "nblocks gc = unat (totalBlockCnt (lm_gcConf conf))" "freeQ gc = rev [0..<unat (totalBlockCnt (lm_gcConf conf))]"
      "hostBlock gc = None"
    using CreateGCModule_spec [OF assms(1)] by blast
  note ti = CreateTierModule_spec [OF assms(2)]
  have "disk_ok (CreateDiskOperator c)" if "requestQueueSize c \<noteq> 0" for c
    using disk_inv_ok CreateDiskOperator_inv [OF that] by blast
  then show ?thesis
    using gc ti assms(3) by (auto simp: CreateLayerModule_def layer_ok_def stored_def free_blocks_def)
qed

subsection \<open>Crashes\<close>

text \<open>A tier without a disk that has to collect dereferences its null disk.\<close>

lemma HandleGC_no_disk:
  assumes "disks_ok s" and "l < length (tiers s)" and "diskOp (tier_at s l) = None"
  shows "HandleGC l s = Inl NullDeref"
proof -
  have n: "quiet s s' \<Longrightarrow> host_busy l s' = Inl NullDeref" for s'
    using quiet_disk [OF _ assms(2), of s'] assms(3) by (simp add: host_busy_def)
  have "wait_while (host_busy l) s = Inl NullDeref"
  proof (cases "future s")
    case Nil
    then show ?thesis using n [of s] assms(1) by (simp add: wait_while_def quiet_def)
  next
    case (Cons x fut)
    obtain t rs where x: "x = (t, rs)" by (cases x)
    obtain s1 where "run_rounds rs (s\<lparr>now := t, future := fut\<rparr>) = Inr s1" "quiet s s1"
      using batch_quiet [OF assms(1)] by blast
    then show ?thesis using n by (simp add: wait_while_def Cons x)
  qed
  then show ?thesis by (simp add: HandleGC_def)
qed

text \<open>A tier-down of more pages than there are runs into the assertion of the frequency queue.\<close>

lemma HandleTierDown_too_many:
  assumes "tier_at s l = t" and "layer_ok t"
    and "card (stored t) < unat (GetLogicalSizeOccupied (gcModule t) - tierDownWL t + tierDownBlockCnt t * 512)"
  shows "HandleTierDown l s = Inl ExitFailure"
proof -
  have "tier_inv (tierModule t)" "dom (freq_abs (tierModule t)) = stored t" using assms(2) by (simp_all add: layer_ok_def)
  then show ?thesis using tier_down_too_many assms(1,3) by (simp add: HandleTierDown_def Let_def Tier_TierDown_def)
qed

text \<open>Nothing to write: the first element of an empty array is read.\<close>

lemma WriteTierDownIO_empty:
  assumes "disks_ok s"
  shows "WriteTierDownIO l [] s = Inl OutOfBounds"
  using slow_down_quiet [OF assms observable_pure [where b = "\<lambda>x. GCSlowCondition (tier_at x l)"], of "\<lambda>st. st\<lparr>gcSlowCount := gcSlowCount st + 1\<rparr>" l]
  by (auto simp: WriteTierDownIO_def traffic_def)

end
