(* ===== verification/Layer_Live.thy ===== *)
theory Layer_Live
  imports Layer_Access
begin

text \<open>
  The waiting loops end. The locale \<open>drain\<close> is the contract between a queue and the thread that
  serves it: every round of the thread takes one request off the backlog, nobody else adds to it
  meanwhile. Then a loop that waits for the backlog ends as soon as the schedule holds as many
  rounds of the thread as there are requests. The three queues of a disk meet the contract.
\<close>

locale drain =
  fixes backlog :: "System \<Rightarrow> nat"
    and serves :: "round \<Rightarrow> bool"
    and alive :: "System \<Rightarrow> bool"
  assumes serve: "disks_ok s \<Longrightarrow> alive s \<Longrightarrow> run_round r s = Inr s' \<Longrightarrow>
      alive s' \<and> backlog s' \<le> backlog s - (if serves r then 1 else 0)"
    and clock: "alive (s\<lparr>now := t, future := fut\<rparr>) = alive s" "backlog (s\<lparr>now := t, future := fut\<rparr>) = backlog s"
begin

lemma serve_rounds:
  assumes "disks_ok s" and "alive s" and "run_rounds rs s = Inr s'"
  shows "alive s' \<and> backlog s' \<le> backlog s - length (filter serves rs)"
  using assms
proof (induction rs arbitrary: s)
  case (Cons r rs)
  obtain s1 where 1: "run_round r s = Inr s1" "disks_ok s1"
    using run_round_quiet [OF Cons.prems(1)] by (auto simp: quiet_def)
  then have "run_rounds rs s1 = Inr s'" using Cons.prems(3) by simp
  then show ?case using Cons.IH [OF 1(2)] serve [OF Cons.prems(1,2) 1(1)] by fastforce
qed simp

lemma wait_ends:
  assumes "disks_ok s" and "alive s" and "observable s c"
    and "\<And>s'. alive s' \<Longrightarrow> c s' = Inr True \<Longrightarrow> 0 < backlog s'"
    and "backlog s \<le> length (filter serves (concat (map snd fut)))"
  shows "\<exists>w s'. wait_on c fut s = Inr (w, s') \<and> quiet s s' \<and> c s' = Inr False"
  using assms
proof (induction fut arbitrary: s)
  case Nil
  then obtain b where "c s = Inr b" by (auto simp: observable_def quiet_def)
  moreover from this have "\<not> b" using Nil(4) [of s] Nil(2,5) by auto
  ultimately show ?case using Nil(1) by (auto simp: quiet_def)
next
  case (Cons x fut)
  obtain t rs where x: "x = (t, rs)" by (cases x)
  obtain s1 where 1: "run_rounds rs (s\<lparr>now := t, future := fut\<rparr>) = Inr s1" "quiet s s1"
    using batch_quiet [OF Cons.prems(1)] by blast
  have a: "alive s1" "backlog s1 \<le> backlog s - length (filter serves rs)"
    using serve_rounds [OF _ _ 1(1)] Cons.prems(1,2) clock by simp_all
  obtain b where b: "c s1 = Inr b" using Cons.prems(3) 1(2) by (auto simp: observable_def)
  show ?case
  proof (cases b)
    case True
    have "backlog s1 \<le> length (filter serves (concat (map snd fut)))" using a(2) Cons.prems(5) by (simp add: x)
    then have "\<exists>w s'. wait_on c fut s1 = Inr (w, s') \<and> quiet s1 s' \<and> c s' = Inr False"
      by (intro Cons.IH a(1) observable_step [OF Cons.prems(3) 1(2)] Cons.prems(4)) (use 1(2) in \<open>simp_all add: quiet_def\<close>)
    then obtain w s' where w: "wait_on c fut s1 = Inr (w, s')" "quiet s1 s'" "c s' = Inr False" by blast
    moreover have "wait_on c (x # fut) s = Inr (True, s')" using 1(1) b True w(1) by (simp add: x)
    ultimately show ?thesis using quiet_step [OF 1(2) w(2)] by blast
  next
    case False
    then have "wait_on c (x # fut) s = Inr (False, s1)" using 1(1) b by (simp add: x)
    moreover have "c s1 = Inr False" using b False by simp
    ultimately show ?thesis using 1(2) by blast
  qed
qed

end

subsection \<open>What a round leaves alone\<close>

lemma BackGCThread_frame:
  assumes "BackGCThread d = Inr d'"
  shows "hostQ d' = hostQ d" "backTierQ d' = backTierQ d" "hostShutdown d' = hostShutdown d"
    "backShutdown d' = backShutdown d" "backConcurrency d' = backConcurrency d"
    "unat (uq_cursor (backGCQ d')) = unat (uq_cursor (backGCQ d)) - (if backShutdown d then 0 else 1)"
proof -
  have "hostQ d' = hostQ d \<and> backTierQ d' = backTierQ d \<and> hostShutdown d' = hostShutdown d \<and>
    backShutdown d' = backShutdown d \<and> backConcurrency d' = backConcurrency d \<and>
    unat (uq_cursor (backGCQ d')) = unat (uq_cursor (backGCQ d)) - (if backShutdown d then 0 else 1)"
    using assms by (auto simp: BackGCThread_def Let_def fault_iff uq_Take_def uq_IsEmpty_def unat_dec32
        Disk_Write_def Disk_Read_def Disk_Erase_def split: if_split_asm list.split_asm DiskOpType.split DiskOpType.split_asm)
  then show "hostQ d' = hostQ d" "backTierQ d' = backTierQ d" "hostShutdown d' = hostShutdown d"
    "backShutdown d' = backShutdown d" "backConcurrency d' = backConcurrency d"
    "unat (uq_cursor (backGCQ d')) = unat (uq_cursor (backGCQ d)) - (if backShutdown d then 0 else 1)" by blast+
qed

lemma BackTierThread_frame:
  assumes "BackTierThread d = Inr d'"
  shows "hostQ d' = hostQ d" "backGCQ d' = backGCQ d" "hostShutdown d' = hostShutdown d"
    "backShutdown d' = backShutdown d" "backConcurrency d' = backConcurrency d"
    "unat (uq_cursor (backTierQ d')) = unat (uq_cursor (backTierQ d)) - (if backShutdown d then 0 else 1)"
proof -
  have "hostQ d' = hostQ d \<and> backGCQ d' = backGCQ d \<and> hostShutdown d' = hostShutdown d \<and>
    backShutdown d' = backShutdown d \<and> backConcurrency d' = backConcurrency d \<and>
    unat (uq_cursor (backTierQ d')) = unat (uq_cursor (backTierQ d)) - (if backShutdown d then 0 else 1)"
    using assms by (auto simp: BackTierThread_def Let_def fault_iff uq_Take_def uq_IsEmpty_def unat_dec32
        Disk_Write_def Disk_Read_def split: if_split_asm list.split_asm DiskOpType.split DiskOpType.split_asm)
  then show "hostQ d' = hostQ d" "backGCQ d' = backGCQ d" "hostShutdown d' = hostShutdown d"
    "backShutdown d' = backShutdown d" "backConcurrency d' = backConcurrency d"
    "unat (uq_cursor (backTierQ d')) = unat (uq_cursor (backTierQ d)) - (if backShutdown d then 0 else 1)" by blast+
qed

lemma HostIOThread_frame:
  assumes "HostIOThread i t d = Inr d'"
  shows "backGCQ d' = backGCQ d" "backTierQ d' = backTierQ d" "hostShutdown d' = hostShutdown d"
    "backShutdown d' = backShutdown d" "backConcurrency d' = backConcurrency d"
    "bq_currentSize (hostQ d') = bq_currentSize (hostQ d) - (if hostShutdown d ! i then 0 else 1)"
proof -
  have "backGCQ d' = backGCQ d \<and> backTierQ d' = backTierQ d \<and> hostShutdown d' = hostShutdown d \<and>
    backShutdown d' = backShutdown d \<and> backConcurrency d' = backConcurrency d \<and>
    bq_currentSize (hostQ d') = bq_currentSize (hostQ d) - (if hostShutdown d ! i then 0 else 1)"
  proof (cases "hostShutdown d ! i")
    case True
    then show ?thesis using assms by (auto simp: HostIOThread_def fault_iff)
  next
    case False
    then obtain r q where t: "bq_Take (hostQ d) = Inr (r, q)" using assms by (auto simp: HostIOThread_def fault_iff)
    have sz: "bq_currentSize q = bq_currentSize (hostQ d) - 1" using bq_Take_sizes [OF t] by simp
    show ?thesis using assms False t sz
      by (auto simp: HostIOThread_def fault_iff Let_def Disk_Write_def Disk_Read_def
          split: option.split_asm DiskOpType.split_asm)
  qed
  then show "backGCQ d' = backGCQ d" "backTierQ d' = backTierQ d" "hostShutdown d' = hostShutdown d"
    "backShutdown d' = backShutdown d" "backConcurrency d' = backConcurrency d"
    "bq_currentSize (hostQ d') = bq_currentSize (hostQ d) - (if hostShutdown d ! i then 0 else 1)" by blast+
qed

subsection \<open>The three queues\<close>

definition disk_at :: "System \<Rightarrow> nat \<Rightarrow> DiskOperator option" where
  "disk_at s l = (if l < length (tiers s) then diskOp (tier_at s l) else None)"

definition with_at :: "nat \<Rightarrow> (DiskOperator \<Rightarrow> 'a) \<Rightarrow> 'a \<Rightarrow> System \<Rightarrow> 'a" where
  "with_at l f z s = (case disk_at s l of None \<Rightarrow> z | Some d \<Rightarrow> f d)"

lemma disk_at_set_disk: "l < length (tiers s) \<Longrightarrow> disk_at (set_disk l d s) k = (if k = l then Some d else disk_at s k)"
  by (auto simp: disk_at_def set_disk_def)

lemma disk_at_fields [simp]: "disk_at (s\<lparr>now := t, future := fut\<rparr>) l = disk_at s l"
  by (simp add: disk_at_def)

text \<open>The disk of tier \<open>l\<close> after a round: the same, or what one of its threads makes of it.\<close>

lemma disk_round_at:
  assumes "disk_round k ex run s = Inr s'"
  shows "disk_at s' l = disk_at s l \<or> (k = l \<and> (\<exists>d d'. disk_at s l = Some d \<and> ex d \<and> run d = Inr d' \<and> disk_at s' l = Some d'))"
    and "disk_at s k = Some d \<Longrightarrow> ex d \<Longrightarrow> \<exists>d'. run d = Inr d' \<and> disk_at s' k = Some d'"
  using assms
  by (auto simp: disk_round_def fault_iff disk_at_set_disk split: if_split_asm option.split_asm)
    (auto simp: disk_at_def split: if_split_asm)

abbreviation host_backlog :: "nat \<Rightarrow> System \<Rightarrow> nat" where
  "host_backlog l \<equiv> with_at l (\<lambda>d. bq_currentSize (hostQ d)) 0"

abbreviation gc_backlog :: "nat \<Rightarrow> System \<Rightarrow> nat" where
  "gc_backlog l \<equiv> with_at l (\<lambda>d. unat (uq_cursor (backGCQ d))) 0"

abbreviation tier_backlog :: "nat \<Rightarrow> System \<Rightarrow> nat" where
  "tier_backlog l \<equiv> with_at l (\<lambda>d. unat (uq_cursor (backTierQ d))) 0"

abbreviation host_alive :: "nat \<Rightarrow> nat \<Rightarrow> System \<Rightarrow> bool" where
  "host_alive l i \<equiv> with_at l (\<lambda>d. i < length (hostShutdown d) \<and> \<not> hostShutdown d ! i) False"

abbreviation back_alive :: "nat \<Rightarrow> System \<Rightarrow> bool" where
  "back_alive l \<equiv> with_at l (\<lambda>d. backConcurrency d \<noteq> 0 \<and> \<not> backShutdown d) False"

lemma with_at_step:
  assumes "disk_at s' l = disk_at s l \<or> (\<exists>d d'. disk_at s l = Some d \<and> disk_at s' l = Some d' \<and> P d d')"
    and "\<And>d d'. P d d' \<Longrightarrow> R (f d) (f d')" and "\<And>x. R x x"
  shows "R (with_at l f z s) (with_at l f z s')"
  using assms by (auto simp: with_at_def)

lemma host_drain: "drain (host_backlog l) (\<lambda>r. r = RunHost l i) (host_alive l i)"
proof
  fix s r s' assume al: "host_alive l i s" and run: "run_round r s = Inr s'"
  obtain d where d: "disk_at s l = Some d" "i < length (hostShutdown d)" "\<not> hostShutdown d ! i"
    using al by (auto simp: with_at_def split: option.split_asm)
  show "host_alive l i s' \<and> host_backlog l s' \<le> host_backlog l s - (if r = RunHost l i then 1 else 0)"
  proof (cases r)
    case (RunHost k j)
    have run: "disk_round k (\<lambda>d. j < length (hostShutdown d)) (HostIOThread j (now s)) s = Inr s'" using run RunHost by simp
    show ?thesis
    proof (cases "r = RunHost l i")
      case True
      then have kj: "k = l" "j = i" using RunHost by simp_all
      obtain d' where "HostIOThread i (now s) d = Inr d'" "disk_at s' l = Some d'"
        using disk_round_at(2) [OF run, of d] d kj by auto
      then show ?thesis using d HostIOThread_frame [of i "now s" d d'] True by (simp add: with_at_def)
    next
      case False
      then show ?thesis using disk_round_at(1) [OF run, of l] d HostIOThread_frame
        by (fastforce simp: with_at_def)
    qed
  next
    case (RunGC k)
    then show ?thesis using disk_round_at(1) [of k _ BackGCThread s s' l] run d BackGCThread_frame
      by (fastforce simp: with_at_def)
  next
    case (RunTier k)
    then show ?thesis using disk_round_at(1) [of k _ BackTierThread s s' l] run d BackTierThread_frame
      by (fastforce simp: with_at_def)
  qed
qed (simp_all add: with_at_def)

lemma gc_drain: "drain (gc_backlog l) (\<lambda>r. r = RunGC l) (back_alive l)"
proof
  fix s r s' assume al: "back_alive l s" and run: "run_round r s = Inr s'"
  obtain d where d: "disk_at s l = Some d" "backConcurrency d \<noteq> 0" "\<not> backShutdown d"
    using al by (auto simp: with_at_def split: option.split_asm)
  show "back_alive l s' \<and> gc_backlog l s' \<le> gc_backlog l s - (if r = RunGC l then 1 else 0)"
  proof (cases r)
    case (RunHost k j)
    then show ?thesis using disk_round_at(1) [of k _ "HostIOThread j (now s)" s s' l] run d HostIOThread_frame
      by (fastforce simp: with_at_def)
  next
    case (RunGC k)
    have run: "disk_round k (\<lambda>d. backConcurrency d \<noteq> 0) BackGCThread s = Inr s'" using run RunGC by simp
    show ?thesis
    proof (cases "k = l")
      case True
      obtain d' where "BackGCThread d = Inr d'" "disk_at s' l = Some d'"
        using disk_round_at(2) [OF run, of d] d True by auto
      then show ?thesis using d BackGCThread_frame [of d d'] True RunGC by (simp add: with_at_def)
    next
      case False
      then show ?thesis using disk_round_at(1) [OF run, of l] d RunGC by (auto simp: with_at_def)
    qed
  next
    case (RunTier k)
    then show ?thesis using disk_round_at(1) [of k _ BackTierThread s s' l] run d BackTierThread_frame
      by (fastforce simp: with_at_def)
  qed
qed (simp_all add: with_at_def)

lemma tier_drain: "drain (tier_backlog l) (\<lambda>r. r = RunTier l) (back_alive l)"
proof
  fix s r s' assume al: "back_alive l s" and run: "run_round r s = Inr s'"
  obtain d where d: "disk_at s l = Some d" "backConcurrency d \<noteq> 0" "\<not> backShutdown d"
    using al by (auto simp: with_at_def split: option.split_asm)
  show "back_alive l s' \<and> tier_backlog l s' \<le> tier_backlog l s - (if r = RunTier l then 1 else 0)"
  proof (cases r)
    case (RunHost k j)
    then show ?thesis using disk_round_at(1) [of k _ "HostIOThread j (now s)" s s' l] run d HostIOThread_frame
      by (fastforce simp: with_at_def)
  next
    case (RunGC k)
    then show ?thesis using disk_round_at(1) [of k _ BackGCThread s s' l] run d BackGCThread_frame
      by (fastforce simp: with_at_def)
  next
    case (RunTier k)
    have run: "disk_round k (\<lambda>d. backConcurrency d \<noteq> 0) BackTierThread s = Inr s'" using run RunTier by simp
    show ?thesis
    proof (cases "k = l")
      case True
      obtain d' where "BackTierThread d = Inr d'" "disk_at s' l = Some d'"
        using disk_round_at(2) [OF run, of d] d True by auto
      then show ?thesis using d BackTierThread_frame [of d d'] True RunTier by (simp add: with_at_def)
    next
      case False
      then show ?thesis using disk_round_at(1) [OF run, of l] d RunTier by (auto simp: with_at_def)
    qed
  qed
qed (simp_all add: with_at_def)

interpretation hostq: drain "host_backlog l" "\<lambda>r. r = RunHost l i" "host_alive l i" for l i
  by (rule host_drain)

interpretation gcq: drain "gc_backlog l" "\<lambda>r. r = RunGC l" "back_alive l" for l
  by (rule gc_drain)

interpretation tierq: drain "tier_backlog l" "\<lambda>r. r = RunTier l" "back_alive l" for l
  by (rule tier_drain)

text \<open>
  A collection waits for the host queue of its tier; a full host queue is waited for by a push;
  a stalled write waits for the collection or tier-down requests.
\<close>

lemma host_busy_ends:
  assumes "disks_ok s" and "host_alive l i s"
    and "host_backlog l s \<le> length (filter (\<lambda>r. r = RunHost l i) (concat (map snd (future s))))"
  shows "\<exists>w s'. wait_while (host_busy l) s = Inr (w, s') \<and> quiet s s' \<and> host_busy l s' = Inr False"
proof -
  obtain d where l: "l < length (tiers s)" "diskOp (tier_at s l) = Some d"
    using assms(2) by (auto simp: with_at_def disk_at_def split: option.split_asm if_split_asm)
  have "observable s (host_busy l)"
    using quiet_disk [of s _ l] l by (fastforce simp: observable_def host_busy_def)
  moreover have "0 < host_backlog l s'" if "host_alive l i s'" "host_busy l s' = Inr True" for s'
  proof -
    from that(1) obtain d where d: "disk_at s' l = Some d" by (auto simp: with_at_def split: option.split_asm)
    then have "diskOp (tier_at s' l) = Some d" by (simp add: disk_at_def split: if_split_asm)
    then have "QueryHostQueueSize d \<noteq> 0" using that(2) by (simp add: host_busy_def)
    then have "bq_currentSize (hostQ d) \<noteq> 0" by (intro notI) (simp add: QueryHostQueueSize_def bq_QuerySize_def)
    then show ?thesis using d by (simp add: with_at_def)
  qed
  ultimately show ?thesis
    unfolding wait_while_def using hostq.wait_ends [OF assms(1,2) _ _ assms(3)] by blast
qed

lemma gc_stall_ends:
  assumes "disks_ok s" and "back_alive l s"
    and "gc_backlog l s \<le> length (filter (\<lambda>r. r = RunGC l) (concat (map snd (future s))))"
  shows "\<exists>w s'. wait_while (\<lambda>x. Inr (GCStallCondition (tier_at x l))) s = Inr (w, s') \<and> quiet s s' \<and>
    \<not> GCStallCondition (tier_at s' l)"
proof -
  have "0 < gc_backlog l s'" if "back_alive l s'" "GCStallCondition (tier_at s' l)" for s'
    using that by (auto simp: with_at_def disk_at_def GCStallCondition_def QueryGCQueueSize_def uq_QuerySize_def
        unat_gt_0 split: option.split_asm if_split_asm)
  then show ?thesis
    unfolding wait_while_def
    using gcq.wait_ends [OF assms(1,2) observable_pure [where b = "\<lambda>x. GCStallCondition (tier_at x l)"] _ assms(3)]
    by simp
qed

lemma tier_stall_ends:
  assumes "disks_ok s" and "back_alive 0 s"
    and "tier_backlog 0 s \<le> length (filter (\<lambda>r. r = RunTier 0) (concat (map snd (future s))))"
  shows "\<exists>w s'. wait_while (TierDownStallCondition 0) s = Inr (w, s') \<and> quiet s s' \<and>
    TierDownStallCondition 0 s' = Inr False"
proof -
  have l: "0 < length (tiers s)" using assms(2) by (auto simp: with_at_def disk_at_def split: option.split_asm if_split_asm)
  have "0 < tier_backlog 0 s'" if "back_alive 0 s'" "TierDownStallCondition 0 s' = Inr True" for s'
    using that by (auto simp: with_at_def disk_at_def TierDownStallCondition_def TierDownSlowStallCondition_def Let_def
        QueryTierQueueSize_def uq_QuerySize_def unat_gt_0 split: option.split_asm if_split_asm)
  then show ?thesis
    unfolding wait_while_def
    using tierq.wait_ends [OF assms(1,2) _ _ assms(3), of "TierDownStallCondition 0"]
      observable_tier_down [OF l calm_0, of tierDownStallWL] by (auto simp: TierDownStallCondition_def)
qed

end
