(* ===== verification/Layer_Alone.thy ===== *)
theory Layer_Alone
  imports Layer_Live
begin

text \<open>
  Tiers without a disk, as the instance is configured by default. Nothing is waited for, so a
  call that does not fault returns whatever the other threads do.
\<close>

definition returns :: "fault + 'a \<Rightarrow> ('a \<Rightarrow> bool) \<Rightarrow> bool" where
  "returns m P \<longleftrightarrow> m \<noteq> Inl Diverged \<and> (\<forall>x. m = Inr x \<longrightarrow> P x)"

lemma returns_simps [simp]: "returns (Inr x) P = P x" "returns (Inl e) P \<longleftrightarrow> e \<noteq> Diverged"
  by (simp_all add: returns_def)

lemma returns_bind: "returns m P \<Longrightarrow> (\<And>x. P x \<Longrightarrow> returns (f x) Q) \<Longrightarrow> returns (bindE m f) Q"
  by (cases m) auto

lemma returns_ensures:
  assumes "ensures m P" and "returns m Q"
  shows "\<exists>x. m = Inr x \<and> P x"
  using assms by (cases m) auto

definition alone :: "nat \<Rightarrow> System \<Rightarrow> bool" where
  "alone l s \<longleftrightarrow> disks_ok s \<and> l < length (tiers s) \<and> diskOp (tier_at s l) = None \<and> layer_ok (tier_at s l)"

lemma alone_quiet: "alone l s \<Longrightarrow> quiet s s' \<Longrightarrow> alone l s'"
  using quiet_disk [of s s' l] quiet_core(1,2,5) [of s s' l]
  by (simp add: alone_def quiet_def layer_ok_def stored_def)

lemma alone_fields [simp]: "alone l (s\<lparr>g_IOPS := n\<rparr>) = alone l s"
  by (simp add: alone_def)

lemma look_alone: "alone l s \<Longrightarrow> (\<And>s'. alone l s' \<Longrightarrow> \<exists>b. c s' = Inr b) \<Longrightarrow> returns (look c s) (\<lambda>(b, s'). alone l s' \<and> c s' = Inr b)"
proof -
  assume s: "alone l s" and c: "\<And>s'. alone l s' \<Longrightarrow> \<exists>b. c s' = Inr b"
  obtain s' where s': "breathe s = Inr s'" "quiet s s'" using breathe_quiet [of s] s by (auto simp: alone_def)
  then show ?thesis using c alone_quiet [OF s s'(2)] by (fastforce simp: look_def)
qed

lemma alone_set_stat: "alone l s \<Longrightarrow> alone l (set_stat l f s)"
  by (simp add: alone_def) (simp add: set_stat_def layer_ok_def stored_def)

lemma slow_down_alone:
  assumes "alone l s" and "\<And>s'. alone l s' \<Longrightarrow> \<exists>b. c s' = Inr b"
  shows "returns (slow_down l c bump s) (alone l)"
  unfolding slow_down_def
proof (rule returns_bind [OF look_alone [OF assms]], assumption, clarify)
  fix b s1 assume s1: "alone l s1"
  obtain s2 where s2: "breathe s1 = Inr s2" "quiet s1 s2" using breathe_quiet [of s1] s1 by (auto simp: alone_def)
  show "returns (if b then bindE (breathe s1) (\<lambda>s2. Inr (set_stat l bump s2)) else Inr s1) (alone l)"
    using s1 s2 alone_set_stat [OF alone_quiet [OF s1 s2(2)]] by simp
qed

lemma wait_on_never:
  assumes "alone l s" and "\<And>s'. alone l s' \<Longrightarrow> c s' = Inr False"
  shows "\<exists>s'. wait_on c fut s = Inr (False, s') \<and> quiet s s'"
proof (cases fut)
  case Nil
  then show ?thesis using assms by (simp add: alone_def quiet_def)
next
  case (Cons x fut')
  obtain t rs where x: "x = (t, rs)" by (cases x)
  obtain s1 where 1: "run_rounds rs (s\<lparr>now := t, future := fut'\<rparr>) = Inr s1" "quiet s s1"
    using batch_quiet [of s] assms(1) unfolding alone_def by blast
  then show ?thesis using assms(2) [of s1] alone_quiet [OF assms(1) 1(2)] by (simp add: Cons x)
qed

lemma stall_quiet_alone:
  assumes "alone l s" and "\<And>s'. alone l s' \<Longrightarrow> c s' = Inr False"
  shows "\<exists>s'. stall l c bump s = Inr s' \<and> quiet s s'"
proof -
  obtain s' where "wait_on c (future s) s = Inr (False, s')" "quiet s s'"
    using wait_on_never [of l s c "future s"] assms by blast
  then show ?thesis by (simp add: stall_def wait_while_def)
qed

lemma stall_alone:
  assumes "alone l s" and "\<And>s'. alone l s' \<Longrightarrow> c s' = Inr False"
  shows "returns (stall l c bump s) (alone l)"
proof -
  obtain s' where "stall l c bump s = Inr s'" "quiet s s'"
    using stall_quiet_alone [of l s c bump] assms by blast
  then show ?thesis using alone_quiet [OF assms(1)] by simp
qed

lemma submit_alone [simp]: "alone l s \<Longrightarrow> submit l io s = Inr s"
  by (simp add: submit_def alone_def)

lemma submit_all_alone [simp]: "alone l s \<Longrightarrow> submit_all l ios s = Inr s"
  by (induction ios) simp_all

lemma TierDownSlowStall_alone: "alone l s \<Longrightarrow> TierDownSlowStallCondition l wl s = Inr False"
  by (simp add: TierDownSlowStallCondition_def alone_def)

lemma HandleTierDown_alone:
  assumes "alone l s"
  shows "HandleTierDown l s \<noteq> Inl Diverged"
proof -
  let ?t = "tier_at s l"
  let ?n = "GetLogicalSizeOccupied (gcModule ?t) - tierDownWL ?t + tierDownBlockCnt ?t * 512"
  have g: "gc_inv (gcModule ?t)" and ti: "tier_inv (tierModule ?t)" and d: "dom (freq_abs (tierModule ?t)) = stored ?t"
    and al: "\<forall>k \<in> stored ?t. page_align k = k" using assms by (simp_all add: alone_def layer_ok_def)
  have dk: "diskOp ?t = None" "l < length (tiers s)" using assms by (simp_all add: alone_def)
  show ?thesis
  proof (cases "unat ?n \<le> card (dom (freq_abs (tierModule ?t)))")
    case True
    from tier_down_spec [OF ti this] obtain ps tm where td: "tier_down (unat ?n) (tierModule ?t) = Inr (ps, tm)"
       "distinct (map tp_lba ps)" "\<forall>p \<in> set ps. freq_abs (tierModule ?t) (tp_lba p) = Some (tp_freq p)" by blast
    have "tp_lba p \<in> dom (space_abs (gcModule ?t)) \<and> page_align (tp_lba p) = tp_lba p" if "p \<in> set ps" for p
    proof -
      have "tp_lba p \<in> stored ?t" using td(3) that d by blast
      then show ?thesis using al by (simp add: stored_def)
    qed
    from delete_pages_spec [OF g td(2) this] obtain locs gc where "delete_pages (gcModule ?t) ps = Inr (locs, gc)" by blast
    moreover have "submit_all l ios (set_tier l (?t\<lparr>gcModule := a, tierModule := b, statModule := c\<rparr>) s) =
        Inr (set_tier l (?t\<lparr>gcModule := a, tierModule := b, statModule := c\<rparr>) s)" for ios a b c
      by (induction ios) (use dk in \<open>simp_all add: submit_def\<close>)
    ultimately show ?thesis using td(1) by (simp add: HandleTierDown_def Let_def Tier_TierDown_def)
  next
    case False
    then have "tier_down (unat ?n) (tierModule ?t) = Inl ExitFailure" using tier_down_too_many [OF ti] by simp
    then show ?thesis by (simp add: HandleTierDown_def Let_def Tier_TierDown_def)
  qed
qed

text \<open>A host write to a tier without a disk returns.\<close>

lemma WriteHostIO_alone:
  assumes "alone l s" and "0 < host_room (gcModule (tier_at s l))"
  shows "WriteHostIO l io old s \<noteq> Inl Diverged"
proof -
  have a: "l < length (tiers s)" "layer_ok (tier_at s l)" "diskOp (tier_at s l) = None" "disks_ok s"
    using assms(1) by (simp_all add: alone_def)
  obtain loc t1 where w: "write_modules l (io_lba io) (io_length io) old True s = Inr (loc, set_tier l t1 s)"
      "layer_ok t1" "diskOp t1 = None"
    using write_modules_spec [OF a(1) refl a(2) assms(2), of "io_lba io" "io_length io" old True] a(3) by fastforce
  have s1: "alone l (set_tier l t1 s)" using a w disks_ok_set_tier by (simp add: alone_def)
  have td: "returns (bindE (look (\<lambda>x. Inr (TierDownCondition l x)) s9) (\<lambda>(tierdown, s10).
      if tierdown then bindE (HandleTierDown l s10) (\<lambda>(ok, ps, n, s11). Inr (ok, Some (ps, n), s11))
      else Inr (True, None, s10))) (\<lambda>_. True)" if "alone l s9" for s9
    by (rule returns_bind [OF look_alone [OF that]])
      (use HandleTierDown_alone in \<open>auto simp: returns_def bindE_eq_Inl split: if_split_asm\<close>)
  have gc: "returns (if g then HandleGC l s8 else Inr s8) (alone l)" if "alone l s8" for s8 g
    using that HandleGC_no_disk [of s8 l] by (auto simp: alone_def)
  have rest: "returns (bindE (look (\<lambda>x. Inr (GCCondition (tier_at x l))) s7) (\<lambda>(g, s8).
      bindE (if g then HandleGC l s8 else Inr s8) (\<lambda>s9.
      bindE (look (\<lambda>x. Inr (TierDownCondition l x)) s9) (\<lambda>(tierdown, s10).
      if tierdown then bindE (HandleTierDown l s10) (\<lambda>(ok, ps, n, s11). Inr (ok, Some (ps, n), s11))
      else Inr (True, None, s10))))) (\<lambda>_. True)" if "alone l s7" for s7
    by (rule returns_bind [OF look_alone [OF that]], simp) (use returns_bind [OF gc td] in auto)
  have sl: "returns (slow_down l c bump s') (alone l)" if "alone l s'" "\<And>s'. alone l s' \<Longrightarrow> \<exists>b. c s' = Inr b" for c bump s'
    using that by (rule slow_down_alone)
  have sta: "returns (stall l c bump s') (alone l)" if "alone l s'" "\<And>s'. alone l s' \<Longrightarrow> c s' = Inr False" for c bump s'
    using that by (rule stall_alone)
  have obs: "\<exists>b. Inr (f s') = (Inr b :: fault + bool)" for f :: "System \<Rightarrow> bool" and s' by blast
  have obs2: "\<exists>b. TierDownSlowStallCondition l wl s' = Inr b" if "alone l s'" for wl s'
    using TierDownSlowStall_alone [OF that] by blast
  have gcs: "Inr (GCStallCondition (tier_at s' l)) = (Inr False :: fault + bool)" if "alone l s'" for s'
    using that by (simp add: GCStallCondition_def alone_def)
  have sub: "returns (submit l io' s') (alone l)" if "alone l s'" for io' s' using that by simp
  have "returns (WriteHostIO l io old s) (\<lambda>_. True)"
    unfolding WriteHostIO_def WriteHostIO_by_def Let_def w(1) bindE_simps prod.case DiskWrite_def
      TierDownSlowCondition_def TierDownStallCondition_def
    by (intro returns_bind [where P = "alone l"] sl sta obs obs2 gcs TierDownSlowStall_alone sub s1 rest alone_set_stat)
  then show ?thesis by (simp add: returns_def)
qed

subsection \<open>The steps of a write\<close>

lemma fails_bind: "\<exists>x. m = Inr x \<and> P x \<Longrightarrow> (\<And>x. P x \<Longrightarrow> f x = Inl e) \<Longrightarrow> bindE m f = Inl e"
  by auto

text \<open>Without a disk a write gets to the check for a collection, with its page written.\<close>

lemma bind_steps: "\<exists>x. m = Inr x \<and> P x \<Longrightarrow> (\<And>x. P x \<Longrightarrow> \<exists>y. f x = k y \<and> Q y) \<Longrightarrow> \<exists>y. bindE m f = k y \<and> Q y"
  by auto

lemma WriteHostIO_alone_steps:
  assumes "alone l s" and "tier_at s l = t" and "0 < host_room (gcModule t)"
  shows "\<exists>t1. layer_ok t1 \<and> diskOp t1 = None \<and> settings t1 = settings t \<and> stored t1 = insert (page_align (io_lba io)) (stored t) \<and>
    free_blocks t1 + (if hostBlock (gcModule t) = None then 1 else 0) = free_blocks t \<and> nblocks (gcModule t1) = nblocks (gcModule t) \<and>
    (\<exists>s7. WriteHostIO l io old s = bindE (look (\<lambda>x. Inr (GCCondition (tier_at x l))) s7) (\<lambda>(g, s8).
        bindE (if g then HandleGC l s8 else Inr s8) (\<lambda>s9.
        bindE (look (\<lambda>x. Inr (TierDownCondition l x)) s9) (\<lambda>(tierdown, s10).
        if tierdown then bindE (HandleTierDown l s10) (\<lambda>(ok, ps, n, s11). Inr (ok, Some (ps, n), s11))
        else Inr (True, None, s10)))) \<and> tier_kept l t1 s7)"
proof -
  have a: "l < length (tiers s)" "layer_ok t" "diskOp t = None" "disks_ok s"
    using assms(1,2) by (auto simp: alone_def)
  from write_modules_spec [OF a(1) assms(2) a(2) assms(3), of "io_lba io" "io_length io" old True]
  obtain b q gc tm where w: "write_modules l (io_lba io) (io_length io) old True s =
        Inr (here b q, set_tier l (t\<lparr>gcModule := gc, tierModule := tm\<rparr>) s)"
     "layer_ok (t\<lparr>gcModule := gc, tierModule := tm\<rparr>)" "nblocks gc = nblocks (gcModule t)"
     "stored (t\<lparr>gcModule := gc, tierModule := tm\<rparr>) = insert (page_align (io_lba io)) (stored t)"
     "length (freeQ gc) + (if hostBlock (gcModule t) = None then 1 else 0) = length (freeQ (gcModule t))"
    by blast
  define t1 where "t1 = t\<lparr>gcModule := gc, tierModule := tm\<rparr>"
  define same where "same s' \<longleftrightarrow> tier_kept l t1 s' \<and> diskOp (tier_at s' l) = None" for s'
  have s1: "same (set_tier l t1 s)"
    using a w(2) disks_ok_set_tier [of s t1 l] assms(2) by (simp add: same_def tier_kept_def t1_def)
  have al: "alone l s'" if "same s'" for s'
    using that w(2) tier_kept_layer [of l t1 s'] by (simp add: same_def alone_def tier_kept_def t1_def layer_ok_def stored_def)
  have sq: "same s''" if "same s'" "quiet s' s''" for s' s''
    using that tier_kept_quiet [of l t1 s' s''] quiet_disk [of s' s'' l] by (simp add: same_def tier_kept_def)
  have st: "same (set_stat l f s')" if "same s'" for f s'
    using that tier_kept_stat [of l t1 s' f] by (simp add: same_def tier_kept_def) (simp add: set_stat_def)
  have sl: "\<exists>s''. slow_down l c bump s' = Inr s'' \<and> same s''"
    if "same s'" "observable s' c" "\<And>st. traffic (bump st) = traffic st" for c bump s'
    using slow_down_quiet [of s' c bump l] that sq [OF that(1)] al [OF that(1)] unfolding alone_def by blast
  have sta: "\<exists>s''. stall l c bump s' = Inr s'' \<and> same s''" if "same s'" "\<And>s'. alone l s' \<Longrightarrow> c s' = Inr False" for c bump s'
    using stall_quiet_alone [of l s' c bump] that sq [OF that(1)] al [OF that(1)] by blast
  have sub: "\<exists>s''. submit l io' s' = Inr s'' \<and> same s''" if "same s'" for io' s' using that al [OF that] by simp
  have obs: "observable s' (TierDownSlowStallCondition l tierDownWL)" if "same s'" for s'
    using TierDownSlowStall_alone alone_quiet [OF al [OF that]] by (auto simp: observable_def)
  have gcs: "Inr (GCStallCondition (tier_at s' l)) = (Inr False :: fault + bool)" if "alone l s'" for s'
    using that by (simp add: GCStallCondition_def alone_def)
  have "\<exists>s7. WriteHostIO l io old s = bindE (look (\<lambda>x. Inr (GCCondition (tier_at x l))) s7) (\<lambda>(g, s8).
        bindE (if g then HandleGC l s8 else Inr s8) (\<lambda>s9.
        bindE (look (\<lambda>x. Inr (TierDownCondition l x)) s9) (\<lambda>(tierdown, s10).
        if tierdown then bindE (HandleTierDown l s10) (\<lambda>(ok, ps, n, s11). Inr (ok, Some (ps, n), s11))
        else Inr (True, None, s10)))) \<and> same s7"
    unfolding WriteHostIO_def WriteHostIO_by_def Let_def w(1) [folded t1_def] bindE_simps prod.case DiskWrite_def
      TierDownSlowCondition_def TierDownStallCondition_def
    by (rule bind_steps [OF sl [OF s1 observable_pure]], simp add: traffic_def,
        rule bind_steps [OF sl], assumption, erule obs, simp add: traffic_def,
        rule bind_steps [OF sta], assumption, erule gcs,
        rule bind_steps [OF sta], assumption, erule TierDownSlowStall_alone,
        rule bind_steps [OF sub], assumption, rule exI, rule conjI, rule refl, erule st)
  then show ?thesis using w(2-5) a(3)
    by (intro exI [of _ t1]) (auto simp: t1_def same_def settings_def free_blocks_def)
qed

text \<open>What the check finds, in any later state in which the tier is the same.\<close>

lemma tier_kept_look:
  assumes "tier_kept l t1 s"
  shows "\<exists>x. look (\<lambda>x. Inr (f x)) s = Inr x \<and> (case x of (b, s') \<Rightarrow> tier_kept l t1 s' \<and> b = f s')"
  using look_quiet [of s "\<lambda>x. Inr (f x)"] assms tier_kept_quiet [OF assms] by (fastforce simp: tier_kept_def)

lemma tier_kept_GCCondition:
  assumes "tier_kept l t1 s" and "layer_ok t1" and "diskOp t1 = None"
  shows "GCCondition (tier_at s l) \<longleftrightarrow> free_blocks t1 < unat (gcWL t1)"
proof -
  have "settings (tier_at s l) = settings t1" "gcModule (tier_at s l) = gcModule t1" using assms(1) by (simp_all add: tier_kept_def)
  then show ?thesis using settings_fields(2,8) [of "tier_at s l" t1] unat_free_blocks [OF assms(2)] assms(3)
    by (simp add: GCCondition_def word_less_nat_alt)
qed

text \<open>A write that leaves fewer free blocks than the water level of the collection dereferences a null pointer.\<close>

lemma WriteHostIO_needs_disk:
  assumes "alone l s" and "0 < host_room (gcModule (tier_at s l))" and "\<not> spacious (tier_at s l)"
  shows "WriteHostIO l io old s = Inl NullDeref"
proof -
  obtain t1 s7 where t1: "layer_ok t1" "diskOp t1 = None" "settings t1 = settings (tier_at s l)"
      "free_blocks t1 + (if hostBlock (gcModule (tier_at s l)) = None then 1 else 0) = free_blocks (tier_at s l)" "tier_kept l t1 s7"
      "WriteHostIO l io old s = bindE (look (\<lambda>x. Inr (GCCondition (tier_at x l))) s7) (\<lambda>(g, s8).
        bindE (if g then HandleGC l s8 else Inr s8) (\<lambda>s9.
        bindE (look (\<lambda>x. Inr (TierDownCondition l x)) s9) (\<lambda>(tierdown, s10).
        if tierdown then bindE (HandleTierDown l s10) (\<lambda>(ok, ps, n, s11). Inr (ok, Some (ps, n), s11))
        else Inr (True, None, s10))))"
    using WriteHostIO_alone_steps [OF assms(1) refl assms(2), of io old] by blast
  have low: "free_blocks t1 < unat (gcWL t1)" using assms(3) t1(4) settings_fields(2) [OF t1(3)] by (simp add: spacious_def)
  show ?thesis
    unfolding t1(6)
  proof (rule fails_bind [OF tier_kept_look [OF t1(5)]], clarify)
    fix s8 assume k: "tier_kept l t1 s8"
    have "diskOp (tier_at s8 l) = None" using k t1(2) settings_fields(8) [of "tier_at s8 l" t1] by (simp add: tier_kept_def)
    then show "bindE (if GCCondition (tier_at s8 l) then HandleGC l s8 else Inr s8) (\<lambda>s9.
        bindE (look (\<lambda>x. Inr (TierDownCondition l x)) s9) (\<lambda>(tierdown, s10).
        if tierdown then bindE (HandleTierDown l s10) (\<lambda>(ok, ps, n, s11). Inr (ok, Some (ps, n), s11))
        else Inr (True, None, s10))) = Inl NullDeref"
      using tier_kept_GCCondition [OF k t1(1,2)] low HandleGC_no_disk [of s8 l] k by (simp add: tier_kept_def)
  qed
qed

subsection \<open>A water level that is too low\<close>

text \<open>
  If the pages to tier down (the excess over \<open>tierDownWL\<close> and \<open>tierDownBlockCnt\<close> blocks) are more
  than tier 0 holds, the write that reaches the water level ends the program.
\<close>

lemma WriteHostIO_exits:
  assumes "alone 0 s" and "tier_at s 0 = t" and "spacious t" and "0 < host_room (gcModule t)"
    and "c = card (insert (page_align (io_lba io)) (stored t))"
    and "tierDownWL t \<le> of_nat c" and "c < unat (of_nat c - tierDownWL t + tierDownBlockCnt t * 512)"
  shows "WriteHostIO 0 io old s = Inl ExitFailure"
proof -
  obtain t1 s7 where t1: "layer_ok t1" "diskOp t1 = None" "settings t1 = settings t"
      "stored t1 = insert (page_align (io_lba io)) (stored t)"
      "free_blocks t1 + (if hostBlock (gcModule t) = None then 1 else 0) = free_blocks t" "tier_kept 0 t1 s7"
      "WriteHostIO 0 io old s = bindE (look (\<lambda>x. Inr (GCCondition (tier_at x 0))) s7) (\<lambda>(g, s8).
        bindE (if g then HandleGC 0 s8 else Inr s8) (\<lambda>s9.
        bindE (look (\<lambda>x. Inr (TierDownCondition 0 x)) s9) (\<lambda>(tierdown, s10).
        if tierdown then bindE (HandleTierDown 0 s10) (\<lambda>(ok, ps, n, s11). Inr (ok, Some (ps, n), s11))
        else Inr (True, None, s10))))"
    using WriteHostIO_alone_steps [OF assms(1,2,4), of io old] by blast
  have high: "\<not> free_blocks t1 < unat (gcWL t1)"
    using assms(3) t1(5) settings_fields(2) [OF t1(3)] by (simp add: spacious_def split: if_split_asm)
  have fin: "TierDownCondition 0 s' \<and> HandleTierDown 0 s' = Inl ExitFailure" if k: "tier_kept 0 t1 s'" for s'
  proof -
    have lo: "layer_ok (tier_at s' 0)" "stored (tier_at s' 0) = stored t1"
      using k t1(1) by (simp_all add: tier_kept_def layer_ok_def stored_def)
    have se: "tierDownWL (tier_at s' 0) = tierDownWL t" "tierDownBlockCnt (tier_at s' 0) = tierDownBlockCnt t" "diskOp (tier_at s' 0) = None"
      using k t1(2,3) settings_fields(5,6,8) [of "tier_at s' 0" t1] settings_fields(5,6) [of t1 t] by (simp_all add: tier_kept_def)
    have gs: "GetLogicalSizeOccupied (gcModule (tier_at s' 0)) = of_nat c"
      using GetLogicalSizeOccupied_eq(1) lo t1(4) assms(5) by (simp add: layer_ok_def stored_def)
    then have "TierDownCondition 0 s'" using se assms(6) by (simp add: TierDownCondition_def Let_def)
    moreover have "HandleTierDown 0 s' = Inl ExitFailure"
    proof (rule HandleTierDown_too_many [OF refl lo(1)])
      have "card (stored (tier_at s' 0)) = c" using lo(2) t1(4) assms(5) by simp
      then show "card (stored (tier_at s' 0)) < unat (GetLogicalSizeOccupied (gcModule (tier_at s' 0)) -
          tierDownWL (tier_at s' 0) + tierDownBlockCnt (tier_at s' 0) * 512)"
        unfolding gs se using assms(7) by (simp only:)
    qed
    ultimately show ?thesis by blast
  qed
  show ?thesis
    unfolding t1(7)
  proof (rule fails_bind [OF tier_kept_look [OF t1(6)]], clarify)
    fix s8 assume k: "tier_kept 0 t1 s8"
    have "bindE (look (\<lambda>x. Inr (TierDownCondition 0 x)) s8) (\<lambda>(tierdown, s10).
        if tierdown then bindE (HandleTierDown 0 s10) (\<lambda>(ok, ps, n, s11). Inr (ok, Some (ps, n), s11))
        else Inr (True, None, s10)) = Inl ExitFailure"
      by (rule fails_bind [OF tier_kept_look [OF k]]) (use fin in auto)
    then show "bindE (if GCCondition (tier_at s8 0) then HandleGC 0 s8 else Inr s8) (\<lambda>s9.
        bindE (look (\<lambda>x. Inr (TierDownCondition 0 x)) s9) (\<lambda>(tierdown, s10).
        if tierdown then bindE (HandleTierDown 0 s10) (\<lambda>(ok, ps, n, s11). Inr (ok, Some (ps, n), s11))
        else Inr (True, None, s10))) = Inl ExitFailure"
      using tier_kept_GCCondition [OF k t1(1,2)] high by simp
  qed
qed

end
