(* ===== verification/Layer_Properties.thy ===== *)
theory Layer_Properties
  imports Layer_Alone
begin

text \<open>What the operations of one tier promise, with the threads of its disk running in between.\<close>

subsection \<open>A tier with a disk, for the witnesses\<close>

definition disk_layer :: LayerModuleConfigure where
  "disk_layer = \<lparr>lm_layerIdx = 0, lm_gcConf = \<lparr>totalBlockCnt = 8, indexBucketCnt = 1\<rparr>, lm_gcWL = 1, lm_gcBlockCnt = 1,
     lm_gcStallWL = 0, lm_tierConf = \<lparr>indexBucketNum = 1\<rparr>, lm_tierDownWL = 1024, lm_tierDownBlockCnt = 1,
     lm_tierDownStallWL = 1536, lm_needDiskOperation = True, lm_requestQueueSize = 2, lm_hostConcurrency = 1,
     lm_backConcurrency = 1\<rparr>"

definition one_tier :: "LayerModule \<Rightarrow> (u64 \<times> round list) list \<Rightarrow> System" where
  "one_tier t fut = \<lparr>tiers = [t], g_IOPS = 0, now = 0, future = fut\<rparr>"

lemma tier_at_one [simp]: "tier_at (one_tier t fut) 0 = t" "length (tiers (one_tier t fut)) = 1" "future (one_tier t fut) = fut"
  by (simp_all add: one_tier_def tier_at_def)

lemma layer_created:
  assumes "c = disk_layer \<or> c = disk_layer\<lparr>lm_needDiskOperation := False\<rparr>"
  shows "\<exists>t. CreateLayerModule c = Inr t \<and> layer_ok t \<and> sized t \<and> stored t = {} \<and> free_blocks t = 8 \<and> hostBlock (gcModule t) = None \<and>
    gcWL t = 1 \<and> (diskOp t = None \<longleftrightarrow> \<not> lm_needDiskOperation c) \<and> disks_ok (one_tier t fut)"
proof -
  have h: "indexBucketCnt (lm_gcConf c) * 100 \<noteq> 0" "indexBucketNum (lm_tierConf c) * 100 \<noteq> 0"
      "lm_needDiskOperation c \<longrightarrow> lm_requestQueueSize c \<noteq> 0"
      "totalBlockCnt (lm_gcConf c) = 8" "lm_gcWL c = 1" "lm_gcBlockCnt c = 1" "lm_tierDownWL c = 1024" "lm_tierDownBlockCnt c = 1"
    using assms by (auto simp: disk_layer_def)
  obtain t where "CreateLayerModule c = Inr t" "layer_ok t" "stored t = {}" "free_blocks t = 8" "nblocks (gcModule t) = 8"
      "hostBlock (gcModule t) = None" "\<forall>d. diskOp t = Some d \<longrightarrow> disk_ok d" "diskOp t = None \<longleftrightarrow> \<not> lm_needDiskOperation c"
      "gcWL t = 1" "gcBlockCnt t = 1" "tierDownWL t = 1024" "tierDownBlockCnt t = 1"
    by (rule exE [OF CreateLayerModule_spec [OF h(1,2)]], rule h(3) [rule_format], assumption) (use h(4-8) in auto)
  then show ?thesis by (intro exI [of _ t]) (simp add: sized_def disks_ok_def)
qed

lemma disk_layer_created:
  "\<exists>t. CreateLayerModule disk_layer = Inr t \<and> layer_ok t \<and> sized t \<and> stored t = {} \<and> free_blocks t = 8 \<and>
    hostBlock (gcModule t) = None \<and> gcWL t = 1 \<and> diskOp t \<noteq> None \<and> disks_ok (one_tier t fut)"
proof -
  have "lm_needDiskOperation disk_layer" by (simp add: disk_layer_def)
  then show ?thesis using layer_created [OF disjI1, OF refl, of fut] by blast
qed

lemma diskless_layer_created:
  "\<exists>t. CreateLayerModule (disk_layer\<lparr>lm_needDiskOperation := False\<rparr>) = Inr t \<and> diskOp t = None \<and> disks_ok (one_tier t fut)"
  using layer_created [OF disjI2, OF refl, of fut] by auto

lemma disk_layer_queue:
  assumes "CreateLayerModule disk_layer = Inr t"
  shows "\<exists>d. diskOp t = Some d \<and> hostShutdown d = [False] \<and>
    hostQ d = \<lparr>bq_shutdown = False, bq_queueSize = 2, bq_currentSize = 0, bq_queue = replicate 2 zero_io, pushCursor = 0, popCursor = 0\<rparr>"
  using assms
  by (auto simp: CreateLayerModule_def disk_layer_def fault_iff CreateDiskOperator_def CreateBlockingQueue_def)

lemma one_request:
  assumes "CreateLayerModule disk_layer = Inr t"
  shows "\<exists>s. submit 0 (read_io p 1 HOST 0) (one_tier t [(1, []), (2, [RunHost 0 0])]) = Inr s \<and> host_alive 0 0 s \<and>
    host_backlog 0 s = 1 \<and> future s = [(2, [RunHost 0 0])]"
proof -
  obtain d where "diskOp t = Some d" "hostShutdown d = [False]"
      "hostQ d = \<lparr>bq_shutdown = False, bq_queueSize = 2, bq_currentSize = 0, bq_queue = replicate 2 zero_io, pushCursor = 0, popCursor = 0\<rparr>"
    using disk_layer_queue [OF assms] by blast
  then show ?thesis
    by (simp add: submit_def one_tier_def tier_at_def wait_while_def host_full_def bq_IsFull_def HandleDiskIO_def read_io_def
        bq_Put_def next_slot_def set_tier_def set_disk_def with_at_def disk_at_def)
qed

text \<open>C12: A host write to a tier that has room writes the page, keeps the tier consistent, counts the write,
  and changes no other tier. If it makes tier 0 give up pages, these are just as many as put it \<open>tierDownBlockCnt\<close> blocks
  below its water level. For a tier behind tier 0 it is assumed (\<open>calm\<close>) that tier 0 is below the levels of that tier;
  then it gives up none.\<close>

theorem host_write_to_tier:
  assumes "disks_ok s" and "l < length (tiers s)" and "layer_ok (tier_at s l)" and "sized (tier_at s l)"
    and "2 \<le> free_blocks (tier_at s l)"
    and "diskOp (tier_at s l) = None \<longrightarrow> spacious (tier_at s l)" and "calm l s"
  shows "ensures (WriteHostIO l io old s) (\<lambda>(ok, out, s'). disks_ok s' \<and> changes {l} s s' \<and>
     host_written (page_align (io_lba io)) (tier_at s l) out (tier_at s' l) \<and> (l \<noteq> 0 \<longrightarrow> out = None))"
  by (rule ensures_mono [OF WriteHostIO_spec [OF assms(1,2) refl assms(3-7)]]) (auto simp: tier_down_due_def)

theorem host_write_to_tier_witness:
  "\<exists>t. CreateLayerModule disk_layer = Inr t \<and>
     ensures (WriteHostIO 0 \<lparr>io_lba = 8192, io_length = 8192, io_op = Some WRITE, io_timestamp = 0\<rparr> \<lparr>readFreq = 0, writeFreq = 0\<rparr>
       (one_tier t [])) (\<lambda>(ok, out, s'). host_written 8192 t out (tier_at s' 0))"
proof -
  obtain t where t: "CreateLayerModule disk_layer = Inr t" "layer_ok t" "sized t" "free_blocks t = 8" "gcWL t = 1"
      "disks_ok (one_tier t [])" "diskOp t \<noteq> None"
    using disk_layer_created [of "[]"] by blast
  let ?io = "\<lparr>io_lba = 8192, io_length = 8192, io_op = Some WRITE, io_timestamp = 0\<rparr>"
  have "ensures (WriteHostIO 0 ?io \<lparr>readFreq = 0, writeFreq = 0\<rparr> (one_tier t [])) (\<lambda>(ok, out, s').
      disks_ok s' \<and> changes {0} (one_tier t []) s' \<and>
      host_written (page_align (io_lba ?io)) (tier_at (one_tier t []) 0) out (tier_at s' 0) \<and> ((0::nat) \<noteq> 0 \<longrightarrow> out = None))"
    by (rule host_write_to_tier) (use t in \<open>simp_all del: not_None_eq\<close>)
  moreover have "page_align 8192 = 8192" by (simp add: page_align_def)
  ultimately have "ensures (WriteHostIO 0 ?io \<lparr>readFreq = 0, writeFreq = 0\<rparr> (one_tier t []))
      (\<lambda>(ok, out, s'). host_written 8192 t out (tier_at s' 0))"
    by (elim ensures_mono) auto
  then show ?thesis using t(1) by blast
qed

text \<open>C22: The wait of a collection for the host requests of its tier ends: it is enough that some host thread
  of the disk runs as often as there are requests, whatever runs in between.\<close>

theorem collection_wait_ends:
  assumes "disks_ok s" and "host_alive l i s"
    and "host_backlog l s \<le> length (filter (\<lambda>r. r = RunHost l i) (concat (map snd (future s))))"
  shows "\<exists>w s'. wait_while (host_busy l) s = Inr (w, s') \<and> quiet s s' \<and> host_busy l s' = Inr False"
  using host_busy_ends [OF assms] .

text \<open>One request waits, and the host thread runs once.\<close>

theorem collection_wait_ends_witness:
  "\<exists>t s w s'. CreateLayerModule disk_layer = Inr t \<and>
     submit 0 (read_io \<lparr>pl_block = 0, pl_page = 0\<rparr> 1 HOST 0) (one_tier t [(1, []), (2, [RunHost 0 0])]) = Inr s \<and>
     wait_while (host_busy 0) s = Inr (w, s') \<and> host_busy 0 s' = Inr False"
proof -
  let ?p = "\<lparr>pl_block = 0, pl_page = 0\<rparr>" and ?fut = "[(1, []), (2, [RunHost 0 0])]"
  obtain t where t: "CreateLayerModule disk_layer = Inr t" "disks_ok (one_tier t ?fut)"
    using disk_layer_created [of ?fut] by blast
  obtain s where s: "submit 0 (read_io ?p 1 HOST 0) (one_tier t ?fut) = Inr s" "host_alive 0 0 s" "host_backlog 0 s = 1"
      "future s = [(2, [RunHost 0 0])]"
    using one_request [OF t(1), of ?p] by blast
  have "disks_ok s" using submit_quiet [OF t(2), of 0 "read_io ?p 1 HOST 0"] s(1) by (auto simp: ensures_def quiet_def)
  then show ?thesis using collection_wait_ends [of s 0 0] s t(1) by auto
qed

text \<open>A collection needs a disk: in a tier without one it dereferences a null pointer, and so does any
  write to it that finds too few free blocks.\<close>

theorem collection_needs_disk:
  assumes "disks_ok s" and "l < length (tiers s)" and "diskOp (tier_at s l) = None"
  shows "HandleGC l s = Inl NullDeref"
  using HandleGC_no_disk [OF assms] .

theorem collection_needs_disk_witness:
  "\<exists>t. CreateLayerModule (disk_layer\<lparr>lm_needDiskOperation := False\<rparr>) = Inr t \<and> HandleGC 0 (one_tier t []) = Inl NullDeref"
proof -
  obtain t where t: "CreateLayerModule (disk_layer\<lparr>lm_needDiskOperation := False\<rparr>) = Inr t" "diskOp t = None" "disks_ok (one_tier t [])"
    using diskless_layer_created [of "[]"] by blast
  show ?thesis using collection_needs_disk [of "one_tier t []" 0] t by simp
qed

text \<open>C25: Pages tiered down to a tier with room arrive: it holds them besides its own, each with the access
  counts it came with; but to be sent no page at all reads past the end of an array.\<close>

theorem tiered_pages_arrive:
  assumes "disks_ok s" and "l < length (tiers s)" and "layer_ok (tier_at s l)" and "sized (tier_at s l)"
    and "length ps + PAGE_NUM_PER_BLOCK < host_room (gcModule (tier_at s l))"
    and "diskOp (tier_at s l) = None \<longrightarrow>
      length ps + PAGE_NUM_PER_BLOCK * (unat (gcWL (tier_at s l)) + 1) \<le> host_room (gcModule (tier_at s l))"
  shows "if ps = [] then WriteTierDownIO l ps s = Inl OutOfBounds
    else ensures (WriteTierDownIO l ps s) (\<lambda>s'. disks_ok s' \<and> changes {l} s s' \<and> arrived ps (tier_at s l) (tier_at s' l))"
  using WriteTierDownIO_empty [OF assms(1)] WriteTierDownIO_spec [OF assms(1,2) refl assms(3,4) _ assms(5,6)] by simp

theorem tiered_pages_arrive_witness:
  "\<exists>t. CreateLayerModule disk_layer = Inr t \<and>
     ensures (WriteTierDownIO 0 [\<lparr>tp_lba = 8192, tp_freq = \<lparr>readFreq = 3, writeFreq = 4\<rparr>\<rparr>] (one_tier t []))
       (\<lambda>s'. stored (tier_at s' 0) = {8192})"
proof -
  obtain t where t: "CreateLayerModule disk_layer = Inr t" "layer_ok t" "sized t" "stored t = {}" "free_blocks t = 8"
      "hostBlock (gcModule t) = None" "gcWL t = 1" "diskOp t \<noteq> None" "disks_ok (one_tier t [])"
    using disk_layer_created [of "[]"] by blast
  let ?ps = "[\<lparr>tp_lba = 8192, tp_freq = \<lparr>readFreq = 3, writeFreq = 4\<rparr>\<rparr>]"
  have "host_room (gcModule t) = 4096" using t(5,6) by (simp add: host_room_def free_blocks_def)
  then have "ensures (WriteTierDownIO 0 ?ps (one_tier t []))
      (\<lambda>s'. disks_ok s' \<and> changes {0} (one_tier t []) s' \<and> arrived ?ps (tier_at (one_tier t []) 0) (tier_at s' 0))"
    using tiered_pages_arrive [of "one_tier t []" 0 ?ps] t(2,3,8,9) by simp
  moreover have "page_align 8192 = 8192" by (simp add: page_align_def)
  ultimately have "ensures (WriteTierDownIO 0 ?ps (one_tier t [])) (\<lambda>s'. stored (tier_at s' 0) = {8192})"
    by (elim ensures_mono) (simp add: arrived_def t(4))
  then show ?thesis using t(1) by blast
qed

end
