(* ===== verification/Layer_Raced.thy ===== *)
theory Layer_Raced
  imports Layer_Properties
begin

text \<open>
  Tiering down while the tier-down thread clears the globals that \<open>HandleTierDown\<close> works on: without any clearing it is
  \<open>HandleTierDown\<close>; with one, it faults or leaves the flash layer and the access statistics of the tier apart.
\<close>

subsection \<open>The loops\<close>

lemma cleared_nothing [simp]: "cleared (False, False) g = g"
  by (simp add: cleared_def)

lemma delete_shared_calm:
  "snd g \<noteq> 0 \<or> ps = [] \<Longrightarrow> fst g \<noteq> None \<Longrightarrow>
   delete_shared (\<lambda>_. (False, False)) i gc ps g = bindE (delete_pages gc ps) (\<lambda>(locs, gc1). Inr (locs, gc1, g))"
  by (induction ps arbitrary: i gc) (auto simp: Let_def bindE_def split: sum.split)

lemma read_shared_calm:
  "snd g \<noteq> 0 \<or> locs = [] \<Longrightarrow>
   read_shared (\<lambda>_. (False, False)) i l locs g s = bindE (submit_all l (map (\<lambda>loc. read_io loc 1 BACK_TIER 0) locs) s) (\<lambda>s1. Inr (g, s1))"
  by (induction locs arbitrary: i s) (auto simp: Let_def bindE_def split: sum.split)

text \<open>The pointer cleared before the \<open>k\<close>-th page is read, and the count cleared before the \<open>k\<close>-th test.\<close>

lemma delete_shared_null:
  assumes "delete_pages gc ps = Inr r" and "k < length ps" and "n \<noteq> 0"
  shows "delete_shared (\<lambda>j. (j = i + 1 + 2 * k, False)) i gc ps (Some qs, n) = Inl NullDeref"
  using assms
proof (induction ps arbitrary: gc k i r)
  case (Cons p ps)
  obtain loc gc1 r1 where d: "GC_Delete gc (tp_lba p) 8192 = Inr (loc, gc1)" "delete_pages gc1 ps = Inr r1"
    using Cons.prems(1) by (auto simp: fault_iff)
  show ?case
  proof (cases k)
    case 0
    then show ?thesis using Cons.prems(3) by (simp add: Let_def cleared_def)
  next
    case (Suc m)
    then have "delete_shared (\<lambda>j. (j = (i + 2) + 1 + 2 * m, False)) (i + 2) gc1 ps (Some qs, n) = Inl NullDeref"
      using Cons.IH [OF d(2), of m "i + 2"] Cons.prems(2,3) by simp
    then show ?thesis using Suc d(1) Cons.prems(3) by (simp add: Let_def cleared_def)
  qed
qed simp

lemma delete_shared_cut:
  assumes "k < length ps" and "n \<noteq> 0"
  shows "delete_shared (\<lambda>j. (False, j = i + 2 * k)) i gc ps (Some qs, n) =
    bindE (delete_pages gc (take k ps)) (\<lambda>(locs, gc1). Inr (locs, gc1, Some qs, 0))"
  using assms
proof (induction ps arbitrary: gc k i)
  case (Cons p ps)
  show ?case
  proof (cases k)
    case 0
    then show ?thesis by (simp add: Let_def cleared_def)
  next
    case (Suc m)
    then have "delete_shared (\<lambda>j. (False, j = (i + 2) + 2 * m)) (i + 2) gc1 ps (Some qs, n) =
        bindE (delete_pages gc1 (take m ps)) (\<lambda>(locs, gc2). Inr (locs, gc2, Some qs, 0))" for gc1
      using Cons.IH [of m "i + 2"] Cons.prems by simp
    then show ?thesis using Suc Cons.prems(2) by (auto simp: Let_def cleared_def bindE_def split: sum.split)
  qed
qed simp

lemma read_shared_stopped: "\<forall>j. \<not> fst (hit j) \<Longrightarrow> read_shared hit i l locs (g, 0) s = Inr ((g, 0), s)"
  by (cases locs) (simp_all add: Let_def cleared_def)

subsection \<open>The whole\<close>

lemma HandleTierDown_undisturbed:
  "HandleTierDown_raced (\<lambda>_. (False, False)) l s = bindE (HandleTierDown l s) (\<lambda>(ok, ps, n, s1). Inr (ok, Some ps, n, s1))"
proof -
  have none: "ps = []" if "Tier_TierDown tm 0 = Inr (ok, ps, tm')" for tm ok ps tm'
    using that by (auto simp: Tier_TierDown_def)
  have d: "delete_shared (\<lambda>_. (False, False)) i gc ps (Some ps, n) = bindE (delete_pages gc ps) (\<lambda>(locs, gc1). Inr (locs, gc1, Some ps, n))"
    and r: "length locs = length ps \<Longrightarrow> read_shared (\<lambda>_. (False, False)) i x locs (Some ps, n) z =
        bindE (submit_all x (map (\<lambda>loc. read_io loc 1 BACK_TIER 0) locs) z) (\<lambda>s1. Inr ((Some ps, n), s1))"
    if "Tier_TierDown tm n = Inr (ok, ps, tm')" for tm n ok ps tm' i gc locs x z
    using none [of tm ok ps tm'] that
    by (intro delete_shared_calm read_shared_calm; cases "n = 0"; auto)+
  have len: "length locs = length ps" if "delete_pages gc ps = Inr (locs, gc1)" for gc ps locs gc1
    using that by (induction ps arbitrary: gc locs gc1) (auto simp: fault_iff)
  show ?thesis unfolding HandleTierDown_raced_def HandleTierDown_def Let_def
    by (auto simp: bindE_assoc d r len intro!: bindE_cong)
qed

text \<open>C40: A tier-down is not safe against the thread it works for. If the thread sets the pointer to the pages to null before
  the \<open>k\<close>-th page is looked at, the writing thread dereferences it. If it sets their number to 0 before the \<open>k\<close>-th
  test, the tier-down reports success, but only the first \<open>k\<close> pages leave the flash layer, and all leave the access
  statistics: the tier is inconsistent from then on.\<close>

theorem tier_down_race:
  assumes "layer_ok (tier_at s l)" and "sized (tier_at s l)" and "unat (tierDownWL (tier_at s l)) \<le> card (stored (tier_at s l))"
    and "k < card (stored (tier_at s l)) - unat (tierDownWL (tier_at s l)) + unat (tierDownBlockCnt (tier_at s l)) * 512"
  shows "HandleTierDown_raced (\<lambda>j. (j = 3 + 2 * k + 1, False)) l s = Inl NullDeref \<and>
    (\<exists>ps t'. HandleTierDown_raced (\<lambda>j. (False, j = 3 + 2 * k)) l s = Inr (True, Some ps, 0, set_tier l t' s) \<and>
      k < length ps \<and> distinct (map tp_lba ps) \<and> tp_lba ` set ps \<subseteq> stored (tier_at s l) \<and>
      stored t' = stored (tier_at s l) - tp_lba ` set (take k ps) \<and>
      dom (freq_abs (tierModule t')) = stored (tier_at s l) - tp_lba ` set ps \<and> \<not> layer_ok t')"
proof -
  let ?t = "tier_at s l"
  let ?n = "GetLogicalSizeOccupied (gcModule ?t) - tierDownWL ?t + tierDownBlockCnt ?t * 512"
  have g: "gc_inv (gcModule ?t)" and fd: "dom (freq_abs (tierModule ?t)) = stored ?t" using assms(1) by (simp_all add: layer_ok_def)
  obtain ps tm where td: "tier_down (unat ?n) (tierModule ?t) = Inr (ps, tm)" "tier_inv tm"
     "length ps = unat ?n" "distinct (map tp_lba ps)" "\<forall>p \<in> set ps. freq_abs (tierModule ?t) (tp_lba p) = Some (tp_freq p)"
     "freq_abs tm = freq_abs (tierModule ?t) |` (- tp_lba ` set ps)"
     "\<forall>p \<in> set ps. tp_lba p \<in> dom (space_abs (gcModule ?t)) \<and> page_align (tp_lba p) = tp_lba p"
    by (rule tier_down_pages [OF assms(1-3)])
  have k: "k < length ps" using assms(4) td(3) tier_down_count [OF assms(1-3)] by simp
  then have n: "?n \<noteq> 0" using td(3) by auto
  then have tt: "Tier_TierDown (tierModule ?t) ?n = Inr (True, ps, tm)" using td(1) by (simp add: Tier_TierDown_def)
  obtain r where "delete_pages (gcModule ?t) ps = Inr r" using delete_pages_spec [OF g td(4) td(7) [rule_format]] by blast
  from delete_shared_null [OF this k n, of 3 ps]
  have null: "HandleTierDown_raced (\<lambda>j. (j = 3 + 2 * k + 1, False)) l s = Inl NullDeref"
    using n tt by (simp add: HandleTierDown_raced_def Let_def cleared_def)
  have tk: "p \<in> set ps" if "p \<in> set (take k ps)" for p using that by (rule in_set_takeD)
  have "distinct (map tp_lba (take k ps))" using td(4) by (simp add: take_map [symmetric] distinct_take)
  from delete_pages_spec [OF g this td(7) [rule_format, OF tk]] obtain locs gc where dp: "delete_pages (gcModule ?t) (take k ps) = Inr (locs, gc)"
      "space_abs gc = space_abs (gcModule ?t) |` (- tp_lba ` set (take k ps))" by blast
  define t' where "t' = ?t\<lparr>gcModule := gc, tierModule := tm, statModule := (statModule ?t)
                 \<lparr>tierDownWriteCount := tierDownWriteCount (statModule ?t) + of_nat (length locs),
                  tierDownCount := tierDownCount (statModule ?t) + 1\<rparr>\<rparr>"
  have cut: "HandleTierDown_raced (\<lambda>j. (False, j = 3 + 2 * k)) l s = Inr (True, Some ps, 0, set_tier l t' s)"
    using n tt delete_shared_cut [OF k n, of 3 "gcModule ?t" ps] dp(1)
    by (simp add: HandleTierDown_raced_def Let_def cleared_def read_shared_stopped t'_def)
  have sub: "tp_lba ` set ps \<subseteq> stored ?t" using td(7) by (auto simp: stored_def)
  have st: "stored t' = stored ?t - tp_lba ` set (take k ps)" using dp(2) by (auto simp: stored_def t'_def)
  have fa: "dom (freq_abs (tierModule t')) = stored ?t - tp_lba ` set ps" using td(6) fd by (auto simp: t'_def)
  have "tp_lba (ps ! k) \<notin> tp_lba ` set (take k ps)"
  proof
    assume "tp_lba (ps ! k) \<in> tp_lba ` set (take k ps)"
    then obtain i where "i < k" "tp_lba (ps ! i) = tp_lba (ps ! k)" by (auto simp: in_set_conv_nth)
    then show False using td(4) k by (auto simp: distinct_conv_nth)
  qed
  then have "tp_lba (ps ! k) \<in> stored t' - dom (freq_abs (tierModule t'))" unfolding st fa using sub k by auto
  then have "\<not> layer_ok t'" by (auto simp: layer_ok_def)
  then show ?thesis using null cut k td(4) sub st fa by blast
qed

text \<open>A tier that holds two pages and is to give up both.\<close>

definition greedy_layer :: LayerModuleConfigure where
  "greedy_layer = disk_layer\<lparr>lm_tierDownWL := 0, lm_tierDownBlockCnt := 0, lm_needDiskOperation := False\<rparr>"

definition no_freq :: PageFreq where
  "no_freq = \<lparr>readFreq = 0, writeFreq = 0\<rparr>"

lemma two_pages:
  "\<exists>t t' loc. CreateLayerModule greedy_layer = Inr t \<and> layer_ok t' \<and> sized t' \<and> tierDownWL t' = 0 \<and> tierDownBlockCnt t' = 0 \<and>
     stored t' = {0, 8192} \<and>
     bindE (write_modules 0 0 8192 no_freq True (one_tier t [])) (\<lambda>(_, s). write_modules 0 8192 8192 no_freq True s) = Inr (loc, one_tier t' [])"
proof -
  have h: "indexBucketCnt (lm_gcConf greedy_layer) * 100 \<noteq> 0" "indexBucketNum (lm_tierConf greedy_layer) * 100 \<noteq> 0"
      "\<not> lm_needDiskOperation greedy_layer" "totalBlockCnt (lm_gcConf greedy_layer) = 8" "lm_gcWL greedy_layer = 1" "lm_gcBlockCnt greedy_layer = 1"
      "lm_tierDownWL greedy_layer = 0" "lm_tierDownBlockCnt greedy_layer = 0"
    by (simp_all add: greedy_layer_def disk_layer_def)
  obtain t where t: "CreateLayerModule greedy_layer = Inr t" "layer_ok t" "stored t = {}" "free_blocks t = 8" "nblocks (gcModule t) = 8"
      "hostBlock (gcModule t) = None" "gcWL t = 1" "gcBlockCnt t = 1" "tierDownWL t = 0" "tierDownBlockCnt t = 0"
    by (rule exE [OF CreateLayerModule_spec [OF h(1,2)]]) (use h(3-8) in auto)
  have at: "tier_at (one_tier u []) 0 = u" "0 < length (tiers (one_tier u []))" "set_tier 0 v (one_tier u []) = one_tier v []" for u v
    by (simp_all add: one_tier_def set_tier_def tier_at_def)
  have r: "host_room (gcModule t) = 4096" using t(4,6) by (simp add: host_room_def free_blocks_def)
  obtain a q gc tm where 1: "write_modules 0 0 8192 no_freq True (one_tier t []) = Inr (here a q, one_tier (t\<lparr>gcModule := gc, tierModule := tm\<rparr>) [])"
      "layer_ok (t\<lparr>gcModule := gc, tierModule := tm\<rparr>)" "stored (t\<lparr>gcModule := gc, tierModule := tm\<rparr>) = {0}" "nblocks gc = 8"
      "host_room (gcModule t) = Suc (host_room gc)"
    using write_modules_spec [OF at(2,1) t(2), of 0 8192 no_freq True] r t(3,5) by (auto simp: at page_align_def)
  let ?t1 = "t\<lparr>gcModule := gc, tierModule := tm\<rparr>"
  have "0 < host_room (gcModule ?t1)" using 1(5) r by simp
  from write_modules_spec [OF at(2,1) 1(2) this, of 8192 8192 no_freq True]
  obtain b p gc2 tm2 where 2: "write_modules 0 8192 8192 no_freq True (one_tier ?t1 []) = Inr (here b p, one_tier (?t1\<lparr>gcModule := gc2, tierModule := tm2\<rparr>) [])"
      "layer_ok (?t1\<lparr>gcModule := gc2, tierModule := tm2\<rparr>)" "stored (?t1\<lparr>gcModule := gc2, tierModule := tm2\<rparr>) = {8192, 0}" "nblocks gc2 = 8"
    using 1(3,4) by (auto simp: at page_align_def)
  then show ?thesis using t 1(1) by (intro exI [of _ t] exI [of _ "?t1\<lparr>gcModule := gc2, tierModule := tm2\<rparr>"] exI [of _ "here b p"])
    (simp add: sized_def insert_commute)
qed

theorem tier_down_race_witness:
  "\<exists>t t' loc ps t''. CreateLayerModule greedy_layer = Inr t \<and>
     bindE (write_modules 0 0 8192 no_freq True (one_tier t [])) (\<lambda>(_, s). write_modules 0 8192 8192 no_freq True s) = Inr (loc, one_tier t' []) \<and>
     HandleTierDown_raced (\<lambda>j. (j = 6, False)) 0 (one_tier t' []) = Inl NullDeref \<and>
     HandleTierDown_raced (\<lambda>j. (False, j = 5)) 0 (one_tier t' []) = Inr (True, Some ps, 0, set_tier 0 t'' (one_tier t' [])) \<and> \<not> layer_ok t''"
proof -
  obtain t t' loc where t: "CreateLayerModule greedy_layer = Inr t" "layer_ok t'" "sized t'" "tierDownWL t' = 0" "tierDownBlockCnt t' = 0"
      "stored t' = {0, 8192}"
      "bindE (write_modules 0 0 8192 no_freq True (one_tier t [])) (\<lambda>(_, s). write_modules 0 8192 8192 no_freq True s) = Inr (loc, one_tier t' [])"
    using two_pages by blast
  have c: "card (stored t') = 2" using t(6) by simp
  have "HandleTierDown_raced (\<lambda>j. (j = 3 + 2 * 1 + 1, False)) 0 (one_tier t' []) = Inl NullDeref \<and>
    (\<exists>ps t''. HandleTierDown_raced (\<lambda>j. (False, j = 3 + 2 * 1)) 0 (one_tier t' []) = Inr (True, Some ps, 0, set_tier 0 t'' (one_tier t' [])) \<and> \<not> layer_ok t'')"
    using tier_down_race [of "one_tier t' []" 0 1] t(2-5) c by auto
  then show ?thesis using t(1,7) by fastforce
qed

end
