(* ===== verification/IO_Scheduler.thy ===== *)
theory IO_Scheduler
  imports Layer_Alone
begin

text \<open>
  The choice of the tier for a host write: src/src/base/io_scheduler.c and io_scheduler.h.

  Three things of the C code are visible in the model. \<open>canBypass\<close> is a function pointer that the
  client may leave \<open>NULL\<close>. \<open>sizeThreshold\<close> and \<open>counterThreshold\<close> are never initialised, so
  \<open>CreateIOScheduler\<close> gets what \<open>malloc\<close> left in them. And \<open>g_IOPS\<close> is a \<open>uint32_t\<close> in
  disk_operator.c that this file declares as \<open>uint64_t\<close>, so it reads the four bytes behind the
  counter as well (\<open>after_g_IOPS\<close>).
\<close>

record IOScheduler =
  ideal_enable :: bool
  canBypass :: "(u64 \<Rightarrow> bool) option"
  sizeThreshold :: u32
  counterThreshold :: u32
  helper_enable :: bool
  iopsThreshold :: u32

record IOSchedulerConfigure =
  idealEnable :: bool
  idealBypass :: "(u64 \<Rightarrow> bool) option"
  normalEnable :: bool

definition IsHotOrCold :: "u64 \<Rightarrow> u32 \<Rightarrow> PageFreq \<Rightarrow> u32 \<Rightarrow> u32 \<Rightarrow> bool" where
  "IsHotOrCold lba len freq szThreshold cntThreshold = (if len > szThreshold then False else True)"

definition IsTierServiceAvaliable :: "DiskOperator \<Rightarrow> bool" where
  "IsTierServiceAvaliable d =
     (if QueryGCQueueSize d > 0 \<or> QueryTierQueueSize d > 0 \<or> QueryHostQueueSize d > 0 then False else True)"

definition IsTierServiceOveruse :: "DiskOperator \<Rightarrow> bool" where
  "IsTierServiceOveruse d = (if QueryHostQueueSize d < 32 then False else True)"

definition wide_IOPS :: "u32 \<Rightarrow> System \<Rightarrow> u64" where
  "wide_IOPS after_g_IOPS s = push_bit 32 (ucast after_g_IOPS) OR ucast (g_IOPS s)"

definition tier_free :: "nat \<Rightarrow> System \<Rightarrow> fault + bool" where
  "tier_free l s = (case diskOp (tier_at s l) of None \<Rightarrow> Inl NullDeref | Some d \<Rightarrow> Inr (IsTierServiceAvaliable d))"

text \<open>The tier and the state after the looks at the queues of tier 1.\<close>

definition ScheduleLayer :: "IOScheduler \<Rightarrow> u32 \<Rightarrow> u64 \<Rightarrow> u32 \<Rightarrow> PageFreq \<Rightarrow> System \<Rightarrow> fault + nat \<times> System" where
  "ScheduleLayer sc after_g_IOPS lba len pageFreq s =
     (if ideal_enable sc then
        (case canBypass sc of None \<Rightarrow> Inl NullDeref
         | Some f \<Rightarrow> Inr (if f lba \<and> \<not> IsFull 1 s then 1 else 0, s))
      else if \<not> helper_enable sc then Inr (0, s)
      else
        let isHot = IsHotOrCold lba len pageFreq (sizeThreshold sc) (counterThreshold sc) in
        if \<not> isHot \<and> \<not> IsFull 1 s then Inr (1, s)
        else if wide_IOPS after_g_IOPS s > ucast (iopsThreshold sc)
        then bindE (look (tier_free 1) s) (\<lambda>(free, s1). Inr (if free then 1 else 0, s1))
        else Inr (0, s))"

definition CreateIOScheduler :: "u32 \<Rightarrow> u32 \<Rightarrow> IOSchedulerConfigure \<Rightarrow> IOScheduler" where
  "CreateIOScheduler junkSize junkCounter conf =
     \<lparr>ideal_enable = idealEnable conf, canBypass = idealBypass conf, sizeThreshold = junkSize,
      counterThreshold = junkCounter, helper_enable = normalEnable conf, iopsThreshold = 200000\<rparr>"

subsection \<open>What is chosen\<close>

text \<open>Only the ideal mode without a predicate, and the bypass helper without disks, can fault.\<close>

definition scheduler_ok :: "IOScheduler \<Rightarrow> System \<Rightarrow> bool" where
  "scheduler_ok sc s \<longleftrightarrow> (ideal_enable sc \<longrightarrow> canBypass sc \<noteq> None) \<and>
     (\<not> ideal_enable sc \<and> helper_enable sc \<longrightarrow> diskOp (tier_at s 1) \<noteq> None)"

lemma tier_free_observable:
  assumes "diskOp (tier_at s l) \<noteq> None" and "l < length (tiers s)"
  shows "observable s (tier_free l)"
  using quiet_disk [OF _ assms(2)] assms(1) by (fastforce simp: observable_def tier_free_def)

lemma ScheduleLayer_spec:
  assumes "disks_ok s" and "1 < length (tiers s)" and "scheduler_ok sc s"
  shows "\<exists>l s'. ScheduleLayer sc x lba len pf s = Inr (l, s') \<and> l < 2 \<and> quiet s s' \<and>
    (l = 1 \<longrightarrow> ideal_enable sc \<or> helper_enable sc)"
proof -
  have q: "quiet s s" using assms(1) by (simp add: quiet_def)
  show ?thesis
  proof (cases "\<not> ideal_enable sc \<and> helper_enable sc")
    case True
    then have "observable s (tier_free 1)" using assms tier_free_observable by (simp add: scheduler_ok_def)
    then obtain b s1 where "look (tier_free 1) s = Inr (b, s1)" "quiet s s1"
      using look_quiet [OF assms(1)] by blast
    then show ?thesis using True q by (auto simp: ScheduleLayer_def Let_def)
  next
    case False
    then show ?thesis using assms(3) q by (auto simp: ScheduleLayer_def scheduler_ok_def)
  qed
qed

lemma ScheduleLayer_off [simp]:
  "\<not> ideal_enable sc \<Longrightarrow> \<not> helper_enable sc \<Longrightarrow> ScheduleLayer sc x lba len pf s = Inr (0, s)"
  by (simp add: ScheduleLayer_def)

lemma ScheduleLayer_no_predicate:
  "ideal_enable sc \<Longrightarrow> canBypass sc = None \<Longrightarrow> ScheduleLayer sc x lba len pf s = Inl NullDeref"
  by (simp add: ScheduleLayer_def)

text \<open>A large request goes to tier 1 as long as that has room.\<close>

lemma ScheduleLayer_cold:
  assumes "\<not> ideal_enable sc" and "helper_enable sc" and "len > sizeThreshold sc" and "\<not> IsFull 1 s"
  shows "ScheduleLayer sc x lba len pf s = Inr (1, s)"
  using assms by (simp add: ScheduleLayer_def IsHotOrCold_def)

lemma quiet_IsFull: "quiet s s' \<Longrightarrow> l < length (tiers s) \<Longrightarrow> IsFull l s' = IsFull l s"
  using quiet_core(1,3) [of s s' l] settings_fields(5) [of "tier_at s' l" "tier_at s l"] by (simp add: IsFull_def quiet_def)

end
