(* ===== verification/Storage_System.thy ===== *)
theory Storage_System
  imports IO_Scheduler
begin

text \<open>
  The two tiers as one store: src/src/base/storage_system.c and storage_system.h. Host requests
  come from one thread. A second thread, \<open>TierDownThread\<close>, is to move the pages that tier 0 gives
  up (in the globals \<open>g_tierDownPages\<close> and \<open>g_tierDownPageCnt\<close>) to tier 1; its mutex is taken by
  no other thread. Where it stands is part of the state: about to test \<open>running\<close>, about to wait on
  its condition variable, waiting, or woken up.
\<close>

abbreviation TIER_NUM :: nat where "TIER_NUM \<equiv> 2"
abbreviation MAX_BUFF_SIZE :: nat where "MAX_BUFF_SIZE \<equiv> 260"

datatype thread_point = AtTest | AtWait | Waiting | Woken | Finished

record StorageSystem =
  sys :: System
  ioScheduler :: IOScheduler
  after_g_IOPS :: u32
  sys_writeHist :: Histogram
  reportFD :: string
  running :: bool
  tierDownThread :: thread_point
  g_tierDownPages :: "TierPage list option"
  g_tierDownPageCnt :: u32

subsection \<open>The thread that tiers down\<close>

text \<open>
  The body of its loop after the wait. The globals are cleared before \<open>g_tierDownPages\<close> is tested.
\<close>

definition TierDownThread :: "StorageSystem \<Rightarrow> fault + StorageSystem" where
  "TierDownThread st =
     (let tierPages = g_tierDownPages st; tierPageCnt = g_tierDownPageCnt st;
          st1 = st\<lparr>g_tierDownPages := None, g_tierDownPageCnt := 0\<rparr> in
      case g_tierDownPages st1 of None \<Rightarrow> Inr st1
      | Some _ \<Rightarrow> (case tierPages of None \<Rightarrow> Inl NullDeref
        | Some ps \<Rightarrow> bindE (WriteTierDownIO 1 (take (unat tierPageCnt) ps) (sys st1)) (\<lambda>s.
            Inr (st1\<lparr>sys := s\<rparr>))))"

definition thread_step :: "StorageSystem \<Rightarrow> fault + StorageSystem" where
  "thread_step st =
     (case tierDownThread st of
        AtTest \<Rightarrow> Inr (st\<lparr>tierDownThread := (if running st then AtWait else Finished)\<rparr>)
      | AtWait \<Rightarrow> Inr (st\<lparr>tierDownThread := Waiting\<rparr>)
      | Waiting \<Rightarrow> Inr st
      | Woken \<Rightarrow> bindE (TierDownThread st) (\<lambda>st1. Inr (st1\<lparr>tierDownThread := AtTest\<rparr>))
      | Finished \<Rightarrow> Inr st)"

text \<open>\<open>pthread_cond_signal\<close> wakes the thread only if it waits.\<close>

definition signal :: "StorageSystem \<Rightarrow> StorageSystem" where
  "signal st = (if tierDownThread st = Waiting then st\<lparr>tierDownThread := Woken\<rparr> else st)"

subsection \<open>Writes\<close>

fun delete_others :: "nat \<Rightarrow> u64 \<Rightarrow> u32 \<Rightarrow> nat list \<Rightarrow> System \<Rightarrow> fault + System" where
  "delete_others layer lba len [] s = Inr s"
| "delete_others layer lba len (i # is) s =
     (if i = layer then delete_others layer lba len is s
      else bindE (DeleteData i lba len s) (delete_others layer lba len is))"

definition WriteIOAux :: "IO \<Rightarrow> PageFreq \<Rightarrow> nat \<Rightarrow> StorageSystem \<Rightarrow> fault + bool \<times> StorageSystem" where
  "WriteIOAux io oldPageFreq layer st =
     bindE (WriteHostIO layer io oldPageFreq (sys st)) (\<lambda>(ret, out, s1).
     let st1 = (case out of None \<Rightarrow> st
                | Some (ps, pageCnt) \<Rightarrow> st\<lparr>g_tierDownPages := Some ps, g_tierDownPageCnt := pageCnt\<rparr>) in
     bindE (delete_others layer (io_lba io) (io_length io) [0..<TIER_NUM] s1) (\<lambda>s2.
     let st2 = st1\<lparr>sys := s2\<rparr> in
     Inr (ret, if g_tierDownPages st2 \<noteq> None then signal st2 else st2)))"

text \<open>The same when the tier-down thread clears the two globals while \<open>HandleTierDown\<close> uses them.\<close>

definition WriteIOAux_raced :: "interference \<Rightarrow> IO \<Rightarrow> PageFreq \<Rightarrow> nat \<Rightarrow> StorageSystem \<Rightarrow> fault + bool \<times> StorageSystem" where
  "WriteIOAux_raced hit io oldPageFreq layer st =
     bindE (WriteHostIO_raced hit layer io oldPageFreq (sys st)) (\<lambda>(ret, out, s1).
     let st1 = (case out of None \<Rightarrow> st
                | Some (ps, cnt) \<Rightarrow> st\<lparr>g_tierDownPages := ps, g_tierDownPageCnt := cnt\<rparr>) in
     bindE (delete_others layer (io_lba io) (io_length io) [0..<TIER_NUM] s1) (\<lambda>s2.
     let st2 = st1\<lparr>sys := s2\<rparr> in
     Inr (ret, if g_tierDownPages st2 \<noteq> None then signal st2 else st2)))"

fun query_tiers :: "u64 \<Rightarrow> PageFreq \<Rightarrow> nat list \<Rightarrow> System \<Rightarrow> fault + bool \<times> PageFreq" where
  "query_tiers lba pf [] s = Inr (False, pf)"
| "query_tiers lba pf (i # is) s =
     bindE (Layer_Module.QueryPageHistoryFreq i lba pf s) (\<lambda>(ok, pf1).
     if ok then Inr (True, pf1) else query_tiers lba pf1 is s)"

definition Storage_QueryPageHistoryFreq :: "u64 \<Rightarrow> PageFreq \<Rightarrow> StorageSystem \<Rightarrow> fault + bool \<times> PageFreq" where
  "Storage_QueryPageHistoryFreq lba pf st = query_tiers lba pf [0..<TIER_NUM] (sys st)"

definition zero_freq :: PageFreq where
  "zero_freq = \<lparr>readFreq = 0, writeFreq = 0\<rparr>"

definition Storage_WriteHostIO :: "IO \<Rightarrow> StorageSystem \<Rightarrow> fault + bool \<times> StorageSystem" where
  "Storage_WriteHostIO io st =
     bindE (Storage_QueryPageHistoryFreq (io_lba io) zero_freq st) (\<lambda>(_, pageFreq).
     bindE (ScheduleLayer (ioScheduler st) (after_g_IOPS st) (io_lba io) (io_length io) pageFreq (sys st)) (\<lambda>(layerIdx, s1).
     WriteIOAux io pageFreq layerIdx (st\<lparr>sys := s1\<rparr>)))"

definition Storage_WriteHostIO_raced :: "interference \<Rightarrow> IO \<Rightarrow> StorageSystem \<Rightarrow> fault + bool \<times> StorageSystem" where
  "Storage_WriteHostIO_raced hit io st =
     bindE (Storage_QueryPageHistoryFreq (io_lba io) zero_freq st) (\<lambda>(_, pageFreq).
     bindE (ScheduleLayer (ioScheduler st) (after_g_IOPS st) (io_lba io) (io_length io) pageFreq (sys st)) (\<lambda>(layerIdx, s1).
     WriteIOAux_raced hit io pageFreq layerIdx (st\<lparr>sys := s1\<rparr>)))"

subsection \<open>Reads\<close>

fun read_tiers :: "IO \<Rightarrow> nat list \<Rightarrow> System \<Rightarrow> fault + bool \<times> System" where
  "read_tiers io [] s = Inr (False, s)"
| "read_tiers io (i # is) s =
     bindE (ReadHostIO i io s) (\<lambda>(ok, s1). if ok then Inr (True, s1) else read_tiers io is s1)"

definition Storage_ReadHostIO :: "IO \<Rightarrow> StorageSystem \<Rightarrow> fault + bool \<times> StorageSystem" where
  "Storage_ReadHostIO io st = bindE (read_tiers io [0..<TIER_NUM] (sys st)) (\<lambda>(ok, s). Inr (ok, st\<lparr>sys := s\<rparr>))"

subsection \<open>Statistics\<close>

text \<open>The histograms of the host threads of one disk move into \<open>writeHist\<close>.\<close>

fun merge_hists :: "nat list \<Rightarrow> Histogram \<Rightarrow> Histogram list \<Rightarrow> fault + Histogram \<times> Histogram list" where
  "merge_hists [] h hs = Inr (h, hs)"
| "merge_hists (j # js) h hs =
     bindE (arr_get hs j) (\<lambda>other.
     bindE (arr_set hs j (Hist_Clear other)) (\<lambda>hs1. merge_hists js (Hist_Merge h other) hs1))"

fun merge_tiers :: "nat list \<Rightarrow> Histogram \<Rightarrow> System \<Rightarrow> fault + Histogram \<times> System" where
  "merge_tiers [] h s = Inr (h, s)"
| "merge_tiers (i # is) h s =
     (case diskOp (tier_at s i) of None \<Rightarrow> merge_tiers is h s
      | Some d \<Rightarrow> bindE (merge_hists [0..<unat (hostConcurrency d)] h (writeHists d)) (\<lambda>(h1, hs).
          merge_tiers is h1 (set_disk i (d\<lparr>writeHists := hs\<rparr>) s)))"

text \<open>The first component of the result is the histogram whose text is printed.\<close>

definition PrintWriteHistgram :: "StorageSystem \<Rightarrow> fault + Histogram \<times> StorageSystem" where
  "PrintWriteHistgram st =
     bindE (merge_tiers [0..<TIER_NUM] (sys_writeHist st) (sys st)) (\<lambda>(h, s).
     Inr (h, st\<lparr>sys := s, sys_writeHist := Hist_Clear h\<rparr>))"

text \<open>
  \<open>snprintf(buf + len, MAX_BUFF_SIZE, ...)\<close> with \<open>len = strlen(buf)\<close>: it may write up to
  \<open>MAX_BUFF_SIZE\<close> bytes, the final null included, wherever it starts.
\<close>

definition append_text :: "string \<Rightarrow> string \<Rightarrow> fault + string" where
  "append_text buf txt =
     (let new = take (MAX_BUFF_SIZE - 1) txt in
      if length buf + length new + 1 > MAX_BUFF_SIZE then Inl OutOfBounds else Inr (buf @ new))"

definition reset_stat :: "nat \<Rightarrow> System \<Rightarrow> System" where
  "reset_stat l = set_stat l Stat_Reset"

definition Storage_Report :: "StorageSystem \<Rightarrow> fault + StorageSystem" where
  "Storage_Report st =
     (let s = sys st in
      bindE (append_text [] (Stat_Report (statModule (tier_at s 0)) @ '','')) (\<lambda>buf1.
      let s1 = reset_stat 0 s in
      bindE (append_text buf1 (Stat_Report (statModule (tier_at s1 1)) @ '','')) (\<lambda>buf2.
      let s2 = reset_stat 1 s1 in
      case diskOp (tier_at s2 0) of None \<Rightarrow> Inl NullDeref
      | Some d \<Rightarrow>
          bindE (append_text buf2 (decimal (unat (slowCount d)) @ '','' @ decimal (unat (stallCount d)) @ [CHR 0x0A]))
            (\<lambda>buf3.
          Inr (st\<lparr>sys := set_disk 0 (d\<lparr>slowCount := 0, stallCount := 0\<rparr>) s2, reportFD := reportFD st @ buf3\<rparr>)))))"

subsection \<open>Creation and destruction\<close>

record StorageSystemConfigure =
  layerConf :: "LayerModuleConfigure list"
  schedulerConf :: IOSchedulerConfigure

fun create_tiers :: "LayerModuleConfigure list \<Rightarrow> fault + LayerModule list" where
  "create_tiers [] = Inr []"
| "create_tiers (c # cs) = bindE (CreateLayerModule c) (\<lambda>t. bindE (create_tiers cs) (\<lambda>ts. Inr (t # ts)))"

text \<open>
  The globals have their initial values; \<open>junk1\<close> and \<open>junk2\<close> are what \<open>malloc\<close> left in the
  scheduler, \<open>behind\<close> the bytes behind \<open>g_IOPS\<close>, \<open>t\<close> and \<open>fut\<close> the clock and what the threads
  of the disks will do.
\<close>

definition CreateStorageSystem ::
    "u32 \<Rightarrow> u32 \<Rightarrow> u32 \<Rightarrow> u64 \<Rightarrow> (u64 \<times> round list) list \<Rightarrow> StorageSystemConfigure \<Rightarrow> fault + StorageSystem" where
  "CreateStorageSystem junk1 junk2 behind t fut conf =
     bindE (create_tiers (layerConf conf)) (\<lambda>ts.
     Inr \<lparr>sys = \<lparr>tiers = ts, g_IOPS = 0, now = t, future = fut\<rparr>,
       ioScheduler = CreateIOScheduler junk1 junk2 (schedulerConf conf), after_g_IOPS = behind,
       sys_writeHist = CreateHistogram, reportFD = [], running = True, tierDownThread = AtTest,
       g_tierDownPages = None, g_tierDownPageCnt = 0\<rparr>)"

text \<open>\<open>pthread_join\<close>, over at most \<open>n\<close> steps of the thread.\<close>

fun join_thread :: "nat \<Rightarrow> StorageSystem \<Rightarrow> fault + StorageSystem" where
  "join_thread 0 st = (if tierDownThread st = Finished then Inr st else Inl Diverged)"
| "join_thread (Suc n) st = (if tierDownThread st = Finished then Inr st else bindE (thread_step st) (join_thread n))"

text \<open>Up to the join; then the tiers are freed.\<close>

definition DestroyStorageSystem :: "nat \<Rightarrow> StorageSystem \<Rightarrow> fault + StorageSystem" where
  "DestroyStorageSystem n st = join_thread n (signal (st\<lparr>running := False\<rparr>))"

subsection \<open>The calls and the thread in any order\<close>

text \<open>Two stores that differ at most in where the tier-down thread is and what it has been given.\<close>

definition same_store :: "StorageSystem \<Rightarrow> StorageSystem \<Rightarrow> bool" where
  "same_store a b \<longleftrightarrow> sys a = sys b \<and> ioScheduler a = ioScheduler b \<and> after_g_IOPS a = after_g_IOPS b \<and>
     sys_writeHist a = sys_writeHist b \<and> reportFD a = reportFD b \<and> running a = running b"

lemma same_store_refl [simp]: "same_store a a"
  by (simp add: same_store_def)

lemma same_store_trans: "same_store a b \<Longrightarrow> same_store b c \<Longrightarrow> same_store a c"
  by (simp add: same_store_def)

lemma same_store_sym: "same_store a b \<Longrightarrow> same_store b a"
  by (simp add: same_store_def)

text \<open>
  A host write is one step; the tier-down thread may move while it goes on (\<open>same_store\<close>). That matters only if
  the thread clears its globals while \<open>HandleTierDown\<close> uses them, which is a step of its own.
\<close>

inductive orderly_step :: "StorageSystem \<Rightarrow> StorageSystem \<Rightarrow> bool" where
  host_write: "Storage_WriteHostIO io st = Inr (ok, st1) \<Longrightarrow> same_store st1 st' \<Longrightarrow> orderly_step st st'"
| host_read: "Storage_ReadHostIO io st = Inr (ok, st1) \<Longrightarrow> same_store st1 st' \<Longrightarrow> orderly_step st st'"
| tier_thread: "thread_step st = Inr st' \<Longrightarrow> orderly_step st st'"
| woken_spuriously: "tierDownThread st = Waiting \<Longrightarrow> orderly_step st (st\<lparr>tierDownThread := Woken\<rparr>)"
| histogram: "PrintWriteHistgram st = Inr (h, st') \<Longrightarrow> orderly_step st st'"
| report: "Storage_Report st = Inr st' \<Longrightarrow> orderly_step st st'"

inductive_cases orderly_stepE: "orderly_step st st'"

inductive storage_step :: "StorageSystem \<Rightarrow> StorageSystem \<Rightarrow> bool" where
  orderly: "orderly_step st st' \<Longrightarrow> storage_step st st'"
| host_write_raced: "Storage_WriteHostIO_raced hit io st = Inr (ok, st1) \<Longrightarrow> same_store st1 st' \<Longrightarrow> storage_step st st'"

end
