(* ===== verification/Storage_Inv.thy ===== *)
theory Storage_Inv
  imports Storage_System
begin

text \<open>
  What the store guarantees. \<open>storage_ok\<close> is its invariant: both tiers are consistent, every disk
  works, and no page is in both tiers. Every call keeps it, and so does the thread that tiers
  down; a page given up by tier 0 is in no tier from then on.
\<close>

subsection \<open>The invariant\<close>

abbreviation holds :: "nat \<Rightarrow> StorageSystem \<Rightarrow> u64 set" where
  "holds l st \<equiv> stored (tier_at (sys st) l)"

definition store_ok :: "System \<Rightarrow> bool" where
  "store_ok s \<longleftrightarrow> disks_ok s \<and> length (tiers s) = TIER_NUM \<and> layer_ok (tier_at s 0) \<and> layer_ok (tier_at s 1) \<and>
     stored (tier_at s 0) \<inter> stored (tier_at s 1) = {}"

definition storage_ok :: "StorageSystem \<Rightarrow> bool" where
  "storage_ok st \<longleftrightarrow> store_ok (sys st) \<and> scheduler_ok (ioScheduler st) (sys st)"

text \<open>Changes that leave the contents of the tiers alone.\<close>

definition unmoved :: "System \<Rightarrow> System \<Rightarrow> bool" where
  "unmoved s s' \<longleftrightarrow> disks_ok s' \<and> length (tiers s') = length (tiers s) \<and>
     (\<forall>k < length (tiers s). gcModule (tier_at s' k) = gcModule (tier_at s k) \<and>
        tierModule (tier_at s' k) = tierModule (tier_at s k) \<and>
        (diskOp (tier_at s' k) = None \<longleftrightarrow> diskOp (tier_at s k) = None))"

lemma unmoved_refl: "disks_ok s \<Longrightarrow> unmoved s s"
  by (simp add: unmoved_def)

lemma unmoved_trans: "unmoved s s1 \<Longrightarrow> unmoved s1 s2 \<Longrightarrow> unmoved s s2"
  by (simp add: unmoved_def)

lemma quiet_unmoved:
  assumes "quiet s s'"
  shows "unmoved s s'"
proof -
  have "gcModule (tier_at s' k) = gcModule (tier_at s k) \<and> tierModule (tier_at s' k) = tierModule (tier_at s k) \<and>
      (diskOp (tier_at s' k) = None \<longleftrightarrow> diskOp (tier_at s k) = None)" if "k < length (tiers s)" for k
    using quiet_core(1-3) [of s s' k] settings_fields(8) [of "tier_at s' k" "tier_at s k"] assms that
    by (simp add: quiet_def)
  then show ?thesis using assms by (simp add: quiet_def unmoved_def changes_def)
qed

lemma unmoved_layer:
  assumes "unmoved s s'" and "k < length (tiers s)"
  shows "layer_ok (tier_at s' k) = layer_ok (tier_at s k)" and "stored (tier_at s' k) = stored (tier_at s k)"
  using assms by (simp_all add: unmoved_def layer_ok_def stored_def)

lemma unmoved_store: "unmoved s s' \<Longrightarrow> store_ok s \<Longrightarrow> store_ok s'"
  using unmoved_layer [of s s'] by (simp add: store_ok_def unmoved_def)

lemma unmoved_scheduler: "unmoved s s' \<Longrightarrow> 1 < length (tiers s) \<Longrightarrow> scheduler_ok sc s' = scheduler_ok sc s"
  by (simp add: scheduler_ok_def unmoved_def)

lemma unmoved_storage:
  "storage_ok st \<Longrightarrow> unmoved (sys st) (sys st') \<Longrightarrow> ioScheduler st' = ioScheduler st \<Longrightarrow> storage_ok st'"
  using unmoved_store [of "sys st" "sys st'"] unmoved_scheduler [of "sys st" "sys st'"]
  by (simp add: storage_ok_def store_ok_def)

subsection \<open>The thread that tiers down\<close>

text \<open>Its loop body only clears the globals: the test comes after the assignment.\<close>

lemma TierDownThread_eq: "TierDownThread st = Inr (st\<lparr>g_tierDownPages := None, g_tierDownPageCnt := 0\<rparr>)"
  by (simp add: TierDownThread_def Let_def)

lemma thread_step_total: "\<exists>st'. thread_step st = Inr st' \<and> sys st' = sys st \<and> ioScheduler st' = ioScheduler st"
  by (simp add: thread_step_def TierDownThread_eq split: thread_point.split)

subsection \<open>Writes\<close>

text \<open>The tiers the scheduler can choose, and what a write of host data to one of them needs.\<close>

definition targets :: "IOScheduler \<Rightarrow> nat set" where
  "targets sc = (if ideal_enable sc \<or> helper_enable sc then {0, 1} else {0})"

definition writable :: "nat \<Rightarrow> System \<Rightarrow> bool" where
  "writable l s \<longleftrightarrow> sized (tier_at s l) \<and> 2 \<le> free_blocks (tier_at s l) \<and>
     (diskOp (tier_at s l) = None \<longrightarrow> spacious (tier_at s l)) \<and> calm l s"

text \<open>
  After a write to tier \<open>l\<close> the page is in no other tier; it is in tier \<open>l\<close>, unless it is itself
  among the pages that tier 0 gives up. A tier 0 without a disk gives up pages as soon as it
  reaches its water level, and then holds \<open>tierDownBlockCnt\<close> blocks of pages less.
\<close>

definition below_level :: "LayerModule \<Rightarrow> u64 set \<Rightarrow> bool" where
  "below_level t S \<longleftrightarrow> (diskOp t = None \<longrightarrow> card S < unat (tierDownWL t))"

definition at_level :: "LayerModule \<Rightarrow> u64 set \<Rightarrow> bool" where
  "at_level t S \<longleftrightarrow> card S + unat (tierDownBlockCnt t) * PAGE_NUM_PER_BLOCK = unat (tierDownWL t)"

lemma level_settings:
  assumes "settings t' = settings t"
  shows "below_level t' = below_level t" and "at_level t' = at_level t"
  using settings_fields(5,6,8) [OF assms] by (auto simp: fun_eq_iff below_level_def at_level_def)

definition placed :: "u64 \<Rightarrow> nat \<Rightarrow> StorageSystem \<Rightarrow> StorageSystem \<Rightarrow> bool" where
  "placed p l st st' \<longleftrightarrow> holds (1 - l) st' = holds (1 - l) st - {p} \<and>
     (holds l st' = insert p (holds l st) \<and> g_tierDownPages st' = g_tierDownPages st \<and>
        (l = 0 \<longrightarrow> below_level (tier_at (sys st) 0) (holds 0 st')) \<or>
      l = 0 \<and> (\<exists>ps. g_tierDownPages st' = Some ps \<and> unat (g_tierDownPageCnt st') = length ps \<and> distinct (map tp_lba ps) \<and>
        tp_lba ` set ps \<subseteq> insert p (holds 0 st) \<and> holds 0 st' = insert p (holds 0 st) - tp_lba ` set ps) \<and>
        at_level (tier_at (sys st) 0) (holds 0 st'))"

lemma delete_others_spec:
  assumes "disks_ok s" and "length (tiers s) = TIER_NUM" and "layer_ok (tier_at s (1 - l))" and "l < TIER_NUM"
  shows "\<exists>s'. delete_others l lba len [0..<TIER_NUM] s = Inr s' \<and> disks_ok s' \<and> changes {1 - l} s s' \<and>
    deleted (page_align lba) (tier_at s (1 - l)) (tier_at s' (1 - l))"
proof -
  have two: "[0..<TIER_NUM] = [0, 1]" by (simp add: upt_rec)
  obtain s' where "DeleteData (1 - l) lba len s = Inr s'" "disks_ok s'" "changes {1 - l} s s'"
      "deleted (page_align lba) (tier_at s (1 - l)) (tier_at s' (1 - l))"
    using DeleteData_spec [OF assms(1) _ refl assms(3), of lba len] assms(2) by fastforce
  moreover have "l = 0 \<or> l = 1" using assms(4) by auto
  ultimately show ?thesis by (auto simp: two)
qed

lemma less_2: "l < TIER_NUM \<longleftrightarrow> l = 0 \<or> l = 1"
  by auto

lemma WriteIOAux_spec:
  assumes "storage_ok st" and "l < TIER_NUM" and "writable l (sys st)"
  shows "ensures (WriteIOAux io old l st) (\<lambda>(ok, st'). storage_ok st' \<and> placed (page_align (io_lba io)) l st st' \<and>
    ioScheduler st' = ioScheduler st)"
proof -
  let ?s = "sys st" and ?p = "page_align (io_lba io)" and ?o = "1 - l"
  have st: "disks_ok ?s" "length (tiers ?s) = TIER_NUM" "layer_ok (tier_at ?s l)" "layer_ok (tier_at ?s ?o)"
      "stored (tier_at ?s l) \<inter> stored (tier_at ?s ?o) = {}"
    using assms(1,2) by (auto simp: storage_ok_def store_ok_def less_2)
  have rd: "sized (tier_at ?s l)" "2 \<le> free_blocks (tier_at ?s l)"
      "diskOp (tier_at ?s l) = None \<longrightarrow> spacious (tier_at ?s l)" "calm l ?s"
    using assms(3) by (simp_all add: writable_def)
  have lt: "l < length (tiers ?s)" using assms(2) st(2) by simp
  have o: "?o < TIER_NUM" "?o \<noteq> l" using assms(2) by (auto simp: less_2)
  show ?thesis
    unfolding WriteIOAux_def
  proof (rule ensures_bind [OF WriteHostIO_spec [OF st(1) lt refl st(3) rd]], clarify)
    fix ok out s1
    assume a: "disks_ok s1" "changes {l} ?s s1" "host_written ?p (tier_at ?s l) out (tier_at s1 l)"
      "tier_down_due l (tier_at ?s l) (tier_at s1 l) out"
    have len1: "length (tiers s1) = TIER_NUM" using a(2) st(2) by (simp add: changes_def)
    have oth: "same_core (tier_at ?s ?o) (tier_at s1 ?o)" using a(2) o st(2) by (auto simp: changes_def)
    have "layer_ok (tier_at s1 ?o)" using same_core_ok(1) [OF oth] st(4) by simp
    then obtain s2 where s2: "delete_others l (io_lba io) (io_length io) [0..<TIER_NUM] s1 = Inr s2" "disks_ok s2"
        "changes {?o} s1 s2" "deleted ?p (tier_at s1 ?o) (tier_at s2 ?o)"
      using delete_others_spec [OF a(1) len1 _ assms(2)] by blast
    have len2: "length (tiers s2) = TIER_NUM" using s2(3) len1 by (simp add: changes_def)
    have own: "same_core (tier_at s1 l) (tier_at s2 l)" using s2(3) o len1 assms(2) by (auto simp: changes_def)
    define st1 where "st1 = (case out of None \<Rightarrow> st
      | Some (ps, n) \<Rightarrow> st\<lparr>g_tierDownPages := Some ps, g_tierDownPageCnt := n\<rparr>)"
    define st2 where "st2 = st1\<lparr>sys := s2\<rparr>"
    have ol: "stored (tier_at s2 ?o) = stored (tier_at ?s ?o) - {?p}"
      using s2(4) same_core_ok(2) [OF oth] by (simp add: deleted_def)
    have ll: "stored (tier_at s2 l) = stored (tier_at s1 l)" "layer_ok (tier_at s2 l)"
      using same_core_ok(1,2) [OF own] a(3) by (simp_all add: host_written_def)
    have lo: "layer_ok (tier_at s2 ?o)" using s2(4) by (simp add: deleted_def)
    have sub: "stored (tier_at s1 l) \<subseteq> insert ?p (stored (tier_at ?s l))"
      using a(3) by (auto simp: host_written_def split: option.split_asm)
    have "stored (tier_at s2 l) \<inter> stored (tier_at s2 ?o) = {}" using ol ll(1) sub st(5) by auto
    then have ok2: "store_ok s2"
      using s2(2) len2 ll(2) lo assms(2) by (auto simp: store_ok_def less_2)
    have dk: "diskOp (tier_at s2 1) = None \<longleftrightarrow> diskOp (tier_at ?s 1) = None"
    proof -
      have "settings (tier_at s2 l) = settings (tier_at ?s l)" "settings (tier_at s2 ?o) = settings (tier_at ?s ?o)"
        using own oth a(3) s2(4) by (simp_all add: same_core_def host_written_def deleted_def)
      then show ?thesis using settings_fields(8) assms(2) by (metis diff_self_eq_0 diff_zero less_2)
    qed
    have sc: "sys st2 = s2" "ioScheduler st2 = ioScheduler st"
      by (simp_all add: st2_def st1_def split: option.split)
    have "scheduler_ok (ioScheduler st) s2" using assms(1) dk by (simp add: storage_ok_def scheduler_ok_def)
    then have okst: "storage_ok st2" using ok2 sc by (simp add: storage_ok_def)
    have pl: "placed ?p l st st2"
    proof (cases out)
      case None
      then have "stored (tier_at s2 l) = insert ?p (stored (tier_at ?s l))" "g_tierDownPages st2 = g_tierDownPages st"
        using ll(1) a(3) by (simp_all add: host_written_def st2_def st1_def)
      moreover have "l = 0 \<longrightarrow> below_level (tier_at ?s l) (stored (tier_at s2 l))"
        using a(4) None ll(1) by (cases "l = 0") (simp_all add: below_level_def tier_down_due_def)
      ultimately show ?thesis using ol sc(1) by (simp add: placed_def)
    next
      case (Some out')
      obtain ps n where out': "out' = (ps, n)" by (cases out')
      have "l = 0" using a(4) Some by (auto simp: tier_down_due_def)
      moreover have "g_tierDownPages st2 = Some ps" "g_tierDownPageCnt st2 = n" by (simp_all add: st2_def st1_def Some out')
      moreover have "tp_lba ` set ps \<subseteq> insert ?p (stored (tier_at ?s l))"
          "stored (tier_at s2 l) = insert ?p (stored (tier_at ?s l)) - tp_lba ` set ps"
        using a(3) ll(1) by (simp_all add: host_written_def Some out')
      moreover have "unat n = length ps" "distinct (map tp_lba ps)" and
          cd: "card (stored (tier_at s1 l)) + unat (tierDownBlockCnt (tier_at ?s l)) * PAGE_NUM_PER_BLOCK = unat (tierDownWL (tier_at ?s l))"
        using a(3) unfolding host_written_def Some out' option.case prod.case by blast+
      moreover have "at_level (tier_at ?s l) (stored (tier_at s2 l))" unfolding at_level_def ll(1) by (rule cd)
      ultimately show ?thesis using ol sc(1) by (simp add: placed_def)
    qed
    have sg: "storage_ok (signal st2)" "placed ?p l st (signal st2)" "ioScheduler (signal st2) = ioScheduler st"
      using okst pl sc by (simp_all add: signal_def storage_ok_def placed_def)
    show "ensures (let st1 = case out of None \<Rightarrow> st | Some (ps, n) \<Rightarrow> st\<lparr>g_tierDownPages := Some ps, g_tierDownPageCnt := n\<rparr>
      in bindE (delete_others l (io_lba io) (io_length io) [0..<TIER_NUM] s1) (\<lambda>s2. let st2 = st1\<lparr>sys := s2\<rparr> in
        Inr (ok, if g_tierDownPages st2 \<noteq> None then signal st2 else st2)))
      (\<lambda>(ok, st'). storage_ok st' \<and> placed ?p l st st' \<and> ioScheduler st' = ioScheduler st)"
      using s2(1) sg okst pl sc(2) by (simp add: Let_def flip: st1_def st2_def)
  qed
qed

text \<open>No write learns anything about the history of its page: the frequencies it passes on are 0.\<close>

lemma QueryPageHistoryFreq_blind:
  assumes "layer_ok (tier_at s i)"
  shows "\<exists>ok. Layer_Module.QueryPageHistoryFreq i lba pf s = Inr (ok, pf)"
  using assms
  by (auto simp: Layer_Module.QueryPageHistoryFreq_def Tier_QueryPageHistoryFreq_def layer_ok_def tier_inv_def key_query_eq)

lemma query_tiers_blind: "(\<And>i. i \<in> set is \<Longrightarrow> layer_ok (tier_at s i)) \<Longrightarrow> \<exists>ok. query_tiers lba pf is s = Inr (ok, pf)"
proof (induction "is")
  case (Cons i js)
  obtain ok where "Layer_Module.QueryPageHistoryFreq i lba pf s = Inr (ok, pf)"
    using QueryPageHistoryFreq_blind Cons.prems by fastforce
  then show ?case using Cons by auto
qed auto

lemma Storage_QueryPageHistoryFreq_blind:
  "storage_ok st \<Longrightarrow> \<exists>ok. Storage_QueryPageHistoryFreq lba pf st = Inr (ok, pf)"
  unfolding Storage_QueryPageHistoryFreq_def
  by (rule query_tiers_blind) (auto simp: storage_ok_def store_ok_def less_2)

lemma writable_quiet:
  assumes "quiet s s'" and "l < length (tiers s)"
  shows "writable l s' = writable l s"
proof -
  have c: "same_core (tier_at s l) (tier_at s' l)" "same_core (tier_at s 0) (tier_at s' 0)"
    using assms by (auto simp: quiet_def changes_def dest: spec [of _ 0])
  then have "settings (tier_at s' l) = settings (tier_at s l)" by (simp add: same_core_def)
  then show ?thesis
    using settings_fields [of "tier_at s' l" "tier_at s l"] same_core_ok [OF c(1)] c
    by (simp add: writable_def spacious_def calm_def same_core_def)
qed

theorem Storage_WriteHostIO_spec:
  assumes "storage_ok st" and "\<forall>l \<in> targets (ioScheduler st). writable l (sys st)"
  shows "ensures (Storage_WriteHostIO io st) (\<lambda>(ok, st'). storage_ok st' \<and> ioScheduler st' = ioScheduler st \<and>
    (\<exists>l \<in> targets (ioScheduler st). placed (page_align (io_lba io)) l st st'))"
proof -
  let ?s = "sys st"
  have s: "disks_ok ?s" "length (tiers ?s) = TIER_NUM" "scheduler_ok (ioScheduler st) ?s"
    using assms(1) by (simp_all add: storage_ok_def store_ok_def)
  obtain ok where q: "Storage_QueryPageHistoryFreq (io_lba io) zero_freq st = Inr (ok, zero_freq)"
    using Storage_QueryPageHistoryFreq_blind [OF assms(1)] by blast
  obtain l s1 where sch: "ScheduleLayer (ioScheduler st) (after_g_IOPS st) (io_lba io) (io_length io) zero_freq ?s = Inr (l, s1)"
      "l < 2" "quiet ?s s1" "l = 1 \<longrightarrow> ideal_enable (ioScheduler st) \<or> helper_enable (ioScheduler st)"
    using ScheduleLayer_spec [OF s(1) _ s(3)] s(2) by fastforce
  have tg: "l \<in> targets (ioScheduler st)" using sch(2,4) by (auto simp: targets_def)
  let ?st1 = "st\<lparr>sys := s1\<rparr>"
  have k: "unmoved ?s s1" using sch(3) by (rule quiet_unmoved)
  have ok1: "storage_ok ?st1" using unmoved_storage [OF assms(1), of ?st1] k by simp
  have r1: "writable l (sys ?st1)" using writable_quiet [OF sch(3), of l] assms(2) tg sch(2) s(2) by simp
  have pl: "placed p l st st'" if "placed p l ?st1 st'" for p st'
    using that unmoved_layer(2) [OF k] sch(2) s(2) quiet_core(3) [of ?s s1 0] sch(3) level_settings [of "tier_at s1 0" "tier_at ?s 0"]
    by (simp add: placed_def quiet_def)
  have "ensures (WriteIOAux io zero_freq l ?st1) (\<lambda>(ok, st'). storage_ok st' \<and> ioScheduler st' = ioScheduler st \<and>
    (\<exists>l \<in> targets (ioScheduler st). placed (page_align (io_lba io)) l st st'))"
    by (rule ensures_mono [OF WriteIOAux_spec [OF ok1 sch(2) r1]]) (use tg pl in auto)
  then show ?thesis using q sch(1) by (simp add: Storage_WriteHostIO_def)
qed

end
