(* ===== verification/Storage_Runs.thy ===== *)
theory Storage_Runs
  imports Storage_Inv
begin

text \<open>
  Reads, statistics, creation and destruction of the store, and what holds in every state that
  its calls and its thread can reach.
\<close>

subsection \<open>Reads\<close>

text \<open>A page of tier 0 is found; any other page, and so every page of tier 1, is a null pointer.\<close>

lemma Storage_ReadHostIO_spec:
  assumes "storage_ok st" and "page_align (io_lba io) \<in> holds 0 st"
  shows "ensures (Storage_ReadHostIO io st) (\<lambda>(ok, st'). ok \<and> storage_ok st' \<and> ioScheduler st' = ioScheduler st \<and>
     (\<forall>l < TIER_NUM. holds l st' = holds l st))"
proof -
  let ?s = "sys st"
  have s: "disks_ok ?s" "0 < length (tiers ?s)" "layer_ok (tier_at ?s 0)" "length (tiers ?s) = TIER_NUM"
    using assms(1) by (simp_all add: storage_ok_def store_ok_def)
  have two: "[0..<TIER_NUM] = [0, 1]" by (simp add: upt_rec)
  have eq: "Storage_ReadHostIO io st = bindE (ReadHostIO 0 io ?s) (\<lambda>(ok, s1).
      bindE (if ok then Inr (True, s1) else read_tiers io [1] s1) (\<lambda>(ok, s). Inr (ok, st\<lparr>sys := s\<rparr>)))"
    by (simp only: Storage_ReadHostIO_def two read_tiers.simps(2) [of io 0] bindE_assoc case_prod_unfold)
  show ?thesis
    unfolding eq
  proof (rule ensures_bind [OF ReadHostIO_spec [OF s(1,2) refl s(3) assms(2)]], clarify)
    fix ok s1
    assume a: "ok" "disks_ok s1" "changes {0} ?s s1" "host_read (page_align (io_lba io)) (tier_at ?s 0) (tier_at s1 0)"
    have c1: "same_core (tier_at ?s 1) (tier_at s1 1)" using a(3) s(4) by (auto simp: changes_def)
    have c0: "layer_ok (tier_at s1 0)" "stored (tier_at s1 0) = stored (tier_at ?s 0)"
      using a(4) by (simp_all add: host_read_def stored_def)
    have dk: "diskOp (tier_at s1 1) = None \<longleftrightarrow> diskOp (tier_at ?s 1) = None"
      using c1 settings_fields(8) [of "tier_at s1 1" "tier_at ?s 1"] by (simp add: same_core_def)
    have len: "length (tiers s1) = TIER_NUM" using a(3) s(4) by (simp add: changes_def)
    have "store_ok s1"
      using assms(1) a(2) len c0 same_core_ok(1,2) [OF c1] by (simp add: storage_ok_def store_ok_def)
    moreover have "scheduler_ok (ioScheduler st) s1"
      using assms(1) dk by (simp add: storage_ok_def scheduler_ok_def)
    ultimately have "storage_ok (st\<lparr>sys := s1\<rparr>)" by (simp add: storage_ok_def)
    then show "ensures (bindE (if ok then Inr (True, s1) else read_tiers io [1] s1) (\<lambda>(ok, s). Inr (ok, st\<lparr>sys := s\<rparr>)))
      (\<lambda>(ok, st'). ok \<and> storage_ok st' \<and> ioScheduler st' = ioScheduler st \<and> (\<forall>l<TIER_NUM. holds l st' = holds l st))"
      using a(1) c0(2) same_core_ok(2) [OF c1] by (auto simp: less_2)
  qed
qed

lemma Storage_ReadHostIO_missing:
  assumes "storage_ok st" and "page_align (io_lba io) \<notin> holds 0 st"
  shows "Storage_ReadHostIO io st = Inl NullDeref"
proof -
  have "ReadHostIO 0 io (sys st) = Inl NullDeref"
    using ReadHostIO_missing [OF refl _ assms(2)] assms(1) by (simp add: storage_ok_def store_ok_def)
  moreover have "[0..<TIER_NUM] = [0, 1]" by (simp add: upt_rec)
  ultimately show ?thesis by (simp add: Storage_ReadHostIO_def)
qed

subsection \<open>Statistics\<close>

lemma reset_stat_unmoved: "disks_ok s \<Longrightarrow> unmoved s (reset_stat l s)"
proof -
  assume "disks_ok s"
  then have "disks_ok (reset_stat l s)" by (simp add: reset_stat_def)
  then show ?thesis
    by (cases "l < length (tiers s)")
      (auto simp: reset_stat_def unmoved_def set_stat_def set_tier_def tier_at_def nth_list_update)
qed

lemma set_disk_unmoved:
  assumes "disks_ok s" and "disk_ok d" and "diskOp (tier_at s l) \<noteq> None"
  shows "unmoved s (set_disk l d s)"
  using assms disks_ok_set_disk [OF assms(1,2), of l]
  by (cases "l < length (tiers s)") (auto simp: unmoved_def set_disk_def set_tier_def tier_at_def nth_list_update)

lemma length_u32_decimal: "length (decimal (unat (x :: u32))) \<le> 10"
  by (rule length_decimal) (use unat_lt2p32 [of x] in simp_all)

lemma length_Stat_Report: "length (Stat_Report st) \<le> 79"
  by (simp add: Stat_Report_def)

lemma append_text_fits: "length buf + length txt < MAX_BUFF_SIZE \<Longrightarrow> append_text buf txt = Inr (buf @ txt)"
  by (simp add: append_text_def Let_def)

text \<open>The line never fills the buffer, although the bound given to \<open>snprintf\<close> is not what is left of it.\<close>

lemma Storage_Report_spec:
  assumes "storage_ok st" and "diskOp (tier_at (sys st) 0) = Some d"
  shows "\<exists>line st'. Storage_Report st = Inr st' \<and> reportFD st' = reportFD st @ line \<and>
    line = Stat_Report (statModule (tier_at (sys st) 0)) @ '','' @ Stat_Report (statModule (tier_at (sys st) 1)) @ '','' @
      decimal (unat (slowCount d)) @ '','' @ decimal (unat (stallCount d)) @ [CHR 0x0A] \<and>
    length line < MAX_BUFF_SIZE \<and> unmoved (sys st) (sys st') \<and> ioScheduler st' = ioScheduler st \<and>
    statModule (tier_at (sys st') 0) = CreateStatModule \<and> statModule (tier_at (sys st') 1) = CreateStatModule"
proof -
  let ?s = "sys st"
  let ?r0 = "Stat_Report (statModule (tier_at ?s 0))" and ?r1 = "Stat_Report (statModule (tier_at ?s 1))"
  let ?c = "decimal (unat (slowCount d)) @ '','' @ decimal (unat (stallCount d)) @ [CHR 0x0A]"
  let ?s2 = "reset_stat 1 (reset_stat 0 ?s)"
  let ?d = "d\<lparr>slowCount := 0, stallCount := 0\<rparr>"
  have s: "disks_ok ?s" "length (tiers ?s) = TIER_NUM" using assms(1) by (simp_all add: storage_ok_def store_ok_def)
  have l: "length ?r0 \<le> 79" "length ?r1 \<le> 79" "length ?c \<le> 22"
    using length_Stat_Report length_u32_decimal [of "slowCount d"] length_u32_decimal [of "stallCount d"] by auto
  have b1: "append_text [] (?r0 @ '','') = Inr (?r0 @ '','')" using append_text_fits [of "[]" "?r0 @ '',''"] l(1) by simp
  have b2: "append_text (?r0 @ '','') (?r1 @ '','') = Inr (?r0 @ '','' @ ?r1 @ '','')"
    using append_text_fits [of "?r0 @ '',''" "?r1 @ '',''"] l(1,2) by simp
  have b3: "append_text (?r0 @ '','' @ ?r1 @ '','') ?c = Inr (?r0 @ '','' @ ?r1 @ '','' @ ?c)"
    using append_text_fits [of "?r0 @ '','' @ ?r1 @ '',''" ?c] l by simp
  have t: "statModule (tier_at (reset_stat 0 ?s) 1) = statModule (tier_at ?s 1)" "diskOp (tier_at ?s2 0) = Some d"
      "length (tiers ?s2) = TIER_NUM"
      "statModule (tier_at ?s2 0) = CreateStatModule" "statModule (tier_at ?s2 1) = CreateStatModule"
    using s(2) assms(2) by (simp_all add: reset_stat_def set_stat_def Stat_Reset_def)
  have k: "unmoved ?s ?s2" using reset_stat_unmoved unmoved_trans s(1) by (metis unmoved_def)
  have "disk_ok d" using s(1) assms(2) s(2) unfolding disks_ok_def by (metis zero_less_numeral)
  then have "disk_ok ?d" by (simp add: disk_ok_def)
  then have "unmoved ?s2 (set_disk 0 ?d ?s2)" using set_disk_unmoved [of ?s2 ?d 0] k t(2) by (simp add: unmoved_def)
  then have k2: "unmoved ?s (set_disk 0 ?d ?s2)" using unmoved_trans [OF k] by blast
  have m: "statModule (tier_at (set_disk 0 ?d ?s2) 0) = CreateStatModule"
      "statModule (tier_at (set_disk 0 ?d ?s2) 1) = CreateStatModule"
    using t(3-5) by (simp_all add: set_disk_def)
  have "Storage_Report st = Inr (st\<lparr>sys := set_disk 0 ?d ?s2, reportFD := reportFD st @ ?r0 @ '','' @ ?r1 @ '','' @ ?c\<rparr>)"
    using b1 b2 b3 t(1,2) by (simp add: Storage_Report_def Let_def)
  then show ?thesis using k2 m l by (intro exI conjI) (assumption | simp)+
qed

lemma Storage_Report_no_disk:
  assumes "storage_ok st" and "diskOp (tier_at (sys st) 0) = None"
  shows "Storage_Report st = Inl NullDeref"
proof -
  let ?s = "sys st"
  let ?r0 = "Stat_Report (statModule (tier_at ?s 0))" and ?r1 = "Stat_Report (statModule (tier_at ?s 1))"
  have s: "length (tiers ?s) = TIER_NUM" using assms(1) by (simp add: storage_ok_def store_ok_def)
  have l: "length ?r0 \<le> 79" "length ?r1 \<le> 79" by (rule length_Stat_Report)+
  have "append_text [] (?r0 @ '','') = Inr (?r0 @ '','')" using append_text_fits [of "[]" "?r0 @ '',''"] l(1) by simp
  moreover have "append_text (?r0 @ '','') (?r1 @ '','') = Inr (?r0 @ '','' @ ?r1 @ '','')"
    using append_text_fits [of "?r0 @ '',''" "?r1 @ '',''"] l by simp
  moreover have "statModule (tier_at (reset_stat 0 ?s) 1) = statModule (tier_at ?s 1)"
      "diskOp (tier_at (reset_stat 1 (reset_stat 0 ?s)) 0) = None"
    using s assms(2) by (simp_all add: reset_stat_def set_stat_def)
  ultimately show ?thesis by (simp add: Storage_Report_def Let_def)
qed

subsection \<open>The latency histogram\<close>

definition hist_count :: "Histogram list \<Rightarrow> nat" where
  "hist_count hs = sum_list (map h_num hs)"

definition disk_hists :: "LayerModule \<Rightarrow> Histogram list" where
  "disk_hists t = (case diskOp t of None \<Rightarrow> [] | Some d \<Rightarrow> writeHists d)"

text \<open>One histogram per host thread, each with all its buckets.\<close>

definition hists_ok :: "LayerModule \<Rightarrow> bool" where
  "hists_ok t \<longleftrightarrow> (\<forall>d. diskOp t = Some d \<longrightarrow> length (writeHists d) = unat (hostConcurrency d) \<and>
     (\<forall>h \<in> set (writeHists d). hist_inv h))"

lemma merge_hists_spec:
  "hist_inv h \<Longrightarrow> (\<forall>g \<in> set ys. hist_inv g) \<Longrightarrow>
   \<exists>h' hs'. merge_hists [length xs..<length xs + length ys] h (xs @ ys) = Inr (h', hs') \<and> hist_inv h' \<and>
     h_num h' = h_num h + hist_count ys \<and> hs' = xs @ map Hist_Clear ys"
proof (induction ys arbitrary: h xs)
  case (Cons y ys)
  have up: "[length xs..<length xs + length (y # ys)] = length xs # [length (xs @ [Hist_Clear y])..<length (xs @ [Hist_Clear y]) + length ys]"
    by (simp add: upt_rec)
  have "hist_inv (Hist_Merge h y)" using Cons.prems by (simp add: Hist_Merge_inv)
  from Cons.IH [OF this, of "xs @ [Hist_Clear y]"] Cons.prems(2)
  show ?case unfolding up
    by (auto simp: hist_count_def Hist_Merge_def list_update_append)
qed (simp add: hist_count_def)

lemma merge_tiers_spec:
  assumes "hist_inv h" and "disks_ok s" and "length (tiers s) = TIER_NUM" and "\<forall>k < TIER_NUM. hists_ok (tier_at s k)"
    and "set is \<subseteq> {..<TIER_NUM}" and "distinct is"
  shows "\<exists>h' s'. merge_tiers is h s = Inr (h', s') \<and> hist_inv h' \<and>
    h_num h' = h_num h + (\<Sum>i \<leftarrow> is. hist_count (disk_hists (tier_at s i))) \<and> unmoved s s' \<and>
    (\<forall>k < TIER_NUM. disk_hists (tier_at s' k) =
       (if k \<in> set is then map Hist_Clear (disk_hists (tier_at s k)) else disk_hists (tier_at s k)))"
  using assms
proof (induction "is" arbitrary: h s)
  case Nil
  then show ?case by (simp add: unmoved_refl)
next
  case (Cons i js)
  have i: "i < length (tiers s)" "i < TIER_NUM" "i \<notin> set js" using Cons.prems(3,5,6) by auto
  show ?case
  proof (cases "diskOp (tier_at s i)")
    case None
    then show ?thesis using Cons.IH [OF Cons.prems(1-4)] Cons.prems(5,6) i by (auto simp: disk_hists_def hist_count_def)
  next
    case (Some d)
    have d: "length (writeHists d) = unat (hostConcurrency d)" "\<forall>g \<in> set (writeHists d). hist_inv g"
      using Cons.prems(4) i(2) Some by (auto simp: hists_ok_def)
    have dk: "disk_ok d" using Cons.prems(2) i(1) Some by (auto simp: disks_ok_def)
    obtain h1 where h1: "merge_hists [0..<unat (hostConcurrency d)] h (writeHists d) = Inr (h1, map Hist_Clear (writeHists d))"
        "hist_inv h1" "h_num h1 = h_num h + hist_count (writeHists d)"
      using merge_hists_spec [OF Cons.prems(1) d(2), of "[]"] d(1) by auto
    let ?d = "d\<lparr>writeHists := map Hist_Clear (writeHists d)\<rparr>" and ?s1 = "set_disk i (d\<lparr>writeHists := map Hist_Clear (writeHists d)\<rparr>) s"
    have t1: "tier_at ?s1 k = (if k = i then (tier_at s i)\<lparr>diskOp := Some ?d\<rparr> else tier_at s k)" for k
      using i(1) by (simp add: set_disk_def)
    have k1: "unmoved s ?s1" using set_disk_unmoved [of s ?d i] Cons.prems(2) dk Some by (simp add: disk_ok_def)
    have o1: "disks_ok ?s1" "length (tiers ?s1) = TIER_NUM" "\<forall>k < TIER_NUM. hists_ok (tier_at ?s1 k)"
      using k1 Cons.prems(3,4) d Hist_Clear_inv by (auto simp: unmoved_def t1 hists_ok_def)
    from Cons.IH [OF h1(2) o1] Cons.prems(5,6)
    obtain h' s' where r: "merge_tiers js h1 ?s1 = Inr (h', s')" "hist_inv h'"
        "h_num h' = h_num h1 + (\<Sum>i \<leftarrow> js. hist_count (disk_hists (tier_at ?s1 i)))" "unmoved ?s1 s'"
        "\<forall>k < TIER_NUM. disk_hists (tier_at s' k) =
           (if k \<in> set js then map Hist_Clear (disk_hists (tier_at ?s1 k)) else disk_hists (tier_at ?s1 k))"
      by auto
    have "(\<Sum>i \<leftarrow> js. hist_count (disk_hists (tier_at ?s1 i))) = (\<Sum>i \<leftarrow> js. hist_count (disk_hists (tier_at s i)))"
      by (rule arg_cong [of _ _ sum_list], rule map_cong) (use i(3) in \<open>auto simp: t1\<close>)
    then have "h_num h' = h_num h + (\<Sum>i \<leftarrow> i # js. hist_count (disk_hists (tier_at s i)))"
      using r(3) h1(3) Some by (simp add: disk_hists_def)
    moreover have "\<forall>k < TIER_NUM. disk_hists (tier_at s' k) =
       (if k \<in> set (i # js) then map Hist_Clear (disk_hists (tier_at s k)) else disk_hists (tier_at s k))"
      using r(5) i(3) Some by (auto simp: t1 disk_hists_def)
    ultimately show ?thesis using r(1,2) unmoved_trans [OF k1 r(4)] h1(1) Some by simp
  qed
qed

lemma PrintWriteHistgram_spec:
  assumes "storage_ok st" and "hist_inv (sys_writeHist st)" and "\<forall>k < TIER_NUM. hists_ok (tier_at (sys st) k)"
  shows "\<exists>h st'. PrintWriteHistgram st = Inr (h, st') \<and> unmoved (sys st) (sys st') \<and> ioScheduler st' = ioScheduler st \<and> hist_inv h \<and>
    h_num h = h_num (sys_writeHist st) + (\<Sum>k \<leftarrow> [0..<TIER_NUM]. hist_count (disk_hists (tier_at (sys st) k))) \<and>
    sys_writeHist st' = Hist_Clear h \<and>
    (\<forall>k < TIER_NUM. disk_hists (tier_at (sys st') k) = map Hist_Clear (disk_hists (tier_at (sys st) k)))"
proof -
  have "disks_ok (sys st)" "length (tiers (sys st)) = TIER_NUM" using assms(1) by (simp_all add: storage_ok_def store_ok_def)
  from merge_tiers_spec [OF assms(2) this assms(3), of "[0..<TIER_NUM]"]
  obtain h s where m: "merge_tiers [0..<TIER_NUM] (sys_writeHist st) (sys st) = Inr (h, s)" "unmoved (sys st) s" "hist_inv h"
     "h_num h = h_num (sys_writeHist st) + (\<Sum>k \<leftarrow> [0..<TIER_NUM]. hist_count (disk_hists (tier_at (sys st) k)))"
     "\<forall>k < TIER_NUM. disk_hists (tier_at s k) = map Hist_Clear (disk_hists (tier_at (sys st) k))"
    by fastforce
  then show ?thesis by (simp add: PrintWriteHistgram_def)
qed

subsection \<open>Writes without disks\<close>

lemma WriteIOAux_alone:
  assumes "storage_ok st" and "writable 0 (sys st)" and "diskOp (tier_at (sys st) 0) = None"
  shows "WriteIOAux io old 0 st \<noteq> Inl Diverged"
proof -
  let ?s = "sys st"
  have s: "disks_ok ?s" "length (tiers ?s) = TIER_NUM" "layer_ok (tier_at ?s 0)" "layer_ok (tier_at ?s 1)"
    using assms(1) by (simp_all add: storage_ok_def store_ok_def)
  have rd: "sized (tier_at ?s 0)" "2 \<le> free_blocks (tier_at ?s 0)"
      "diskOp (tier_at ?s 0) = None \<longrightarrow> spacious (tier_at ?s 0)" "calm 0 ?s"
    using assms(2) by (simp_all add: writable_def)
  have lt: "0 < length (tiers ?s)" using s(2) by simp
  have "alone 0 ?s" using s assms(3) by (simp add: alone_def)
  moreover have "0 < host_room (gcModule (tier_at ?s 0))"
  proof -
    have "freeQ (gcModule (tier_at ?s 0)) \<noteq> []" using rd(2) by (auto simp: free_blocks_def)
    then show ?thesis using host_room_pos s(3) by (simp add: layer_ok_def)
  qed
  ultimately have "WriteHostIO 0 io old ?s \<noteq> Inl Diverged" by (rule WriteHostIO_alone)
  then obtain ok out s1 where w: "WriteHostIO 0 io old ?s = Inr (ok, out, s1)" "disks_ok s1" "changes {0} ?s s1"
    using WriteHostIO_spec [OF s(1) lt refl s(3) rd, of io old]
    by (cases "WriteHostIO 0 io old ?s") auto
  have "same_core (tier_at ?s 1) (tier_at s1 1)" "length (tiers s1) = TIER_NUM"
    using w(3) s(2) by (auto simp: changes_def)
  moreover from this have "layer_ok (tier_at s1 (1 - 0))" using same_core_ok(1) s(4) by simp
  ultimately obtain s2 where "delete_others 0 (io_lba io) (io_length io) [0..<TIER_NUM] s1 = Inr s2"
    using delete_others_spec [OF w(2)] by fastforce
  then show ?thesis using w(1) by (simp add: WriteIOAux_def Let_def)
qed

lemma Storage_WriteHostIO_alone:
  assumes "storage_ok st" and "writable 0 (sys st)" and "diskOp (tier_at (sys st) 0) = None"
    and "targets (ioScheduler st) = {0}"
  shows "\<exists>ok st'. Storage_WriteHostIO io st = Inr (ok, st') \<and> storage_ok st' \<and> ioScheduler st' = ioScheduler st \<and>
    placed (page_align (io_lba io)) 0 st st'"
proof -
  have off: "\<not> ideal_enable (ioScheduler st)" "\<not> helper_enable (ioScheduler st)"
    using assms(4) by (auto simp: targets_def split: if_split_asm)
  obtain ok where q: "Storage_QueryPageHistoryFreq (io_lba io) zero_freq st = Inr (ok, zero_freq)"
    using Storage_QueryPageHistoryFreq_blind [OF assms(1)] by blast
  have eq: "Storage_WriteHostIO io st = WriteIOAux io zero_freq 0 st"
    using off q by (simp add: Storage_WriteHostIO_def)
  show ?thesis
    using WriteIOAux_alone [OF assms(1-3), of io zero_freq] Storage_WriteHostIO_spec [OF assms(1), of io] assms(2,4)
    by (cases "WriteIOAux io zero_freq 0 st") (auto simp: eq)
qed

subsection \<open>Pages given up\<close>

text \<open>What tier 0 hands over is in no tier afterwards.\<close>

lemma placed_lost:
  assumes "placed p 0 st st'" and "storage_ok st" and "g_tierDownPages st \<noteq> Some ps" and "g_tierDownPages st' = Some ps"
  shows "tp_lba ` set ps \<inter> (holds 0 st' \<union> holds 1 st') = {}"
proof -
  have "holds 0 st \<inter> holds 1 st = {}" using assms(2) by (simp add: storage_ok_def store_ok_def)
  then show ?thesis using assms(1,3,4) by (auto simp: placed_def)
qed

subsection \<open>Creation and destruction\<close>

definition creatable :: "LayerModuleConfigure \<Rightarrow> bool" where
  "creatable c \<longleftrightarrow> indexBucketCnt (lm_gcConf c) * 100 \<noteq> 0 \<and> indexBucketNum (lm_tierConf c) * 100 \<noteq> 0 \<and>
     (lm_needDiskOperation c \<longrightarrow> lm_requestQueueSize c \<noteq> 0)"

text \<open>A fresh tier.\<close>

definition fresh_tier :: "LayerModuleConfigure \<Rightarrow> LayerModule \<Rightarrow> bool" where
  "fresh_tier c t \<longleftrightarrow> layer_ok t \<and> stored t = {} \<and> free_blocks t = unat (totalBlockCnt (lm_gcConf c)) \<and>
     nblocks (gcModule t) = unat (totalBlockCnt (lm_gcConf c)) \<and> (diskOp t = None \<longleftrightarrow> \<not> lm_needDiskOperation c) \<and>
     gcWL t = lm_gcWL c \<and> gcBlockCnt t = lm_gcBlockCnt c \<and> gcStallWL t = lm_gcStallWL c \<and>
     tierDownWL t = lm_tierDownWL c \<and> tierDownBlockCnt t = lm_tierDownBlockCnt c \<and>
     tierDownStallWL t = lm_tierDownStallWL c \<and> statModule t = CreateStatModule"

lemma CreateStorageSystem_spec:
  assumes "layerConf conf = [c0, c1]" and "creatable c0" and "creatable c1"
    and "idealEnable (schedulerConf conf) \<longrightarrow> idealBypass (schedulerConf conf) \<noteq> None"
    and "\<not> idealEnable (schedulerConf conf) \<and> normalEnable (schedulerConf conf) \<longrightarrow> lm_needDiskOperation c1"
  shows "\<exists>st. CreateStorageSystem j1 j2 behind t fut conf = Inr st \<and> storage_ok st \<and>
    fresh_tier c0 (tier_at (sys st) 0) \<and> fresh_tier c1 (tier_at (sys st) 1) \<and>
    ioScheduler st = CreateIOScheduler j1 j2 (schedulerConf conf) \<and> g_tierDownPages st = None \<and>
    tierDownThread st = AtTest \<and> running st \<and> future (sys st) = fut"
proof -
  have c: "\<exists>t. CreateLayerModule c = Inr t \<and> fresh_tier c t \<and> (\<forall>d. diskOp t = Some d \<longrightarrow> disk_ok d)" if "creatable c" for c
  proof -
    have h: "indexBucketCnt (lm_gcConf c) * 100 \<noteq> 0" "indexBucketNum (lm_tierConf c) * 100 \<noteq> 0"
        "lm_needDiskOperation c \<longrightarrow> lm_requestQueueSize c \<noteq> 0"
      using that by (simp_all add: creatable_def)
    show ?thesis
      unfolding fresh_tier_def
      by (rule exE [OF CreateLayerModule_spec [OF h(1,2)]], rule h(3) [rule_format], assumption, elim conjE, intro exI conjI, assumption+)
  qed
  obtain t0 t1 where t: "CreateLayerModule c0 = Inr t0" "fresh_tier c0 t0" "\<forall>d. diskOp t0 = Some d \<longrightarrow> disk_ok d"
      "CreateLayerModule c1 = Inr t1" "fresh_tier c1 t1" "\<forall>d. diskOp t1 = Some d \<longrightarrow> disk_ok d"
    using c [OF assms(2)] c [OF assms(3)] by blast
  let ?st = "\<lparr>sys = \<lparr>tiers = [t0, t1], g_IOPS = 0, now = t, future = fut\<rparr>,
       ioScheduler = CreateIOScheduler j1 j2 (schedulerConf conf), after_g_IOPS = behind,
       sys_writeHist = CreateHistogram, reportFD = [], running = True, tierDownThread = AtTest,
       g_tierDownPages = None, g_tierDownPageCnt = 0\<rparr>"
  have at: "tier_at (sys ?st) 0 = t0" "tier_at (sys ?st) 1 = t1" by (simp_all add: tier_at_def)
  have "disks_ok (sys ?st)" using t(3,6) by (auto simp: disks_ok_def tier_at_def nth_Cons split: nat.split_asm)
  then have so: "store_ok (sys ?st)" using t(2,5) by (simp add: store_ok_def tier_at_def fresh_tier_def)
  have "scheduler_ok (ioScheduler ?st) (sys ?st)"
    using assms(4,5) t(5) by (simp add: scheduler_ok_def CreateIOScheduler_def tier_at_def fresh_tier_def)
  then have "storage_ok ?st" using so by (simp add: storage_ok_def)
  moreover have "CreateStorageSystem j1 j2 behind t fut conf = Inr ?st"
    using assms(1) t(1,4) by (simp add: CreateStorageSystem_def)
  ultimately show ?thesis using at t(2,5) by (intro exI [of _ ?st]) simp
qed

text \<open>
  The join in \<open>DestroyStorageSystem\<close> returns unless the thread was between its test of \<open>running\<close>
  and its wait: then the signal is lost and nobody will wake the thread again.
\<close>

lemma DestroyStorageSystem_ends:
  assumes "tierDownThread st \<noteq> AtWait" and "2 \<le> n"
  shows "\<exists>st'. DestroyStorageSystem n st = Inr st' \<and> tierDownThread st' = Finished \<and> sys st' = sys st"
proof -
  obtain k where n: "n = Suc (Suc k)" using assms(2) by (metis Suc_le_D numeral_2_eq_2 Suc_le_mono)
  have "join_thread m x = Inr x" if "tierDownThread x = Finished" for m x using that by (cases m) simp_all
  then show ?thesis
    using assms(1) by (cases "tierDownThread st")
      (simp_all add: DestroyStorageSystem_def signal_def n thread_step_def TierDownThread_eq)
qed

lemma join_waiting: "tierDownThread st = Waiting \<Longrightarrow> join_thread n st = Inl Diverged"
  by (induction n) (simp_all add: thread_step_def)

lemma DestroyStorageSystem_hangs:
  assumes "tierDownThread st = AtWait"
  shows "DestroyStorageSystem n st = Inl Diverged"
  using assms by (cases n) (simp_all add: DestroyStorageSystem_def signal_def thread_step_def join_waiting)

subsection \<open>Every reachable state\<close>

lemma merge_hists_length: "merge_hists js h hs = Inr (h', hs') \<Longrightarrow> length hs' = length hs"
  by (induction js h hs rule: merge_hists.induct) (auto simp: fault_iff)

lemma merge_tiers_unmoved:
  "merge_tiers is h s = Inr (h', s') \<Longrightarrow> disks_ok s \<Longrightarrow> set is \<subseteq> {..<length (tiers s)} \<Longrightarrow> unmoved s s'"
proof (induction "is" h s rule: merge_tiers.induct)
  case (2 i js h s)
  show ?case
  proof (cases "diskOp (tier_at s i)")
    case None
    then show ?thesis using 2 by simp
  next
    case (Some d)
    obtain h1 hs where m: "merge_hists [0..<unat (hostConcurrency d)] h (writeHists d) = Inr (h1, hs)"
        "merge_tiers js h1 (set_disk i (d\<lparr>writeHists := hs\<rparr>) s) = Inr (h', s')"
      using 2(3) Some by (auto simp: fault_iff)
    have "disk_ok d" using 2(4,5) Some by (auto simp: disks_ok_def)
    then have "disk_ok (d\<lparr>writeHists := hs\<rparr>)" using merge_hists_length [OF m(1)] by (simp add: disk_ok_def)
    then have k: "unmoved s (set_disk i (d\<lparr>writeHists := hs\<rparr>) s)" using set_disk_unmoved 2(4) Some by simp
    have "unmoved (set_disk i (d\<lparr>writeHists := hs\<rparr>) s) s'"
      using 2(2) [OF Some m(1) refl m(2)] k 2(5) by (auto simp: unmoved_def)
    then show ?thesis using unmoved_trans [OF k] by blast
  qed
qed (simp add: unmoved_refl)

text \<open>Steps that find room for their writes, and in which the tier-down thread clears nothing that \<open>HandleTierDown\<close> uses.\<close>

definition roomy_step :: "StorageSystem \<Rightarrow> StorageSystem \<Rightarrow> bool" where
  "roomy_step st st' \<longleftrightarrow> orderly_step st st' \<and> (\<forall>l \<in> targets (ioScheduler st). writable l (sys st))"

lemma same_store_ok: "same_store a b \<Longrightarrow> storage_ok a = storage_ok b"
  by (simp add: same_store_def storage_ok_def)

lemma roomy_step_ok:
  assumes "roomy_step st st'" and "storage_ok st"
  shows "storage_ok st'"
  using assms(1) unfolding roomy_step_def
proof (elim conjE orderly_stepE)
  fix io ok st1 assume "\<forall>l \<in> targets (ioScheduler st). writable l (sys st)" "Storage_WriteHostIO io st = Inr (ok, st1)"
    and m: "same_store st1 st'"
  then have "storage_ok st1" using Storage_WriteHostIO_spec [OF assms(2), of io] by simp
  then show ?thesis using same_store_ok [OF m] by simp
next
  fix io ok st1 assume r: "Storage_ReadHostIO io st = Inr (ok, st1)" and m: "same_store st1 st'"
  then have "page_align (io_lba io) \<in> holds 0 st" using Storage_ReadHostIO_missing [OF assms(2), of io] by auto
  then have "storage_ok st1" using Storage_ReadHostIO_spec [OF assms(2), of io] r by simp
  then show ?thesis using same_store_ok [OF m] by simp
next
  assume "thread_step st = Inr st'"
  then show ?thesis using thread_step_total [of st] assms(2) by (auto simp: storage_ok_def)
next
  assume "st' = st\<lparr>tierDownThread := Woken\<rparr>"
  then show ?thesis using assms(2) by (simp add: storage_ok_def)
next
  fix h assume "PrintWriteHistgram st = Inr (h, st')"
  then obtain h1 s where s: "merge_tiers [0..<TIER_NUM] (sys_writeHist st) (sys st) = Inr (h1, s)"
      "st' = st\<lparr>sys := s, sys_writeHist := Hist_Clear h1\<rparr>"
    by (auto simp: PrintWriteHistgram_def fault_iff)
  have "disks_ok (sys st)" "set [0..<TIER_NUM] \<subseteq> {..<length (tiers (sys st))}"
    using assms(2) by (auto simp: storage_ok_def store_ok_def)
  then have "unmoved (sys st) (sys st')" using merge_tiers_unmoved [OF s(1)] s(2) by simp
  then show ?thesis using unmoved_storage [OF assms(2)] s(2) by simp
next
  assume r: "Storage_Report st = Inr st'"
  then obtain d where "diskOp (tier_at (sys st) 0) = Some d"
    using Storage_Report_no_disk [OF assms(2)] by (cases "diskOp (tier_at (sys st) 0)") auto
  then show ?thesis using Storage_Report_spec [OF assms(2)] r unmoved_storage [OF assms(2)] by fastforce
qed

lemma roomy_steps_ok: "roomy_step\<^sup>*\<^sup>* st st' \<Longrightarrow> storage_ok st \<Longrightarrow> storage_ok st'"
  by (induction rule: rtranclp_induct) (auto intro: roomy_step_ok)

subsection \<open>Writes to tier 0 in steps\<close>

lemma Storage_WriteHostIO_tier0:
  assumes "storage_ok st" and "targets (ioScheduler st) = {0}"
  shows "Storage_WriteHostIO io st = WriteIOAux io zero_freq 0 st"
proof -
  have off: "\<not> ideal_enable (ioScheduler st)" "\<not> helper_enable (ioScheduler st)"
    using assms(2) by (auto simp: targets_def split: if_split_asm)
  obtain q where "Storage_QueryPageHistoryFreq (io_lba io) zero_freq st = Inr (q, zero_freq)"
    using Storage_QueryPageHistoryFreq_blind [OF assms(1)] by blast
  then show ?thesis using off by (simp add: Storage_WriteHostIO_def)
qed

lemma WriteIOAux_steps:
  "WriteHostIO 0 io zero_freq (sys st) = Inr (ok1, out, s1) \<Longrightarrow>
   delete_others 0 (io_lba io) (io_length io) [0..<TIER_NUM] s1 = Inr s2 \<Longrightarrow>
   \<exists>st'. WriteIOAux io zero_freq 0 st = Inr (ok1, st') \<and> sys st' = s2"
  by (cases out) (auto simp: WriteIOAux_def Let_def signal_def)

lemma Storage_WriteHostIO_steps:
  assumes "storage_ok st" and "targets (ioScheduler st) = {0}" and "Storage_WriteHostIO io st = Inr (ok, st')"
  shows "\<exists>ok1 out s1. WriteHostIO 0 io zero_freq (sys st) = Inr (ok1, out, s1) \<and>
    delete_others 0 (io_lba io) (io_length io) [0..<TIER_NUM] s1 = Inr (sys st')"
proof -
  have wa: "WriteIOAux io zero_freq 0 st = Inr (ok, st')" using assms(3) Storage_WriteHostIO_tier0 [OF assms(1,2)] by simp
  then obtain ok1 out s1 where h1: "WriteHostIO 0 io zero_freq (sys st) = Inr (ok1, out, s1)"
    by (cases "WriteHostIO 0 io zero_freq (sys st)") (auto simp: WriteIOAux_def)
  obtain s2 where h2: "delete_others 0 (io_lba io) (io_length io) [0..<TIER_NUM] s1 = Inr s2"
    using wa by (cases "delete_others 0 (io_lba io) (io_length io) [0..<TIER_NUM] s1") (auto simp: WriteIOAux_def h1)
  show ?thesis using WriteIOAux_steps [OF h1 h2] wa h1 h2 by auto
qed

text \<open>Afterwards tier 0 is as \<open>WriteHostIO\<close> left it in \<open>s1\<close>.\<close>

lemma Storage_write_tier0:
  assumes "storage_ok st" and "targets (ioScheduler st) = {0}" and "writable 0 (sys st)" and "Storage_WriteHostIO io st = Inr (ok, st')"
  shows "\<exists>ok1 out s1. WriteHostIO 0 io zero_freq (sys st) = Inr (ok1, out, s1) \<and>
    host_written (page_align (io_lba io)) (tier_at (sys st) 0) out (tier_at s1 0) \<and> storage_ok st' \<and> ioScheduler st' = ioScheduler st \<and>
    settings (tier_at (sys st') 0) = settings (tier_at (sys st) 0) \<and>
    nblocks (gcModule (tier_at (sys st') 0)) = nblocks (gcModule (tier_at (sys st) 0)) \<and>
    gcModule (tier_at (sys st') 0) = gcModule (tier_at s1 0) \<and> holds 0 st' = stored (tier_at s1 0)"
proof -
  let ?s = "sys st"
  have s: "disks_ok ?s" "length (tiers ?s) = TIER_NUM" "layer_ok (tier_at ?s 0)" "layer_ok (tier_at ?s 1)"
    using assms(1) by (simp_all add: storage_ok_def store_ok_def)
  have lt: "0 < length (tiers ?s)" using s(2) by simp
  have wr: "sized (tier_at ?s 0)" "2 \<le> free_blocks (tier_at ?s 0)" "diskOp (tier_at ?s 0) = None \<longrightarrow> spacious (tier_at ?s 0)" "calm 0 ?s"
    using assms(3) by (simp_all add: writable_def)
  have w2: "storage_ok st'" "ioScheduler st' = ioScheduler st"
    using Storage_WriteHostIO_spec [OF assms(1), of io] assms(2-4) by simp_all
  obtain ok1 out s1 where h: "WriteHostIO 0 io zero_freq ?s = Inr (ok1, out, s1)"
      "delete_others 0 (io_lba io) (io_length io) [0..<TIER_NUM] s1 = Inr (sys st')"
    using Storage_WriteHostIO_steps [OF assms(1,2,4)] by blast
  have a: "disks_ok s1" "changes {0} ?s s1" "host_written (page_align (io_lba io)) (tier_at ?s 0) out (tier_at s1 0)"
    using WriteHostIO_spec [OF s(1) lt refl s(3) wr, of io zero_freq] h(1) by simp_all
  have "same_core (tier_at ?s 1) (tier_at s1 1)" and len: "length (tiers s1) = TIER_NUM" using a(2) s(2) by (auto simp: changes_def)
  then have l1: "layer_ok (tier_at s1 (1 - 0))" using same_core_ok(1) s(4) by simp
  have "changes {1} s1 (sys st')" using delete_others_spec [OF a(1) len l1, of "io_lba io" "io_length io"] h(2) by simp
  then have own: "same_core (tier_at s1 0) (tier_at (sys st') 0)" using len by (simp add: changes_def)
  show ?thesis
    using h(1) w2 a(3) own same_core_ok(2) [OF own]
    by (intro exI [of _ ok1] exI [of _ out] exI [of _ s1]) (simp add: same_core_def host_written_def)
qed

end
