(* ===== verification/Workload.thy ===== *)
theory Workload
  imports Layer_Ops
begin

text \<open>
  The workload generators: src/src/include/workload/sequential_generator.c, random_generator.c and
  zipf_generator.c. The random sources are C++ library distributions (and \<open>rand\<close>): a generator
  takes what they return as an argument, or the function \<open>next\<close> that draws from one. \<open>ts\<close> is the
  result of \<open>GetCurrentTimeStamp\<close>. Division by a \<open>maxLbaCount\<close> of 0 is a fault.
\<close>

definition lba_count :: "u32 \<Rightarrow> u64" where
  "lba_count maxBlockCount = ucast maxBlockCount * 512"

lemma unat_lt2p64: "unat (x :: u64) < 18446744073709551616"
  using unsigned_less [of x, where ?'a = nat] by simp

lemma unat_of_nat_len64: "a < 18446744073709551616 \<Longrightarrow> unat (of_nat a :: u64) = a"
  by (simp add: unat_of_nat take_bit_nat_eq_self)

lemma unat_lba_count: "unat (lba_count n) = unat n * 512"
  using unat_lt2p32 [of n] by (simp add: lba_count_def unat_word_ariths unsigned_ucast_eq take_bit_nat_eq_self)

subsection \<open>The sequential generator\<close>

record SequentialGenerator =
  sg_maxLbaCount :: u64
  curPos :: u64

definition CreateSequentialGenerator :: "u32 \<Rightarrow> SequentialGenerator" where
  "CreateSequentialGenerator maxBlockCount =
     \<lparr>sg_maxLbaCount = lba_count maxBlockCount, curPos = lba_count maxBlockCount\<rparr>"

definition GenerateWarmupIO :: "u64 \<Rightarrow> SequentialGenerator \<Rightarrow> IO \<times> SequentialGenerator" where
  "GenerateWarmupIO ts seq =
     (let pos = curPos seq - 1 in
      (\<lparr>io_lba = push_bit PAGE_8K_SHIFT pos, io_length = ucast PAGE_SIZE, io_op = Some WRITE, io_timestamp = ts\<rparr>,
       seq\<lparr>curPos := (if pos = 0 then sg_maxLbaCount seq else pos)\<rparr>))"

text \<open>The loop of \<open>SequentialWorkloadInstance\<close>: what it pushes in as many rounds as there are times.\<close>

fun warmup :: "u64 list \<Rightarrow> SequentialGenerator \<Rightarrow> IO list \<times> SequentialGenerator" where
  "warmup [] seq = ([], seq)"
| "warmup (ts # tss) seq =
     (let (io, seq1) = GenerateWarmupIO ts seq; (ios, seq2) = warmup tss seq1 in (io # ios, seq2))"

subsection \<open>The random generator\<close>

record RandomGenerator =
  rg_maxLbaCount :: u64
  rg_maxIOCount :: u64

definition CreateRandomGenerator :: "u32 \<Rightarrow> u64 \<Rightarrow> RandomGenerator" where
  "CreateRandomGenerator maxBlockCount maxIOCount =
     \<lparr>rg_maxLbaCount = lba_count maxBlockCount, rg_maxIOCount = maxIOCount\<rparr>"

text \<open>The source compares with \<open>PAGE_8K_SHIFT\<close> where the other generators shift by it.\<close>

definition GenerateReadWriteIO :: "u32 \<Rightarrow> u64 \<Rightarrow> RandomGenerator \<Rightarrow> fault + IO" where
  "GenerateReadWriteIO value ts gen =
     (if rg_maxLbaCount gen = 0 then Inl DivByZero else
      Inr \<lparr>io_lba = (if ucast value mod rg_maxLbaCount gen < of_nat PAGE_8K_SHIFT then 1 else 0),
        io_length = ucast PAGE_SIZE, io_op = Some WRITE, io_timestamp = ts\<rparr>)"

text \<open>
  The loop of \<open>RandomWorkloadInstance\<close>: what it pushes in as many rounds as there are draws, each a
  value of the random source and a time.
\<close>

fun random_workload :: "(u32 \<times> u64) list \<Rightarrow> RandomGenerator \<Rightarrow> fault + IO list" where
  "random_workload [] gen = Inr []"
| "random_workload ((v, ts) # ds) gen =
     bindE (GenerateReadWriteIO v ts gen) (\<lambda>io. bindE (random_workload ds gen) (\<lambda>ios. Inr (io # ios)))"

subsection \<open>The Zipf generator\<close>

record 'g ZipfGenerator =
  zg_maxLbaCount :: u64
  readWriteRatio :: u32
  readLbaOffset :: u32
  writeLbaOffset :: u32
  swapStart :: u64
  swapMid :: u64
  swapEnd :: u64
  transferOffset :: u64
  transferOffsetBase :: u64
  zg_maxIOCount :: u64
  readGen :: 'g
  writeGen :: 'g

definition zipf_mod :: "'g ZipfGenerator \<Rightarrow> u64 \<Rightarrow> fault + u64" where
  "zipf_mod zipf x = (if zg_maxLbaCount zipf = 0 then Inl DivByZero else Inr (x mod zg_maxLbaCount zipf))"

definition ZipfGenerateReadIO :: "('g \<Rightarrow> u64 \<times> 'g) \<Rightarrow> 'g ZipfGenerator \<Rightarrow> fault + u64 \<times> 'g ZipfGenerator" where
  "ZipfGenerateReadIO next zipf =
     (let (lba, g) = next (readGen zipf) in
      bindE (zipf_mod zipf (lba + ucast (readLbaOffset zipf))) (\<lambda>x. Inr (x, zipf\<lparr>readGen := g\<rparr>)))"

definition zipf_swap :: "'g ZipfGenerator \<Rightarrow> u64 \<Rightarrow> u64" where
  "zipf_swap zipf lba =
     (if swapStart zipf \<le> lba \<and> lba < swapMid zipf then lba + (swapMid zipf - swapStart zipf)
      else if swapMid zipf \<le> lba \<and> lba < swapEnd zipf then lba - (swapEnd zipf - swapMid zipf)
      else lba)"

text \<open>The \<open>nextValue\<close> of \<open>writeGen\<close> is called, but on \<open>readGen\<close>: writes draw from the reads' source.\<close>

definition ZipfGenerateWriteIO :: "('g \<Rightarrow> u64 \<times> 'g) \<Rightarrow> 'g ZipfGenerator \<Rightarrow> fault + u64 \<times> 'g ZipfGenerator" where
  "ZipfGenerateWriteIO next zipf =
     (let (lba, g) = next (readGen zipf) in
      bindE (zipf_mod zipf (lba + ucast (writeLbaOffset zipf))) (\<lambda>x. Inr (zipf_swap zipf x, zipf\<lparr>readGen := g\<rparr>)))"

text \<open>\<open>r\<close> is what \<open>rand\<close> returns.\<close>

definition ZipfGenerateReadWriteIO :: "('g \<Rightarrow> u64 \<times> 'g) \<Rightarrow> u32 \<Rightarrow> u64 \<Rightarrow> 'g ZipfGenerator \<Rightarrow> fault + IO \<times> 'g ZipfGenerator" where
  "ZipfGenerateReadWriteIO next r ts zipf =
     (let rd = r mod 100 < readWriteRatio zipf in
      bindE (if rd then ZipfGenerateReadIO next zipf else ZipfGenerateWriteIO next zipf) (\<lambda>(lba, zipf1).
      bindE (zipf_mod zipf1 (lba + transferOffsetBase zipf1)) (\<lambda>x.
      Inr (\<lparr>io_lba = push_bit PAGE_8K_SHIFT x, io_length = ucast PAGE_SIZE,
            io_op = Some (if rd then READ else WRITE), io_timestamp = ts\<rparr>, zipf1))))"

text \<open>The loop of \<open>ZipfWorkloadInstance\<close>; each round has a result of \<open>rand\<close> and a time.\<close>

fun zipf_workload :: "('g \<Rightarrow> u64 \<times> 'g) \<Rightarrow> (u32 \<times> u64) list \<Rightarrow> 'g ZipfGenerator \<Rightarrow> fault + IO list \<times> 'g ZipfGenerator" where
  "zipf_workload next [] zipf = Inr ([], zipf)"
| "zipf_workload next ((r, ts) # ds) zipf =
     bindE (ZipfGenerateReadWriteIO next r ts zipf) (\<lambda>(io, zipf1).
     bindE (zipf_workload next ds zipf1) (\<lambda>(ios, zipf2). Inr (io # ios, zipf2)))"

definition ZipfUpdateHeatDistribution :: "'g ZipfGenerator \<Rightarrow> fault + 'g ZipfGenerator" where
  "ZipfUpdateHeatDistribution zipf =
     bindE (zipf_mod zipf (transferOffsetBase zipf + transferOffset zipf)) (\<lambda>x.
     Inr (zipf\<lparr>transferOffsetBase := x\<rparr>))"

record ZipfGeneratorConfigure =
  maxBlockCount :: u32
  zc_readWriteRatio :: u32
  readLbaOffsetRatio :: u32
  writeLbaOffsetRatio :: u32
  swapStartRatio :: u64
  swapMidRatio :: u64
  swapEndRatio :: u64
  transferOffsetRatio :: u32
  maxIOCount :: u64

text \<open>The offsets of reads and writes are kept in 32 bits. \<open>g1\<close> and \<open>g2\<close> are the two new sources.\<close>

definition CreateZipfGenerator :: "'g \<Rightarrow> 'g \<Rightarrow> ZipfGeneratorConfigure \<Rightarrow> 'g ZipfGenerator" where
  "CreateZipfGenerator g1 g2 conf =
     (let n = lba_count (maxBlockCount conf) in
      \<lparr>zg_maxLbaCount = n, readWriteRatio = zc_readWriteRatio conf,
       readLbaOffset = ucast (n * ucast (readLbaOffsetRatio conf) div 100),
       writeLbaOffset = ucast (n * ucast (writeLbaOffsetRatio conf) div 100),
       swapStart = n * swapStartRatio conf div 100, swapMid = n * swapMidRatio conf div 100,
       swapEnd = n * swapEndRatio conf div 100,
       transferOffset = n * ucast (transferOffsetRatio conf) div 100, transferOffsetBase = 0,
       zg_maxIOCount = maxIOCount conf, readGen = g1, writeGen = g2\<rparr>)"

subsection \<open>The warm-up visits every page once\<close>

lemma page_align_shift [simp]: "page_align (push_bit PAGE_8K_SHIFT x) = push_bit PAGE_8K_SHIFT x"
  unfolding page_align_def by (rule bit_eqI) (auto simp: bit_push_bit_iff bit_drop_bit_eq)

lemma warmup_down:
  assumes "unat (curPos seq) = n + length tss" and "0 < n"
  shows "map io_lba (fst (warmup tss seq)) = map (\<lambda>i. push_bit PAGE_8K_SHIFT (of_nat (n + i))) (rev [0..<length tss]) \<and>
    unat (curPos (snd (warmup tss seq))) = n \<and> sg_maxLbaCount (snd (warmup tss seq)) = sg_maxLbaCount seq"
  using assms
proof (induction tss arbitrary: seq)
  case (Cons ts tss)
  let ?pos = "curPos seq - 1"
  have "curPos seq \<noteq> 0" using Cons.prems by auto
  then have u: "unat ?pos = n + length tss" using Cons.prems(1) by (metis add_Suc_right diff_Suc_1 length_Cons unat_minus_one)
  then have nz: "?pos \<noteq> 0" using Cons.prems(2) by auto
  have p: "?pos = of_nat (n + length tss)" using u by (metis word_unat_eq_iff unat_of_nat_len64 unat_lt2p64)
  have "unat (curPos (snd (GenerateWarmupIO ts seq))) = n + length tss"
    using nz u by (simp add: GenerateWarmupIO_def Let_def)
  from Cons.IH [OF this Cons.prems(2)] show ?case
    using nz p by (simp add: GenerateWarmupIO_def Let_def case_prod_unfold)
qed simp

text \<open>One pass writes the pages from the last to the first and is back where it began.\<close>

lemma warmup_pass:
  assumes "length tss = unat maxBlocks * 512" and "maxBlocks \<noteq> 0"
  shows "map io_lba (fst (warmup tss (CreateSequentialGenerator maxBlocks))) =
      map (\<lambda>i. push_bit PAGE_8K_SHIFT (of_nat i)) (rev [0..<length tss]) \<and>
    snd (warmup tss (CreateSequentialGenerator maxBlocks)) = CreateSequentialGenerator maxBlocks"
proof -
  let ?g = "CreateSequentialGenerator maxBlocks"
  have "unat maxBlocks \<noteq> 0" using assms(2) by (simp add: unat_eq_zero)
  then have "tss \<noteq> []" using assms(1) by auto
  then obtain init t where tss: "tss = init @ [t]" by (metis rev_exhaust)
  have u: "unat (curPos ?g) = 1 + length init"
    using assms(1) tss by (simp add: CreateSequentialGenerator_def unat_lba_count)
  have app: "warmup (xs @ ys) g = (let (a, g1) = warmup xs g; (b, g2) = warmup ys g1 in (a @ b, g2))" for xs ys g
    by (induction xs arbitrary: g) (simp_all add: Let_def case_prod_unfold)
  note d = warmup_down [OF u zero_less_one]
  let ?g1 = "snd (warmup init ?g)"
  have "curPos ?g1 = 1" using d by (simp add: word_unat_eq_iff)
  moreover have "sg_maxLbaCount ?g1 = lba_count maxBlocks" using d by (simp add: CreateSequentialGenerator_def)
  ultimately have l: "warmup [t] ?g1 = ([\<lparr>io_lba = 0, io_length = ucast PAGE_SIZE, io_op = Some WRITE, io_timestamp = t\<rparr>], ?g)"
    by (simp add: GenerateWarmupIO_def Let_def CreateSequentialGenerator_def)
  have up: "rev [0..<length tss] = map Suc (rev [0..<length init]) @ [0]"
    by (simp add: tss upt_conv_Cons map_Suc_upt rev_map [symmetric] del: upt_Suc)
  show ?thesis unfolding up using d l by (simp add: tss app Let_def case_prod_unfold o_def)
qed

lemma inj_on_shift: "inj_on (\<lambda>i. push_bit PAGE_8K_SHIFT (of_nat i :: u64)) {..<2 ^ 51}"
proof (rule inj_onI)
  fix i j assume "i \<in> {..<2 ^ 51}" "j \<in> {..<2 ^ 51}"
    and e: "push_bit PAGE_8K_SHIFT (of_nat i :: u64) = push_bit PAGE_8K_SHIFT (of_nat j)"
  then have b: "i < 2 ^ 51" "j < 2 ^ 51" by auto
  have "unat (push_bit PAGE_8K_SHIFT (of_nat k :: u64)) = k * 8192" if "k < 2 ^ 51" for k
  proof -
    have "push_bit PAGE_8K_SHIFT (of_nat k :: u64) = of_nat (k * 8192)" by (simp add: push_bit_eq_mult)
    moreover have "k * 8192 < 18446744073709551616" using that by simp
    ultimately show ?thesis by (simp only: unat_of_nat_len64)
  qed
  then show "i = j" using e b by (metis mult_cancel_right zero_neq_numeral)
qed

subsection \<open>The random generator writes one page\<close>

lemma random_first_page: "GenerateReadWriteIO v ts gen = Inr io \<Longrightarrow> page_align (io_lba io) = 0"
  by (auto simp: GenerateReadWriteIO_def page_align_def split: if_split_asm)

lemma random_workload_pages:
  "random_workload ds gen = Inr ios \<Longrightarrow> length ios = length ds \<and> (\<forall>io\<in>set ios. page_align (io_lba io) = 0)"
  by (induction ds gen arbitrary: ios rule: random_workload.induct) (auto simp: fault_iff random_first_page)

lemma random_workload_total: "rg_maxLbaCount gen \<noteq> 0 \<Longrightarrow> \<exists>ios. random_workload ds gen = Inr ios"
  by (induction ds gen rule: random_workload.induct) (auto simp: GenerateReadWriteIO_def)

subsection \<open>The Zipf generator\<close>

lemma zipf_mod_less: "zipf_mod zipf x = Inr y \<Longrightarrow> y < zg_maxLbaCount zipf"
  by (auto simp: zipf_mod_def word_mod_less_divisor word_gt_0 split: if_split_asm)

text \<open>Every request is for a whole page of the device, and only the reads' source is drawn from.\<close>

lemma zipf_request:
  assumes "zg_maxLbaCount zipf \<noteq> 0"
  shows "\<exists>io zipf' x. ZipfGenerateReadWriteIO next r ts zipf = Inr (io, zipf') \<and> x < zg_maxLbaCount zipf \<and>
    io_lba io = push_bit PAGE_8K_SHIFT x \<and> io_length io = 8192 \<and> zipf' = zipf\<lparr>readGen := snd (next (readGen zipf))\<rparr>"
proof -
  define rd where "rd \<longleftrightarrow> r mod 100 < readWriteRatio zipf"
  obtain v g where v: "next (readGen zipf) = (v, g)" by (cases "next (readGen zipf)")
  let ?n = "zg_maxLbaCount zipf" and ?z = "zipf\<lparr>readGen := g\<rparr>"
  define y where "y = (if rd then (v + ucast (readLbaOffset zipf)) mod ?n
    else zipf_swap zipf ((v + ucast (writeLbaOffset zipf)) mod ?n))"
  let ?x = "(y + transferOffsetBase zipf) mod ?n"
  have "(if rd then ZipfGenerateReadIO next zipf else ZipfGenerateWriteIO next zipf) = Inr (y, ?z)"
    using v assms by (simp add: ZipfGenerateReadIO_def ZipfGenerateWriteIO_def zipf_mod_def y_def)
  then have "ZipfGenerateReadWriteIO next r ts zipf =
      Inr (\<lparr>io_lba = push_bit PAGE_8K_SHIFT ?x, io_length = 8192, io_op = Some (if rd then READ else WRITE), io_timestamp = ts\<rparr>, ?z)"
    using assms by (simp add: ZipfGenerateReadWriteIO_def zipf_mod_def flip: rd_def)
  moreover have "?x < ?n" using assms by (simp add: word_mod_less_divisor word_gt_0)
  ultimately show ?thesis using v by (intro exI conjI) (assumption | simp)+
qed

lemma zipf_workload_requests:
  assumes "zg_maxLbaCount zipf \<noteq> 0"
  shows "\<exists>ios zipf'. zipf_workload next ds zipf = Inr (ios, zipf') \<and> length ios = length ds \<and> writeGen zipf' = writeGen zipf \<and>
    (\<forall>io\<in>set ios. io_length io = 8192 \<and> (\<exists>x < zg_maxLbaCount zipf. io_lba io = push_bit PAGE_8K_SHIFT x))"
  using assms
proof (induction ds arbitrary: zipf)
  case (Cons d ds)
  obtain r ts where d: "d = (r, ts)" by (cases d)
  obtain io x where 1: "ZipfGenerateReadWriteIO next r ts zipf = Inr (io, zipf\<lparr>readGen := snd (next (readGen zipf))\<rparr>)"
      "x < zg_maxLbaCount zipf" "io_lba io = push_bit PAGE_8K_SHIFT x" "io_length io = 8192"
    using zipf_request [OF Cons.prems, of "next" r ts] by blast
  obtain ios zipf' where "zipf_workload next ds (zipf\<lparr>readGen := snd (next (readGen zipf))\<rparr>) = Inr (ios, zipf')"
      "length ios = length ds" "writeGen zipf' = writeGen zipf"
      "\<forall>io\<in>set ios. io_length io = 8192 \<and> (\<exists>x < zg_maxLbaCount zipf. io_lba io = push_bit PAGE_8K_SHIFT x)"
    using Cons.IH [of "zipf\<lparr>readGen := snd (next (readGen zipf))\<rparr>"] Cons.prems by auto
  then show ?case using 1 by (auto simp: d)
qed simp

lemma zipf_swap_half:
  assumes "swapStart z \<le> swapMid z" and "swapMid z \<le> swapEnd z"
    and "swapMid z - swapStart z = swapEnd z - swapMid z"
  shows "zipf_swap z (zipf_swap z x) = x" and "swapEnd z \<le> n \<Longrightarrow> x < n \<Longrightarrow> zipf_swap z x < n"
proof -
  define d where "d = swapMid z - swapStart z"
  have d: "unat d = unat (swapMid z) - unat (swapStart z)" "unat d = unat (swapEnd z) - unat (swapMid z)"
    using assms by (simp_all add: d_def unat_sub, metis assms(2) unat_sub)
  have le: "unat (swapStart z) \<le> unat (swapMid z)" "unat (swapMid z) \<le> unat (swapEnd z)"
    using assms(1,2) by (simp_all add: word_le_nat_alt)
  have sw: "zipf_swap z y = (if swapStart z \<le> y \<and> y < swapMid z then y + d
      else if swapMid z \<le> y \<and> y < swapEnd z then y - d else y)" for y
    by (simp only: zipf_swap_def assms(3) [symmetric] d_def)
  have up: "unat (y + d) = unat y + unat d" if "y < swapMid z" for y
  proof -
    have "unat y + unat d < 2 ^ 64"
      using that d(2) le(2) unsigned_less [of "swapEnd z", where ?'a = nat] by (simp add: word_less_nat_alt)
    then show ?thesis by (simp add: unat_word_ariths)
  qed
  have down: "unat (y - d) = unat y - unat d" if "swapMid z \<le> y" for y
    using that d(1) by (intro unat_sub) (simp add: word_le_nat_alt)
  show "zipf_swap z (zipf_swap z x) = x"
  proof -
    consider "swapStart z \<le> x \<and> x < swapMid z" | "swapMid z \<le> x \<and> x < swapEnd z"
      | "\<not> (swapStart z \<le> x \<and> x < swapMid z)" "\<not> (swapMid z \<le> x \<and> x < swapEnd z)" by blast
    then show ?thesis
    proof cases
      case 1
      then have "swapMid z \<le> x + d \<and> x + d < swapEnd z"
        using up [OF conjunct2 [OF 1]] 1 d le unfolding word_le_nat_alt word_less_nat_alt by linarith
      moreover from this have "\<not> x + d < swapMid z" by (simp add: not_less)
      ultimately show ?thesis using 1 by (simp add: sw)
    next
      case 2
      then have "\<not> x < swapMid z" by (simp add: not_less)
      moreover have "swapStart z \<le> x - d \<and> x - d < swapMid z"
        using 2 down [OF conjunct1 [OF 2]] d le unfolding word_le_nat_alt word_less_nat_alt by linarith
      ultimately show ?thesis using 2 by (simp add: sw)
    next
      case 3
      then have "zipf_swap z x = x" unfolding sw by argo
      then show ?thesis by simp
    qed
  qed
  show "zipf_swap z x < n" if "swapEnd z \<le> n" "x < n"
    using that up [of x] down [of x] d le by (auto simp: sw word_le_nat_alt word_less_nat_alt)
qed

end
