(* ===== verification/Instance.thy ===== *)
theory Instance
  imports Storage_Runs Workload "HOL-Library.Signed_Division"
begin

text \<open>
  The running program: src/src/proc/instance.c. It configures the two tiers from global flags,
  and serves the requests of a queue one after the other, with a report every \<open>IO_TIMES\<close> requests.

  The flags are C integers, here of type \<open>int\<close> (no product of sensible flags overflows). Their
  expressions in \<open>double\<close> are quotients of small integers, rounded down by the conversion to
  \<open>uint32_t\<close> or up by \<open>ceil\<close>: both are exact, and written as integer divisions. \<open>fmax\<close> is \<open>max\<close>.
\<close>

abbreviation IO_TIMES :: u32 where "IO_TIMES \<equiv> 100000"

record Flags =
  FLAGS_t0BlockCount :: int
  FLAGS_t1BlockCount :: int
  FLAGS_enableByPass :: bool
  FLAGS_enableFlush :: bool
  FLAGS_gcWaterLevel :: int
  FLAGS_tierdownWaterLevel :: int
  FLGAS_tierdownLimitOffset :: int
  FLAGS_gcBlockRatio :: int
  FLAGS_tierdownBlockRatio :: int
  FLAGS_requestQSize :: int
  FLAGS_hostConcurrency :: int
  FLAGS_backConcurrency :: int

text \<open>The initial values of the globals.\<close>

definition default_flags :: Flags where
  "default_flags = \<lparr>FLAGS_t0BlockCount = 100, FLAGS_t1BlockCount = 1000, FLAGS_enableByPass = False,
     FLAGS_enableFlush = False, FLAGS_gcWaterLevel = 10, FLAGS_tierdownWaterLevel = 0,
     FLGAS_tierdownLimitOffset = 5, FLAGS_gcBlockRatio = 1, FLAGS_tierdownBlockRatio = 1,
     FLAGS_requestQSize = 32, FLAGS_hostConcurrency = 1, FLAGS_backConcurrency = 1\<rparr>"

text \<open>\<open>ceil(a / b)\<close> on reals.\<close>

definition ceil_div :: "int \<Rightarrow> int \<Rightarrow> int" where
  "ceil_div a b = - ((- a) div b)"

definition reservedSpaceRatio :: "Flags \<Rightarrow> int" where
  "reservedSpaceRatio fl = ceil_div (FLGAS_tierdownLimitOffset fl * FLAGS_t0BlockCount fl) (FLAGS_t1BlockCount fl)"

definition gc_conf :: "int \<Rightarrow> GCModuleConfigure" where
  "gc_conf n = \<lparr>totalBlockCnt = of_int n, indexBucketCnt = of_int (n * 10)\<rparr>"

text \<open>\<open>PAGE_NUM_PER_BLOCK\<close> is an unsigned 64-bit constant: these products and quotients are too.\<close>

definition layer0Conf :: "Flags \<Rightarrow> LayerModuleConfigure" where
  "layer0Conf fl =
     (let t0 = FLAGS_t0BlockCount fl; wl = FLAGS_tierdownWaterLevel fl in
      \<lparr>lm_layerIdx = 0, lm_gcConf = gc_conf t0,
       lm_gcWL = of_int (t0 * FLAGS_gcWaterLevel fl sdiv 100),
       lm_gcBlockCnt = of_int (max 1 (t0 * FLAGS_gcBlockRatio fl sdiv 100)),
       lm_gcStallWL = of_int (t0 * (FLAGS_gcWaterLevel fl sdiv 2) sdiv 100),
       lm_tierConf = \<lparr>indexBucketNum = of_int (t0 * 10)\<rparr>,
       lm_tierDownWL = ucast ((of_int t0 * 512 * of_int wl :: u64) div 100),
       lm_tierDownBlockCnt = of_int (max 1 (t0 * FLAGS_tierdownBlockRatio fl sdiv 100)),
       lm_tierDownStallWL = ucast ((of_int t0 * 512 * of_int (wl + FLGAS_tierdownLimitOffset fl) :: u64) div 100),
       lm_needDiskOperation = FLAGS_enableFlush fl, lm_requestQueueSize = of_int (FLAGS_requestQSize fl),
       lm_hostConcurrency = of_int (FLAGS_hostConcurrency fl), lm_backConcurrency = of_int (FLAGS_backConcurrency fl)\<rparr>)"

definition layer1Conf :: "Flags \<Rightarrow> LayerModuleConfigure" where
  "layer1Conf fl =
     (let t1 = FLAGS_t1BlockCount fl; reserved = reservedSpaceRatio fl in
      \<lparr>lm_layerIdx = 1, lm_gcConf = gc_conf t1,
       lm_gcWL = of_int (t1 * (FLAGS_gcWaterLevel fl + reserved) sdiv 100),
       lm_gcBlockCnt = of_int (max 1 (t1 * FLAGS_gcBlockRatio fl sdiv 100)),
       lm_gcStallWL = of_int (t1 * (FLAGS_gcWaterLevel fl sdiv 2 + reserved) sdiv 100),
       lm_tierConf = \<lparr>indexBucketNum = of_int (t1 * 10)\<rparr>,
       lm_tierDownWL = ucast (of_int t1 * 512 :: u64), lm_tierDownBlockCnt = 0,
       lm_tierDownStallWL = ucast (of_int t1 * 512 :: u64),
       lm_needDiskOperation = FLAGS_enableFlush fl, lm_requestQueueSize = of_int (FLAGS_requestQSize fl),
       lm_hostConcurrency = of_int (FLAGS_hostConcurrency fl), lm_backConcurrency = of_int (FLAGS_backConcurrency fl)\<rparr>)"

definition instance_conf :: "Flags \<Rightarrow> StorageSystemConfigure" where
  "instance_conf fl = \<lparr>layerConf = [layer0Conf fl, layer1Conf fl],
     schedulerConf = \<lparr>idealEnable = False, idealBypass = None, normalEnable = FLAGS_enableByPass fl\<rparr>\<rparr>"

definition CreateStorageSystemInstance ::
    "u32 \<Rightarrow> u32 \<Rightarrow> u32 \<Rightarrow> u64 \<Rightarrow> (u64 \<times> round list) list \<Rightarrow> Flags \<Rightarrow> fault + StorageSystem" where
  "CreateStorageSystemInstance junk1 junk2 behind t fut fl =
     CreateStorageSystem junk1 junk2 behind t fut (instance_conf fl)"

subsection \<open>Serving requests\<close>

record Instance =
  FLAGS_storSys :: StorageSystem
  FLAGS_queue :: "IO BlockingQueue"
  io_count :: u32
  FLAGS_sysShutdown :: bool

definition zero_IO :: IO where
  "zero_IO = \<lparr>io_lba = 0, io_length = 0, io_op = None, io_timestamp = 0\<rparr>"

definition Initialize :: "u32 \<Rightarrow> IO BlockingQueue" where
  "Initialize workloadQSize = CreateBlockingQueue zero_IO workloadQSize"

text \<open>What a request does to the store.\<close>

definition serve_io :: "IO \<Rightarrow> StorageSystem \<Rightarrow> fault + StorageSystem" where
  "serve_io io st =
     (case io_op io of
        Some READ \<Rightarrow> bindE (Storage_ReadHostIO io st) (\<lambda>(_, st1). Inr st1)
      | Some WRITE \<Rightarrow> bindE (Storage_WriteHostIO io st) (\<lambda>(_, st1). Inr st1)
      | None \<Rightarrow> Inr st)"

text \<open>The part of a round after the pop: the request, and the report when it is due. \<open>n\<close> is \<open>count\<close>.\<close>

definition serve_round :: "IO \<Rightarrow> StorageSystem \<times> u32 \<Rightarrow> fault + StorageSystem \<times> u32" where
  "serve_round io acc =
     (let (st, n) = acc in
      bindE (serve_io io st) (\<lambda>st1.
      let n1 = n + 1 in
      if n1 div IO_TIMES \<noteq> 0 then bindE (Storage_Report st1) (\<lambda>st2. Inr (st2, 0)) else Inr (st1, n1)))"

text \<open>The same for a write while which the tier-down thread clears its globals.\<close>

definition serve_raced :: "interference \<Rightarrow> IO \<Rightarrow> StorageSystem \<times> u32 \<Rightarrow> fault + StorageSystem \<times> u32" where
  "serve_raced hit io acc =
     (let (st, n) = acc in
      bindE (Storage_WriteHostIO_raced hit io st) (\<lambda>(_, st1).
      let n1 = n + 1 in
      if n1 div IO_TIMES \<noteq> 0 then bindE (Storage_Report st1) (\<lambda>st2. Inr (st2, 0)) else Inr (st1, n1)))"

text \<open>
  A round of the loop of \<open>StorageSystemInstance\<close> once \<open>pop\<close> goes on; a pop that gets nothing leaves
  the request of all zero bytes.
\<close>

definition instance_round :: "Instance \<Rightarrow> fault + Instance" where
  "instance_round i =
     (if FLAGS_sysShutdown i then Inr i else
      bindE (bq_Take (FLAGS_queue i)) (\<lambda>(r, q).
      let io = (case r of None \<Rightarrow> zero_IO | Some io \<Rightarrow> io) in
      bindE (serve_round io (FLAGS_storSys i, io_count i)) (\<lambda>(st, n).
      Inr (i\<lparr>FLAGS_storSys := st, FLAGS_queue := q, io_count := n\<rparr>))))"

text \<open>The first part of \<open>WaitForStorageSystemInstance\<close>: the wait for an empty queue is over, the loop is to end.\<close>

definition shut_down :: "Instance \<Rightarrow> Instance" where
  "shut_down i = i\<lparr>FLAGS_sysShutdown := True, FLAGS_queue := bq_Shutdown (FLAGS_queue i)\<rparr>"

subsection \<open>Facts\<close>

text \<open>A report is due exactly when the counter reaches \<open>IO_TIMES\<close>; it then starts again.\<close>

lemma count_div:
  assumes "n < IO_TIMES"
  shows "(n + 1) div IO_TIMES \<noteq> 0 \<longleftrightarrow> n + 1 = IO_TIMES"
proof -
  have "unat n < 100000" using assms by (simp add: word_less_nat_alt)
  then have u: "unat (n + 1) = Suc (unat n)" by (intro unat_inc32) simp
  have "(n + 1) div IO_TIMES \<noteq> 0 \<longleftrightarrow> 100000 \<le> unat (n + 1)"
    by (simp add: word_unat_eq_iff unat_div div_eq_0_iff not_less)
  then show ?thesis using u \<open>unat n < 100000\<close> by (auto simp: word_unat_eq_iff)
qed

lemma instance_counts:
  assumes "instance_round i = Inr i'" and "\<not> FLAGS_sysShutdown i" and "io_count i < IO_TIMES"
  shows "io_count i' = (if io_count i + 1 = IO_TIMES then 0 else io_count i + 1)" and "io_count i' < IO_TIMES"
proof -
  show c: "io_count i' = (if io_count i + 1 = IO_TIMES then 0 else io_count i + 1)"
    using assms(1,2) count_div [OF assms(3)]
    by (auto simp: instance_round_def serve_round_def fault_iff Let_def split: if_split_asm dest: arg_cong [where f = io_count])
  have "unat (io_count i) < 100000" using assms(3) by (simp add: word_less_nat_alt)
  moreover from this have "unat (io_count i + 1) = Suc (unat (io_count i))" by (intro unat_inc32) simp
  ultimately show "io_count i' < IO_TIMES" using c by (auto simp: word_less_nat_alt word_unat_eq_iff)
qed

subsection \<open>Configurations that work\<close>

lemma unat_of_int32: "0 \<le> x \<Longrightarrow> x < 4294967296 \<Longrightarrow> unat (of_int x :: u32) = nat x"
  by (simp add: unat_eq_nat_uint unsigned_of_int take_bit_int_eq_self)

lemma unat_of_int64: "0 \<le> x \<Longrightarrow> x < 18446744073709551616 \<Longrightarrow> unat (of_int x :: u64) = nat x"
  by (simp add: unat_eq_nat_uint unsigned_of_int take_bit_int_eq_self)

lemma sdiv_nonneg: "0 \<le> a \<Longrightarrow> 0 < b \<Longrightarrow> a sdiv b = a div b" for a b :: int
  by (cases "a = 0") (simp_all add: signed_divide_int_def)

text \<open>
  Enough blocks in both tiers, water levels in percent that leave three percent of a tier
  between them, and a tier-down that does not ask for more than the water level.
\<close>

definition sane :: "Flags \<Rightarrow> bool" where
  "sane fl \<longleftrightarrow> 100 \<le> FLAGS_t0BlockCount fl \<and> FLAGS_t0BlockCount fl \<le> 4000000 \<and>
     100 \<le> FLAGS_t1BlockCount fl \<and> FLAGS_t1BlockCount fl \<le> 4000000 \<and>
     0 \<le> FLAGS_gcWaterLevel fl \<and> 0 \<le> FLAGS_gcBlockRatio fl \<and> 0 \<le> reservedSpaceRatio fl \<and>
     FLAGS_gcWaterLevel fl + reservedSpaceRatio fl + FLAGS_gcBlockRatio fl \<le> 97 \<and>
     1 \<le> FLAGS_tierdownWaterLevel fl \<and> FLAGS_tierdownWaterLevel fl \<le> 100 \<and>
     0 \<le> FLAGS_tierdownBlockRatio fl \<and> FLAGS_tierdownBlockRatio fl \<le> FLAGS_tierdownWaterLevel fl \<and>
     (FLAGS_enableFlush fl \<longrightarrow> 1 \<le> FLAGS_requestQSize fl \<and> FLAGS_requestQSize fl < 4294967296) \<and>
     (FLAGS_enableByPass fl \<longrightarrow> FLAGS_enableFlush fl)"

lemma percent:
  assumes "0 \<le> (n :: int)" and "n \<le> 4000000" and "0 \<le> p" and "p \<le> 100"
  shows "unat (of_int (n * p sdiv 100) :: u32) = nat (n * p div 100)" and "0 \<le> n * p div 100" and "n * p div 100 \<le> n"
proof -
  have b: "0 \<le> n * p" "n * p \<le> n * 100"
    by (rule mult_nonneg_nonneg [OF assms(1,3)], rule mult_left_mono [OF assms(4,1)])
  then show l: "0 \<le> n * p div 100" "n * p div 100 \<le> n" by linarith+
  then have "n * p div 100 < 4294967296" using assms(2) by linarith
  then show "unat (of_int (n * p sdiv 100) :: u32) = nat (n * p div 100)"
    using b(1) l(1) by (simp only: sdiv_nonneg unat_of_int32)
qed

lemma percent_max:
  assumes "0 \<le> (n :: int)" and "n \<le> 4000000" and "0 \<le> p" and "p \<le> 100"
  shows "unat (of_int (max 1 (n * p sdiv 100)) :: u32) = nat (max 1 (n * p div 100))"
proof -
  note q = percent [OF assms]
  have b: "0 \<le> n * p" using assms by simp
  have "0 \<le> max 1 (n * p div 100)" "max 1 (n * p div 100) < 4294967296" using q assms(2) by auto
  then show ?thesis using b by (simp only: sdiv_nonneg unat_of_int32)
qed

lemma level_pages:
  assumes "0 \<le> (n :: int)" and "n \<le> 4000000" and "0 \<le> p" and "p \<le> 100"
  shows "unat (ucast ((of_int n * 512 * of_int p :: u64) div 100) :: u32) = nat (n * 512 * p div 100)"
proof -
  have b: "0 \<le> n * 512 * p" "n * 512 * p \<le> n * 512 * 100"
    using assms(1,3) by simp (rule mult_left_mono [OF assms(4)], use assms(1) in simp)
  then have l: "n * 512 * p < 18446744073709551616" using assms(2) by linarith
  have "(of_int n * 512 * of_int p :: u64) = of_int (n * 512 * p)" by simp
  then have "unat ((of_int n * 512 * of_int p :: u64) div 100) = nat (n * 512 * p) div 100"
    using unat_of_int64 [OF b(1) l] by (simp add: unat_div)
  moreover have "nat (n * 512 * p) div 100 = nat (n * 512 * p div 100)" using b(1) by (simp add: nat_div_distrib)
  moreover have "nat (n * 512 * p div 100) < 4294967296" using b assms(2) by linarith
  ultimately show ?thesis by (simp add: unsigned_ucast_eq take_bit_nat_eq_self)
qed

lemma fresh_writable:
  assumes "fresh_tier c (tier_at s l)" and "unat (totalBlockCnt (lm_gcConf c)) = nat n" and "100 \<le> n" and "n \<le> 4000000"
    and "unat (lm_gcWL c) = nat (n * g div 100)" and "unat (lm_gcBlockCnt c) = nat (max 1 (n * r div 100))"
    and "0 \<le> g" and "0 \<le> r" and "g + r \<le> 97"
    and "unat (lm_tierDownBlockCnt c) * PAGE_NUM_PER_BLOCK \<le> unat (lm_tierDownWL c)" and "calm l s"
  shows "writable l s"
proof -
  have q: "0 \<le> n * g div 100" "n * g div 100 + n * r div 100 + 2 \<le> n"
  proof -
    have "0 \<le> n * g" using assms(3,7) by simp
    then show "0 \<le> n * g div 100" by linarith
    have "n * g + n * r \<le> n * 97" using assms(3,9) by (metis distrib_left mult_left_mono order_trans zero_le_numeral)
    then show "n * g div 100 + n * r div 100 + 2 \<le> n" using assms(3) by linarith
  qed
  moreover have "0 \<le> n * r div 100" using assms(3,8) by (simp add: pos_imp_zdiv_nonneg_iff)
  moreover have "nat a + nat (max 1 b) + 1 \<le> nat n \<and> nat a < nat n \<and> 2 \<le> nat n"
    if "0 \<le> a" "0 \<le> b" "a + b + 2 \<le> n" for a b
    using that assms(3) by auto
  ultimately have "nat (n * g div 100) + nat (max 1 (n * r div 100)) + 1 \<le> nat n" "nat (n * g div 100) < nat n" "2 \<le> nat n"
    by blast+
  moreover have "nat n * PAGE_NUM_PER_BLOCK < 4294967296" using assms(4) by simp
  ultimately show ?thesis
    using assms(1,2,5,6,10,11) by (simp add: writable_def spacious_above sized_def fresh_tier_def)
qed

lemma sane_creatable:
  assumes "sane fl"
  shows "creatable (layer0Conf fl)" and "creatable (layer1Conf fl)"
proof -
  have i: "(of_int (n * 10) :: u32) * 100 \<noteq> 0" if "100 \<le> n" "n \<le> 4000000" for n
  proof -
    have "unat (of_int (n * 1000) :: u32) = nat (n * 1000)" using that by (intro unat_of_int32) simp_all
    moreover have "(of_int (n * 10) :: u32) * 100 = of_int (n * 1000)" by simp
    ultimately show ?thesis using that by (metis nat_0_iff not_le mult_pos_pos unat_0 zero_less_numeral order_less_le_trans)
  qed
  have q: "(of_int (FLAGS_requestQSize fl) :: u32) \<noteq> 0" if "FLAGS_enableFlush fl"
  proof -
    have "1 \<le> FLAGS_requestQSize fl" "FLAGS_requestQSize fl < 4294967296" using assms that by (simp_all add: sane_def)
    then have "unat (of_int (FLAGS_requestQSize fl) :: u32) \<noteq> 0" using unat_of_int32 [of "FLAGS_requestQSize fl"] by simp
    then show ?thesis by (metis unat_0)
  qed
  show "creatable (layer0Conf fl)" "creatable (layer1Conf fl)"
    using assms i q by (simp_all add: creatable_def layer0Conf_def layer1Conf_def gc_conf_def Let_def sane_def)
qed

text \<open>A sane instance is created, empty, and writable for writes to both tiers.\<close>

lemma sane_instance:
  assumes "sane fl"
  shows "\<exists>st. CreateStorageSystemInstance j1 j2 behind t fut fl = Inr st \<and> storage_ok st \<and>
    holds 0 st = {} \<and> holds 1 st = {} \<and> writable 0 (sys st) \<and> writable 1 (sys st) \<and>
    ioScheduler st = CreateIOScheduler j1 j2 (schedulerConf (instance_conf fl)) \<and> g_tierDownPages st = None \<and>
    (diskOp (tier_at (sys st) 0) = None \<longleftrightarrow> \<not> FLAGS_enableFlush fl) \<and>
    (diskOp (tier_at (sys st) 1) = None \<longleftrightarrow> \<not> FLAGS_enableFlush fl) \<and>
    unat (tierDownWL (tier_at (sys st) 0)) = nat (FLAGS_t0BlockCount fl * 512 * FLAGS_tierdownWaterLevel fl div 100)"
proof -
  let ?n0 = "FLAGS_t0BlockCount fl" and ?n1 = "FLAGS_t1BlockCount fl"
  have conf: "layerConf (instance_conf fl) = [layer0Conf fl, layer1Conf fl]" by (simp add: instance_conf_def)
  have "\<not> idealEnable (schedulerConf (instance_conf fl))"
      "normalEnable (schedulerConf (instance_conf fl)) \<longrightarrow> lm_needDiskOperation (layer1Conf fl)"
    using assms by (simp_all add: instance_conf_def layer1Conf_def sane_def Let_def)
  then obtain st where st: "CreateStorageSystem j1 j2 behind t fut (instance_conf fl) = Inr st" "storage_ok st"
      "fresh_tier (layer0Conf fl) (tier_at (sys st) 0)" "fresh_tier (layer1Conf fl) (tier_at (sys st) 1)"
      "ioScheduler st = CreateIOScheduler j1 j2 (schedulerConf (instance_conf fl))" "g_tierDownPages st = None"
    using CreateStorageSystem_spec [OF conf sane_creatable [OF assms], of j1 j2 behind t fut] by blast
  have r: "100 \<le> ?n0" "?n0 \<le> 4000000" "100 \<le> ?n1" "?n1 \<le> 4000000" using assms by (simp_all add: sane_def)
  have nn: "unat (of_int n :: u32) = nat n" if "100 \<le> n" "n \<le> 4000000" for n using that by (intro unat_of_int32) simp_all
  have wl0: "unat (lm_tierDownWL (layer0Conf fl)) = nat (?n0 * 512 * FLAGS_tierdownWaterLevel fl div 100)"
    using level_pages [of ?n0 "FLAGS_tierdownWaterLevel fl"] r assms by (simp add: layer0Conf_def Let_def sane_def)
  have "(of_int ?n1 * 512 :: u64) = of_int (?n1 * 512)" by simp
  then have "unat (of_int ?n1 * 512 :: u64) = nat (?n1 * 512)" using r unat_of_int64 [of "?n1 * 512"] by simp
  then have wl1: "unat (lm_tierDownWL (layer1Conf fl)) = nat (?n1 * 512)" "unat (lm_tierDownStallWL (layer1Conf fl)) = nat (?n1 * 512)"
    using r by (simp_all add: layer1Conf_def Let_def unsigned_ucast_eq take_bit_nat_eq_self)
  have occ: "GetLogicalSizeOccupied (gcModule (tier_at (sys st) 0)) = 0"
    using GetLogicalSizeOccupied_eq(1) [of "gcModule (tier_at (sys st) 0)"] st(3)
    by (simp add: fresh_tier_def layer_ok_def stored_def)
  have calm1: "calm 1 (sys st)"
    using st(4) wl1 r occ by (simp add: calm_def fresh_tier_def word_less_nat_alt)
  have td0: "unat (lm_tierDownBlockCnt (layer0Conf fl)) * PAGE_NUM_PER_BLOCK \<le> unat (lm_tierDownWL (layer0Conf fl))"
  proof -
    let ?w = "FLAGS_tierdownWaterLevel fl" and ?b = "FLAGS_tierdownBlockRatio fl"
    have w: "1 \<le> ?w" "?w \<le> 100" "0 \<le> ?b" "?b \<le> ?w" using assms by (simp_all add: sane_def)
    have b: "unat (lm_tierDownBlockCnt (layer0Conf fl)) = nat (max 1 (?n0 * ?b div 100))"
      using percent_max [of ?n0 ?b] r w by (simp add: layer0Conf_def Let_def)
    define W where "W = ?n0 * ?w"
    have "?n0 * ?b \<le> W" "100 \<le> W"
      using r w mult_mono [of 100 ?n0 1 ?w] mult_left_mono [of ?b ?w ?n0] by (simp_all add: W_def)
    then have "max 1 (?n0 * ?b div 100) \<le> W div 100"
      using zdiv_mono1 [of "?n0 * ?b" W 100] zdiv_mono1 [of 100 W 100] by simp
    moreover have "(W div 100) * 512 \<le> 512 * W div 100" by linarith
    ultimately have "max 1 (?n0 * ?b div 100) * 512 \<le> 512 * W div 100" by linarith
    moreover have "?n0 * 512 * ?w = 512 * W" by (simp add: W_def)
    ultimately have m: "max 1 (?n0 * ?b div 100) * 512 \<le> ?n0 * 512 * ?w div 100" by simp
    have "nat (max 1 (?n0 * ?b div 100)) * 512 = nat (max 1 (?n0 * ?b div 100) * 512)" by (simp add: nat_mult_distrib)
    also have "\<dots> \<le> nat (?n0 * 512 * ?w div 100)" using m by (rule nat_mono)
    finally show ?thesis unfolding wl0 b by simp
  qed
  have g: "0 \<le> FLAGS_gcWaterLevel fl" "0 \<le> FLAGS_gcBlockRatio fl" "0 \<le> reservedSpaceRatio fl"
      "FLAGS_gcWaterLevel fl + reservedSpaceRatio fl + FLAGS_gcBlockRatio fl \<le> 97"
    using assms by (simp_all add: sane_def)
  have e0: "totalBlockCnt (lm_gcConf (layer0Conf fl)) = of_int ?n0"
      "lm_gcWL (layer0Conf fl) = of_int (?n0 * FLAGS_gcWaterLevel fl sdiv 100)"
      "lm_gcBlockCnt (layer0Conf fl) = of_int (max 1 (?n0 * FLAGS_gcBlockRatio fl sdiv 100))"
    by (simp_all add: layer0Conf_def gc_conf_def Let_def)
  have e1: "totalBlockCnt (lm_gcConf (layer1Conf fl)) = of_int ?n1"
      "lm_gcWL (layer1Conf fl) = of_int (?n1 * (FLAGS_gcWaterLevel fl + reservedSpaceRatio fl) sdiv 100)"
      "lm_gcBlockCnt (layer1Conf fl) = of_int (max 1 (?n1 * FLAGS_gcBlockRatio fl sdiv 100))"
      "lm_tierDownBlockCnt (layer1Conf fl) = 0"
    by (simp_all add: layer1Conf_def gc_conf_def Let_def)
  have h: "0 \<le> ?n0" "0 \<le> ?n1" "FLAGS_gcWaterLevel fl \<le> 100" "FLAGS_gcBlockRatio fl \<le> 100"
      "0 \<le> FLAGS_gcWaterLevel fl + reservedSpaceRatio fl" "FLAGS_gcWaterLevel fl + reservedSpaceRatio fl \<le> 100"
      "FLAGS_gcWaterLevel fl + FLAGS_gcBlockRatio fl \<le> 97"
    using r g by linarith+
  have "writable 0 (sys st)"
    by (rule fresh_writable [OF st(3) _ r(1,2) _ _ g(1,2) h(7) td0 calm_0], unfold e0)
      (rule nn [OF r(1,2)] percent(1) [OF h(1) r(2) g(1) h(3)] percent_max [OF h(1) r(2) g(2) h(4)])+
  moreover have "writable 1 (sys st)"
    by (rule fresh_writable [OF st(4) _ r(3,4) _ _ h(5) g(2) g(4) _ calm1], unfold e1(1-3))
      (rule nn [OF r(3,4)] percent(1) [OF h(2) r(4) h(5,6)] percent_max [OF h(2) r(4) g(2) h(4)] | simp add: e1)+
  moreover have "diskOp (tier_at (sys st) 0) = None \<longleftrightarrow> \<not> FLAGS_enableFlush fl"
      "diskOp (tier_at (sys st) 1) = None \<longleftrightarrow> \<not> FLAGS_enableFlush fl"
    using st(3,4) by (simp_all add: fresh_tier_def layer0Conf_def layer1Conf_def Let_def)
  ultimately show ?thesis
    using st wl0 unfolding CreateStorageSystemInstance_def by (intro exI [of _ st]) (simp add: fresh_tier_def)
qed

end
