(* ===== verification/Storage_Properties.thy ===== *)
theory Storage_Properties
  imports Instance
begin

text \<open>
  What the store and the instance around it promise. The witnesses use two small configurations:
  \<open>small_flags\<close>, an instance with a sensible water level, and \<open>eager_conf\<close>, a store whose tier 0
  gives up every page at once.
\<close>

definition small_flags :: Flags where
  "small_flags = default_flags\<lparr>FLAGS_t1BlockCount := 100, FLAGS_tierdownWaterLevel := 80\<rparr>"

lemma small_flags_sane: "sane small_flags"
  by (simp add: sane_def small_flags_def default_flags_def reservedSpaceRatio_def ceil_div_def)

lemma small_off: "targets (CreateIOScheduler j1 j2 (schedulerConf (instance_conf small_flags))) = {0}"
  by (simp add: targets_def CreateIOScheduler_def instance_conf_def small_flags_def default_flags_def)

definition eager_layer :: LayerModuleConfigure where
  "eager_layer = \<lparr>lm_layerIdx = 0, lm_gcConf = \<lparr>totalBlockCnt = 4, indexBucketCnt = 1\<rparr>, lm_gcWL = 1, lm_gcBlockCnt = 1,
     lm_gcStallWL = 0, lm_tierConf = \<lparr>indexBucketNum = 1\<rparr>, lm_tierDownWL = 0, lm_tierDownBlockCnt = 0,
     lm_tierDownStallWL = 0, lm_needDiskOperation = False, lm_requestQueueSize = 1, lm_hostConcurrency = 1,
     lm_backConcurrency = 1\<rparr>"

definition eager_conf :: StorageSystemConfigure where
  "eager_conf = \<lparr>layerConf = [eager_layer, eager_layer],
     schedulerConf = \<lparr>idealEnable = False, idealBypass = None, normalEnable = False\<rparr>\<rparr>"

definition a_write :: IO where
  "a_write = \<lparr>io_lba = 0, io_length = 8192, io_op = Some WRITE, io_timestamp = 0\<rparr>"

lemma small_instance:
  "\<exists>st. CreateStorageSystemInstance 0 0 0 0 [] small_flags = Inr st \<and> storage_ok st \<and> holds 0 st = {} \<and>
     holds 1 st = {} \<and> writable 0 (sys st) \<and> targets (ioScheduler st) = {0} \<and> diskOp (tier_at (sys st) 0) = None \<and>
     diskOp (tier_at (sys st) 1) = None"
proof -
  from sane_instance [OF small_flags_sane, of 0 0 0 0 "[]"]
  obtain st where "CreateStorageSystemInstance 0 0 0 0 [] small_flags = Inr st" "storage_ok st" "holds 0 st = {}"
      "holds 1 st = {}" "writable 0 (sys st)"
      "ioScheduler st = CreateIOScheduler 0 0 (schedulerConf (instance_conf small_flags))"
      "diskOp (tier_at (sys st) 0) = None \<longleftrightarrow> \<not> FLAGS_enableFlush small_flags"
      "diskOp (tier_at (sys st) 1) = None \<longleftrightarrow> \<not> FLAGS_enableFlush small_flags"
    by (elim exE conjE) (rule that)
  then show ?thesis using small_off by (intro exI [of _ st]) (simp add: small_flags_def default_flags_def)
qed

lemma eager_store:
  "\<exists>st. CreateStorageSystem 0 0 0 0 [] eager_conf = Inr st \<and> storage_ok st \<and> holds 0 st = {} \<and> holds 1 st = {} \<and>
     writable 0 (sys st) \<and> targets (ioScheduler st) = {0} \<and> diskOp (tier_at (sys st) 0) = None \<and>
     tierDownWL (tier_at (sys st) 0) = 0 \<and> g_tierDownPages st = None"
proof -
  have c: "layerConf eager_conf = [eager_layer, eager_layer]" "creatable eager_layer"
    by (simp_all add: eager_conf_def creatable_def eager_layer_def)
  obtain st where st: "CreateStorageSystem 0 0 0 0 [] eager_conf = Inr st" "storage_ok st"
      "fresh_tier eager_layer (tier_at (sys st) 0)" "fresh_tier eager_layer (tier_at (sys st) 1)"
      "ioScheduler st = CreateIOScheduler 0 0 (schedulerConf eager_conf)" "g_tierDownPages st = None"
    using CreateStorageSystem_spec [OF c(1) c(2) c(2), of 0 0 0 0 "[]"] by (auto simp: eager_conf_def)
  have "writable 0 (sys st)" using st(3) by (simp add: writable_def spacious_above sized_def fresh_tier_def eager_layer_def)
  then show ?thesis
    using st by (intro exI [of _ st]) (simp add: fresh_tier_def eager_layer_def targets_def CreateIOScheduler_def eager_conf_def)
qed

text \<open>The first write to the eager store hands over the page just written.\<close>

lemma eager_write:
  "\<exists>st ok st1 p. CreateStorageSystem 0 0 0 0 [] eager_conf = Inr st \<and> storage_ok st \<and> writable 0 (sys st) \<and>
     targets (ioScheduler st) = {0} \<and> g_tierDownPages st = None \<and>
     Storage_WriteHostIO a_write st = Inr (ok, st1) \<and> g_tierDownPages st1 = Some [p] \<and> tp_lba p = 0"
proof -
  obtain st where st: "CreateStorageSystem 0 0 0 0 [] eager_conf = Inr st" "storage_ok st" "holds 0 st = {}"
     "writable 0 (sys st)" "targets (ioScheduler st) = {0}" "diskOp (tier_at (sys st) 0) = None"
     "tierDownWL (tier_at (sys st) 0) = 0" "g_tierDownPages st = None"
    using eager_store by blast
  obtain ok st1 where w: "Storage_WriteHostIO a_write st = Inr (ok, st1)" "placed 0 0 st st1"
    using Storage_WriteHostIO_alone [OF st(2,4,6,5), of a_write] by (auto simp: a_write_def page_align_def)
  have d: "card (holds 0 st1) = 0 \<and> (\<exists>ps. g_tierDownPages st1 = Some ps \<and> unat (g_tierDownPageCnt st1) = length ps \<and>
      distinct (map tp_lba ps) \<and> tp_lba ` set ps \<subseteq> {0} \<and> holds 0 st1 = {0} - tp_lba ` set ps)"
    using w(2) st(3,6,7) by (auto simp: placed_def below_level_def at_level_def)
  then obtain ps where ps: "g_tierDownPages st1 = Some ps" "distinct (map tp_lba ps)" "tp_lba ` set ps \<subseteq> {0}"
      "holds 0 st1 = {0} - tp_lba ` set ps" by blast
  have "tp_lba ` set ps = {0}" using d ps(3,4) by auto
  moreover from this ps(2) have "length ps = 1" by (metis card_1_singleton_iff distinct_card length_map set_map is_singletonI is_singleton_altdef One_nat_def)
  ultimately obtain p where "ps = [p]" "tp_lba p = 0" by (cases ps) auto
  then show ?thesis using st w(1) ps(1) by blast
qed

lemma thread_step_sys: "thread_step st = Inr st' \<Longrightarrow> sys st' = sys st \<and> ioScheduler st' = ioScheduler st"
  using thread_step_total [of st] by auto

subsection \<open>Where pages are\<close>

text \<open>C2: In every state that the calls and the tier-down thread can reach from a new store, both tiers are consistent and
  no page is in both of them, as long as every write finds room and the thread clears nothing while \<open>HandleTierDown\<close>
  uses it. (With such a write, \<open>host_write_raced\<close>, the tiers need not be consistent: \<open>tier_down_race\<close>.)\<close>

theorem no_page_in_two_tiers:
  assumes "CreateStorageSystem j1 j2 behind t fut conf = Inr st0" and "layerConf conf = [c0, c1]"
    and "creatable c0" and "creatable c1"
    and "idealEnable (schedulerConf conf) \<longrightarrow> idealBypass (schedulerConf conf) \<noteq> None"
    and "\<not> idealEnable (schedulerConf conf) \<and> normalEnable (schedulerConf conf) \<longrightarrow> lm_needDiskOperation c1"
    and "roomy_step\<^sup>*\<^sup>* st0 st"
  shows "holds 0 st \<inter> holds 1 st = {} \<and> layer_ok (tier_at (sys st) 0) \<and> layer_ok (tier_at (sys st) 1) \<and> disks_ok (sys st)"
proof -
  have "storage_ok st0" using CreateStorageSystem_spec [OF assms(2-6), of j1 j2 behind t fut] assms(1) by auto
  then have "storage_ok st" by (rule roomy_steps_ok [OF assms(7)])
  then show ?thesis by (simp add: storage_ok_def store_ok_def)
qed

theorem no_page_in_two_tiers_witness:
  "\<exists>st0 st p. CreateStorageSystem 0 0 0 0 [] eager_conf = Inr st0 \<and> roomy_step\<^sup>*\<^sup>* st0 st \<and> g_tierDownPages st = Some [p] \<and>
     holds 0 st \<inter> holds 1 st = {}"
proof -
  obtain st0 ok st p where w: "CreateStorageSystem 0 0 0 0 [] eager_conf = Inr st0" "writable 0 (sys st0)"
      "targets (ioScheduler st0) = {0}" "Storage_WriteHostIO a_write st0 = Inr (ok, st)" "g_tierDownPages st = Some [p]"
    using eager_write by blast
  have r: "roomy_step\<^sup>*\<^sup>* st0 st"
    using w(2,3) host_write [OF w(4) same_store_refl] by (intro r_into_rtranclp) (simp add: roomy_step_def)
  have "holds 0 st \<inter> holds 1 st = {}"
    using no_page_in_two_tiers [OF w(1) _ _ _ _ _ r, of eager_layer eager_layer]
    by (simp add: eager_conf_def creatable_def eager_layer_def)
  then show ?thesis using w(1,5) r by blast
qed



text \<open>C15: A host write to a tier 0 that has no disk and more free blocks than the water level of its collection
  (\<open>writable\<close>) returns, if nothing is cleared under \<open>HandleTierDown\<close>, and tier 0 then holds fewer pages than its
  water level, or exactly \<open>tierDownBlockCnt\<close> blocks less.\<close>

theorem host_write_returns:
  assumes "storage_ok st" and "writable 0 (sys st)" and "diskOp (tier_at (sys st) 0) = None"
    and "targets (ioScheduler st) = {0}"
  shows "\<exists>ok st'. Storage_WriteHostIO io st = Inr (ok, st') \<and>
    (card (holds 0 st') < unat (tierDownWL (tier_at (sys st) 0)) \<or>
     card (holds 0 st') + unat (tierDownBlockCnt (tier_at (sys st) 0)) * 512 = unat (tierDownWL (tier_at (sys st) 0)))"
proof -
  obtain ok st' where "Storage_WriteHostIO io st = Inr (ok, st')" "placed (page_align (io_lba io)) 0 st st'"
    using Storage_WriteHostIO_alone [OF assms] by blast
  then show ?thesis using assms(3) by (auto simp: placed_def below_level_def at_level_def)
qed

theorem host_write_returns_witness:
  "\<exists>st ok st'. CreateStorageSystemInstance 0 0 0 0 [] small_flags = Inr st \<and> Storage_WriteHostIO a_write st = Inr (ok, st')"
proof -
  obtain st where "CreateStorageSystemInstance 0 0 0 0 [] small_flags = Inr st" "storage_ok st" "writable 0 (sys st)"
      "targets (ioScheduler st) = {0}" "diskOp (tier_at (sys st) 0) = None"
    using small_instance by blast
  with host_write_returns [of st a_write] show ?thesis by blast
qed

text \<open>C24: The pages that a host write hands to the tier-down thread are lost: they are in no tier, the
  thread, however often it runs, moves none of them, and to read one dereferences a null pointer.\<close>

theorem tiered_down_pages_lost:
  assumes "storage_ok st" and "writable 0 (sys st)" and "targets (ioScheduler st) = {0}"
    and "Storage_WriteHostIO io st = Inr (ok, st1)"
    and "g_tierDownPages st1 = Some ps" and "g_tierDownPages st \<noteq> Some ps" and "p \<in> set ps"
    and "(\<lambda>a b. thread_step a = Inr b)\<^sup>*\<^sup>* st1 st2" and "page_align (io_lba rd) = tp_lba p"
  shows "tp_lba p \<notin> holds 0 st2 \<union> holds 1 st2 \<and> Storage_ReadHostIO rd st2 = Inl NullDeref"
proof -
  have w: "storage_ok st1" "placed (page_align (io_lba io)) 0 st st1"
    using Storage_WriteHostIO_spec [OF assms(1), of io] assms(2-4) by auto
  have sys: "sys st2 = sys st1 \<and> ioScheduler st2 = ioScheduler st1"
    using assms(8) by (induction rule: rtranclp_induct) (auto dest: thread_step_sys)
  have l: "tp_lba p \<notin> holds 0 st1 \<union> holds 1 st1" using placed_lost [OF w(2) assms(1,6,5)] assms(7) by blast
  have "storage_ok st2" using w(1) sys by (simp add: storage_ok_def)
  then show ?thesis using Storage_ReadHostIO_missing [of st2 rd] l sys assms(9) by simp
qed

theorem tiered_down_pages_lost_witness:
  "\<exists>st ok st1. CreateStorageSystem 0 0 0 0 [] eager_conf = Inr st \<and> Storage_WriteHostIO a_write st = Inr (ok, st1) \<and>
     Storage_ReadHostIO (a_write\<lparr>io_op := Some READ\<rparr>) st1 = Inl NullDeref"
proof -
  obtain st ok st1 p where w: "CreateStorageSystem 0 0 0 0 [] eager_conf = Inr st" "storage_ok st" "writable 0 (sys st)"
      "targets (ioScheduler st) = {0}" "g_tierDownPages st = None" "Storage_WriteHostIO a_write st = Inr (ok, st1)"
      "g_tierDownPages st1 = Some [p]" "tp_lba p = 0"
    using eager_write by blast
  have "page_align (io_lba (a_write\<lparr>io_op := Some READ\<rparr>)) = tp_lba p" using w(8) by (simp add: a_write_def page_align_def)
  then have "Storage_ReadHostIO (a_write\<lparr>io_op := Some READ\<rparr>) st1 = Inl NullDeref"
    using tiered_down_pages_lost [OF w(2-4,6,7), of p st1 "a_write\<lparr>io_op := Some READ\<rparr>"] w(5) by simp
  then show ?thesis using w(1,6) by blast
qed

text \<open>C30: A read of a page that is not in tier 0 dereferences a null pointer, even if the page is in
  tier 1: the loop over the tiers never gets to the second one.\<close>

theorem read_only_finds_tier0:
  assumes "storage_ok st"
  shows "if page_align (io_lba io) \<in> holds 0 st
    then ensures (Storage_ReadHostIO io st) (\<lambda>(ok, st'). ok \<and> storage_ok st' \<and> (\<forall>l < 2. holds l st' = holds l st))
    else Storage_ReadHostIO io st = Inl NullDeref"
proof (cases "page_align (io_lba io) \<in> holds 0 st")
  case True
  have "ensures (Storage_ReadHostIO io st) (\<lambda>(ok, st'). ok \<and> storage_ok st' \<and> (\<forall>l < 2. holds l st' = holds l st))"
    by (rule ensures_mono [OF Storage_ReadHostIO_spec [OF assms True]]) auto
  then show ?thesis using True by simp
next
  case False
  then show ?thesis using Storage_ReadHostIO_missing [OF assms False] by simp
qed

theorem read_only_finds_tier0_witness:
  "\<exists>st. CreateStorageSystemInstance 0 0 0 0 [] small_flags = Inr st \<and> Storage_ReadHostIO a_write st = Inl NullDeref"
proof -
  obtain st where st: "CreateStorageSystemInstance 0 0 0 0 [] small_flags = Inr st" "storage_ok st" "holds 0 st = {}"
    using small_instance by blast
  then show ?thesis using read_only_finds_tier0 [OF st(2), of a_write] by auto
qed

subsection \<open>The choice of the tier\<close>

text \<open>\<open>scheduleLayer\<close> returns the index of one of the two tiers, 0 unless a bypass is enabled, and
  only waits while it decides.\<close>

theorem schedule_layer_index:
  assumes "storage_ok st"
  shows "\<exists>l s'. ScheduleLayer (ioScheduler st) x lba len pf (sys st) = Inr (l, s') \<and> l \<in> targets (ioScheduler st) \<and>
    l < 2 \<and> quiet (sys st) s'"
proof -
  have "disks_ok (sys st)" "1 < length (tiers (sys st))" "scheduler_ok (ioScheduler st) (sys st)"
    using assms by (simp_all add: storage_ok_def store_ok_def)
  from ScheduleLayer_spec [OF this, of x lba len pf] obtain l s' where
    "ScheduleLayer (ioScheduler st) x lba len pf (sys st) = Inr (l, s')" "l < 2" "quiet (sys st) s'"
    "l = 1 \<longrightarrow> ideal_enable (ioScheduler st) \<or> helper_enable (ioScheduler st)" by blast
  then show ?thesis by (auto simp: targets_def less_2)
qed

theorem schedule_layer_index_witness:
  "\<exists>st s'. CreateStorageSystemInstance 0 0 0 0 [] small_flags = Inr st \<and>
     ScheduleLayer (ioScheduler st) 0 0 8192 zero_freq (sys st) = Inr (0, s')"
proof -
  obtain st where st: "CreateStorageSystemInstance 0 0 0 0 [] small_flags = Inr st" "storage_ok st"
      "targets (ioScheduler st) = {0}"
    using small_instance by blast
  then show ?thesis using schedule_layer_index [OF st(2), of 0 0 8192 zero_freq] by auto
qed

text \<open>The history of a page is never used: a host write is the choice of a tier and the write to
  it with frequencies 0, whether or not the page is known.\<close>

theorem history_never_used:
  assumes "storage_ok st"
  shows "Storage_WriteHostIO io st =
    bindE (ScheduleLayer (ioScheduler st) (after_g_IOPS st) (io_lba io) (io_length io) zero_freq (sys st)) (\<lambda>(l, s1).
    WriteIOAux io zero_freq l (st\<lparr>sys := s1\<rparr>))"
proof -
  obtain ok where "Storage_QueryPageHistoryFreq (io_lba io) zero_freq st = Inr (ok, zero_freq)"
    using Storage_QueryPageHistoryFreq_blind [OF assms] by blast
  then show ?thesis by (simp add: Storage_WriteHostIO_def)
qed

theorem history_never_used_witness:
  "\<exists>st. CreateStorageSystemInstance 0 0 0 0 [] small_flags = Inr st \<and>
     Storage_WriteHostIO a_write st = WriteIOAux a_write zero_freq 0 st"
proof -
  obtain st where st: "CreateStorageSystemInstance 0 0 0 0 [] small_flags = Inr st" "storage_ok st"
      "targets (ioScheduler st) = {0}"
    using small_instance by blast
  then have "\<not> ideal_enable (ioScheduler st)" "\<not> helper_enable (ioScheduler st)"
    by (auto simp: targets_def split: if_split_asm)
  then show ?thesis using history_never_used [OF st(2), of a_write] st(1) by simp
qed

end
