(* ===== verification/Instance_Properties.thy ===== *)
theory Instance_Properties
  imports Storage_Properties
begin

text \<open>Statistics, shutdown and configuration of the running instance, and its workloads.\<close>

definition flush_flags :: Flags where
  "flush_flags = small_flags\<lparr>FLAGS_enableFlush := True\<rparr>"

text \<open>An instance with disks.\<close>

lemma flush_instance:
  "\<exists>st d. CreateStorageSystemInstance 0 0 0 0 [] flush_flags = Inr st \<and> storage_ok st \<and> diskOp (tier_at (sys st) 0) = Some d"
proof -
  have s: "sane flush_flags" using small_flags_sane by (simp add: sane_def flush_flags_def small_flags_def default_flags_def
      reservedSpaceRatio_def)
  from sane_instance [OF s, of 0 0 0 0 "[]"]
  obtain st where "CreateStorageSystemInstance 0 0 0 0 [] flush_flags = Inr st" "storage_ok st"
      "diskOp (tier_at (sys st) 0) = None \<longleftrightarrow> \<not> FLAGS_enableFlush flush_flags"
    by (elim exE conjE) (rule that)
  then show ?thesis by (auto simp: flush_flags_def)
qed

subsection \<open>Statistics\<close>

text \<open>With disks, a report appends one line of less than 260 characters to the report file, so that
  the buffer is never overrun although every \<open>snprintf\<close> is allowed all of it, and resets both
  tiers' counters; nothing else of the tiers changes.\<close>

theorem report_fits_buffer:
  assumes "storage_ok st" and "diskOp (tier_at (sys st) 0) = Some d"
  shows "\<exists>line st'. Storage_Report st = Inr st' \<and> reportFD st' = reportFD st @ line \<and> length line < MAX_BUFF_SIZE \<and>
    unmoved (sys st) (sys st') \<and> (\<forall>l < 2. statModule (tier_at (sys st') l) = CreateStatModule)"
  using Storage_Report_spec [OF assms] by (auto simp: less_2)

theorem report_fits_buffer_witness:
  "\<exists>st st'. CreateStorageSystemInstance 0 0 0 0 [] flush_flags = Inr st \<and> Storage_Report st = Inr st'"
proof -
  obtain st d where "CreateStorageSystemInstance 0 0 0 0 [] flush_flags = Inr st" "storage_ok st" "diskOp (tier_at (sys st) 0) = Some d"
    using flush_instance by blast
  with report_fits_buffer [of st d] show ?thesis by blast
qed

text \<open>Every \<open>IO_TIMES\<close> requests the instance reports; without disks that report dereferences a null
  pointer, so the hundred-thousandth request ends the program.\<close>

theorem report_crashes_without_disks:
  assumes "\<not> FLAGS_sysShutdown i" and "io_count i = IO_TIMES - 1" and "bq_Take (FLAGS_queue i) = Inr (Some io, q)"
    and "serve_io io (FLAGS_storSys i) = Inr st1" and "storage_ok st1" and "diskOp (tier_at (sys st1) 0) = None"
  shows "instance_round i = Inl NullDeref"
  using Storage_Report_no_disk [OF assms(5,6)] assms(1-4) count_div [of "io_count i"]
  by (simp add: instance_round_def serve_round_def)

text \<open>A request of no known operation, in the queue of the instance.\<close>

definition late_instance :: "StorageSystem \<Rightarrow> Instance" where
  "late_instance st = \<lparr>FLAGS_storSys = st, FLAGS_queue = \<lparr>bq_shutdown = False, bq_queueSize = 1,
     bq_currentSize = 1, bq_queue = [zero_IO], pushCursor = 0, popCursor = 0\<rparr>, io_count = IO_TIMES - 1, FLAGS_sysShutdown = False\<rparr>"

theorem report_crashes_without_disks_witness:
  "\<exists>st. CreateStorageSystemInstance 0 0 0 0 [] small_flags = Inr st \<and> instance_round (late_instance st) = Inl NullDeref"
proof -
  obtain st where st: "CreateStorageSystemInstance 0 0 0 0 [] small_flags = Inr st" "storage_ok st"
      "diskOp (tier_at (sys st) 0) = None"
    using small_instance by blast
  have "\<exists>q. bq_Take (FLAGS_queue (late_instance st)) = Inr (Some zero_IO, q)"
    by (simp add: late_instance_def bq_Take_def bq_IsEmpty_def next_slot_def)
  then obtain q where "bq_Take (FLAGS_queue (late_instance st)) = Inr (Some zero_IO, q)" by blast
  moreover have "\<not> FLAGS_sysShutdown (late_instance st)" "io_count (late_instance st) = IO_TIMES - 1"
      "serve_io zero_IO (FLAGS_storSys (late_instance st)) = Inr st"
    by (simp_all add: late_instance_def serve_io_def zero_IO_def)
  ultimately have "instance_round (late_instance st) = Inl NullDeref"
    using report_crashes_without_disks [OF _ _ _ _ st(2,3)] by blast
  then show ?thesis using st(1) by blast
qed

text \<open>C31: The printed histogram counts every host write recorded by any host thread of any tier, and
  all histograms start again.\<close>

theorem histogram_counts_all:
  assumes "storage_ok st" and "hist_inv (sys_writeHist st)" and "\<forall>k < 2. hists_ok (tier_at (sys st) k)"
  shows "\<exists>h st'. PrintWriteHistgram st = Inr (h, st') \<and> sum_list (h_buckets h) = h_num h \<and>
    h_num h = h_num (sys_writeHist st) + hist_count (disk_hists (tier_at (sys st) 0)) + hist_count (disk_hists (tier_at (sys st) 1)) \<and>
    h_num (sys_writeHist st') = 0 \<and> (\<forall>k < 2. hist_count (disk_hists (tier_at (sys st') k)) = 0)"
proof -
  obtain h st' where p: "PrintWriteHistgram st = Inr (h, st')" "hist_inv h"
      "h_num h = h_num (sys_writeHist st) + (\<Sum>k \<leftarrow> [0..<TIER_NUM]. hist_count (disk_hists (tier_at (sys st) k)))"
      "sys_writeHist st' = Hist_Clear h"
      "\<forall>k < TIER_NUM. disk_hists (tier_at (sys st') k) = map Hist_Clear (disk_hists (tier_at (sys st) k))"
    using PrintWriteHistgram_spec [OF assms] by blast
  have z: "hist_count (map Hist_Clear hs) = 0" for hs by (induction hs) (simp_all add: hist_count_def Hist_Clear_def)
  have "[0..<TIER_NUM] = [0, 1]" by (simp add: upt_rec)
  then have "h_num h = h_num (sys_writeHist st) + hist_count (disk_hists (tier_at (sys st) 0)) + hist_count (disk_hists (tier_at (sys st) 1))"
    using p(3) by simp
  moreover have "h_num (sys_writeHist st') = 0" using p(4) by (simp add: Hist_Clear_def)
  moreover have "\<forall>k < 2. hist_count (disk_hists (tier_at (sys st') k)) = 0" using p(5) z by simp
  ultimately show ?thesis using p(1,2) by (intro exI [of _ h] exI [of _ st']) (simp add: hist_inv_def)
qed

theorem histogram_counts_all_witness:
  "\<exists>st h st'. CreateStorageSystemInstance 0 0 0 0 [] small_flags = Inr st \<and>
     PrintWriteHistgram (st\<lparr>sys_writeHist := Hist_Add CreateHistogram 7\<rparr>) = Inr (h, st') \<and> h_num h = 1"
proof -
  obtain st where st: "CreateStorageSystemInstance 0 0 0 0 [] small_flags = Inr st" "storage_ok st"
      "diskOp (tier_at (sys st) 0) = None" "diskOp (tier_at (sys st) 1) = None"
    using small_instance by blast
  let ?st = "st\<lparr>sys_writeHist := Hist_Add CreateHistogram 7\<rparr>"
  have "storage_ok ?st" "hist_inv (sys_writeHist ?st)" "\<forall>k < 2. hists_ok (tier_at (sys ?st) k)"
    using st(2-4) Hist_Add_inv [OF CreateHistogram_inv] by (auto simp: storage_ok_def hists_ok_def less_2)
  from histogram_counts_all [OF this]
  show ?thesis using st(1,3,4) by (auto simp: disk_hists_def hist_count_def Hist_Add_def CreateHistogram_def Let_def)
qed

subsection \<open>Shutdown\<close>

text \<open>\<open>DestroyStorageSystem\<close> gets past the join of the tier-down thread exactly if that thread is not
  between its test of \<open>running\<close> and its wait: there the signal is lost and the join never returns.\<close>

theorem destroy_returns_iff:
  "(\<exists>n st'. DestroyStorageSystem n st = Inr st') \<longleftrightarrow> tierDownThread st \<noteq> AtWait"
  using DestroyStorageSystem_ends [of st 2] DestroyStorageSystem_hangs [of st] by (cases "tierDownThread st = AtWait") auto

subsection \<open>Configuration\<close>

text \<open>C26: An instance configured with sane flags (see \<open>sane\<close>) is created consistent and empty, with room
  for writes to both tiers.\<close>

theorem sane_flags_work:
  assumes "sane fl"
  shows "\<exists>st. CreateStorageSystemInstance j1 j2 behind t fut fl = Inr st \<and> storage_ok st \<and>
    holds 0 st = {} \<and> holds 1 st = {} \<and> writable 0 (sys st) \<and> writable 1 (sys st)"
  using sane_instance [OF assms, of j1 j2 behind t fut] by (elim exE conjE) (intro exI conjI)

theorem sane_flags_work_witness:
  "\<exists>st. CreateStorageSystemInstance 0 0 0 0 [] small_flags = Inr st \<and> writable 1 (sys st)"
  using sane_flags_work [OF small_flags_sane, of 0 0 0 0 "[]"] by blast

lemma default_layer0:
  "lm_gcWL (layer0Conf default_flags) = 10" "lm_tierDownWL (layer0Conf default_flags) = 0"
  "lm_tierDownBlockCnt (layer0Conf default_flags) = 1" "lm_needDiskOperation (layer0Conf default_flags) = False"
  "totalBlockCnt (lm_gcConf (layer0Conf default_flags)) = 100"
  by (simp_all add: layer0Conf_def default_flags_def Let_def gc_conf_def signed_divide_int_def)

lemma default_created:
  "\<exists>st. CreateStorageSystem j1 j2 behind t fut (instance_conf default_flags) = Inr st \<and> storage_ok st \<and>
     fresh_tier (layer0Conf default_flags) (tier_at (sys st) 0) \<and>
     ioScheduler st = CreateIOScheduler j1 j2 (schedulerConf (instance_conf default_flags))"
proof -
  have c: "layerConf (instance_conf default_flags) = [layer0Conf default_flags, layer1Conf default_flags]"
    by (simp add: instance_conf_def)
  have "creatable (layer0Conf default_flags)" "creatable (layer1Conf default_flags)"
    by (simp_all add: creatable_def layer0Conf_def layer1Conf_def default_flags_def Let_def gc_conf_def)
  moreover have "\<not> idealEnable (schedulerConf (instance_conf default_flags))"
      "\<not> normalEnable (schedulerConf (instance_conf default_flags))"
    by (simp_all add: instance_conf_def default_flags_def)
  ultimately show ?thesis
    using CreateStorageSystem_spec [OF c, of j1 j2 behind t fut] by blast
qed

text \<open>With the flags as initialised, the first host write ends the program: \<open>tierDownWL\<close> is 0, so 513
  pages are to be evicted from the one page there is, and the \<open>assert\<close> of \<open>Evict\<close> fails.\<close>

theorem default_first_write_exits:
  assumes "CreateStorageSystemInstance j1 j2 behind t fut default_flags = Inr st"
  shows "Storage_WriteHostIO io st = Inl ExitFailure"
proof -
  obtain st1 where st1: "CreateStorageSystem j1 j2 behind t fut (instance_conf default_flags) = Inr st1" "storage_ok st1"
      "fresh_tier (layer0Conf default_flags) (tier_at (sys st1) 0)"
      "ioScheduler st1 = CreateIOScheduler j1 j2 (schedulerConf (instance_conf default_flags))"
    using default_created [of j1 j2 behind t fut] by blast
  then have "st1 = st" using assms by (simp add: CreateStorageSystemInstance_def)
  then have st: "storage_ok st" "fresh_tier (layer0Conf default_flags) (tier_at (sys st) 0)"
      "ioScheduler st = CreateIOScheduler j1 j2 (schedulerConf (instance_conf default_flags))"
    using st1 by simp_all
  have f: "stored (tier_at (sys st) 0) = {}" "free_blocks (tier_at (sys st) 0) = 100" "diskOp (tier_at (sys st) 0) = None"
      "gcWL (tier_at (sys st) 0) = 10" "tierDownWL (tier_at (sys st) 0) = 0" "tierDownBlockCnt (tier_at (sys st) 0) = 1"
      "layer_ok (tier_at (sys st) 0)"
    using st(2) by (simp_all add: fresh_tier_def default_layer0)
  have a: "alone 0 (sys st)" using st(1) f(3,7) by (simp add: alone_def storage_ok_def store_ok_def)
  have r: "spacious (tier_at (sys st) 0)" "0 < host_room (gcModule (tier_at (sys st) 0))"
    using f(2,4) by (simp_all add: spacious_above host_room_def free_blocks_def)
  have w: "WriteHostIO 0 io zero_freq (sys st) = Inl ExitFailure"
    by (rule WriteHostIO_exits [OF a refl, where c = 1]) (use f r in simp_all)
  obtain ok where "Storage_QueryPageHistoryFreq (io_lba io) zero_freq st = Inr (ok, zero_freq)"
    using Storage_QueryPageHistoryFreq_blind [OF st(1)] by blast
  then show ?thesis
    using w st(3) by (simp add: Storage_WriteHostIO_def WriteIOAux_def CreateIOScheduler_def instance_conf_def default_flags_def)
qed

theorem default_first_write_exits_witness:
  "\<exists>st. CreateStorageSystemInstance 0 0 0 0 [] default_flags = Inr st \<and> Storage_WriteHostIO a_write st = Inl ExitFailure"
proof -
  obtain st where "CreateStorageSystemInstance 0 0 0 0 [] default_flags = Inr st"
    using default_created [of 0 0 0 0 "[]"] unfolding CreateStorageSystemInstance_def by blast
  with default_first_write_exits [of 0 0 0 0 "[]" st a_write] show ?thesis by blast
qed

subsection \<open>Workloads\<close>

text \<open>C27: One pass of the sequential workload requests every page of the device exactly once, from the
  last to the first, and leaves the generator where it started.\<close>

theorem warmup_covers_device:
  assumes "length tss = unat maxBlocks * 512" and "maxBlocks \<noteq> 0"
  shows "map io_lba (fst (warmup tss (CreateSequentialGenerator maxBlocks))) =
      rev (map (\<lambda>i. push_bit 13 (of_nat i)) [0..<unat maxBlocks * 512]) \<and>
    distinct (map io_lba (fst (warmup tss (CreateSequentialGenerator maxBlocks)))) \<and>
    snd (warmup tss (CreateSequentialGenerator maxBlocks)) = CreateSequentialGenerator maxBlocks"
proof -
  note p = warmup_pass [OF assms]
  have "unat maxBlocks * 512 \<le> 2 ^ 51" using unat_lt2p32 [of maxBlocks] by simp
  then have "inj_on (\<lambda>i. push_bit PAGE_8K_SHIFT (of_nat i :: u64)) {0..<unat maxBlocks * 512}"
    by (intro inj_on_subset [OF inj_on_shift]) auto
  then have "distinct (map (\<lambda>i. push_bit PAGE_8K_SHIFT (of_nat i :: u64)) (rev [0..<unat maxBlocks * 512]))"
    by (simp add: distinct_map)
  then show ?thesis using p assms(1) by (simp add: rev_map)
qed

theorem warmup_covers_device_witness:
  "distinct (map io_lba (fst (warmup (replicate 512 0) (CreateSequentialGenerator 1))))"
  by (rule conjunct1 [OF conjunct2 [OF warmup_covers_device]]) simp_all

text \<open>Whatever the random source returns, the random workload writes to the first page of the device
  only: the address of each request is a truth value.\<close>

theorem random_workload_one_page:
  assumes "0 < blockCnt"
  shows "\<exists>ios. random_workload ds (CreateRandomGenerator blockCnt ioCnt) = Inr ios \<and> length ios = length ds \<and>
    page_align ` io_lba ` set ios \<subseteq> {0}"
proof -
  let ?g = "CreateRandomGenerator blockCnt ioCnt"
  have "unat blockCnt \<noteq> 0" using assms word_less_nat_alt [of 0 blockCnt] by simp
  then have "unat (lba_count blockCnt) \<noteq> 0" by (simp only: unat_lba_count)
  then have "lba_count blockCnt \<noteq> 0" by (rule contrapos_nn) simp
  then have "rg_maxLbaCount ?g \<noteq> 0" by (simp add: CreateRandomGenerator_def)
  then obtain ios where "random_workload ds ?g = Inr ios" using random_workload_total by blast
  then show ?thesis using random_workload_pages [of ds ?g ios] by auto
qed

theorem random_workload_one_page_witness:
  "\<exists>ios. random_workload [(7, 0), (4000, 1)] (CreateRandomGenerator 100 2) = Inr ios \<and> page_align ` io_lba ` set ios \<subseteq> {0}"
  using random_workload_one_page [of 100 "[(7, 0), (4000, 1)]" 2] by auto

text \<open>On a device of at least one page the Zipf workload never faults, makes as many requests as it has
  rounds, and each is for one whole page of the device; the source of the writes is never drawn from.\<close>

theorem zipf_requests_in_range:
  assumes "zg_maxLbaCount zipf \<noteq> 0"
  shows "\<exists>ios zipf'. zipf_workload next ds zipf = Inr (ios, zipf') \<and> length ios = length ds \<and> writeGen zipf' = writeGen zipf \<and>
    (\<forall>io\<in>set ios. io_length io = 8192 \<and> (\<exists>x < zg_maxLbaCount zipf. io_lba io = push_bit 13 x))"
  using zipf_workload_requests [OF assms] .

definition small_zipf :: "u64 ZipfGenerator" where
  "small_zipf = CreateZipfGenerator 5 6 \<lparr>maxBlockCount = 1, zc_readWriteRatio = 50, readLbaOffsetRatio = 0,
     writeLbaOffsetRatio = 0, swapStartRatio = 0, swapMidRatio = 50, swapEndRatio = 100, transferOffsetRatio = 0,
     maxIOCount = 1\<rparr>"

lemma small_zipf_fields:
  "zg_maxLbaCount small_zipf = 512" "swapStart small_zipf = 0" "swapMid small_zipf = 256" "swapEnd small_zipf = 512"
  by (simp_all add: small_zipf_def CreateZipfGenerator_def lba_count_def Let_def)

theorem zipf_requests_in_range_witness:
  "\<exists>ios zipf'. zipf_workload (\<lambda>n. (n, n + 1)) [(7, 0), (60, 1)] small_zipf = Inr (ios, zipf') \<and> length ios = 2 \<and>
     writeGen zipf' = writeGen small_zipf"
  using zipf_requests_in_range [of small_zipf "\<lambda>n. (n, n + 1)" "[(7, 0), (60, 1)]"] by (auto simp: small_zipf_fields)

text \<open>When both ranges have the same size, the exchange of pages in \<open>ZipfGenerateWriteIO\<close> is its own
  inverse and stays on the device.\<close>

theorem zipf_swap_inverse:
  assumes "swapStart z \<le> swapMid z" and "swapMid z \<le> swapEnd z" and "swapMid z - swapStart z = swapEnd z - swapMid z"
    and "swapEnd z \<le> n" and "x < n"
  shows "zipf_swap z (zipf_swap z x) = x \<and> zipf_swap z x < n"
  using zipf_swap_half [OF assms(1-3)] assms(4,5) by simp

theorem zipf_swap_inverse_witness: "zipf_swap small_zipf (zipf_swap small_zipf 3) = 3 \<and> zipf_swap small_zipf 3 < 512"
  using zipf_swap_inverse [of small_zipf 512 3] by (simp add: small_zipf_fields)

end
