(* ===== verification/Instance_Threads.thy ===== *)
theory Instance_Threads
  imports Instance Queue_Threads
begin

text \<open>
  The threads of src/src/proc/instance.c together: a workload thread that pushes its requests, the
  storage thread that pops and serves them, the tier-down thread of the store, and the main thread,
  which joins the workload, waits for an empty queue, and closes the queue and the store. The queue
  is that of theory \<open>Queue_Threads\<close>; its thread 0 is the workload and thread 1 the storage thread.
  \<open>QuerySize\<close> and \<open>Shutdown\<close> take no mutex. Calls of \<open>PrintWriteHistgram\<close> are left out.

  A request is served in one step. The tier-down thread, which shares the store, may move meanwhile: it changes
  nothing but its own point and its two globals, and of what the storage thread does only \<open>HandleTierDown\<close> and the
  signal after it look at these. A write during which the globals are cleared inside \<open>HandleTierDown\<close> is a step of its
  own (\<open>serves_raced\<close>). So are waits that return without a signal, in \<open>pop\<close> (\<open>pop_wakes\<close>) and in \<open>push\<close> (\<open>push_wakes\<close>).
  Two auxiliary components record them: \<open>early_wakes\<close> counts those in \<open>pop\<close>, and \<open>disturbed\<close> is set by the two that
  can break the store or the queue.

  \<open>DestroyBlockingQueue\<close> frees the queue although the storage thread may still be in \<open>pop\<close>: the model
  keeps the queue, marks it as freed (\<open>q_freed\<close>), and from then on makes no step on it.
\<close>

subsection \<open>The threads\<close>

datatype storage_point = LoopTest | InPop | Serving IO | Ended

datatype main_point = JoinWorkload | Polling | Flagging | Closing | Freeing | Joining | Joined

record Program =
  p_queue :: "IO bq_sys"
  todo :: "IO list"                \<comment> \<open>what the workload thread has not pushed yet\<close>
  storage :: storage_point
  store :: StorageSystem
  p_count :: u32
  p_sysShutdown :: bool
  main_thread :: main_point
  q_freed :: bool
  early_wakes :: nat
  disturbed :: bool

text \<open>The storage thread pops without looking at the result: nothing popped is a request of zero bytes.\<close>

definition got :: "IO option \<Rightarrow> IO" where
  "got r = (case r of None \<Rightarrow> zero_IO | Some io \<Rightarrow> io)"

inductive core_step :: "Program \<Rightarrow> Program \<Rightarrow> bool" where
  pushes: "\<not> q_freed s \<Longrightarrow> todo s = io # ios \<Longrightarrow> bq_step (p_queue s) (EPush 0 io) q \<Longrightarrow>
    core_step s (s\<lparr>p_queue := q, todo := ios\<rparr>)"
| push_blocks: "\<not> q_freed s \<Longrightarrow> todo s = io # ios \<Longrightarrow> bq_step (p_queue s) (EBlock 0) q \<Longrightarrow> bq_pc q 0 = PushWait io \<Longrightarrow>
    core_step s (s\<lparr>p_queue := q\<rparr>)"
| tests: "storage s = LoopTest \<Longrightarrow> core_step s (s\<lparr>storage := (if p_sysShutdown s then Ended else InPop)\<rparr>)"
| pop_blocks: "\<not> q_freed s \<Longrightarrow> storage s = InPop \<Longrightarrow> bq_step (p_queue s) (EBlock 1) q \<Longrightarrow>
    bq_pc q 1 = PopChecked \<or> bq_pc q 1 = PopWaiting \<Longrightarrow> core_step s (s\<lparr>p_queue := q\<rparr>)"
| pops: "\<not> q_freed s \<Longrightarrow> storage s = InPop \<Longrightarrow> bq_step (p_queue s) (EPop 1 r) q \<Longrightarrow>
    core_step s (s\<lparr>p_queue := q, storage := Serving (got r)\<rparr>)"
| serves: "storage s = Serving io \<Longrightarrow> serve_round io (store s, p_count s) = Inr (st, n) \<Longrightarrow>
    core_step s (s\<lparr>store := st, p_count := n, storage := LoopTest\<rparr>)"
| joins_workload: "main_thread s = JoinWorkload \<Longrightarrow> todo s = [] \<Longrightarrow> core_step s (s\<lparr>main_thread := Polling\<rparr>)"
| sees_empty: "main_thread s = Polling \<Longrightarrow> bq_QuerySize (bq_q (p_queue s)) = 0 \<Longrightarrow>
    core_step s (s\<lparr>main_thread := Flagging\<rparr>)"
| flags: "main_thread s = Flagging \<Longrightarrow> core_step s (s\<lparr>p_sysShutdown := True, main_thread := Closing\<rparr>)"
| closes: "main_thread s = Closing \<Longrightarrow> bq_step (p_queue s) EShut q \<Longrightarrow>
    core_step s (s\<lparr>p_queue := q, main_thread := Freeing\<rparr>)"
| frees: "main_thread s = Freeing \<Longrightarrow> core_step s (s\<lparr>q_freed := True, main_thread := Joining\<rparr>)"
| joins_storage: "main_thread s = Joining \<Longrightarrow> storage s = Ended \<Longrightarrow> core_step s (s\<lparr>main_thread := Joined\<rparr>)"

inductive tier_step :: "Program \<Rightarrow> Program \<Rightarrow> bool" where
  tier_runs: "thread_step (store s) = Inr st \<Longrightarrow> tier_step s (s\<lparr>store := st\<rparr>)"
| tier_woken: "tierDownThread (store s) = Waiting \<Longrightarrow> tier_step s (s\<lparr>store := (store s)\<lparr>tierDownThread := Woken\<rparr>\<rparr>)"

inductive stray_step :: "Program \<Rightarrow> Program \<Rightarrow> bool" where
  serves_meanwhile: "storage s = Serving io \<Longrightarrow> serve_round io (store s, p_count s) = Inr (st, n) \<Longrightarrow> same_store st st' \<Longrightarrow>
    stray_step s (s\<lparr>store := st', p_count := n, storage := LoopTest\<rparr>)"
| serves_raced: "storage s = Serving io \<Longrightarrow> io_op io = Some WRITE \<Longrightarrow> serve_raced hit io (store s, p_count s) = Inr (st, n) \<Longrightarrow>
    same_store st st' \<Longrightarrow> stray_step s (s\<lparr>store := st', p_count := n, storage := LoopTest, disturbed := True\<rparr>)"
| pop_wakes: "storage s = InPop \<Longrightarrow> bq_step (p_queue s) (EWake 1) q \<Longrightarrow>
    stray_step s (s\<lparr>p_queue := q, early_wakes := early_wakes s + 1\<rparr>)"
| push_wakes: "bq_step (p_queue s) (EWake 0) q \<Longrightarrow> stray_step s (s\<lparr>p_queue := q, disturbed := True\<rparr>)"

definition program_step :: "Program \<Rightarrow> Program \<Rightarrow> bool" where
  "program_step s s' \<longleftrightarrow> core_step s s' \<or> tier_step s s' \<or> stray_step s s'"

text \<open>After \<open>Initialize\<close>, \<open>CreateStorageSystemInstance\<close> and the creation of a workload of the requests \<open>ios\<close>.\<close>

definition program_start :: "u32 \<Rightarrow> IO list \<Rightarrow> StorageSystem \<Rightarrow> Program" where
  "program_start workloadQSize ios st = \<lparr>p_queue = \<lparr>bq_q = Initialize workloadQSize, bq_pc = (\<lambda>_. BOut)\<rparr>, todo = ios,
     storage = LoopTest, store = st, p_count = 0, p_sysShutdown = False, main_thread = JoinWorkload, q_freed = False,
     early_wakes = 0, disturbed = False\<rparr>"

subsection \<open>The requests one after the other\<close>

fun serve_all :: "IO list \<Rightarrow> StorageSystem \<times> u32 \<Rightarrow> fault + StorageSystem \<times> u32" where
  "serve_all [] acc = Inr acc"
| "serve_all (io # ios) acc = bindE (serve_round io acc) (serve_all ios)"

lemma serve_all_append: "serve_all (xs @ ys) acc = bindE (serve_all xs acc) (serve_all ys)"
proof (induction xs arbitrary: acc)
  case (Cons io xs)
  then show ?case by (cases "serve_round io acc") simp_all
qed simp

fun same_result :: "('a \<Rightarrow> 'a \<Rightarrow> bool) \<Rightarrow> fault + 'a \<Rightarrow> fault + 'a \<Rightarrow> bool" where
  "same_result P (Inl e) (Inl e') = (e = e')"
| "same_result P (Inr x) (Inr y) = P x y"
| "same_result P _ _ = False"

lemma same_result_bind:
  assumes "same_result P m m'" and "\<And>x y. P x y \<Longrightarrow> same_result Q (f x) (g y)"
  shows "same_result Q (bindE m f) (bindE m' g)"
  using assms by (cases m; cases m') simp_all

lemma same_result_bind_eq:
  assumes "\<And>x. same_result Q (f x) (g x)"
  shows "same_result Q (bindE m f) (bindE m g)"
  using assms by (cases m) simp_all

lemma same_store_sys: "same_store a b \<Longrightarrow> same_store (a\<lparr>sys := s\<rparr>) (b\<lparr>sys := s\<rparr>)"
  by (simp add: same_store_def)

lemma WriteIOAux_same:
  assumes "same_store a b"
  shows "same_result (\<lambda>(r, a') (r', b'). r = r' \<and> same_store a' b') (WriteIOAux io pf layer a) (WriteIOAux io pf layer b)"
proof -
  have "sys a = sys b" using assms by (simp add: same_store_def)
  then show ?thesis unfolding WriteIOAux_def Let_def using assms
    by (auto intro!: same_result_bind_eq simp: same_store_def signal_def split: option.split)
qed

lemma Storage_WriteHostIO_same:
  assumes "same_store a b"
  shows "same_result (\<lambda>(r, a') (r', b'). r = r' \<and> same_store a' b') (Storage_WriteHostIO io a) (Storage_WriteHostIO io b)"
proof -
  have e: "sys a = sys b" "ioScheduler a = ioScheduler b" "after_g_IOPS a = after_g_IOPS b" using assms by (simp_all add: same_store_def)
  show ?thesis unfolding Storage_WriteHostIO_def Storage_QueryPageHistoryFreq_def e
    by (auto intro!: same_result_bind_eq WriteIOAux_same same_store_sys [OF assms])
qed

lemma Storage_ReadHostIO_same:
  assumes "same_store a b"
  shows "same_result (\<lambda>(r, a') (r', b'). r = r' \<and> same_store a' b') (Storage_ReadHostIO io a) (Storage_ReadHostIO io b)"
proof -
  have e: "sys a = sys b" using assms by (simp add: same_store_def)
  show ?thesis unfolding Storage_ReadHostIO_def e
    by (auto intro!: same_result_bind_eq same_store_sys [OF assms])
qed

lemma Storage_Report_same:
  assumes "same_store a b"
  shows "same_result same_store (Storage_Report a) (Storage_Report b)"
proof -
  have e: "sys a = sys b" "reportFD a = reportFD b" using assms by (simp_all add: same_store_def)
  show ?thesis unfolding Storage_Report_def e Let_def
    using assms by (auto intro!: same_result_bind_eq simp: same_store_def split: option.split)
qed

lemma serve_io_same:
  assumes "same_store a b"
  shows "same_result same_store (serve_io io a) (serve_io io b)"
  using assms unfolding serve_io_def
  by (auto intro!: same_result_bind [OF Storage_WriteHostIO_same] same_result_bind [OF Storage_ReadHostIO_same]
      split: option.split OpType.split)

lemma serve_round_same:
  assumes "same_store a b"
  shows "same_result (\<lambda>(a', n) (b', m). n = m \<and> same_store a' b') (serve_round io (a, n)) (serve_round io (b, n))"
  using assms unfolding serve_round_def Let_def prod.case
  by (auto intro!: same_result_bind [OF serve_io_same] same_result_bind [OF Storage_Report_same])

lemma thread_step_same: "thread_step a = Inr b \<Longrightarrow> same_store a b"
  by (auto simp: thread_step_def TierDownThread_eq same_store_def split: thread_point.split_asm)

lemma tier_step_same:
  assumes "tier_step s s'"
  shows "\<exists>st. s' = s\<lparr>store := st\<rparr> \<and> same_store (store s) st"
  using assms
proof (cases rule: tier_step.cases)
  case (tier_runs st)
  then show ?thesis using thread_step_same by blast
next
  case tier_woken
  then show ?thesis by (intro exI [of _ "(store s)\<lparr>tierDownThread := Woken\<rparr>"]) (simp add: same_store_def)
qed

subsection \<open>Where the threads can be\<close>

inductive_cases bq_pushE: "bq_step s (EPush t x) s'"
inductive_cases bq_popE: "bq_step s (EPop t r) s'"
inductive_cases bq_blockE: "bq_step s (EBlock t) s'"
inductive_cases bq_shutE: "bq_step s EShut s'"
inductive_cases bq_wakeE: "bq_step s (EWake t) s'"

text \<open>A signal when at most one thread can be waiting.\<close>

lemma signalled_sole:
  assumes "\<And>t. waiting (pc t) \<Longrightarrow> t = p"
  shows "signalled waiting wake pc pc' \<longleftrightarrow> pc' = (if waiting (pc p) then pc(p := wake (pc p)) else pc)"
proof (cases "waiting (pc p)")
  case True
  then have w: "{t. waiting (pc t)} = {p}" using assms by blast
  have "pc(p := wake (pc p)) = (\<lambda>t. if t \<in> {p} then wake (pc t) else pc t)" by (simp add: fun_eq_iff)
  then show ?thesis unfolding signalled_def w using True by (metis insert_not_empty subset_refl subset_singletonD)
next
  case False
  then have n: "\<not> waiting (pc t)" for t using assms by blast
  show ?thesis using False signalled_none [of waiting pc wake pc', OF n] by simp
qed

text \<open>The point of the workload thread: it only waits with its next request and while the ring is full.\<close>

definition workload_ok :: "IO BlockingQueue \<Rightarrow> IO list \<Rightarrow> IO bpc \<Rightarrow> bool" where
  "workload_ok q ios pc \<longleftrightarrow> (case pc of BOut \<Rightarrow> True
     | PushWait io \<Rightarrow> bq_IsFull q \<and> ios \<noteq> [] \<and> hd ios = io
     | PushWoken io \<Rightarrow> \<not> bq_IsFull q \<and> ios \<noteq> [] \<and> hd ios = io
     | _ \<Rightarrow> False)"

text \<open>The point of the storage thread: it only waits in \<open>pop\<close> and on an empty queue.\<close>

definition storage_ok_at :: "IO BlockingQueue \<Rightarrow> storage_point \<Rightarrow> IO bpc \<Rightarrow> bool" where
  "storage_ok_at q p pc \<longleftrightarrow> (case pc of BOut \<Rightarrow> True
     | PopChecked \<Rightarrow> p = InPop \<and> bq_IsEmpty q
     | PopWaiting \<Rightarrow> p = InPop \<and> bq_IsEmpty q
     | PopWoken \<Rightarrow> p = InPop
     | _ \<Rightarrow> False)"

definition main_ok :: "Program \<Rightarrow> bool" where
  "main_ok s \<longleftrightarrow> (let m = main_thread s; q = bq_q (p_queue s) in
     (m \<noteq> JoinWorkload \<longrightarrow> todo s = []) \<and> (m \<notin> {JoinWorkload, Polling} \<longrightarrow> bq_IsEmpty q) \<and>
     (p_sysShutdown s \<longleftrightarrow> m \<in> {Closing, Freeing, Joining, Joined}) \<and> (bq_shutdown q \<longleftrightarrow> m \<in> {Freeing, Joining, Joined}) \<and>
     (q_freed s \<longleftrightarrow> m \<in> {Joining, Joined}) \<and> (storage s = Ended \<longrightarrow> p_sysShutdown s) \<and> (m = Joined \<longrightarrow> storage s = Ended))"

definition ctl_inv :: "Program \<Rightarrow> bool" where
  "ctl_inv s \<longleftrightarrow> (let q = bq_q (p_queue s); pc = bq_pc (p_queue s) in
     ring_inv q \<and> bq_queueSize q < 4294967296 \<and> (\<forall>t. t \<noteq> 0 \<and> t \<noteq> 1 \<longrightarrow> pc t = BOut) \<and>
     workload_ok q (todo s) (pc 0) \<and> storage_ok_at q (storage s) (pc 1)) \<and> main_ok s"

text \<open>1 if a wait of the storage thread has returned early: its \<open>pop\<close> is to get nothing from an open queue.\<close>

definition pending :: "Program \<Rightarrow> nat" where
  "pending s = (if storage s = InPop \<and> bq_pc (p_queue s) 1 = PopWoken \<and> bq_IsEmpty (bq_q (p_queue s)) \<and>
     \<not> bq_shutdown (bq_q (p_queue s)) then 1 else 0)"

lemma ctl_inv_pcs:
  assumes "ctl_inv s"
  shows "t \<noteq> 1 \<Longrightarrow> bq_pc (p_queue s) t \<noteq> PopWaiting" and "t \<noteq> 1 \<Longrightarrow> bq_pc (p_queue s) t \<noteq> PopWoken"
    and "t \<noteq> 1 \<Longrightarrow> bq_pc (p_queue s) t \<noteq> PopChecked" and "t \<noteq> 0 \<Longrightarrow> \<not> push_waits (bq_pc (p_queue s) t)"
    and "t \<noteq> 0 \<Longrightarrow> bq_pc (p_queue s) t \<noteq> PushWoken io"
proof -
  let ?pc = "bq_pc (p_queue s)"
  have o: "t \<noteq> 0 \<Longrightarrow> t \<noteq> 1 \<Longrightarrow> ?pc t = BOut" for t using assms by (simp add: ctl_inv_def Let_def)
  have w: "workload_ok (bq_q (p_queue s)) (todo s) (?pc 0)" "storage_ok_at (bq_q (p_queue s)) (storage s) (?pc 1)"
    using assms by (simp_all add: ctl_inv_def Let_def)
  have p: "?pc 0 \<noteq> PopWaiting \<and> ?pc 0 \<noteq> PopWoken \<and> ?pc 0 \<noteq> PopChecked" "\<not> push_waits (?pc 1) \<and> ?pc 1 \<noteq> PushWoken io"
    using w by (auto simp: workload_ok_def storage_ok_at_def split: bpc.split_asm)
  show "t \<noteq> 1 \<Longrightarrow> ?pc t \<noteq> PopWaiting" "t \<noteq> 1 \<Longrightarrow> ?pc t \<noteq> PopWoken" "t \<noteq> 1 \<Longrightarrow> ?pc t \<noteq> PopChecked"
    using p(1) o [of t] by (cases "t = 0"; simp)+
  show "t \<noteq> 0 \<Longrightarrow> \<not> push_waits (?pc t)" "t \<noteq> 0 \<Longrightarrow> ?pc t \<noteq> PushWoken io"
    using p(2) o [of t] by (cases "t = 1"; simp)+
qed

lemma push_exact:
  assumes "ctl_inv s" and "bq_step (p_queue s) (EPush 0 io) q"
  shows "bq_pc (p_queue s) 0 = BOut \<and> \<not> bq_IsFull (bq_q (p_queue s)) \<or> bq_pc (p_queue s) 0 = PushWoken io"
    and "bq_Put (bq_q (p_queue s)) io = Inr (bq_q q)" and "bq_pc (p_queue s) 1 \<noteq> PopChecked"
    and "bq_pc q = (bq_pc (p_queue s))(0 := BOut, 1 := (if bq_pc (p_queue s) 1 = PopWaiting then PopWoken else bq_pc (p_queue s) 1))"
proof -
  let ?q = "bq_q (p_queue s)" and ?pc = "bq_pc (p_queue s)"
  have sole: "(?pc(0 := BOut)) t = PopWaiting \<Longrightarrow> t = 1" for t
    using ctl_inv_pcs(1) [OF assms(1), of t] by (auto split: if_split_asm)
  have "(?pc 0 = BOut \<and> \<not> bq_IsFull ?q \<or> ?pc 0 = PushWoken io) \<and> bq_Put ?q io = Inr (bq_q q) \<and> ?pc 1 \<noteq> PopChecked \<and>
      bq_pc q = ?pc(0 := BOut, 1 := (if ?pc 1 = PopWaiting then PopWoken else ?pc 1))"
  proof -
    from assms(2) consider (out) pc' where "bq_free ?pc" "?pc 0 = BOut" "\<not> bq_IsFull ?q" "bq_Put ?q io = Inr (bq_q q)"
        "signal_pop ?pc pc'" "bq_pc q = pc'"
      | (woken) pc' where "bq_free ?pc" "?pc 0 = PushWoken io" "bq_Put ?q io = Inr (bq_q q)"
        "signal_pop (?pc(0 := BOut)) pc'" "bq_pc q = pc'"
      by (elim bq_pushE) auto
    then show ?thesis
    proof cases
      case (out pc')
      then have "?pc(0 := BOut) = ?pc" by (simp add: fun_upd_idem)
      then show ?thesis using out signalled_sole [of "\<lambda>p. p = PopWaiting" "?pc(0 := BOut)" 1 "\<lambda>_. PopWoken" pc', OF sole]
        by (simp add: fun_upd_idem)
    next
      case (woken pc')
      then show ?thesis using signalled_sole [of "\<lambda>p. p = PopWaiting" "?pc(0 := BOut)" 1 "\<lambda>_. PopWoken" pc', OF sole]
        by (simp add: fun_upd_idem)
    qed
  qed
  then show "?pc 0 = BOut \<and> \<not> bq_IsFull ?q \<or> ?pc 0 = PushWoken io" "bq_Put ?q io = Inr (bq_q q)" "?pc 1 \<noteq> PopChecked"
    "bq_pc q = ?pc(0 := BOut, 1 := (if ?pc 1 = PopWaiting then PopWoken else ?pc 1))" by blast+
qed

lemma pop_exact:
  assumes "ctl_inv s" and "bq_step (p_queue s) (EPop 1 r) q"
  shows "bq_pc (p_queue s) 1 = BOut \<and> \<not> bq_must_wait (bq_q (p_queue s)) \<or> bq_pc (p_queue s) 1 = PopWoken"
    and "bq_Take (bq_q (p_queue s)) = Inr (r, bq_q q)"
    and "bq_pc q = (bq_pc (p_queue s))(1 := BOut, 0 := wake_push (bq_pc (p_queue s) 0))"
proof -
  let ?q = "bq_q (p_queue s)" and ?pc = "bq_pc (p_queue s)"
  have sole: "push_waits ((?pc(1 := BOut)) t) \<Longrightarrow> t = 0" for t
    using ctl_inv_pcs(4) [OF assms(1), of t] by (auto split: if_split_asm)
  have w: "\<not> push_waits p \<Longrightarrow> wake_push p = p" for p by (cases p) simp_all
  note sg = signalled_sole [of push_waits "?pc(1 := BOut)" 0 wake_push, OF sole]
  have "(?pc 1 = BOut \<and> \<not> bq_must_wait ?q \<or> ?pc 1 = PopWoken) \<and> bq_Take ?q = Inr (r, bq_q q) \<and>
      bq_pc q = ?pc(1 := BOut, 0 := wake_push (?pc 0))"
  proof -
    from assms(2) consider (out) pc' where "?pc 1 = BOut" "\<not> bq_must_wait ?q" "bq_Take ?q = Inr (r, bq_q q)"
        "signal_push ?pc pc'" "bq_pc q = pc'"
      | (woken) pc' where "?pc 1 = PopWoken" "bq_Take ?q = Inr (r, bq_q q)" "signal_push (?pc(1 := BOut)) pc'" "bq_pc q = pc'"
      by (elim bq_popE) auto
    then show ?thesis
    proof cases
      case (out pc')
      then have "?pc(1 := BOut) = ?pc" by (simp add: fun_upd_idem)
      then show ?thesis using out sg [of pc'] w [of "?pc 0"] by (simp add: fun_upd_idem split: if_split_asm)
    next
      case (woken pc')
      then show ?thesis using sg [of pc'] w [of "?pc 0"] by (simp add: fun_upd_idem split: if_split_asm)
    qed
  qed
  then show "?pc 1 = BOut \<and> \<not> bq_must_wait ?q \<or> ?pc 1 = PopWoken" "bq_Take ?q = Inr (r, bq_q q)"
    "bq_pc q = ?pc(1 := BOut, 0 := wake_push (?pc 0))" by blast+
qed

lemma push_block_exact:
  assumes "bq_step (p_queue s) (EBlock 0) q" and "bq_pc q 0 = PushWait io"
  shows "bq_pc (p_queue s) 0 = BOut" and "bq_IsFull (bq_q (p_queue s))"
    and "q = (p_queue s)\<lparr>bq_pc := (bq_pc (p_queue s))(0 := PushWait io)\<rparr>"
  using assms by (auto elim!: bq_blockE)

lemma pop_block_exact:
  assumes "bq_step (p_queue s) (EBlock 1) q" and "bq_pc q 1 = PopChecked \<or> bq_pc q 1 = PopWaiting"
  shows "bq_pc (p_queue s) 1 = BOut \<and> bq_must_wait (bq_q (p_queue s)) \<and>
      q = (p_queue s)\<lparr>bq_pc := (bq_pc (p_queue s))(1 := PopChecked)\<rparr> \<or>
    bq_pc (p_queue s) 1 = PopChecked \<and> q = (p_queue s)\<lparr>bq_pc := (bq_pc (p_queue s))(1 := PopWaiting)\<rparr>"
  using assms by (auto elim!: bq_blockE)

lemma shut_exact:
  assumes "ctl_inv s" and "bq_step (p_queue s) EShut q"
  shows "q = \<lparr>bq_q = bq_Shutdown (bq_q (p_queue s)),
    bq_pc = (bq_pc (p_queue s))(1 := (if bq_pc (p_queue s) 1 = PopWaiting then PopWoken else bq_pc (p_queue s) 1))\<rparr>"
proof -
  have "bq_pc (p_queue s) t \<noteq> PopWaiting" if "t \<noteq> 1" for t using ctl_inv_pcs(1) [OF assms(1) that] .
  then have "broadcast (\<lambda>p. p = PopWaiting) (\<lambda>_. PopWoken) (bq_pc (p_queue s)) =
      (bq_pc (p_queue s))(1 := (if bq_pc (p_queue s) 1 = PopWaiting then PopWoken else bq_pc (p_queue s) 1))"
    by (simp add: broadcast_def fun_eq_iff)
  then show ?thesis using assms(2) by (elim bq_shutE) simp
qed

subsection \<open>The invariant\<close>

lemma bq_shutdown_same:
  "bq_Put q x = Inr q' \<Longrightarrow> bq_shutdown q' = bq_shutdown q" "bq_Take q = Inr (r, q') \<Longrightarrow> bq_shutdown q' = bq_shutdown q"
  by (auto simp: bq_Put_def bq_Take_def fault_iff split: if_split_asm)

lemma ctl_invD:
  assumes "ctl_inv s"
  shows "ring_inv (bq_q (p_queue s))" and "bq_queueSize (bq_q (p_queue s)) < 4294967296"
    and "\<And>t. t \<noteq> 0 \<Longrightarrow> t \<noteq> 1 \<Longrightarrow> bq_pc (p_queue s) t = BOut"
    and "workload_ok (bq_q (p_queue s)) (todo s) (bq_pc (p_queue s) 0)"
    and "storage_ok_at (bq_q (p_queue s)) (storage s) (bq_pc (p_queue s) 1)" and "main_ok s"
  using assms unfolding ctl_inv_def Let_def by blast+

lemma ctl_invI:
  assumes "ring_inv (bq_q (p_queue s))" and "bq_queueSize (bq_q (p_queue s)) < 4294967296"
    and "\<And>t. t \<noteq> 0 \<Longrightarrow> t \<noteq> 1 \<Longrightarrow> bq_pc (p_queue s) t = BOut"
    and "workload_ok (bq_q (p_queue s)) (todo s) (bq_pc (p_queue s) 0)"
    and "storage_ok_at (bq_q (p_queue s)) (storage s) (bq_pc (p_queue s) 1)" and "main_ok s"
  shows "ctl_inv s"
  using assms unfolding ctl_inv_def Let_def by blast

lemma push_ctl:
  assumes "ctl_inv s" and "todo s = io # ios" and "bq_step (p_queue s) (EPush 0 io) q"
  shows "ctl_inv (s\<lparr>p_queue := q, todo := ios\<rparr>)" and "ring_items (bq_q q) = ring_items (bq_q (p_queue s)) @ [io]"
proof -
  let ?q = "bq_q (p_queue s)" and ?pc = "bq_pc (p_queue s)"
  note i = ctl_invD [OF assms(1)] and e = push_exact [OF assms(1,3)]
  have "\<not> bq_IsFull ?q" using e(1) i(4) by (auto simp: workload_ok_def)
  then have "ring_room ?q" using i(1) by (simp add: ring_room_def ring_inv_def bq_IsFull_def)
  then have r: "ring_inv (bq_q q)" "ring_items (bq_q q) = ring_items ?q @ [io]"
    using bq_Put_spec [OF i(1), of io] e(2) by auto
  then show "ring_items (bq_q q) = ring_items ?q @ [io]" by blast
  have ne: "\<not> bq_IsEmpty (bq_q q)" using bq_Put_sizes [OF e(2)] by (simp add: bq_IsEmpty_def)
  have m: "main_thread s = JoinWorkload" using i(6) assms(2) by (auto simp: main_ok_def Let_def)
  show "ctl_inv (s\<lparr>p_queue := q, todo := ios\<rparr>)"
  proof (rule ctl_invI)
    show "storage_ok_at (bq_q (p_queue (s\<lparr>p_queue := q, todo := ios\<rparr>))) (storage (s\<lparr>p_queue := q, todo := ios\<rparr>))
        (bq_pc (p_queue (s\<lparr>p_queue := q, todo := ios\<rparr>)) 1)"
      using i(5) e(3) ne by (auto simp: e(4) storage_ok_at_def split: bpc.split_asm bpc.split)
    show "main_ok (s\<lparr>p_queue := q, todo := ios\<rparr>)"
      using i(6) m bq_shutdown_same(1) [OF e(2)] by (auto simp: main_ok_def Let_def)
  qed (use r i(2,3) bq_Put_sizes [OF e(2)] in \<open>simp_all add: e(4) workload_ok_def\<close>)
qed

lemma pop_ctl:
  assumes "ctl_inv s" and "bq_step (p_queue s) (EPop 1 r) q" and "storage s = InPop"
  shows "ctl_inv (s\<lparr>p_queue := q, storage := Serving io\<rparr>)"
    and "ring_items (bq_q (p_queue s)) = (case r of None \<Rightarrow> [] | Some x \<Rightarrow> [x]) @ ring_items (bq_q q)"
    and "r = None \<Longrightarrow> bq_shutdown (bq_q (p_queue s)) \<or> pending s = 1"
proof -
  let ?q = "bq_q (p_queue s)" and ?pc = "bq_pc (p_queue s)"
  note i = ctl_invD [OF assms(1)] and e = pop_exact [OF assms(1,2)]
  note d = bqi.pop_D [OF e(2) i(1)] and z = bq_Take_sizes [OF e(2)]
  show "ring_items ?q = (case r of None \<Rightarrow> [] | Some x \<Rightarrow> [x]) @ ring_items (bq_q q)" by (rule d(2))
  show "bq_shutdown ?q \<or> pending s = 1" if "r = None"
    using that e(1) z assms(3) by (auto simp: bq_must_wait_def bq_IsEmpty_def pending_def)
  have em: "bq_IsEmpty ?q \<Longrightarrow> bq_IsEmpty (bq_q q)" using z by (simp add: bq_IsEmpty_def)
  have nf: "bq_IsFull ?q \<Longrightarrow> \<not> bq_IsFull (bq_q q)" "\<not> bq_IsFull ?q \<Longrightarrow> \<not> bq_IsFull (bq_q q)"
    using z i(1) by (auto simp: bq_IsFull_def ring_inv_def)
  show "ctl_inv (s\<lparr>p_queue := q, storage := Serving io\<rparr>)"
  proof (rule ctl_invI)
    show "workload_ok (bq_q (p_queue (s\<lparr>p_queue := q, storage := Serving io\<rparr>))) (todo (s\<lparr>p_queue := q, storage := Serving io\<rparr>))
        (bq_pc (p_queue (s\<lparr>p_queue := q, storage := Serving io\<rparr>)) 0)"
      using i(4) nf by (auto simp: e(3) workload_ok_def split: bpc.split_asm bpc.split)
    show "main_ok (s\<lparr>p_queue := q, storage := Serving io\<rparr>)"
      using i(6) em assms(3) bq_shutdown_same(2) [OF e(2)] by (auto simp: main_ok_def Let_def)
  qed (use i(2,3) d(1) z in \<open>simp_all add: e(3) storage_ok_at_def\<close>)
qed

lemma block_ctl:
  assumes "ctl_inv s" and "todo s = io # ios" and "bq_step (p_queue s) (EBlock 0) q" and "bq_pc q 0 = PushWait io"
  shows "ctl_inv (s\<lparr>p_queue := q\<rparr>)" and "bq_q q = bq_q (p_queue s)"
proof -
  note i = ctl_invD [OF assms(1)] and e = push_block_exact [OF assms(3,4)]
  show "ctl_inv (s\<lparr>p_queue := q\<rparr>)"
    by (rule ctl_invI) (use i e(2) assms(2) in \<open>simp_all add: e(3) workload_ok_def main_ok_def\<close>)
  show "bq_q q = bq_q (p_queue s)" by (simp add: e(3))
qed

lemma pop_block_ctl:
  assumes "ctl_inv s" and "storage s = InPop" and "bq_step (p_queue s) (EBlock 1) q"
    and "bq_pc q 1 = PopChecked \<or> bq_pc q 1 = PopWaiting"
  shows "ctl_inv (s\<lparr>p_queue := q\<rparr>)" and "bq_q q = bq_q (p_queue s)"
proof -
  note i = ctl_invD [OF assms(1)] and e = pop_block_exact [OF assms(3,4)]
  show q: "bq_q q = bq_q (p_queue s)" using e by auto
  have "t \<noteq> 1 \<Longrightarrow> bq_pc q t = bq_pc (p_queue s) t" for t using e by (elim disjE conjE) simp_all
  then have pc: "bq_pc q 0 = bq_pc (p_queue s) 0" "\<And>t. t \<noteq> 0 \<Longrightarrow> t \<noteq> 1 \<Longrightarrow> bq_pc q t = BOut" using i(3) by simp_all
  show "ctl_inv (s\<lparr>p_queue := q\<rparr>)"
  proof (rule ctl_invI)
    show "storage_ok_at (bq_q (p_queue (s\<lparr>p_queue := q\<rparr>))) (storage (s\<lparr>p_queue := q\<rparr>)) (bq_pc (p_queue (s\<lparr>p_queue := q\<rparr>)) 1)"
      using e i(5) assms(2) by (elim disjE conjE) (simp_all add: storage_ok_at_def bq_must_wait_def)
    show "main_ok (s\<lparr>p_queue := q\<rparr>)" using i(6) q by (simp add: main_ok_def)
  qed (use i pc q in simp_all)
qed

lemma shut_ctl:
  assumes "ctl_inv s" and "main_thread s = Closing" and "bq_step (p_queue s) EShut q"
  shows "ctl_inv (s\<lparr>p_queue := q, main_thread := Freeing\<rparr>)" and "ring_items (bq_q q) = ring_items (bq_q (p_queue s))"
proof -
  note i = ctl_invD [OF assms(1)] and e = shut_exact [OF assms(1,3)]
  have q: "ring_inv (bq_Shutdown (bq_q (p_queue s)))" "bq_IsFull (bq_Shutdown (bq_q (p_queue s))) = bq_IsFull (bq_q (p_queue s))"
      "bq_IsEmpty (bq_Shutdown (bq_q (p_queue s))) = bq_IsEmpty (bq_q (p_queue s))" "bq_shutdown (bq_Shutdown (bq_q (p_queue s)))"
      "bq_queueSize (bq_Shutdown (bq_q (p_queue s))) = bq_queueSize (bq_q (p_queue s))"
    using i(1) by (simp_all add: bq_Shutdown_def ring_inv_def bq_IsFull_def bq_IsEmpty_def)
  show "ring_items (bq_q q) = ring_items (bq_q (p_queue s))" by (simp add: e bq_Shutdown_def ring_items_def)
  show "ctl_inv (s\<lparr>p_queue := q, main_thread := Freeing\<rparr>)"
  proof (rule ctl_invI)
    show "main_ok (s\<lparr>p_queue := q, main_thread := Freeing\<rparr>)" using i(6) q(3,4) assms(2) by (simp add: e main_ok_def Let_def)
    show "storage_ok_at (bq_q (p_queue (s\<lparr>p_queue := q, main_thread := Freeing\<rparr>))) (storage (s\<lparr>p_queue := q, main_thread := Freeing\<rparr>))
        (bq_pc (p_queue (s\<lparr>p_queue := q, main_thread := Freeing\<rparr>)) 1)"
      using i(5) q(3,4) by (auto simp: e storage_ok_at_def split: bpc.split_asm bpc.split)
    show "workload_ok (bq_q (p_queue (s\<lparr>p_queue := q, main_thread := Freeing\<rparr>))) (todo (s\<lparr>p_queue := q, main_thread := Freeing\<rparr>))
        (bq_pc (p_queue (s\<lparr>p_queue := q, main_thread := Freeing\<rparr>)) 0)"
      using i(4) q(2) by (cases "bq_pc (p_queue s) 0") (simp_all add: e workload_ok_def)
  qed (use i(2,3) q in \<open>simp_all add: e\<close>)
qed

lemma storage_outside: "storage_ok_at q p pc \<Longrightarrow> p \<noteq> InPop \<Longrightarrow> pc = BOut"
  by (auto simp: storage_ok_at_def split: bpc.split_asm)

lemma size_empty:
  assumes "ctl_inv s" and "bq_QuerySize (bq_q (p_queue s)) = 0"
  shows "bq_IsEmpty (bq_q (p_queue s))"
proof -
  have "bq_currentSize (bq_q (p_queue s)) < 4294967296"
    using ctl_invD(1,2) [OF assms(1)] by (simp add: ring_inv_def)
  then show ?thesis using assms(2) of_nat_u32_inject [of "bq_currentSize (bq_q (p_queue s))" 0]
    by (simp add: bq_QuerySize_def bq_IsEmpty_def)
qed

lemma ctl_inv_main:
  assumes "ctl_inv s" and "p_queue s' = p_queue s" and "todo s' = todo s" and "storage s' = storage s" and "main_ok s'"
  shows "ctl_inv s'"
  using assms(1,5) unfolding ctl_inv_def assms(2-4) by blast

lemma core_step_ctl:
  assumes "core_step s s'" and "ctl_inv s"
  shows "ctl_inv s'"
  using assms(1)
proof (cases rule: core_step.cases)
  case tests
  have "bq_pc (p_queue s) 1 = BOut" using storage_outside ctl_invD(5) [OF assms(2)] tests(2) by simp
  then show ?thesis using tests ctl_invD [OF assms(2)] by (intro ctl_invI) (auto simp: storage_ok_at_def main_ok_def Let_def)
next
  case (serves io st n)
  have "bq_pc (p_queue s) 1 = BOut" using storage_outside ctl_invD(5) [OF assms(2)] serves(2) by simp
  then show ?thesis using serves ctl_invD [OF assms(2)] by (intro ctl_invI) (auto simp: storage_ok_at_def main_ok_def Let_def)
next
  case sees_empty
  then show ?thesis using size_empty [OF assms(2)] ctl_invD(6) [OF assms(2)]
    by (intro ctl_inv_main [OF assms(2)]) (auto simp: main_ok_def)
next
  case (pushes io ios q)
  then show ?thesis using push_ctl(1) [OF assms(2)] by simp
next
  case (push_blocks io ios q)
  then show ?thesis using block_ctl(1) [OF assms(2)] by simp
next
  case (pop_blocks q)
  then show ?thesis using pop_block_ctl(1) [OF assms(2)] by simp
next
  case (pops r q)
  then show ?thesis using pop_ctl(1) [OF assms(2)] by simp
next
  case (closes q)
  then show ?thesis using shut_ctl(1) [OF assms(2)] by simp
qed (insert ctl_invD(6) [OF assms(2)], (rule ctl_inv_main [OF assms(2)]; auto simp: main_ok_def Let_def))+

lemma wake_exact:
  assumes "ctl_inv s" and "bq_step (p_queue s) (EWake 1) q"
  shows "bq_pc (p_queue s) 1 = PopWaiting" and "q = (p_queue s)\<lparr>bq_pc := (bq_pc (p_queue s))(1 := PopWoken)\<rparr>"
  using assms(2) ctl_inv_pcs(4) [OF assms(1), of 1] by (auto elim!: bq_wakeE)

lemma stray_step_ctl:
  assumes "stray_step s s'" and "ctl_inv s" and "\<not> disturbed s'"
  shows "ctl_inv s'"
  using assms(1)
proof (cases rule: stray_step.cases)
  case (serves_meanwhile io st n st')
  have "bq_pc (p_queue s) 1 = BOut" using storage_outside ctl_invD(5) [OF assms(2)] serves_meanwhile(2) by simp
  then show ?thesis using serves_meanwhile ctl_invD [OF assms(2)] by (intro ctl_invI) (auto simp: storage_ok_at_def main_ok_def Let_def)
next
  case (pop_wakes q)
  note e = wake_exact [OF assms(2) pop_wakes(3)]
  show ?thesis using pop_wakes(1,2) e(1) ctl_invD [OF assms(2)]
    by (intro ctl_invI) (auto simp: e(2) storage_ok_at_def main_ok_def Let_def)
qed (use assms(3) in simp_all)

lemma tier_step_ctl: "tier_step s s' \<Longrightarrow> ctl_inv s \<Longrightarrow> ctl_inv s'"
  by (auto dest!: tier_step_same simp: ctl_inv_def main_ok_def)

lemma program_start_ctl: "n \<noteq> 0 \<Longrightarrow> ctl_inv (program_start n ios st)"
  using CreateBlockingQueue_inv [of n zero_IO] unat_lt2p32 [of n]
  by (intro ctl_invI) (simp_all add: program_start_def Initialize_def workload_ok_def storage_ok_at_def main_ok_def Let_def,
      simp_all add: CreateBlockingQueue_def)

subsection \<open>What has been served\<close>

fun in_hand :: "storage_point \<Rightarrow> IO list" where
  "in_hand (Serving io) = [io]"
| "in_hand _ = []"

text \<open>\<open>sv\<close> is \<open>xs\<close> with \<open>z\<close> requests of zero bytes put in between.\<close>

inductive padded :: "IO list \<Rightarrow> nat \<Rightarrow> IO list \<Rightarrow> bool" where
  padded_nil: "padded [] 0 []"
| padded_io: "padded xs z sv \<Longrightarrow> padded (xs @ [io]) z (sv @ [io])"
| padded_zero: "padded xs z sv \<Longrightarrow> padded xs (Suc z) (sv @ [zero_IO])"

lemma padded_facts:
  assumes "padded xs z sv"
  shows "length sv = length xs + z" and "set sv \<subseteq> insert zero_IO (set xs)" and "set xs \<subseteq> set sv" and "z = 0 \<Longrightarrow> sv = xs"
  using assms by (induction rule: padded.induct) auto

lemma padded_snocD:
  assumes "padded xs z (sv @ [io])"
  shows "(\<exists>ys. xs = ys @ [io] \<and> padded ys z sv) \<or> io = zero_IO \<and> (\<exists>y. z = Suc y \<and> padded xs y sv)"
  using assms by (cases rule: padded.cases) auto

text \<open>
  The requests served are the first ones of the workload, in order, with at most one request of zero bytes for each
  wait of the storage thread that returned early; then at most one more, from a pop after the queue was closed.
\<close>

definition trace_inv :: "IO list \<Rightarrow> StorageSystem \<Rightarrow> Program \<Rightarrow> bool" where
  "trace_inv ios st s \<longleftrightarrow> (\<exists>served firsts z mid zs st1. serve_all served (st, 0) = Inr (st1, p_count s) \<and> same_store st1 (store s) \<and>
     served @ in_hand (storage s) = mid @ zs \<and> padded firsts z mid \<and> ios = firsts @ ring_items (bq_q (p_queue s)) @ todo s \<and>
     z + pending s \<le> early_wakes s \<and> (zs = [] \<or> zs = [zero_IO] \<and> p_sysShutdown s \<and> storage s \<noteq> InPop))"

lemma trace_invI:
  assumes "serve_all served (st, 0) = Inr (st1, p_count s)" and "same_store st1 (store s)"
    and "served @ in_hand (storage s) = mid @ zs" and "padded firsts z mid" and "ios = firsts @ ring_items (bq_q (p_queue s)) @ todo s"
    and "z + pending s \<le> early_wakes s" and "zs = [] \<or> zs = [zero_IO] \<and> p_sysShutdown s \<and> storage s \<noteq> InPop"
  shows "trace_inv ios st s"
  unfolding trace_inv_def using assms by (intro exI conjI)

lemma trace_inv_same:
  assumes "trace_inv ios st s" and "p_count s' = p_count s" and "same_store (store s) (store s')" and "storage s' = storage s"
    and "ring_items (bq_q (p_queue s')) = ring_items (bq_q (p_queue s))" and "todo s' = todo s"
    and "early_wakes s + pending s' \<le> early_wakes s' + pending s" and "p_sysShutdown s \<Longrightarrow> p_sysShutdown s'"
  shows "trace_inv ios st s'"
proof -
  obtain served firsts z mid zs st1 where t: "serve_all served (st, 0) = Inr (st1, p_count s)" "same_store st1 (store s)"
      "served @ in_hand (storage s) = mid @ zs" "padded firsts z mid" "ios = firsts @ ring_items (bq_q (p_queue s)) @ todo s"
      "z + pending s \<le> early_wakes s" "zs = [] \<or> zs = [zero_IO] \<and> p_sysShutdown s \<and> storage s \<noteq> InPop"
    using assms(1) unfolding trace_inv_def by blast
  show ?thesis
    by (rule trace_invI [OF _ _ _ t(4), of served st st1 _ zs]) (use t same_store_trans [OF t(2) assms(3)] assms in auto)
qed

lemma serves_trace:
  assumes "ctl_inv s" and "trace_inv ios st s" and "storage s = Serving io" and "serve_round io (store s, p_count s) = Inr (st2, n)"
    and "same_store st2 st2'" and "s' = s\<lparr>store := st2', p_count := n, storage := LoopTest\<rparr>"
  shows "trace_inv ios st s'"
proof -
  obtain served firsts z mid zs st1 where t: "serve_all served (st, 0) = Inr (st1, p_count s)" "same_store st1 (store s)"
      "served @ in_hand (storage s) = mid @ zs" "padded firsts z mid" "ios = firsts @ ring_items (bq_q (p_queue s)) @ todo s"
      "z + pending s \<le> early_wakes s" "zs = [] \<or> zs = [zero_IO] \<and> p_sysShutdown s \<and> storage s \<noteq> InPop"
    using assms(2) unfolding trace_inv_def by blast
  have "same_result (\<lambda>(a', n) (b', m). n = m \<and> same_store a' b') (serve_round io (st1, p_count s)) (serve_round io (store s, p_count s))"
    by (rule serve_round_same [OF t(2)])
  then obtain st3 where 3: "serve_round io (st1, p_count s) = Inr (st3, n)" "same_store st3 st2"
    using assms(4) by (cases "serve_round io (st1, p_count s)") auto
  show ?thesis
    by (rule trace_invI [of "served @ [io]" st st3 _ mid zs firsts z])
      (use t assms(3,6) 3(1) same_store_trans [OF 3(2) assms(5)] in \<open>auto simp: serve_all_append pending_def\<close>)
qed

lemma core_step_trace:
  assumes "core_step s s'" and "ctl_inv s" and "trace_inv ios st s"
  shows "trace_inv ios st s'"
  using assms(1)
proof (cases rule: core_step.cases)
  case (pushes io rest q)
  obtain served firsts z mid zs st1 where t: "serve_all served (st, 0) = Inr (st1, p_count s)" "same_store st1 (store s)"
      "served @ in_hand (storage s) = mid @ zs" "padded firsts z mid" "ios = firsts @ ring_items (bq_q (p_queue s)) @ todo s"
      "z + pending s \<le> early_wakes s" "zs = [] \<or> zs = [zero_IO] \<and> p_sysShutdown s \<and> storage s \<noteq> InPop"
    using assms(3) unfolding trace_inv_def by blast
  have "\<not> bq_IsEmpty (bq_q q)" using bq_Put_sizes [OF push_exact(2) [OF assms(2) pushes(4)]] by (simp add: bq_IsEmpty_def)
  then have "pending s' = 0" by (simp add: pushes(1) pending_def)
  then show ?thesis
    by (intro trace_invI [OF _ _ _ t(4), of served st st1 _ zs]) (use t pushes push_ctl(2) [OF assms(2) pushes(3,4)] in auto)
next
  case (push_blocks io rest q)
  have "pending s' = pending s" using push_block_exact(3) [OF push_blocks(4,5)] push_blocks(1) by (simp add: pending_def)
  then show ?thesis using trace_inv_same [OF assms(3), of s'] block_ctl(2) [OF assms(2) push_blocks(3-5)] push_blocks(1) by simp
next
  case tests
  obtain served firsts z mid zs st1 where t: "serve_all served (st, 0) = Inr (st1, p_count s)" "same_store st1 (store s)"
      "served @ in_hand (storage s) = mid @ zs" "padded firsts z mid" "ios = firsts @ ring_items (bq_q (p_queue s)) @ todo s"
      "z + pending s \<le> early_wakes s" "zs = [] \<or> zs = [zero_IO] \<and> p_sysShutdown s \<and> storage s \<noteq> InPop"
    using assms(3) unfolding trace_inv_def by blast
  have "bq_pc (p_queue s) 1 = BOut" using storage_outside ctl_invD(5) [OF assms(2)] tests(2) by simp
  then have "pending s' = 0" by (simp add: tests(1) pending_def)
  then show ?thesis by (intro trace_invI [OF _ _ _ t(4), of served st st1 _ zs]) (use t tests in auto)
next
  case (pop_blocks q)
  have "pending s' = 0" using pop_blocks(1,5) by (auto simp: pending_def)
  then show ?thesis using trace_inv_same [OF assms(3), of s'] pop_block_ctl(2) [OF assms(2) pop_blocks(3-5)] pop_blocks(1) by simp
next
  case (pops r q)
  obtain served firsts z mid zs st1 where t: "serve_all served (st, 0) = Inr (st1, p_count s)" "same_store st1 (store s)"
      "served @ in_hand (storage s) = mid @ zs" "padded firsts z mid" "ios = firsts @ ring_items (bq_q (p_queue s)) @ todo s"
      "z + pending s \<le> early_wakes s" "zs = [] \<or> zs = [zero_IO] \<and> p_sysShutdown s \<and> storage s \<noteq> InPop"
    using assms(3) unfolding trace_inv_def by blast
  note p = pop_ctl(2,3) [OF assms(2) pops(4,3)]
  have m: "zs = []" "served = mid" using t(3,7) pops(3) by auto
  have n: "pending s' = 0" by (simp add: pops(1) pending_def)
  show ?thesis
  proof (cases r)
    case None
    show ?thesis
    proof (cases "bq_shutdown (bq_q (p_queue s))")
      case True
      then have "p_sysShutdown s" using ctl_invD(6) [OF assms(2)] by (auto simp: main_ok_def Let_def)
      then show ?thesis
        by (intro trace_invI [of served st st1 _ mid "[zero_IO]" firsts z]) (use t m n p(1) pops(1) None in \<open>simp_all add: got_def\<close>)
    next
      case False
      then have "pending s = 1" using p(2) [OF None] by simp
      then show ?thesis
        by (intro trace_invI [OF _ _ _ padded_zero [OF t(4)], of served st st1 _ "[]"]) (use t m n p(1) pops(1) None in \<open>simp_all add: got_def\<close>)
    qed
  next
    case (Some x)
    then show ?thesis
      by (intro trace_invI [OF _ _ _ padded_io [OF t(4), of x], of served st st1 _ "[]"]) (use t m n p(1) pops(1) in \<open>simp_all add: got_def\<close>)
  qed
next
  case (serves io st2 n)
  show ?thesis by (rule serves_trace [OF assms(2,3) serves(2,3) same_store_refl serves(1)])
next
  case (closes q)
  have "pending s' = 0" using shut_exact [OF assms(2) closes(3)] closes(1) by (simp add: pending_def bq_Shutdown_def)
  then show ?thesis using trace_inv_same [OF assms(3), of s'] shut_ctl(2) [OF assms(2) closes(2,3)] closes(1) by simp
qed (use trace_inv_same [OF assms(3), of s'] in \<open>simp_all add: pending_def\<close>)

lemma stray_step_trace:
  assumes "stray_step s s'" and "ctl_inv s" and "trace_inv ios st s" and "\<not> disturbed s'"
  shows "trace_inv ios st s'"
  using assms(1)
proof (cases rule: stray_step.cases)
  case (serves_meanwhile io st1 n st1')
  show ?thesis by (rule serves_trace [OF assms(2,3) serves_meanwhile(2-4,1)])
next
  case (pop_wakes q)
  note e = wake_exact [OF assms(2) pop_wakes(3)]
  have "pending s' \<le> 1" by (simp add: pending_def)
  then show ?thesis using trace_inv_same [OF assms(3), of s'] pop_wakes(1) e(2) by simp
qed (use assms(4) in simp_all)

lemma tier_step_trace:
  assumes "tier_step s s'" and "trace_inv ios st s"
  shows "trace_inv ios st s'"
proof -
  obtain st1 where "s' = s\<lparr>store := st1\<rparr>" "same_store (store s) st1" using tier_step_same [OF assms(1)] by blast
  then show ?thesis using trace_inv_same [OF assms(2), of s'] by (simp add: pending_def)
qed

subsection \<open>Reachable states\<close>

lemma disturbed_stays:
  assumes "program_step s s'" and "disturbed s"
  shows "disturbed s'"
  using assms unfolding program_step_def
  by (auto elim: core_step.cases tier_step.cases stray_step.cases)

lemma program_step_invs:
  assumes "program_step s s'" and "\<not> disturbed s'" and "ctl_inv s" and "trace_inv ios st s"
  shows "ctl_inv s'" and "trace_inv ios st s'"
  using assms(1) unfolding program_step_def
  using core_step_ctl tier_step_ctl stray_step_ctl core_step_trace tier_step_trace stray_step_trace assms(2-4) by metis+

lemma reachable_invs:
  assumes "program_step\<^sup>*\<^sup>* (program_start n ios st) s" and "n \<noteq> 0" and "\<not> disturbed s"
  shows "ctl_inv s" and "trace_inv ios st s"
proof -
  have "\<not> disturbed s \<longrightarrow> ctl_inv s \<and> trace_inv ios st s" using assms(1)
  proof (induction rule: rtranclp_induct)
    case base
    have "ring_items (Initialize n) = []" using CreateBlockingQueue_inv [OF assms(2), of zero_IO] by (simp add: Initialize_def)
    then have "trace_inv ios st (program_start n ios st)"
      by (intro trace_invI [OF _ _ _ padded_nil, of "[]" st st _ "[]"]) (simp_all add: program_start_def pending_def)
    then show ?case using program_start_ctl [OF assms(2)] by blast
  next
    case (step s1 s2)
    then show ?case using disturbed_stays program_step_invs by blast
  qed
  then show "ctl_inv s" "trace_inv ios st s" using assms(3) by blast+
qed

end
