(* ===== verification/Instance_Runs.thy ===== *)
theory Instance_Runs
  imports Instance_Threads Storage_Properties
begin

text \<open>
  The whole program run to its end: what has been served in any undisturbed state, that no thread waits for ever
  before the queue is freed, and that a run takes a bounded number of steps.
\<close>

subsection \<open>Served in order\<close>

lemma ring_empty: "bq_IsEmpty q \<longleftrightarrow> ring_items q = []"
  by (simp add: bq_IsEmpty_def ring_items_def)

lemma flagged_all:
  assumes "ctl_inv s" and "p_sysShutdown s"
  shows "todo s = []" and "ring_items (bq_q (p_queue s)) = []"
  using ctl_invD(6) [OF assms(1)] assms(2) by (auto simp: main_ok_def Let_def ring_empty)

lemma ended_all:
  assumes "ctl_inv s" and "storage s = Ended"
  shows "todo s = []" and "ring_items (bq_q (p_queue s)) = []"
  using ctl_invD(6) [OF assms(1)] assms(2) flagged_all [OF assms(1)] by (auto simp: main_ok_def Let_def)

lemma ended_flagged: "ctl_inv s \<Longrightarrow> storage s = Ended \<Longrightarrow> p_sysShutdown s"
  by (drule ctl_invD(6)) (auto simp: main_ok_def Let_def)

lemma storage_free: "ctl_inv s \<Longrightarrow> bq_pc (p_queue s) 1 \<noteq> PopChecked \<Longrightarrow> bq_free (bq_pc (p_queue s))"
  using ctl_inv_pcs(3) by metis

text \<open>What has been served is a beginning of the workload, all of it at the end.\<close>

lemma served_prefix:
  assumes "ctl_inv s" and "trace_inv ios st s"
  shows "\<exists>k z mid zs st1. padded (take k ios) z mid \<and> z \<le> early_wakes s \<and> serve_all (mid @ zs) (st, 0) = Inr (st1, p_count s) \<and>
    same_store st1 (store s) \<and> (zs = [] \<or> zs = [zero_IO] \<and> k = length ios) \<and>
    (p_sysShutdown s \<and> in_hand (storage s) = [] \<longrightarrow> k = length ios)"
proof -
  obtain served firsts z mid zs st1 where t: "serve_all served (st, 0) = Inr (st1, p_count s)" "same_store st1 (store s)"
      "served @ in_hand (storage s) = mid @ zs" "padded firsts z mid" "ios = firsts @ ring_items (bq_q (p_queue s)) @ todo s"
      "z + pending s \<le> early_wakes s" "zs = [] \<or> zs = [zero_IO] \<and> p_sysShutdown s \<and> storage s \<noteq> InPop"
    using assms(2) unfolding trace_inv_def by blast
  show ?thesis
  proof (cases "\<exists>io. storage s = Serving io")
    case True
    then obtain io where io: "served @ [io] = mid @ zs" "in_hand (storage s) \<noteq> []" using t(3) by auto
    have "\<exists>k y. padded (take k ios) y served \<and> y \<le> z"
    proof (cases "zs = []")
      case False
      then have "served = mid" using io(1) t(7) by auto
      then show ?thesis using t(4,5) by (intro exI [of _ "length firsts"] exI [of _ z]) simp
    next
      case True
      then have "padded firsts z (served @ [io])" using io(1) t(4) by simp
      from padded_snocD [OF this] show ?thesis
      proof (elim disjE exE conjE)
        fix ys assume "firsts = ys @ [io]" "padded ys z served"
        then show ?thesis using t(5) by (intro exI [of _ "length ys"] exI [of _ z]) simp
      next
        fix y assume "z = Suc y" "padded firsts y served"
        then show ?thesis using t(5) by (intro exI [of _ "length firsts"] exI [of _ y]) simp
      qed
    qed
    then obtain k y where "padded (take k ios) y served" "y \<le> z" by blast
    then show ?thesis using t(1,2,6) io(2)
      by (intro exI [of _ k] exI [of _ y] exI [of _ served] exI [of _ "[]"] exI [of _ st1]) simp
  next
    case False
    then have "in_hand (storage s) = []" by (cases "storage s") auto
    then have sv: "served = mid @ zs" "take (length firsts) ios = firsts" using t(3,5) by simp_all
    have "zs \<noteq> [] \<Longrightarrow> length firsts = length ios" "p_sysShutdown s \<Longrightarrow> length firsts = length ios"
      using t(5,7) flagged_all [OF assms(1)] by auto
    then show ?thesis using t(1,2,4,6,7) sv
      by (intro exI [of _ "length firsts"] exI [of _ z] exI [of _ mid] exI [of _ zs] exI [of _ st1]) auto
  qed
qed

text \<open>What is still to be served.\<close>

definition to_serve :: "Program \<Rightarrow> IO list" where
  "to_serve s = in_hand (storage s) @ ring_items (bq_q (p_queue s)) @ todo s"

lemma serve_all_prefix: "serve_all (xs @ ys) acc = Inr r \<Longrightarrow> \<exists>r'. serve_all xs acc = Inr r' \<and> serve_all ys r' = Inr r"
  by (simp add: serve_all_append fault_iff)

text \<open>
  The requests served and those still to be served: the workload, in order, with requests of zero bytes in between,
  at most one for each early return and one at the end.
\<close>

abbreviation with_op :: "IO list \<Rightarrow> IO list" where
  "with_op xs \<equiv> [io \<leftarrow> xs. io_op io \<noteq> None]"

lemma padded_with_op: "padded xs z sv \<Longrightarrow> with_op sv = with_op xs"
  by (induction rule: padded.induct) (auto simp: zero_IO_def)

lemma all_requests:
  assumes "trace_inv ios st s"
  obtains served st1 where "serve_all served (st, 0) = Inr (st1, p_count s)" and "same_store st1 (store s)"
    and "set (served @ to_serve s) \<subseteq> insert zero_IO (set ios)" and "with_op (served @ to_serve s) = with_op ios"
    and "length ios \<le> length (served @ to_serve s)" and "length (served @ to_serve s) \<le> length ios + early_wakes s + 1"
proof -
  obtain served firsts z mid zs st1 where t: "serve_all served (st, 0) = Inr (st1, p_count s)" "same_store st1 (store s)"
      "served @ in_hand (storage s) = mid @ zs" "padded firsts z mid" "ios = firsts @ ring_items (bq_q (p_queue s)) @ todo s"
      "z + pending s \<le> early_wakes s" "zs = [] \<or> zs = [zero_IO] \<and> p_sysShutdown s \<and> storage s \<noteq> InPop"
    using assms unfolding trace_inv_def by blast
  have e: "served @ to_serve s = mid @ zs @ ring_items (bq_q (p_queue s)) @ todo s" using t(3) by (simp add: to_serve_def)
  have z: "set zs \<subseteq> {zero_IO}" "with_op zs = []" "length zs \<le> 1" using t(7) by (auto simp: zero_IO_def)
  note p = padded_facts [OF t(4)] padded_with_op [OF t(4)]
  show ?thesis
  proof (rule that [OF t(1,2)])
    show "set (served @ to_serve s) \<subseteq> insert zero_IO (set ios)" unfolding e t(5) using p(2) z(1) by auto
    show "with_op (served @ to_serve s) = with_op ios" unfolding e t(5) using p(5) z(2) by simp
    show "length ios \<le> length (served @ to_serve s)" "length (served @ to_serve s) \<le> length ios + early_wakes s + 1"
      unfolding e t(5) using p(1) z(3) t(6) by simp_all
  qed
qed

lemma serve_all_same:
  "same_store a b \<Longrightarrow> same_result (\<lambda>(a', n) (b', m). n = m \<and> same_store a' b') (serve_all ios (a, c)) (serve_all ios (b, c))"
proof (induction ios arbitrary: a b c)
  case (Cons io ios)
  show ?case unfolding serve_all.simps by (rule same_result_bind [OF serve_round_same [OF Cons.prems]]) (auto intro: Cons.IH)
qed simp

text \<open>So what is left to be served is served if all of it together is.\<close>

lemma rest_served:
  assumes "serve_all served (st, 0) = Inr (st1, p_count s)" and "same_store st1 (store s)"
  shows "same_result (\<lambda>(a, n) (b, m). n = m \<and> same_store a b) (serve_all (served @ to_serve s @ zs) (st, 0))
    (serve_all (to_serve s @ zs) (store s, p_count s))"
  using serve_all_same [OF assms(2), of "to_serve s @ zs" "p_count s"] by (simp add: serve_all_append [of served] assms(1))

subsection \<open>No deadlock before the queue is freed\<close>

lemma signalled_exists: "\<exists>pc'. signalled waiting wake pc pc'"
  by (rule exI [of _ "\<lambda>t. if t \<in> {t. waiting (pc t)} then wake (pc t) else pc t"]) (auto simp: signalled_def)

lemma can_push:
  assumes "ctl_inv s" and "todo s = io # ios" and "bq_pc (p_queue s) 1 \<noteq> PopChecked" and "\<not> bq_IsFull (bq_q (p_queue s))"
  shows "\<exists>q. bq_step (p_queue s) (EPush 0 io) q"
proof -
  note i = ctl_invD [OF assms(1)]
  have free: "bq_free (bq_pc (p_queue s))" using storage_free [OF assms(1,3)] .
  have "ring_room (bq_q (p_queue s))" using i(1) assms(4) by (simp add: ring_room_def ring_inv_def bq_IsFull_def)
  then obtain q' where q': "bq_Put (bq_q (p_queue s)) io = Inr q'" using bq_Put_spec [OF i(1)] by blast
  have pc: "bq_pc (p_queue s) 0 = BOut \<or> bq_pc (p_queue s) 0 = PushWoken io"
    using i(4) assms(2,4) by (auto simp: workload_ok_def split: bpc.split_asm)
  obtain pc' where "signal_pop ((bq_pc (p_queue s))(0 := BOut)) pc'" using signalled_exists by blast
  moreover have "(bq_pc (p_queue s))(0 := BOut) = bq_pc (p_queue s)" if "bq_pc (p_queue s) 0 = BOut"
    using that by (simp add: fun_upd_idem)
  ultimately show ?thesis
    using pc bq_push [OF free _ assms(4) q'] bq_push_resume [OF free _ q'] by metis
qed

lemma can_pop:
  assumes "ctl_inv s" and "storage s = InPop" and "\<not> q_freed s" and "bq_pc (p_queue s) 1 \<noteq> PopWaiting"
  shows "\<exists>s'. core_step s s'"
proof -
  note i = ctl_invD [OF assms(1)]
  let ?q = "bq_q (p_queue s)" and ?pc = "bq_pc (p_queue s)"
  obtain r q' where t: "bq_Take ?q = Inr (r, q')" using bqi.pop_total [OF i(1)] by blast
  consider "?pc 1 = BOut" | "?pc 1 = PopChecked" | "?pc 1 = PopWoken"
    using i(5) assms(4) by (auto simp: storage_ok_at_def split: bpc.split_asm)
  then show ?thesis
  proof cases
    case 1
    then have free: "bq_free ?pc" using storage_free [OF assms(1)] by simp
    show ?thesis
    proof (cases "bq_must_wait ?q")
      case True
      let ?q1 = "(p_queue s)\<lparr>bq_pc := ?pc(1 := PopChecked)\<rparr>"
      have "bq_step (p_queue s) (EBlock 1) ?q1" by (rule bq_check [OF free 1 True])
      then have "core_step s (s\<lparr>p_queue := ?q1\<rparr>)" by (rule pop_blocks [OF assms(3,2)]) simp
      then show ?thesis by blast
    next
      case False
      obtain pc' where "signal_push ?pc pc'" using signalled_exists by blast
      then show ?thesis using pops [OF assms(3,2) bq_pop [OF free 1 False t]] by blast
    qed
  next
    case 2
    let ?q1 = "(p_queue s)\<lparr>bq_pc := ?pc(1 := PopWaiting)\<rparr>"
    have "bq_step (p_queue s) (EBlock 1) ?q1" by (rule bq_wait [OF 2])
    then have "core_step s (s\<lparr>p_queue := ?q1\<rparr>)" by (rule pop_blocks [OF assms(3,2)]) simp
    then show ?thesis by blast
  next
    case 3
    then have free: "bq_free ?pc" using storage_free [OF assms(1)] by simp
    obtain pc' where "signal_push (?pc(1 := BOut)) pc'" using signalled_exists by blast
    then show ?thesis using pops [OF assms(3,2) bq_pop_resume [OF free 3 t]] by blast
  qed
qed

lemma main_moves:
  assumes "ctl_inv s" and "todo s = []" and "bq_IsEmpty (bq_q (p_queue s))" and "main_thread s \<notin> {Joining, Joined}"
  shows "\<exists>s'. core_step s s'"
proof (cases "main_thread s")
  case Polling
  then show ?thesis using sees_empty [of s] assms(3) by (auto simp: bq_QuerySize_def bq_IsEmpty_def)
next
  case Closing
  then show ?thesis using closes [OF Closing bq_shut] by blast
qed (use assms in \<open>auto intro: core_step.intros\<close>)

lemma no_deadlock:
  assumes "ctl_inv s" and "\<And>io. storage s = Serving io \<Longrightarrow> \<exists>st n. serve_round io (store s, p_count s) = Inr (st, n)"
  shows "main_thread s = Joined \<or> (\<exists>s'. core_step s s') \<or> q_freed s \<and> storage s = InPop"
proof (cases "storage s")
  case LoopTest
  then show ?thesis using tests by blast
next
  case (Serving io)
  then show ?thesis using assms(2) serves by blast
next
  case Ended
  note e = ended_all [OF assms(1) Ended]
  have "bq_IsEmpty (bq_q (p_queue s))" using e(2) by (simp add: ring_empty)
  then show ?thesis using main_moves [OF assms(1) e(1)] joins_storage [OF _ Ended] by blast
next
  case InPop
  note i = ctl_invD [OF assms(1)]
  show ?thesis
  proof (cases "q_freed s \<or> bq_pc (p_queue s) 1 \<noteq> PopWaiting")
    case True
    then show ?thesis using can_pop [OF assms(1) InPop] InPop by blast
  next
    case False
    then have w: "\<not> q_freed s" "bq_pc (p_queue s) 1 = PopWaiting" by blast+
    then have e: "bq_IsEmpty (bq_q (p_queue s))" using i(5) by (simp add: storage_ok_at_def)
    show ?thesis
    proof (cases "todo s")
      case Nil
      have "main_thread s \<notin> {Joining, Joined}" using w(1) i(6) by (auto simp: main_ok_def Let_def)
      then show ?thesis using main_moves [OF assms(1) Nil e] by blast
    next
      case (Cons io ios)
      have "\<not> bq_IsFull (bq_q (p_queue s))" using e i(1) by (simp add: bq_IsEmpty_def bq_IsFull_def ring_inv_def)
      then show ?thesis using can_push [OF assms(1) Cons] w pushes [OF w(1) Cons] by auto
    qed
  qed
qed

subsection \<open>A run takes boundedly many steps\<close>

definition queue_weight :: "Program \<Rightarrow> nat" where
  "queue_weight s = 9 * length (todo s) + (if bq_pc (p_queue s) 0 = BOut then 1 else 0) + 7 * bq_currentSize (bq_q (p_queue s))"

fun storage_weight :: "bool \<Rightarrow> storage_point \<Rightarrow> IO bpc \<Rightarrow> nat" where
  "storage_weight flag LoopTest pc = (if flag then 1 else 6)"
| "storage_weight flag InPop pc = (if pc = BOut then 5 else if pc = PopChecked then 4 else 3)"
| "storage_weight flag (Serving io) pc = (if flag then 2 else 7)"
| "storage_weight flag Ended pc = 0"

fun main_weight :: "main_point \<Rightarrow> nat" where
  "main_weight JoinWorkload = 6" | "main_weight Polling = 5" | "main_weight Flagging = 4" | "main_weight Closing = 3"
| "main_weight Freeing = 2" | "main_weight Joining = 1" | "main_weight Joined = 0"

definition work_left :: "Program \<Rightarrow> nat" where
  "work_left s = queue_weight s + storage_weight (p_sysShutdown s) (storage s) (bq_pc (p_queue s) 1) + 5 * pending s +
     main_weight (main_thread s)"

lemma storage_weight_woken:
  "storage_weight flag p (if pc = PopWaiting then PopWoken else pc) = storage_weight flag p pc"
  "storage_weight flag p PopWoken = storage_weight flag p PopWaiting"
  by (cases p; auto)+

lemma core_step_works:
  assumes "core_step s s'" and "ctl_inv s"
  shows "work_left s' < work_left s"
  using assms(1)
proof (cases rule: core_step.cases)
  case (pushes io ios q)
  note e = push_exact [OF assms(2) pushes(4)]
  have z: "bq_currentSize (bq_q q) = Suc (bq_currentSize (bq_q (p_queue s)))" using bq_Put_sizes [OF e(2)] by blast
  then have "pending s' = 0" by (simp add: pushes(1) pending_def bq_IsEmpty_def)
  then show ?thesis using pushes(1,3) z by (simp add: work_left_def queue_weight_def e(4) storage_weight_woken)
next
  case (push_blocks io ios q)
  note e = push_block_exact [OF push_blocks(4,5)]
  show ?thesis using push_blocks(1) e(1) by (simp add: work_left_def queue_weight_def pending_def e(3))
next
  case tests
  have "bq_pc (p_queue s) 1 = BOut" using storage_outside ctl_invD(5) [OF assms(2)] tests(2) by simp
  then show ?thesis using tests by (simp add: work_left_def queue_weight_def pending_def)
next
  case (pop_blocks q)
  have "pending s' = 0" using pop_blocks(1,5) by (auto simp: pending_def)
  then show ?thesis using pop_block_exact [OF pop_blocks(4,5)] pop_blocks(1,3)
    by (elim disjE conjE) (simp_all add: work_left_def queue_weight_def)
next
  case (pops r q)
  note e = pop_exact [OF assms(2) pops(4)] and p = pop_ctl(3) [OF assms(2) pops(4,3)]
  note z = bq_Take_sizes [OF e(2)]
  have w: "bq_pc q 0 = BOut \<longleftrightarrow> bq_pc (p_queue s) 0 = BOut" using e(3) by (cases "bq_pc (p_queue s) 0") simp_all
  have st: "storage_weight (p_sysShutdown s) InPop (bq_pc (p_queue s) 1) \<ge> 3" by simp
  have n: "pending s' = 0" by (simp add: pops(1) pending_def)
  show ?thesis
  proof (cases "r = None")
    case True
    have "bq_shutdown (bq_q (p_queue s)) \<longrightarrow> p_sysShutdown s" using ctl_invD(6) [OF assms(2)] by (auto simp: main_ok_def Let_def)
    then have "p_sysShutdown s \<or> pending s = 1" using p [OF True] by blast
    then show ?thesis using True pops(1,3) z w st n by (auto simp: work_left_def queue_weight_def)
  next
    case False
    then have "bq_currentSize (bq_q (p_queue s)) = Suc (bq_currentSize (bq_q q))" using z by simp
    then show ?thesis using pops(1,3) w st n by (simp add: work_left_def queue_weight_def)
  qed
next
  case (closes q)
  note e = shut_exact [OF assms(2) closes(3)]
  have "pending s' = 0" by (simp add: closes(1) e pending_def bq_Shutdown_def)
  then show ?thesis using closes(1,2)
    by (simp add: work_left_def queue_weight_def storage_weight_woken bq_Shutdown_def e)
next
  case flags
  have "storage_weight True p pc \<le> storage_weight False p pc" for p pc by (cases p) simp_all
  then have "storage_weight True (storage s) (bq_pc (p_queue s) 1) \<le> storage_weight (p_sysShutdown s) (storage s) (bq_pc (p_queue s) 1)"
    by (cases "p_sysShutdown s") simp_all
  then show ?thesis using flags by (simp add: work_left_def queue_weight_def pending_def)
qed (auto simp: work_left_def queue_weight_def pending_def)

text \<open>Between its steps, the other steps of the program: they add work only by waking the storage thread early.\<close>

definition between :: "Program \<Rightarrow> Program \<Rightarrow> bool" where
  "between s s' \<longleftrightarrow> tier_step s s' \<or> stray_step s s'"

lemma between_work:
  assumes "between s s'" and "ctl_inv s" and "\<not> disturbed s'"
  shows "ctl_inv s' \<and> work_left s' + 5 * early_wakes s \<le> work_left s + 5 * early_wakes s'"
  using assms(1) unfolding between_def
proof
  assume t: "tier_step s s'"
  then have "work_left s' = work_left s" "early_wakes s' = early_wakes s"
    by (auto dest!: tier_step_same simp: work_left_def queue_weight_def pending_def)
  then show ?thesis using tier_step_ctl [OF t assms(2)] by simp
next
  assume t: "stray_step s s'"
  show ?thesis using t
  proof (cases rule: stray_step.cases)
    case (serves_meanwhile io st n st')
    then show ?thesis using stray_step_ctl [OF t assms(2,3)] by (simp add: work_left_def queue_weight_def pending_def)
  next
    case (pop_wakes q)
    note e = wake_exact [OF assms(2) pop_wakes(3)]
    have "pending s' \<le> 1" by (simp add: pending_def)
    then show ?thesis using stray_step_ctl [OF t assms(2,3)] pop_wakes(1,2) e(1)
      by (simp add: e(2) work_left_def queue_weight_def)
  qed (use assms(3) in simp_all)
qed

lemma between_disturbed: "between s s' \<Longrightarrow> disturbed s \<Longrightarrow> disturbed s'"
  using disturbed_stays [of s s'] by (auto simp: between_def program_step_def)

lemma between_steps:
  assumes "between\<^sup>*\<^sup>* s s'" and "ctl_inv s" and "\<not> disturbed s'"
  shows "ctl_inv s' \<and> work_left s' + 5 * early_wakes s \<le> work_left s + 5 * early_wakes s'"
  using assms(1,3)
proof (induction rule: rtranclp_induct)
  case (step s1 s2)
  then have "\<not> disturbed s1" using between_disturbed by blast
  then show ?case using step between_work [of s1 s2] by fastforce
qed (use assms(2) in simp)

lemma core_step_recorded: "core_step s s' \<Longrightarrow> disturbed s' = disturbed s \<and> early_wakes s' = early_wakes s"
  by (erule core_step.cases) simp_all

lemma steps_bounded:
  assumes "((between\<^sup>*\<^sup>* OO core_step) ^^ k) s s'" and "ctl_inv s" and "\<not> disturbed s'"
  shows "ctl_inv s' \<and> work_left s' + k + 5 * early_wakes s \<le> work_left s + 5 * early_wakes s'"
  using assms(1,3)
proof (induction k arbitrary: s')
  case (Suc k)
  then obtain s1 s2 where s: "((between\<^sup>*\<^sup>* OO core_step) ^^ k) s s1" "between\<^sup>*\<^sup>* s1 s2" "core_step s2 s'"
    by (auto elim!: relcomppE)
  have d: "\<not> disturbed s2" "early_wakes s' = early_wakes s2" using core_step_recorded [OF s(3)] Suc.prems(2) by simp_all
  have "disturbed s1 \<Longrightarrow> disturbed s2" using s(2) by (induction rule: rtranclp_induct) (auto dest: between_disturbed)
  then have "ctl_inv s1" "work_left s1 + k + 5 * early_wakes s \<le> work_left s + 5 * early_wakes s1" using Suc.IH [OF s(1)] d(1) by blast+
  then show ?case using between_steps [OF s(2) _ d(1)] core_step_works [OF s(3)] core_step_ctl [OF s(3)] d(2) by fastforce
qed (use assms(2) in auto)

subsection \<open>To the end\<close>

text \<open>How many requests of zero bytes the storage thread may still get.\<close>

definition zeros_due :: "Program \<Rightarrow> nat" where
  "zeros_due s = (if p_sysShutdown s \<and> storage s \<noteq> InPop then 0 else if pending s = 1 \<and> todo s = [] then 2 else 1)"

lemma pending_range: "pending s = 0 \<or> pending s = 1"
  by (simp add: pending_def)

lemma pendingD: "pending s = 1 \<Longrightarrow> storage s = InPop \<and> bq_pc (p_queue s) 1 = PopWoken \<and> bq_IsEmpty (bq_q (p_queue s))"
  unfolding pending_def by presburger

text \<open>A step leaves what is to be served, or serves it, or is a pop that gets nothing.\<close>

lemma core_step_rest:
  assumes "core_step s s'" and "ctl_inv s"
  shows "(\<forall>zs. serve_all (to_serve s' @ zs) (store s', p_count s') = serve_all (to_serve s @ zs) (store s, p_count s)) \<and>
      zeros_due s' \<le> zeros_due s \<or>
    (\<exists>io. storage s' = Serving io) \<and> to_serve s = todo s \<and> to_serve s' = zero_IO # todo s \<and> store s' = store s \<and> p_count s' = p_count s \<and>
      (todo s = [] \<longrightarrow> zeros_due s' < zeros_due s) \<and> (pending s \<noteq> 1 \<longrightarrow> todo s = [])"
  using assms(1)
proof (cases rule: core_step.cases)
  case (pushes io ios q)
  have "\<not> bq_IsEmpty (bq_q q)" using bq_Put_sizes [OF push_exact(2) [OF assms(2) pushes(4)]] by (simp add: bq_IsEmpty_def)
  then have "pending s' = 0" by (simp add: pushes(1) pending_def)
  then show ?thesis using pushes(1,3) push_ctl(2) [OF assms(2) pushes(3,4)] by (simp add: to_serve_def zeros_due_def)
next
  case (push_blocks io ios q)
  have "pending s' = pending s" using push_block_exact(3) [OF push_blocks(4,5)] push_blocks(1) by (simp add: pending_def)
  then show ?thesis using push_blocks(1) block_ctl(2) [OF assms(2) push_blocks(3-5)] by (simp add: to_serve_def zeros_due_def)
next
  case tests
  have "bq_pc (p_queue s) 1 = BOut" using storage_outside ctl_invD(5) [OF assms(2)] tests(2) by simp
  then show ?thesis using tests by (simp add: to_serve_def zeros_due_def pending_def)
next
  case (pop_blocks q)
  have "pending s' = 0" using pop_blocks(1,5) by (auto simp: pending_def)
  then show ?thesis using pop_blocks(1,3) pop_block_ctl(2) [OF assms(2) pop_blocks(3-5)] by (simp add: to_serve_def zeros_due_def)
next
  case (pops r q)
  note p = pop_ctl(2,3) [OF assms(2) pops(4,3)]
  have n: "pending s' = 0" by (simp add: pops(1) pending_def)
  show ?thesis
  proof (cases r)
    case None
    have "bq_shutdown (bq_q (p_queue s)) \<longrightarrow> p_sysShutdown s" using ctl_invD(6) [OF assms(2)] by (auto simp: main_ok_def Let_def)
    moreover have "p_sysShutdown s \<Longrightarrow> todo s = []" using flagged_all [OF assms(2)] by blast
    moreover have "bq_IsEmpty (bq_q (p_queue s))" using bq_Take_sizes [OF pop_exact(2) [OF assms(2) pops(4)]] None
      by (simp add: bq_IsEmpty_def)
    then have "ring_items (bq_q (p_queue s)) = []" "ring_items (bq_q q) = []" using p(1) None by (simp_all add: ring_empty)
    ultimately show ?thesis using None p(2) pops(1,3) n pending_range [of s]
      by (auto simp: to_serve_def zeros_due_def got_def)
  next
    case (Some x)
    then show ?thesis using p(1) pops(1,3) n by (simp add: to_serve_def zeros_due_def got_def)
  qed
next
  case (serves io st n)
  then show ?thesis by (simp add: to_serve_def zeros_due_def pending_def)
next
  case (closes q)
  have "pending s' = 0" using shut_exact [OF assms(2) closes(3)] closes(1) by (simp add: pending_def bq_Shutdown_def)
  then show ?thesis using closes(1) shut_ctl(2) [OF assms(2) closes(2,3)] by (simp add: to_serve_def zeros_due_def)
qed (simp_all add: to_serve_def zeros_due_def pending_def)

lemma end_flagged:
  assumes "ctl_inv s" and "main_thread s = Joined \<or> q_freed s \<and> storage s = InPop"
  shows "p_sysShutdown s \<and> in_hand (storage s) = []"
proof -
  have m: "main_ok s" by (rule ctl_invD(6) [OF assms(1)])
  from assms(2) show ?thesis
  proof
    assume "main_thread s = Joined"
    then show ?thesis using m by (simp add: main_ok_def Let_def)
  next
    assume "q_freed s \<and> storage s = InPop"
    then show ?thesis using m by (auto simp: main_ok_def Let_def)
  qed
qed

lemma end_rest: "ctl_inv s \<Longrightarrow> main_thread s = Joined \<or> q_freed s \<and> storage s = InPop \<Longrightarrow> to_serve s = []"
  using end_flagged flagged_all by (simp add: to_serve_def)

text \<open>Before a pop that would get nothing, the workload thread can push, if it has something left.\<close>

lemma good_step:
  assumes "ctl_inv s" and "\<And>io. storage s = Serving io \<Longrightarrow> \<exists>st n. serve_round io (store s, p_count s) = Inr (st, n)"
    and "\<not> (main_thread s = Joined \<or> q_freed s \<and> storage s = InPop)"
  shows "\<exists>s'. core_step s s' \<and> (pending s = 1 \<and> todo s \<noteq> [] \<longrightarrow> storage s' = InPop)"
proof (cases "pending s = 1 \<and> todo s \<noteq> []")
  case True
  then obtain io ios where c: "todo s = io # ios" by (auto simp: neq_Nil_conv)
  have p: "bq_pc (p_queue s) 1 = PopWoken" "bq_IsEmpty (bq_q (p_queue s))" "storage s = InPop"
    using True pendingD [of s] by blast+
  have "\<not> bq_IsFull (bq_q (p_queue s))" using p(2) ctl_invD(1) [OF assms(1)] by (simp add: bq_IsEmpty_def bq_IsFull_def ring_inv_def)
  then obtain q where "bq_step (p_queue s) (EPush 0 io) q" using can_push [OF assms(1) c] p(1) by auto
  moreover have "\<not> q_freed s" using assms(3) p(3) by blast
  ultimately have "core_step s (s\<lparr>p_queue := q, todo := ios\<rparr>)" using pushes [OF _ c] by blast
  then show ?thesis using p(3) by (intro exI [of _ "s\<lparr>p_queue := q, todo := ios\<rparr>"]) simp
next
  case False
  then show ?thesis using no_deadlock [OF assms(1,2)] assms(3) by blast
qed

text \<open>From every state the threads get to the end, or to the freed queue, and there everything has been served.\<close>

lemma runs_to_end:
  assumes "ctl_inv s" and "zeros_due s \<le> j" and "serve_all (to_serve s @ replicate j zero_IO) (store s, p_count s) = Inr r"
  shows "\<exists>s' z. core_step\<^sup>*\<^sup>* s s' \<and> (main_thread s' = Joined \<or> q_freed s' \<and> storage s' = InPop) \<and> z \<le> j \<and>
    serve_all (to_serve s @ replicate z zero_IO) (store s, p_count s) = Inr (store s', p_count s')"
  using assms
proof (induction "work_left s" arbitrary: s j r rule: less_induct)
  case less
  show ?case
  proof (cases "main_thread s = Joined \<or> q_freed s \<and> storage s = InPop")
    case True
    then show ?thesis using end_rest [OF less.prems(1)] by (intro exI [of _ s] exI [of _ 0]) simp
  next
    case False
    have sv: "\<exists>st n. serve_round io (store s, p_count s) = Inr (st, n)" if "storage s = Serving io" for io
      using less.prems(3) that by (auto simp: to_serve_def fault_iff)
    obtain s1 where s1: "core_step s s1" "pending s = 1 \<and> todo s \<noteq> [] \<longrightarrow> storage s1 = InPop"
      using good_step [OF less.prems(1) sv False] by blast
    note go = less.hyps [OF core_step_works [OF s1(1) less.prems(1)] core_step_ctl [OF s1(1) less.prems(1)]]
    from core_step_rest [OF s1(1) less.prems(1)] show ?thesis
    proof (elim disjE conjE)
      assume r: "\<forall>zs. serve_all (to_serve s1 @ zs) (store s1, p_count s1) = serve_all (to_serve s @ zs) (store s, p_count s)"
        and z: "zeros_due s1 \<le> zeros_due s"
      obtain s' y where "core_step\<^sup>*\<^sup>* s1 s'" "main_thread s' = Joined \<or> q_freed s' \<and> storage s' = InPop" "y \<le> j"
          "serve_all (to_serve s1 @ replicate y zero_IO) (store s1, p_count s1) = Inr (store s', p_count s')"
        using go [of j r] z less.prems(2,3) r by fastforce
      then show ?thesis using s1(1) r by (intro exI [of _ s'] exI [of _ y]) (simp add: converse_rtranclp_into_rtranclp)
    next
      assume i: "\<exists>io. storage s1 = Serving io" "to_serve s = todo s" "to_serve s1 = zero_IO # todo s" "store s1 = store s"
        "p_count s1 = p_count s" "todo s = [] \<longrightarrow> zeros_due s1 < zeros_due s" and "pending s \<noteq> 1 \<longrightarrow> todo s = []"
      then have t: "todo s = []" using s1(2) by auto
      then obtain i1 where i1: "j = Suc i1" "zeros_due s1 \<le> i1" using i(6) less.prems(2) by (cases j) auto
      obtain s' y where "core_step\<^sup>*\<^sup>* s1 s'" "main_thread s' = Joined \<or> q_freed s' \<and> storage s' = InPop" "y \<le> i1"
          "serve_all (to_serve s1 @ replicate y zero_IO) (store s1, p_count s1) = Inr (store s', p_count s')"
        using go [of i1 r] i1 less.prems(3) i(2-5) t by fastforce
      then show ?thesis using s1(1) i(2-5) t i1(1)
        by (intro exI [of _ s'] exI [of _ "Suc y"]) (simp add: converse_rtranclp_into_rtranclp)
    qed
  qed
qed

lemma zeros_due_le: "zeros_due s \<le> 2"
  by (simp add: zeros_due_def)

lemma all_gets_done:
  assumes "ctl_inv s" and "serve_all served (st, 0) = Inr (st1, p_count s)" and "same_store st1 (store s)"
    and "serve_all (served @ to_serve s @ replicate 2 zero_IO) (st, 0) = Inr r"
  shows "\<exists>s' z st2. core_step\<^sup>*\<^sup>* s s' \<and> (main_thread s' = Joined \<or> q_freed s' \<and> storage s' = InPop) \<and> z \<le> 2 \<and>
    serve_all (served @ to_serve s @ replicate z zero_IO) (st, 0) = Inr (st2, p_count s') \<and> same_store st2 (store s')"
proof -
  note same = rest_served [OF assms(2,3)]
  obtain r' where "serve_all (to_serve s @ replicate 2 zero_IO) (store s, p_count s) = Inr r'"
    using same [of "replicate 2 zero_IO"] assms(4) by (cases "serve_all (to_serve s @ replicate 2 zero_IO) (store s, p_count s)") auto
  from runs_to_end [OF assms(1) zeros_due_le this] obtain s' z where s': "core_step\<^sup>*\<^sup>* s s'"
      "main_thread s' = Joined \<or> q_freed s' \<and> storage s' = InPop" "z \<le> 2"
      "serve_all (to_serve s @ replicate z zero_IO) (store s, p_count s) = Inr (store s', p_count s')" by blast
  obtain st2 where "serve_all (served @ to_serve s @ replicate z zero_IO) (st, 0) = Inr (st2, p_count s')" "same_store st2 (store s')"
    using same [of "replicate z zero_IO"] s'(4) by (cases "serve_all (served @ to_serve s @ replicate z zero_IO) (st, 0)") auto
  then show ?thesis using s'(1-3) by blast
qed

lemma core_steps_program: "core_step\<^sup>*\<^sup>* s s' \<Longrightarrow> program_step\<^sup>*\<^sup>* s s'"
  by (rule rtranclp_mono [THEN predicate2D]) (auto simp: program_step_def)

lemma start_bounded:
  assumes "n \<noteq> 0" and "((between\<^sup>*\<^sup>* OO core_step) ^^ k) (program_start n ios st) s" and "\<not> disturbed s"
  shows "k \<le> 9 * length ios + 14 + 5 * early_wakes s"
proof -
  have "work_left (program_start n ios st) \<le> 9 * length ios + 14"
    by (simp add: work_left_def queue_weight_def program_start_def Initialize_def CreateBlockingQueue_def pending_def)
  moreover have "early_wakes (program_start n ios st) = 0" by (simp add: program_start_def)
  ultimately show ?thesis using steps_bounded [OF assms(2) program_start_ctl [OF assms(1)] assms(3)] by linarith
qed

subsection \<open>The freed queue\<close>

text \<open>The default length of the queue.\<close>

abbreviation FLAGS_workloadQSize :: u32 where "FLAGS_workloadQSize \<equiv> 128"

text \<open>With nothing to do the storage thread waits in \<open>pop\<close>; it is woken, and the queue is gone.\<close>

lemma woken_in_freed_queue:
  "\<exists>s. core_step\<^sup>*\<^sup>* (program_start FLAGS_workloadQSize [] st) s \<and> q_freed s \<and> storage s = InPop \<and> bq_pc (p_queue s) 1 = PopWoken"
proof -
  define s0 where "s0 = program_start FLAGS_workloadQSize [] st"
  define q where "q = bq_q (p_queue s0)"
  have s0: "todo s0 = []" "storage s0 = LoopTest" "\<not> p_sysShutdown s0" "main_thread s0 = JoinWorkload" "\<not> q_freed s0"
      "p_queue s0 = \<lparr>bq_q = q, bq_pc = (\<lambda>_. BOut)\<rparr>" "bq_must_wait q" "bq_QuerySize q = 0"
    by (simp_all add: s0_def q_def program_start_def Initialize_def CreateBlockingQueue_def bq_must_wait_def bq_IsEmpty_def bq_QuerySize_def)
  define s1 where "s1 = s0\<lparr>storage := InPop\<rparr>"
  define s2 where "s2 = s1\<lparr>p_queue := \<lparr>bq_q = q, bq_pc = (\<lambda>_. BOut)(1 := PopChecked)\<rparr>\<rparr>"
  define s3 where "s3 = s2\<lparr>p_queue := \<lparr>bq_q = q, bq_pc = (\<lambda>_. BOut)(1 := PopWaiting)\<rparr>\<rparr>"
  define s4 where "s4 = s3\<lparr>main_thread := Polling\<rparr>"
  define s5 where "s5 = s4\<lparr>main_thread := Flagging\<rparr>"
  define s6 where "s6 = s5\<lparr>p_sysShutdown := True, main_thread := Closing\<rparr>"
  define s7 where "s7 = s6\<lparr>p_queue := \<lparr>bq_q = bq_Shutdown q, bq_pc = (\<lambda>_. BOut)(1 := PopWoken)\<rparr>, main_thread := Freeing\<rparr>"
  define s8 where "s8 = s7\<lparr>q_freed := True, main_thread := Joining\<rparr>"
  note d = s8_def s7_def s6_def s5_def s4_def s3_def s2_def s1_def
  have 1: "core_step s0 s1" using tests [of s0] s0(2,3) by (simp add: s1_def)
  have "bq_step (p_queue s1) (EBlock 1) (p_queue s2)"
    using bq_check [of "p_queue s1" 1] s0(6,7) by (simp add: s2_def s1_def)
  from pop_blocks [OF _ _ this] have 2: "core_step s1 s2" using s0(5) by (simp add: s2_def s1_def)
  have "bq_step (p_queue s2) (EBlock 1) (p_queue s3)"
    using bq_wait [of "p_queue s2" 1] by (simp add: s3_def s2_def)
  from pop_blocks [OF _ _ this] have 3: "core_step s2 s3" using s0(5) by (simp add: s3_def s2_def s1_def)
  have 4: "core_step s3 s4" using joins_workload [of s3] s0(1,4) by (simp add: s4_def s3_def s2_def s1_def)
  have 5: "core_step s4 s5" using sees_empty [of s4] s0(8) by (simp add: s5_def s4_def s3_def)
  have 6: "core_step s5 s6" using flags [of s5] by (simp add: s6_def s5_def)
  have "broadcast (\<lambda>p. p = PopWaiting) (\<lambda>_. PopWoken) ((\<lambda>_. BOut)(1 := PopWaiting)) = (\<lambda>_. BOut)(1 := PopWoken :: IO bpc)"
    by (auto simp: broadcast_def fun_eq_iff)
  then have "bq_step (p_queue s6) EShut (p_queue s7)"
    using bq_shut [of "p_queue s6"] by (simp add: s7_def s6_def s5_def s4_def s3_def)
  from closes [OF _ this] have 7: "core_step s6 s7" by (simp add: s7_def s6_def)
  have 8: "core_step s7 s8" using frees [of s7] by (simp add: s8_def s7_def)
  have "core_step\<^sup>*\<^sup>* s0 s8"
    using 1 2 3 4 5 6 7 8 by (meson converse_rtranclp_into_rtranclp rtranclp.rtrancl_refl)
  moreover have "q_freed s8" "storage s8 = InPop" "bq_pc (p_queue s8) 1 = PopWoken" by (simp_all add: d)
  ultimately show ?thesis unfolding s0_def by blast
qed

subsection \<open>Properties\<close>

text \<open>C3: The running program serves its workload as one thread would. Whatever workload, storage, tier-down and main
  thread do and in whatever order, as long as the tier-down thread clears nothing that \<open>HandleTierDown\<close> is using and no
  wait in \<open>push\<close> returns without a signal (\<open>disturbed\<close> is false): what has been done to the store is to serve a
  first part of the requests one after the other, with their reports, and among them one request of zero bytes for
  some of the waits in \<open>pop\<close> that returned without a signal; once the storage thread has ended it is all of them. At most
  one more request of zero bytes follows, from closing the queue.\<close>

theorem requests_served_in_order:
  assumes "n \<noteq> 0" and "program_step\<^sup>*\<^sup>* (program_start n ios st) s" and "\<not> disturbed s"
  shows "\<exists>k z mid zs st1. padded (take k ios) z mid \<and> z \<le> early_wakes s \<and>
    serve_all (mid @ zs) (st, 0) = Inr (st1, p_count s) \<and> same_store st1 (store s) \<and>
    (zs = [] \<or> zs = [zero_IO] \<and> k = length ios) \<and> (storage s = Ended \<longrightarrow> k = length ios)"
proof -
  note i = reachable_invs [OF assms(2,1,3)]
  have "storage s = Ended \<longrightarrow> p_sysShutdown s \<and> in_hand (storage s) = []" using ended_flagged [OF i(1)] by auto
  then show ?thesis using served_prefix [OF i] by blast
qed

lemma small_program:
  "\<exists>st r. CreateStorageSystemInstance 0 0 0 0 [] small_flags = Inr st \<and> serve_all [a_write, zero_IO, zero_IO] (st, 0) = Inr r"
proof -
  obtain st where st: "CreateStorageSystemInstance 0 0 0 0 [] small_flags = Inr st" "storage_ok st" "writable 0 (sys st)"
      "targets (ioScheduler st) = {0}" "diskOp (tier_at (sys st) 0) = None"
    using small_instance by blast
  obtain ok st1 where "Storage_WriteHostIO a_write st = Inr (ok, st1)"
    using Storage_WriteHostIO_alone [OF st(2,3,5,4), of a_write] by blast
  then have "serve_all [a_write, zero_IO, zero_IO] (st, 0) = Inr (st1, 3)"
    by (simp add: serve_round_def serve_io_def a_write_def zero_IO_def Let_def word_unat_eq_iff unat_div)
  then show ?thesis using st(1) by blast
qed

lemma small_run:
  assumes "serve_all [a_write, zero_IO, zero_IO] (st, 0) = Inr r"
  shows "\<exists>s. core_step\<^sup>*\<^sup>* (program_start 128 [a_write] st) s \<and> (main_thread s = Joined \<or> q_freed s \<and> storage s = InPop)"
proof -
  let ?s = "program_start 128 [a_write] st"
  have "ring_items (Initialize 128) = []" using CreateBlockingQueue_inv [of 128 zero_IO] by (simp add: Initialize_def)
  then have "to_serve ?s @ replicate 2 zero_IO = [a_write, zero_IO, zero_IO]" by (simp add: to_serve_def program_start_def numeral_2_eq_2)
  moreover have "store ?s = st" "p_count ?s = 0" by (simp_all add: program_start_def)
  ultimately show ?thesis using runs_to_end [OF program_start_ctl [of 128] zeros_due_le, of "[a_write]" st r] assms by auto
qed

lemma core_steps_recorded: "core_step\<^sup>*\<^sup>* s s' \<Longrightarrow> disturbed s' = disturbed s \<and> early_wakes s' = early_wakes s"
  by (induction rule: rtranclp_induct) (auto dest: core_step_recorded)

theorem requests_served_in_order_witness:
  "\<exists>st s k mid zs st1. CreateStorageSystemInstance 0 0 0 0 [] small_flags = Inr st \<and>
     core_step\<^sup>*\<^sup>* (program_start 128 [a_write] st) s \<and> (main_thread s = Joined \<or> q_freed s \<and> storage s = InPop) \<and>
     padded (take k [a_write]) 0 mid \<and> serve_all (mid @ zs) (st, 0) = Inr (st1, p_count s) \<and> same_store st1 (store s)"
proof -
  obtain st r where st: "CreateStorageSystemInstance 0 0 0 0 [] small_flags = Inr st" "serve_all [a_write, zero_IO, zero_IO] (st, 0) = Inr r"
    using small_program by auto
  from small_run [OF st(2)] obtain s where s: "core_step\<^sup>*\<^sup>* (program_start 128 [a_write] st) s"
      "main_thread s = Joined \<or> q_freed s \<and> storage s = InPop" by blast
  have d: "\<not> disturbed s" "early_wakes s = 0" using core_steps_recorded [OF s(1)] by (simp_all add: program_start_def)
  have "(128 :: u32) \<noteq> 0" by simp
  then have "\<exists>k z mid zs st1. padded (take k [a_write]) z mid \<and> z \<le> early_wakes s \<and>
      serve_all (mid @ zs) (st, 0) = Inr (st1, p_count s) \<and> same_store st1 (store s) \<and>
      (zs = [] \<or> zs = [zero_IO] \<and> k = length [a_write]) \<and> (storage s = Ended \<longrightarrow> k = length [a_write])"
    by (rule requests_served_in_order [OF _ core_steps_program [OF s(1)] d(1)])
  then obtain k z mid zs st1 where "padded (take k [a_write]) z mid" "z \<le> early_wakes s"
      "serve_all (mid @ zs) (st, 0) = Inr (st1, p_count s)" "same_store st1 (store s)" by blast
  moreover have "z = 0" using calculation(2) d(2) by simp
  ultimately show ?thesis using st(1) s by blast
qed

text \<open>C4: No thread waits for ever before the queue is freed. From every reachable state that is not disturbed, if
  what is left of the workload and two requests of zero bytes can be served one after the other, the threads get to
  a state where all of it has been served, in order, with at most two requests of zero bytes behind it,
  and the program is at its end, or the queue has been freed while the storage thread is in \<open>pop\<close>. However the
  threads are scheduled, the workload, storage and main thread take at most 9 steps for each request and 14 more,
  and 5 for each wait in \<open>pop\<close> that returns without a signal.\<close>

theorem program_gets_done:
  assumes "n \<noteq> 0" and "program_step\<^sup>*\<^sup>* (program_start n ios st) s" and "\<not> disturbed s"
    and "serve_all (to_serve s @ [zero_IO, zero_IO]) (store s, p_count s) = Inr r"
  shows "(\<exists>s' z. core_step\<^sup>*\<^sup>* s s' \<and> (main_thread s' = Joined \<or> q_freed s' \<and> storage s' = InPop) \<and> z \<le> 2 \<and>
      serve_all (to_serve s @ replicate z zero_IO) (store s, p_count s) = Inr (store s', p_count s')) \<and>
    (\<forall>k s'. ((between\<^sup>*\<^sup>* OO core_step) ^^ k) (program_start n ios st) s' \<longrightarrow> \<not> disturbed s' \<longrightarrow>
      k \<le> 9 * length ios + 14 + 5 * early_wakes s')"
proof -
  have "replicate 2 zero_IO = [zero_IO, zero_IO]" by (simp add: numeral_2_eq_2)
  then show ?thesis
    using runs_to_end [OF reachable_invs(1) [OF assms(2,1,3)] zeros_due_le, of r] assms(4) start_bounded [OF assms(1)] by auto
qed

theorem program_gets_done_witness:
  "\<exists>st s'. CreateStorageSystemInstance 0 0 0 0 [] small_flags = Inr st \<and> core_step\<^sup>*\<^sup>* (program_start 128 [a_write] st) s' \<and>
     (q_freed s' \<and> storage s' = InPop \<or> main_thread s' = Joined)"
proof -
  obtain st r where st: "CreateStorageSystemInstance 0 0 0 0 [] small_flags = Inr st" "serve_all [a_write, zero_IO, zero_IO] (st, 0) = Inr r"
    using small_program by auto
  let ?s = "program_start 128 [a_write] st"
  have "ring_items (Initialize 128) = []" using CreateBlockingQueue_inv [of 128 zero_IO] by (simp add: Initialize_def)
  then have "to_serve ?s @ [zero_IO, zero_IO] = [a_write, zero_IO, zero_IO]" "store ?s = st" "p_count ?s = 0" "\<not> disturbed ?s"
    by (simp_all add: to_serve_def program_start_def)
  with program_gets_done [of 128 "[a_write]" st ?s r] st show ?thesis by fastforce
qed

text \<open>C37: Closing the instance can use freed memory: \<open>WaitForStorageSystemInstance\<close> frees the queue before it joins
  the storage thread, which is then woken inside \<open>pop\<close> of that queue, even if there never was a request.\<close>

theorem queue_freed_in_use:
  "\<exists>s. core_step\<^sup>*\<^sup>* (program_start FLAGS_workloadQSize [] st) s \<and> q_freed s \<and> storage s = InPop \<and>
     bq_pc (p_queue s) 1 = PopWoken"
  by (rule woken_in_freed_queue)

end
