(* ===== verification/Layer_Room.thy ===== *)
theory Layer_Room
  imports Layer_Alone
begin

text \<open>
  How long a tier without a disk can be written to. A write takes one page of the open block, and
  giving pages up to the tier-down thread takes none back: without a collection the room of the tier (\<open>host_room\<close>)
  falls by one with every write. As long as it exceeds the water level of the collection, every write returns.
\<close>

subsection \<open>Deleting pages leaves the room alone\<close>

lemma delete_pages_cursor:
  "delete_pages gc ps = Inr (locs, gc') \<Longrightarrow> pageCursor (get_block gc' x) = pageCursor (get_block gc x)"
  by (induction gc ps arbitrary: locs rule: delete_pages.induct) (auto simp: fault_iff GC_Delete_cursor)

lemma delete_pages_room:
  assumes "gc_inv gc" and "distinct (map tp_lba ps)"
    and "\<And>p. p \<in> set ps \<Longrightarrow> tp_lba p \<in> dom (space_abs gc) \<and> page_align (tp_lba p) = tp_lba p"
    and "delete_pages gc ps = Inr (locs, gc')"
  shows "host_room gc' = host_room gc"
proof -
  have "freeQ gc' = freeQ gc" "hostBlock gc' = hostBlock gc" using delete_pages_spec [OF assms(1-3)] assms(4) by auto
  then show ?thesis using delete_pages_cursor [OF assms(4)] by (simp add: host_room_def split: option.split)
qed

subsection \<open>A write takes one page\<close>

definition with_room :: "nat \<Rightarrow> nat \<Rightarrow> nat \<Rightarrow> System \<Rightarrow> bool" where
  "with_room l w k s \<longleftrightarrow> alone l s \<and> host_room (gcModule (tier_at s l)) = k \<and> unat (gcWL (tier_at s l)) = w"

lemma with_room_quiet: "with_room l w k s \<Longrightarrow> quiet s s' \<Longrightarrow> with_room l w k s'"
  using alone_quiet [of l s s'] quiet_core(1,3) [of s s' l] settings_fields(2) [of "tier_at s' l" "tier_at s l"]
  by (auto simp: with_room_def quiet_def alone_def)

lemma with_room_stat: "with_room l w k s \<Longrightarrow> with_room l w k (set_stat l f s)"
  using alone_set_stat [of l s f] by (simp add: with_room_def alone_def) (simp add: set_stat_def)

lemma with_room_no_gc:
  assumes "with_room l w k s" and "PAGE_NUM_PER_BLOCK * (w + 1) \<le> k"
  shows "\<not> GCCondition (tier_at s l)"
proof -
  have s: "layer_ok (tier_at s l)" "diskOp (tier_at s l) = None" "host_room (gcModule (tier_at s l)) = k" "unat (gcWL (tier_at s l)) = w"
    using assms(1) by (simp_all add: with_room_def alone_def)
  have "w \<le> free_blocks (tier_at s l)"
    using host_room_bound [of "gcModule (tier_at s l)"] s(3) assms(2) by (simp add: free_blocks_def)
  then show ?thesis using unat_free_blocks [OF s(1)] s(2,4) by (simp add: GCCondition_def word_less_nat_alt)
qed

lemma look_room:
  assumes "with_room l w k s" and "\<And>s'. with_room l w k s' \<Longrightarrow> \<exists>b. c s' = Inr b"
  shows "returns (look c s) (\<lambda>(b, s'). with_room l w k s' \<and> c s' = Inr b)"
proof -
  obtain s' where s': "breathe s = Inr s'" "quiet s s'" using breathe_quiet [of s] assms(1) by (auto simp: with_room_def alone_def)
  then show ?thesis using assms with_room_quiet by (fastforce simp: look_def)
qed

lemma slow_down_room:
  assumes "with_room l w k s" and "\<And>s'. with_room l w k s' \<Longrightarrow> \<exists>b. c s' = Inr b"
  shows "returns (slow_down l c bump s) (with_room l w k)"
  unfolding slow_down_def
proof (rule returns_bind [OF look_room [OF assms]], assumption, clarify)
  fix b s1 assume s1: "with_room l w k s1"
  obtain s2 where s2: "breathe s1 = Inr s2" "quiet s1 s2" using breathe_quiet [of s1] s1 by (auto simp: with_room_def alone_def)
  show "returns (if b then bindE (breathe s1) (\<lambda>s2. Inr (set_stat l bump s2)) else Inr s1) (with_room l w k)"
    using s1 s2 with_room_stat [OF with_room_quiet [OF s1 s2(2)]] by simp
qed

lemma stall_room:
  assumes "with_room l w k s" and "\<And>s'. alone l s' \<Longrightarrow> c s' = Inr False"
  shows "returns (stall l c bump s) (with_room l w k)"
proof -
  have "alone l s" using assms(1) by (simp add: with_room_def)
  then obtain s' where "stall l c bump s = Inr s'" "quiet s s'"
    using stall_quiet_alone [of l s c bump] assms(2) by blast
  then show ?thesis using with_room_quiet [OF assms(1)] by simp
qed

lemma HandleTierDown_room:
  assumes "with_room l w k s"
  shows "returns (HandleTierDown l s) (\<lambda>(ok, ps, n, s'). host_room (gcModule (tier_at s' l)) = k)"
proof -
  let ?t = "tier_at s l"
  let ?n = "GetLogicalSizeOccupied (gcModule ?t) - tierDownWL ?t + tierDownBlockCnt ?t * 512"
  have a: "alone l s" and r: "host_room (gcModule ?t) = k" using assms by (simp_all add: with_room_def)
  have g: "gc_inv (gcModule ?t)" and ti: "tier_inv (tierModule ?t)" and d: "dom (freq_abs (tierModule ?t)) = stored ?t"
    and al: "\<forall>k \<in> stored ?t. page_align k = k" using a by (simp_all add: alone_def layer_ok_def)
  have dk: "diskOp ?t = None" "l < length (tiers s)" using a by (simp_all add: alone_def)
  show ?thesis
  proof (cases "unat ?n \<le> card (dom (freq_abs (tierModule ?t)))")
    case True
    from tier_down_spec [OF ti this] obtain ps tm where td: "tier_down (unat ?n) (tierModule ?t) = Inr (ps, tm)"
       "distinct (map tp_lba ps)" "\<forall>p \<in> set ps. freq_abs (tierModule ?t) (tp_lba p) = Some (tp_freq p)" by blast
    have on: "tp_lba p \<in> dom (space_abs (gcModule ?t)) \<and> page_align (tp_lba p) = tp_lba p" if "p \<in> set ps" for p
    proof -
      have "tp_lba p \<in> stored ?t" using td(3) that d by blast
      then show ?thesis using al by (simp add: stored_def)
    qed
    from delete_pages_spec [OF g td(2) on] obtain locs gc where dp: "delete_pages (gcModule ?t) ps = Inr (locs, gc)" by blast
    have "submit_all l ios (set_tier l (?t\<lparr>gcModule := a, tierModule := b, statModule := c\<rparr>) s) =
        Inr (set_tier l (?t\<lparr>gcModule := a, tierModule := b, statModule := c\<rparr>) s)" for ios a b c
      by (induction ios) (use dk in \<open>simp_all add: submit_def\<close>)
    then show ?thesis
      using td(1) dp dk(2) delete_pages_room [OF g td(2) on dp] r by (simp add: HandleTierDown_def Let_def Tier_TierDown_def)
  next
    case False
    then have "tier_down (unat ?n) (tierModule ?t) = Inl ExitFailure" using tier_down_too_many [OF ti] by simp
    then show ?thesis by (simp add: HandleTierDown_def Let_def Tier_TierDown_def)
  qed
qed

lemma WriteHostIO_room:
  assumes "with_room l w (Suc k) s" and "PAGE_NUM_PER_BLOCK * (w + 1) \<le> k"
  shows "returns (WriteHostIO l io old s) (\<lambda>(ok, out, s'). host_room (gcModule (tier_at s' l)) = k)"
proof -
  have a: "l < length (tiers s)" "layer_ok (tier_at s l)" "diskOp (tier_at s l) = None" "disks_ok s"
      "host_room (gcModule (tier_at s l)) = Suc k" "unat (gcWL (tier_at s l)) = w"
    using assms(1) by (simp_all add: with_room_def alone_def)
  obtain loc gc tm where wm: "write_modules l (io_lba io) (io_length io) old True s =
        Inr (loc, set_tier l ((tier_at s l)\<lparr>gcModule := gc, tierModule := tm\<rparr>) s)"
      "layer_ok ((tier_at s l)\<lparr>gcModule := gc, tierModule := tm\<rparr>)" "host_room gc = k"
    using write_modules_spec [OF a(1) refl a(2), of "io_lba io" "io_length io" old True] a(5) by auto
  define t1 where "t1 = (tier_at s l)\<lparr>gcModule := gc, tierModule := tm\<rparr>"
  have s1: "with_room l w k (set_tier l t1 s)"
    using a wm(2,3) disks_ok_set_tier by (simp add: with_room_def alone_def t1_def)
  have td: "returns (bindE (look (\<lambda>x. Inr (TierDownCondition l x)) s9) (\<lambda>(tierdown, s10).
      if tierdown then bindE (HandleTierDown l s10) (\<lambda>(ok, ps, n, s11). Inr (ok, Some (ps, n), s11))
      else Inr (True, None, s10))) (\<lambda>(ok, out, s'). host_room (gcModule (tier_at s' l)) = k)" if "with_room l w k s9" for s9
  proof (rule returns_bind [OF look_room [OF that]], blast, clarify)
    fix b s10 assume s10: "with_room l w k s10"
    have "returns (bindE (HandleTierDown l s10) (\<lambda>(ok, ps, n, s11). Inr (ok, Some (ps, n), s11)))
        (\<lambda>(ok, out, s'). host_room (gcModule (tier_at s' l)) = k)"
      by (rule returns_bind [OF HandleTierDown_room [OF s10]]) auto
    then show "returns (if b then bindE (HandleTierDown l s10) (\<lambda>(ok, ps, n, s11). Inr (ok, Some (ps, n), s11))
      else Inr (True, None, s10)) (\<lambda>(ok, out, s'). host_room (gcModule (tier_at s' l)) = k)"
      using s10 by (simp add: with_room_def)
  qed
  have rest: "returns (bindE (look (\<lambda>x. Inr (GCCondition (tier_at x l))) s7) (\<lambda>(g, s8).
      bindE (if g then HandleGC l s8 else Inr s8) (\<lambda>s9.
      bindE (look (\<lambda>x. Inr (TierDownCondition l x)) s9) (\<lambda>(tierdown, s10).
      if tierdown then bindE (HandleTierDown l s10) (\<lambda>(ok, ps, n, s11). Inr (ok, Some (ps, n), s11))
      else Inr (True, None, s10))))) (\<lambda>(ok, out, s'). host_room (gcModule (tier_at s' l)) = k)" if "with_room l w k s7" for s7
    by (rule returns_bind [OF look_room [OF that]], blast) (use with_room_no_gc [OF _ assms(2)] td in auto)
  have sl: "returns (slow_down l c bump s') (with_room l w k)"
    if "with_room l w k s'" "\<And>s'. with_room l w k s' \<Longrightarrow> \<exists>b. c s' = Inr b" for c bump s'
    using that by (rule slow_down_room)
  have sta: "returns (stall l c bump s') (with_room l w k)" if "with_room l w k s'" "\<And>s'. alone l s' \<Longrightarrow> c s' = Inr False" for c bump s'
    using that by (rule stall_room)
  have obs: "\<exists>b. Inr (f s') = (Inr b :: fault + bool)" for f :: "System \<Rightarrow> bool" and s' by blast
  have obs2: "\<exists>b. TierDownSlowStallCondition l wl s' = Inr b" if "with_room l w k s'" for wl s'
    using TierDownSlowStall_alone that unfolding with_room_def by blast
  have gcs: "Inr (GCStallCondition (tier_at s' l)) = (Inr False :: fault + bool)" if "alone l s'" for s'
    using that by (simp add: GCStallCondition_def alone_def)
  have sub: "returns (submit l io' s') (with_room l w k)" if "with_room l w k s'" for io' s'
    using that by (simp add: with_room_def)
  show ?thesis
    unfolding WriteHostIO_def WriteHostIO_by_def Let_def wm(1) [folded t1_def] bindE_simps prod.case DiskWrite_def
      TierDownSlowCondition_def TierDownStallCondition_def
    by (intro returns_bind [where P = "with_room l w k"] sl sta obs obs2 gcs TierDownSlowStall_alone sub s1 rest with_room_stat)
qed

end
