(* ===== verification/Instance_Fresh.thy ===== *)
theory Instance_Fresh
  imports Instance_Runs Layer_Room
begin

text \<open>
  The program from the configuration to the end, without disks: a fresh store can serve as many writes
  as there are pages above the water level of the collection, whatever the pages are.
\<close>

subsection \<open>Writes to the store\<close>

text \<open>A store that writes only to tier 0, which has no disk and room for \<open>k\<close> pages; \<open>w\<close> is its \<open>gcWL\<close>.\<close>

definition fit :: "nat \<Rightarrow> nat \<Rightarrow> StorageSystem \<Rightarrow> bool" where
  "fit w k st \<longleftrightarrow> storage_ok st \<and> targets (ioScheduler st) = {0} \<and> sized (tier_at (sys st) 0) \<and> with_room 0 w k (sys st)"

abbreviation needed :: "nat \<Rightarrow> nat" where
  "needed w \<equiv> PAGE_NUM_PER_BLOCK * max 2 (w + 1)"

lemma fit_writable:
  assumes "fit w k st" and "needed w < k"
  shows "writable 0 (sys st)"
proof -
  let ?t = "tier_at (sys st) 0"
  have "k \<le> PAGE_NUM_PER_BLOCK + PAGE_NUM_PER_BLOCK * free_blocks ?t"
    using host_room_bound [of "gcModule ?t"] assms(1) by (simp add: fit_def with_room_def free_blocks_def)
  moreover define m where "m = max 2 (w + 1)"
  ultimately have "m \<le> free_blocks ?t" using assms(2) unfolding m_def [symmetric] by linarith
  then have "2 \<le> free_blocks ?t \<and> w < free_blocks ?t" by (auto simp: m_def)
  then show ?thesis using assms(1) by (simp add: writable_def spacious_above fit_def with_room_def)
qed

lemma fit_write:
  assumes "fit w (Suc k) st" and "needed w \<le> k"
  shows "\<exists>ok st'. Storage_WriteHostIO io st = Inr (ok, st') \<and> fit w k st' \<and> placed (page_align (io_lba io)) 0 st st'"
proof -
  let ?s = "sys st"
  have st: "storage_ok st" "targets (ioScheduler st) = {0}" "sized (tier_at ?s 0)" "with_room 0 w (Suc k) ?s"
    using assms(1) by (simp_all add: fit_def)
  have wr: "writable 0 ?s" using fit_writable [OF assms(1)] assms(2) by simp
  have s: "diskOp (tier_at ?s 0) = None" using st(4) by (simp add: with_room_def alone_def)
  obtain ok st' where w: "Storage_WriteHostIO io st = Inr (ok, st')" "storage_ok st'" "ioScheduler st' = ioScheduler st"
      "placed (page_align (io_lba io)) 0 st st'"
    using Storage_WriteHostIO_alone [OF st(1) wr s st(2)] by blast
  obtain ok1 out s1 where h: "WriteHostIO 0 io zero_freq ?s = Inr (ok1, out, s1)"
      "settings (tier_at (sys st') 0) = settings (tier_at ?s 0)" "nblocks (gcModule (tier_at (sys st') 0)) = nblocks (gcModule (tier_at ?s 0))"
      "gcModule (tier_at (sys st') 0) = gcModule (tier_at s1 0)"
    using Storage_write_tier0 [OF st(1,2) wr w(1)] by blast
  have "PAGE_NUM_PER_BLOCK * (w + 1) \<le> k" using assms(2) by simp
  then have rk: "host_room (gcModule (tier_at (sys st') 0)) = k" using WriteHostIO_room [OF st(4), of io zero_freq] h(1,4) by simp
  note f = settings_fields [OF h(2)]
  have "alone 0 (sys st')" using w(2) f(8) s by (simp add: alone_def storage_ok_def store_ok_def)
  moreover have "unat (gcWL (tier_at (sys st') 0)) = w" using f(2) st(4) by (simp add: with_room_def)
  moreover have "sized (tier_at (sys st') 0)" using st(3) f h(3) by (simp add: sized_def)
  ultimately have "fit w k st'" using w(2,3) st(2) rk by (simp add: fit_def with_room_def)
  then show ?thesis using w(1,4) by blast
qed

subsection \<open>A workload of writes\<close>

lemma count_stays: "unat c + 1 < 100000 \<Longrightarrow> (c + 1) div IO_TIMES = 0 \<and> unat (c + 1) = unat c + 1" for c :: u32
  using unat_inc32 [of c] by (simp add: word_unat_eq_iff unat_div)

lemma writes_served:
  assumes "\<forall>io \<in> set ios. io_op io \<noteq> Some READ" and "fit w (length (with_op ios) + k) st" and "needed w \<le> k"
    and "unat c + length ios < 100000"
  shows "\<exists>st' c'. serve_all ios (st, c) = Inr (st', c') \<and> unat c' = unat c + length ios \<and> fit w k st' \<and>
    holds 0 st' \<subseteq> holds 0 st \<union> (page_align \<circ> io_lba) ` set (with_op ios) \<and> holds 1 st' = holds 1 st - (page_align \<circ> io_lba) ` set (with_op ios)"
  using assms
proof (induction ios arbitrary: st c)
  case (Cons io ios)
  have c: "(c + 1) div IO_TIMES = 0" "unat (c + 1) = unat c + 1" using count_stays [of c] Cons.prems(4) by simp_all
  note IH = Cons.IH [OF _ _ Cons.prems(3), of _ "c + 1"]
  show ?case
  proof (cases "io_op io")
    case None
    then have "serve_round io (st, c) = Inr (st, c + 1)" using c by (simp add: serve_round_def serve_io_def)
    moreover obtain st' c' where "serve_all ios (st, c + 1) = Inr (st', c')" "unat c' = unat (c + 1) + length ios" "fit w k st'"
        "holds 0 st' \<subseteq> holds 0 st \<union> (page_align \<circ> io_lba) ` set (with_op ios)" "holds 1 st' = holds 1 st - (page_align \<circ> io_lba) ` set (with_op ios)"
      using IH [of st] Cons.prems c(2) None by auto
    ultimately show ?thesis using None c(2) by (intro exI [of _ st'] exI [of _ c']) simp
  next
    case (Some op)
    then have op: "io_op io = Some WRITE" using Cons.prems(1) by (cases op) simp_all
    have "fit w (Suc (length (with_op ios) + k)) st" "needed w \<le> length (with_op ios) + k" using Cons.prems(2,3) op by simp_all
    from fit_write [OF this] obtain ok st1 where 1: "Storage_WriteHostIO io st = Inr (ok, st1)" "fit w (length (with_op ios) + k) st1"
        "placed (page_align (io_lba io)) 0 st st1" by blast
    have "serve_round io (st, c) = Inr (st1, c + 1)" using op 1(1) c by (simp add: serve_round_def serve_io_def)
    moreover obtain st' c' where "serve_all ios (st1, c + 1) = Inr (st', c')" "unat c' = unat (c + 1) + length ios" "fit w k st'"
        "holds 0 st' \<subseteq> holds 0 st1 \<union> (page_align \<circ> io_lba) ` set (with_op ios)" "holds 1 st' = holds 1 st1 - (page_align \<circ> io_lba) ` set (with_op ios)"
      using IH [of st1] Cons.prems(1,4) c(2) 1(2) by auto
    moreover have "holds 0 st1 \<subseteq> insert (page_align (io_lba io)) (holds 0 st)" "holds 1 st1 = holds 1 st - {page_align (io_lba io)}"
      using 1(3) by (auto simp: placed_def)
    ultimately show ?thesis using op c(2) by (intro exI [of _ st'] exI [of _ c']) auto
  qed
qed simp

subsection \<open>A configured instance\<close>

lemma sane_fit:
  assumes "sane fl" and "\<not> FLAGS_enableFlush fl" and "CreateStorageSystemInstance j1 j2 behind t fut fl = Inr st"
  shows "\<exists>k. nat (FLAGS_t0BlockCount fl) * 512 \<le> k \<and> fit (nat (FLAGS_t0BlockCount fl * FLAGS_gcWaterLevel fl div 100)) k st"
    and "holds 0 st = {}" and "holds 1 st = {}"
proof -
  let ?n = "FLAGS_t0BlockCount fl"
  obtain st0 where st0: "CreateStorageSystemInstance j1 j2 behind t fut fl = Inr st0" "storage_ok st0" "holds 0 st0 = {}" "holds 1 st0 = {}"
      "writable 0 (sys st0)" "ioScheduler st0 = CreateIOScheduler j1 j2 (schedulerConf (instance_conf fl))"
      "diskOp (tier_at (sys st0) 0) = None \<longleftrightarrow> \<not> FLAGS_enableFlush fl"
    using sane_instance [OF assms(1), of j1 j2 behind t fut] by (elim exE conjE) (rule that)
  have e: "st0 = st" using st0(1) assms(3) by simp
  show "holds 0 st = {}" "holds 1 st = {}" using st0(3,4) e by simp_all
  have conf: "layerConf (instance_conf fl) = [layer0Conf fl, layer1Conf fl]" by (simp add: instance_conf_def)
  have "\<not> idealEnable (schedulerConf (instance_conf fl))"
      "normalEnable (schedulerConf (instance_conf fl)) \<longrightarrow> lm_needDiskOperation (layer1Conf fl)"
    using assms(1) by (simp_all add: instance_conf_def layer1Conf_def sane_def Let_def)
  then obtain st1 where st1: "CreateStorageSystem j1 j2 behind t fut (instance_conf fl) = Inr st1"
      "fresh_tier (layer0Conf fl) (tier_at (sys st1) 0)"
    using CreateStorageSystem_spec [OF conf sane_creatable [OF assms(1)], of j1 j2 behind t fut] by blast
  then have "st1 = st" using assms(3) by (simp add: CreateStorageSystemInstance_def)
  then have f: "free_blocks (tier_at (sys st) 0) = unat (totalBlockCnt (lm_gcConf (layer0Conf fl)))"
      "gcWL (tier_at (sys st) 0) = lm_gcWL (layer0Conf fl)"
    using st1(2) by (simp_all add: fresh_tier_def)
  have r: "100 \<le> ?n" "?n \<le> 4000000" "0 \<le> FLAGS_gcWaterLevel fl" "FLAGS_gcWaterLevel fl \<le> 100"
    using assms(1) by (auto simp: sane_def)
  have "unat (of_int ?n :: u32) = nat ?n" using r by (intro unat_of_int32) simp_all
  then have fb: "free_blocks (tier_at (sys st) 0) = nat ?n" using f(1) by (simp add: layer0Conf_def gc_conf_def Let_def)
  have wl: "unat (gcWL (tier_at (sys st) 0)) = nat (?n * FLAGS_gcWaterLevel fl div 100)"
    using f(2) percent(1) [of ?n "FLAGS_gcWaterLevel fl"] r by (simp add: layer0Conf_def Let_def)
  define k where "k = host_room (gcModule (tier_at (sys st) 0))"
  have "PAGE_NUM_PER_BLOCK * free_blocks (tier_at (sys st) 0) \<le> k" by (simp add: k_def host_room_def free_blocks_def)
  then have "nat ?n * 512 \<le> k" using fb by simp
  moreover have "targets (ioScheduler st) = {0}"
    using st0(6) e assms(1,2) by (auto simp: targets_def CreateIOScheduler_def instance_conf_def sane_def)
  moreover have "alone 0 (sys st)" using st0(2,7) e assms(2) by (simp add: alone_def storage_ok_def store_ok_def)
  moreover have "sized (tier_at (sys st) 0)" using st0(5) e by (simp add: writable_def)
  ultimately show "\<exists>k. nat ?n * 512 \<le> k \<and> fit (nat (?n * FLAGS_gcWaterLevel fl div 100)) k st"
    using st0(2) e wl k_def by (intro exI [of _ k]) (simp add: fit_def with_room_def)
qed

text \<open>C7: A program configured with sane flags and without disks does its whole workload of writes, as long
  as the pages written, each time counted, fit above the water level of the collection and no report is due:
  whatever state the threads have reached, provided that the tier-down thread has cleared nothing \<open>HandleTierDown\<close> was
  using and no push has returned from its wait unsignalled, they get to one where all requests have been served and
  the program is at its end, or the queue has been freed while the storage thread is in \<open>pop\<close>. The store
  is then consistent, tier 1 is empty, and tier 0 holds pages of the workload only. Each wait in \<open>pop\<close> that returned
  without a signal may count one more request towards the report.\<close>

theorem fresh_instance_gets_done:
  assumes "sane fl" and "\<not> FLAGS_enableFlush fl" and "CreateStorageSystemInstance j1 j2 behind t fut fl = Inr st"
    and "\<forall>io \<in> set ios. io_op io = Some WRITE" and "length ios + early_wakes s + 3 < 100000"
    and "length ios + needed (nat (FLAGS_t0BlockCount fl * FLAGS_gcWaterLevel fl div 100)) \<le> nat (FLAGS_t0BlockCount fl) * 512"
    and "n \<noteq> 0" and "program_step\<^sup>*\<^sup>* (program_start n ios st) s" and "\<not> disturbed s"
  shows "\<exists>s'. core_step\<^sup>*\<^sup>* s s' \<and> (main_thread s' = Joined \<or> q_freed s' \<and> storage s' = InPop) \<and>
    length ios \<le> unat (p_count s') \<and> storage_ok (store s') \<and> holds 1 (store s') = {} \<and>
    holds 0 (store s') \<subseteq> (page_align \<circ> io_lba) ` set ios"
proof -
  let ?w = "nat (FLAGS_t0BlockCount fl * FLAGS_gcWaterLevel fl div 100)"
  obtain k where k: "nat (FLAGS_t0BlockCount fl) * 512 \<le> k" "fit ?w k st" using sane_fit(1) [OF assms(1-3)] by blast
  note i = reachable_invs [OF assms(8,7,9)]
  obtain served st1 where sv: "serve_all served (st, 0) = Inr (st1, p_count s)" "same_store st1 (store s)"
      "set (served @ to_serve s) \<subseteq> insert zero_IO (set ios)" "with_op (served @ to_serve s) = with_op ios"
      "length ios \<le> length (served @ to_serve s)" "length (served @ to_serve s) \<le> length ios + early_wakes s + 1"
    by (rule all_requests [OF i(2)])
  have wr: "with_op ios = ios" using assms(4) by (simp add: filter_id_conv)
  define j where "j = k - length ios"
  have j: "needed ?w \<le> j" "fit ?w (length ios + j) st" using k assms(6) by (simp_all add: j_def)
  have all: "\<exists>st' c'. serve_all (served @ to_serve s @ replicate z zero_IO) (st, 0) = Inr (st', c') \<and> length ios \<le> unat c' \<and>
      fit ?w j st' \<and> holds 0 st' \<subseteq> (page_align \<circ> io_lba) ` set ios \<and> holds 1 st' = {}" if z: "z \<le> 2" for z
  proof -
    let ?xs = "(served @ to_serve s) @ replicate z zero_IO"
    have "with_op ?xs = ios" using sv(4) wr by (simp add: zero_IO_def)
    moreover have "\<forall>io \<in> set ?xs. io_op io \<noteq> Some READ" using sv(3) assms(4) by (fastforce simp: zero_IO_def)
    moreover have "unat (0 :: u32) + length ?xs < 100000" using sv(6) z assms(5) by simp
    ultimately have "\<exists>st' c'. serve_all ?xs (st, 0) = Inr (st', c') \<and> unat c' = unat (0 :: u32) + length ?xs \<and> fit ?w j st' \<and>
        holds 0 st' \<subseteq> holds 0 st \<union> (page_align \<circ> io_lba) ` set ios \<and> holds 1 st' = holds 1 st - (page_align \<circ> io_lba) ` set ios"
      using writes_served [of ?xs ?w j st 0] j by metis
    then show ?thesis using sv(5) sane_fit(2,3) [OF assms(1-3)] by fastforce
  qed
  obtain r where "serve_all (served @ to_serve s @ replicate 2 zero_IO) (st, 0) = Inr r" using all [of 2] by blast
  from all_gets_done [OF i(1) sv(1,2) this] obtain s' z st2 where s': "core_step\<^sup>*\<^sup>* s s'"
      "main_thread s' = Joined \<or> q_freed s' \<and> storage s' = InPop" "z \<le> 2"
      "serve_all (served @ to_serve s @ replicate z zero_IO) (st, 0) = Inr (st2, p_count s')" "same_store st2 (store s')" by blast
  then show ?thesis using all [OF s'(3)] by (intro exI [of _ s']) (auto simp: same_store_def fit_def storage_ok_def)
qed

theorem fresh_instance_gets_done_witness:
  "\<exists>st s'. CreateStorageSystemInstance 0 0 0 0 [] small_flags = Inr st \<and>
     core_step\<^sup>*\<^sup>* (program_start 128 (replicate 600 a_write) st) s' \<and> 600 \<le> unat (p_count s') \<and> storage_ok (store s')"
proof -
  obtain st where st: "CreateStorageSystemInstance 0 0 0 0 [] small_flags = Inr st" using small_instance by blast
  have "\<forall>io \<in> set (replicate 600 a_write). io_op io = Some WRITE" by (simp add: a_write_def)
  moreover have "\<not> FLAGS_enableFlush small_flags" "length (replicate 600 a_write) +
      needed (nat (FLAGS_t0BlockCount small_flags * FLAGS_gcWaterLevel small_flags div 100)) \<le> nat (FLAGS_t0BlockCount small_flags) * 512"
    by (simp_all add: small_flags_def default_flags_def)
  ultimately show ?thesis
    using fresh_instance_gets_done [OF small_flags_sane _ st, of "replicate 600 a_write" "program_start 128 (replicate 600 a_write) st" 128] st
    by (fastforce simp: program_start_def)
qed

end
