(* ===== verification/Layer_Sustain.thy ===== *)
theory Layer_Sustain
  imports Layer_Live
begin

text \<open>
  A tier with a disk can be written to for ever. The requests of a collection or of a tier-down are
  only added by the thread that writes, so that a wait for them leaves none until the same write
  checks for a collection or a tier-down: below the stall level every write collects, and gains at
  least the page it takes; at the stall level of the tier-down every write tiers down.
\<close>

subsection \<open>Nobody else adds background requests\<close>

definition eased :: "nat \<Rightarrow> System \<Rightarrow> System \<Rightarrow> bool" where
  "eased l s s' \<longleftrightarrow> gc_backlog l s' \<le> gc_backlog l s \<and> tier_backlog l s' \<le> tier_backlog l s"

lemma eased_refl [simp]: "eased l s s"
  by (simp add: eased_def)

lemma eased_trans: "eased l s s1 \<Longrightarrow> eased l s1 s2 \<Longrightarrow> eased l s s2"
  by (simp add: eased_def)

lemma eased_clock [simp]:
  "eased l (s\<lparr>now := t, future := fut\<rparr>) s' = eased l s s'" "eased l (s\<lparr>g_IOPS := n\<rparr>) s' = eased l s s'"
  "eased l s (s'\<lparr>g_IOPS := n\<rparr>) = eased l s s'"
  by (simp_all add: eased_def with_at_def disk_at_def)

lemma backlog_step:
  assumes "disk_at s' l = disk_at s l \<or> (\<exists>d d'. disk_at s l = Some d \<and> disk_at s' l = Some d' \<and>
    unat (uq_cursor (backGCQ d')) \<le> unat (uq_cursor (backGCQ d)) \<and> unat (uq_cursor (backTierQ d')) \<le> unat (uq_cursor (backTierQ d)))"
  shows "eased l s s'"
  using assms by (auto simp: eased_def with_at_def)

lemma round_eased: "run_round r s = Inr s' \<Longrightarrow> eased l s s'"
proof (cases r)
  case (RunHost k i)
  assume "run_round r s = Inr s'"
  then have "disk_round k (\<lambda>d. i < length (hostShutdown d)) (HostIOThread i (now s)) s = Inr s'" using RunHost by simp
  from disk_round_at(1) [OF this, of l] show ?thesis using HostIOThread_frame(1,2) by (intro backlog_step) fastforce
next
  case (RunGC k)
  assume "run_round r s = Inr s'"
  then have "disk_round k (\<lambda>d. backConcurrency d \<noteq> 0) BackGCThread s = Inr s'" using RunGC by simp
  from disk_round_at(1) [OF this, of l] show ?thesis using BackGCThread_frame(2,6) by (intro backlog_step) fastforce
next
  case (RunTier k)
  assume "run_round r s = Inr s'"
  then have "disk_round k (\<lambda>d. backConcurrency d \<noteq> 0) BackTierThread s = Inr s'" using RunTier by simp
  from disk_round_at(1) [OF this, of l] show ?thesis using BackTierThread_frame(2,6) by (intro backlog_step) fastforce
qed

lemma rounds_eased: "run_rounds rs s = Inr s' \<Longrightarrow> eased l s s'"
  by (induction rs arbitrary: s) (auto simp: fault_iff intro: eased_trans round_eased)

lemma breathe_eased: "breathe s = Inr s' \<Longrightarrow> eased l s s'"
  using rounds_eased [of _ "s\<lparr>now := t, future := fut\<rparr>" s' l for t fut]
  by (auto simp: breathe_def split: list.split_asm prod.split_asm)

lemma look_eased: "look c s = Inr (b, s') \<Longrightarrow> eased l s s'"
  using breathe_eased by (auto simp: look_def fault_iff)

lemma wait_on_eased: "wait_on c fut s = Inr (w, s') \<Longrightarrow> eased l s s'"
proof (induction c fut s arbitrary: w rule: wait_on.induct)
  case (2 c t rs fut s)
  then obtain s1 b where 1: "run_rounds rs (s\<lparr>now := t, future := fut\<rparr>) = Inr s1" "c s1 = Inr b"
      "(if b then bindE (wait_on c fut s1) (\<lambda>(_, s2). Inr (True, s2)) else Inr (False, s1)) = Inr (w, s')"
    by (auto simp: fault_iff)
  have e: "eased l s s1" using rounds_eased [OF 1(1)] by simp
  show ?case
  proof (cases b)
    case True
    then obtain w1 where "wait_on c fut s1 = Inr (w1, s')" using 1(3) by (auto simp: fault_iff)
    then show ?thesis using 2(1) [OF 1(1,2) True] eased_trans [OF e] by blast
  next
    case False
    then show ?thesis using 1(3) e by simp
  qed
qed (auto simp: fault_iff split: if_split_asm)

lemma wait_while_eased: "wait_while c s = Inr (w, s') \<Longrightarrow> eased l s s'"
  unfolding wait_while_def by (rule wait_on_eased)

lemma set_tier_eased: "diskOp t = diskOp (tier_at s k) \<Longrightarrow> eased l s (set_tier k t s)"
  by (cases "k < length (tiers s)")
    (auto simp: eased_def with_at_def disk_at_def set_tier_def tier_at_def nth_list_update split: option.split)

lemma set_stat_eased: "eased l s (set_stat k f s)"
  by (simp add: set_stat_def set_tier_eased)

lemma slow_down_eased:
  assumes "slow_down k c bump s = Inr s'"
  shows "eased l s s'"
proof -
  obtain b s1 where 1: "look c s = Inr (b, s1)" "(if b then bindE (breathe s1) (\<lambda>s2. Inr (set_stat k bump s2)) else Inr s1) = Inr s'"
    using assms by (auto simp: slow_down_def fault_iff)
  note e = look_eased [OF 1(1)]
  show ?thesis
  proof (cases b)
    case True
    then obtain s2 where "breathe s1 = Inr s2" "s' = set_stat k bump s2" using 1(2) by (auto simp: fault_iff)
    then show ?thesis using eased_trans [OF eased_trans [OF e breathe_eased] set_stat_eased] by simp
  qed (use 1 e in simp)
qed

lemma stall_eased: "stall k c bump s = Inr s' \<Longrightarrow> eased l s s'"
  by (auto simp: stall_def fault_iff split: if_split_asm intro: wait_while_eased eased_trans [OF wait_while_eased] set_stat_eased)

text \<open>A request that is not of the background kind in question.\<close>

lemma submit_backlog:
  assumes "submit k io s = Inr s'" and "l < length (tiers s)" and "length (tiers s') = length (tiers s)"
  shows "dio_ioType io \<noteq> BACK_GC \<Longrightarrow> gc_backlog l s' \<le> gc_backlog l s"
    and "dio_ioType io \<noteq> BACK_TIER \<Longrightarrow> tier_backlog l s' \<le> tier_backlog l s"
proof -
  have "(dio_ioType io \<noteq> BACK_GC \<longrightarrow> gc_backlog l s' \<le> gc_backlog l s) \<and> (dio_ioType io \<noteq> BACK_TIER \<longrightarrow> tier_backlog l s' \<le> tier_backlog l s)"
  proof (cases "diskOp (tier_at s k)")
    case None
    then show ?thesis using assms(1) by (simp add: submit_def)
  next
    case (Some d0)
    let ?s1 = "s\<lparr>g_IOPS := g_IOPS s + 1\<rparr>"
    obtain w s2 d d' where 2: "(if dio_ioType io = HOST then wait_while (host_full k) ?s1 else Inr (False, ?s1)) = Inr (w, s2)"
        "diskOp (tier_at s2 k) = Some d" "HandleDiskIO d io = Inr d'" "s' = set_disk k d' s2"
      using assms(1) Some unfolding submit_def Let_def by (auto simp: fault_iff split: option.split_asm)
    have e: "eased l s s2"
      using 2(1) wait_while_eased [of "host_full k" ?s1 w s2 l] by (auto split: if_split_asm)
    have f: "(dio_ioType io \<noteq> BACK_GC \<longrightarrow> backGCQ d' = backGCQ d) \<and> (dio_ioType io \<noteq> BACK_TIER \<longrightarrow> backTierQ d' = backTierQ d)"
      using 2(3) by (auto simp: HandleDiskIO_def fault_iff split: DiskIOType.split_asm)
    have "length (tiers s2) = length (tiers s)" using assms(3) 2(4) by (simp add: set_disk_def)
    then have l2: "l < length (tiers s2)" using assms(2) by simp
    have "disk_at s' l = (if l = k then Some d' else disk_at s2 l)"
      using l2 2(4) disk_at_set_disk [of k s2 d' l] by (cases "l = k") (auto simp: set_disk_def set_tier_def disk_at_def tier_at_def nth_list_update)
    moreover have "l = k \<Longrightarrow> disk_at s2 l = Some d" using l2 2(2) by (simp add: disk_at_def)
    ultimately have "(dio_ioType io \<noteq> BACK_GC \<longrightarrow> gc_backlog l s' \<le> gc_backlog l s2) \<and> (dio_ioType io \<noteq> BACK_TIER \<longrightarrow> tier_backlog l s' \<le> tier_backlog l s2)"
      using f by (cases "l = k") (simp_all add: with_at_def)
    then show ?thesis using e by (auto simp: eased_def)
  qed
  then show "dio_ioType io \<noteq> BACK_GC \<Longrightarrow> gc_backlog l s' \<le> gc_backlog l s"
      "dio_ioType io \<noteq> BACK_TIER \<Longrightarrow> tier_backlog l s' \<le> tier_backlog l s" by blast+
qed


lemma ensures_Inr: "ensures m P \<Longrightarrow> m = Inr x \<Longrightarrow> P x"
  by simp

lemma submit_all_backlog:
  "submit_all k ios s = Inr s' \<Longrightarrow> disks_ok s \<Longrightarrow> k < length (tiers s) \<Longrightarrow> l < length (tiers s) \<Longrightarrow>
    (\<forall>io \<in> set ios. dio_ioType io \<noteq> BACK_TIER) \<Longrightarrow> tier_backlog l s' \<le> tier_backlog l s"
proof (induction ios arbitrary: s)
  case (Cons io ios)
  then obtain s1 where 1: "submit k io s = Inr s1" "submit_all k ios s1 = Inr s'" by (auto simp: fault_iff)
  have q: "quiet s s1" by (rule ensures_Inr [OF submit_quiet [OF Cons.prems(2,3)] 1(1)])
  then have t: "length (tiers s1) = length (tiers s)" "disks_ok s1" by (simp_all add: quiet_def changes_def)
  have "tier_backlog l s' \<le> tier_backlog l s1" using Cons.IH [OF 1(2)] Cons.prems t by simp
  moreover have "tier_backlog l s1 \<le> tier_backlog l s"
    using submit_backlog(2) [OF 1(1) Cons.prems(4) t(1)] Cons.prems(5) by simp
  ultimately show ?case by simp
qed simp

lemma gc_requests_type: "\<forall>io \<in> set (gc_requests loc n ms). dio_ioType io = BACK_GC"
  by (induction loc n ms rule: gc_requests.induct) (auto simp: read_io_def write_io_def)

subsection \<open>A collection\<close>

text \<open>The state \<open>s1\<close> in which the blocks are recycled; afterwards only requests are made.\<close>

lemma HandleGC_steps:
  assumes "HandleGC l s = Inr s'" and "disks_ok s" and "l < length (tiers s)" and "layer_ok (tier_at s l)"
    and "sized (tier_at s l)" and "diskOp (tier_at s l) \<noteq> None" and "0 < free_blocks (tier_at s l)"
    and "free_blocks (tier_at s l) < unat (gcWL (tier_at s l))"
  shows "all_room (gcModule (tier_at s l)) \<le> all_room (gcModule (tier_at s' l))"
    and "gcBlockCnt (tier_at s l) \<noteq> 0 \<Longrightarrow>
      card (stored (tier_at s l)) < 503 * card (full_blocks (gcModule (tier_at s l))) \<Longrightarrow>
      all_room (gcModule (tier_at s l)) + 10 \<le> all_room (gcModule (tier_at s' l))"
    and "tier_backlog k s' \<le> tier_backlog k s"
proof -
  have ob: "observable s (host_busy l)"
    using quiet_disk [of s _ l] assms(3,6) by (fastforce simp: observable_def host_busy_def)
  obtain w s1 where 1: "wait_while (host_busy l) s = Inr (w, s1)" using assms(1) by (auto simp: HandleGC_def fault_iff)
  have q: "quiet s s1" using ensures_Inr [OF wait_while_quiet [OF assms(2) ob] 1] by simp
  let ?t = "tier_at s1 l"
  let ?cnt = "gcWL ?t - GetFreeBlockNum (gcModule ?t) + gcBlockCnt ?t"
  obtain gc out s2 where 2: "GarbageCollection (gcModule ?t) (gcBlockCnt ?t) (gc_arrays (unat ?cnt)) = Inr (gc, out)"
      "s2 = set_tier l (?t\<lparr>gcModule := gc, statModule := (statModule ?t)
               \<lparr>gcWriteCount := gcWriteCount (statModule ?t) + ucast (gcWriteCnt out),
                gcCount := gcCount (statModule ?t) + 1\<rparr>\<rparr>) s1"
      "s' = s2 \<or> (\<exists>w. submit_all l (gc_requests w 0 (move_log out)) s2 = Inr s')"
    using assms(1) 1 unfolding HandleGC_def Let_def by (auto simp: fault_iff split: if_split_asm)
  have len: "length (tiers s1) = length (tiers s)" "l < length (tiers s1)"
    using q assms(3) by (simp_all add: quiet_def changes_def)
  have sc: "same_core (tier_at s l) ?t" using q assms(3) by (auto simp: quiet_def changes_def)
  then have t1: "layer_ok ?t" "sized ?t" "0 < free_blocks ?t" "free_blocks ?t < unat (gcWL ?t)"
    using assms(4,5,7,8) same_core_ok [OF sc] settings_fields [of ?t "tier_at s l"] by (simp_all add: same_core_def)
  note gl = GarbageCollection_layer [OF t1]
  have ds: "disks_ok s2" "length (tiers s2) = length (tiers s)"
    using q len by (auto simp: 2(2) quiet_def intro!: disks_ok_set_tier)
  have q2: "quiet s2 s'"
    using 2(3) ensures_Inr [OF submit_all_quiet [OF ds(1), of l]] ds(1) len ds(2) by (auto simp: quiet_def)
  then have gm: "gcModule (tier_at s' l) = gc"
    using quiet_core(1) [of s2 s' l] len ds(2) by (simp add: quiet_def 2(2))
  have g0: "gcModule ?t = gcModule (tier_at s l)" "gcBlockCnt ?t = gcBlockCnt (tier_at s l)"
    using sc settings_fields(3) [of ?t "tier_at s l"] by (simp_all add: same_core_def)
  show "all_room (gcModule (tier_at s l)) \<le> all_room (gcModule (tier_at s' l))"
    using gl(2) 2(1) gc_prog_room unfolding gm g0(1) [symmetric] by fastforce
  show "all_room (gcModule (tier_at s l)) + 10 \<le> all_room (gcModule (tier_at s' l))"
    if "gcBlockCnt (tier_at s l) \<noteq> 0" "card (stored (tier_at s l)) < 503 * card (full_blocks (gcModule (tier_at s l)))"
    unfolding gm g0(1) [symmetric]
    by (rule collection_gains [OF gl(3,4) _ _ 2(1)]) (use that g0 in \<open>simp_all add: stored_def\<close>)
  show "tier_backlog k s' \<le> tier_backlog k s"
  proof (cases "k < length (tiers s)")
    case True
    have "eased k s s2" using eased_trans [OF wait_while_eased [OF 1] set_tier_eased] by (simp add: 2(2))
    moreover have "tier_backlog k s' \<le> tier_backlog k s2"
      using 2(3) submit_all_backlog [of l _ s2 s' k] gc_requests_type ds len True by fastforce
    ultimately show ?thesis by (simp add: eased_def)
  next
    case False
    moreover have "length (tiers s') = length (tiers s)" using q2 ds(2) by (simp add: quiet_def changes_def)
    ultimately show ?thesis by (simp add: with_at_def disk_at_def)
  qed
qed

subsection \<open>A host write\<close>

lemma gc_backlog_zero: "l < length (tiers s) \<Longrightarrow> gc_backlog l s = 0 \<longleftrightarrow> (\<forall>d. diskOp (tier_at s l) = Some d \<longrightarrow> QueryGCQueueSize d = 0)"
  by (auto simp: with_at_def disk_at_def QueryGCQueueSize_def uq_QuerySize_def unat_eq_0 split: option.split)

lemma tier_backlog_zero: "l < length (tiers s) \<Longrightarrow> tier_backlog l s = 0 \<longleftrightarrow> (\<forall>d. diskOp (tier_at s l) = Some d \<longrightarrow> QueryTierQueueSize d = 0)"
  by (auto simp: with_at_def disk_at_def QueryTierQueueSize_def uq_QuerySize_def unat_eq_0 split: option.split)

text \<open>After the waits and the request to the disk.\<close>

lemma waits_over:
  assumes "tier_kept l t s1" and "layer_ok t" and "calm l s1"
    and "slow_down l (\<lambda>x. Inr (GCSlowCondition (tier_at x l))) b1 s1 = Inr s2"
    and "slow_down l (TierDownSlowCondition l) b2 s2 = Inr s3"
    and "stall l (\<lambda>x. Inr (GCStallCondition (tier_at x l))) b3 s3 = Inr s4"
    and "stall l (TierDownStallCondition l) b4 s4 = Inr s5"
    and "DiskWrite l loc 1 HOST ts s5 = Inr s6"
    and "\<And>st. traffic (b1 st) = traffic st" and "\<And>st. traffic (b2 st) = traffic st"
    and "\<And>st. traffic (b3 st) = traffic st" and "\<And>st. traffic (b4 st) = traffic st"
  shows "tier_kept l t s6" and "free_blocks t \<le> unat (gcStallWL t) \<Longrightarrow> gc_backlog l s6 = 0"
    and "l = 0 \<Longrightarrow> tierDownStallWL t \<le> GetLogicalSizeOccupied (gcModule t) \<Longrightarrow> tier_backlog 0 s6 = 0"
proof -
  have d: "disks_ok s" "l < length (tiers s)" if "tier_kept l t s" for s using that by (simp_all add: tier_kept_def)
  have q2: "quiet s1 s2"
    using slow_down_quiet [OF d(1) [OF assms(1)] observable_pure [where b = "\<lambda>x. GCSlowCondition (tier_at x l)"] assms(9), of l] assms(4) by fastforce
  have k2: "tier_kept l t s2" by (rule tier_kept_quiet [OF assms(1) q2])
  have c2: "calm l s2" by (rule calm_quiet [OF assms(3) q2 d(2) [OF assms(1)]])
  have "observable s2 (TierDownSlowCondition l)"
    using observable_tier_down [OF d(2) [OF k2] c2] by (simp add: TierDownSlowCondition_def)
  then have q3: "quiet s2 s3" using slow_down_quiet [OF d(1) [OF k2] _ assms(10), of "TierDownSlowCondition l" l] assms(5) by fastforce
  have k3: "tier_kept l t s3" by (rule tier_kept_quiet [OF k2 q3])
  have c3: "calm l s3" by (rule calm_quiet [OF c2 q3 d(2) [OF k2]])
  obtain w4 s4' where w4: "wait_while (\<lambda>x. Inr (GCStallCondition (tier_at x l))) s3 = Inr (w4, s4')"
      "s4 = (if w4 then set_stat l b3 s4' else s4')"
    using assms(6) by (auto simp: stall_def fault_iff)
  have q4': "quiet s3 s4'" "\<not> GCStallCondition (tier_at s4' l)"
    using ensures_Inr [OF wait_while_quiet [OF d(1) [OF k3] observable_pure] w4(1)] by simp_all
  have k4': "tier_kept l t s4'" by (rule tier_kept_quiet [OF k3 q4'(1)])
  have k4: "tier_kept l t s4" using k4' tier_kept_stat w4(2) by simp
  have q4: "quiet s3 s4" using ensures_Inr [OF stall_quiet [OF d(1) [OF k3] observable_pure, of b3 l] assms(6)] assms(11) by simp
  have c4: "calm l s4" by (rule calm_quiet [OF c3 q4 d(2) [OF k3]])
  have ob: "observable s4 (TierDownStallCondition l)"
    using observable_tier_down [OF d(2) [OF k4] c4] by (simp add: TierDownStallCondition_def)
  obtain w5 s5' where w5: "wait_while (TierDownStallCondition l) s4 = Inr (w5, s5')" "s5 = (if w5 then set_stat l b4 s5' else s5')"
    using assms(7) by (auto simp: stall_def fault_iff)
  have q5': "quiet s4 s5'" "TierDownStallCondition l s5' = Inr False"
    using ensures_Inr [OF wait_while_quiet [OF d(1) [OF k4] ob] w5(1)] by simp_all
  have k5': "tier_kept l t s5'" by (rule tier_kept_quiet [OF k4 q5'(1)])
  have k5: "tier_kept l t s5" using k5' tier_kept_stat w5(2) by simp
  have q6: "quiet s5 s6"
    using ensures_Inr [OF submit_quiet [OF d(1) [OF k5] d(2) [OF k5]] assms(8) [unfolded DiskWrite_def]] .
  show "tier_kept l t s6" by (rule tier_kept_quiet [OF k5 q6])
  have l6: "length (tiers s6) = length (tiers s5)" using q6 by (simp add: quiet_def changes_def)
  have e5: "eased k s5' s5" for k using w5(2) set_stat_eased by simp
  have e6: "gc_backlog l s6 \<le> gc_backlog l s5" "tier_backlog l s6 \<le> tier_backlog l s5"
    using submit_backlog [OF assms(8) [unfolded DiskWrite_def] d(2) [OF k5] l6] by (simp_all add: write_io_def)
  show "gc_backlog l s6 = 0" if "free_blocks t \<le> unat (gcStallWL t)"
  proof -
    have "GetFreeBlockNum (gcModule t) \<le> gcStallWL t"
      using that unat_free_blocks [OF assms(2)] by (simp add: word_le_nat_alt)
    moreover have "gcStallWL (tier_at s4' l) = gcStallWL t" "gcModule (tier_at s4' l) = gcModule t"
      using k4' settings_fields(4) [of "tier_at s4' l" t] by (simp_all add: tier_kept_def)
    ultimately have "gc_backlog l s4' = 0"
      using q4'(2) gc_backlog_zero [OF d(2) [OF k4']] by (auto simp: GCStallCondition_def)
    moreover have "eased l s4' s4" using w4(2) set_stat_eased by simp
    ultimately show ?thesis using wait_while_eased [OF w5(1), of l] e5 [of l] e6(1) by (simp add: eased_def)
  qed
  show "tier_backlog 0 s6 = 0" if l0: "l = 0" and full: "tierDownStallWL t \<le> GetLogicalSizeOccupied (gcModule t)"
  proof -
    have f: "tierDownStallWL (tier_at s5' l) = tierDownStallWL t" "gcModule (tier_at s5' l) = gcModule t"
      using k5' settings_fields(7) [of "tier_at s5' l" t] by (simp_all add: tier_kept_def)
    have "tier_backlog l s5' = 0"
      using q5'(2) full f tier_backlog_zero [OF d(2) [OF k5']] l0
      by (auto simp: TierDownStallCondition_def TierDownSlowStallCondition_def Let_def split: option.split_asm if_split_asm)
    then show ?thesis using e5 [of l] e6(2) l0 by (simp add: eased_def)
  qed
qed

text \<open>A write of a new page that may start a collection and a tier-down, from the inside.\<close>

lemma WriteHostIO_steps:
  assumes "WriteHostIO l io old s = Inr (ok, out, s')"
  obtains loc s1 s2 s3 s4 s5 s6 g s8 s9 b s10 where
    "write_modules l (io_lba io) (io_length io) old True s = Inr (loc, s1)"
    "slow_down l (\<lambda>x. Inr (GCSlowCondition (tier_at x l))) (\<lambda>st. st\<lparr>gcSlowCount := gcSlowCount st + 1\<rparr>) s1 = Inr s2"
    "slow_down l (TierDownSlowCondition l) (\<lambda>st. st\<lparr>tierSlowCount := tierSlowCount st + 1\<rparr>) s2 = Inr s3"
    "stall l (\<lambda>x. Inr (GCStallCondition (tier_at x l))) (\<lambda>st. st\<lparr>gcStallCount := gcStallCount st + 1\<rparr>) s3 = Inr s4"
    "stall l (TierDownStallCondition l) (\<lambda>st. st\<lparr>tierStallCount := tierStallCount st + 1\<rparr>) s4 = Inr s5"
    "DiskWrite l loc 1 HOST (now s) s5 = Inr s6"
    "look (\<lambda>x. Inr (GCCondition (tier_at x l))) (set_stat l (\<lambda>st. st\<lparr>hostWriteCount := hostWriteCount st + 1\<rparr>) s6) = Inr (g, s8)"
    "(if g then HandleGC l s8 else Inr s8) = Inr s9"
    "look (\<lambda>x. Inr (TierDownCondition l x)) s9 = Inr (b, s10)"
    "(if b then bindE (HandleTierDown l s10) (\<lambda>(ok, pages, pageCnt, s11). Inr (ok, Some (pages, pageCnt), s11))
      else Inr (True, None, s10)) = Inr (ok, out, s')"
  using assms unfolding WriteHostIO_def WriteHostIO_by_def Let_def by (simp only: bindE_eq_Inr split_paired_Ex prod.case) blast

lemma delete_pages_all_room:
  "gc_inv gc \<Longrightarrow> delete_pages gc ps = Inr (locs, gc') \<Longrightarrow> distinct (map tp_lba ps) \<Longrightarrow>
    (\<And>p. p \<in> set ps \<Longrightarrow> tp_lba p \<in> dom (space_abs gc) \<and> page_align (tp_lba p) = tp_lba p) \<Longrightarrow> all_room gc' = all_room gc"
proof (induction ps arbitrary: gc locs)
  case (Cons p ps)
  obtain loc gc1 locs1 where 1: "GC_Delete gc (tp_lba p) 8192 = Inr (loc, gc1)" "delete_pages gc1 ps = Inr (locs1, gc')"
    using Cons.prems(2) by (auto simp: fault_iff)
  obtain a q where "space_abs gc (page_align (tp_lba p)) = Some (a, q)" using Cons.prems(4) [of p] by auto
  from GC_Delete_spec [OF Cons.prems(1) this, of 8192] have gc1: "gc_inv gc1" "space_abs gc1 = (space_abs gc)(tp_lba p := None)"
    using 1(1) Cons.prems(4) [of p] by auto
  have "tp_lba x \<noteq> tp_lba p" if "x \<in> set ps" for x
    using Cons.prems(3) that by (metis distinct.simps(2) imageI list.set_map list.simps(9))
  then have "tp_lba x \<in> dom (space_abs gc1) \<and> page_align (tp_lba x) = tp_lba x" if "x \<in> set ps" for x
    using Cons.prems(4) [of x] gc1(2) that by auto
  then have "all_room gc' = all_room gc1" using Cons.IH [OF gc1(1) 1(2)] Cons.prems(3) by simp
  then show ?case using GC_Delete_room(1) [OF Cons.prems(1) 1(1)] by simp
qed simp

lemma HandleTierDown_all_room:
  assumes "HandleTierDown l s = Inr (ok, ps, n, s')" and "disks_ok s" and "l < length (tiers s)" and "layer_ok (tier_at s l)"
  shows "all_room (gcModule (tier_at s' l)) = all_room (gcModule (tier_at s l))"
proof -
  let ?t = "tier_at s l"
  let ?n = "GetLogicalSizeOccupied (gcModule ?t) - tierDownWL ?t + tierDownBlockCnt ?t * 512"
  have g: "gc_inv (gcModule ?t)" and ti: "tier_inv (tierModule ?t)" and d: "dom (freq_abs (tierModule ?t)) = stored ?t"
    and al: "\<forall>k \<in> stored ?t. page_align k = k" using assms(4) by (simp_all add: layer_ok_def)
  obtain tm locs gc where 1: "tier_down (unat ?n) (tierModule ?t) = Inr (ps, tm)" "delete_pages (gcModule ?t) ps = Inr (locs, gc)"
      "submit_all l (map (\<lambda>loc. read_io loc 1 BACK_TIER 0) locs) (set_tier l (?t\<lparr>gcModule := gc, tierModule := tm, statModule := (statModule ?t)
                 \<lparr>tierDownWriteCount := tierDownWriteCount (statModule ?t) + of_nat (length ps),
                  tierDownCount := tierDownCount (statModule ?t) + 1\<rparr>\<rparr>) s) = Inr s'" (is "submit_all l ?ios ?s1 = _")
    using assms(1) by (auto simp: HandleTierDown_def Let_def fault_iff Tier_TierDown_def)
  have "unat ?n \<le> card (dom (freq_abs (tierModule ?t)))"
  proof (rule ccontr)
    assume "\<not> ?thesis"
    then show False using tier_down_too_many [OF ti, of "unat ?n"] 1(1) by simp
  qed
  then obtain ps1 tm1 where td: "tier_down (unat ?n) (tierModule ?t) = Inr (ps1, tm1)"
     "distinct (map tp_lba ps1)" "\<forall>p \<in> set ps1. freq_abs (tierModule ?t) (tp_lba p) = Some (tp_freq p)"
    using tier_down_spec [OF ti] by blast
  then have e: "ps1 = ps" using 1(1) by simp
  have "tp_lba p \<in> dom (space_abs (gcModule ?t)) \<and> page_align (tp_lba p) = tp_lba p" if "p \<in> set ps" for p
  proof -
    have "tp_lba p \<in> stored ?t" using td(3) that d e by blast
    then show ?thesis using al by (simp add: stored_def)
  qed
  then have r: "all_room gc = all_room (gcModule ?t)" using delete_pages_all_room [OF g 1(2)] td(2) e by blast
  have "quiet ?s1 s'"
    by (rule ensures_Inr [OF submit_all_quiet 1(3)]) (use assms(2,3) in \<open>auto intro: disks_ok_set_tier\<close>)
  then show ?thesis using quiet_core(1) [of ?s1 s' l] assms(3) r by (simp add: quiet_def)
qed

theorem WriteHostIO_sustained:
  assumes "disks_ok s" and "l < length (tiers s)" and "tier_at s l = t" and "layer_ok t" and "sized t"
    and "2 \<le> free_blocks t" and "diskOp t \<noteq> None" and "calm l s" and "WriteHostIO l io old s = Inr (ok, out, s')"
    and "gcBlockCnt t \<noteq> 0" and "gcStallWL t < gcWL t"
    and "card (insert (page_align (io_lba io)) (stored t)) < 503 * (nblocks (gcModule t) - unat (gcStallWL t) - 2)"
  shows "min (all_room (gcModule t)) (PAGE_NUM_PER_BLOCK * (unat (gcStallWL t) + 1)) \<le> all_room (gcModule (tier_at s' l))"
    and "l = 0 \<Longrightarrow> out = None \<Longrightarrow> tierDownWL t \<le> tierDownStallWL t \<Longrightarrow> card (stored (tier_at s' l)) < unat (tierDownStallWL t)"
proof -
  let ?p = "page_align (io_lba io)"
  obtain loc s1 s2 s3 s4 s5 s6 g s8 s9 b s10 where w: "write_modules l (io_lba io) (io_length io) old True s = Inr (loc, s1)"
    "slow_down l (\<lambda>x. Inr (GCSlowCondition (tier_at x l))) (\<lambda>st. st\<lparr>gcSlowCount := gcSlowCount st + 1\<rparr>) s1 = Inr s2"
    "slow_down l (TierDownSlowCondition l) (\<lambda>st. st\<lparr>tierSlowCount := tierSlowCount st + 1\<rparr>) s2 = Inr s3"
    "stall l (\<lambda>x. Inr (GCStallCondition (tier_at x l))) (\<lambda>st. st\<lparr>gcStallCount := gcStallCount st + 1\<rparr>) s3 = Inr s4"
    "stall l (TierDownStallCondition l) (\<lambda>st. st\<lparr>tierStallCount := tierStallCount st + 1\<rparr>) s4 = Inr s5"
    "DiskWrite l loc 1 HOST (now s) s5 = Inr s6"
    "look (\<lambda>x. Inr (GCCondition (tier_at x l))) (set_stat l (\<lambda>st. st\<lparr>hostWriteCount := hostWriteCount st + 1\<rparr>) s6) = Inr (g, s8)"
    "(if g then HandleGC l s8 else Inr s8) = Inr s9"
    "look (\<lambda>x. Inr (TierDownCondition l x)) s9 = Inr (b, s10)"
    "(if b then bindE (HandleTierDown l s10) (\<lambda>(ok, pages, pageCnt, s11). Inr (ok, Some (pages, pageCnt), s11))
      else Inr (True, None, s10)) = Inr (ok, out, s')"
    using WriteHostIO_steps [OF assms(9)] by blast
  have gi: "gc_inv (gcModule t)" using assms(4) by (simp add: layer_ok_def)
  have fq: "freeQ (gcModule t) \<noteq> []" using assms(6) by (auto simp: free_blocks_def)
  then have "0 < host_room (gcModule t)" using host_room_pos [OF gi] by simp
  from write_modules_spec [OF assms(2,3,4) this, of "io_lba io" "io_length io" old True]
  obtain gc tm where wm: "s1 = set_tier l (t\<lparr>gcModule := gc, tierModule := tm\<rparr>) s"
     "layer_ok (t\<lparr>gcModule := gc, tierModule := tm\<rparr>)"
     "stored (t\<lparr>gcModule := gc, tierModule := tm\<rparr>) = insert ?p (stored t)" "nblocks gc = nblocks (gcModule t)"
     "length (freeQ gc) + (if hostBlock (gcModule t) = None then 1 else 0) = length (freeQ (gcModule t))"
    using w(1) by auto
  define t1 where "t1 = t\<lparr>gcModule := gc, tierModule := tm\<rparr>"
  have "GC_WriteIO (gcModule t) (io_lba io) (io_length io) = Inr (loc, gc)"
    using w(1) wm(1) assms(2,3) arg_cong [where f = "\<lambda>s. gcModule (tier_at s l)"]
    by (auto simp: write_modules_def fault_iff) (metis (no_types, lifting) LayerModule.select_convs(2) LayerModule.surjective
        LayerModule.update_convs(2,6) tier_at_set_tier)
  then have room1: "all_room (gcModule t) = Suc (all_room gc)" using GC_WriteIO_room [OF gi] by blast
  have set1: "settings t1 = settings t" by (simp add: t1_def settings_def)
  have lo1: "layer_ok t1" "sized t1" using wm(2,4) assms(5) by (simp_all add: t1_def sized_def)
  have k1: "tier_kept l t1 s1" using assms(1-3) wm(1) by (auto simp: tier_kept_def t1_def intro: disks_ok_set_tier)
  have c1: "calm l s1"
    by (rule calm_changes [OF assms(8) _ assms(2)]) (use assms(2,3) wm(1) in \<open>simp_all add: changes_def settings_def\<close>)
  note over = waits_over [OF k1 lo1(1) c1 w(2-6)]
  have f1: "free_blocks t \<le> free_blocks t1 + 1" using wm(5) by (simp add: free_blocks_def t1_def split: if_split_asm)
  let ?s7 = "set_stat l (\<lambda>st. st\<lparr>hostWriteCount := hostWriteCount st + 1\<rparr>) s6"
  have k7: "tier_kept l t1 ?s7" by (rule tier_kept_stat [OF over(1)]) (simp_all add: traffic_def)
  have q8: "quiet ?s7 s8" "GCCondition (tier_at s8 l) = g"
    using look_quiet [of ?s7 "\<lambda>x. Inr (GCCondition (tier_at x l))"] w(7) k7 by (auto simp: tier_kept_def)
  have k8: "tier_kept l t1 s8" by (rule tier_kept_quiet [OF k7 q8(1)])
  have e8: "eased k s6 s8" for k using eased_trans [OF set_stat_eased look_eased [OF w(7)]] .
  note l8 = tier_kept_layer [OF k8 lo1]
  have d8: "disks_ok s8" "l < length (tiers s8)" "gcModule (tier_at s8 l) = gc" using k8 by (simp_all add: tier_kept_def t1_def)
  have set8: "settings (tier_at s8 l) = settings t" using k8 set1 by (simp add: tier_kept_def)
  note sf = settings_fields [OF set8]
  have u8: "unat (GetFreeBlockNum (gcModule (tier_at s8 l))) = free_blocks t1" using unat_free_blocks l8 by auto
  have wl: "unat (gcStallWL t) < unat (gcWL t)" using assms(11) by (simp add: word_less_nat_alt)
  have dk: "diskOp (tier_at s8 l) \<noteq> None" using sf(8) assms(7) by simp
  have low: "free_blocks (tier_at s8 l) < unat (gcWL (tier_at s8 l))" if g
    using that q8(2) u8 l8 by (auto simp: GCCondition_def word_less_nat_alt split: option.split_asm)
  have due: g if "free_blocks t1 \<le> unat (gcStallWL t)"
  proof -
    have "gc_backlog l s8 = 0" using over(2) e8 [of l] that settings_fields(4) [OF set1] by (simp add: eased_def traffic_def)
    then have "\<forall>d. diskOp (tier_at s8 l) = Some d \<longrightarrow> QueryGCQueueSize d = 0" using gc_backlog_zero [OF d8(2)] by simp
    moreover have "GetFreeBlockNum (gcModule (tier_at s8 l)) < gcWL (tier_at s8 l)"
      using that wl u8 sf(2) by (simp add: word_less_nat_alt)
    ultimately show ?thesis using q8(2) dk by (auto simp: GCCondition_def)
  qed
  have pos: "0 < free_blocks (tier_at s8 l)" using l8 f1 assms(6) by simp
  note gcs = HandleGC_steps [OF _ d8(1,2) _ _ dk pos]
  have s9: "disks_ok s9 \<and> l < length (tiers s9) \<and> layer_ok (tier_at s9 l) \<and> stored (tier_at s9 l) = stored t1 \<and>
      settings (tier_at s9 l) = settings t \<and> tier_backlog 0 s9 \<le> tier_backlog 0 s8 \<and> all_room gc \<le> all_room (gcModule (tier_at s9 l)) \<and>
      (free_blocks t1 \<le> unat (gcStallWL t) \<longrightarrow> all_room gc + 10 \<le> all_room (gcModule (tier_at s9 l)))"
  proof (cases g)
    case True
    then have h: "HandleGC l s8 = Inr s9" using w(8) by simp
    have c: "disks_ok s9" "changes {l} s8 s9" "collected (tier_at s8 l) (tier_at s9 l)"
      using ensures_Inr [OF HandleGC_spec [OF d8(1,2) refl _ _ dk pos low [OF True]] h] l8 by simp_all
    have gain: "all_room gc + 10 \<le> all_room (gcModule (tier_at s9 l))" if lt: "free_blocks t1 \<le> unat (gcStallWL t)"
    proof -
      have gi8: "gc_inv gc" using wm(2) by (simp add: layer_ok_def)
      have "free_blocks t1 + card (full_blocks gc) + 2 \<ge> nblocks gc"
        using block_count [OF gi8] card_opens_le [of gc] by (simp add: free_blocks_def t1_def)
      then have "nblocks (gcModule t) - unat (gcStallWL t) - 2 \<le> card (full_blocks gc)" using lt wm(4) by linarith
      then have "card (stored t1) < 503 * card (full_blocks gc)" using assms(12) wm(3) by (simp add: t1_def)
      then show ?thesis using gcs(2) [OF h _ _ low [OF True]] l8 d8(3) sf(3) assms(10) by simp
    qed
    show ?thesis using c gcs(1,3) [OF h _ _ low [OF True]] gain l8 d8 set8
      by (auto simp: changes_def collected_def)
  next
    case False
    then have "s9 = s8" using w(8) by simp
    then show ?thesis using False due d8 l8 set8 by auto
  qed
  have q10: "quiet s9 s10" "TierDownCondition l s10 = b"
    using look_quiet [of s9 "\<lambda>x. Inr (TierDownCondition l x)"] w(9) s9 by auto
  have s10: "disks_ok s10" "l < length (tiers s10)" "same_core (tier_at s9 l) (tier_at s10 l)"
    using q10(1) s9 by (auto simp: quiet_def changes_def)
  have m10: "gcModule (tier_at s10 l) = gcModule (tier_at s9 l)" "layer_ok (tier_at s10 l)" "stored (tier_at s10 l) = stored t1"
    using s10(3) s9 same_core_ok [OF s10(3)] by (simp_all add: same_core_def)
  have "all_room (gcModule (tier_at s' l)) = all_room (gcModule (tier_at s9 l))"
  proof (cases b)
    case True
    then obtain ok1 ps n where "HandleTierDown l s10 = Inr (ok1, ps, n, s')" using w(10) by (auto simp: fault_iff)
    from HandleTierDown_all_room [OF this s10(1,2) m10(2)] show ?thesis using m10(1) by simp
  next
    case False
    then show ?thesis using w(10) m10(1) by simp
  qed
  moreover have "PAGE_NUM_PER_BLOCK * free_blocks t1 \<le> all_room gc"
    using all_room_le [of gc] by (simp add: free_blocks_def t1_def)
  ultimately show "min (all_room (gcModule t)) (PAGE_NUM_PER_BLOCK * (unat (gcStallWL t) + 1)) \<le> all_room (gcModule (tier_at s' l))"
  proof (cases "free_blocks t1 \<le> unat (gcStallWL t)")
    case False
    then have "PAGE_NUM_PER_BLOCK * (unat (gcStallWL t) + 1) \<le> PAGE_NUM_PER_BLOCK * free_blocks t1"
      by (intro mult_le_mono2) simp
    moreover have "all_room gc \<le> all_room (gcModule (tier_at s9 l))" using s9 by blast
    ultimately have "PAGE_NUM_PER_BLOCK * (unat (gcStallWL t) + 1) \<le> all_room (gcModule (tier_at s' l))"
      using \<open>all_room (gcModule (tier_at s' l)) = _\<close> \<open>PAGE_NUM_PER_BLOCK * free_blocks t1 \<le> _\<close> by linarith
    then show ?thesis by (rule min.coboundedI2)
  next
    case True
    then have "all_room gc + 10 \<le> all_room (gcModule (tier_at s9 l))" using s9 by blast
    then have "all_room (gcModule t) \<le> all_room (gcModule (tier_at s' l))"
      using room1 \<open>all_room (gcModule (tier_at s' l)) = _\<close> by linarith
    then show ?thesis by (rule min.coboundedI1)
  qed
  show "card (stored (tier_at s' l)) < unat (tierDownStallWL t)"
    if l0: "l = 0" and none: "out = None" and le: "tierDownWL t \<le> tierDownStallWL t"
  proof (rule ccontr)
    assume full: "\<not> ?thesis"
    have nb: "\<not> b" using w(10) none by (auto simp: fault_iff)
    then have e: "s' = s10" using w(10) by simp
    have "unat (GetLogicalSizeOccupied gc) = card (stored t1)" using card_stored(2) [OF lo1] by (simp add: t1_def)
    then have st: "tierDownStallWL t \<le> GetLogicalSizeOccupied gc" using full m10(3) e by (simp add: word_le_nat_alt)
    then have "tier_backlog 0 s6 = 0" using over(3) l0 settings_fields(7) [OF set1] by (simp add: t1_def traffic_def)
    then have "tier_backlog 0 s10 = 0" using e8 [of 0] s9 look_eased [OF w(9), of 0] by (simp add: eased_def)
    moreover have "diskOp (tier_at s10 0) \<noteq> None" "tierDownWL (tier_at s10 0) = tierDownWL t"
        "GetLogicalSizeOccupied (gcModule (tier_at s10 0)) = GetLogicalSizeOccupied gc"
    proof -
      have "settings (tier_at s10 0) = settings t" using s10(3) s9 l0 by (simp add: same_core_def)
      note f = settings_fields [OF this]
      show "diskOp (tier_at s10 0) \<noteq> None" "tierDownWL (tier_at s10 0) = tierDownWL t" using f(5,8) assms(7) by simp_all
      have "gc_inv gc" "gc_inv (gcModule (tier_at s10 0))" using wm(2) m10(2) l0 by (simp_all add: layer_ok_def)
      then show "GetLogicalSizeOccupied (gcModule (tier_at s10 0)) = GetLogicalSizeOccupied gc"
        using GetLogicalSizeOccupied_eq(1) m10(3) l0 by (simp add: stored_def t1_def)
    qed
    ultimately have "TierDownCondition 0 s10"
      using tier_backlog_zero [of 0 s10] s10(2) l0 le st by (auto simp: TierDownCondition_def Let_def)
    then show False using nb q10(2) l0 by simp
  qed
qed

end
