(* ===== verification/Layer_Prompt.thy ===== *)
theory Layer_Prompt
  imports Layer_Sustain
begin

text \<open>
  Host writes return when the disk is prompt: whenever the storage thread sleeps or looks at a queue, the first host
  thread has served a request since, and the background threads all of theirs (a queue never counts
  \<open>2 ^ 32\<close> requests). Every wait of a write then ends with the first look, and a write takes at most ten looks.
\<close>

subsection \<open>Prompt disks\<close>

definition swift :: "nat \<Rightarrow> (u64 \<times> round list) list \<Rightarrow> bool" where
  "swift l fut \<longleftrightarrow> (\<forall>b \<in> set fut. RunHost l 0 \<in> set (snd b) \<and>
     2 ^ 32 \<le> length (filter (\<lambda>r. r = RunGC l) (snd b)) \<and> 2 ^ 32 \<le> length (filter (\<lambda>r. r = RunTier l) (snd b)))"

text \<open>At least \<open>k\<close> more looks, with a disk of living threads and at most one request in its host queue.\<close>

definition prompt :: "nat \<Rightarrow> nat \<Rightarrow> System \<Rightarrow> bool" where
  "prompt l k s \<longleftrightarrow> disks_ok s \<and> host_alive l 0 s \<and> back_alive l s \<and> host_backlog l s \<le> 1 \<and> swift l (future s) \<and> k \<le> length (future s)"

definition drained :: "nat \<Rightarrow> System \<Rightarrow> bool" where
  "drained l s \<longleftrightarrow> host_backlog l s = 0 \<and> gc_backlog l s = 0 \<and> tier_backlog l s = 0"

lemma prompt_less: "prompt l k s \<Longrightarrow> j \<le> k \<Longrightarrow> prompt l j s"
  by (simp add: prompt_def)

lemma with_at_clock [simp]: "with_at l f z (s\<lparr>now := t, future := fut\<rparr>) = with_at l f z s" "with_at l f z (s\<lparr>g_IOPS := n\<rparr>) = with_at l f z s"
  by (simp_all add: with_at_def disk_at_def)

lemma backlog_word: "gc_backlog l s \<le> 2 ^ 32" "tier_backlog l s \<le> 2 ^ 32"
  using unat_lt2p32 by (auto simp: with_at_def less_imp_le split: option.split)

lemma prompt_batch:
  assumes "prompt l (Suc k) s" and "future s = (t, rs) # fut" and "run_rounds rs (s\<lparr>now := t, future := fut\<rparr>) = Inr s'"
  shows "prompt l k s' \<and> drained l s'"
proof -
  let ?s = "s\<lparr>now := t, future := fut\<rparr>"
  have s: "disks_ok ?s" "host_alive l 0 ?s" "back_alive l ?s" "host_backlog l ?s \<le> 1" "swift l ((t, rs) # fut)" "k \<le> length fut"
    using assms(1,2) by (simp_all add: prompt_def)
  have n: "filter (\<lambda>r. r = RunHost l 0) rs \<noteq> []" using s(5) by (auto simp: swift_def filter_empty_conv)
  have h: "host_alive l 0 s' \<and> host_backlog l s' \<le> host_backlog l ?s - length (filter (\<lambda>r. r = RunHost l 0) rs)"
    by (rule hostq.serve_rounds [OF s(1,2) assms(3)])
  have g: "back_alive l s' \<and> gc_backlog l s' \<le> gc_backlog l ?s - length (filter (\<lambda>r. r = RunGC l) rs)"
    by (rule gcq.serve_rounds [OF s(1,3) assms(3)])
  have t: "back_alive l s' \<and> tier_backlog l s' \<le> tier_backlog l ?s - length (filter (\<lambda>r. r = RunTier l) rs)"
    by (rule tierq.serve_rounds [OF s(1,3) assms(3)])
  have "host_backlog l s' = 0" using h s(4) n by (cases "filter (\<lambda>r. r = RunHost l 0) rs") simp_all
  moreover have "gc_backlog l s' = 0 \<and> tier_backlog l s' = 0"
    using g t s(5) backlog_word [of l ?s] unfolding swift_def by fastforce
  moreover have "future s' = fut" "disks_ok s'"
    using batch_quiet [where s = s and rs = rs and fut = fut and t = t] assms(1,3) by (auto simp: prompt_def quiet_def)
  ultimately show ?thesis using h g s(5,6) by (simp add: prompt_def drained_def swift_def)
qed

text \<open>Between two steps of a write the tier \<open>l\<close> is as in \<open>t\<close>.\<close>

definition steady :: "nat \<Rightarrow> LayerModule \<Rightarrow> nat \<Rightarrow> System \<Rightarrow> bool" where
  "steady l t k s \<longleftrightarrow> prompt l k s \<and> tier_kept l t s"

lemma steady_less: "steady l t k s \<Longrightarrow> j \<le> k \<Longrightarrow> steady l t j s"
  by (auto simp: steady_def intro: prompt_less)

lemma steady_batch:
  assumes "steady l t (Suc k) s" and "future s = (u, rs) # fut"
  shows "\<exists>s'. run_rounds rs (s\<lparr>now := u, future := fut\<rparr>) = Inr s' \<and> steady l t k s' \<and> drained l s'"
proof -
  have d: "disks_ok s" using assms(1) by (simp add: steady_def prompt_def)
  obtain s' where s': "run_rounds rs (s\<lparr>now := u, future := fut\<rparr>) = Inr s'" "quiet s s'" using batch_quiet [OF d] by blast
  moreover from this have "tier_kept l t s'" "disks_ok s'" using assms(1) tier_kept_quiet by (auto simp: steady_def quiet_def)
  ultimately show ?thesis using prompt_batch [OF _ assms(2)] assms(1) by (auto simp: steady_def)
qed

lemma steady_breathe:
  assumes "steady l t (Suc k) s"
  shows "\<exists>s'. breathe s = Inr s' \<and> steady l t k s' \<and> drained l s'"
proof -
  obtain u rs fut where f: "future s = (u, rs) # fut"
    using assms by (cases "future s") (auto simp: steady_def prompt_def)
  show ?thesis using steady_batch [OF assms f] f by (simp add: breathe_def)
qed

lemma steady_look:
  assumes "steady l t (Suc k) s" and "\<And>s'. steady l t k s' \<Longrightarrow> \<exists>b. c s' = Inr b"
  shows "\<exists>b s'. look c s = Inr (b, s') \<and> c s' = Inr b \<and> steady l t k s' \<and> drained l s'"
  using steady_breathe [OF assms(1)] assms(2) by (fastforce simp: look_def)

lemma steady_wait:
  assumes "steady l t (Suc k) s" and "\<And>s'. steady l t k s' \<Longrightarrow> drained l s' \<Longrightarrow> c s' = Inr False"
  shows "\<exists>s'. wait_while c s = Inr (False, s') \<and> steady l t k s' \<and> drained l s'"
proof -
  obtain u rs fut where f: "future s = (u, rs) # fut"
    using assms by (cases "future s") (auto simp: steady_def prompt_def)
  obtain s' where "run_rounds rs (s\<lparr>now := u, future := fut\<rparr>) = Inr s'" "steady l t k s'" "drained l s'"
    using steady_batch [OF assms(1) f] by blast
  then show ?thesis using assms(2) f by (simp add: wait_while_def)
qed

lemma prompt_set_tier:
  assumes "prompt l k s" and "diskOp u = diskOp (tier_at s m)" and "m < length (tiers s)"
  shows "prompt l k (set_tier m u s)"
proof -
  have "disk_at (set_tier m u s) l = disk_at s l" using assms(2,3) by (simp add: disk_at_def)
  moreover have "future (set_tier m u s) = future s" by (simp add: set_tier_def)
  moreover have "disks_ok (set_tier m u s)" using assms by (auto simp: prompt_def disks_ok_def intro!: disks_ok_set_tier)
  ultimately show ?thesis using assms(1) by (simp add: prompt_def with_at_def)
qed

lemma prompt_length: "prompt l k s \<Longrightarrow> l < length (tiers s)"
  by (auto simp: prompt_def with_at_def disk_at_def split: if_split_asm)

lemma steady_stat: "steady l t k s \<Longrightarrow> steady l t k (set_stat l f s)"
  using prompt_length by (auto simp: steady_def tier_kept_stat) (simp add: set_stat_def prompt_set_tier)

lemma steady_slow_down:
  assumes "steady l t (k + 2) s" and "\<And>s' j. steady l t j s' \<Longrightarrow> \<exists>b. c s' = Inr b"
  shows "\<exists>s'. slow_down l c bump s = Inr s' \<and> steady l t k s'"
proof -
  obtain b s1 where 1: "look c s = Inr (b, s1)" "steady l t (Suc k) s1" using steady_look [of l t "Suc k" s c] assms by auto
  obtain s2 where "breathe s1 = Inr s2" "steady l t k s2" using steady_breathe [OF 1(2)] by blast
  then show ?thesis using 1 steady_stat steady_less [OF 1(2), of k] by (cases b) (auto simp: slow_down_def)
qed

lemma steady_stall:
  assumes "steady l t (Suc k) s" and "\<And>s'. steady l t k s' \<Longrightarrow> drained l s' \<Longrightarrow> c s' = Inr False"
  shows "\<exists>s'. stall l c bump s = Inr s' \<and> steady l t k s'"
proof -
  obtain s' where "wait_while c s = Inr (False, s')" "steady l t k s'" using steady_wait [OF assms(1), of c] assms(2) by blast
  then show ?thesis by (simp add: stall_def)
qed

subsection \<open>Requests\<close>

lemma HandleDiskIO_frame:
  assumes "HandleDiskIO d io = Inr d'"
  shows "hostShutdown d' = hostShutdown d" "backShutdown d' = backShutdown d" "backConcurrency d' = backConcurrency d"
    "bq_currentSize (hostQ d') = bq_currentSize (hostQ d) + (if dio_ioType io = HOST then 1 else 0)"
proof -
  have "hostShutdown d' = hostShutdown d \<and> backShutdown d' = backShutdown d \<and> backConcurrency d' = backConcurrency d \<and>
      bq_currentSize (hostQ d') = bq_currentSize (hostQ d) + (if dio_ioType io = HOST then 1 else 0)"
    using assms by (auto simp: HandleDiskIO_def bq_Put_def fault_iff split: DiskIOType.split_asm)
  then show "hostShutdown d' = hostShutdown d" "backShutdown d' = backShutdown d" "backConcurrency d' = backConcurrency d"
      "bq_currentSize (hostQ d') = bq_currentSize (hostQ d) + (if dio_ioType io = HOST then 1 else 0)" by blast+
qed

lemma steady_disk: "steady l t k s \<Longrightarrow> \<exists>d. disk_at s l = Some d \<and> diskOp (tier_at s l) = Some d \<and> l < length (tiers s) \<and> disk_ok d"
  by (auto simp: steady_def tier_kept_def prompt_def with_at_def disk_at_def disks_ok_def split: if_split_asm option.split_asm)

lemma steady_handle:
  assumes "steady l t k s" and "diskOp (tier_at s l) = Some d" and "dio_ioType io = HOST \<Longrightarrow> drained l s"
  shows "\<exists>d'. HandleDiskIO d io = Inr d' \<and> steady l t k (set_disk l d' s)"
proof -
  have d: "disk_at s l = Some d" "l < length (tiers s)" "disk_ok d" using steady_disk [OF assms(1)] assms(2) by auto
  have e: "bq_currentSize (hostQ d) = 0" if "dio_ioType io = HOST"
    using assms(3) [OF that] d(1) by (simp add: drained_def with_at_def)
  then have "dio_ioType io = HOST \<Longrightarrow> \<not> bq_IsFull (hostQ d)" using d(3) by (auto simp: bq_IsFull_def disk_ok_def ring_inv_def)
  from HandleDiskIO_ok [OF d(3) this] obtain d' where d': "HandleDiskIO d io = Inr d'" "disk_ok d'" by blast
  have "disk_at (set_disk l d' s) l = Some d'" "future (set_disk l d' s) = future s" "disks_ok (set_disk l d' s)"
    using d(2) assms(1) disks_ok_set_disk [OF _ d'(2), of s l]
    by (simp_all add: disk_at_set_disk steady_def prompt_def) (simp add: set_disk_def set_tier_def)
  then have "prompt l k (set_disk l d' s)"
    using assms(1) d(1) e HandleDiskIO_frame [OF d'(1)]
    by (cases "dio_ioType io = HOST") (simp_all add: steady_def prompt_def with_at_def)
  moreover have "quiet s (set_disk l d' s)"
    using assms(1,2) d'(2) by (simp add: quiet_def disks_ok_set_disk changes_set_disk steady_def prompt_def)
  ultimately show ?thesis using d'(1) assms(1) tier_kept_quiet by (auto simp: steady_def)
qed

lemma steady_iops: "steady l t k (s\<lparr>g_IOPS := n\<rparr>) = steady l t k s"
  by (simp add: steady_def prompt_def tier_kept_def)

lemma steady_submit_host:
  assumes "steady l t (Suc k) s" and "dio_ioType io = HOST"
  shows "\<exists>s'. submit l io s = Inr s' \<and> steady l t k s'"
proof -
  let ?s1 = "s\<lparr>g_IOPS := g_IOPS s + 1\<rparr>"
  obtain d where d: "diskOp (tier_at s l) = Some d" using steady_disk [OF assms(1)] by blast
  have "host_full l s' = Inr False" if "steady l t k s'" "drained l s'" for s'
    using steady_disk [OF that(1)] that(2)
    by (auto simp: host_full_def bq_IsFull_def drained_def with_at_def disk_ok_def ring_inv_def)
  with steady_wait [of l t k ?s1 "host_full l"] assms(1) obtain s2
    where s2: "wait_while (host_full l) ?s1 = Inr (False, s2)" "steady l t k s2" "drained l s2"
    unfolding steady_iops by blast
  obtain d2 where d2: "diskOp (tier_at s2 l) = Some d2" using steady_disk [OF s2(2)] by blast
  from steady_handle [OF s2(2) this s2(3), of io]
  obtain d3 where "HandleDiskIO d2 io = Inr d3" "steady l t k (set_disk l d3 s2)" by blast
  then show ?thesis using d d2 s2(1) assms(2) by (simp add: submit_def Let_def)
qed

lemma steady_submit_back:
  assumes "steady l t k s" and "dio_ioType io \<noteq> HOST"
  shows "\<exists>s'. submit l io s = Inr s' \<and> steady l t k s'"
proof -
  obtain d where d: "diskOp (tier_at s l) = Some d" using steady_disk [OF assms(1)] by blast
  have "steady l t k (s\<lparr>g_IOPS := g_IOPS s + 1\<rparr>)" using assms(1) by (simp add: steady_iops)
  from steady_handle [OF this, of d io] d assms(2)
  show ?thesis by (auto simp: submit_def Let_def)
qed

lemma steady_submit_all:
  "steady l t k s \<Longrightarrow> \<forall>io \<in> set ios. dio_ioType io \<noteq> HOST \<Longrightarrow> \<exists>s'. submit_all l ios s = Inr s' \<and> steady l t k s'"
proof (induction ios arbitrary: s)
  case (Cons io ios)
  then show ?case using steady_submit_back [OF Cons.prems(1), of io] by (fastforce simp: bindE_def)
qed simp

subsection \<open>Collections and tier-downs\<close>

lemma steady_start: "prompt l k s \<Longrightarrow> steady l (tier_at s l) k s"
  by (auto simp: steady_def tier_kept_def prompt_def with_at_def disk_at_def split: if_split_asm)

lemma HandleGC_prompt:
  assumes "prompt l (Suc k) s" and "layer_ok (tier_at s l)" and "sized (tier_at s l)" and "0 < free_blocks (tier_at s l)"
    and "free_blocks (tier_at s l) < unat (gcWL (tier_at s l))"
  shows "\<exists>s'. HandleGC l s = Inr s' \<and> prompt l k s'"
proof -
  have "host_busy l s' = Inr False" if "steady l (tier_at s l) k s'" "drained l s'" for s'
    using steady_disk [OF that(1)] that(2)
    by (auto simp: host_busy_def drained_def with_at_def QueryHostQueueSize_def bq_QuerySize_def)
  from steady_wait [OF steady_start [OF assms(1)], of "host_busy l", OF this]
  obtain s1 where 1: "wait_while (host_busy l) s = Inr (False, s1)" "steady l (tier_at s l) k s1" by blast
  let ?t = "tier_at s1 l"
  let ?cnt = "gcWL ?t - GetFreeBlockNum (gcModule ?t) + gcBlockCnt ?t"
  have t: "layer_ok ?t" "sized ?t" "0 < free_blocks ?t" "free_blocks ?t < unat (gcWL ?t)"
    using tier_kept_layer [of l "tier_at s l" s1] 1(2) assms(2-5) settings_fields(2) [of ?t "tier_at s l"]
    by (simp_all add: steady_def tier_kept_def)
  obtain gc out vs where 2: "GarbageCollection (gcModule ?t) (gcBlockCnt ?t) (gc_arrays (unat ?cnt)) = Inr (gc, out)"
      "length (writePageLoc out) = unat ?cnt * PAGE_NUM_PER_BLOCK"
    using GarbageCollection_layer(2) [OF t] by blast
  define s2 where "s2 = set_tier l (?t\<lparr>gcModule := gc, statModule := (statModule ?t)
               \<lparr>gcWriteCount := gcWriteCount (statModule ?t) + ucast (gcWriteCnt out),
                gcCount := gcCount (statModule ?t) + 1\<rparr>\<rparr>) s1"
  have p2: "prompt l k s2" using prompt_set_tier [of l k s1 _ l] prompt_length [of l k s1] 1(2) by (simp add: s2_def steady_def)
  have cnt: "unat (gcBlockCnt ?t) \<le> unat ?cnt" by (rule GarbageCollection_layer(1) [OF t])
  have eq: "HandleGC l s = (if gcWriteCnt out > 0
     then bindE (arr_get (writePageLoc out) 0) (\<lambda>w. submit_all l (gc_requests w 0 (move_log out)) s2) else Inr s2)"
    using 1(1) 2(1) cnt by (simp add: HandleGC_def Let_def s2_def)
  have "unat ?cnt \<noteq> 0"
  proof
    assume z: "unat ?cnt = 0"
    then have "gcBlockCnt ?t = 0" using cnt by (simp add: unat_eq_0)
    then have "gcWL ?t - GetFreeBlockNum (gcModule ?t) = 0" using z unfolding unat_eq_0 by simp
    then have "unat (gcWL ?t) = free_blocks ?t" using unat_free_blocks [OF t(1)] by simp
    then show False using t(4) by simp
  qed
  then have "arr_get (writePageLoc out) 0 = Inr (writePageLoc out ! 0)" using 2(2) by (simp add: arr_get_def)
  moreover obtain s3 where "submit_all l (gc_requests (writePageLoc out ! 0) 0 (move_log out)) s2 = Inr s3" "prompt l k s3"
    using steady_submit_all [OF steady_start [OF p2], of "gc_requests (writePageLoc out ! 0) 0 (move_log out)"]
      gc_requests_type [of "writePageLoc out ! 0" 0 "move_log out"] by (auto simp: steady_def)
  ultimately show ?thesis using eq p2 by auto
qed

lemma HandleTierDown_prompt:
  assumes "prompt l k s" and "layer_ok (tier_at s l)" and "sized (tier_at s l)"
    and "unat (tierDownWL (tier_at s l)) \<le> card (stored (tier_at s l))"
  shows "\<exists>ok ps n s'. HandleTierDown l s = Inr (ok, ps, n, s') \<and> prompt l k s'"
proof -
  let ?t = "tier_at s l"
  let ?n = "GetLogicalSizeOccupied (gcModule ?t) - tierDownWL ?t + tierDownBlockCnt ?t * 512"
  have g: "gc_inv (gcModule ?t)" and ti: "tier_inv (tierModule ?t)" and d: "dom (freq_abs (tierModule ?t)) = stored ?t"
    and al: "\<forall>k \<in> stored ?t. page_align k = k" using assms(2) by (simp_all add: layer_ok_def)
  note n = tier_down_count [OF assms(2-4)]
  have "unat (tierDownBlockCnt ?t) * PAGE_NUM_PER_BLOCK \<le> unat (tierDownWL ?t)" using assms(3) by (simp add: sized_def)
  then have "unat ?n \<le> card (dom (freq_abs (tierModule ?t)))" unfolding n d using assms(4) by linarith
  from tier_down_spec [OF ti this] obtain ps tm where td: "tier_down (unat ?n) (tierModule ?t) = Inr (ps, tm)"
     "distinct (map tp_lba ps)" "\<forall>p \<in> set ps. freq_abs (tierModule ?t) (tp_lba p) = Some (tp_freq p)" by blast
  have on: "tp_lba p \<in> dom (space_abs (gcModule ?t)) \<and> page_align (tp_lba p) = tp_lba p" if "p \<in> set ps" for p
  proof -
    have "tp_lba p \<in> stored ?t" using td(3) that d by blast
    then show ?thesis using al by (simp add: stored_def)
  qed
  from delete_pages_spec [OF g td(2) on] obtain locs gc where dp: "delete_pages (gcModule ?t) ps = Inr (locs, gc)" by blast
  define s1 where "s1 = set_tier l (?t\<lparr>gcModule := gc, tierModule := tm, statModule := (statModule ?t)
                 \<lparr>tierDownWriteCount := tierDownWriteCount (statModule ?t) + of_nat (length ps),
                  tierDownCount := tierDownCount (statModule ?t) + 1\<rparr>\<rparr>) s"
  have "prompt l k s1" using prompt_set_tier [OF assms(1) _ prompt_length [OF assms(1)]] by (simp add: s1_def)
  from steady_submit_all [OF steady_start [OF this], of "map (\<lambda>loc. read_io loc 1 BACK_TIER 0) locs"]
  obtain s2 where "submit_all l (map (\<lambda>loc. read_io loc 1 BACK_TIER 0) locs) s1 = Inr s2" "prompt l k s2"
    by (auto simp: read_io_def steady_def)
  then show ?thesis using td(1) dp by (simp add: HandleTierDown_def Let_def Tier_TierDown_def s1_def)
qed

subsection \<open>A host write\<close>

text \<open>Tier 0; the last look and what follows it, then the whole write.\<close>

lemma tier_down_prompt:
  assumes "prompt 0 (Suc k) s" and "layer_ok (tier_at s 0)" and "sized (tier_at s 0)"
  shows "\<exists>ok out s'. bindE (look (\<lambda>x. Inr (TierDownCondition 0 x)) s) (\<lambda>(tierdown, s10).
      if tierdown then bindE (HandleTierDown 0 s10) (\<lambda>(ok, pages, pageCnt, s11). Inr (ok, Some (pages, pageCnt), s11))
      else Inr (True, None, s10)) = Inr (ok, out, s') \<and> prompt 0 k s'"
proof -
  obtain b s1 where 1: "look (\<lambda>x. Inr (TierDownCondition 0 x)) s = Inr (b, s1)" "b = TierDownCondition 0 s1" "steady 0 (tier_at s 0) k s1"
    using steady_look [OF steady_start [OF assms(1)], of "\<lambda>x. Inr (TierDownCondition 0 x)"] by auto
  let ?t = "tier_at s1 0"
  have t: "layer_ok ?t" "sized ?t" "prompt 0 k s1"
    using tier_kept_layer [of 0 "tier_at s 0" s1] 1(3) assms(2,3) by (simp_all add: steady_def)
  show ?thesis
  proof (cases b)
    case True
    then have "tierDownWL ?t \<le> GetLogicalSizeOccupied (gcModule ?t)"
      using 1(2) by (auto simp: TierDownCondition_def Let_def split: option.split_asm)
    then have "unat (tierDownWL ?t) \<le> card (stored ?t)" using card_stored(2) [OF t(1,2)] by (simp add: word_le_nat_alt)
    from HandleTierDown_prompt [OF t(3,1,2) this] show ?thesis using 1(1) True by auto
  qed (use 1(1) t(3) in auto)
qed

lemma WriteHostIO_prompt:
  assumes "prompt 0 (k + 10) s" and "layer_ok (tier_at s 0)" and "sized (tier_at s 0)" and "2 \<le> free_blocks (tier_at s 0)"
  shows "\<exists>ok out s'. WriteHostIO 0 io old s = Inr (ok, out, s') \<and> prompt 0 k s'"
proof -
  let ?t = "tier_at s 0"
  have l: "0 < length (tiers s)" "disks_ok s" using steady_start [OF assms(1)] by (simp_all add: steady_def tier_kept_def)
  have gi: "gc_inv (gcModule ?t)" using assms(2) by (simp add: layer_ok_def)
  have "freeQ (gcModule ?t) \<noteq> []" using assms(4) by (auto simp: free_blocks_def)
  then have "0 < host_room (gcModule ?t)" using host_room_pos [OF gi] by simp
  from write_modules_spec [OF l(1) refl assms(2) this, of "io_lba io" "io_length io" old True]
  obtain loc gc tm where wm: "write_modules 0 (io_lba io) (io_length io) old True s = Inr (loc, set_tier 0 (?t\<lparr>gcModule := gc, tierModule := tm\<rparr>) s)"
     "layer_ok (?t\<lparr>gcModule := gc, tierModule := tm\<rparr>)" "nblocks gc = nblocks (gcModule ?t)"
     "length (freeQ gc) + (if hostBlock (gcModule ?t) = None then 1 else 0) = length (freeQ (gcModule ?t))"
    by blast
  define t1 where "t1 = ?t\<lparr>gcModule := gc, tierModule := tm\<rparr>"
  have t1: "layer_ok t1" "sized t1" "0 < free_blocks t1"
    using wm(2-4) assms(3,4) by (auto simp: t1_def sized_def free_blocks_def split: if_split_asm)
  have "prompt 0 (k + 10) (set_tier 0 t1 s)" using prompt_set_tier [OF assms(1) _ l(1)] by (simp add: t1_def)
  then have s1: "steady 0 t1 (k + 10) (set_tier 0 t1 s)" using l(1) steady_start by fastforce
  have b1: "steady 0 t1 (k + 8 + 2) (set_tier 0 t1 s)" by (rule steady_less [OF s1]) simp
  have layer: "layer_ok (tier_at s' 0) \<and> sized (tier_at s' 0) \<and> free_blocks (tier_at s' 0) = free_blocks t1" if "steady 0 t1 j s'" for j s'
    using tier_kept_layer [OF _ t1(1,2)] that by (simp add: steady_def)
  have tds: "\<exists>b. TierDownSlowCondition 0 s' = Inr b" if "steady 0 t1 j s'" for j s'
    using steady_disk [OF that] by (auto simp: TierDownSlowCondition_def TierDownSlowStallCondition_def Let_def)
  obtain s2 where s2: "slow_down 0 (\<lambda>x. Inr (GCSlowCondition (tier_at x 0))) (\<lambda>st. st\<lparr>gcSlowCount := gcSlowCount st + 1\<rparr>)
      (set_tier 0 t1 s) = Inr s2" "steady 0 t1 (k + 8) s2"
    using steady_slow_down [OF b1, of "\<lambda>x. Inr (GCSlowCondition (tier_at x 0))"] by blast
  have b2: "steady 0 t1 (k + 6 + 2) s2" by (rule steady_less [OF s2(2)]) simp
  obtain s3 where s3: "slow_down 0 (TierDownSlowCondition 0) (\<lambda>st. st\<lparr>tierSlowCount := tierSlowCount st + 1\<rparr>) s2 = Inr s3"
      "steady 0 t1 (k + 6) s3"
    using steady_slow_down [OF b2, of "TierDownSlowCondition 0"] tds by blast
  have dg: "Inr (GCStallCondition (tier_at s' 0)) = (Inr False :: fault + bool)" if "steady 0 t1 j s'" "drained 0 s'" for j s'
    using steady_disk [OF that(1)] that(2)
    by (auto simp: GCStallCondition_def drained_def with_at_def QueryGCQueueSize_def uq_QuerySize_def unat_eq_0)
  have dt: "TierDownStallCondition 0 s' = Inr False" if "steady 0 t1 j s'" "drained 0 s'" for j s'
    using steady_disk [OF that(1)] that(2)
    by (auto simp: TierDownStallCondition_def TierDownSlowStallCondition_def Let_def drained_def with_at_def QueryTierQueueSize_def
        uq_QuerySize_def unat_eq_0)
  have b3: "steady 0 t1 (Suc (k + 5)) s3" by (rule steady_less [OF s3(2)]) simp
  obtain s4 where s4: "stall 0 (\<lambda>x. Inr (GCStallCondition (tier_at x 0))) (\<lambda>st. st\<lparr>gcStallCount := gcStallCount st + 1\<rparr>) s3 = Inr s4"
      "steady 0 t1 (k + 5) s4"
    using steady_stall [OF b3, of "\<lambda>x. Inr (GCStallCondition (tier_at x 0))"] dg by blast
  have b4: "steady 0 t1 (Suc (k + 4)) s4" by (rule steady_less [OF s4(2)]) simp
  obtain s5 where s5: "stall 0 (TierDownStallCondition 0) (\<lambda>st. st\<lparr>tierStallCount := tierStallCount st + 1\<rparr>) s4 = Inr s5"
      "steady 0 t1 (k + 4) s5"
    using steady_stall [OF b4, of "TierDownStallCondition 0"] dt by blast
  have b5: "steady 0 t1 (Suc (k + 3)) s5" by (rule steady_less [OF s5(2)]) simp
  obtain s6 where s6: "DiskWrite 0 loc 1 HOST (now s) s5 = Inr s6" "steady 0 t1 (k + 3) s6"
    using steady_submit_host [OF b5, of "write_io loc 1 HOST (now s)"] by (auto simp: DiskWrite_def write_io_def)
  define s7 where "s7 = set_stat 0 (\<lambda>st. st\<lparr>hostWriteCount := hostWriteCount st + 1\<rparr>) s6"
  have b7: "steady 0 t1 (Suc (Suc (Suc k))) s7" by (rule steady_less [of _ _ "k + 3"]) (simp_all add: s7_def steady_stat s6(2))
  obtain g s8 where s8: "look (\<lambda>x. Inr (GCCondition (tier_at x 0))) s7 = Inr (g, s8)" "g = GCCondition (tier_at s8 0)"
      "steady 0 t1 (Suc (Suc k)) s8"
    using steady_look [OF b7, of "\<lambda>x. Inr (GCCondition (tier_at x 0))"] by auto
  have p8: "prompt 0 (Suc (Suc k)) s8" and l8: "layer_ok (tier_at s8 0)" "sized (tier_at s8 0)" "0 < free_blocks (tier_at s8 0)"
    using s8(3) layer [OF s8(3)] t1(3) by (simp_all add: steady_def)
  have low: "free_blocks (tier_at s8 0) < unat (gcWL (tier_at s8 0))" if g
    using that s8(2) unat_free_blocks [OF l8(1)] by (auto simp: GCCondition_def word_less_nat_alt split: option.split_asm)
  have "\<exists>s9. (if g then HandleGC 0 s8 else Inr s8) = Inr s9 \<and> prompt 0 (Suc k) s9 \<and> layer_ok (tier_at s9 0) \<and> sized (tier_at s9 0)"
  proof (cases g)
    case True
    obtain s9 where s9: "HandleGC 0 s8 = Inr s9" "prompt 0 (Suc k) s9" using HandleGC_prompt [OF p8 l8 low [OF True]] by blast
    have d8: "disks_ok s8" "0 < length (tiers s8)" "diskOp (tier_at s8 0) \<noteq> None" using steady_disk [OF s8(3)] s8(3) by (auto simp: steady_def prompt_def)
    have "collected (tier_at s8 0) (tier_at s9 0)"
      using ensures_Inr [OF HandleGC_spec [OF d8(1,2) refl l8(1,2) d8(3) l8(3) low [OF True]] s9(1)] by simp
    then show ?thesis using s9 True l8(2) settings_fields [of "tier_at s9 0" "tier_at s8 0"] by (auto simp: collected_def sized_def)
  qed (use l8 prompt_less [OF p8] in simp)
  then obtain s9 where s9: "(if g then HandleGC 0 s8 else Inr s8) = Inr s9" "prompt 0 (Suc k) s9" "layer_ok (tier_at s9 0)" "sized (tier_at s9 0)"
    by blast
  from tier_down_prompt [OF s9(2-4)] show ?thesis
    unfolding WriteHostIO_def WriteHostIO_by_def Let_def using wm(1) s2(1) s3(1) s4(1) s5(1) s6(1) s8(1) s9(1) by (simp add: t1_def s7_def)
qed

end
