(* ===== verification/Storage_Sustain.thy ===== *)
theory Storage_Sustain
  imports Storage_Runs Layer_Prompt
begin

text \<open>
  A store with disks can be written to for ever. Each write takes one page of tier 0; before the free
  blocks of the tier can run out, the write waits for the last collection, and its own collection gains
  at least as much. \<open>lasting\<close> is what every write keeps: the level of the tier stays below
  \<open>tierDownStallWL\<close>, and its room above the water level at which writes wait.
\<close>

definition lasting :: "nat \<Rightarrow> StorageSystem \<Rightarrow> bool" where
  "lasting w st \<longleftrightarrow> (let t = tier_at (sys st) 0 in
     storage_ok st \<and> targets (ioScheduler st) = {0} \<and> sized t \<and> diskOp t \<noteq> None \<and>
     gcBlockCnt t \<noteq> 0 \<and> 3 \<le> unat (gcStallWL t) \<and> gcStallWL t < gcWL t \<and>
     unat (tierDownStallWL t) = w \<and> tierDownBlockCnt t \<noteq> 0 \<and> tierDownWL t \<le> tierDownStallWL t \<and>
     unat (tierDownStallWL t) < 503 * (nblocks (gcModule t) - unat (gcStallWL t) - 2) \<and>
     PAGE_NUM_PER_BLOCK * (unat (gcStallWL t) + 1) \<le> all_room (gcModule t) \<and>
     card (stored t) < unat (tierDownStallWL t))"

lemma lasting_free:
  assumes "lasting w st"
  shows "2 \<le> free_blocks (tier_at (sys st) 0)"
proof -
  let ?g = "gcModule (tier_at (sys st) 0)"
  have "PAGE_NUM_PER_BLOCK * 4 \<le> all_room ?g" using assms by (simp add: lasting_def Let_def)
  then show ?thesis using all_room_bound [of ?g] by (simp add: free_blocks_def)
qed

lemma lasting_write:
  assumes "lasting w st"
  shows "ensures (Storage_WriteHostIO io st) (\<lambda>(ok, st'). lasting w st')"
proof -
  let ?s = "sys st"
  let ?t = "tier_at ?s 0" and ?p = "page_align (io_lba io)"
  have st: "storage_ok st" "targets (ioScheduler st) = {0}" "sized ?t" "diskOp ?t \<noteq> None" "gcBlockCnt ?t \<noteq> 0"
      "gcStallWL ?t < gcWL ?t" "tierDownBlockCnt ?t \<noteq> 0" "tierDownWL ?t \<le> tierDownStallWL ?t"
      "unat (tierDownStallWL ?t) < 503 * (nblocks (gcModule ?t) - unat (gcStallWL ?t) - 2)"
      "PAGE_NUM_PER_BLOCK * (unat (gcStallWL ?t) + 1) \<le> all_room (gcModule ?t)" "card (stored ?t) < unat (tierDownStallWL ?t)"
    using assms by (simp_all add: lasting_def Let_def)
  have fr: "2 \<le> free_blocks ?t" by (rule lasting_free [OF assms])
  have wr0: "writable 0 ?s" using st(3,4) fr by (simp add: writable_def del: not_None_eq)
  then have wr: "\<forall>l \<in> targets (ioScheduler st). writable l ?s" using st(2) by simp
  have s: "disks_ok ?s" "length (tiers ?s) = TIER_NUM" "layer_ok ?t" "layer_ok (tier_at ?s 1)"
    using st(1) by (simp_all add: storage_ok_def store_ok_def)
  have lt: "0 < length (tiers ?s)" using s(2) by simp
  note spec = Storage_WriteHostIO_spec [OF st(1) wr, of io]
  show ?thesis
  proof (cases "Storage_WriteHostIO io st")
    case (Inr r)
    then obtain ok st' where w: "Storage_WriteHostIO io st = Inr (ok, st')" by (cases r) simp
    obtain ok1 out s1 where h: "WriteHostIO 0 io zero_freq ?s = Inr (ok1, out, s1)" "host_written ?p ?t out (tier_at s1 0)"
        "storage_ok st'" "ioScheduler st' = ioScheduler st" "settings (tier_at (sys st') 0) = settings ?t"
        "nblocks (gcModule (tier_at (sys st') 0)) = nblocks (gcModule ?t)"
        "gcModule (tier_at (sys st') 0) = gcModule (tier_at s1 0)" "stored (tier_at (sys st') 0) = stored (tier_at s1 0)"
      using Storage_write_tier0 [OF st(1,2) wr0 w] by blast
    have "card (insert ?p (stored ?t)) \<le> unat (tierDownStallWL ?t)"
      using st(11) card_insert_le_m1 [of "unat (tierDownStallWL ?t)" "stored ?t" ?p] by simp
    then have "card (insert ?p (stored ?t)) < 503 * (nblocks (gcModule ?t) - unat (gcStallWL ?t) - 2)" using st(9) by simp
    note sus = WriteHostIO_sustained [OF s(1) lt refl s(3) st(3) fr st(4) calm_0 h(1) st(5,6) this]
    have "card (stored (tier_at s1 0)) < unat (tierDownStallWL ?t)"
    proof (cases out)
      case None
      then show ?thesis using sus(2) st(8) by simp
    next
      case (Some x)
      obtain ps m where x: "x = (ps, m)" by (cases x)
      have "unat (tierDownBlockCnt ?t) \<noteq> 0" using st(7) by (metis unat_0 word_unat_eq_iff)
      moreover have "card (stored (tier_at s1 0)) + unat (tierDownBlockCnt ?t) * PAGE_NUM_PER_BLOCK = unat (tierDownWL ?t)"
        using h(2) unfolding host_written_def Some x option.case prod.case by (elim conjE)
      ultimately have "card (stored (tier_at s1 0)) < unat (tierDownWL ?t)" by linarith
      then show ?thesis using st(8) by (simp add: word_le_nat_alt)
    qed
    moreover have "PAGE_NUM_PER_BLOCK * (unat (gcStallWL ?t) + 1) \<le> all_room (gcModule (tier_at s1 0))"
      using sus(1) st(10) by linarith
    ultimately have "lasting w st'"
      using assms h(3,4,6-8) settings_fields [OF h(5)] by (simp add: lasting_def Let_def sized_def del: not_None_eq)
    then show ?thesis using w by simp
  qed (use spec in simp)
qed

lemma lasting_unmoved:
  assumes "lasting w st" and "unmoved (sys st) (sys st')" and "ioScheduler st' = ioScheduler st"
    and "settings (tier_at (sys st') 0) = settings (tier_at (sys st) 0)"
  shows "lasting w st'"
proof -
  have ok: "storage_ok st" using assms(1) by (simp add: lasting_def Let_def)
  then have "0 < length (tiers (sys st))" by (simp add: storage_ok_def store_ok_def)
  then have "gcModule (tier_at (sys st') 0) = gcModule (tier_at (sys st) 0)" "stored (tier_at (sys st') 0) = stored (tier_at (sys st) 0)"
    using assms(2) by (simp_all add: unmoved_def stored_def)
  then show ?thesis
    using assms(1,3) unmoved_storage [OF ok assms(2,3)] settings_fields [OF assms(4)]
    by (simp add: lasting_def Let_def sized_def del: not_None_eq)
qed

lemma Storage_Report_steps:
  "Storage_Report st = Inr st' \<Longrightarrow> \<exists>d fd. diskOp (tier_at (reset_stat 1 (reset_stat 0 (sys st))) 0) = Some d \<and>
     st' = st\<lparr>sys := set_disk 0 (d\<lparr>slowCount := 0, stallCount := 0\<rparr>) (reset_stat 1 (reset_stat 0 (sys st))), reportFD := fd\<rparr>"
  by (auto simp: Storage_Report_def Let_def fault_iff split: option.split_asm)

lemma Storage_Report_settings:
  assumes "Storage_Report st = Inr st'" and "length (tiers (sys st)) = TIER_NUM"
  shows "settings (tier_at (sys st') l) = settings (tier_at (sys st) l)"
proof -
  let ?s1 = "reset_stat 0 (sys st)"
  obtain d fd where d: "diskOp (tier_at (reset_stat 1 ?s1) 0) = Some d"
      "st' = st\<lparr>sys := set_disk 0 (d\<lparr>slowCount := 0, stallCount := 0\<rparr>) (reset_stat 1 ?s1), reportFD := fd\<rparr>"
    using Storage_Report_steps [OF assms(1)] by blast
  have r: "settings (tier_at (reset_stat k s) l) = settings (tier_at s l)" "length (tiers (reset_stat k s)) = TIER_NUM"
    if "length (tiers s) = TIER_NUM" "k < TIER_NUM" for k s
    using that by (simp_all add: reset_stat_def set_stat_def settings_def)
  have "settings (tier_at (set_disk 0 x s) l) = settings (tier_at s l)" if "length (tiers s) = TIER_NUM" "diskOp (tier_at s 0) = Some d" for x s
    using that by (simp add: set_disk_def settings_def)
  then have "settings (tier_at (sys st') l) = settings (tier_at (reset_stat 1 ?s1) l)" using d r assms(2) by simp
  then show ?thesis using r [of ?s1 1] r [of "sys st" 0] assms(2) by simp
qed

subsection \<open>Prompt disks\<close>

lemma delete_others_prompt:
  "delete_others m lba len is s = Inr s' \<Longrightarrow> prompt l k s \<Longrightarrow> \<forall>i \<in> set is. i < length (tiers s) \<Longrightarrow> prompt l k s'"
proof (induction "is" arbitrary: s)
  case (Cons i js)
  show ?case
  proof (cases "i = m")
    case False
    then obtain s1 where 1: "DeleteData i lba len s = Inr s1" "delete_others m lba len js s1 = Inr s'" using Cons.prems(1) by (auto simp: fault_iff)
    then have "prompt l k s1 \<and> length (tiers s1) = length (tiers s)"
      using prompt_set_tier [OF Cons.prems(2), of _ i] Cons.prems(2,3) by (auto simp: DeleteData_def fault_iff split: if_split_asm)
    then show ?thesis using Cons.IH [OF 1(2)] Cons.prems(3) by simp
  qed (use Cons in simp)
qed simp

lemma lasting_write_returns:
  assumes "lasting w st" and "prompt 0 (k + 10) (sys st)"
  shows "\<exists>ok st'. Storage_WriteHostIO io st = Inr (ok, st') \<and> lasting w st' \<and> prompt 0 k (sys st')"
proof -
  let ?s = "sys st"
  have st: "storage_ok st" "targets (ioScheduler st) = {0}" "sized (tier_at ?s 0)" "diskOp (tier_at ?s 0) \<noteq> None"
    using assms by (simp_all add: lasting_def Let_def)
  have fr: "2 \<le> free_blocks (tier_at ?s 0)" by (rule lasting_free [OF assms(1)])
  have s: "disks_ok ?s" "length (tiers ?s) = TIER_NUM" "layer_ok (tier_at ?s 0)" "layer_ok (tier_at ?s 1)"
    using st(1) by (simp_all add: storage_ok_def store_ok_def)
  have lt: "0 < length (tiers ?s)" using s(2) by simp
  obtain ok out s1 where h1: "WriteHostIO 0 io zero_freq ?s = Inr (ok, out, s1)" "prompt 0 k s1"
    using WriteHostIO_prompt [OF assms(2) s(3) st(3) fr] by blast
  have a: "disks_ok s1" "changes {0} ?s s1"
    using WriteHostIO_spec [OF s(1) lt refl s(3) st(3) fr _ calm_0, of io zero_freq] h1(1) st(4) by simp_all
  then have len: "length (tiers s1) = TIER_NUM" and "same_core (tier_at ?s 1) (tier_at s1 1)" using s(2) by (auto simp: changes_def)
  then have l1: "layer_ok (tier_at s1 (1 - 0))" using same_core_ok(1) s(4) by simp
  obtain s2 where h2: "delete_others 0 (io_lba io) (io_length io) [0..<TIER_NUM] s1 = Inr s2"
    using delete_others_spec [OF a(1) len l1, of "io_lba io" "io_length io"] by auto
  obtain st' where st': "Storage_WriteHostIO io st = Inr (ok, st')" "sys st' = s2"
    using WriteIOAux_steps [OF h1(1) h2] Storage_WriteHostIO_tier0 [OF st(1,2)] by auto
  then show ?thesis using lasting_write [OF assms(1), of io] delete_others_prompt [OF h2 h1(2)] len by auto
qed

lemma Storage_Report_prompt:
  assumes "Storage_Report st = Inr st'" and "length (tiers (sys st)) = TIER_NUM" and "prompt 0 k (sys st)"
  shows "prompt 0 k (sys st')"
proof -
  let ?s2 = "reset_stat 1 (reset_stat 0 (sys st))"
  obtain d fd where d: "diskOp (tier_at ?s2 0) = Some d"
      "st' = st\<lparr>sys := set_disk 0 (d\<lparr>slowCount := 0, stallCount := 0\<rparr>) ?s2, reportFD := fd\<rparr>" (is "_ = st\<lparr>sys := set_disk 0 ?d _, reportFD := _\<rparr>")
    using Storage_Report_steps [OF assms(1)] by blast
  have r: "prompt 0 k (reset_stat i s)" "length (tiers (reset_stat i s)) = TIER_NUM"
    if "prompt 0 k s" "length (tiers s) = TIER_NUM" "i < TIER_NUM" for i s
    using that prompt_set_tier [OF that(1)] by (simp_all add: reset_stat_def set_stat_def)
  have p: "prompt 0 k ?s2" "length (tiers ?s2) = TIER_NUM" using r assms(2,3) by simp_all
  have "disk_at ?s2 0 = Some d" using d(1) p(2) by (simp add: disk_at_def)
  moreover have "disk_ok d" using p d(1) unfolding prompt_def disks_ok_def by (metis zero_less_numeral)
  then have "disk_ok ?d" by (simp add: disk_ok_def)
  moreover have "disk_at (set_disk 0 ?d ?s2) 0 = Some ?d" "future (set_disk 0 ?d ?s2) = future ?s2"
    using p(2) by (simp_all add: disk_at_set_disk) (simp add: set_disk_def set_tier_def)
  ultimately show ?thesis using p(1) disks_ok_set_disk [of ?s2 ?d 0] d(2) by (simp add: prompt_def with_at_def)
qed

end
