(* ===== verification/Instance_Sustain.thy ===== *)
theory Instance_Sustain
  imports Instance_Fresh Instance_Properties Storage_Sustain
begin

text \<open>
  The program with disks: whatever it is told to write, and however long the workload, no request faults.
\<close>

subsection \<open>Requests\<close>

lemma lasting_serve:
  assumes "lasting w st" and "io_op io \<noteq> Some READ"
  shows "ensures (serve_round io (st, n)) (\<lambda>(st', n'). lasting w st')"
proof -
  have "ensures (serve_io io st) (lasting w)"
  proof (cases "io_op io")
    case (Some op)
    then have "op = WRITE" using assms(2) by (cases op) simp_all
    then show ?thesis using Some by (auto simp: serve_io_def intro: ensures_bind [OF lasting_write [OF assms(1)]])
  qed (simp add: serve_io_def assms(1))
  then show ?thesis unfolding serve_round_def Let_def prod.case
  proof (rule ensures_bind)
    fix st1 assume l: "lasting w st1"
    then have ok: "storage_ok st1" "diskOp (tier_at (sys st1) 0) \<noteq> None" by (simp_all add: lasting_def Let_def)
    then obtain d where "diskOp (tier_at (sys st1) 0) = Some d" by blast
    from Storage_Report_spec [OF ok(1) this]
    obtain st2 where st2: "Storage_Report st1 = Inr st2" "unmoved (sys st1) (sys st2)" "ioScheduler st2 = ioScheduler st1" by blast
    have "length (tiers (sys st1)) = TIER_NUM" using ok(1) by (simp add: storage_ok_def store_ok_def)
    then have "lasting w st2" using lasting_unmoved [OF l st2(2,3)] Storage_Report_settings [OF st2(1)] by simp
    then show "ensures (if (n + 1) div IO_TIMES \<noteq> 0 then bindE (Storage_Report st1) (\<lambda>st2. Inr (st2, 0)) else Inr (st1, n + 1))
        (\<lambda>(st', n'). lasting w st')" using st2(1) l by simp
  qed
qed

lemma lasting_serve_all:
  assumes "lasting w st" and "\<forall>io \<in> set ios. io_op io \<noteq> Some READ"
  shows "ensures (serve_all ios (st, n)) (\<lambda>(st', n'). lasting w st')"
  using assms
proof (induction ios arbitrary: st n)
  case (Cons io ios)
  have "ensures (serve_round io (st, n)) (\<lambda>(st', n'). lasting w st')" by (rule lasting_serve) (use Cons.prems in simp_all)
  then show ?case using Cons by (auto intro!: ensures_bind)
qed simp



lemma lasting_same: "same_store a b \<Longrightarrow> lasting w a = lasting w b"
  by (simp add: same_store_def lasting_def Let_def storage_ok_def)

subsection \<open>Flags that let the store last\<close>

text \<open>
  Disks and no bypass; the stall level of tier 0 plus half the water level of its collection leave four percent of the
  device, and half the water level of the collection is at least three blocks.
\<close>

definition enduring :: "Flags \<Rightarrow> bool" where
  "enduring fl \<longleftrightarrow> sane fl \<and> FLAGS_enableFlush fl \<and> \<not> FLAGS_enableByPass fl \<and> 0 \<le> FLGAS_tierdownLimitOffset fl \<and>
     FLAGS_tierdownWaterLevel fl + FLGAS_tierdownLimitOffset fl + FLAGS_gcWaterLevel fl div 2 \<le> 96 \<and>
     300 \<le> FLAGS_t0BlockCount fl * (FLAGS_gcWaterLevel fl div 2)"

text \<open>The levels of tier 0: \<open>n\<close> blocks, water level \<open>g\<close> percent, stall level of the tier-down \<open>a\<close> percent.\<close>

lemma enduring_levels:
  assumes "100 \<le> (n :: int)" and "0 \<le> g" and "1 \<le> a" and "a + g div 2 \<le> 96" and "300 \<le> n * (g div 2)"
  shows "3 \<le> n * (g div 2) div 100" and "n * (g div 2) div 100 < n * g div 100" and "n * (g div 2) div 100 + 1 \<le> n"
    and "n * 512 * a div 100 < 503 * (n - n * (g div 2) div 100 - 2)" and "0 < n * 512 * a div 100"
proof -
  define h where "h = g div 2"
  define H where "H = n * h"
  define A where "A = n * a"
  have h: "0 \<le> h" "h + 1 \<le> g" using assms(2,5) by (auto simp: h_def) (cases "g = 0 \<or> g = 1"; auto)
  have s: "A + H \<le> n * 96" unfolding A_def H_def distrib_left [symmetric]
    by (rule mult_left_mono) (use assms(1,4) in \<open>simp_all add: h_def\<close>)
  have G: "H + n \<le> n * g" using mult_left_mono [OF h(2), of n] assms(1) by (simp add: H_def distrib_left)
  have A: "n \<le> A" using mult_left_mono [OF assms(3), of n] assms(1) by (simp add: A_def)
  have H: "300 \<le> H" using assms(5) by (simp add: H_def h_def)
  have e: "n * (g div 2) = H" "n * 512 * a = 512 * A" by (simp_all add: H_def h_def A_def)
  show "3 \<le> n * (g div 2) div 100" "n * (g div 2) div 100 < n * g div 100" "n * (g div 2) div 100 + 1 \<le> n"
    unfolding e using s G A H assms(1) by linarith+
  have "x < 503 * (n - y - 2)" if "100 * x \<le> 512 * A" "100 * y \<le> H" for x y
  proof -
    have "100 * x < 50300 * n - 50300 * y - 100600" using that s H assms(1) by linarith
    then have "100 * x < 100 * (503 * (n - y - 2))" by (simp add: right_diff_distrib)
    then show ?thesis by simp
  qed
  then show "n * 512 * a div 100 < 503 * (n - n * (g div 2) div 100 - 2)" unfolding e by simp
  have "100 * 512 \<le> 512 * A" using A assms(1) by linarith
  then show "0 < n * 512 * a div 100" unfolding e by linarith
qed

definition stall_level :: "Flags \<Rightarrow> nat" where
  "stall_level fl = nat (FLAGS_t0BlockCount fl * 512 * (FLAGS_tierdownWaterLevel fl + FLGAS_tierdownLimitOffset fl) div 100)"

lemma enduring_lasts:
  assumes "enduring fl" and "CreateStorageSystemInstance j1 j2 behind t fut fl = Inr st"
  shows "lasting (stall_level fl) st"
proof -
  let ?n = "FLAGS_t0BlockCount fl" and ?g = "FLAGS_gcWaterLevel fl" and ?w = "FLAGS_tierdownWaterLevel fl"
  let ?a = "?w + FLGAS_tierdownLimitOffset fl" and ?t = "tier_at (sys st) 0"
  have sn: "sane fl" "FLAGS_enableFlush fl" "\<not> FLAGS_enableByPass fl" using assms(1) by (simp_all add: enduring_def)
  have r: "100 \<le> ?n" "?n \<le> 4000000" "0 \<le> ?g" "?g \<le> 100" "1 \<le> ?w" "?w \<le> ?a" "?a + ?g div 2 \<le> 96" "300 \<le> ?n * (?g div 2)"
    using assms(1) by (auto simp: sane_def enduring_def)
  have h: "0 \<le> ?g div 2" "?g div 2 \<le> 100" "1 \<le> ?a" "?a \<le> 100" "0 \<le> ?n" "?w \<le> 100" using r by linarith+
  note lv = enduring_levels [OF r(1,3) h(3) r(7,8)]
  obtain st0 where "CreateStorageSystemInstance j1 j2 behind t fut fl = Inr st0" "storage_ok st0"
      "writable 0 (sys st0)" "ioScheduler st0 = CreateIOScheduler j1 j2 (schedulerConf (instance_conf fl))"
      "diskOp (tier_at (sys st0) 0) = None \<longleftrightarrow> \<not> FLAGS_enableFlush fl"
    using sane_instance [OF sn(1), of j1 j2 behind t fut] by (elim exE conjE) (rule that)
  then have st: "storage_ok st" "writable 0 (sys st)" "targets (ioScheduler st) = {0}" "diskOp ?t \<noteq> None"
    using assms(2) sn(2,3) by (simp_all add: targets_def CreateIOScheduler_def instance_conf_def)
  have f: "fresh_tier (layer0Conf fl) ?t"
  proof -
    have conf: "layerConf (instance_conf fl) = [layer0Conf fl, layer1Conf fl]" by (simp add: instance_conf_def)
    have "\<not> idealEnable (schedulerConf (instance_conf fl))" "\<not> normalEnable (schedulerConf (instance_conf fl))"
      using sn(3) by (simp_all add: instance_conf_def)
    then show ?thesis
      using CreateStorageSystem_spec [OF conf sane_creatable [OF sn(1)], of j1 j2 behind t fut] assms(2)
      by (auto simp: CreateStorageSystemInstance_def)
  qed
  have nb: "unat (of_int ?n :: u32) = nat ?n" using r by (intro unat_of_int32) simp_all
  have hs: "?g sdiv 2 = ?g div 2" by (rule sdiv_nonneg) (use r in simp_all)
  have gw: "unat (gcWL ?t) = nat (?n * ?g div 100)" "unat (gcStallWL ?t) = nat (?n * (?g div 2) div 100)"
    using f percent(1) [OF h(5) r(2-4)] percent(1) [OF h(5) r(2) h(1,2)] by (simp_all add: fresh_tier_def layer0Conf_def Let_def hs)
  have e: "tierDownWL ?t = ucast ((of_int ?n * 512 * of_int ?w :: u64) div 100)"
      "tierDownStallWL ?t = ucast ((of_int ?n * 512 * of_int ?a :: u64) div 100)"
    using f by (simp_all only: fresh_tier_def layer0Conf_def Let_def LayerModuleConfigure.select_convs)
  have wa: "0 \<le> ?w" "0 \<le> ?a" using r h by linarith+
  have tw: "unat (tierDownWL ?t) = nat (?n * 512 * ?w div 100)" "unat (tierDownStallWL ?t) = nat (?n * 512 * ?a div 100)"
    unfolding e by (rule level_pages [OF h(5) r(2) wa(1) h(6)], rule level_pages [OF h(5) r(2) wa(2) h(4)])
  have ne: "unat (of_int (max 1 (?n * p sdiv 100)) :: u32) \<noteq> 0" if "0 \<le> p" "p \<le> 100" for p
    using percent_max [OF h(5) r(2) that] by simp
  have nb': "free_blocks ?t = nat ?n" "nblocks (gcModule ?t) = nat ?n" "stored ?t = {}"
    using f nb by (simp_all add: fresh_tier_def layer0Conf_def Let_def gc_conf_def)
  have "gcBlockCnt ?t \<noteq> 0" "tierDownBlockCnt ?t \<noteq> 0"
    using f ne [of "FLAGS_gcBlockRatio fl"] ne [of "FLAGS_tierdownBlockRatio fl"] sn(1)
    by (auto simp: fresh_tier_def layer0Conf_def Let_def sane_def)
  moreover have "3 \<le> unat (gcStallWL ?t)" "gcStallWL ?t < gcWL ?t" "0 < unat (tierDownStallWL ?t)"
    unfolding word_less_nat_alt gw tw using lv(1,2,5) by linarith+
  moreover have "tierDownWL ?t \<le> tierDownStallWL ?t"
    unfolding word_le_nat_alt tw using r(1,6) by (intro nat_mono zdiv_mono1 mult_left_mono) simp_all
  moreover have "unat (tierDownStallWL ?t) < 503 * (nblocks (gcModule ?t) - unat (gcStallWL ?t) - 2)"
  proof -
    have scaled: "nat (503 * z) = 503 * nat z" for z by (simp add: nat_mult_distrib)
    have "nat (?n * 512 * ?a div 100) < nat (503 * (?n - ?n * (?g div 2) div 100 - 2))" using lv(4,5) by linarith
    also have "\<dots> = 503 * nat (?n - ?n * (?g div 2) div 100 - 2)" by (rule scaled)
    also have "nat (?n - ?n * (?g div 2) div 100 - 2) = nat ?n - nat (?n * (?g div 2) div 100) - 2" using lv(1) by linarith
    finally show ?thesis unfolding tw gw nb' .
  qed
  moreover have "PAGE_NUM_PER_BLOCK * (unat (gcStallWL ?t) + 1) \<le> all_room (gcModule ?t)"
  proof -
    have "PAGE_NUM_PER_BLOCK * (unat (gcStallWL ?t) + 1) \<le> PAGE_NUM_PER_BLOCK * length (freeQ (gcModule ?t))"
      unfolding gw nb'(1) [unfolded free_blocks_def] using lv(1,3) by (intro mult_le_mono2) linarith
    then show ?thesis using all_room_le [of "gcModule ?t"] by linarith
  qed
  moreover have "unat (tierDownStallWL ?t) = stall_level fl" using tw(2) by (simp add: stall_level_def)
  ultimately show ?thesis
    using st nb'(3) by (simp add: lasting_def Let_def writable_def del: not_None_eq)
qed

subsection \<open>The program\<close>

lemma reached_lasting:
  assumes "enduring fl" and "CreateStorageSystemInstance j1 j2 behind t fut fl = Inr st"
    and "\<forall>io \<in> set ios. io_op io \<noteq> Some READ" and "n \<noteq> 0" and "program_step\<^sup>*\<^sup>* (program_start n ios st) s" and "\<not> disturbed s"
  shows "lasting (stall_level fl) (store s)" and "storage s = Serving io \<Longrightarrow> io_op io \<noteq> Some READ"
proof -
  obtain served st1 where sv: "serve_all served (st, 0) = Inr (st1, p_count s)" "same_store st1 (store s)"
      "set (served @ to_serve s) \<subseteq> insert zero_IO (set ios)"
    using all_requests [OF reachable_invs(2) [OF assms(5,4,6)]] by metis
  have w: "\<forall>io \<in> set (served @ to_serve s). io_op io \<noteq> Some READ" using sv(3) assms(3) by (fastforce simp: zero_IO_def)
  then have "lasting (stall_level fl) st1" using lasting_serve_all [OF enduring_lasts [OF assms(1,2)], of served 0] sv(1) by simp
  then show "lasting (stall_level fl) (store s)" using lasting_same [OF sv(2)] by simp
  show "io_op io \<noteq> Some READ" if "storage s = Serving io" using w that by (simp add: to_serve_def)
qed

text \<open>C5: With disks and such flags no write ever faults, however many there are and whatever pages they name: in
  every state that the threads of the program reach, as long as the tier-down thread clears nothing that \<open>HandleTierDown\<close>
  is using and no push returns from its wait unsignalled, the store is consistent, tier 0 holds fewer pages than its
  stall level, and the request in hand is served, or waits for the threads of the disk (\<open>Diverged\<close>).\<close>

theorem disks_never_fault:
  assumes "enduring fl" and "CreateStorageSystemInstance j1 j2 behind t fut fl = Inr st"
    and "\<forall>io \<in> set ios. io_op io \<noteq> Some READ" and "n \<noteq> 0" and "program_step\<^sup>*\<^sup>* (program_start n ios st) s" and "\<not> disturbed s"
  shows "storage_ok (store s) \<and> card (holds 0 (store s)) < stall_level fl \<and>
    (\<forall>io e. storage s = Serving io \<longrightarrow> serve_round io (store s, p_count s) = Inl e \<longrightarrow> e = Diverged)"
proof -
  note l = reached_lasting(1) [OF assms]
  have "e = Diverged" if "storage s = Serving io" "serve_round io (store s, p_count s) = Inl e" for io e
    using lasting_serve [OF l reached_lasting(2) [OF assms that(1)], of "p_count s"] that(2) by simp
  then show ?thesis using l by (auto simp: lasting_def Let_def)
qed

text \<open>Flags for disks that last and whose threads live.\<close>

definition lively :: "Flags \<Rightarrow> bool" where
  "lively fl \<longleftrightarrow> 1 \<le> FLAGS_hostConcurrency fl \<and> FLAGS_hostConcurrency fl < 4294967296 \<and>
     1 \<le> FLAGS_backConcurrency fl \<and> FLAGS_backConcurrency fl < 4294967296"



text \<open>A hundred blocks, tier-down from 80 percent on, disks; and one batch of the schedule.\<close>

lemma flush_flags_enduring: "enduring flush_flags" "lively flush_flags"
  using small_flags_sane
  by (simp_all add: enduring_def lively_def sane_def flush_flags_def small_flags_def default_flags_def reservedSpaceRatio_def)

theorem disks_never_fault_witness:
  "\<exists>st. CreateStorageSystemInstance 0 0 0 0 [] flush_flags = Inr st \<and>
     card (holds 0 (store (program_start 128 (replicate 10 a_write) st))) < stall_level flush_flags"
proof -
  obtain st where st: "CreateStorageSystemInstance 0 0 0 0 [] flush_flags = Inr st" using flush_instance by blast
  have "\<forall>io \<in> set (replicate 10 a_write). io_op io \<noteq> Some READ" by (simp add: a_write_def)
  then show ?thesis
    using disks_never_fault [OF flush_flags_enduring(1) st, of "replicate 10 a_write" 128 "program_start 128 (replicate 10 a_write) st"] st
    by (auto simp: program_start_def)
qed




end
