(* ===== verification/Instance_Crash.thy ===== *)
theory Instance_Crash
  imports Instance_Fresh
begin

text \<open>
  Without disks no workload of 100000 writes comes to its end: either the free blocks of tier 0 reach the
  water level of its collection, which asks the disk there is none, or the report after \<open>IO_TIMES\<close> requests does.
\<close>

subsection \<open>One write\<close>

lemma WriteHostIO_spacious_room:
  assumes "alone l s" and "0 < host_room (gcModule (tier_at s l))" and "spacious (tier_at s l)"
  shows "returns (WriteHostIO l io old s) (\<lambda>(ok, out, s'). PAGE_NUM_PER_BLOCK * unat (gcWL (tier_at s l)) \<le> host_room (gcModule (tier_at s' l)))"
proof -
  let ?w = "unat (gcWL (tier_at s l))"
  obtain t1 s7 where t1: "layer_ok t1" "diskOp t1 = None" "settings t1 = settings (tier_at s l)"
      "free_blocks t1 + (if hostBlock (gcModule (tier_at s l)) = None then 1 else 0) = free_blocks (tier_at s l)" "tier_kept l t1 s7"
      "WriteHostIO l io old s = bindE (look (\<lambda>x. Inr (GCCondition (tier_at x l))) s7) (\<lambda>(g, s8).
        bindE (if g then HandleGC l s8 else Inr s8) (\<lambda>s9.
        bindE (look (\<lambda>x. Inr (TierDownCondition l x)) s9) (\<lambda>(tierdown, s10).
        if tierdown then bindE (HandleTierDown l s10) (\<lambda>(ok, ps, n, s11). Inr (ok, Some (ps, n), s11))
        else Inr (True, None, s10))))"
    using WriteHostIO_alone_steps [OF assms(1) refl assms(2), of io old] by blast
  let ?k = "host_room (gcModule t1)"
  have high: "\<not> free_blocks t1 < unat (gcWL t1)" using assms(3) t1(4) settings_fields(2) [OF t1(3)] by (simp add: spacious_def)
  have "PAGE_NUM_PER_BLOCK * free_blocks t1 \<le> ?k" by (simp add: host_room_def free_blocks_def)
  moreover have "PAGE_NUM_PER_BLOCK * ?w \<le> PAGE_NUM_PER_BLOCK * free_blocks t1"
    using high settings_fields(2) [OF t1(3)] by (intro mult_le_mono2) simp
  ultimately have k: "PAGE_NUM_PER_BLOCK * ?w \<le> ?k" by linarith
  have solo: "with_room l (unat (gcWL t1)) ?k s'" if "tier_kept l t1 s'" for s'
    using that t1(1,2) settings_fields(2,8) [of "tier_at s' l" t1]
    by (simp add: with_room_def alone_def tier_kept_def layer_ok_def stored_def)
  have td: "returns (bindE (look (\<lambda>x. Inr (TierDownCondition l x)) s9) (\<lambda>(tierdown, s10).
        if tierdown then bindE (HandleTierDown l s10) (\<lambda>(ok, ps, n, s11). Inr (ok, Some (ps, n), s11))
        else Inr (True, None, s10))) (\<lambda>(ok, out, s'). PAGE_NUM_PER_BLOCK * ?w \<le> host_room (gcModule (tier_at s' l)))"
    if s9: "tier_kept l t1 s9" for s9
  proof -
    obtain b s10 where 10: "look (\<lambda>x. Inr (TierDownCondition l x)) s9 = Inr (b, s10)" "tier_kept l t1 s10"
      using tier_kept_look [OF s9, of "TierDownCondition l"] by auto
    have "returns (HandleTierDown l s10) (\<lambda>(ok, ps, n, s'). host_room (gcModule (tier_at s' l)) = ?k)"
      by (rule HandleTierDown_room [OF solo [OF 10(2)]])
    then have "returns (bindE (HandleTierDown l s10) (\<lambda>(ok, ps, n, s11). Inr (ok, Some (ps, n), s11)))
        (\<lambda>(ok, out, s'). PAGE_NUM_PER_BLOCK * ?w \<le> host_room (gcModule (tier_at s' l)))"
      by (rule returns_bind) (use k in auto)
    then show ?thesis using 10 k by (simp add: tier_kept_def)
  qed
  obtain s8 where s8: "look (\<lambda>x. Inr (GCCondition (tier_at x l))) s7 = Inr (False, s8)" "tier_kept l t1 s8"
    using tier_kept_look [OF t1(5), of "\<lambda>x. GCCondition (tier_at x l)"] tier_kept_GCCondition [OF _ t1(1,2)] high by auto
  show ?thesis using td [OF s8(2)] s8(1) by (simp add: t1(6))
qed

subsection \<open>Many writes\<close>

text \<open>A store that writes only to tier 0, which has no disk and a page left; \<open>w\<close> is its water level.\<close>

definition diskless :: "nat \<Rightarrow> StorageSystem \<Rightarrow> bool" where
  "diskless w st \<longleftrightarrow> storage_ok st \<and> targets (ioScheduler st) = {0} \<and> alone 0 (sys st) \<and> sized (tier_at (sys st) 0) \<and>
     unat (gcWL (tier_at (sys st) 0)) = w \<and> 0 < host_room (gcModule (tier_at (sys st) 0))"

lemma diskless_write:
  assumes "diskless w st" and "2 \<le> w"
  shows "Storage_WriteHostIO io st = Inl NullDeref \<or> (\<exists>ok st'. Storage_WriteHostIO io st = Inr (ok, st') \<and> diskless w st')"
proof -
  let ?t = "tier_at (sys st) 0"
  have st: "storage_ok st" "targets (ioScheduler st) = {0}" "alone 0 (sys st)" "sized ?t" "unat (gcWL ?t) = w" "0 < host_room (gcModule ?t)"
    using assms(1) by (simp_all add: diskless_def)
  have n: "diskOp ?t = None" using st(3) by (simp add: alone_def)
  show ?thesis
  proof (cases "spacious ?t")
    case False
    have "WriteHostIO 0 io zero_freq (sys st) = Inl NullDeref" by (rule WriteHostIO_needs_disk [OF st(3,6) False])
    then show ?thesis using Storage_WriteHostIO_tier0 [OF st(1,2)] by (simp add: WriteIOAux_def)
  next
    case True
    then have "writable 0 (sys st)" using st(4,5) assms(2) by (simp add: writable_def) (simp add: spacious_def)
    note wr = this
    obtain ok st' where w: "Storage_WriteHostIO io st = Inr (ok, st')" using Storage_WriteHostIO_alone [OF st(1) wr n st(2)] by blast
    obtain ok1 out s1 where h: "WriteHostIO 0 io zero_freq (sys st) = Inr (ok1, out, s1)" "storage_ok st'" "ioScheduler st' = ioScheduler st"
        "settings (tier_at (sys st') 0) = settings ?t" "nblocks (gcModule (tier_at (sys st') 0)) = nblocks (gcModule ?t)"
        "gcModule (tier_at (sys st') 0) = gcModule (tier_at s1 0)"
      using Storage_write_tier0 [OF st(1,2) wr w] by blast
    have "PAGE_NUM_PER_BLOCK * w \<le> host_room (gcModule (tier_at s1 0))"
      using WriteHostIO_spacious_room [OF st(3,6) True, of io zero_freq] h(1) st(5) by simp
    then have "0 < host_room (gcModule (tier_at (sys st') 0))" using h(6) assms(2) by simp
    moreover note f = settings_fields [OF h(4)]
    have "alone 0 (sys st')" using h(2) f(8) n by (simp add: alone_def storage_ok_def store_ok_def)
    moreover have "sized (tier_at (sys st') 0)" using st(4) f h(5) by (simp add: sized_def)
    ultimately have "diskless w st'" using h(2,3) st(2,5) f by (simp add: diskless_def)
    then show ?thesis using w by blast
  qed
qed

lemma diskless_serve:
  assumes "diskless w st" and "2 \<le> w" and "io_op io \<noteq> Some READ" and "c < IO_TIMES"
  shows "serve_round io (st, c) = Inl NullDeref \<or>
    c + 1 < IO_TIMES \<and> (\<exists>st'. serve_round io (st, c) = Inr (st', c + 1) \<and> diskless w st')"
proof -
  have io: "serve_io io st = Inl NullDeref \<or> (\<exists>st'. serve_io io st = Inr st' \<and> diskless w st')"
  proof (cases "io_op io")
    case (Some op)
    then have "op = WRITE" using assms(3) by (cases op) simp_all
    then show ?thesis using Some diskless_write [OF assms(1,2), of io] by (auto simp: serve_io_def)
  qed (simp add: serve_io_def assms(1))
  have r: "Storage_Report st1 = Inl NullDeref" if "diskless w st1" for st1
    using that Storage_Report_no_disk by (simp add: diskless_def alone_def)
  have "c + 1 \<noteq> IO_TIMES \<Longrightarrow> c + 1 < IO_TIMES"
    using assms(4) unat_inc32 [of c] by (auto simp: word_less_nat_alt word_unat_eq_iff)
  then show ?thesis using io r count_div [OF assms(4)] by (auto simp: serve_round_def)
qed

lemma diskless_crashes:
  assumes "\<forall>io \<in> set ios. io_op io \<noteq> Some READ" and "diskless w st" and "2 \<le> w" and "c < IO_TIMES"
    and "100000 \<le> unat c + length ios"
  shows "serve_all ios (st, c) = Inl NullDeref"
  using assms
proof (induction ios arbitrary: st c)
  case Nil
  then show ?case by (simp add: word_less_nat_alt)
next
  case (Cons io ios)
  have "io_op io \<noteq> Some READ" using Cons.prems(1) by simp
  from diskless_serve [OF Cons.prems(2,3) this Cons.prems(4)] show ?case
  proof
    assume "c + 1 < IO_TIMES \<and> (\<exists>st'. serve_round io (st, c) = Inr (st', c + 1) \<and> diskless w st')"
    then obtain st' where 1: "serve_round io (st, c) = Inr (st', c + 1)" "diskless w st'" "c + 1 < IO_TIMES" by blast
    have "unat (c + 1) = Suc (unat c)" using Cons.prems(4) by (intro unat_inc32) (simp add: word_less_nat_alt)
    then show ?thesis using Cons.IH [OF _ 1(2) Cons.prems(3) 1(3)] Cons.prems(1,5) 1(1) by simp
  qed simp
qed

subsection \<open>The program\<close>

text \<open>C29: Configured with sane flags but without disks, with a water level of at least two blocks, a program whose
  workload is at least 100000 writes dereferences a null pointer while it serves them, in the collection or in the report;
  its storage thread never ends, as long as the tier-down thread clears nothing that \<open>HandleTierDown\<close> is using and
  no push returns from its wait unsignalled.\<close>

theorem no_disks_no_end:
  assumes "sane fl" and "\<not> FLAGS_enableFlush fl" and "200 \<le> FLAGS_t0BlockCount fl * FLAGS_gcWaterLevel fl"
    and "CreateStorageSystemInstance j1 j2 behind t fut fl = Inr st"
    and "\<forall>io \<in> set ios. io_op io = Some WRITE" and "100000 \<le> length ios"
    and "n \<noteq> 0" and "program_step\<^sup>*\<^sup>* (program_start n ios st) s" and "\<not> disturbed s"
  shows "serve_all ios (st, 0) = Inl NullDeref \<and> storage s \<noteq> Ended"
proof -
  let ?w = "nat (FLAGS_t0BlockCount fl * FLAGS_gcWaterLevel fl div 100)"
  obtain k where k: "nat (FLAGS_t0BlockCount fl) * 512 \<le> k" "fit ?w k st" using sane_fit(1) [OF assms(1,2,4)] by blast
  have "100 \<le> FLAGS_t0BlockCount fl" using assms(1) by (simp add: sane_def)
  then have "0 < k" using k(1) by linarith
  then have d: "diskless ?w st" using k(2) by (simp add: diskless_def fit_def with_room_def)
  have w: "2 \<le> ?w" using assms(3) by linarith
  have c: "serve_all xs (st, 0) = Inl NullDeref" if "set xs \<subseteq> insert zero_IO (set ios)" "length ios \<le> length xs" for xs
  proof (rule diskless_crashes [OF _ d w])
    show "\<forall>io \<in> set xs. io_op io \<noteq> Some READ" using that(1) assms(5) by (fastforce simp: zero_IO_def)
  qed (use that(2) assms(6) in simp_all)
  have False if e: "storage s = Ended"
  proof -
    note i = reachable_invs [OF assms(8,7,9)]
    obtain served st1 where "serve_all served (st, 0) = Inr (st1, p_count s)" "set (served @ to_serve s) \<subseteq> insert zero_IO (set ios)"
        "length ios \<le> length (served @ to_serve s)" using all_requests [OF i(2)] by metis
    moreover have "to_serve s = []" using ended_all [OF i(1) e] e by (simp add: to_serve_def)
    ultimately show False using c [of served] by simp
  qed
  then show ?thesis using c [of ios] by blast
qed

theorem no_disks_no_end_witness:
  "\<exists>st. CreateStorageSystemInstance 0 0 0 0 [] small_flags = Inr st \<and> serve_all (replicate 100000 a_write) (st, 0) = Inl NullDeref"
proof -
  obtain st where st: "CreateStorageSystemInstance 0 0 0 0 [] small_flags = Inr st" using small_instance by blast
  have "\<forall>io \<in> set (replicate 100000 a_write). io_op io = Some WRITE" by (simp add: a_write_def)
  moreover have "\<not> FLAGS_enableFlush small_flags" "200 \<le> FLAGS_t0BlockCount small_flags * FLAGS_gcWaterLevel small_flags"
    by (simp_all add: small_flags_def default_flags_def)
  moreover have "(128 :: u32) \<noteq> 0" "\<not> disturbed (program_start 128 (replicate 100000 a_write) st)" by (simp_all add: program_start_def)
  ultimately show ?thesis using no_disks_no_end [OF small_flags_sane _ _ st] st by (metis length_replicate order_refl rtranclp.rtrancl_refl)
qed

end
