(* ===== verification/Random_Source.thy ===== *)
theory Random_Source
  imports Double Workload
begin

text \<open>
  The random sources behind the generators: src/src/utility/zipfian.cc (the Zipf distribution over
  \<open>int\<close>) and random.cc, with \<open>Rand64\<close> of infracture.h and the time stamp of time.h, in the
  double arithmetic of theory \<open>Double\<close>. Of the C++ library, \<open>pow\<close> is the
  argument \<open>pw\<close>, \<open>generate_canonical\<close> on an engine the argument \<open>canon\<close>, and
  a \<open>uniform_int_distribution\<close> applied to an engine the argument \<open>draw\<close>; each of the latter returns
  its value and the engine it leaves.

  \<open>None\<close> stands for a result the language leaves undefined, an \<open>int\<close> that overflows or the
  conversion of a double that is no \<open>int\<close>, and for the infinity or NaN of a division by 0 where it is
  used, which the model does not follow further.
\<close>

subsection \<open>The Zipf distribution\<close>

definition to_int :: "int \<Rightarrow> int option" where
  "to_int n = (if - (2 ^ 31) \<le> n \<and> n < 2 ^ 31 then Some n else None)"

text \<open>\<open>b - a + 1\<close>, evaluated in \<open>int\<close>.\<close>

definition range_size :: "int \<Rightarrow> int \<Rightarrow> int option" where
  "range_size a b = Option.bind (to_int (b - a)) (\<lambda>d. to_int (d + 1))"

record zipf_param =
  M_a :: int
  M_b :: int
  M_theta :: rat
  M_zeta :: rat
  M_zeta2theta :: rat

definition zeta :: "(rat \<Rightarrow> rat \<Rightarrow> rat) \<Rightarrow> nat \<Rightarrow> rat \<Rightarrow> rat" where
  "zeta pw n theta = fold (\<lambda>i ans. fl (ans + pw (fl (1 / fl (of_nat i))) theta)) [1..<Suc n] 0"

text \<open>The constructor that computes zeta; the \<open>int\<close> becomes an \<open>unsigned long\<close>.\<close>

definition param_type :: "(rat \<Rightarrow> rat \<Rightarrow> rat) \<Rightarrow> int \<Rightarrow> int \<Rightarrow> rat \<Rightarrow> zipf_param option" where
  "param_type pw a b theta = Option.bind (range_size a b) (\<lambda>n.
     Some \<lparr>M_a = a, M_b = b, M_theta = theta, M_zeta = zeta pw (unat (of_int n :: u64)) theta,
       M_zeta2theta = zeta pw 2 theta\<rparr>)"

definition param_type_zeta :: "(rat \<Rightarrow> rat \<Rightarrow> rat) \<Rightarrow> int \<Rightarrow> int \<Rightarrow> rat \<Rightarrow> rat \<Rightarrow> zipf_param" where
  "param_type_zeta pw a b theta z =
     \<lparr>M_a = a, M_b = b, M_theta = theta, M_zeta = z, M_zeta2theta = zeta pw 2 theta\<rparr>"

definition param_eq :: "zipf_param \<Rightarrow> zipf_param \<Rightarrow> bool" where
  "param_eq p q \<longleftrightarrow> M_a p = M_a q \<and> M_b p = M_b q \<and> M_theta p = M_theta q \<and> M_zeta p = M_zeta q \<and>
     M_zeta2theta p = M_zeta2theta q"

definition fl_div :: "rat \<Rightarrow> rat \<Rightarrow> rat option" where
  "fl_div x y = (if y = 0 then None else Some (fl (x / y)))"

definition zipf_eta :: "(rat \<Rightarrow> rat \<Rightarrow> rat) \<Rightarrow> zipf_param \<Rightarrow> int \<Rightarrow> rat option" where
  "zipf_eta pw p n =
     Option.bind (fl_div 2 (of_int n)) (\<lambda>x.
     Option.bind (fl_div (M_zeta2theta p) (M_zeta p)) (\<lambda>z.
     fl_div (fl (1 - pw x (fl (1 - M_theta p)))) (fl (1 - z))))"

text \<open>\<open>operator()\<close> on the canonical number \<open>u\<close>; the conversion to \<open>int\<close> truncates.\<close>

definition toward_zero :: "rat \<Rightarrow> int" where
  "toward_zero x = (if 0 \<le> x then \<lfloor>x\<rfloor> else \<lceil>x\<rceil>)"

definition zipf_draw :: "(rat \<Rightarrow> rat \<Rightarrow> rat) \<Rightarrow> zipf_param \<Rightarrow> rat \<Rightarrow> int option" where
  "zipf_draw pw p u =
     Option.bind (range_size (M_a p) (M_b p)) (\<lambda>n.
     let uz = fl (u * M_zeta p) in
     if uz < 1 then Some (M_a p)
     else if uz < fl (1 + pw (1/2) (M_theta p)) then to_int (M_a p + 1)
     else Option.bind (fl_div 1 (fl (1 - M_theta p))) (\<lambda>alpha.
       Option.bind (zipf_eta pw p n) (\<lambda>eta.
       to_int (toward_zero (fl (of_int (M_a p) + fl (of_int n * pw (fl (fl (fl (eta * u) - eta) + 1)) alpha)))))))"

text \<open>A function with two static objects: only its first call looks at its arguments.\<close>

definition Zipf :: "(rat \<Rightarrow> rat \<Rightarrow> rat) \<Rightarrow> ('e \<Rightarrow> rat \<times> 'e) \<Rightarrow> 'e \<Rightarrow> int \<Rightarrow> int \<Rightarrow> rat \<Rightarrow> (zipf_param \<times> 'e) option \<Rightarrow>
    (int \<times> (zipf_param \<times> 'e) option) option" where
  "Zipf pw canon e0 mn mx theta st =
     Option.bind (case st of Some s \<Rightarrow> Some s | None \<Rightarrow> map_option (\<lambda>p. (p, e0)) (param_type pw mn mx theta)) (\<lambda>(p, e).
     let (u, e1) = canon e in
     Option.bind (zipf_draw pw p u) (\<lambda>v. Some (v, Some (p, e1))))"

record 'e ZipfGen =
  zg_engine :: 'e
  zg_distribution :: zipf_param

record ZipfGenConfigure =
  zcf_min :: u64
  zcf_max :: u64
  zcf_theta :: rat

text \<open>The bounds become \<open>int\<close>s: their low 32 bits, signed.\<close>

definition int_of_u64 :: "u64 \<Rightarrow> int" where
  "int_of_u64 x = sint (ucast x :: u32)"

definition GenerateZipfGen :: "(rat \<Rightarrow> rat \<Rightarrow> rat) \<Rightarrow> 'e \<Rightarrow> ZipfGenConfigure \<Rightarrow> 'e ZipfGen option" where
  "GenerateZipfGen pw e0 conf =
     Option.bind (param_type pw (int_of_u64 (zcf_min conf)) (int_of_u64 (zcf_max conf)) (zcf_theta conf)) (\<lambda>p.
     Some \<lparr>zg_engine = e0, zg_distribution = p\<rparr>)"

definition Zipf_NextValue :: "(rat \<Rightarrow> rat \<Rightarrow> rat) \<Rightarrow> ('e \<Rightarrow> rat \<times> 'e) \<Rightarrow> 'e ZipfGen \<Rightarrow> (u64 \<times> 'e ZipfGen) option" where
  "Zipf_NextValue pw canon g =
     (let (u, e1) = canon (zg_engine g) in
      Option.bind (zipf_draw pw (zg_distribution g) u) (\<lambda>v. Some (of_int v, g\<lparr>zg_engine := e1\<rparr>)))"

subsection \<open>The uniform source\<close>

record 'e RandomGen =
  rng :: 'e
  dist_min :: u64
  dist_max :: u64

record RandomGenConfigure =
  rc_min :: u32
  rc_max :: u32

definition GenerateRandomGen :: "'e \<Rightarrow> RandomGenConfigure \<Rightarrow> 'e RandomGen" where
  "GenerateRandomGen e0 conf = \<lparr>rng = e0, dist_min = ucast (rc_min conf), dist_max = ucast (rc_max conf)\<rparr>"

definition Random_NextValue :: "(u64 \<Rightarrow> u64 \<Rightarrow> 'e \<Rightarrow> u64 \<times> 'e) \<Rightarrow> 'e RandomGen \<Rightarrow> u32 \<times> 'e RandomGen" where
  "Random_NextValue draw g =
     (let (v, e1) = draw (dist_min g) (dist_max g) (rng g) in (ucast v, g\<lparr>rng := e1\<rparr>))"

subsection \<open>Facts\<close>

lemma param_eq_iff: "param_eq p q \<longleftrightarrow> p = q"
  by (cases p; cases q) (simp add: param_eq_def)

lemma Zipf_ignores_arguments: "Zipf pw canon e0 mn mx theta (Some s) = Zipf pw canon e0' mn' mx' theta' (Some s)"
  by (simp add: Zipf_def)

text \<open>What is documented of \<open>pow\<close>, as far as the distribution relies on it.\<close>

definition pow_ok :: "(rat \<Rightarrow> rat \<Rightarrow> rat) \<Rightarrow> bool" where
  "pow_ok pw \<longleftrightarrow> (\<forall>x y. 0 \<le> x \<longrightarrow> x \<le> 1 \<longrightarrow> 0 \<le> y \<longrightarrow> 0 \<le> pw x y \<and> pw x y \<le> 1)"

lemma pow_okD: "pow_ok pw \<Longrightarrow> 0 \<le> x \<Longrightarrow> x \<le> 1 \<Longrightarrow> 0 \<le> y \<Longrightarrow> 0 \<le> pw x y \<and> pw x y \<le> 1"
  by (simp add: pow_ok_def)

lemma inverse_range: "0 \<le> fl (1 / fl (of_nat i))" "fl (1 / fl (of_nat i)) \<le> 1"
proof -
  have "fl (1 / fl (of_nat i)) \<le> fl 1"
  proof (rule fl_mono)
    show "1 / fl (of_nat i) \<le> 1"
    proof (cases "i = 0")
      case False
      then have "fl 1 \<le> fl (of_nat i)" by (intro fl_mono) simp
      then show ?thesis by simp
    qed simp
  qed
  then show "0 \<le> fl (1 / fl (of_nat i))" "fl (1 / fl (of_nat i)) \<le> 1" by simp_all
qed

lemma zeta_Suc: "zeta pw (Suc n) theta = fl (zeta pw n theta + pw (fl (1 / fl (of_nat (Suc n)))) theta)"
  by (simp add: zeta_def)

lemma zeta_0 [simp]: "zeta pw 0 theta = 0"
  by (simp add: zeta_def)

lemma zeta_rounded: "fl (zeta pw n theta) = zeta pw n theta"
  by (cases n) (simp_all add: zeta_Suc)

text \<open>Zeta grows with the number of summands, rounding included.\<close>

lemma zeta_mono:
  assumes "pow_ok pw" and "0 \<le> theta" and "m \<le> n"
  shows "zeta pw m theta \<le> zeta pw n theta"
  using assms(3)
proof (induction rule: dec_induct)
  case (step n)
  have "0 \<le> pw (fl (1 / fl (of_nat (Suc n)))) theta"
    using pow_okD [OF assms(1) inverse_range assms(2)] by blast
  then have "fl (zeta pw n theta) \<le> zeta pw (Suc n) theta"
    unfolding zeta_Suc by (intro fl_mono) simp
  then show ?case using step by (simp add: zeta_rounded)
qed simp

lemma zeta_nonneg: "pow_ok pw \<Longrightarrow> 0 \<le> theta \<Longrightarrow> 0 \<le> zeta pw n theta"
  using zeta_mono [of pw theta 0 n] by simp

lemma range_size_eq: "a \<le> b \<Longrightarrow> b - a + 1 < 2 ^ 31 \<Longrightarrow> range_size a b = Some (b - a + 1)"
  by (simp add: range_size_def to_int_def)

lemma range_size_D: "range_size a b = Some n \<Longrightarrow> n = b - a + 1 \<and> n < 2 ^ 31"
  by (auto simp: range_size_def to_int_def split: bind_splits if_split_asm)

lemma fl_eta_range:
  assumes "0 \<le> u" and "u \<le> 1" and "0 \<le> eta" and "eta \<le> 1" and "fl eta = eta"
  shows "0 \<le> fl (fl (fl (eta * u) - eta) + 1)" and "fl (fl (fl (eta * u) - eta) + 1) \<le> 1"
proof -
  have "fl (eta * u) \<le> fl eta" by (rule fl_mono) (simp add: assms(1-3) mult_left_le)
  then have d: "fl (eta * u) - eta \<le> 0" using assms(5) by simp
  have "0 \<le> fl (eta * u)" using assms by simp
  then have "fl (of_int (- 1)) \<le> fl (fl (eta * u) - eta)" using assms(4) by (intro fl_mono) simp
  then have "- 1 \<le> fl (fl (eta * u) - eta)" using fl_int [of "- 1"] by simp
  then show "0 \<le> fl (fl (fl (eta * u) - eta) + 1)" by simp
  have "fl (fl (eta * u) - eta) \<le> 0" using fl_mono [OF d] by simp
  then have "fl (fl (fl (eta * u) - eta) + 1) \<le> fl 1" by (intro fl_mono) simp
  then show "fl (fl (fl (eta * u) - eta) + 1) \<le> 1" by simp
qed

lemma toward_zero_mono: "x \<le> y \<Longrightarrow> toward_zero x \<le> toward_zero y"
proof -
  assume a: "x \<le> y"
  consider "0 \<le> x" | "x < 0" "0 \<le> y" | "y < 0" by linarith
  then show ?thesis
  proof cases
    case 2
    then have "\<lceil>x\<rceil> \<le> 0" "0 \<le> \<lfloor>y\<rfloor>" by simp_all
    then have "\<lceil>x\<rceil> \<le> \<lfloor>y\<rfloor>" by (rule order_trans)
    then show ?thesis using 2 by (simp add: toward_zero_def)
  qed (use a in \<open>simp_all add: toward_zero_def floor_mono ceiling_mono\<close>)
qed

lemma toward_zero_int: "toward_zero (of_int n) = n"
  by (simp add: toward_zero_def)

text \<open>Scaling a fraction by the size of the range and moving it to the range.\<close>

lemma scaled_range:
  assumes "0 \<le> q" and "q \<le> 1" and "0 \<le> n" and "\<bar>a\<bar> \<le> 2 ^ 31" and "\<bar>a + n\<bar> \<le> 2 ^ 31" and "n < 2 ^ 31"
  shows "a \<le> toward_zero (fl (of_int a + fl (of_int n * q)))" and "toward_zero (fl (of_int a + fl (of_int n * q))) \<le> a + n"
proof -
  have "fl (of_int n * q) \<le> fl (of_int n)" using assms(1-3) by (intro fl_mono) (simp add: mult_left_le)
  then have "fl (of_int n * q) \<le> of_int n" using fl_int [of n] assms by simp
  moreover have "0 \<le> fl (of_int n * q)" using assms by simp
  ultimately have "of_int a \<le> of_int a + fl (of_int n * q)" "of_int a + fl (of_int n * q) \<le> of_int (a + n)" by simp_all
  then have "fl (of_int a) \<le> fl (of_int a + fl (of_int n * q))" "fl (of_int a + fl (of_int n * q)) \<le> fl (of_int (a + n))"
    by (blast intro: fl_mono)+
  moreover have "fl (of_int a) = of_int a" "fl (of_int (a + n)) = of_int (a + n)"
    by (rule fl_int, use assms(4) in simp) (rule fl_int, use assms(5) in simp)
  ultimately show "a \<le> toward_zero (fl (of_int a + fl (of_int n * q)))" "toward_zero (fl (of_int a + fl (of_int n * q))) \<le> a + n"
    using toward_zero_mono toward_zero_int by metis+
qed

lemma zipf_eta_nonneg:
  assumes "pow_ok pw" and "0 \<le> M_theta p" and "M_theta p \<le> 1" and "2 \<le> n"
    and "0 \<le> M_zeta2theta p" and "M_zeta2theta p \<le> M_zeta p" and "zipf_eta pw p n = Some eta"
  shows "0 \<le> eta" and "fl eta = eta"
proof -
  have x: "0 \<le> fl (2 / of_int n)" "fl (2 / of_int n) \<le> 1"
    using assms(4) fl_mono [of "2 / of_int n" 1] by simp_all
  have e: "0 \<le> fl (1 - M_theta p)" using assms(3) by simp
  have pw: "pw (fl (2 / of_int n)) (fl (1 - M_theta p)) \<le> 1" using pow_okD [OF assms(1) x e] by blast
  have "fl (M_zeta2theta p / M_zeta p) \<le> fl 1" using assms(5,6) by (intro fl_mono) (auto simp: divide_le_eq_1)
  then have z: "0 \<le> fl (1 - fl (M_zeta2theta p / M_zeta p))" by simp
  have "eta = fl (fl (1 - pw (fl (2 / of_int n)) (fl (1 - M_theta p))) / fl (1 - fl (M_zeta2theta p / M_zeta p)))"
    using assms(7) by (auto simp: zipf_eta_def fl_div_def split: bind_splits if_split_asm)
  then show "0 \<le> eta" "fl eta = eta" using pw z by simp_all
qed

text \<open>A draw lies between \<open>a\<close> and \<open>b + 1\<close>.\<close>

lemma zipf_draw_range:
  assumes "pow_ok pw" and "0 \<le> M_theta p" and "M_theta p < 1" and "M_a p < M_b p"
    and "- (2 ^ 31) \<le> M_a p" and "M_b p + 1 < 2 ^ 31" and "M_b p - M_a p + 1 < 2 ^ 31"
    and "0 \<le> M_zeta2theta p" and "M_zeta2theta p \<le> M_zeta p"
    and "zipf_eta pw p (M_b p - M_a p + 1) = Some eta" and "eta \<le> 1" and "0 \<le> u" and "u \<le> 1"
  shows "\<exists>v. zipf_draw pw p u = Some v \<and> M_a p \<le> v \<and> v \<le> M_b p + 1"
proof -
  define n where "n = M_b p - M_a p + 1"
  have n: "range_size (M_a p) (M_b p) = Some n" "2 \<le> n" "n < 2 ^ 31" "M_a p + n = M_b p + 1"
    using assms(4,7) by (simp_all add: n_def range_size_eq)
  have eta: "zipf_eta pw p n = Some eta" "0 \<le> eta" "fl eta = eta"
    using assms(10) zipf_eta_nonneg [OF assms(1,2) _ n(2) assms(8,9)] assms(3) by (auto simp: n_def)
  have "0 < fl (1 - M_theta p)" using assms(3) by (simp add: fl_sign)
  then obtain alpha where alpha: "fl_div 1 (fl (1 - M_theta p)) = Some alpha" "0 \<le> alpha"
    by (simp add: fl_div_def)
  let ?q = "pw (fl (fl (fl (eta * u) - eta) + 1)) alpha"
  let ?v = "toward_zero (fl (of_int (M_a p) + fl (of_int n * ?q)))"
  have "0 \<le> ?q \<and> ?q \<le> 1"
    using pow_okD [OF assms(1) fl_eta_range [OF assms(12,13) eta(2) assms(11) eta(3)] alpha(2)] .
  then have v: "M_a p \<le> ?v" "?v \<le> M_b p + 1"
    using scaled_range [of ?q n "M_a p"] n assms(4-6) by simp_all
  then have "to_int ?v = Some ?v" using assms(5,6) by (simp add: to_int_def)
  moreover have "to_int (M_a p + 1) = Some (M_a p + 1)" using assms(4-6) by (simp add: to_int_def)
  ultimately show ?thesis using n(1) alpha(1) eta(1) v assms(4) by (simp add: zipf_draw_def Let_def)
qed

text \<open>The source that \<open>CreateZipfGenerator\<close> makes for a device of less than 2^22 blocks.\<close>

lemma int_of_small: "unat x < 2 ^ 31 \<Longrightarrow> int_of_u64 x = int (unat x)"
proof -
  assume "unat x < 2 ^ 31"
  then have "unat x < 2147483648" by simp
  then have x: "0 \<le> int (unat x)" "int (unat x) < 2147483648" by linarith+
  have "uint (ucast x :: u32) = take_bit 32 (int (unat x))" by (simp add: unsigned_ucast_eq)
  also have "\<dots> = int (unat x)" by (rule take_bit_int_eq_self [OF x(1)]) (use x(2) in simp)
  finally have u: "uint (ucast x :: u32) = int (unat x)" .
  have "- 2147483648 \<le> int (unat x)" using x(1) by linarith
  then have "signed_take_bit 31 (int (unat x)) = int (unat x)"
    using x(2) by (intro signed_take_bit_int_eq_self) simp_all
  then show ?thesis unfolding int_of_u64_def sint_uint u by simp
qed

lemma GenerateZipfGen_spec:
  assumes "unat maxBlocks < 4194304"
  shows "GenerateZipfGen pw e0 \<lparr>zcf_min = 0, zcf_max = lba_count maxBlocks, zcf_theta = theta\<rparr> =
    Some \<lparr>zg_engine = e0, zg_distribution = \<lparr>M_a = 0, M_b = int (unat maxBlocks * 512), M_theta = theta,
      M_zeta = zeta pw (unat maxBlocks * 512 + 1) theta, M_zeta2theta = zeta pw 2 theta\<rparr>\<rparr>"
proof -
  define k where "k = unat maxBlocks * 512"
  have k: "k < 2 ^ 31 - 1" using assms by (simp add: k_def)
  have b: "int_of_u64 (lba_count maxBlocks) = int k" "int_of_u64 0 = 0"
    using k int_of_small [of "lba_count maxBlocks"] int_of_small [of 0] unat_lba_count [of maxBlocks] by (simp_all add: k_def)
  have n: "range_size 0 (int k) = Some (int k + 1)"
    using k range_size_eq [of 0 "int k"] by simp
  have "unat (of_int (int k + 1) :: u64) = unat (of_nat (k + 1) :: u64)" by (simp add: add.commute)
  also have "\<dots> = k + 1" using k by (intro unat_of_nat_len64) simp
  finally show ?thesis unfolding k_def [symmetric] by (simp add: GenerateZipfGen_def param_type_def b n)
qed

text \<open>With 2^22 blocks the upper bound becomes negative, and zeta is a sum over nearly 2^64 numbers.\<close>

lemma zeta_of_large_device:
  "range_size (int_of_u64 0) (int_of_u64 (lba_count 4194304)) = Some (1 - 2 ^ 31)"
  "unat (of_int (1 - 2 ^ 31) :: u64) = 18446744071562067969"
  by (simp_all add: int_of_u64_def lba_count_def range_size_def to_int_def)

lemma zipf_next_range:
  assumes "pow_ok pw" and "0 < maxBlocks" and "unat maxBlocks < 4194304" and "0 \<le> theta" and "theta < 1"
    and "GenerateZipfGen pw e0 \<lparr>zcf_min = 0, zcf_max = lba_count maxBlocks, zcf_theta = theta\<rparr> = Some g"
    and "zipf_eta pw (zg_distribution g) (int (unat maxBlocks * 512 + 1)) = Some eta" and "eta \<le> 1"
    and "canon e = (u, e1)" and "0 \<le> u" and "u \<le> 1"
  shows "\<exists>v. Zipf_NextValue pw canon (g\<lparr>zg_engine := e\<rparr>) = Some (v, g\<lparr>zg_engine := e1\<rparr>) \<and> unat v \<le> unat maxBlocks * 512 + 1"
proof -
  let ?p = "zg_distribution g"
  define k where "k = unat maxBlocks * 512"
  have g: "M_a ?p = 0" "M_b ?p = int k" "M_theta ?p = theta"
      "M_zeta ?p = zeta pw (k + 1) theta" "M_zeta2theta ?p = zeta pw 2 theta"
    using assms(6) unfolding GenerateZipfGen_spec [OF assms(3)] k_def [symmetric] by auto
  have b: "0 < k" "k < 2 ^ 31 - 1" using assms(2,3) word_less_nat_alt [of 0 maxBlocks] by (simp_all add: k_def)
  have "\<exists>v. zipf_draw pw ?p u = Some v \<and> M_a ?p \<le> v \<and> v \<le> M_b ?p + 1"
  proof (rule zipf_draw_range [OF assms(1)])
    show "M_zeta2theta ?p \<le> M_zeta ?p" unfolding g using b by (intro zeta_mono assms) simp
    show "zipf_eta pw ?p (M_b ?p - M_a ?p + 1) = Some eta" using assms(7) unfolding g k_def [symmetric] by (simp add: add.commute)
  qed (use assms b zeta_nonneg in \<open>auto simp: g\<close>)
  then obtain v where v: "zipf_draw pw ?p u = Some v" "0 \<le> v" "v \<le> int k + 1" using g by auto
  then have "unat (of_int v :: u64) = nat v" using b by (simp add: unat_eq_nat_uint unsigned_of_int take_bit_int_eq_self)
  moreover have "nat v \<le> k + 1" using v by simp
  ultimately show ?thesis using v(1) assms(9) unfolding k_def [symmetric] by (simp add: Zipf_NextValue_def)
qed

subsection \<open>The rest of rand and the clock\<close>

text \<open>\<open>Rand64\<close> of src/src/utility/infracture.h on the five results of \<open>rand\<close>.\<close>

definition Rand64 :: "u32 list \<Rightarrow> u64" where
  "Rand64 draws = fold (\<lambda>x r. push_bit 15 r OR (ucast x AND 0x7FFF)) (take 5 draws) 0"

text \<open>\<open>GetCurrentTimeStamp\<close> of src/src/utility/time.h on what \<open>gettimeofday\<close> stores.\<close>

definition GetCurrentTimeStamp :: "int \<Rightarrow> int \<Rightarrow> u64" where
  "GetCurrentTimeStamp tv_sec tv_usec = of_int (tv_sec * 1000000 + tv_usec)"

lemma low15: "(x AND 0x7FFF :: 'a :: len word) = take_bit 15 x"
  by (simp add: take_bit_eq_mask mask_eq_exp_minus_1)

text \<open>Every 64-bit number is the result of some draws.\<close>

lemma Rand64_five: "Rand64 [a, b, c, d, e] = push_bit 15 (push_bit 15 (push_bit 15 (push_bit 15 (take_bit 15 (ucast a)) OR
    take_bit 15 (ucast b)) OR take_bit 15 (ucast c)) OR take_bit 15 (ucast d)) OR take_bit 15 (ucast e)"
  by (simp add: Rand64_def low15)

lemma Rand64_onto: "\<exists>draws. length draws = 5 \<and> Rand64 draws = v"
proof -
  let ?d = "\<lambda>i. ucast (take_bit 15 (drop_bit i v)) :: u32"
  have c: "take_bit 15 (ucast (?d i) :: u64) = take_bit 15 (drop_bit i v)" for i
    by (rule bit_word_eqI) (auto simp: bit_simps)
  have s: "push_bit 15 (drop_bit (i + 15) v) OR take_bit 15 (drop_bit i v) = drop_bit i v" for i
    by (rule bit_word_eqI) (auto simp: bit_simps)
  have "take_bit 15 (drop_bit 60 v) = drop_bit 60 v" by (rule bit_word_eqI) (auto simp: bit_simps dest: bit_imp_le_length)
  moreover have "push_bit 15 (drop_bit 60 v) OR take_bit 15 (drop_bit 45 v) = drop_bit 45 v"
    "push_bit 15 (drop_bit 45 v) OR take_bit 15 (drop_bit 30 v) = drop_bit 30 v"
    "push_bit 15 (drop_bit 30 v) OR take_bit 15 (drop_bit 15 v) = drop_bit 15 v"
    "push_bit 15 (drop_bit 15 v) OR take_bit 15 (drop_bit 0 v) = drop_bit 0 v"
    using s [of 45] s [of 30] s [of 15] s [of 0] by simp_all
  ultimately have "Rand64 [?d 60, ?d 45, ?d 30, ?d 15, ?d 0] = drop_bit 0 v" unfolding Rand64_five c by (simp only:)
  then show ?thesis by (intro exI [of _ "[?d 60, ?d 45, ?d 30, ?d 15, ?d 0]"]) simp
qed

lemma GetCurrentTimeStamp_mono:
  assumes "0 \<le> s" and "s < 10 ^ 12" and "0 \<le> u" and "u < 1000000" and "0 \<le> t" and "t < 10 ^ 12" and "0 \<le> v" and "v < 1000000"
  shows "GetCurrentTimeStamp s u \<le> GetCurrentTimeStamp t v \<longleftrightarrow> s < t \<or> s = t \<and> u \<le> v"
proof -
  have *: "uint (GetCurrentTimeStamp s u) = s * 1000000 + u" if "0 \<le> s" "s < 10 ^ 12" "0 \<le> u" "u < 1000000" for s u
  proof -
    have "take_bit 64 (s * 1000000 + u) = s * 1000000 + u" by (rule take_bit_int_eq_self) (use that in simp_all)
    then show ?thesis using that by (simp only: GetCurrentTimeStamp_def unsigned_of_int) simp
  qed
  show ?thesis unfolding word_le_def * [OF assms(1-4)] * [OF assms(5-8)] using assms by auto
qed

subsection \<open>Properties\<close>

text \<open>What is documented of \<open>pow\<close> at the exponents 0 and 1, which are the ones used for \<open>theta = 0\<close>.\<close>

definition pow_01 :: "(rat \<Rightarrow> rat \<Rightarrow> rat) \<Rightarrow> bool" where
  "pow_01 pw \<longleftrightarrow> (\<forall>x. 0 \<le> x \<longrightarrow> x \<le> 1 \<longrightarrow> pw x 0 = 1 \<and> pw x 1 = x)"

lemma zeta_theta0:
  assumes "pow_01 pw"
  shows "n \<le> 2 ^ 53 \<Longrightarrow> zeta pw n 0 = of_nat n"
proof (induction n)
  case (Suc n)
  have "pw (fl (1 / fl (of_nat (Suc n)))) 0 = 1" using assms inverse_range unfolding pow_01_def by blast
  moreover have "of_nat n + 1 = (of_nat (Suc n) :: rat)" by simp
  then have "fl (of_nat n + 1) = of_nat (Suc n)" using fl_nat [OF Suc.prems] by argo
  ultimately show ?case using Suc by (simp add: zeta_Suc)
qed simp

text \<open>For \<open>theta = 0\<close> the constant \<open>eta\<close> is 1.\<close>

lemma eta_theta0:
  assumes "pow_01 pw" and "M_theta p = 0" and "4 \<le> n" and "M_zeta2theta p = 2" and "M_zeta p = of_int n"
  shows "zipf_eta pw p n = Some 1"
proof -
  have "(2 :: rat) / of_int n \<le> of_nat 1 / 2" using assms(3) by (simp add: field_simps)
  then have h: "0 \<le> fl (2 / of_int n)" "fl (2 / of_int n) \<le> 1 / 2" using fl_mono fl_half [of 1] assms(3) by fastforce+
  then have "pw (fl (2 / of_int n)) 1 = fl (2 / of_int n)" using assms(1) by (simp add: pow_01_def)
  moreover have "0 < fl (1 - fl (2 / of_int n))" using h by (intro fl_sign) simp
  ultimately show ?thesis using assms(2-5) by (simp add: zipf_eta_def fl_div_def)
qed

text \<open>C36: The Zipf source that \<open>base_zipf\<close> uses when no \<open>--zipf_theta\<close> is given, as its script does, never leaves its range by
  more than one: on a device of at least one and less than 2^22 blocks it is made with \<open>theta = 0\<close>, and for every state of its
  engine a draw is defined, is an index from 0 to the number of pages plus one, and leaves the distribution as it is. Assumed of
  \<open>pow\<close> is that a base from 0 to 1 with an exponent from 0 gives a value from 0 to 1, with the exponent 0 it gives 1,
  and with the exponent 1 the base; of the canonical number, that it is from 0 to 1.\<close>

theorem zipf_source_in_range:
  assumes "pow_ok pw" and "pow_01 pw" and "0 < maxBlocks" and "unat maxBlocks < 4194304"
    and "canon e = (u, e1)" and "0 \<le> u" and "u \<le> 1"
  shows "\<exists>g v. GenerateZipfGen pw e0 \<lparr>zcf_min = 0, zcf_max = lba_count maxBlocks, zcf_theta = 0\<rparr> = Some g \<and>
    Zipf_NextValue pw canon (g\<lparr>zg_engine := e\<rparr>) = Some (v, g\<lparr>zg_engine := e1\<rparr>) \<and> unat v \<le> unat maxBlocks * 512 + 1"
proof -
  define n where "n = unat maxBlocks * 512 + 1"
  obtain g where g: "GenerateZipfGen pw e0 \<lparr>zcf_min = 0, zcf_max = lba_count maxBlocks, zcf_theta = 0\<rparr> = Some g"
      "zg_distribution g = \<lparr>M_a = 0, M_b = int (unat maxBlocks * 512), M_theta = 0, M_zeta = zeta pw n 0, M_zeta2theta = zeta pw 2 0\<rparr>"
    using GenerateZipfGen_spec [OF assms(4), of pw e0 0] by (fastforce simp: n_def)
  have n: "4 \<le> n" "n \<le> 2 ^ 53" using assms(3,4) word_less_nat_alt [of 0 maxBlocks] by (simp_all add: n_def)
  have z: "zeta pw n 0 = of_int (int n)" "zeta pw 2 0 = 2" using zeta_theta0 [OF assms(2)] n(2) by simp_all
  have "zipf_eta pw (zg_distribution g) (int n) = Some 1" by (rule eta_theta0 [OF assms(2)]) (use n(1) g(2) z in simp_all)
  note eta = this [unfolded n_def]
  have "\<exists>v. Zipf_NextValue pw canon (g\<lparr>zg_engine := e\<rparr>) = Some (v, g\<lparr>zg_engine := e1\<rparr>) \<and> unat v \<le> unat maxBlocks * 512 + 1"
    by (rule zipf_next_range [where canon = canon and e = e, OF assms(1,3,4) _ _ g(1) eta _ assms(5-7)]) simp_all
  then show ?thesis using g(1) by blast
qed

text \<open>The power function at those exponents.\<close>

definition pow01 :: "rat \<Rightarrow> rat \<Rightarrow> rat" where
  "pow01 x y = (if y = 0 then 1 else x)"

theorem zipf_source_in_range_witness:
  "\<exists>g v. GenerateZipfGen pow01 () \<lparr>zcf_min = 0, zcf_max = lba_count 1, zcf_theta = 0\<rparr> = Some g \<and>
     Zipf_NextValue pow01 (\<lambda>_. (1/2, ())) (g\<lparr>zg_engine := ()\<rparr>) = Some (v, g\<lparr>zg_engine := ()\<rparr>) \<and> unat v \<le> 513"
proof -
  have "pow_ok pow01" "pow_01 pow01" by (simp_all add: pow_ok_def pow_01_def pow01_def)
  from zipf_source_in_range [OF this, of 1 "\<lambda>_. (1/2, ())" "()" "1/2" "()" "()"] show ?thesis by simp
qed

end
