(* ===== verification/Command_Line.thy ===== *)
theory Command_Line
  imports Instance Double
begin

text \<open>
  The command lines of the three experiment drivers, src/src/test/base_zipf_test.c, moti_test.c and
  uniform_test.c: the global flags with their initial values, and the loop over the arguments in each
  \<open>main\<close>. An argument is matched against one form after the other, most of them by
  \<open>sscanf(arg, "--name=%d%c", &n, &junk) == 1\<close>: the name, a number, and nothing behind it.

  What the language leaves undefined or to the library is an argument: \<open>wrap\<close>, the \<open>int\<close> that \<open>%d\<close> stores for a
  number that is none, and \<open>scan_lf\<close>, what \<open>%lf\<close> reads.
\<close>

subsection \<open>The flags\<close>

record Options = Flags +
  FLAGS_blockCount :: int
  FLAGS_IOCount :: int
  FLAGS_dataRatio :: int
  FLAGS_workloadInterval :: int
  FLAGS_t0DiskSymbolName :: string
  FLAGS_t1DiskSymbolName :: string
  FLAGS_workload :: "string option"   \<comment> \<open>\<open>FLAGS_workloadType\<close> in two of the drivers\<close>
  FLAGS_theta :: rat
  FLAGS_log :: int

definition default_options :: Options where
  "default_options = Flags.extend default_flags (Options.fields 0 0 0 1 ''/dev/sdc'' ''/dev/sda'' None 0 0)"

subsection \<open>Matching an argument\<close>

definition isspace :: "char \<Rightarrow> bool" where
  "isspace c \<longleftrightarrow> c = CHR '' '' \<or> (9 \<le> (of_char c :: nat) \<and> (of_char c :: nat) \<le> 13)"

definition isdigit :: "char \<Rightarrow> bool" where
  "isdigit c \<longleftrightarrow> 48 \<le> (of_char c :: nat) \<and> (of_char c :: nat) \<le> 57"

text \<open>\<open>%d\<close>: space, a sign, digits; the number and the rest of the text.\<close>

definition scan_unsigned :: "string \<Rightarrow> (nat \<times> string) option" where
  "scan_unsigned s =
     (let ds = takeWhile isdigit s in if ds = [] then None else Some (undecimal ds, dropWhile isdigit s))"

definition scan_d :: "string \<Rightarrow> (int \<times> string) option" where
  "scan_d s =
     (case dropWhile isspace s of
        [] \<Rightarrow> None
      | c # cs \<Rightarrow>
          if c = CHR ''-'' then map_option (\<lambda>(n, r). (- int n, r)) (scan_unsigned cs)
          else if c = CHR ''+'' then map_option (\<lambda>(n, r). (int n, r)) (scan_unsigned cs)
          else map_option (\<lambda>(n, r). (int n, r)) (scan_unsigned (c # cs)))"

text \<open>\<open>sscanf\<close> with the name, a conversion and \<open>%c\<close> returns 1; its result is the value stored.\<close>

definition sscanf_1 :: "(string \<Rightarrow> ('v \<times> string) option) \<Rightarrow> string \<Rightarrow> string \<Rightarrow> 'v option" where
  "sscanf_1 conv name arg =
     (if take (length name) arg = name
      then case conv (drop (length name) arg) of Some (v, []) \<Rightarrow> Some v | _ \<Rightarrow> None
      else None)"

type_synonym handler = "string \<Rightarrow> Options \<Rightarrow> Options option"

definition int_flag :: "(int \<Rightarrow> int) \<Rightarrow> string \<Rightarrow> (int \<Rightarrow> Options \<Rightarrow> Options) \<Rightarrow> handler" where
  "int_flag wrap name put arg o1 =
     map_option (\<lambda>v. put (if - (2 ^ 31) \<le> v \<and> v < 2 ^ 31 then v else wrap v) o1) (sscanf_1 scan_d name arg)"

definition double_flag :: "(string \<Rightarrow> (rat \<times> string) option) \<Rightarrow> string \<Rightarrow> (rat \<Rightarrow> Options \<Rightarrow> Options) \<Rightarrow> handler" where
  "double_flag scan_lf name put arg o1 = map_option (\<lambda>v. put v o1) (sscanf_1 scan_lf name arg)"

text \<open>\<open>strncmp(arg, name, n) == 0\<close>; the flag is the rest of the argument.\<close>

definition text_flag :: "string \<Rightarrow> (string \<Rightarrow> Options \<Rightarrow> Options) \<Rightarrow> handler" where
  "text_flag name put arg o1 = (if take (length name) arg = name then Some (put (drop (length name) arg) o1) else None)"

fun first_flag :: "handler list \<Rightarrow> handler" where
  "first_flag [] arg o1 = None"
| "first_flag (h # hs) arg o1 = (case h arg o1 of None \<Rightarrow> first_flag hs arg o1 | Some o2 \<Rightarrow> Some o2)"

text \<open>The loop; an argument of no form ends the program with \<open>exit(1)\<close>.\<close>

fun parse_args :: "handler list \<Rightarrow> string list \<Rightarrow> Options \<Rightarrow> fault + Options" where
  "parse_args hs [] o1 = Inr o1"
| "parse_args hs (arg # args) o1 = (case first_flag hs arg o1 of None \<Rightarrow> Inl ExitFailure | Some o2 \<Rightarrow> parse_args hs args o2)"

subsection \<open>The three drivers\<close>

text \<open>The forms that all three begin with.\<close>

definition store_flags :: "(int \<Rightarrow> int) \<Rightarrow> handler list" where
  "store_flags wrap =
     [int_flag wrap ''--t0_block_count='' (\<lambda>n. FLAGS_t0BlockCount_update (\<lambda>_. n)),
      int_flag wrap ''--t1_block_count='' (\<lambda>n. FLAGS_t1BlockCount_update (\<lambda>_. n)),
      int_flag wrap ''--enable_bypass='' (\<lambda>n. FLAGS_enableByPass_update (\<lambda>_. n \<noteq> 0)),
      int_flag wrap ''--enable_flush='' (\<lambda>n. FLAGS_enableFlush_update (\<lambda>_. n \<noteq> 0)),
      int_flag wrap ''--gc_water_level='' (\<lambda>n. FLAGS_gcWaterLevel_update (\<lambda>_. n)),
      int_flag wrap ''--tierdown_water_level='' (\<lambda>n. FLAGS_tierdownWaterLevel_update (\<lambda>_. n)),
      int_flag wrap ''--gc_block_ratio='' (\<lambda>n. FLAGS_gcBlockRatio_update (\<lambda>_. n)),
      int_flag wrap ''--tierdown_block_ratio='' (\<lambda>n. FLAGS_tierdownBlockRatio_update (\<lambda>_. n)),
      int_flag wrap ''--host_queue_size='' (\<lambda>n. FLAGS_requestQSize_update (\<lambda>_. n)),
      int_flag wrap ''--host_threads='' (\<lambda>n. FLAGS_hostConcurrency_update (\<lambda>_. n)),
      int_flag wrap ''--back_threads='' (\<lambda>n. FLAGS_backConcurrency_update (\<lambda>_. n)),
      text_flag ''--t0='' (\<lambda>s. FLAGS_t0DiskSymbolName_update (\<lambda>_. s)),
      text_flag ''--t1='' (\<lambda>s. FLAGS_t1DiskSymbolName_update (\<lambda>_. s)),
      text_flag ''--workload_type='' (\<lambda>s. FLAGS_workload_update (\<lambda>_. Some s))]"

definition base_zipf_flags :: "(int \<Rightarrow> int) \<Rightarrow> (string \<Rightarrow> (rat \<times> string) option) \<Rightarrow> handler list" where
  "base_zipf_flags wrap scan_lf = store_flags wrap @
     [double_flag scan_lf ''--zipf_theta='' (\<lambda>d. FLAGS_theta_update (\<lambda>_. d)),
      int_flag wrap ''--data_ratio='' (\<lambda>n. FLAGS_dataRatio_update (\<lambda>_. n)),
      int_flag wrap ''--workload_interval='' (\<lambda>n. FLAGS_workloadInterval_update (\<lambda>_. n)),
      int_flag wrap ''--log='' (\<lambda>n. FLAGS_log_update (\<lambda>_. n))]"

definition moti_flags :: "(int \<Rightarrow> int) \<Rightarrow> handler list" where
  "moti_flags wrap = store_flags wrap @
     [int_flag wrap ''--data_ratio='' (\<lambda>n. FLAGS_dataRatio_update (\<lambda>_. n)),
      int_flag wrap ''--workload_interval='' (\<lambda>n. FLAGS_workloadInterval_update (\<lambda>_. n))]"

definition uniform_flags :: "(int \<Rightarrow> int) \<Rightarrow> handler list" where
  "uniform_flags wrap = store_flags wrap @
     [int_flag wrap ''--data_ratio='' (\<lambda>n. FLAGS_dataRatio_update (\<lambda>_. n)),
      int_flag wrap ''--workload_interval='' (\<lambda>n. FLAGS_workloadInterval_update (\<lambda>_. n))]"

subsection \<open>Numbers and their texts\<close>

definition int_text :: "int \<Rightarrow> string" where
  "int_text n = (if n < 0 then CHR ''-'' # decimal (nat (- n)) else decimal (nat n))"

lemma isdigit_digit: "d < 10 \<Longrightarrow> isdigit (digit d)"
  by (simp add: isdigit_def digit_def take_bit_nat_eq_self)

lemma decimal_digits: "\<forall>c \<in> set (decimal n). isdigit c"
proof (induction n rule: decimal.induct)
  case (1 n)
  then show ?case by (cases "n < 10") (auto simp: decimal.simps [of n] isdigit_digit)
qed

lemma digit_no_sign: "isdigit c \<Longrightarrow> \<not> isspace c \<and> c \<noteq> CHR ''-'' \<and> c \<noteq> CHR ''+''"
  by (auto simp: isdigit_def isspace_def)

lemma scan_unsigned_decimal: "scan_unsigned (decimal n) = Some (n, [])"
proof -
  have t: "takeWhile isdigit (decimal n) = decimal n" "dropWhile isdigit (decimal n) = []"
    using decimal_digits [of n] by (simp_all add: takeWhile_eq_all_conv dropWhile_eq_Nil_conv)
  show ?thesis unfolding scan_unsigned_def Let_def t using decimal_facts [of n] by simp
qed

lemma scan_int_text: "scan_d (int_text n) = Some (n, [])"
proof (cases "n < 0")
  case True
  then show ?thesis by (simp add: scan_d_def int_text_def isspace_def scan_unsigned_decimal)
next
  case False
  obtain c cs where d: "decimal (nat n) = c # cs" using decimal_facts(3) by (meson neq_Nil_conv)
  then have "isdigit c" using decimal_digits [of "nat n"] by simp
  then show ?thesis using False digit_no_sign [of c] scan_unsigned_decimal [of "nat n"] by (simp add: scan_d_def int_text_def d)
qed

lemma sscanf_int_text [simp]: "sscanf_1 scan_d name (name @ int_text n) = Some n"
  by (simp add: sscanf_1_def scan_int_text)

text \<open>What is accepted behind the name: space, at most one sign, digits, and nothing else.\<close>

definition number_text :: "string \<Rightarrow> bool" where
  "number_text s \<longleftrightarrow> (let u = dropWhile isspace s; ds = (if u \<noteq> [] \<and> hd u \<in> {CHR ''-'', CHR ''+''} then tl u else u) in
     ds \<noteq> [] \<and> (\<forall>c \<in> set ds. isdigit c))"

lemma scan_unsigned_all: "(\<exists>n. scan_unsigned s = Some (n, [])) \<longleftrightarrow> s \<noteq> [] \<and> (\<forall>c \<in> set s. isdigit c)"
  by (cases s) (auto simp: scan_unsigned_def Let_def dropWhile_eq_Nil_conv)

lemma scan_d_all: "(\<exists>v. scan_d s = Some (v, [])) \<longleftrightarrow> number_text s"
proof (cases "dropWhile isspace s")
  case (Cons c cs)
  have m: "(\<exists>v. map_option (\<lambda>(n, r). (f n, r)) x = Some (v, [])) \<longleftrightarrow> (\<exists>n. x = Some (n, []))" for f :: "nat \<Rightarrow> int" and x :: "(nat \<times> string) option"
    by (cases x) auto
  show ?thesis
  proof (cases "c = CHR ''-''")
    case True
    then show ?thesis using m [of "\<lambda>n. - int n" "scan_unsigned cs"] scan_unsigned_all [of cs] Cons
      by (simp add: scan_d_def number_text_def Let_def)
  next
    case False
    then show ?thesis
      using m [of int "scan_unsigned cs"] m [of int "scan_unsigned (c # cs)"] scan_unsigned_all [of cs] scan_unsigned_all [of "c # cs"] Cons
      by (cases "c = CHR ''+''") (simp_all add: scan_d_def number_text_def Let_def)
  qed
next
  case Nil
  show ?thesis unfolding scan_d_def number_text_def Let_def Nil by simp
qed

text \<open>An argument of a form: the name and the rest. No two names agree as far as both go.\<close>

definition flag_text :: "string \<Rightarrow> string \<Rightarrow> string" where
  "flag_text name v = name @ v"

fun clash :: "string \<Rightarrow> string \<Rightarrow> bool" where
  "clash (a # as) (b # bs) \<longleftrightarrow> a \<noteq> b \<or> clash as bs"
| "clash as bs \<longleftrightarrow> False"

lemma clash_take: "clash name other \<Longrightarrow> take (length name) (other @ v) \<noteq> name"
  by (induction name other rule: clash.induct) auto

lemma flag_clash:
  assumes "clash name other"
  shows "int_flag wrap name put (flag_text other v) o1 = None" "double_flag scan_lf name dput (flag_text other v) o1 = None"
    "text_flag name tput (flag_text other v) o1 = None"
  using clash_take [OF assms] by (simp_all add: int_flag_def double_flag_def text_flag_def flag_text_def sscanf_1_def)

lemma int_flag_own: "- (2 ^ 31) \<le> n \<Longrightarrow> n < 2 ^ 31 \<Longrightarrow> int_flag wrap name put (flag_text name (int_text n)) o1 = Some (put n o1)"
  by (simp add: int_flag_def flag_text_def)

lemma text_flag_own: "text_flag name put (flag_text name v) o1 = Some (put v o1)"
  by (simp add: text_flag_def flag_text_def)

lemma int_flag_bad: "\<not> number_text v \<Longrightarrow> int_flag wrap name put (flag_text name v) o1 = None"
  using scan_d_all [of v]
  by (auto simp: int_flag_def flag_text_def sscanf_1_def split: option.split list.split)

text \<open>Which names a list of forms has, and that an argument of another is refused.\<close>

lemmas flag_simps = flag_clash int_flag_own text_flag_own store_flags_def moti_flags_def uniform_flags_def base_zipf_flags_def

definition print_flags :: "Options \<Rightarrow> string list" where
  "print_flags o1 =
     [flag_text ''--t0_block_count='' (int_text (FLAGS_t0BlockCount o1)),
      flag_text ''--t1_block_count='' (int_text (FLAGS_t1BlockCount o1)),
      flag_text ''--enable_bypass='' (int_text (of_bool (FLAGS_enableByPass o1))),
      flag_text ''--enable_flush='' (int_text (of_bool (FLAGS_enableFlush o1))),
      flag_text ''--gc_water_level='' (int_text (FLAGS_gcWaterLevel o1)),
      flag_text ''--gc_block_ratio='' (int_text (FLAGS_gcBlockRatio o1)),
      flag_text ''--tierdown_water_level='' (int_text (FLAGS_tierdownWaterLevel o1)),
      flag_text ''--tierdown_block_ratio='' (int_text (FLAGS_tierdownBlockRatio o1)),
      flag_text ''--host_queue_size='' (int_text (FLAGS_requestQSize o1)),
      flag_text ''--host_threads='' (int_text (FLAGS_hostConcurrency o1)),
      flag_text ''--back_threads='' (int_text (FLAGS_backConcurrency o1)),
      flag_text ''--t0='' (FLAGS_t0DiskSymbolName o1), flag_text ''--t1='' (FLAGS_t1DiskSymbolName o1),
      flag_text ''--data_ratio='' (int_text (FLAGS_dataRatio o1)),
      flag_text ''--workload_type='' (case FLAGS_workload o1 of None \<Rightarrow> [] | Some w \<Rightarrow> w),
      flag_text ''--workload_interval='' (int_text (FLAGS_workloadInterval o1))]"

definition c_int :: "int \<Rightarrow> bool" where
  "c_int n \<longleftrightarrow> - (2 ^ 31) \<le> n \<and> n < 2 ^ 31"

definition c_flags :: "Options \<Rightarrow> bool" where
  "c_flags o1 \<longleftrightarrow> c_int (FLAGS_t0BlockCount o1) \<and> c_int (FLAGS_t1BlockCount o1) \<and> c_int (FLAGS_gcWaterLevel o1) \<and>
     c_int (FLAGS_tierdownWaterLevel o1) \<and> c_int (FLAGS_gcBlockRatio o1) \<and> c_int (FLAGS_tierdownBlockRatio o1) \<and>
     c_int (FLAGS_requestQSize o1) \<and> c_int (FLAGS_hostConcurrency o1) \<and> c_int (FLAGS_backConcurrency o1) \<and>
     c_int (FLAGS_dataRatio o1) \<and> c_int (FLAGS_workloadInterval o1) \<and> FLAGS_workload o1 \<noteq> None"

text \<open>What parsing keeps of the state before: what has no flag.\<close>

definition unflagged :: "Options \<Rightarrow> Options \<Rightarrow> Options" where
  "unflagged o1 o2 = o1\<lparr>FLGAS_tierdownLimitOffset := FLGAS_tierdownLimitOffset o2, FLAGS_blockCount := FLAGS_blockCount o2,
     FLAGS_IOCount := FLAGS_IOCount o2, FLAGS_theta := FLAGS_theta o2, FLAGS_log := FLAGS_log o2\<rparr>"

lemma print_parse:
  assumes "c_flags o1"
  shows "parse_args (moti_flags wrap) (print_flags o1) o2 = Inr (unflagged o1 o2)"
    and "parse_args (base_zipf_flags wrap lf) (print_flags o1) o2 = Inr (unflagged o1 o2)"
  using assms
  by (cases o1; cases o2; auto simp: print_flags_def flag_simps c_flags_def c_int_def unflagged_def)+

lemma uniform_moti_flags: "uniform_flags = moti_flags"
  by (simp add: fun_eq_iff uniform_flags_def moti_flags_def)

end
