(* ===== verification/Experiment.thy ===== *)
theory Experiment
  imports Command_Line Instance_Threads "HOL-Library.Signed_Division"
begin

text \<open>
  The experiment drivers src/src/test/base_zipf_test.c, moti_test.c and uniform_test.c from the command line to
  the threads of the program (theory \<open>Instance_Threads\<close>), with the workload instances of src/src/proc/instance.c.
  A driver runs its workloads one after the other, each after the join of the one before: the storage
  thread is given the requests of all of them in this order. Log file, output, sleeps and the histograms printed
  between two workloads are left out.
\<close>

subsection \<open>What the program finds outside itself\<close>

text \<open>
  \<open>null_text\<close> is what \<open>%s\<close> prints for a null pointer, \<open>show_lf\<close> what \<open>%lf\<close> does; \<open>new_zipf\<close> makes a Zipf source
  for a number of pages and a theta, \<open>next_zipf\<close> draws from it; \<open>draws k i\<close> is what \<open>rand\<close> or the uniform source and the
  clock give in round \<open>i\<close> of workload \<open>k\<close>. The last five are those of \<open>CreateStorageSystemInstance\<close>.
\<close>

record 'g Env =
  wrap_int :: "int \<Rightarrow> int"
  scan_lf :: "string \<Rightarrow> (rat \<times> string) option"
  show_lf :: "rat \<Rightarrow> string"
  null_text :: string
  new_zipf :: "u64 \<Rightarrow> rat \<Rightarrow> 'g"
  next_zipf :: "'g \<Rightarrow> u64 \<times> 'g"
  draws :: "nat \<Rightarrow> nat \<Rightarrow> u32 \<times> u64"
  e_junk1 :: u32
  e_junk2 :: u32
  e_behind :: u32
  e_time :: u64
  e_future :: "(u64 \<times> round list) list"

definition create_instance :: "'g Env \<Rightarrow> Options \<Rightarrow> fault + StorageSystem" where
  "create_instance env opt =
     CreateStorageSystemInstance (e_junk1 env) (e_junk2 env) (e_behind env) (e_time env) (e_future env) (Flags.truncate opt)"

subsection \<open>The workload instances\<close>

text \<open>What the threads push that \<open>Create...GeneratorInstance\<close> starts, from its configuration; \<open>k\<close> is the workload's number.\<close>

definition sequential_instance :: "'g Env \<Rightarrow> nat \<Rightarrow> u32 \<Rightarrow> IO list" where
  "sequential_instance env k maxBlocks =
     (let seq = CreateSequentialGenerator maxBlocks in
      fst (warmup (map (\<lambda>i. snd (draws env k i)) [0..<unat (sg_maxLbaCount seq)]) seq))"

record ZipfTestConfigure = ZipfGeneratorConfigure +
  readTheta :: rat
  writeTheta :: rat

definition zipf_instance :: "'g Env \<Rightarrow> nat \<Rightarrow> ZipfTestConfigure \<Rightarrow> fault + IO list" where
  "zipf_instance env k conf =
     (let n = lba_count (maxBlockCount conf);
          zipf = CreateZipfGenerator (new_zipf env n (readTheta conf)) (new_zipf env n (writeTheta conf))
                   (ZipfGeneratorConfigure.truncate conf) in
      bindE (zipf_workload (next_zipf env) (map (draws env k) [0..<unat (zg_maxIOCount zipf)]) zipf) (\<lambda>(ios, _). Inr ios))"

definition random_instance :: "'g Env \<Rightarrow> nat \<Rightarrow> u32 \<Rightarrow> u64 \<Rightarrow> fault + IO list" where
  "random_instance env k maxBlocks ioCnt =
     (let gen = CreateRandomGenerator maxBlocks ioCnt in
      random_workload (map (draws env k) [0..<unat (rg_maxIOCount gen)]) gen)"

subsection \<open>Configurations\<close>

text \<open>\<open>snprintf\<close> into a buffer of \<open>MAX_BUFF_SIZE\<close>: a longer text is cut, and the result is not negative.\<close>

definition buf_text :: "string \<Rightarrow> string" where
  "buf_text s = take (MAX_BUFF_SIZE - 1) s"

text \<open>In C the product is an \<open>int\<close>, whose overflow is undefined; here it is exact.\<close>

definition percent_blocks :: "int \<Rightarrow> int \<Rightarrow> u32" where
  "percent_blocks ratio cnt = of_int (ratio * cnt sdiv 100)"

text \<open>All ratios 0; an \<open>int\<close> as \<open>maxIOCount\<close> is sign-extended.\<close>

definition zipf_test_conf :: "u32 \<Rightarrow> rat \<Rightarrow> int \<Rightarrow> ZipfTestConfigure" where
  "zipf_test_conf cnt theta ioCnt =
     \<lparr>maxBlockCount = cnt, zc_readWriteRatio = 0, readLbaOffsetRatio = 0, writeLbaOffsetRatio = 0,
      swapStartRatio = 0, swapMidRatio = 0, swapEndRatio = 0, transferOffsetRatio = 0, maxIOCount = of_int ioCnt,
      readTheta = theta, writeTheta = theta\<rparr>"

definition workload_text :: "'g Env \<Rightarrow> Options \<Rightarrow> string" where
  "workload_text env opt = (case FLAGS_workload opt of None \<Rightarrow> null_text env | Some w \<Rightarrow> w)"

definition set_blockCount :: "Options \<Rightarrow> Options" where
  "set_blockCount opt = opt\<lparr>FLAGS_blockCount := FLAGS_t0BlockCount opt + FLAGS_t1BlockCount opt\<rparr>"

text \<open>\<open>5 * FLAGS_blockCount * PAGE_NUM_PER_BLOCK\<close> has 64 bits and no sign; the \<open>int\<close> keeps its low 32.\<close>

definition set_IOCount :: "Options \<Rightarrow> Options" where
  "set_IOCount opt = opt\<lparr>FLAGS_IOCount := sint (ucast (of_int (5 * FLAGS_blockCount opt) * 512 :: u64) :: u32)\<rparr>"

subsection \<open>base\_zipf\<close>

text \<open>Results: the names of the log and of the report file, and the program with all its threads started.\<close>

definition base_zipf_RunExp :: "'g Env \<Rightarrow> Options \<Rightarrow> ZipfTestConfigure \<Rightarrow> u32 \<Rightarrow> fault + Program" where
  "base_zipf_RunExp env opt zipfConf seqConf =
     bindE (create_instance env opt) (\<lambda>st.
     bindE (zipf_instance env 1 zipfConf) (\<lambda>ios.
     Inr (program_start 128 (sequential_instance env 0 seqConf @ ios) st)))"

definition base_zipf_TEST :: "'g Env \<Rightarrow> Options \<Rightarrow> fault + string \<times> string \<times> Program" where
  "base_zipf_TEST env opt =
     (let name = int_text (FLAGS_tierdownWaterLevel opt) @ ''_'' @ int_text (FLAGS_dataRatio opt) @ ''_'' @ show_lf env (FLAGS_theta opt);
          log_name = buf_text (''../'' @ workload_text env opt @ ''/log/'' @ name @ ''.log'');
          cnt = percent_blocks (FLAGS_dataRatio opt) (FLAGS_blockCount opt);
          zipfConf = zipf_test_conf cnt (FLAGS_theta opt) (FLAGS_IOCount opt);
          report_name = buf_text (''../'' @ workload_text env opt @ ''/result/'' @ name @ ''.csv'') in
      bindE (base_zipf_RunExp env opt zipfConf cnt) (\<lambda>p. Inr (log_name, report_name, p)))"

definition base_zipf_main :: "'g Env \<Rightarrow> string list \<Rightarrow> fault + string \<times> string \<times> Program" where
  "base_zipf_main env args =
     bindE (parse_args (base_zipf_flags (wrap_int env) (scan_lf env)) args default_options) (\<lambda>opt.
     base_zipf_TEST env (set_IOCount (set_blockCount opt)))"

subsection \<open>moti\<close>

text \<open>0.01, and \<open>300 * IO_TIMES\<close>.\<close>

definition moti_conf :: "u32 \<Rightarrow> ZipfTestConfigure" where
  "moti_conf cnt = zipf_test_conf cnt (fl (1 / 100)) 30000000"

text \<open>The third case fills in \<open>zipf_Conf\<close> and then passes \<open>&zipfConf\<close>, the configuration of the second.\<close>

definition moti_RunExp :: "'g Env \<Rightarrow> Options \<Rightarrow> fault + Program" where
  "moti_RunExp env opt =
     bindE (create_instance env opt) (\<lambda>st.
     let ios1 = sequential_instance env 0 (percent_blocks (FLAGS_dataRatio opt) (FLAGS_blockCount opt));
         zipfConf = moti_conf (percent_blocks (FLAGS_tierdownWaterLevel opt) (FLAGS_t0BlockCount opt)) in
     bindE (zipf_instance env 1 zipfConf) (\<lambda>ios2.
     let zipf_Conf = moti_conf (percent_blocks (FLAGS_dataRatio opt) (FLAGS_blockCount opt)) in
     bindE (zipf_instance env 2 zipfConf) (\<lambda>ios3.
     Inr (program_start 128 (ios1 @ ios2 @ ios3) st))))"

definition moti_TEST :: "'g Env \<Rightarrow> Options \<Rightarrow> fault + string \<times> string \<times> Program" where
  "moti_TEST env opt =
     (let log_name = buf_text (''../log/'' @ workload_text env opt @ ''.log''); report_name = buf_text ''../result/moti.csv'' in
      bindE (moti_RunExp env opt) (\<lambda>p. Inr (log_name, report_name, p)))"

definition moti_main :: "'g Env \<Rightarrow> string list \<Rightarrow> fault + string \<times> string \<times> Program" where
  "moti_main env args =
     bindE (parse_args (moti_flags (wrap_int env)) args default_options) (\<lambda>opt. moti_TEST env (set_blockCount opt))"

subsection \<open>uniform\<close>

definition uniform_RunExp :: "'g Env \<Rightarrow> Options \<Rightarrow> u32 \<times> u64 \<Rightarrow> u32 \<Rightarrow> fault + Program" where
  "uniform_RunExp env opt rndConf seqConf =
     bindE (create_instance env opt) (\<lambda>st.
     bindE (random_instance env 1 (fst rndConf) (snd rndConf)) (\<lambda>ios.
     Inr (program_start 128 (sequential_instance env 0 seqConf @ ios) st)))"

definition uniform_TEST :: "'g Env \<Rightarrow> Options \<Rightarrow> fault + string \<times> string \<times> Program" where
  "uniform_TEST env opt =
     (let name = int_text (FLAGS_tierdownWaterLevel opt) @ ''_'' @ int_text (FLAGS_dataRatio opt) @ ''_'' @
            int_text (FLAGS_hostConcurrency opt) @ ''_'' @ int_text (FLAGS_backConcurrency opt);
          log_name = buf_text (''../log/uniform_'' @ name @ ''.log'');
          rndConf = (percent_blocks (FLAGS_blockCount opt) (FLAGS_dataRatio opt), 50000000);
          seqConf = percent_blocks (FLAGS_dataRatio opt) (FLAGS_blockCount opt);
          report_name = buf_text (''../result/uniform_'' @ name @ ''.csv'') in
      bindE (uniform_RunExp env opt rndConf seqConf) (\<lambda>p. Inr (log_name, report_name, p)))"

definition uniform_main :: "'g Env \<Rightarrow> string list \<Rightarrow> fault + string \<times> string \<times> Program" where
  "uniform_main env args =
     bindE (parse_args (uniform_flags (wrap_int env)) args default_options) (\<lambda>opt. uniform_TEST env (set_blockCount opt))"

end
