(* ===== verification/Experiment_Properties.thy ===== *)
theory Experiment_Properties
  imports Experiment Instance_Sustain
begin

text \<open>The drivers from their command lines on: what they accept, what they write, and that the scripts' runs never fault.\<close>

subsection \<open>The requests of the workloads\<close>

lemma warmup_writes: "\<forall>io \<in> set (fst (warmup tss g)). io_op io = Some WRITE"
  by (induction tss arbitrary: g) (simp_all add: GenerateWarmupIO_def Let_def case_prod_unfold)

lemma zipf_workload_writes:
  "zipf_workload next ds z = Inr (ios, z') \<Longrightarrow> readWriteRatio z = 0 \<Longrightarrow> \<forall>io \<in> set ios. io_op io = Some WRITE"
proof (induction ds arbitrary: z ios)
  case (Cons d ds)
  obtain r ts where d: "d = (r, ts)" by (cases d)
  obtain io z1 ios1 where 1: "ZipfGenerateReadWriteIO next r ts z = Inr (io, z1)" "zipf_workload next ds z1 = Inr (ios1, z')" "ios = io # ios1"
    using Cons.prems(1) d by (auto simp: fault_iff)
  have "io_op io = Some WRITE \<and> readWriteRatio z1 = 0"
    using 1(1) Cons.prems(2)
    by (auto simp: ZipfGenerateReadWriteIO_def ZipfGenerateWriteIO_def Let_def fault_iff case_prod_unfold split: prod.split_asm)
  then show ?case using Cons.IH [OF 1(2)] 1(3) by simp
qed simp

lemma zipf_instance_requests:
  assumes "maxBlockCount conf \<noteq> 0" and "zc_readWriteRatio conf = 0"
  shows "\<exists>ios. zipf_instance env k conf = Inr ios \<and> length ios = unat (maxIOCount conf) \<and>
    (\<forall>io \<in> set ios. io_op io = Some WRITE \<and> (\<exists>x < lba_count (maxBlockCount conf). io_lba io = push_bit 13 x))"
proof -
  let ?n = "lba_count (maxBlockCount conf)"
  let ?z = "CreateZipfGenerator (new_zipf env ?n (readTheta conf)) (new_zipf env ?n (writeTheta conf)) (ZipfGeneratorConfigure.truncate conf)"
  have "unat (maxBlockCount conf) \<noteq> 0" using assms(1) by (simp add: unat_eq_0)
  then have "unat ?n \<noteq> 0" by (simp add: unat_lba_count)
  then have "?n \<noteq> 0" by (simp add: unat_eq_0)
  then have z: "zg_maxLbaCount ?z \<noteq> 0" "zg_maxLbaCount ?z = ?n" "readWriteRatio ?z = 0" "zg_maxIOCount ?z = maxIOCount conf"
    using assms(2) by (simp_all add: CreateZipfGenerator_def Let_def ZipfGeneratorConfigure.truncate_def)
  from zipf_workload_requests [OF z(1), of "next_zipf env" "map (draws env k) [0..<unat (maxIOCount conf)]"]
  obtain ios z' where r: "zipf_workload (next_zipf env) (map (draws env k) [0..<unat (maxIOCount conf)]) ?z = Inr (ios, z')"
      "length ios = unat (maxIOCount conf)" "\<forall>io\<in>set ios. io_length io = 8192 \<and> (\<exists>x < ?n. io_lba io = push_bit 13 x)"
    unfolding z(2) by auto
  have "\<forall>io\<in>set ios. io_op io = Some WRITE" by (rule zipf_workload_writes [OF r(1) z(3)])
  then show ?thesis using r z(4) by (simp add: zipf_instance_def Let_def)
qed

lemma zipf_instance_empty_device:
  assumes "maxBlockCount conf = 0" and "maxIOCount conf \<noteq> 0"
  shows "zipf_instance env k conf = Inl DivByZero"
proof -
  have "unat (maxIOCount conf) \<noteq> 0" using assms(2) by (simp add: unat_eq_0)
  then obtain m where "unat (maxIOCount conf) = Suc m" by (cases "unat (maxIOCount conf)") simp_all
  then show ?thesis using assms(1)
    by (cases "draws env k 0") (simp add: zipf_instance_def Let_def CreateZipfGenerator_def ZipfGeneratorConfigure.truncate_def lba_count_def
        upt_conv_Cons ZipfGenerateReadWriteIO_def ZipfGenerateReadIO_def ZipfGenerateWriteIO_def zipf_mod_def case_prod_unfold
        del: upt_Suc)
qed

lemma random_instance_empty_device:
  assumes "n \<noteq> 0"
  shows "random_instance env k 0 n = Inl DivByZero"
proof -
  have "unat n \<noteq> 0" using assms by (simp add: unat_eq_0)
  then obtain m where "unat n = Suc m" by (cases "unat n") simp_all
  then show ?thesis
    by (cases "draws env k 0") (simp add: random_instance_def CreateRandomGenerator_def lba_count_def Let_def GenerateReadWriteIO_def
        upt_conv_Cons del: upt_Suc)
qed

lemma sequential_writes: "\<forall>io \<in> set (sequential_instance env k n). io_op io = Some WRITE"
  by (simp add: sequential_instance_def Let_def warmup_writes)

subsection \<open>Programs that never fault\<close>

text \<open>As long as the tier-down thread clears nothing in use and no push returns from its wait unsignalled.\<close>

definition never_faults :: "Program \<Rightarrow> bool" where
  "never_faults p \<longleftrightarrow> (\<forall>s. program_step\<^sup>*\<^sup>* p s \<longrightarrow> \<not> disturbed s \<longrightarrow> storage_ok (store s) \<and>
     (\<forall>io e. storage s = Serving io \<longrightarrow> serve_round io (store s, p_count s) = Inl e \<longrightarrow> e = Diverged))"

lemma enduring_never_faults:
  assumes "enduring (Flags.truncate opt)" and "create_instance env opt = Inr st" and "\<forall>io \<in> set ios. io_op io = Some WRITE"
  shows "never_faults (program_start 128 ios st)"
proof -
  have w: "\<forall>io \<in> set ios. io_op io \<noteq> Some READ" using assms(3) by simp
  note reached = reached_lasting [OF assms(1) assms(2) [unfolded create_instance_def] w]
  have "storage_ok (store s) \<and> (\<forall>io e. storage s = Serving io \<longrightarrow> serve_round io (store s, p_count s) = Inl e \<longrightarrow> e = Diverged)"
    if s: "program_step\<^sup>*\<^sup>* (program_start 128 ios st) s" "\<not> disturbed s" for s
  proof -
    have l: "lasting (stall_level (Flags.truncate opt)) (store s)" by (rule reached(1) [OF _ s]) simp
    have "e = Diverged" if "storage s = Serving io" "serve_round io (store s, p_count s) = Inl e" for io e
      using lasting_serve [OF l reached(2) [OF _ s that(1)], of "p_count s"] that(2) by simp
    then show ?thesis using l by (auto simp: lasting_def Let_def)
  qed
  then show ?thesis by (simp add: never_faults_def)
qed

lemma created:
  assumes "sane (Flags.truncate opt)"
  shows "\<exists>st. create_instance env opt = Inr st"
  using sane_instance [OF assms, of "e_junk1 env" "e_junk2 env" "e_behind env" "e_time env" "e_future env"]
  unfolding create_instance_def by blast

subsection \<open>The number of requests\<close>

lemma set_IOCount_eq:
  assumes "x = 2560 * FLAGS_blockCount opt \<or> x = 2560 * FLAGS_blockCount opt - 2 ^ 32" and "- (2 ^ 31) \<le> x" and "x < 2 ^ 31"
  shows "FLAGS_IOCount (set_IOCount opt) = x"
proof -
  let ?n = "FLAGS_blockCount opt"
  have "(of_int (5 * ?n) * 512 :: u64) = of_int (2560 * ?n)" by simp
  then have "(ucast (of_int (5 * ?n) * 512 :: u64) :: u32) = of_int (take_bit 64 (2560 * ?n))" by (simp only: unsigned_of_int) simp
  also have "\<dots> = of_int (2560 * ?n)" by (simp only: word_of_int_eq_iff) (simp add: take_bit_take_bit)
  also have "\<dots> = of_int x" using assms(1) by auto
  finally have "FLAGS_IOCount (set_IOCount opt) = sint (of_int x :: u32)" by (simp add: set_IOCount_def)
  then show ?thesis using assms(2,3) by (simp add: signed_of_int signed_take_bit_int_eq_self)
qed

text \<open>\<open>FLAGS_IOCount\<close> is 2560 requests per block up to 838860 blocks; one block more and the number does not fit an
  \<open>int\<close>: it is negative, and as the unsigned 64-bit \<open>maxIOCount\<close> of the Zipf workload more than \<open>2 ^ 63\<close>.\<close>

theorem request_count_wraps:
  assumes "1 \<le> FLAGS_blockCount opt" and "FLAGS_blockCount opt \<le> 1677721"
  shows "unat (maxIOCount (zipf_test_conf n theta (FLAGS_IOCount (set_IOCount opt)))) =
    (if FLAGS_blockCount opt \<le> 838860 then 2560 * nat (FLAGS_blockCount opt)
     else 2 ^ 64 - 2 ^ 32 + 2560 * nat (FLAGS_blockCount opt))"
proof (cases "FLAGS_blockCount opt \<le> 838860")
  case True
  then have "FLAGS_IOCount (set_IOCount opt) = 2560 * FLAGS_blockCount opt" using assms(1) by (intro set_IOCount_eq) simp_all
  moreover have "unat (of_int (2560 * FLAGS_blockCount opt) :: u64) = nat (2560 * FLAGS_blockCount opt)"
    by (rule unat_of_int64) (use True assms(1) in simp_all)
  ultimately show ?thesis using True assms(1) by (simp add: zipf_test_conf_def nat_mult_distrib)
next
  case False
  let ?x = "2560 * FLAGS_blockCount opt - 2 ^ 32"
  have "FLAGS_IOCount (set_IOCount opt) = ?x" using assms(2) False by (intro set_IOCount_eq) simp_all
  then have c: "maxIOCount (zipf_test_conf n theta (FLAGS_IOCount (set_IOCount opt))) = of_int ?x" by (simp only: zipf_test_conf_def ZipfGeneratorConfigure.select_convs)
  have e: "(of_int ?x :: u64) = of_int (?x + 2 ^ 64)" by simp
  have u: "unat (of_int (?x + 2 ^ 64) :: u64) = nat (?x + 2 ^ 64)"
    by (rule unat_of_int64) (use False assms(2) in simp_all)
  have "nat (?x + 2 ^ 64) = 2 ^ 64 - 2 ^ 32 + 2560 * nat (FLAGS_blockCount opt)" using False by simp
  then show ?thesis unfolding c e u using False by simp
qed

theorem request_count_wraps_witness:
  "2 ^ 63 < unat (maxIOCount (zipf_test_conf 1 0 (FLAGS_IOCount (set_IOCount (default_options\<lparr>FLAGS_blockCount := 838861\<rparr>)))))"
  using request_count_wraps [of "default_options\<lparr>FLAGS_blockCount := 838861\<rparr>" 1 0] by simp

text \<open>A program environment for the witnesses: one value from every source, and no schedule for the disks' threads.\<close>

definition still_env :: "unit Env" where
  "still_env = \<lparr>wrap_int = id, scan_lf = \<lambda>_. None, show_lf = \<lambda>_. ''0.000000'', null_text = ''(null)'', new_zipf = \<lambda>_ _. (),
     next_zipf = \<lambda>g. (0, g), draws = \<lambda>_ _. (0, 0), e_junk1 = 0, e_junk2 = 0, e_behind = 0, e_time = 0, e_future = []\<rparr>"

subsection \<open>The command line\<close>

definition script_options :: "int \<Rightarrow> Options" where
  "script_options level = default_options\<lparr>FLAGS_t0BlockCount := 2500, FLAGS_t1BlockCount := 25000, FLAGS_enableFlush := True,
     FLAGS_tierdownWaterLevel := level, FLAGS_requestQSize := 64, FLAGS_hostConcurrency := 64, FLAGS_backConcurrency := 32,
     FLAGS_t0DiskSymbolName := ''/dev/sdd'', FLAGS_t1DiskSymbolName := ''/dev/sdc'', FLAGS_dataRatio := 65,
     FLAGS_workload := Some ''write_static_99''\<rparr>"

lemma script_options_flags: "c_int level \<Longrightarrow> c_flags (script_options level)"
  by (simp add: c_flags_def c_int_def script_options_def default_options_def default_flags_def Flags.defs Options.defs)

text \<open>C28: Every command line that sets the sixteen flags of all drivers to values that C has for them is read back by the
  drivers exactly as it was written, whatever the flags were before; only what has no flag on it stays as it was.\<close>

theorem command_line_round_trip:
  assumes "c_flags opt"
  shows "parse_args (base_zipf_flags wrap lf) (print_flags opt) before = Inr (unflagged opt before) \<and>
    parse_args (moti_flags wrap) (print_flags opt) before = Inr (unflagged opt before) \<and>
    parse_args (uniform_flags wrap) (print_flags opt) before = Inr (unflagged opt before)"
  using print_parse [OF assms] by (simp add: uniform_moti_flags)

theorem command_line_round_trip_witness:
  "parse_args (moti_flags id) (print_flags (script_options 60)) default_options = Inr (script_options 60)"
  using command_line_round_trip [of "script_options 60" id "\<lambda>_. None" default_options] script_options_flags [of 60]
  by (simp add: c_int_def unflagged_def script_options_def)

definition number_names :: "string list" where
  "number_names = [''--t0_block_count='', ''--t1_block_count='', ''--enable_bypass='', ''--enable_flush='',
     ''--gc_water_level='', ''--tierdown_water_level='', ''--gc_block_ratio='', ''--tierdown_block_ratio='',
     ''--host_queue_size='', ''--host_threads='', ''--back_threads='', ''--data_ratio='', ''--workload_interval='']"

lemma first_flag_number:
  shows "name \<in> set number_names \<Longrightarrow> first_flag (moti_flags w) (flag_text name v) opt = None \<longleftrightarrow> \<not> number_text v"
    and "name \<in> set (''--log='' # number_names) \<Longrightarrow> first_flag (base_zipf_flags w lf) (flag_text name v) opt = None \<longleftrightarrow> \<not> number_text v"
proof -
  have none: "int_flag w name put (flag_text name v) opt = None \<longleftrightarrow> \<not> number_text v" for name put
    unfolding scan_d_all [symmetric] by (auto simp: int_flag_def flag_text_def sscanf_1_def split: option.split list.split)
  have first: "first_flag (h # hs) arg opt = None \<longleftrightarrow> h arg opt = None \<and> first_flag hs arg opt = None" for h hs arg
    by (simp split: option.split)
  show "first_flag (moti_flags w) (flag_text name v) opt = None \<longleftrightarrow> \<not> number_text v" if "name \<in> set number_names"
    using that unfolding number_names_def
    by (simp_all only: list.set insert_iff empty_iff simp_thms, (elim disjE; simp add: flag_clash none first store_flags_def
        moti_flags_def base_zipf_flags_def del: first_flag.simps(2))+)
  show "first_flag (base_zipf_flags w lf) (flag_text name v) opt = None \<longleftrightarrow> \<not> number_text v" if "name \<in> set (''--log='' # number_names)"
    using that unfolding number_names_def
    by (simp_all only: list.set insert_iff empty_iff simp_thms, (elim disjE; simp add: flag_clash none first store_flags_def
        moti_flags_def base_zipf_flags_def del: first_flag.simps(2))+)
qed

lemma parse_args_append: "parse_args hs (as @ bs) opt = bindE (parse_args hs as opt) (parse_args hs bs)"
  by (induction as arbitrary: opt) (simp_all split: option.split)

text \<open>Behind the name of an integer flag the three drivers take space, at most one sign and digits, and nothing else: any
  other such argument ends the program at once, whatever follows it. \<open>base_zipf\<close> has one such flag more, \<open>--log=\<close>.\<close>

theorem numbers_only:
  assumes "(names, flags, main) \<in> {(''--log='' # number_names, base_zipf_flags (wrap_int env) (scan_lf env), base_zipf_main env),
      (number_names, moti_flags (wrap_int env), moti_main env), (number_names, uniform_flags (wrap_int env), uniform_main env)}"
    and "name \<in> set names" and "parse_args flags args default_options = Inr opt"
  shows "((\<exists>opt2. parse_args flags (args @ [flag_text name v]) default_options = Inr opt2) \<longleftrightarrow> number_text v) \<and>
    (\<not> number_text v \<longrightarrow> main (args @ flag_text name v # rest) = Inl ExitFailure)"
proof -
  have f: "first_flag flags (flag_text name v) opt = None \<longleftrightarrow> \<not> number_text v"
    using assms(1,2) first_flag_number by (auto simp: uniform_moti_flags)
  then have "(\<exists>opt2. parse_args flags (args @ [flag_text name v]) default_options = Inr opt2) \<longleftrightarrow> number_text v"
    using assms(3) by (auto simp: parse_args_append split: option.split)
  moreover have "main (args @ flag_text name v # rest) = Inl ExitFailure" if "\<not> number_text v"
  proof -
    have "parse_args flags (args @ flag_text name v # rest) default_options = Inl ExitFailure"
      using assms(3) f that by (simp add: parse_args_append)
    then show ?thesis using assms(1) by (auto simp: base_zipf_main_def moti_main_def uniform_main_def)
  qed
  ultimately show ?thesis by blast
qed

theorem numbers_only_witness:
  "base_zipf_main still_env [flag_text ''--log='' ''4 ''] = Inl ExitFailure \<and>
   moti_main still_env [flag_text ''--host_threads='' ''4 ''] = Inl ExitFailure"
proof -
  have n: "''--log='' \<in> set (''--log='' # number_names)" "''--host_threads='' \<in> set number_names" by (simp_all add: number_names_def)
  have p: "parse_args fs [] default_options = Inr default_options" for fs by simp
  have v: "\<not> number_text ''4 ''" by code_simp
  show ?thesis
    using numbers_only [OF _ n(1) p, of "base_zipf_flags (wrap_int still_env) (scan_lf still_env)" "base_zipf_main still_env" still_env "''4 ''" "[]"]
      numbers_only [OF _ n(2) p, of "moti_flags (wrap_int still_env)" "moti_main still_env" still_env "''4 ''" "[]"] v by simp
qed

subsection \<open>The drivers\<close>

text \<open>The whole run of \<open>base_zipf\<close> and of \<open>moti\<close> with disks.\<close>

lemma base_zipf_runs:
  assumes "parse_args (base_zipf_flags (wrap_int env) (scan_lf env)) args default_options = Inr opt"
    and "enduring (Flags.truncate opt)"
    and "percent_blocks (FLAGS_dataRatio opt) (FLAGS_t0BlockCount opt + FLAGS_t1BlockCount opt) \<noteq> 0"
  shows "\<exists>log_name report_name p. base_zipf_main env args = Inr (log_name, report_name, p) \<and> never_faults p"
proof -
  let ?o = "set_IOCount (set_blockCount opt)"
  have t: "Flags.truncate ?o = Flags.truncate opt" by (simp add: set_IOCount_def set_blockCount_def Flags.truncate_def)
  obtain st where st: "create_instance env ?o = Inr st" using created [of ?o env] assms(2) t by (auto simp: enduring_def)
  have b: "FLAGS_blockCount ?o = FLAGS_t0BlockCount opt + FLAGS_t1BlockCount opt" "FLAGS_dataRatio ?o = FLAGS_dataRatio opt"
    by (simp_all add: set_IOCount_def set_blockCount_def)
  let ?c = "percent_blocks (FLAGS_dataRatio ?o) (FLAGS_blockCount ?o)"
  let ?z = "zipf_test_conf ?c (FLAGS_theta ?o) (FLAGS_IOCount ?o)"
  have "maxBlockCount ?z \<noteq> 0" "zc_readWriteRatio ?z = 0" using assms(3) b by (simp_all add: zipf_test_conf_def)
  from zipf_instance_requests [OF this, of env 1] obtain ios where ios: "zipf_instance env 1 ?z = Inr ios" "\<forall>io \<in> set ios. io_op io = Some WRITE"
    by blast
  have "\<forall>io \<in> set (sequential_instance env 0 ?c @ ios). io_op io = Some WRITE" using sequential_writes ios(2) by auto
  from enduring_never_faults [OF _ st this] have "never_faults (program_start 128 (sequential_instance env 0 ?c @ ios) st)"
    using assms(2) t by simp
  then show ?thesis using assms(1) st ios(1) by (simp add: base_zipf_main_def base_zipf_TEST_def base_zipf_RunExp_def Let_def)
qed

lemma moti_runs:
  assumes "parse_args (moti_flags (wrap_int env)) args default_options = Inr opt"
    and "enduring (Flags.truncate opt)" and "percent_blocks (FLAGS_tierdownWaterLevel opt) (FLAGS_t0BlockCount opt) \<noteq> 0"
  shows "\<exists>log_name report_name p. moti_main env args = Inr (log_name, report_name, p) \<and> never_faults p"
proof -
  let ?o = "set_blockCount opt"
  have t: "Flags.truncate ?o = Flags.truncate opt" by (simp add: set_blockCount_def Flags.truncate_def)
  obtain st where st: "create_instance env ?o = Inr st" using created [of ?o env] assms(2) t by (auto simp: enduring_def)
  let ?z = "moti_conf (percent_blocks (FLAGS_tierdownWaterLevel ?o) (FLAGS_t0BlockCount ?o))"
  let ?q = "sequential_instance env 0 (percent_blocks (FLAGS_dataRatio ?o) (FLAGS_blockCount ?o))"
  have z: "maxBlockCount ?z \<noteq> 0" "zc_readWriteRatio ?z = 0" using assms(3) by (simp_all add: moti_conf_def zipf_test_conf_def set_blockCount_def)
  obtain a where a: "zipf_instance env 1 ?z = Inr a" "\<forall>io \<in> set a. io_op io = Some WRITE" using zipf_instance_requests [OF z, of env 1] by blast
  obtain b where b: "zipf_instance env 2 ?z = Inr b" "\<forall>io \<in> set b. io_op io = Some WRITE" using zipf_instance_requests [OF z, of env 2] by blast
  have "\<forall>io \<in> set (?q @ a @ b). io_op io = Some WRITE" using sequential_writes a(2) b(2) by auto
  from enduring_never_faults [OF _ st this] have "never_faults (program_start 128 (?q @ a @ b) st)" using assms(2) t by simp
  then show ?thesis using assms(1) st a(1) b(1) by (simp add: moti_main_def moti_TEST_def moti_RunExp_def Let_def)
qed

text \<open>The command line of the scripts run_moti.sh (level 60) and run_x.sh (the levels 10 to 85), in their order.\<close>

definition script_args :: "string \<Rightarrow> string list" where
  "script_args level = [''--t0_block_count=2500'', ''--t1_block_count=25000'', ''--enable_bypass=0'', ''--enable_flush=1'',
     ''--gc_water_level=10'', ''--gc_block_ratio=1'', ''--tierdown_water_level='' @ level, ''--tierdown_block_ratio=1'',
     ''--host_queue_size=64'', ''--host_threads=64'', ''--back_threads=32'', ''--t0=/dev/sdd'', ''--t1=/dev/sdc'',
     ''--data_ratio=65'', ''--workload_type=write_static_99'', ''--workload_interval=1'']"

lemma digits: "digit 0 = CHR ''0''" "digit 1 = CHR ''1''" "digit 2 = CHR ''2''" "digit 3 = CHR ''3''" "digit 4 = CHR ''4''"
  "digit 5 = CHR ''5''" "digit 6 = CHR ''6''" "digit 7 = CHR ''7''" "digit 8 = CHR ''8''" "digit 9 = CHR ''9''"
  by code_simp+

lemma script_texts: "int_text 2500 = ''2500''" "int_text 25000 = ''25000''" "int_text 0 = ''0''" "int_text 1 = ''1''" "int_text 10 = ''10''"
  "int_text 64 = ''64''" "int_text 32 = ''32''" "int_text 65 = ''65''"
  by (simp_all add: int_text_def decimal.simps digits digits(2) [unfolded One_nat_def])

lemma script_args_eq: "script_args (int_text level) = print_flags (script_options level)"
  by (simp add: script_args_def print_flags_def script_options_def default_options_def default_flags_def Flags.defs Options.defs
      script_texts flag_text_def)

lemma random_instance_writes:
  assumes "cnt \<noteq> 0"
  shows "\<exists>ios. random_instance env k cnt n = Inr ios \<and> (\<forall>io \<in> set ios. io_op io = Some WRITE)"
proof -
  let ?g = "CreateRandomGenerator cnt n"
  have "unat (rg_maxLbaCount ?g) \<noteq> 0" using assms by (simp add: CreateRandomGenerator_def unat_lba_count unat_eq_0)
  then have "rg_maxLbaCount ?g \<noteq> 0" by auto
  from random_workload_total [OF this] obtain ios where
    r: "random_workload (map (draws env k) [0..<unat (rg_maxIOCount ?g)]) ?g = Inr ios" by blast
  have "random_workload ds gen = Inr a \<Longrightarrow> \<forall>io \<in> set a. io_op io = Some WRITE" for ds gen a
    by (induction ds gen arbitrary: a rule: random_workload.induct) (auto simp: fault_iff GenerateReadWriteIO_def split: if_split_asm)
  then show ?thesis using r by (simp add: random_instance_def Let_def)
qed

lemma uniform_runs:
  assumes "parse_args (uniform_flags (wrap_int env)) args default_options = Inr opt"
    and "enduring (Flags.truncate opt)"
    and "percent_blocks (FLAGS_t0BlockCount opt + FLAGS_t1BlockCount opt) (FLAGS_dataRatio opt) \<noteq> 0"
  shows "\<exists>log_name report_name p. uniform_main env args = Inr (log_name, report_name, p) \<and> never_faults p"
proof -
  let ?o = "set_blockCount opt"
  have t: "Flags.truncate ?o = Flags.truncate opt" by (simp add: set_blockCount_def Flags.truncate_def)
  obtain st where st: "create_instance env ?o = Inr st" using created [of ?o env] assms(2) t by (auto simp: enduring_def)
  let ?q = "sequential_instance env 0 (percent_blocks (FLAGS_dataRatio ?o) (FLAGS_blockCount ?o))"
  have "percent_blocks (FLAGS_blockCount ?o) (FLAGS_dataRatio ?o) \<noteq> 0" using assms(3) by (simp add: set_blockCount_def)
  from random_instance_writes [OF this, of env 1 50000000]
  obtain a where a: "random_instance env 1 (percent_blocks (FLAGS_blockCount ?o) (FLAGS_dataRatio ?o)) 50000000 = Inr a"
      "\<forall>io \<in> set a. io_op io = Some WRITE" by blast
  have "\<forall>io \<in> set (?q @ a). io_op io = Some WRITE" using sequential_writes a(2) by auto
  from enduring_never_faults [OF _ st this] have "never_faults (program_start 128 (?q @ a) st)" using assms(2) t by simp
  then show ?thesis using assms(1) st a(1) by (simp add: uniform_main_def uniform_TEST_def uniform_RunExp_def Let_def)
qed

subsection \<open>The runs of the scripts\<close>

lemma script_enduring:
  assumes "10 \<le> level" and "level \<le> 85"
  shows "enduring (Flags.truncate (script_options level))"
  using assms by (simp add: enduring_def sane_def script_options_def default_options_def default_flags_def Flags.defs Options.defs
      reservedSpaceRatio_def ceil_div_def)

lemma script_parse:
  assumes "10 \<le> level" and "level \<le> 85"
  shows "parse_args (moti_flags w) (script_args (int_text level)) default_options = Inr (script_options level)"
    and "parse_args (base_zipf_flags w lf) (script_args (int_text level)) default_options = Inr (script_options level)"
proof -
  have c: "c_flags (script_options level)" by (rule script_options_flags) (use assms in \<open>simp add: c_int_def\<close>)
  have u: "unflagged (script_options level) default_options = script_options level" by (simp add: unflagged_def script_options_def)
  show "parse_args (moti_flags w) (script_args (int_text level)) default_options = Inr (script_options level)"
      "parse_args (base_zipf_flags w lf) (script_args (int_text level)) default_options = Inr (script_options level)"
    unfolding script_args_eq print_parse [OF c] u by simp_all
qed

lemma script_blocks:
  assumes "10 \<le> level" and "level \<le> 85"
  defines "opt \<equiv> script_options level"
  shows "percent_blocks (FLAGS_dataRatio opt) (FLAGS_t0BlockCount opt + FLAGS_t1BlockCount opt) \<noteq> 0"
    and "percent_blocks (FLAGS_t0BlockCount opt + FLAGS_t1BlockCount opt) (FLAGS_dataRatio opt) \<noteq> 0"
    and "unat (percent_blocks (FLAGS_tierdownWaterLevel opt) (FLAGS_t0BlockCount opt)) = nat (25 * level)"
proof -
  show "percent_blocks (FLAGS_dataRatio opt) (FLAGS_t0BlockCount opt + FLAGS_t1BlockCount opt) \<noteq> 0"
      "percent_blocks (FLAGS_t0BlockCount opt + FLAGS_t1BlockCount opt) (FLAGS_dataRatio opt) \<noteq> 0"
    by (simp_all add: opt_def script_options_def percent_blocks_def)
  have "level * 2500 sdiv 100 = 25 * level" using assms(1,2) by (subst sdiv_nonneg) simp_all
  moreover have "unat (of_int (25 * level) :: u32) = nat (25 * level)" by (rule unat_of_int32) (use assms(1,2) in simp_all)
  ultimately show "unat (percent_blocks (FLAGS_tierdownWaterLevel opt) (FLAGS_t0BlockCount opt)) = nat (25 * level)"
    by (simp add: opt_def script_options_def percent_blocks_def del: of_int_mult)
qed

text \<open>C8: Each driver, started with the command line of run_x.sh or run_moti.sh and a tier-down level of 10 to 85 percent,
  reads its flags, creates the store, and starts threads that never fault, whatever numbers the random sources give and whatever
  the clock and the disks do: in every state they reach, as long as the tier-down thread clears nothing that \<open>HandleTierDown\<close>
  is using and no push returns from its wait unsignalled, the store is consistent, and the request in hand is served or
  waits for the disk. For \<open>base_zipf\<close>, whose source names a \<open>FLAGS_log\<close> that no file defines, this is the program linked with one.\<close>

theorem script_runs_never_fault:
  assumes "10 \<le> level" and "level \<le> 85"
  shows "\<forall>run \<in> {base_zipf_main env, moti_main env, uniform_main env}.
    \<exists>log_name report_name p. run (script_args (int_text level)) = Inr (log_name, report_name, p) \<and> never_faults p"
proof -
  note p = script_parse [OF assms] and e = script_enduring [OF assms] and b = script_blocks [OF assms]
  have t: "percent_blocks (FLAGS_tierdownWaterLevel (script_options level)) (FLAGS_t0BlockCount (script_options level)) \<noteq> 0"
  proof
    assume "percent_blocks (FLAGS_tierdownWaterLevel (script_options level)) (FLAGS_t0BlockCount (script_options level)) = 0"
    with b(3) assms show False by simp
  qed
  show ?thesis using base_zipf_runs [OF p(2) e b(1)] moti_runs [OF p(1) e t]
      uniform_runs [OF p(1) [folded uniform_moti_flags] e b(2)] by auto
qed

theorem script_runs_never_fault_witness:
  "\<exists>log_name report_name p. moti_main still_env (script_args (int_text 60)) = Inr (log_name, report_name, p) \<and> never_faults p"
  using script_runs_never_fault [of 60 still_env] by simp

text \<open>C38: The third case of \<open>moti\<close>, meant to write over the data of both tiers, repeats the second: as many requests, all
  in the pages that the tier-down level of tier 0 counts, since \<open>&zipfConf\<close> is passed and not \<open>&zipf_Conf\<close>.\<close>

theorem moti_third_case:
  assumes "create_instance env opt = Inr st" and "percent_blocks (FLAGS_tierdownWaterLevel opt) (FLAGS_t0BlockCount opt) \<noteq> 0"
  shows "\<exists>case2 case3. moti_RunExp env opt = Inr (program_start 128
      (sequential_instance env 0 (percent_blocks (FLAGS_dataRatio opt) (FLAGS_blockCount opt)) @ case2 @ case3) st) \<and>
    length case2 = 30000000 \<and> length case3 = 30000000 \<and>
    (\<forall>io \<in> set (case2 @ case3). io_op io = Some WRITE \<and>
       (\<exists>x < lba_count (percent_blocks (FLAGS_tierdownWaterLevel opt) (FLAGS_t0BlockCount opt)). io_lba io = push_bit 13 x))"
proof -
  let ?z = "moti_conf (percent_blocks (FLAGS_tierdownWaterLevel opt) (FLAGS_t0BlockCount opt))"
  have z: "maxBlockCount ?z \<noteq> 0" "zc_readWriteRatio ?z = 0" "unat (maxIOCount ?z) = 30000000"
    using assms(2) by (simp_all add: moti_conf_def zipf_test_conf_def)
  have m: "maxBlockCount ?z = percent_blocks (FLAGS_tierdownWaterLevel opt) (FLAGS_t0BlockCount opt)"
    by (simp add: moti_conf_def zipf_test_conf_def)
  note r = zipf_instance_requests [OF z(1,2), of env, unfolded z(3) m]
  obtain a where a: "zipf_instance env 1 ?z = Inr a" "length a = 30000000" "\<forall>io \<in> set a. io_op io = Some WRITE \<and>
      (\<exists>x < lba_count (percent_blocks (FLAGS_tierdownWaterLevel opt) (FLAGS_t0BlockCount opt)). io_lba io = push_bit 13 x)"
    using r [of 1] by blast
  obtain b where b: "zipf_instance env 2 ?z = Inr b" "length b = 30000000" "\<forall>io \<in> set b. io_op io = Some WRITE \<and>
      (\<exists>x < lba_count (percent_blocks (FLAGS_tierdownWaterLevel opt) (FLAGS_t0BlockCount opt)). io_lba io = push_bit 13 x)"
    using r [of 2] by blast
  have "moti_RunExp env opt = Inr (program_start 128
      (sequential_instance env 0 (percent_blocks (FLAGS_dataRatio opt) (FLAGS_blockCount opt)) @ a @ b) st)"
    using assms(1) a(1) b(1) by (simp add: moti_RunExp_def Let_def)
  then show ?thesis using a(2,3) b(2,3) by (intro exI [of _ a] exI [of _ b]) auto
qed

theorem moti_third_case_witness:
  "\<exists>p. moti_RunExp still_env (set_blockCount (script_options 60)) = Inr p"
proof -
  have t: "Flags.truncate (set_blockCount (script_options 60)) = Flags.truncate (script_options 60)"
    by (simp add: set_blockCount_def Flags.truncate_def)
  obtain st where st: "create_instance still_env (set_blockCount (script_options 60)) = Inr st"
    using created [of "set_blockCount (script_options 60)" still_env] script_enduring [of 60] t by (auto simp: enduring_def)
  have "percent_blocks (FLAGS_tierdownWaterLevel (set_blockCount (script_options 60))) (FLAGS_t0BlockCount (set_blockCount (script_options 60))) \<noteq> 0"
    by (simp add: percent_blocks_def set_blockCount_def script_options_def)
  from moti_third_case [OF st this] show ?thesis by blast
qed

text \<open>C39: Started without arguments, every driver divides by 0 at the first request of its second workload: the ratio of the
  data (in \<open>moti\<close>, the tier-down level) is 0 percent, and so is the number of pages to draw from.\<close>

theorem no_flags_no_workload:
  "base_zipf_main env [] = Inl DivByZero \<and> moti_main env [] = Inl DivByZero \<and> uniform_main env [] = Inl DivByZero"
proof -
  have c: "\<exists>st. create_instance env opt = Inr st" if "Flags.truncate opt = default_flags" for opt
    using default_created [of "e_junk1 env" "e_junk2 env" "e_behind env" "e_time env" "e_future env"] that
    by (auto simp: create_instance_def CreateStorageSystemInstance_def)
  have t: "Flags.truncate (set_blockCount default_options) = default_flags"
      "Flags.truncate (set_IOCount (set_blockCount default_options)) = default_flags"
    by (simp_all add: set_IOCount_def set_blockCount_def Flags.truncate_def default_options_def default_flags_def Flags.defs Options.defs)
  obtain s1 s2 where s: "create_instance env (set_blockCount default_options) = Inr s1"
      "create_instance env (set_IOCount (set_blockCount default_options)) = Inr s2"
    using c [OF t(1)] c [OF t(2)] by blast
  have d: "percent_blocks (FLAGS_dataRatio (set_IOCount (set_blockCount default_options))) n = 0"
      "percent_blocks (FLAGS_tierdownWaterLevel (set_blockCount default_options)) n = 0"
      "percent_blocks n (FLAGS_dataRatio (set_blockCount default_options)) = 0" for n
    by (simp_all add: percent_blocks_def set_IOCount_def set_blockCount_def default_options_def default_flags_def Flags.defs Options.defs
        signed_divide_int_def)
  have "FLAGS_IOCount (set_IOCount (set_blockCount default_options)) = 2816000"
    by (subst set_IOCount_eq [of 2816000])
      (simp_all add: set_blockCount_def default_options_def default_flags_def Flags.defs Options.defs)
  then have "base_zipf_main env [] = Inl DivByZero"
    using s(2) d(1) by (simp add: base_zipf_main_def base_zipf_TEST_def base_zipf_RunExp_def Let_def zipf_instance_empty_device zipf_test_conf_def)
  moreover have "moti_main env [] = Inl DivByZero"
    using s(1) d(2) by (simp add: moti_main_def moti_TEST_def moti_RunExp_def Let_def zipf_instance_empty_device moti_conf_def zipf_test_conf_def)
  moreover have "uniform_main env [] = Inl DivByZero"
    using s(1) d(3) by (simp add: uniform_main_def uniform_TEST_def uniform_RunExp_def Let_def random_instance_empty_device)
  ultimately show ?thesis by blast
qed

end
